(* ===== verification/Prelude.thy ===== *)
theory Prelude
  imports Main "HOL-Library.Sublist" "HOL-Library.Char_ord" "HOL-Library.List_Lexorder"
    "HOL-Library.Product_Lexorder" "HOL-Library.Finite_Map"
begin

text \<open>
  The parts of Go and of its standard library that the components share.

  \<^item> A Go \<open>string\<close> and a \<open>[]byte\<close> are lists of bytes, the type \<open>string\<close> of HOL; the
    built-in order on strings is the lexicographic order of the bytes (theories
    \<open>List_Lexorder\<close> and \<open>Char_ord\<close>). Ranging over a string visits its runes
    (\<open>runes\<close>), which follow Go's decoding of UTF-8, invalid bytes included.
  \<^item> A slice that may be \<open>nil\<close> is an option of a list; \<open>nil\<close> and an empty slice are
    equal for \<open>len\<close> and \<open>range\<close> and differ only for a comparison with \<open>nil\<close>.
  \<^item> A \<open>map[string]T\<close> is a finite map \<open>(string, 'a) fmap\<close>; the nil map is read as the
    empty one, as Go reads it.
  \<^item> A buffered channel is the list of the values it holds.
\<close>

named_theorems go_simps \<open>unfolding rules of the string and slice operations\<close>
named_theorems chan_simps \<open>what a drain-then-send leaves in a channel\<close>
named_theorems inv_intros \<open>preservation lemmas of the components' invariants\<close>

section \<open>Slices and maps\<close>

type_synonym 'a slice = "'a list option"
type_synonym strmap = "(string, string) fmap"

definition elems :: "'a slice \<Rightarrow> 'a list" where
  "elems s = (case s of None \<Rightarrow> [] | Some xs \<Rightarrow> xs)"

text \<open>The value of a slice declared with \<open>var\<close> and then filled by \<open>append\<close>.\<close>

definition slice_of :: "'a list \<Rightarrow> 'a slice" where
  "slice_of xs = (if xs = [] then None else Some xs)"

lemma elems_simps [simp]: "elems None = []" "elems (Some xs) = xs"
  by (simp_all add: elems_def)

lemma elems_slice_of [simp]: "elems (slice_of xs) = xs"
  by (simp add: slice_of_def)

lemma slice_of_eq_None [simp]: "slice_of xs = None \<longleftrightarrow> xs = []"
  by (simp add: slice_of_def)

section \<open>Channels of capacity one\<close>

text \<open>
  \<open>select { case <-ch: default: }\<close> drops the oldest value if there is one; a send blocks
  when the buffer is full, which \<open>chan_can_send\<close> excludes.
\<close>

definition chan_drain :: "'a list \<Rightarrow> 'a list" where
  "chan_drain buf = (case buf of [] \<Rightarrow> [] | _ # rest \<Rightarrow> rest)"

definition chan_can_send :: "nat \<Rightarrow> 'a list \<Rightarrow> bool" where
  "chan_can_send cap buf \<longleftrightarrow> length buf < cap"

lemma length_chan_drain [simp]: "length (chan_drain buf) = length buf - 1"
  by (simp add: chan_drain_def split: list.splits)

lemma chan_drain_cap1: "length buf \<le> 1 \<Longrightarrow> chan_drain buf = []"
  by (cases buf) (auto simp: chan_drain_def)

section \<open>Decimal numbers\<close>

definition digit_char :: "nat \<Rightarrow> char" where
  "digit_char d = char_of (48 + d)"

definition is_digit :: "char \<Rightarrow> bool" where
  "is_digit c \<longleftrightarrow> CHR ''0'' \<le> c \<and> c \<le> CHR ''9''"

definition digit_val :: "char \<Rightarrow> nat" where
  "digit_val c = of_char c - 48"

fun show_nat :: "nat \<Rightarrow> string" where
  "show_nat n = (if n < 10 then [digit_char n] else show_nat (n div 10) @ [digit_char (n mod 10)])"

declare show_nat.simps [simp del]

text \<open>\<open>strconv.FormatInt (v, 10)\<close>.\<close>

definition show_int :: "int \<Rightarrow> string" where
  "show_int i = (if i < 0 then CHR ''-'' # show_nat (nat (- i)) else show_nat (nat i))"

definition digits_val :: "string \<Rightarrow> nat" where
  "digits_val ds = foldl (\<lambda>n c. 10 * n + digit_val c) 0 ds"

text \<open>A non-empty run of ASCII digits, and nothing else.\<close>

definition parse_nat :: "string \<Rightarrow> nat option" where
  "parse_nat ds = (if ds \<noteq> [] \<and> list_all is_digit ds then Some (digits_val ds) else None)"

text \<open>
  \<open>strconv.ParseInt (s, 10, bits)\<close>: an optional sign, then decimal digits; an error on bad
  syntax and on a value outside the range of a signed integer of that many bits.
\<close>

definition parse_int :: "nat \<Rightarrow> string \<Rightarrow> int option" where
  "parse_int bits s =
     (let neg = (case s of c # _ \<Rightarrow> c = CHR ''-'' | [] \<Rightarrow> False);
          body = (case s of c # cs \<Rightarrow> if c = CHR ''-'' \<or> c = CHR ''+'' then cs else s | [] \<Rightarrow> [])
      in case parse_nat body of
           None \<Rightarrow> None
         | Some n \<Rightarrow> if neg then (if n \<le> 2 ^ (bits - 1) then Some (- int n) else None)
                    else (if n < 2 ^ (bits - 1) then Some (int n) else None))"

lemma of_char_digit_char: "d < 10 \<Longrightarrow> of_char (digit_char d) = 48 + d"
  by (simp add: digit_char_def)

lemma digit_val_digit_char [simp]: "d < 10 \<Longrightarrow> digit_val (digit_char d) = d"
  by (simp add: digit_val_def of_char_digit_char)

lemma is_digit_iff: "is_digit c \<longleftrightarrow> 48 \<le> (of_char c :: nat) \<and> (of_char c :: nat) \<le> 57"
  by (simp add: is_digit_def less_eq_char_def)

lemma is_digit_digit_char [simp]: "d < 10 \<Longrightarrow> is_digit (digit_char d)"
  by (simp add: is_digit_iff of_char_digit_char)

lemma show_nat_digits: "list_all is_digit (show_nat n)"
proof (induction n rule: show_nat.induct)
  case (1 n)
  then show ?case by (cases "n < 10") (simp_all add: show_nat.simps [of n])
qed

lemma show_nat_nonempty [simp]: "show_nat n \<noteq> []"
  by (subst show_nat.simps) simp

lemma digits_val_snoc: "digits_val (ds @ [c]) = 10 * digits_val ds + digit_val c"
  by (simp add: digits_val_def)

lemma digits_val_show_nat [simp]: "digits_val (show_nat n) = n"
proof (induction n rule: show_nat.induct)
  case (1 n)
  show ?case
  proof (cases "n < 10")
    case True
    then show ?thesis by (simp add: show_nat.simps [of n] digits_val_def)
  next
    case False
    with 1 show ?thesis by (simp add: show_nat.simps [of n] digits_val_snoc)
  qed
qed

lemma parse_nat_show_nat [simp]: "parse_nat (show_nat n) = Some n"
  by (simp add: parse_nat_def show_nat_digits)

lemma show_nat_inj [simp]: "show_nat m = show_nat n \<longleftrightarrow> m = n"
  by (metis digits_val_show_nat)

lemma not_digit_sign: "\<not> is_digit (CHR ''-'')" "\<not> is_digit (CHR ''+'')"
  by (simp_all add: is_digit_iff)

lemma show_nat_head: "\<exists>c cs. show_nat n = c # cs \<and> is_digit c"
  using show_nat_digits [of n] by (cases "show_nat n") auto

lemma parse_int_show_int:
  assumes "- (2 ^ (bits - 1)) \<le> i" and "i < 2 ^ (bits - 1)"
  shows "parse_int bits (show_int i) = Some i"
proof (cases "i < 0")
  case True
  then have "nat (- i) \<le> 2 ^ (bits - 1)" using assms(1) by (simp add: nat_le_iff)
  with True show ?thesis by (simp add: parse_int_def show_int_def)
next
  case False
  obtain c cs where c: "show_nat (nat i) = c # cs" "is_digit c" using show_nat_head by blast
  then have sign: "c \<noteq> CHR ''-''" "c \<noteq> CHR ''+''" using not_digit_sign by auto
  have "parse_nat (c # cs) = Some (nat i)" using c by (metis parse_nat_show_nat)
  moreover have "nat i < 2 ^ (bits - 1)" using assms(2) False by (simp add: nat_less_iff)
  ultimately show ?thesis using False c sign by (simp add: parse_int_def show_int_def)
qed

lemma parse_int_range:
  assumes "parse_int bits s = Some i"
  shows "- (2 ^ (bits - 1)) \<le> i \<and> i < 2 ^ (bits - 1)"
proof -
  obtain n :: nat where n: "i = - int n \<and> n \<le> 2 ^ (bits - 1) \<or> i = int n \<and> n < 2 ^ (bits - 1)"
    using assms by (auto simp: parse_int_def Let_def split: option.splits if_splits)
  have le: "int n \<le> 2 ^ (bits - 1)" if "n \<le> 2 ^ (bits - 1)"
    using that by (metis of_nat_le_iff of_nat_numeral of_nat_power)
  have lt: "int n < 2 ^ (bits - 1)" if "n < 2 ^ (bits - 1)"
    using that by (metis of_nat_less_iff of_nat_numeral of_nat_power)
  from n show ?thesis
  proof
    assume "i = - int n \<and> n \<le> 2 ^ (bits - 1)"
    then show ?thesis using le by (smt (verit) of_nat_0_le_iff zero_less_power)
  next
    assume "i = int n \<and> n < 2 ^ (bits - 1)"
    then show ?thesis using lt by (smt (verit) of_nat_0_le_iff zero_less_power)
  qed
qed

section \<open>Runes\<close>

text \<open>
  The number of bytes of the first rune of a string, as \<open>utf8.DecodeRuneInString\<close> decodes it:
  a byte that starts no well-formed sequence is a rune of its own (the replacement character).
\<close>

definition byte :: "char \<Rightarrow> nat" where
  "byte c = of_char c"

definition is_cont :: "nat \<Rightarrow> nat \<Rightarrow> char \<Rightarrow> bool" where
  "is_cont lo hi c \<longleftrightarrow> lo \<le> byte c \<and> byte c \<le> hi"

text \<open>The range of the second byte that the first byte of a longer sequence allows.\<close>

definition second_range :: "nat \<Rightarrow> nat \<times> nat" where
  "second_range b = (if b = 224 then (160, 191) else if b = 237 then (128, 159)
     else if b = 240 then (144, 191) else if b = 244 then (128, 143) else (128, 191))"

definition cont_at :: "string \<Rightarrow> nat \<Rightarrow> nat \<Rightarrow> nat \<Rightarrow> bool" where
  "cont_at s i lo hi \<longleftrightarrow> (case drop i s of [] \<Rightarrow> False | c # _ \<Rightarrow> is_cont lo hi c)"

definition rune_width :: "string \<Rightarrow> nat" where
  "rune_width s = (case s of [] \<Rightarrow> 0 | c # _ \<Rightarrow>
     (let b = byte c; (lo, hi) = second_range b in
      if 194 \<le> b \<and> b \<le> 223 \<and> cont_at s 1 lo hi then 2
      else if 224 \<le> b \<and> b \<le> 239 \<and> cont_at s 1 lo hi \<and> cont_at s 2 128 191 then 3
      else if 240 \<le> b \<and> b \<le> 244 \<and> cont_at s 1 lo hi \<and> cont_at s 2 128 191 \<and> cont_at s 3 128 191
      then 4 else 1))"

lemma rune_width_pos [simp]: "0 < rune_width (c # cs)"
  by (simp add: rune_width_def Let_def split: prod.splits)

text \<open>The runes of a string, each as the bytes it takes.\<close>

function runes :: "string \<Rightarrow> string list" where
  "runes [] = []"
| "runes (c # cs) = take (rune_width (c # cs)) (c # cs) # runes (drop (rune_width (c # cs)) (c # cs))"
  by pat_completeness auto
termination
proof (relation "measure length")
  fix c :: char and cs :: string
  have "0 < rune_width (c # cs)" by simp
  then show "(drop (rune_width (c # cs)) (c # cs), c # cs) \<in> measure length"
    by (simp only: in_measure length_drop length_Cons)
qed simp

lemma concat_runes [simp]: "concat (runes s) = s"
  by (induction s rule: runes.induct) simp_all

definition is_ascii :: "char \<Rightarrow> bool" where
  "is_ascii c \<longleftrightarrow> byte c < 128"

lemma rune_width_ascii: "is_ascii c \<Longrightarrow> rune_width (c # cs) = 1"
  by (simp add: rune_width_def is_ascii_def Let_def split: prod.splits)

lemma runes_ascii: "list_all is_ascii s \<Longrightarrow> runes s = map (\<lambda>c. [c]) s"
  by (induction s) (simp_all add: rune_width_ascii)

section \<open>Searching\<close>

text \<open>\<open>strings.Index (s, sub)\<close>: the first offset at which \<open>sub\<close> occurs.\<close>

fun str_index :: "string \<Rightarrow> string \<Rightarrow> nat option" where
  "str_index [] sub = (if sub = [] then Some 0 else None)"
| "str_index (c # cs) sub =
     (if prefix sub (c # cs) then Some 0 else map_option Suc (str_index cs sub))"

lemma str_index_Some: "str_index s sub = Some i \<Longrightarrow> prefix sub (drop i s)"
  by (induction s arbitrary: i) (auto split: if_splits)

lemma str_index_le: "str_index s sub = Some i \<Longrightarrow> i + length sub \<le> length s"
proof -
  assume "str_index s sub = Some i"
  moreover from this have "i \<le> length s"
    by (induction s arbitrary: i) (auto split: if_splits)
  ultimately show ?thesis
    using prefix_length_le [OF str_index_Some] by fastforce
qed

lemma str_index_None: "str_index s sub = None \<longleftrightarrow> \<not> sublist sub s"
  by (induction s) (auto simp: sublist_Cons_right)

end
