(* ===== verification/Timers.thy ===== *)
theory Timers
  imports Prelude
begin

text \<open>
  The two timer groups of the event loop (\<open>main.go\<close>): \<open>debounceState\<close>, which postpones a
  reload while events keep arriving but no longer than a maximum, and \<open>recoveryState\<close>, the
  exponential backoff of failed reloads.

  A \<open>time.Time\<close> is its nanosecond count, the zero time is \<open>None\<close>; a \<open>time.Duration\<close> is
  an integer of 64 bits, of which only the doubling of the backoff can leave the range
  (\<open>wrap64\<close>). A timer is the instant at which it fires. The clock is read once per handler:
  the readings that one call of \<open>resetDebounce\<close> makes are one argument \<open>now\<close>.
\<close>

section \<open>Debouncing\<close>

record debounceState =
  db_timer :: "int option"
  db_deadline :: "int option"
  db_firstEvent :: "int option"
  db_capped :: bool

definition debounce_reset :: "debounceState \<Rightarrow> debounceState" where
  "debounce_reset s =
     s\<lparr>db_timer := None, db_deadline := None, db_firstEvent := None, db_capped := False\<rparr>"

definition debounce_idle :: debounceState where
  "debounce_idle = \<lparr>db_timer = None, db_deadline = None, db_firstEvent = None, db_capped = False\<rparr>"

definition resetDebounce :: "int \<Rightarrow> int \<Rightarrow> int \<Rightarrow> debounceState \<Rightarrow> debounceState" where
  "resetDebounce debounce debounceMax now s =
     (let s1 = (if db_firstEvent s = None then s\<lparr>db_firstEvent := Some now\<rparr> else s);
          s2 = (if db_deadline s1 = None \<and> debounceMax > 0
                then s1\<lparr>db_deadline := Some (now + debounceMax)\<rparr> else s1);
          d0 = debounce;
          s3 = s2\<lparr>db_capped := False\<rparr>;
          (d1, s4) = (case db_deadline s3 of
                        None \<Rightarrow> (d0, s3)
                      | Some dl \<Rightarrow> (let remaining = dl - now in
                          if remaining < d0 then (remaining, s3\<lparr>db_capped := True\<rparr>) else (d0, s3)));
          d2 = (if d1 \<le> 0 then 1 else d1)
      in s4\<lparr>db_timer := Some (now + d2)\<rparr>)"

lemma resetDebounce_armed [simp]: "db_timer (resetDebounce d dmax now s) \<noteq> None"
  by (simp add: resetDebounce_def Let_def split: option.splits prod.splits)

lemma debounce_reset_simps [simp]:
  "db_timer (debounce_reset s) = None" "db_firstEvent (debounce_reset s) = None"
  "db_deadline (debounce_reset s) = None" "debounce_reset s = debounce_idle"
  by (simp_all add: debounce_reset_def debounce_idle_def)

text \<open>A burst: the events of the instants \<open>ts\<close>, none of which finds the group fired.\<close>

definition burst :: "int \<Rightarrow> int \<Rightarrow> int list \<Rightarrow> debounceState \<Rightarrow> debounceState" where
  "burst d dmax ts s = fold (resetDebounce d dmax) ts s"

lemma burst_started:
  assumes "dmax > 0" and "ts \<noteq> []" and "db_firstEvent s = Some t0" and "db_deadline s = Some dl"
  shows "burst d dmax ts s = \<lparr>db_timer = Some (last ts + max 1 (min d (dl - last ts))),
     db_deadline = Some dl, db_firstEvent = Some t0, db_capped = (dl - last ts < d)\<rparr>"
  using assms(2-)
proof (induction ts arbitrary: s)
  case Nil
  then show ?case by simp
next
  case (Cons t ts)
  have step: "resetDebounce d dmax t s = \<lparr>db_timer = Some (t + max 1 (min d (dl - t))),
      db_deadline = Some dl, db_firstEvent = Some t0, db_capped = (dl - t < d)\<rparr>"
    using Cons.prems(2,3) by (auto simp: resetDebounce_def Let_def min_def max_def)
  show ?case
  proof (cases "ts = []")
    case True
    then show ?thesis using step by (simp add: burst_def)
  next
    case False
    then show ?thesis using Cons.IH [of "resetDebounce d dmax t s"] step by (simp add: burst_def)
  qed
qed

text \<open>
  A burst of events, however long and however dense, fires at the debounce delay after its
  last event or at the deadline, which is fixed by its first event: with a maximum configured
  no stream of events postpones the reload past first event plus maximum, and \<open>capped\<close>
  records exactly the bursts that the maximum cut short.
\<close>

theorem debounce_burst_bound:
  assumes "dmax > 0"
  shows "burst d dmax (t # ts) debounce_idle =
    (let l = last (t # ts); dl = t + dmax in
     \<lparr>db_timer = Some (l + max 1 (min d (dl - l))), db_deadline = Some dl,
      db_firstEvent = Some t, db_capped = (dl - l < d)\<rparr>) \<and>
    (last (t # ts) < t + dmax \<longrightarrow>
      (\<exists>fire. db_timer (burst d dmax (t # ts) debounce_idle) = Some fire \<and>
         last (t # ts) < fire \<and> fire \<le> t + dmax))"
proof -
  have first: "resetDebounce d dmax t debounce_idle =
      \<lparr>db_timer = Some (t + max 1 (min d dmax)), db_deadline = Some (t + dmax),
       db_firstEvent = Some t, db_capped = (dmax < d)\<rparr>"
    using assms by (auto simp: resetDebounce_def Let_def debounce_idle_def min_def max_def)
  have exact: "burst d dmax (t # ts) debounce_idle =
    (let l = last (t # ts); dl = t + dmax in
     \<lparr>db_timer = Some (l + max 1 (min d (dl - l))), db_deadline = Some dl,
      db_firstEvent = Some t, db_capped = (dl - l < d)\<rparr>)"
  proof (cases "ts = []")
    case True
    then show ?thesis using first by (simp add: burst_def Let_def)
  next
    case False
    then show ?thesis
      using burst_started [OF assms False, of "resetDebounce d dmax t debounce_idle" t "t + dmax" d]
        first by (simp add: burst_def Let_def)
  qed
  then show ?thesis by (auto simp: Let_def)
qed

theorem debounce_burst_bound_witness:
  "db_timer (burst 100 250 [0, 90, 180] debounce_idle) = Some 250 \<and> last [0::int, 90, 180] < 0 + 250"
  using debounce_burst_bound [of 250 100 0 "[90, 180]"] by (simp add: Let_def)

section \<open>Recovery backoff\<close>

definition wrap64 :: "int \<Rightarrow> int" where
  "wrap64 x = (x + 2 ^ 63) mod 2 ^ 64 - 2 ^ 63"

lemma wrap64_id: "- (2 ^ 63) \<le> x \<Longrightarrow> x < 2 ^ 63 \<Longrightarrow> wrap64 x = x"
  by (simp add: wrap64_def)

record recoveryState =
  rc_initial :: int
  rc_maxDelay :: int
  rc_timer :: "int option"
  rc_delay :: int

definition recovery_next :: "recoveryState \<Rightarrow> int" where
  "recovery_next r =
     (if rc_delay r = 0 then rc_initial r
      else (let next = wrap64 (rc_delay r * 2) in
            if rc_maxDelay r > 0 \<and> next > rc_maxDelay r then rc_maxDelay r else next))"

text \<open>\<open>arm\<close> returns the chosen delay (0 when retries are disabled) and the new state.\<close>

definition recovery_arm :: "int \<Rightarrow> recoveryState \<Rightarrow> int \<times> recoveryState" where
  "recovery_arm now r =
     (if rc_initial r \<le> 0 then (0, r)
      else (let delay = recovery_next r in (delay, r\<lparr>rc_timer := Some (now + delay), rc_delay := delay\<rparr>)))"

definition recovery_reset :: "recoveryState \<Rightarrow> recoveryState" where
  "recovery_reset r = r\<lparr>rc_timer := None, rc_delay := 0\<rparr>"

definition recovery_fired :: "recoveryState \<Rightarrow> int \<times> recoveryState" where
  "recovery_fired r = (rc_delay r, r\<lparr>rc_timer := None\<rparr>)"

text \<open>\<open>channel\<close>: the armed timer, which the loop selects on.\<close>

definition recovery_channel :: "recoveryState \<Rightarrow> int option" where
  "recovery_channel r = rc_timer r"

lemma recovery_arm_simps [simp]:
  "rc_initial (snd (recovery_arm now r)) = rc_initial r"
  "rc_maxDelay (snd (recovery_arm now r)) = rc_maxDelay r"
  "rc_initial r > 0 \<Longrightarrow> rc_timer (snd (recovery_arm now r)) \<noteq> None"
  by (simp_all add: recovery_arm_def Let_def)

lemma recovery_reset_simps [simp]:
  "rc_initial (recovery_reset r) = rc_initial r" "rc_timer (recovery_reset r) = None"
  "rc_maxDelay (recovery_reset r) = rc_maxDelay r" "rc_delay (recovery_reset r) = 0"
  by (simp_all add: recovery_reset_def)

lemma recovery_fired_simps [simp]:
  "rc_initial (snd (recovery_fired r)) = rc_initial r" "rc_timer (snd (recovery_fired r)) = None"
  "rc_maxDelay (snd (recovery_fired r)) = rc_maxDelay r" "rc_delay (snd (recovery_fired r)) = rc_delay r"
  by (simp_all add: recovery_fired_def)

text \<open>The delays of consecutive failures, each retried at the instant its timer fires.\<close>

fun failures :: "nat \<Rightarrow> int \<Rightarrow> recoveryState \<Rightarrow> recoveryState" where
  "failures 0 now r = r"
| "failures (Suc k) now r =
     (let (delay, r') = recovery_arm now r
      in failures k (now + delay) (snd (recovery_fired r')))"

fun backoff :: "int \<Rightarrow> int \<Rightarrow> nat \<Rightarrow> int" where
  "backoff initial maxDelay 0 = initial"
| "backoff initial maxDelay (Suc k) = min (initial * 2 ^ Suc k) maxDelay"

lemma recovery_next_backoff:
  assumes "0 < rc_initial r" "rc_initial r \<le> 2 ^ 61" "0 < rc_maxDelay r" "rc_maxDelay r \<le> 2 ^ 61"
    and "rc_delay r = backoff (rc_initial r) (rc_maxDelay r) k"
  shows "recovery_next r = backoff (rc_initial r) (rc_maxDelay r) (Suc k)"
proof -
  let ?i = "rc_initial r" and ?m = "rc_maxDelay r"
  have pos: "0 < rc_delay r" and le: "rc_delay r \<le> 2 ^ 61"
    using assms by (cases k; simp add: min_def)+
  have "wrap64 (rc_delay r * 2) = rc_delay r * 2"
    using pos le by (intro wrap64_id) simp_all
  then have "recovery_next r = min (rc_delay r * 2) ?m"
    using pos assms(3) by (simp add: recovery_next_def Let_def min_def)
  also have "\<dots> = backoff ?i ?m (Suc k)"
    using assms(5) pos by (cases k) (auto simp: min_def algebra_simps)
  finally show ?thesis .
qed

lemma failures_backoff:
  assumes "0 < rc_initial r" "rc_initial r \<le> 2 ^ 61" "0 < rc_maxDelay r" "rc_maxDelay r \<le> 2 ^ 61"
    and "rc_delay r = backoff (rc_initial r) (rc_maxDelay r) k"
  shows "rc_delay (failures n now r) = backoff (rc_initial r) (rc_maxDelay r) (k + n)"
  using assms
proof (induction n arbitrary: now r k)
  case 0
  then show ?case by simp
next
  case (Suc n)
  let ?r' = "snd (recovery_fired (snd (recovery_arm now r)))"
  have "rc_delay ?r' = backoff (rc_initial ?r') (rc_maxDelay ?r') (Suc k)"
    using recovery_next_backoff [OF Suc.prems] Suc.prems(1) by (simp add: recovery_arm_def Let_def)
  then show ?case
    using Suc.IH [of ?r' "Suc k" "now + fst (recovery_arm now r)"] Suc.prems
    by (simp add: Let_def case_prod_beta)
qed

text \<open>
  The retry after the first failure waits the initial delay, and every further consecutive
  failure doubles the wait up to the maximum: after \<open>Suc n\<close> failures the delay is exactly
  \<open>min (initial * 2 ^ n) maxDelay\<close> (the very first one is not capped). The bound
  \<open>2 ^ 61\<close> nanoseconds (73 years) on the configured delays excludes the overflow of the doubling.
\<close>

theorem recovery_backoff_exact:
  assumes "0 < initial" "initial \<le> 2 ^ 61" "0 < maxDelay" "maxDelay \<le> 2 ^ 61"
  shows "rc_delay (failures (Suc n) now
      \<lparr>rc_initial = initial, rc_maxDelay = maxDelay, rc_timer = None, rc_delay = 0\<rparr>) =
    backoff initial maxDelay n"
proof -
  let ?r = "\<lparr>rc_initial = initial, rc_maxDelay = maxDelay, rc_timer = None, rc_delay = 0\<rparr>"
  let ?r1 = "snd (recovery_fired (snd (recovery_arm now ?r)))"
  have "rc_delay ?r1 = backoff initial maxDelay 0"
    using assms by (simp add: recovery_arm_def recovery_next_def Let_def)
  then have "rc_delay (failures n (now + initial) ?r1) = backoff initial maxDelay n"
    using failures_backoff [of ?r1 0 n "now + initial"] assms by simp
  then show ?thesis
    using assms by (simp add: recovery_arm_def recovery_next_def Let_def)
qed

theorem recovery_backoff_exact_witness:
  "rc_delay (failures 4 0 \<lparr>rc_initial = 10, rc_maxDelay = 50, rc_timer = None, rc_delay = 0\<rparr>) = 50"
  using recovery_backoff_exact [of 10 50 3 0] by (simp add: eval_nat_numeral)

end
