(* ===== verification/Feed.thy ===== *)
theory Feed
  imports Prelude
begin

text \<open>
  The contract all the watchers share: a value is published only when it differs from the last
  published one (the dedup baseline) and goes out over a channel of capacity one by
  \<open>coalescingSend\<close> (\<open>internal/watcher/watcher.go\<close>), which drops an undelivered older value.
  The locale \<open>coalescing_feed\<close> states what one sync and one receive do to the three feed
  variables; its lemmas say what a consumer of the channel observes, whatever the interleaving.
\<close>

section \<open>The send and the abstract feed\<close>

text \<open>
  \<open>coalescingSend\<close>. The send after the drain blocks when the buffer is still full;
  \<open>coalescing_send_never_blocks\<close> shows that it never is on a channel of capacity one.
\<close>

definition coalescing_send :: "'v list \<Rightarrow> 'v \<Rightarrow> 'v list" where
  "coalescing_send buf v = chan_drain buf @ [v]"

lemma coalescing_send_never_blocks: "length buf \<le> 1 \<Longrightarrow> chan_can_send 1 (chan_drain buf)"
  by (simp add: chan_can_send_def)

lemma coalescing_send_cap1 [chan_simps]: "length buf \<le> 1 \<Longrightarrow> coalescing_send buf v = [v]"
  by (simp add: coalescing_send_def chan_drain_cap1)

text \<open>\<open>synced\<close>, \<open>previous\<close> and the buffer of the channel.\<close>

type_synonym 'v feed = "bool \<times> 'v \<times> 'v list"

fun feed_publish :: "('v \<Rightarrow> 'v \<Rightarrow> bool) \<Rightarrow> 'v option \<Rightarrow> 'v feed \<Rightarrow> 'v feed" where
  "feed_publish same None f = f"
| "feed_publish same (Some v) (synced, previous, ch) =
     (if synced \<and> same v previous then (synced, previous, ch)
      else (True, v, coalescing_send ch v))"

fun feed_receive :: "'v feed \<Rightarrow> 'v feed" where
  "feed_receive (synced, previous, ch) = (synced, previous, chan_drain ch)"

definition feed_chan :: "'v feed \<Rightarrow> 'v list" where
  "feed_chan f = snd (snd f)"

text \<open>At most one value is buffered, and the newest of buffered and seen is the baseline.\<close>

fun feed_ok :: "'v feed \<Rightarrow> 'v option \<Rightarrow> bool" where
  "feed_ok (synced, previous, ch) seen =
     (if synced then (ch = [] \<and> seen = Some previous) \<or> ch = [previous]
      else ch = [] \<and> seen = None)"

lemma feed_ok_cap1: "feed_ok f seen \<Longrightarrow> length (feed_chan f) \<le> 1"
  by (cases f) (auto simp: feed_chan_def split: if_splits)

lemma feed_ok_publish [inv_intros]: "feed_ok f seen \<Longrightarrow> feed_ok (feed_publish same v f) seen"
  by (cases f; cases v) (auto simp: chan_simps split: if_splits)

lemma feed_ok_receive [inv_intros]:
  "feed_ok f seen \<Longrightarrow> feed_chan f = v # vs \<Longrightarrow> feed_ok (feed_receive f) (Some v)"
  by (cases f) (auto simp: feed_chan_def chan_drain_def split: if_splits)

section \<open>Runs of a feed\<close>

text \<open>What happens at a watcher: it syncs with what its source holds now, or the consumer takes
  the buffered value.\<close>

datatype 'i feed_op = Sync 'i | Receive

fun feed_run :: "('i \<Rightarrow> 's \<Rightarrow> 's) \<Rightarrow> ('s \<Rightarrow> 's) \<Rightarrow> ('s \<Rightarrow> 'v list) \<Rightarrow> 'i feed_op list \<Rightarrow>
    's \<times> 'v option \<Rightarrow> 's \<times> 'v option" where
  "feed_run sync recv chan [] r = r"
| "feed_run sync recv chan (Sync i # ops) r = feed_run sync recv chan ops (sync i (fst r), snd r)"
| "feed_run sync recv chan (Receive # ops) r =
     (case chan (fst r) of [] \<Rightarrow> feed_run sync recv chan ops r
      | v # _ \<Rightarrow> feed_run sync recv chan ops (recv (fst r), Some v))"

text \<open>The value the consumer holds once it has also taken what is still buffered.\<close>

definition feed_view :: "('s \<Rightarrow> 'v list) \<Rightarrow> 's \<times> 'v option \<Rightarrow> 'v option" where
  "feed_view chan r = (case chan (fst r) of [] \<Rightarrow> snd r | v # _ \<Rightarrow> Some v)"

fun last_value :: "('i \<Rightarrow> 'v option) \<Rightarrow> 'i feed_op list \<Rightarrow> 'v option \<Rightarrow> 'v option" where
  "last_value val [] d = d"
| "last_value val (Sync i # ops) d =
     last_value val ops (case val i of None \<Rightarrow> d | Some v \<Rightarrow> Some v)"
| "last_value val (Receive # ops) d = last_value val ops d"

locale coalescing_feed =
  fixes feed :: "'s \<Rightarrow> 'v feed"
    and conf :: "'s \<Rightarrow> 'c"
    and sync :: "'i \<Rightarrow> 's \<Rightarrow> 's"
    and val :: "'c \<Rightarrow> 'i \<Rightarrow> 'v option"
    and receive :: "'s \<Rightarrow> 's"
    and same :: "'v \<Rightarrow> 'v \<Rightarrow> bool"
  assumes same_refl: "same v v"
    and same_sym: "same u v \<Longrightarrow> same v u"
    and feed_sync: "feed (sync i s) = feed_publish same (val (conf s) i) (feed s)"
    and feed_recv: "feed (receive s) = feed_receive (feed s)"
    and conf_sync: "conf (sync i s) = conf s"
    and conf_recv: "conf (receive s) = conf s"
begin

abbreviation chan :: "'s \<Rightarrow> 'v list" where
  "chan s \<equiv> feed_chan (feed s)"

abbreviation run :: "'i feed_op list \<Rightarrow> 's \<times> 'v option \<Rightarrow> 's \<times> 'v option" where
  "run \<equiv> feed_run sync receive chan"

lemma run_ok: "feed_ok (feed (fst r)) (snd r) \<Longrightarrow> feed_ok (feed (fst (run ops r))) (snd (run ops r))"
proof (induction ops arbitrary: r)
  case Nil
  then show ?case by simp
next
  case (Cons op ops)
  show ?case
  proof (cases op)
    case (Sync i)
    then show ?thesis using Cons by (simp add: feed_sync feed_ok_publish)
  next
    case Receive
    then show ?thesis using Cons feed_ok_receive [OF Cons.prems]
      by (cases "chan (fst r)") (simp_all add: feed_recv)
  qed
qed

text \<open>The baseline is up to date with a value.\<close>

definition current :: "'v \<Rightarrow> 's \<Rightarrow> bool" where
  "current v s \<longleftrightarrow> fst (feed s) \<and> same (fst (snd (feed s))) v"

lemma current_sync: "val (conf s) i = Some v \<Longrightarrow> current v (sync i s)"
  using same_refl same_sym by (cases "feed s") (auto simp: current_def feed_sync)

lemma current_keep: "val (conf s) i = None \<Longrightarrow> current v s \<Longrightarrow> current v (sync i s)"
  by (simp add: current_def feed_sync)

lemma current_recv: "current v s \<Longrightarrow> current v (receive s)"
  by (cases "feed s") (auto simp: current_def feed_recv)

lemma run_current:
  assumes "\<forall>u. d = Some u \<longrightarrow> current u (fst r)"
    and "last_value (val (conf (fst r))) ops d = Some v"
  shows "current v (fst (run ops r))"
  using assms
proof (induction ops arbitrary: r d)
  case Nil
  then show ?case by simp
next
  case (Cons op ops)
  show ?case
  proof (cases op)
    case (Sync i)
    let ?d = "case val (conf (fst r)) i of None \<Rightarrow> d | Some w \<Rightarrow> Some w"
    have "\<forall>u. ?d = Some u \<longrightarrow> current u (sync i (fst r))"
      using Cons.prems(1) by (auto intro: current_sync current_keep split: option.splits)
    then show ?thesis
      using Cons.IH [of ?d "(sync i (fst r), snd r)"] Cons.prems(2) Sync by (simp add: conf_sync)
  next
    case Receive
    show ?thesis
    proof (cases "chan (fst r)")
      case Nil
      then show ?thesis using Cons Receive by simp
    next
      case (Cons w ws)
      then show ?thesis
        using Cons.IH [of d "(receive (fst r), Some w)"] Cons.prems Receive current_recv
        by (simp add: conf_recv)
    qed
  qed
qed

theorem convergence:
  assumes "feed_ok (feed s) None" and "last_value (val (conf s)) ops None = Some v"
  shows "\<exists>u. feed_view chan (run ops (s, None)) = Some u \<and> same u v"
proof -
  let ?r = "run ops (s, None)"
  have "feed_ok (feed (fst ?r)) (snd ?r)" using run_ok [of "(s, None)"] assms(1) by simp
  moreover have "current v (fst ?r)" using run_current [of None] assms(2) by simp
  ultimately show ?thesis
    by (cases "feed (fst ?r)") (auto simp: current_def feed_view_def feed_chan_def)
qed

lemma run_cap1: "feed_ok (feed s) None \<Longrightarrow> length (chan (fst (run ops (s, None)))) \<le> 1"
  using feed_ok_cap1 [OF run_ok [of "(s, None)" ops]] by simp

end

end
