(* ===== verification/Endpoints.thy ===== *)
theory Endpoints
  imports Feed
begin

text \<open>
  The EndpointSlice watcher (\<open>internal/watcher/watcher.go\<close>): the endpoints that a Service's
  EndpointSlices contribute, their canonical order, and the \<open>sync\<close> of the watcher. The API
  objects are the records the code reads; the informer and its lister are not modelled, the
  result of a listing is the argument of \<open>watcher_sync\<close> (\<open>None\<close> for an error). Log lines
  are left out, the two warn-once flags are kept.
\<close>

section \<open>Endpoints and their total order\<close>

record endpoint =
  Host :: string
  Port :: int
  Name :: string
  Zone :: string
  NodeName :: string
  ForZones :: "string list"

text \<open>
  The comparison of \<open>canonicalizeEndpoints\<close>: every field, in this order, is the linear
  order of the type.
\<close>

definition endpoint_rank ::
  "('z :: linorder) endpoint_scheme \<Rightarrow> string \<times> int \<times> string \<times> string \<times> string \<times> string list \<times> 'z" where
  "endpoint_rank e = (Host e, Port e, Name e, Zone e, NodeName e, ForZones e, endpoint.more e)"

lemma endpoint_rank_inj: "endpoint_rank a = endpoint_rank b \<Longrightarrow> a = b"
  by (simp add: endpoint_rank_def)

instantiation endpoint_ext :: (linorder) linorder
begin

definition less_eq_endpoint_ext :: "'a endpoint_scheme \<Rightarrow> 'a endpoint_scheme \<Rightarrow> bool" where
  "less_eq_endpoint_ext a b \<longleftrightarrow> endpoint_rank a \<le> endpoint_rank b"

definition less_endpoint_ext :: "'a endpoint_scheme \<Rightarrow> 'a endpoint_scheme \<Rightarrow> bool" where
  "less_endpoint_ext a b \<longleftrightarrow> endpoint_rank a < endpoint_rank b"

instance
  by standard
    (auto simp: less_eq_endpoint_ext_def less_endpoint_ext_def dest: endpoint_rank_inj)

end

text \<open>The identity that the deduplication uses.\<close>

definition addr :: "endpoint \<Rightarrow> string \<times> int" where
  "addr e = (Host e, Port e)"

lemma le_imp_addr_le: "a \<le> b \<Longrightarrow> addr a \<le> addr b"
  by (auto simp: less_eq_endpoint_ext_def endpoint_rank_def addr_def less_eq_prod_def less_prod_def)

text \<open>\<open>slices.CompactFunc\<close>: an element equal to the one before it is dropped.\<close>

fun compact_from :: "('a \<Rightarrow> 'a \<Rightarrow> bool) \<Rightarrow> 'a \<Rightarrow> 'a list \<Rightarrow> 'a list" where
  "compact_from eq p [] = []"
| "compact_from eq p (x # xs) = (if eq p x then compact_from eq x xs else x # compact_from eq x xs)"

fun compact :: "('a \<Rightarrow> 'a \<Rightarrow> bool) \<Rightarrow> 'a list \<Rightarrow> 'a list" where
  "compact eq [] = []"
| "compact eq (x # xs) = x # compact_from eq x xs"

definition canonicalizeEndpoints :: "endpoint list \<Rightarrow> endpoint list" where
  "canonicalizeEndpoints eps =
     compact (\<lambda>a b. Host a = Host b \<and> Port a = Port b) (sort eps)"

definition endpointEqual :: "endpoint \<Rightarrow> endpoint \<Rightarrow> bool" where
  "endpointEqual a b \<longleftrightarrow> Host a = Host b \<and> Port a = Port b \<and> Name a = Name b \<and>
     Zone a = Zone b \<and> NodeName a = NodeName b \<and> ForZones a = ForZones b"

fun equal_upto :: "endpoint list \<Rightarrow> endpoint list \<Rightarrow> bool" where
  "equal_upto (a # as) (b # bs) = (if \<not> endpointEqual a b then False else equal_upto as bs)"
| "equal_upto _ _ = True"

definition EndpointsEqual :: "endpoint slice \<Rightarrow> endpoint slice \<Rightarrow> bool" where
  "EndpointsEqual a b =
     (if length (elems a) \<noteq> length (elems b) then False else equal_upto (elems a) (elems b))"

lemma endpointEqual_iff [simp]: "endpointEqual a b \<longleftrightarrow> a = b"
  by (auto simp: endpointEqual_def)

lemma equal_upto_iff: "length as = length bs \<Longrightarrow> equal_upto as bs \<longleftrightarrow> as = bs"
  by (induction as bs rule: list_induct2) simp_all

lemma EndpointsEqual_iff: "EndpointsEqual a b \<longleftrightarrow> elems a = elems b"
  by (auto simp: EndpointsEqual_def equal_upto_iff)

text \<open>
  The text key of an endpoint and the difference of two endpoint sets, which the watchers log.
\<close>

fun join :: "string \<Rightarrow> string list \<Rightarrow> string" where
  "join sep [] = []"
| "join sep [x] = x"
| "join sep (x # y # zs) = x @ sep @ join sep (y # zs)"

definition endpointKey :: "endpoint \<Rightarrow> string" where
  "endpointKey e = Host e @ ''|'' @ show_int (Port e) @ ''|'' @ Name e @ ''|'' @ Zone e @ ''|'' @
     NodeName e @ ''|'' @ join '','' (ForZones e)"

definition diffEndpoints :: "endpoint list \<Rightarrow> endpoint list \<Rightarrow> endpoint list \<times> endpoint list" where
  "diffEndpoints old cur =
     (let oldSet = map endpointKey old; curSet = map endpointKey cur
      in (filter (\<lambda>e. endpointKey e \<notin> set oldSet) cur, filter (\<lambda>e. endpointKey e \<notin> set curSet) old))"

section \<open>The canonical form depends on the set of endpoints only\<close>

abbreviation same_addr :: "endpoint \<Rightarrow> endpoint \<Rightarrow> bool" where
  "same_addr \<equiv> (\<lambda>a b. Host a = Host b \<and> Port a = Port b)"

lemma same_addr_iff: "same_addr a b \<longleftrightarrow> addr a = addr b"
  by (simp add: addr_def)

text \<open>The endpoint of its address with the least metadata.\<close>

definition least_at :: "endpoint set \<Rightarrow> endpoint \<Rightarrow> bool" where
  "least_at E e \<longleftrightarrow> e \<in> E \<and> (\<forall>e'\<in>E. addr e' = addr e \<longrightarrow> e \<le> e')"

lemma set_compact_from:
  assumes "sorted (p # xs)"
  shows "set (compact_from same_addr p xs) = {e. addr e \<noteq> addr p \<and> least_at (set xs) e}"
  using assms
proof (induction xs arbitrary: p)
  case Nil
  then show ?case by (simp add: least_at_def)
next
  case (Cons x xs)
  have px: "p \<le> x" and x: "\<forall>e\<in>set xs. x \<le> e" and sorted: "sorted (x # xs)"
    using Cons.prems by auto
  note IH = Cons.IH [OF sorted]
  show ?case
  proof (cases "same_addr p x")
    case True
    then show ?thesis using IH by (auto simp: least_at_def same_addr_iff)
  next
    case False
    have new: "addr e \<noteq> addr p" if "e \<in> set (x # xs)" for e
    proof -
      have "addr p < addr x" using False px le_imp_addr_le same_addr_iff by (metis order_le_less)
      moreover have "addr x \<le> addr e" using that x le_imp_addr_le by auto
      ultimately show ?thesis by auto
    qed
    have "set (compact_from same_addr p (x # xs)) =
        insert x {e. addr e \<noteq> addr x \<and> least_at (set xs) e}"
      using IH False by auto
    also have "\<dots> = {e. addr e \<noteq> addr p \<and> least_at (set (x # xs)) e}"
      using new x by (fastforce simp: least_at_def)
    finally show ?thesis .
  qed
qed

lemma compact_from_strict:
  assumes "sorted (p # xs)"
  shows "sorted_wrt (<) (p # compact_from same_addr p xs)"
  using assms
proof (induction xs arbitrary: p)
  case Nil
  then show ?case by simp
next
  case (Cons x xs)
  have px: "p \<le> x" and sorted: "sorted (x # xs)" using Cons.prems by auto
  note IH = Cons.IH [OF sorted]
  show ?case
  proof (cases "same_addr p x")
    case True
    then show ?thesis using IH px by auto
  next
    case False
    then have "p < x" using px by (metis order_le_less)
    then show ?thesis using IH False by (auto intro: less_trans)
  qed
qed

lemma canonicalize_strict: "sorted_wrt (<) (canonicalizeEndpoints eps)"
proof (cases "sort eps")
  case (Cons x xs)
  then have "sorted (x # xs)" by (metis sorted_sort)
  then show ?thesis
    using compact_from_strict Cons by (simp add: canonicalizeEndpoints_def)
qed (simp add: canonicalizeEndpoints_def)

lemma set_canonicalize: "set (canonicalizeEndpoints eps) = {e. least_at (set eps) e}"
proof (cases "sort eps")
  case Nil
  then have "eps = []" by (metis set_empty set_sort)
  then show ?thesis by (simp add: canonicalizeEndpoints_def least_at_def)
next
  case (Cons x xs)
  then have sorted: "sorted (x # xs)" and set: "set eps = set (x # xs)"
    by (metis sorted_sort) (metis Cons set_sort)
  have "set (canonicalizeEndpoints eps) = insert x {e. addr e \<noteq> addr x \<and> least_at (set xs) e}"
    using set_compact_from [OF sorted] Cons by (simp add: canonicalizeEndpoints_def)
  also have "\<dots> = {e. least_at (set eps) e}"
    using sorted set by (fastforce simp: least_at_def)
  finally show ?thesis .
qed

lemma strict_sorted_set_eq:
  fixes xs ys :: "'a :: linorder list"
  shows "sorted_wrt (<) xs \<Longrightarrow> sorted_wrt (<) ys \<Longrightarrow> set xs = set ys \<Longrightarrow> xs = ys"
  by (rule strict_sorted_equal) auto

text \<open>
  The canonical endpoint list is a function of the set of listed endpoints: the order in which
  the lister returns slices and endpoints, and repetitions, cannot change it, so an unchanged
  store never produces a spurious delivery.
\<close>

theorem canonicalize_of_set:
  assumes "set eps = set eps'"
  shows "canonicalizeEndpoints eps = canonicalizeEndpoints eps'"
  using assms by (intro strict_sorted_set_eq canonicalize_strict) (simp add: set_canonicalize)

theorem canonicalize_of_set_witness:
  "canonicalizeEndpoints
      [\<lparr>Host = ''b'', Port = 1, Name = ''n'', Zone = [], NodeName = [], ForZones = []\<rparr>,
       \<lparr>Host = ''a'', Port = 1, Name = ''m'', Zone = [], NodeName = [], ForZones = []\<rparr>] =
    canonicalizeEndpoints
      [\<lparr>Host = ''a'', Port = 1, Name = ''m'', Zone = [], NodeName = [], ForZones = []\<rparr>,
       \<lparr>Host = ''b'', Port = 1, Name = ''n'', Zone = [], NodeName = [], ForZones = []\<rparr>,
       \<lparr>Host = ''a'', Port = 1, Name = ''m'', Zone = [], NodeName = [], ForZones = []\<rparr>]"
  by (rule canonicalize_of_set) auto

text \<open>
  The canonical list has exactly one endpoint for every address (host and port) that was
  listed, the listed one with the least metadata, and is sorted and free of duplicates.
\<close>

theorem canonicalize_spec:
  "sorted_wrt (<) (canonicalizeEndpoints eps) \<and>
   distinct (map addr (canonicalizeEndpoints eps)) \<and>
   addr ` set (canonicalizeEndpoints eps) = addr ` set eps \<and>
   set (canonicalizeEndpoints eps) = {e. least_at (set eps) e}"
proof -
  have inj: "inj_on addr {e. least_at (set eps) e}"
    by (auto simp: inj_on_def least_at_def intro: antisym)
  have ex: "\<exists>m. least_at (set eps) m \<and> addr m = addr e" if "e \<in> set eps" for e
  proof -
    let ?S = "{e' \<in> set eps. addr e' = addr e}"
    have fin: "finite ?S" "?S \<noteq> {}" using that by auto
    then have "Min ?S \<in> ?S" by (rule Min_in)
    moreover have "\<forall>e'\<in>?S. Min ?S \<le> e'" using fin by simp
    ultimately show ?thesis by (auto simp: least_at_def)
  qed
  have "addr ` {e. least_at (set eps) e} = addr ` set eps"
  proof
    show "addr ` {e. least_at (set eps) e} \<subseteq> addr ` set eps" by (auto simp: least_at_def)
    show "addr ` set eps \<subseteq> addr ` {e. least_at (set eps) e}"
    proof
      fix a assume "a \<in> addr ` set eps"
      then obtain m where "least_at (set eps) m" "a = addr m" using ex by fastforce
      then show "a \<in> addr ` {e. least_at (set eps) e}" by simp
    qed
  qed
  moreover have "distinct (canonicalizeEndpoints eps)"
    using canonicalize_strict strict_sorted_iff by blast
  ultimately show ?thesis
    using canonicalize_strict inj by (simp add: set_canonicalize distinct_map)
qed

section \<open>Ports and names\<close>

record endpoint_port =
  port_name :: "string option"
  port_number :: "int option"

fun port_by_name :: "string \<Rightarrow> endpoint_port list \<Rightarrow> int" where
  "port_by_name override [] = 0"
| "port_by_name override (p # ps) =
     (case (port_name p, port_number p) of
        (Some n, Some k) \<Rightarrow> if n = override then k else port_by_name override ps
      | _ \<Rightarrow> port_by_name override ps)"

definition resolvePort :: "endpoint_port list \<Rightarrow> string \<Rightarrow> int" where
  "resolvePort ports override =
     (if override \<noteq> [] then
        (case parse_int 32 override of Some p \<Rightarrow> p | None \<Rightarrow> port_by_name override ports)
      else (case ports of p # _ \<Rightarrow> (case port_number p of Some k \<Rightarrow> k | None \<Rightarrow> 0) | [] \<Rightarrow> 0))"

definition vcl_name_char :: "char \<Rightarrow> bool" where
  "vcl_name_char c \<longleftrightarrow> c = CHR ''-'' \<or> (CHR ''a'' \<le> c \<and> c \<le> CHR ''z'') \<or>
     (CHR ''A'' \<le> c \<and> c \<le> CHR ''Z'') \<or> is_digit c"

text \<open>One rune of the address: kept when it is one of the allowed ASCII characters.\<close>

definition fold_rune :: "string \<Rightarrow> char" where
  "fold_rune r = (case r of [c] \<Rightarrow> if vcl_name_char c then c else CHR ''_'' | _ \<Rightarrow> CHR ''_'')"

definition syntheticEndpointName :: "string \<Rightarrow> int \<Rightarrow> string" where
  "syntheticEndpointName address port =
     map fold_rune (runes address) @ ''_'' @ show_int port"

lemma vcl_name_char_digit: "is_digit c \<Longrightarrow> vcl_name_char c"
  by (simp add: vcl_name_char_def)

lemma show_int_vcl: "list_all vcl_name_char (show_int i)"
  using show_nat_digits
  by (auto simp: show_int_def list_all_iff vcl_name_char_def)

text \<open>
  A synthesised endpoint name is a VCL identifier: letters, digits, \<open>_\<close> and \<open>-\<close> only,
  whatever bytes the address holds.
\<close>

theorem syntheticEndpointName_vcl_safe:
  "list_all (\<lambda>c. vcl_name_char c \<or> c = CHR ''_'') (syntheticEndpointName address port)"
proof -
  have "list_all (\<lambda>c. vcl_name_char c \<or> c = CHR ''_'') (map fold_rune (runes address))"
    by (auto simp: list_all_iff fold_rune_def split: list.splits)
  moreover have "list_all (\<lambda>c. vcl_name_char c \<or> c = CHR ''_'') (show_int port)"
    using show_int_vcl by (simp add: list_all_iff)
  ultimately show ?thesis by (simp add: syntheticEndpointName_def)
qed

text \<open>The addresses of one textual notation: one separator, which the folding replaces.\<close>

definition plain_address :: "char \<Rightarrow> string \<Rightarrow> bool" where
  "plain_address sep s \<longleftrightarrow> is_ascii sep \<and> \<not> vcl_name_char sep \<and>
     list_all (\<lambda>c. c = sep \<or> (is_ascii c \<and> vcl_name_char c)) s"

lemma fold_rune_inj:
  assumes "plain_address sep s" and "plain_address sep t"
    and "map fold_rune (runes s) = map fold_rune (runes t)"
  shows "s = t"
proof -
  have under: "\<not> vcl_name_char (CHR ''_'')"
    by (simp add: vcl_name_char_def is_digit_iff less_eq_char_def)
  have only: "c = sep" if "c \<in> set s \<union> set t" "\<not> vcl_name_char c" for c
    using that assms(1,2) by (auto simp: plain_address_def list_all_iff)
  have ascii: "runes s = map (\<lambda>c. [c]) s" "runes t = map (\<lambda>c. [c]) t"
    using assms by (auto intro!: runes_ascii simp: plain_address_def list_all_iff)
  have "map (\<lambda>c. fold_rune [c]) s = map (\<lambda>c. fold_rune [c]) t"
    using assms(3) by (simp add: ascii comp_def)
  moreover have "inj_on (\<lambda>c. fold_rune [c]) (set s \<union> set t)"
  proof (rule inj_onI)
    fix x y
    assume xy: "x \<in> set s \<union> set t" "y \<in> set s \<union> set t" "fold_rune [x] = fold_rune [y]"
    then show "x = y"
      using only [of x] only [of y] under by (auto simp: fold_rune_def split: if_splits)
  qed
  ultimately show ?thesis by (simp add: inj_on_map_eq_map)
qed

text \<open>
  Within one address notation (all separators \<open>.\<close>, or all \<open>:\<close>) and for one port the
  synthesised name identifies the address, so nameless endpoints cannot collapse into one backend.
\<close>

theorem syntheticEndpointName_inj:
  assumes "plain_address sep s" and "plain_address sep t"
  shows "syntheticEndpointName s port = syntheticEndpointName t port \<longleftrightarrow> s = t"
  using assms fold_rune_inj by (auto simp: syntheticEndpointName_def)

theorem syntheticEndpointName_inj_witness:
  "plain_address (CHR ''.'') ''10.0.0.1'' \<and> plain_address (CHR ''.'') ''10.0.0.2'' \<and>
   syntheticEndpointName ''10.0.0.1'' 80 \<noteq> syntheticEndpointName ''10.0.0.2'' 80"
proof -
  have "plain_address (CHR ''.'') ''10.0.0.1''" "plain_address (CHR ''.'') ''10.0.0.2''"
    by code_simp+
  then show ?thesis
    using syntheticEndpointName_inj [of "CHR ''.''" "''10.0.0.1''" "''10.0.0.2''" 80] by simp
qed

section \<open>Collecting the endpoints of the listed slices\<close>

text \<open>\<open>discoveryv1.AddressType\<close>; the API knows the three named values.\<close>

datatype address_type = IPv4 | IPv6 | FQDN | OtherType string

record slice_endpoint =
  addresses :: "string list"
  ready_cond :: "bool option"
  serving_cond :: "bool option"
  terminating_cond :: "bool option"
  target_ref :: "string option"
  ep_zone :: "string option"
  ep_node :: "string option"
  hint_zones :: "string list option"

record endpoint_slice =
  address_type :: address_type
  slice_ports :: "endpoint_port list"
  slice_endpoints :: "slice_endpoint list"

text \<open>The first loop of \<open>sync\<close>: the family to serve, and which kinds of slices were seen.\<close>

fun scan_families :: "endpoint_slice list \<Rightarrow> address_type \<times> bool \<times> bool \<Rightarrow> address_type \<times> bool \<times> bool" where
  "scan_families [] acc = acc"
| "scan_families (sl # sls) (family, sawIP, sawFQDN) =
     scan_families sls
       (case address_type sl of
          IPv4 \<Rightarrow> (IPv4, True, sawFQDN)
        | IPv6 \<Rightarrow> (family, True, sawFQDN)
        | FQDN \<Rightarrow> (family, sawIP, True)
        | OtherType _ \<Rightarrow> (family, sawIP, sawFQDN))"

definition is_ready :: "slice_endpoint \<Rightarrow> bool" where
  "is_ready ep = (case ready_cond ep of None \<Rightarrow> True | Some b \<Rightarrow> b)"

definition is_fallback :: "slice_endpoint \<Rightarrow> bool" where
  "is_fallback ep \<longleftrightarrow> \<not> is_ready ep \<and> serving_cond ep = Some True \<and> terminating_cond ep = Some True"

definition opt_string :: "string option \<Rightarrow> string" where
  "opt_string o' = (case o' of None \<Rightarrow> [] | Some s \<Rightarrow> s)"

definition endpoint_of :: "int \<Rightarrow> slice_endpoint \<Rightarrow> endpoint" where
  "endpoint_of port ep =
     (let name0 = opt_string (target_ref ep);
          name = (if name0 = [] \<and> addresses ep \<noteq> []
                  then syntheticEndpointName (hd (addresses ep)) port else name0)
      in \<lparr>Host = hd (addresses ep), Port = port, Name = name, Zone = opt_string (ep_zone ep),
          NodeName = opt_string (ep_node ep),
          ForZones = (case hint_zones ep of None \<Rightarrow> [] | Some zs \<Rightarrow> zs)\<rparr>)"

text \<open>
  The body of the inner loop on \<open>(endpoints, servingTerminating, portZero)\<close>. \<open>hd\<close> is reached
  only for an endpoint that has an address.
\<close>

fun collect_endpoint :: "int \<Rightarrow> slice_endpoint \<Rightarrow> endpoint list \<times> endpoint list \<times> bool \<Rightarrow>
    endpoint list \<times> endpoint list \<times> bool" where
  "collect_endpoint port ep (eps, st, portZero) =
     (if \<not> is_ready ep \<and> \<not> is_fallback ep then (eps, st, portZero)
      else if addresses ep = [] then (eps, st, portZero)
      else (let e = endpoint_of port ep; pz = (portZero \<or> port = 0)
            in if is_ready ep then (eps @ [e], st, pz) else (eps, st @ [e], pz)))"

fun collect_slices :: "string \<Rightarrow> address_type \<Rightarrow> endpoint_slice list \<Rightarrow>
    endpoint list \<times> endpoint list \<times> bool \<Rightarrow> endpoint list \<times> endpoint list \<times> bool" where
  "collect_slices override family [] acc = acc"
| "collect_slices override family (sl # sls) acc =
     (if address_type sl \<noteq> family then collect_slices override family sls acc
      else (let port = resolvePort (slice_ports sl) override
            in collect_slices override family sls
                 (fold (collect_endpoint port) (slice_endpoints sl) acc)))"

section \<open>The watcher\<close>

record watcher =
  w_portOverride :: string
  w_ch :: "endpoint slice list"
  w_previous :: "endpoint slice"
  w_synced :: bool
  w_fqdnWarned :: bool
  w_portWarned :: bool

text \<open>\<open>New\<close>, without the client and the logger.\<close>

definition new_watcher :: "string \<Rightarrow> watcher" where
  "new_watcher portOverride = \<lparr>w_portOverride = portOverride, w_ch = [], w_previous = None,
     w_synced = False, w_fqdnWarned = False, w_portWarned = False\<rparr>"

definition families_of :: "endpoint_slice list \<Rightarrow> address_type \<times> bool \<times> bool" where
  "families_of sls = scan_families sls (IPv6, False, False)"

definition collected :: "string \<Rightarrow> endpoint_slice list \<Rightarrow> endpoint list \<times> endpoint list \<times> bool" where
  "collected override sls = collect_slices override (fst (families_of sls)) sls ([], [], False)"

text \<open>The endpoints that \<open>sync\<close> computes from a listing, before the dedup.\<close>

definition served :: "string \<Rightarrow> endpoint_slice list \<Rightarrow> endpoint slice" where
  "served override sls =
     (case collected override sls of (eps, st, _) \<Rightarrow>
        slice_of (canonicalizeEndpoints (if eps = [] \<and> st \<noteq> [] then st else eps)))"

definition watcher_sync :: "endpoint_slice list option \<Rightarrow> watcher \<Rightarrow> watcher" where
  "watcher_sync listed w =
     (case listed of
        None \<Rightarrow> w
      | Some sls \<Rightarrow>
          (let (_, sawIP, sawFQDN) = families_of sls;
               (_, _, portZero) = collected (w_portOverride w) sls;
               w1 = (if sawFQDN \<and> \<not> sawIP \<and> \<not> w_fqdnWarned w then w\<lparr>w_fqdnWarned := True\<rparr> else w);
               w2 = (if portZero \<and> \<not> w_portWarned w1 then w1\<lparr>w_portWarned := True\<rparr> else w1);
               endpoints = served (w_portOverride w) sls
           in if w_synced w2 \<and> EndpointsEqual endpoints (w_previous w2) then w2
              else w2\<lparr>w_synced := True, w_previous := endpoints,
                       w_ch := coalescing_send (w_ch w2) endpoints\<rparr>))"

text \<open>The consumer of \<open>Changes()\<close> takes the buffered value.\<close>

definition watcher_receive :: "watcher \<Rightarrow> watcher" where
  "watcher_receive w = w\<lparr>w_ch := chan_drain (w_ch w)\<rparr>"

section \<open>What a listing serves\<close>

text \<open>
  The abstract specification: one address family, IPv4 when there is an IPv4 slice; the ready
  endpoints of its slices, or the serving-and-terminating ones when none is ready.
\<close>

definition family_of :: "endpoint_slice set \<Rightarrow> address_type" where
  "family_of S = (if \<exists>sl\<in>S. address_type sl = IPv4 then IPv4 else IPv6)"

definition candidates :: "(slice_endpoint \<Rightarrow> bool) \<Rightarrow> string \<Rightarrow> endpoint_slice set \<Rightarrow> endpoint set" where
  "candidates P override S = {e. \<exists>sl\<in>S. address_type sl = family_of S \<and>
     (\<exists>ep\<in>set (slice_endpoints sl). P ep \<and> addresses ep \<noteq> [] \<and>
        e = endpoint_of (resolvePort (slice_ports sl) override) ep)}"

lemma scan_families_fst:
  "fst (scan_families sls (fam, a, b)) = (if \<exists>sl\<in>set sls. address_type sl = IPv4 then IPv4 else fam)"
  by (induction sls arbitrary: fam a b) (auto split: address_type.splits)

lemma families_of_fst: "fst (families_of sls) = family_of (set sls)"
  by (simp add: families_of_def family_of_def scan_families_fst)

lemma fold_collect_endpoint:
  "fold (collect_endpoint port) eps (rs, fs, pz) =
     (rs @ map (endpoint_of port) (filter (\<lambda>ep. is_ready ep \<and> addresses ep \<noteq> []) eps),
      fs @ map (endpoint_of port) (filter (\<lambda>ep. is_fallback ep \<and> addresses ep \<noteq> []) eps),
      pz \<or> port = 0 \<and> (\<exists>ep\<in>set eps. (is_ready ep \<or> is_fallback ep) \<and> addresses ep \<noteq> []))"
  by (induction eps arbitrary: rs fs pz) (auto simp: Let_def is_fallback_def)

definition slice_contrib :: "(slice_endpoint \<Rightarrow> bool) \<Rightarrow> string \<Rightarrow> endpoint_slice \<Rightarrow> endpoint list" where
  "slice_contrib P override sl = map (endpoint_of (resolvePort (slice_ports sl) override))
     (filter (\<lambda>ep. P ep \<and> addresses ep \<noteq> []) (slice_endpoints sl))"

lemma collect_slices_eq:
  "fst (collect_slices p fam sls (rs, fs, pz)) =
     rs @ concat (map (slice_contrib is_ready p) (filter (\<lambda>sl. address_type sl = fam) sls)) \<and>
   fst (snd (collect_slices p fam sls (rs, fs, pz))) =
     fs @ concat (map (slice_contrib is_fallback p) (filter (\<lambda>sl. address_type sl = fam) sls))"
  by (induction sls arbitrary: rs fs pz)
    (simp_all add: Let_def fold_collect_endpoint slice_contrib_def)

lemma set_collected:
  "set (fst (collected p sls)) = candidates is_ready p (set sls)"
  "set (fst (snd (collected p sls))) = candidates is_fallback p (set sls)"
  by (auto simp: collected_def collect_slices_eq candidates_def families_of_fst slice_contrib_def)

lemma set_served:
  "set (elems (served p sls)) =
     {e. least_at (if candidates is_ready p (set sls) = {}
                   then candidates is_fallback p (set sls)
                   else candidates is_ready p (set sls)) e}"
proof -
  obtain eps st pz where c: "collected p sls = (eps, st, pz)" by (cases "collected p sls")
  then have sets: "set eps = candidates is_ready p (set sls)"
      "set st = candidates is_fallback p (set sls)"
    using set_collected [of p sls] by simp_all
  show ?thesis
  proof (cases "eps = []")
    case True
    then have "candidates is_ready p (set sls) = {}" using sets by simp
    moreover have "set (if st \<noteq> [] then st else []) = candidates is_fallback p (set sls)"
      using sets by auto
    ultimately show ?thesis using c True sets by (simp add: served_def set_canonicalize)
  next
    case False
    then have "candidates is_ready p (set sls) \<noteq> {}" using sets by (metis set_empty)
    with False show ?thesis using c sets by (simp add: served_def set_canonicalize)
  qed
qed

lemma served_sorted: "sorted_wrt (<) (elems (served p sls))"
  by (simp add: served_def canonicalize_strict split: prod.splits)

text \<open>
  The served endpoints are exactly the canonical ones of the ready endpoints of the chosen
  family, and of its serving-and-terminating endpoints when no ready one exists, in canonical
  order, one per address.
\<close>

theorem served_spec:
  "set (elems (served p sls)) =
     {e. least_at (if candidates is_ready p (set sls) = {}
                   then candidates is_fallback p (set sls)
                   else candidates is_ready p (set sls)) e} \<and>
   sorted_wrt (<) (elems (served p sls))"
  by (simp add: set_served served_sorted)

text \<open>
  The order in which the lister returns the slices, and a slice returned twice, never
  changes what is served.
\<close>

theorem served_order_irrelevant:
  assumes "set sls = set sls'"
  shows "served p sls = served p sls'"
proof -
  have "set (elems (served p sls)) = set (elems (served p sls'))"
    using assms by (simp add: set_served)
  then have "elems (served p sls) = elems (served p sls')"
    by (intro strict_sorted_set_eq served_sorted)
  then show ?thesis by (auto simp: served_def slice_of_def split: prod.splits if_splits)
qed

theorem served_order_irrelevant_witness:
  "let a = \<lparr>address_type = IPv4, slice_ports = [], slice_endpoints = []\<rparr>;
       b = \<lparr>address_type = IPv6, slice_ports = [], slice_endpoints = []\<rparr>
   in served ''80'' [a, b] = served ''80'' [b, a, b]"
  unfolding Let_def by (rule served_order_irrelevant) auto

section \<open>What the watcher delivers\<close>

text \<open>The watcher provides the feed of its served endpoints.\<close>

definition watcher_feed :: "watcher \<Rightarrow> endpoint slice feed" where
  "watcher_feed w = (w_synced w, w_previous w, w_ch w)"

lemma watcher_feed_sync:
  "watcher_feed (watcher_sync listed w) =
     feed_publish EndpointsEqual (map_option (served (w_portOverride w)) listed) (watcher_feed w)"
  by (cases listed) (auto simp: watcher_feed_def watcher_sync_def Let_def split: prod.splits)

interpretation wf: coalescing_feed watcher_feed w_portOverride watcher_sync
  "\<lambda>p. map_option (served p)" watcher_receive EndpointsEqual
proof unfold_locales
  show "w_portOverride (watcher_sync i s) = w_portOverride s" for i s
    by (auto simp: watcher_sync_def Let_def split: option.splits prod.splits)
qed (simp_all add: watcher_feed_sync EndpointsEqual_iff,
    simp_all add: watcher_feed_def watcher_receive_def)

text \<open>
  C34: Whatever the interleaving of informer syncs and of the consumer's receives, a consumer
  that takes what is buffered ends with the endpoints of the last successful listing: no stale
  value can win, and the initial state is always delivered.
\<close>

theorem watcher_delivers_latest:
  assumes "last_value (map_option (served p)) ops None = Some eps"
  shows "map_option elems (feed_view w_ch
     (feed_run watcher_sync watcher_receive w_ch ops (new_watcher p, None))) = Some (elems eps)"
proof -
  have chan: "feed_chan (watcher_feed w) = w_ch w" for w
    by (simp add: feed_chan_def watcher_feed_def)
  have init: "feed_ok (watcher_feed (new_watcher p)) None" "w_portOverride (new_watcher p) = p"
    by (simp_all add: watcher_feed_def new_watcher_def)
  show ?thesis
    using wf.convergence [OF init(1), unfolded init(2) chan, OF assms]
    by (auto simp: EndpointsEqual_iff)
qed

theorem watcher_delivers_latest_witness:
  "map_option elems (feed_view w_ch
     (feed_run watcher_sync watcher_receive w_ch [Sync None, Sync (Some []), Receive, Sync None]
       (new_watcher ''80'', None))) = Some []"
proof -
  have "last_value (map_option (served ''80'')) [Sync None, Sync (Some []), Receive, Sync None] None
      = Some None"
    by code_simp
  from watcher_delivers_latest [OF this] show ?thesis by simp
qed

end
