(* ===== verification/GoText.thy ===== *)
theory GoText
  imports Prelude
begin

text \<open>
  The functions of Go's \<open>strings\<close> and \<open>bufio\<close> that the command-line protocol of varnishd, the
  metrics and the HTTP headers are read with: splitting, trimming, folding, fields and lines.
\<close>

section \<open>Splitting and folding\<close>

text \<open>\<open>strings.Split (v, sep)\<close> for a separator of one byte.\<close>

fun split_on :: "char \<Rightarrow> string \<Rightarrow> string list" where
  "split_on sep [] = [[]]"
| "split_on sep (c # cs) =
     (if c = sep then [] # split_on sep cs
      else case split_on sep cs of [] \<Rightarrow> [[c]] | w # ws \<Rightarrow> (c # w) # ws)"

text \<open>\<open>strings.TrimRight\<close> for a set of bytes.\<close>

definition trim_right :: "char set \<Rightarrow> string \<Rightarrow> string" where
  "trim_right cs s = rev (dropWhile (\<lambda>c. c \<in> cs) (rev s))"

definition newline :: char where "newline = CHR 0x0A"
definition carriage_return :: char where "carriage_return = CHR 0x0D"

text \<open>\<open>unicode.IsSpace\<close> on one rune.\<close>

definition space_rune :: "string \<Rightarrow> bool" where
  "space_rune r \<longleftrightarrow> map byte r \<in> set ([[9], [10], [11], [12], [13], [32], [194, 133], [194, 160],
     [225, 154, 128], [226, 128, 168], [226, 128, 169], [226, 128, 175], [226, 129, 159], [227, 128, 128]]
     @ map (\<lambda>b. [226, 128, b]) [128..<139])"

text \<open>\<open>strings.TrimSpace\<close>.\<close>

definition trim_space :: "string \<Rightarrow> string" where
  "trim_space s = concat (rev (dropWhile space_rune (rev (dropWhile space_rune (runes s)))))"

text \<open>
  Simple folding of a rune into the ASCII letters: a letter of either case, the Kelvin sign and the
  long s. No other rune folds into ASCII, so \<open>equal_fold\<close> is \<open>strings.EqualFold\<close> against a text of
  ASCII bytes, such as a header key.
\<close>

definition fold_ascii :: "string \<Rightarrow> string" where
  "fold_ascii r =
     (case map byte r of
        [b] \<Rightarrow> (if 65 \<le> b \<and> b \<le> 90 then [char_of (b + 32)] else r)
      | bs \<Rightarrow> (if bs = [226, 132, 170] then ''k'' else if bs = [197, 191] then ''s'' else r))"

definition equal_fold :: "string \<Rightarrow> string \<Rightarrow> bool" where
  "equal_fold s t \<longleftrightarrow> map fold_ascii (runes s) = map fold_ascii (runes t)"

section \<open>Fields and lines\<close>

text \<open>\<open>strings.Fields\<close>: the maximal runs of runes that are no white space.\<close>

fun rune_fields :: "string list \<Rightarrow> string \<Rightarrow> string list" where
  "rune_fields [] cur = (if cur = [] then [] else [cur])"
| "rune_fields (r # rs) cur =
     (if space_rune r then (if cur = [] then rune_fields rs [] else cur # rune_fields rs [])
      else rune_fields rs (cur @ r))"

definition str_fields :: "string \<Rightarrow> string list" where
  "str_fields s = rune_fields (runes s) []"

text \<open>
  A \<open>bufio.Scanner\<close> over the lines of a text: the line feed and one carriage return before it are
  dropped, a last line needs no line feed, and a line that fills the buffer of 64 KiB is an error.
\<close>

definition drop_cr :: "string \<Rightarrow> string" where
  "drop_cr l = (if l \<noteq> [] \<and> last l = CHR 0x0D then butlast l else l)"

definition raw_lines :: "string \<Rightarrow> string list" where
  "raw_lines s = (let ls = split_on (CHR 0x0A) s in if last ls = [] then butlast ls else ls)"

definition scan_lines :: "string \<Rightarrow> string list option" where
  "scan_lines s =
     (if list_ex (\<lambda>l. length l \<ge> 2 ^ 16) (raw_lines s) then None else Some (map drop_cr (raw_lines s)))"

lemma split_on_nonempty [simp]: "split_on sep s \<noteq> []"
  by (induction s) (simp_all split: list.split)

lemma split_on_no_sep: "w \<in> set (split_on sep s) \<Longrightarrow> sep \<notin> set w"
proof (induction s arbitrary: w)
  case (Cons c cs)
  obtain v vs where v: "split_on sep cs = v # vs" by (metis neq_Nil_conv split_on_nonempty)
  show ?case using Cons.prems Cons.IH v by (cases "c = sep") auto
qed simp

lemma split_on_append_sep: "split_on sep (a @ sep # b) = split_on sep a @ split_on sep b"
proof (induction a)
  case (Cons c a)
  then show ?case by (cases "split_on sep a") auto
qed simp

lemma split_on_id: "sep \<notin> set w \<Longrightarrow> split_on sep w = [w]"
  by (induction w) auto

lemma split_on_single: "split_on sep s = [w] \<Longrightarrow> s = w"
  by (induction s arbitrary: w) (auto split: list.splits if_splits)

lemma split_on_prefix:
  "sep \<notin> set a \<Longrightarrow> \<exists>w ws. split_on sep (a @ t) = w # ws \<and> prefix a w"
proof (induction a)
  case Nil
  then show ?case by (cases "split_on sep t") simp_all
next
  case (Cons c a)
  then obtain w ws where "split_on sep (a @ t) = w # ws" "prefix a w" by auto
  then show ?case using Cons.prems by auto
qed

text \<open>\<open>strings.Contains\<close>.\<close>

definition str_contains :: "string \<Rightarrow> string \<Rightarrow> bool" where
  "str_contains s sub \<longleftrightarrow> str_index s sub \<noteq> None"

lemma rune_fields_nonempty: "w \<in> set (rune_fields rs cur) \<Longrightarrow> (\<forall>r\<in>set rs. r \<noteq> []) \<Longrightarrow> w \<noteq> []"
  by (induction rs arbitrary: cur) (auto split: if_splits)

lemma runes_nonempty: "r \<in> set (runes s) \<Longrightarrow> r \<noteq> []"
proof (induction s rule: runes.induct)
  case (2 c cs)
  have "take (rune_width (c # cs)) (c # cs) \<noteq> []"
    using rune_width_pos [of c cs] by (simp only: take_eq_Nil) simp
  then show ?case using 2 by (metis insertE list.set(2) runes.simps(2))
qed simp

lemma str_fields_nonempty: "w \<in> set (str_fields s) \<Longrightarrow> w \<noteq> []"
  unfolding str_fields_def using rune_fields_nonempty runes_nonempty by blast

section \<open>Cutting and addresses\<close>

text \<open>\<open>strings.Cut\<close> at a byte: what stands before it and behind it.\<close>

definition cut_byte :: "char \<Rightarrow> string \<Rightarrow> (string \<times> string) option" where
  "cut_byte c s = (if c \<in> set s then Some (takeWhile (\<lambda>x. x \<noteq> c) s, tl (dropWhile (\<lambda>x. x \<noteq> c) s)) else None)"

lemma cut_byte_Some: "cut_byte c s = Some (w, u) \<longleftrightarrow> c \<notin> set w \<and> s = w @ c # u"
proof
  assume l: "cut_byte c s = Some (w, u)"
  then have s: "c \<in> set s" "w = takeWhile (\<lambda>x. x \<noteq> c) s" "u = tl (dropWhile (\<lambda>x. x \<noteq> c) s)"
    by (auto simp: cut_byte_def split: if_splits)
  have ne: "dropWhile (\<lambda>x. x \<noteq> c) s \<noteq> []" using s(1) by auto
  then have "hd (dropWhile (\<lambda>x. x \<noteq> c) s) = c" using hd_dropWhile [OF ne] by simp
  then have "dropWhile (\<lambda>x. x \<noteq> c) s = c # u" using ne s(3) by (metis list.collapse)
  then show "c \<notin> set w \<and> s = w @ c # u"
    using s(2) by (metis set_takeWhileD takeWhile_dropWhile_id)
next
  assume "c \<notin> set w \<and> s = w @ c # u"
  moreover have "takeWhile (\<lambda>x. x \<noteq> c) (w @ c # u) = w" "dropWhile (\<lambda>x. x \<noteq> c) (w @ c # u) = c # u" if "c \<notin> set w"
    using that by (induction w) auto
  ultimately show "cut_byte c s = Some (w, u)" by (simp add: cut_byte_def)
qed

text \<open>\<open>strings.LastIndexByte\<close>, and \<open>strings.Cut\<close> at a text.\<close>

definition last_index_byte :: "string \<Rightarrow> char \<Rightarrow> nat option" where
  "last_index_byte s c =
     (if c \<in> set s then Some (length s - 1 - length (takeWhile (\<lambda>x. x \<noteq> c) (rev s))) else None)"

definition cut_text :: "string \<Rightarrow> string \<Rightarrow> (string \<times> string) option" where
  "cut_text s sep = map_option (\<lambda>i. (take i s, drop (i + length sep) s)) (str_index s sep)"

text \<open>\<open>net.JoinHostPort\<close>.\<close>

definition joinHostPort :: "string \<Rightarrow> string \<Rightarrow> string" where
  "joinHostPort host port =
     (if CHR '':'' \<in> set host then ''['' @ host @ '']:'' @ port else host @ '':'' @ port)"

end
