(* ===== verification/Redact.thy ===== *)
theory Redact
  imports GoText
begin

text \<open>
  The secret redactor (\<open>internal/redact/redact.go\<close>): the set of redaction targets and how it is
  rebuilt, the replacement itself, and the line-buffering writer that applies it to a stream of
  chunks. The mutex is left out: every operation is one critical section. \<open>strings.Replacer\<close>
  is modelled by its documented behaviour (left to right, no overlap, the pairs compared in
  argument order). A write to the inner writer is an entry of a log, and whether the n-th such
  write fails is given by a function.
\<close>

section \<open>Decoded values\<close>

text \<open>
  The \<open>any\<close> values that decoding YAML or JSON yields. The entries of a map are listed in some
  order; nothing below depends on which.
\<close>

datatype gvalue =
  GNil
| GBool bool
| GInt int
| GFloat string
| GStr string
| GList "gvalue list"
| GMap "(string \<times> gvalue) list"

type_synonym gmap = "(string \<times> gvalue) list"

section \<open>Redaction targets\<close>

definition minSecretLen :: nat where "minSecretLen = 6"

definition placeholder :: string where "placeholder = ''[REDACTED]''"

fun collectLeafStrings :: "gvalue \<Rightarrow> string list" where
  "collectLeafStrings (GStr s) = (if length s \<ge> minSecretLen then [s] else [])"
| "collectLeafStrings (GMap m) = concat (map (\<lambda>kv. collectLeafStrings (snd kv)) m)"
| "collectLeafStrings (GList xs) = concat (map collectLeafStrings xs)"
| "collectLeafStrings _ = []"

record redactor =
  rd_secrets :: "string list"
  rd_static :: "(string, string list) fmap"
  rd_values :: "string list"

definition NewRedactor :: redactor where
  "NewRedactor = \<lparr>rd_secrets = [], rd_static = fmempty, rd_values = []\<rparr>"

text \<open>The lists of a map in the order of its keys.\<close>

definition fmvalues :: "(string, 'a) fmap \<Rightarrow> 'a list" where
  "fmvalues m = map (\<lambda>k. the (fmlookup m k)) (sorted_list_of_set (fmdom' m))"

lemma set_fmvalues [simp]: "set (fmvalues m) = fmran' m"
proof -
  have "set (fmvalues m) = (\<lambda>k. the (fmlookup m k)) ` fmdom' m"
    by (simp add: fmvalues_def)
  also have "\<dots> = fmran' m"
    by (force simp: fmlookup_dom'_iff fmlookup_ran'_iff image_iff)
  finally show ?thesis .
qed

text \<open>\<open>rebuildLocked\<close>: deduplicate, keeping first occurrences, then sort longest first.\<close>

fun unique_from :: "string set \<Rightarrow> string list \<Rightarrow> string list" where
  "unique_from seen [] = []"
| "unique_from seen (v # vs) =
     (if v \<in> seen then unique_from seen vs else v # unique_from (insert v seen) vs)"

definition targets_of :: "string list \<Rightarrow> (string, string list) fmap \<Rightarrow> string list" where
  "targets_of secrets static =
     sort_key (\<lambda>v. - int (length v)) (unique_from {} (secrets @ concat (fmvalues static)))"

definition rebuildLocked :: "redactor \<Rightarrow> redactor" where
  "rebuildLocked r = r\<lparr>rd_values := targets_of (rd_secrets r) (rd_static r)\<rparr>"

definition redactor_Update :: "(string, gmap) fmap \<Rightarrow> redactor \<Rightarrow> redactor" where
  "redactor_Update secrets r =
     rebuildLocked (r\<lparr>rd_secrets := concat (map (\<lambda>m. collectLeafStrings (GMap m)) (fmvalues secrets))\<rparr>)"

definition SetStaticValues :: "string \<Rightarrow> string list \<Rightarrow> redactor \<Rightarrow> redactor" where
  "SetStaticValues key vals r =
     (let kept = filter (\<lambda>v. length v \<ge> minSecretLen) vals
      in rebuildLocked (r\<lparr>rd_static := fmupd key kept (rd_static r)\<rparr>))"

definition key_lines :: "string \<Rightarrow> string list" where
  "key_lines k = filter (\<lambda>l. \<not> (length l < minSecretLen \<or> prefix ''-----'' l))
     (map (trim_right {carriage_return}) (split_on newline k))"

definition KeyMaterialValues :: "string list \<Rightarrow> string list" where
  "KeyMaterialValues keys = concat (map key_lines keys)"

lemma set_unique_from: "set (unique_from seen vs) = set vs - seen"
  by (induction vs arbitrary: seen) auto

lemma distinct_unique_from: "distinct (unique_from seen vs)"
  by (induction vs arbitrary: seen) (auto simp: set_unique_from)

lemma set_targets: "set (targets_of secrets static) = set secrets \<union> (\<Union>l\<in>fmran' static. set l)"
  by (simp add: targets_of_def set_unique_from)

lemma distinct_targets: "distinct (targets_of secrets static)"
  by (simp add: targets_of_def distinct_unique_from)

lemma targets_longest_first:
  "sorted_wrt (\<lambda>a b. length b \<le> length a) (targets_of secrets static)"
proof -
  have "sorted (map (\<lambda>v. - int (length v)) (targets_of secrets static))"
    by (simp add: targets_of_def)
  then show ?thesis by (simp add: sorted_map)
qed

lemma collectLeafStrings_long: "v \<in> set (collectLeafStrings g) \<Longrightarrow> minSecretLen \<le> length v"
  by (induction g rule: collectLeafStrings.induct) (auto split: if_splits)

text \<open>Targets are never shorter than the minimum, so the replacer never sees an empty pattern.\<close>

definition redactor_ok :: "redactor \<Rightarrow> bool" where
  "redactor_ok r \<longleftrightarrow> rd_values r = targets_of (rd_secrets r) (rd_static r) \<and>
     (\<forall>v\<in>set (rd_secrets r). minSecretLen \<le> length v) \<and>
     (\<forall>l\<in>fmran' (rd_static r). \<forall>v\<in>set l. minSecretLen \<le> length v)"

lemma redactor_ok_New [inv_intros]: "redactor_ok NewRedactor"
proof -
  have "rd_values NewRedactor = targets_of [] fmempty"
    by (simp add: NewRedactor_def targets_of_def fmvalues_def)
  moreover have "fmran' (fmempty :: (string, string list) fmap) = {}"
    by (auto simp: fmlookup_ran'_iff)
  ultimately show ?thesis by (simp add: redactor_ok_def NewRedactor_def)
qed

lemma redactor_ok_Update [inv_intros]: "redactor_ok r \<Longrightarrow> redactor_ok (redactor_Update s r)"
  using collectLeafStrings_long
  by (auto simp: redactor_ok_def redactor_Update_def rebuildLocked_def simp del: collectLeafStrings.simps)

lemma fmran'_fmupd: "l \<in> fmran' (fmupd k v m) \<Longrightarrow> l = v \<or> l \<in> fmran' m"
  by (auto simp: fmlookup_ran'_iff split: if_splits)

lemma redactor_ok_SetStatic [inv_intros]:
  "redactor_ok r \<Longrightarrow> redactor_ok (SetStaticValues k vs r)"
  by (auto simp: redactor_ok_def SetStaticValues_def rebuildLocked_def Let_def dest!: fmran'_fmupd)

lemma redactor_ok_long: "redactor_ok r \<Longrightarrow> v \<in> set (rd_values r) \<Longrightarrow> minSecretLen \<le> length v"
  by (auto simp: redactor_ok_def set_targets)

section \<open>Replacement\<close>

text \<open>
  \<open>Redact\<close>: at every position the first target, in order, that begins there is replaced.
\<close>

function replace_all :: "string list \<Rightarrow> string \<Rightarrow> string" where
  "replace_all vals [] = []"
| "replace_all vals (c # cs) =
     (case find (\<lambda>v. prefix v (c # cs)) vals of
        Some v \<Rightarrow> placeholder @ replace_all vals (drop (length v - 1) cs)
      | None \<Rightarrow> c # replace_all vals cs)"
  by pat_completeness auto
termination
  by (relation "measure (\<lambda>(vals, s). length s)") auto

definition Redact :: "redactor \<Rightarrow> string \<Rightarrow> string" where
  "Redact r s = replace_all (rd_values r) s"

text \<open>
  The target that the replacer picks, when the targets come longest first, is the longest one:
  the order of targets of equal length, which Go's map iteration and unstable sort leave open,
  does not matter.
\<close>

definition longest_match :: "string set \<Rightarrow> string \<Rightarrow> string option" where
  "longest_match V s =
     (if \<exists>v\<in>V. prefix v s then Some (take (Max (length ` {v\<in>V. prefix v s})) s) else None)"

lemma prefix_same_length: "prefix u s \<Longrightarrow> prefix v s \<Longrightarrow> length u = length v \<Longrightarrow> u = v"
  by (metis append_eq_append_conv prefix_def)

lemma find_longest:
  assumes "sorted_wrt (\<lambda>a b. length b \<le> length a) vals"
  shows "find (\<lambda>v. prefix v s) vals = longest_match (set vals) s"
  using assms
proof (induction vals)
  case Nil
  then show ?case by (simp add: longest_match_def)
next
  case (Cons v vals)
  show ?case
  proof (cases "prefix v s")
    case True
    let ?M = "{u \<in> set (v # vals). prefix u s}"
    have "Max (length ` ?M) = length v"
    proof (rule Max_eqI)
      show "finite (length ` ?M)" by simp
      show "y \<le> length v" if "y \<in> length ` ?M" for y
        using that Cons.prems by auto
      show "length v \<in> length ` ?M" using True by auto
    qed
    moreover have "take (length v) s = v" using True by (metis append_eq_conv_conj prefix_def)
    ultimately show ?thesis using True by (auto simp: longest_match_def)
  next
    case False
    then have "{u \<in> set (v # vals). prefix u s} = {u \<in> set vals. prefix u s}" by auto
    then show ?thesis using False Cons by (auto simp: longest_match_def)
  qed
qed

lemma replace_all_order:
  assumes "sorted_wrt (\<lambda>a b. length b \<le> length a) us" "sorted_wrt (\<lambda>a b. length b \<le> length a) vs"
    and "set us = set vs"
  shows "replace_all us s = replace_all vs s"
proof (induction s rule: length_induct)
  case (1 s)
  show ?case
  proof (cases s)
    case (Cons c cs)
    have found: "find (\<lambda>v. prefix v (c # cs)) us = find (\<lambda>v. prefix v (c # cs)) vs"
      using assms by (simp add: find_longest)
    have rest: "replace_all us (drop n cs) = replace_all vs (drop n cs)" for n
      using 1 Cons by (metis diff_le_self le_imp_less_Suc length_Cons length_drop)
    show ?thesis using Cons found rest rest [of 0] by (simp split: option.splits)
  qed simp
qed

text \<open>
  What a redaction promises: the output is the input with some targets replaced by the
  placeholder, and no target lies in any stretch that was copied.
\<close>

definition clean :: "string set \<Rightarrow> string \<Rightarrow> bool" where
  "clean V s \<longleftrightarrow> (\<forall>v\<in>V. \<not> sublist v s)"

inductive redacts :: "string set \<Rightarrow> string \<Rightarrow> string \<Rightarrow> bool" for V where
  copied: "clean V s \<Longrightarrow> redacts V s s"
| hidden: "v \<in> V \<Longrightarrow> clean V a \<Longrightarrow> redacts V b t \<Longrightarrow> redacts V (a @ v @ b) (a @ placeholder @ t)"

lemma clean_Cons:
  assumes "clean V a" and "\<forall>v\<in>V. \<not> prefix v (c # a @ rest)"
  shows "clean V (c # a)"
  using assms by (auto simp: clean_def sublist_Cons_right prefix_def) (metis append_Cons append_assoc)

lemma redacts_Cons:
  assumes "redacts V cs t" and "\<forall>v\<in>V. \<not> prefix v (c # cs)"
  shows "redacts V (c # cs) (c # t)"
  using assms(1)
proof cases
  case copied
  then show ?thesis using clean_Cons [of V cs c "[]"] assms(2) by (auto intro: redacts.copied)
next
  case (hidden v a b t')
  then have "clean V (c # a)" using clean_Cons [of V a c "v @ b"] assms(2) by simp
  then show ?thesis using hidden redacts.hidden [of v V "c # a" b t'] by simp
qed

lemma replace_all_redacts:
  assumes "\<forall>v\<in>set vals. v \<noteq> []"
  shows "redacts (set vals) s (replace_all vals s)"
  using assms
proof (induction vals s rule: replace_all.induct)
  case (1 vals)
  then show ?case by (auto intro!: copied simp: clean_def)
next
  case (2 vals c cs)
  show ?case
  proof (cases "find (\<lambda>v. prefix v (c # cs)) vals")
    case None
    then have "\<forall>v\<in>set vals. \<not> prefix v (c # cs)" by (auto simp: find_None_iff)
    moreover have "redacts (set vals) cs (replace_all vals cs)" using 2 None by simp
    ultimately show ?thesis using None by (simp add: redacts_Cons)
  next
    case (Some v)
    then have v: "v \<in> set vals" "prefix v (c # cs)" by (auto simp: find_Some_iff in_set_conv_nth)
    have "v \<noteq> []" using v(1) "2.prems" by blast
    then obtain v' where vc: "v = c # v'" using v(2) by (cases v) (auto simp: prefix_def)
    then have "c # cs = v @ drop (length v - 1) cs"
      using v(2) by (auto simp: prefix_def)
    moreover have "redacts (set vals) (drop (length v - 1) cs) (replace_all vals (drop (length v - 1) cs))"
      using 2 Some by simp
    moreover have "replace_all vals (c # cs) = placeholder @ replace_all vals (drop (length v - 1) cs)"
      using Some by simp
    moreover have "clean (set vals) []" using "2.prems" by (auto simp: clean_def)
    ultimately show ?thesis using hidden [OF v(1), of "[]"] by (metis append_Nil)
  qed
qed

text \<open>Where no target straddles a position, the replacement can be done on the two sides.\<close>

definition straddles :: "string \<Rightarrow> string \<Rightarrow> nat \<Rightarrow> nat \<Rightarrow> bool" where
  "straddles v s i k \<longleftrightarrow> prefix v (drop i s) \<and> i < k \<and> k < i + length v"

lemma straddles_drop: "straddles v (drop n s) i (k - n) \<Longrightarrow> straddles v s (n + i) k"
  by (auto simp: straddles_def add.commute)

lemma replace_all_split:
  assumes "\<forall>v\<in>set vals. v \<noteq> []" and "k \<le> length s"
    and "\<forall>v\<in>set vals. \<forall>i. \<not> straddles v s i k"
  shows "replace_all vals s = replace_all vals (take k s) @ replace_all vals (drop k s)"
  using assms(2,3)
proof (induction s arbitrary: k rule: length_induct)
  case (1 s)
  show ?case
  proof (cases s)
    case Nil
    then show ?thesis by simp
  next
    case (Cons c cs)
    show ?thesis
    proof (cases k)
      case 0
      then show ?thesis by simp
    next
      case (Suc k')
      have same: "prefix v (c # cs) \<longleftrightarrow> prefix v (c # take k' cs)" if "v \<in> set vals" for v
      proof -
        have "\<not> straddles v s 0 k" using 1(3) that by blast
        then have "prefix v s \<Longrightarrow> length v \<le> k" using Suc by (auto simp: straddles_def)
        then have "prefix v s \<Longrightarrow> prefix v (take k s)" by (auto simp: prefix_def)
        moreover have "prefix v (take k s) \<Longrightarrow> prefix v s"
          using take_is_prefix prefix_order.trans by blast
        ultimately show ?thesis using Suc Cons by auto
      qed
      have eq: "find (\<lambda>v. prefix v (c # cs)) vals = find (\<lambda>v. prefix v (c # take k' cs)) vals"
        using same by (induction vals) auto
      have IH: "replace_all vals (drop n s) =
          replace_all vals (take (k - n) (drop n s)) @ replace_all vals (drop k s)"
        if "0 < n" "n \<le> k" for n
      proof -
        have "\<forall>v\<in>set vals. \<forall>i. \<not> straddles v (drop n s) i (k - n)"
          using 1(3) that straddles_drop by metis
        moreover have "length (drop n s) < length s" using that Cons by simp
        ultimately have "replace_all vals (drop n s) = replace_all vals (take (k - n) (drop n s)) @
            replace_all vals (drop (k - n) (drop n s))"
          using 1(1) 1(2) that by (metis diff_le_mono length_drop)
        then show ?thesis using that by simp
      qed
      show ?thesis
      proof (cases "find (\<lambda>v. prefix v (c # cs)) vals")
        case None
        then show ?thesis using IH [of 1] eq Cons Suc by simp
      next
        case (Some v)
        then have v: "v \<in> set vals" "prefix v (c # take k' cs)"
          using same by (auto simp: find_Some_iff in_set_conv_nth)
        have pos: "0 < length v" "length v \<le> k"
          using v assms(1) Suc 1(2) Cons prefix_length_le [OF v(2)] by auto
        then have "drop (length v - 1) cs = drop (length v) s"
          using Cons by (cases "length v") auto
        moreover have "drop (length v - 1) (take k' cs) = take (k - length v) (drop (length v) s)"
          using Cons Suc pos by (cases "length v") (auto simp: drop_take)
        ultimately show ?thesis using IH [OF pos] Some eq Cons Suc by simp
      qed
    qed
  qed
qed

section \<open>The redacting writer\<close>

text \<open>\<open>tailHold\<close>: the longest suffix of the buffer that is a proper prefix of a target.\<close>

text \<open>The inner loop over \<open>k\<close>, from \<open>limit\<close> down to \<open>hold + 1\<close>.\<close>

fun hold_for :: "string \<Rightarrow> string \<Rightarrow> nat \<Rightarrow> nat \<Rightarrow> nat" where
  "hold_for buf v hold 0 = hold"
| "hold_for buf v hold (Suc k) =
     (if Suc k > hold then
        (if drop (length buf - Suc k) buf = take (Suc k) v then Suc k else hold_for buf v hold k)
      else hold)"

definition tailHold :: "string list \<Rightarrow> string \<Rightarrow> nat" where
  "tailHold vals buf =
     foldl (\<lambda>hold v. hold_for buf v hold (min (length v - 1) (length buf))) 0 vals"

text \<open>
  \<open>safeCut\<close>. The inner search returns the first occurrence of \<open>v\<close> in the window around the
  cut that straddles it; the outer loop restarts from the new, lower cut.
\<close>

definition straddle_start :: "string \<Rightarrow> string \<Rightarrow> nat \<Rightarrow> nat option" where
  "straddle_start v buf ct =
     (let lo = ct + 1 - length v;
          hi = min (length buf) (ct + length v - 1)
      in if lo \<ge> ct then None
         else find (\<lambda>i. prefix v (drop i (take hi buf)) \<and> i < ct \<and> ct < i + length v) [lo..<hi])"

fun first_straddle :: "string list \<Rightarrow> string \<Rightarrow> nat \<Rightarrow> nat option" where
  "first_straddle [] buf ct = None"
| "first_straddle (v # vs) buf ct =
     (case straddle_start v buf ct of Some i \<Rightarrow> Some i | None \<Rightarrow> first_straddle vs buf ct)"

lemma straddle_start_Some: "straddle_start v buf ct = Some i \<Longrightarrow> straddles v buf i ct"
proof -
  assume "straddle_start v buf ct = Some i"
  then obtain hi where "prefix v (drop i (take hi buf))" "i < ct" "ct < i + length v"
    by (auto simp: straddle_start_def Let_def find_Some_iff split: if_splits)
  then show ?thesis
    by (auto simp: straddles_def drop_take intro: prefix_order.trans take_is_prefix)
qed

lemma first_straddle_Some:
  "first_straddle vs buf ct = Some i \<Longrightarrow> \<exists>v\<in>set vs. straddles v buf i ct"
  by (induction vs) (auto split: option.splits dest: straddle_start_Some)

function safeCut :: "string list \<Rightarrow> string \<Rightarrow> nat \<Rightarrow> nat" where
  "safeCut vals buf ct =
     (if ct > 0 then
        (case first_straddle vals buf ct of None \<Rightarrow> ct | Some start \<Rightarrow> safeCut vals buf start)
      else ct)"
  by pat_completeness auto
termination
  by (relation "measure (\<lambda>(vals, buf, ct). ct)")
    (auto dest: first_straddle_Some simp: straddles_def)

declare safeCut.simps [simp del]

definition maxRedactBuffer :: nat where "maxRedactBuffer = 2 ^ 20"

record writer =
  wr_buf :: string
  wr_out :: "string list"

text \<open>
  \<open>redactTo\<close> on the writer's own scratch buffer: one write of the replaced text. \<open>fails n\<close>
  tells whether the n-th write to the inner writer fails; what it was given is logged.
\<close>

definition inner_write :: "(nat \<Rightarrow> bool) \<Rightarrow> string \<Rightarrow> writer \<Rightarrow> bool \<times> writer" where
  "inner_write fails b w = (fails (length (wr_out w)), w\<lparr>wr_out := wr_out w @ [b]\<rparr>)"

definition emit :: "(nat \<Rightarrow> bool) \<Rightarrow> redactor \<Rightarrow> string \<Rightarrow> writer \<Rightarrow> bool \<times> writer" where
  "emit fails r b w =
     (if rd_values r = [] then inner_write fails b w else inner_write fails (Redact r b) w)"

definition emitPlaceholder :: "(nat \<Rightarrow> bool) \<Rightarrow> writer \<Rightarrow> bool \<times> writer" where
  "emitPlaceholder fails w = inner_write fails placeholder w"

text \<open>\<open>bytes.LastIndexByte (buf, '\\n')\<close>.\<close>

fun last_newline :: "string \<Rightarrow> nat option" where
  "last_newline [] = None"
| "last_newline (c # cs) =
     (case last_newline cs of Some i \<Rightarrow> Some (Suc i) | None \<Rightarrow> if c = newline then Some 0 else None)"

text \<open>The complete lines, forwarded as one segment; the result tells whether to go on.\<close>

definition write_lines :: "(nat \<Rightarrow> bool) \<Rightarrow> redactor \<Rightarrow> writer \<Rightarrow> bool \<times> writer" where
  "write_lines fails r w =
     (case last_newline (wr_buf w) of
        None \<Rightarrow> (False, w)
      | Some nl \<Rightarrow>
          (let (err, w1) = emit fails r (take (nl + 1) (wr_buf w)) w
           in (err, w1\<lparr>wr_buf := drop (nl + 1) (wr_buf w)\<rparr>)))"

definition write_overflow :: "(nat \<Rightarrow> bool) \<Rightarrow> redactor \<Rightarrow> nat \<Rightarrow> writer \<Rightarrow> bool \<times> writer" where
  "write_overflow fails r limit w =
     (if length (wr_buf w) \<ge> limit then
        (let buf = wr_buf w;
             hold = tailHold (rd_values r) buf;
             raw = length buf - hold;
             ct = safeCut (rd_values r) buf raw;
             (drp, err, w1) =
               (if ct > 0 then (let (e, w') = emit fails r (take ct buf) w in (ct, e, w'))
                else if raw > 0 then (let (e, w') = emitPlaceholder fails w in (raw, e, w'))
                else (raw, False, w))
         in (err, if drp > 0 then w1\<lparr>wr_buf := drop drp buf\<rparr> else w1))
      else (False, w))"

text \<open>\<open>Write\<close>: the reported error and the new state; the returned count is always \<open>len(p)\<close>.
  The buffer bound is an argument, \<open>maxRedactBuffer\<close> in the code.\<close>

definition writer_Write :: "(nat \<Rightarrow> bool) \<Rightarrow> redactor \<Rightarrow> nat \<Rightarrow> string \<Rightarrow> writer \<Rightarrow> bool \<times> writer" where
  "writer_Write fails r limit p w =
     (let (err, w1) = write_lines fails r (w\<lparr>wr_buf := wr_buf w @ p\<rparr>)
      in if err then (True, w1) else write_overflow fails r limit w1)"

definition writer_Flush :: "(nat \<Rightarrow> bool) \<Rightarrow> redactor \<Rightarrow> writer \<Rightarrow> bool \<times> writer" where
  "writer_Flush fails r w =
     (if wr_buf w = [] then (False, w)
      else (let (err, w1) = emit fails r (wr_buf w @ [newline]) w in (err, w1\<lparr>wr_buf := []\<rparr>)))"

section \<open>What the writer forwards\<close>

lemma straddle_start_None:
  assumes "straddle_start v buf ct = None"
  shows "\<not> straddles v buf i ct"
proof
  assume s: "straddles v buf i ct"
  let ?hi = "min (length buf) (ct + length v - 1)"
  have len: "i + length v \<le> length buf"
    using s prefix_length_le by (fastforce simp: straddles_def)
  then have "prefix v (drop i (take ?hi buf))"
    using s by (auto simp: straddles_def drop_take prefix_def)
  moreover have "i \<in> set [ct + 1 - length v..<?hi]" "ct + 1 - length v < ct"
    using s len by (auto simp: straddles_def)
  ultimately show False
    using assms s by (auto simp: straddle_start_def Let_def find_None_iff straddles_def)
qed

lemma first_straddle_None:
  "first_straddle vs buf ct = None \<Longrightarrow> v \<in> set vs \<Longrightarrow> \<not> straddles v buf i ct"
  by (induction vs) (auto split: option.splits dest: straddle_start_None)

lemma safeCut_le: "safeCut vals buf ct \<le> ct"
proof (induction vals buf ct rule: safeCut.induct)
  case (1 vals buf ct)
  show ?case
  proof (cases "first_straddle vals buf ct")
    case None
    then show ?thesis by (simp add: safeCut.simps [of vals buf ct])
  next
    case (Some i)
    then have "i < ct" using first_straddle_Some by (fastforce simp: straddles_def)
    then show ?thesis using 1 Some by (fastforce simp: safeCut.simps [of vals buf ct])
  qed
qed

lemma safeCut_safe: "v \<in> set vals \<Longrightarrow> \<not> straddles v buf i (safeCut vals buf ct)"
proof (induction vals buf ct rule: safeCut.induct)
  case (1 vals buf ct)
  show ?case
  proof (cases "ct > 0")
    case True
    then show ?thesis
      using 1 first_straddle_None by (subst safeCut.simps) (auto split: option.splits)
  next
    case False
    then show ?thesis by (subst safeCut.simps) (simp add: straddles_def)
  qed
qed

text \<open>A byte of the buffer that lies inside an occurrence of a target.\<close>

definition covered :: "string list \<Rightarrow> string \<Rightarrow> nat \<Rightarrow> bool" where
  "covered vals buf j \<longleftrightarrow> (\<exists>v\<in>set vals. \<exists>i. prefix v (drop i buf) \<and> i \<le> j \<and> j < i + length v)"

lemma safeCut_covered: "safeCut vals buf ct \<le> j \<Longrightarrow> j < ct \<Longrightarrow> covered vals buf j"
proof (induction vals buf ct rule: safeCut.induct)
  case (1 vals buf ct)
  show ?case
  proof (cases "first_straddle vals buf ct")
    case None
    then show ?thesis using "1.prems" by (simp add: safeCut.simps [of vals buf ct])
  next
    case (Some i)
    then have "safeCut vals buf ct = safeCut vals buf i"
      using "1.prems" by (simp add: safeCut.simps [of vals buf ct])
    moreover obtain v where "v \<in> set vals" "straddles v buf i ct"
      using first_straddle_Some [OF Some] by blast
    ultimately show ?thesis
      using 1 Some by (cases "j < i") (auto simp: straddles_def covered_def intro!: exI)
  qed
qed

lemma hold_for_ge: "hold \<le> hold_for buf v hold n"
  by (induction n) auto

lemma hold_for_found:
  "k \<le> n \<Longrightarrow> drop (length buf - k) buf = take k v \<Longrightarrow> k \<le> hold_for buf v hold n"
proof (induction n)
  case (Suc n)
  then show ?case by (cases "k = Suc n") auto
qed auto

lemma tailHold_found_acc:
  assumes "v \<in> set vals" "k < length v" "k \<le> length buf" "drop (length buf - k) buf = take k v"
  shows "k \<le> foldl (\<lambda>hold v. hold_for buf v hold (min (length v - 1) (length buf))) h vals"
  using assms
proof (induction vals arbitrary: h)
  case (Cons u us)
  let ?f = "\<lambda>hold v. hold_for buf v hold (min (length v - 1) (length buf))"
  have mono: "h' \<le> foldl ?f h' vs" for h' vs
    by (induction vs arbitrary: h') (auto intro: order_trans [OF hold_for_ge])
  show ?case
  proof (cases "v = u")
    case True
    then have "k \<le> ?f h u" using Cons.prems by (intro hold_for_found) auto
    then show ?thesis using mono [of "?f h u" us] by simp
  next
    case False
    then show ?thesis using Cons by simp
  qed
qed simp

lemma tailHold_found:
  "v \<in> set vals \<Longrightarrow> k < length v \<Longrightarrow> k \<le> length buf \<Longrightarrow> drop (length buf - k) buf = take k v \<Longrightarrow>
   k \<le> tailHold vals buf"
  unfolding tailHold_def by (rule tailHold_found_acc)

text \<open>A cut below the held tail that straddles nothing in the buffer straddles nothing that a
  later write can complete either.\<close>

lemma no_future_straddle:
  assumes "v \<in> set vals" "ct \<le> length buf - tailHold vals buf" "\<not> straddles v buf i ct"
  shows "\<not> straddles v (buf @ fut) i ct"
proof
  assume s: "straddles v (buf @ fut) i ct"
  then have i: "i < ct" "ct < i + length v" "prefix v (drop i (buf @ fut))"
    by (auto simp: straddles_def)
  have ibuf: "i \<le> length buf" using i assms(2) by linarith
  show False
  proof (cases "i + length v \<le> length buf")
    case True
    then have "prefix v (drop i buf)"
      using i(3) ibuf by (auto intro: prefix_length_prefix [of v "drop i buf @ fut"])
    then show False using assms(3) i by (simp add: straddles_def)
  next
    case False
    let ?k = "length buf - i"
    obtain r where r: "drop i buf @ fut = v @ r"
      using i(3) ibuf by (auto simp: prefix_def)
    have "drop (length buf - ?k) buf = drop i buf" using ibuf by simp
    also have "\<dots> = take ?k (drop i buf @ fut)" by simp
    also have "\<dots> = take ?k v" using False r by simp
    finally have "?k \<le> tailHold vals buf"
      using False ibuf assms(1) by (intro tailHold_found) auto
    then show False using i assms(2) ibuf by linarith
  qed
qed

lemma newline_straddle:
  assumes "straddles v s i k" and "s ! (k - 1) = newline"
  shows "newline \<in> set v"
proof -
  have i: "i < k" "k < i + length v" "prefix v (drop i s)" using assms(1) by (auto simp: straddles_def)
  obtain r where r: "drop i s = v @ r" using i(3) by (auto simp: prefix_def)
  have "length v \<le> length s - i" using r by (metis length_append length_drop le_add1)
  then have "i \<le> length s" using i by linarith
  then have at: "s ! (k - 1) = drop i s ! (k - 1 - i)" using i(1) by simp
  have lt: "k - 1 - i < length v" using i by linarith
  then have "drop i s ! (k - 1 - i) = v ! (k - 1 - i)" using r by (simp add: nth_append del: diff_diff_left)
  then show ?thesis using assms(2) at lt nth_mem by metis
qed

lemma last_newline_Some:
  "last_newline s = Some i \<Longrightarrow> i < length s \<and> s ! i = newline"
  by (induction s arbitrary: i) (auto split: option.splits if_splits)

definition no_fail :: "nat \<Rightarrow> bool" where
  "no_fail n = False"

lemma replace_all_no_targets: "replace_all [] s = s"
  by (induction s) simp_all

lemma emit_no_fail:
  "emit no_fail r b w = (False, w\<lparr>wr_out := wr_out w @ [replace_all (rd_values r) b]\<rparr>)"
  by (simp add: emit_def inner_write_def no_fail_def Redact_def replace_all_no_targets)

text \<open>The overflow branch of \<open>Write\<close> that finds no safe cut.\<close>

definition collapses :: "redactor \<Rightarrow> nat \<Rightarrow> writer \<Rightarrow> bool" where
  "collapses r limit w \<longleftrightarrow>
     (let raw = length (wr_buf w) - tailHold (rd_values r) (wr_buf w)
      in length (wr_buf w) \<ge> limit \<and> raw > 0 \<and> safeCut (rd_values r) (wr_buf w) raw = 0)"

text \<open>
  What has been forwarded is the redaction of the input so far, for every continuation \<open>y\<close>
  of the input: what is buffered can still be redacted together with it.
\<close>

definition stream_inv :: "redactor \<Rightarrow> string \<Rightarrow> writer \<Rightarrow> bool" where
  "stream_inv r x w \<longleftrightarrow> (\<forall>y. replace_all (rd_values r) (x @ y) =
     concat (wr_out w) @ replace_all (rd_values r) (wr_buf w @ y))"

definition no_newlines :: "redactor \<Rightarrow> bool" where
  "no_newlines r \<longleftrightarrow> (\<forall>v\<in>set (rd_values r). newline \<notin> set v)"

lemma redactor_ok_nonempty: "redactor_ok r \<Longrightarrow> \<forall>v\<in>set (rd_values r). v \<noteq> []"
  using redactor_ok_long by (fastforce simp: minSecretLen_def)

lemma stream_inv_cut:
  assumes "redactor_ok r" and "stream_inv r x w" and "k \<le> length (wr_buf w)"
    and "\<And>v i y. v \<in> set (rd_values r) \<Longrightarrow> \<not> straddles v (wr_buf w @ y) i k"
  shows "stream_inv r x (w\<lparr>wr_out := wr_out w @ [replace_all (rd_values r) (take k (wr_buf w))],
     wr_buf := drop k (wr_buf w)\<rparr>)"
  using assms replace_all_split [OF redactor_ok_nonempty [OF assms(1)], of k "wr_buf w @ y" for y]
  by (simp add: stream_inv_def)

lemma write_lines_inv:
  assumes "redactor_ok r" "no_newlines r" "stream_inv r x w"
  shows "fst (write_lines no_fail r w) = False \<and> stream_inv r x (snd (write_lines no_fail r w))"
proof (cases "last_newline (wr_buf w)")
  case None
  then show ?thesis using assms by (simp add: write_lines_def)
next
  case (Some nl)
  then have nl: "nl < length (wr_buf w)" "wr_buf w ! nl = newline"
    using last_newline_Some by blast+
  have "stream_inv r x (w\<lparr>wr_out := wr_out w @ [replace_all (rd_values r) (take (nl + 1) (wr_buf w))],
     wr_buf := drop (nl + 1) (wr_buf w)\<rparr>)"
  proof (rule stream_inv_cut [OF assms(1,3)])
    show "\<not> straddles v (wr_buf w @ y) i (nl + 1)" if "v \<in> set (rd_values r)" for v i y
      using newline_straddle [of v "wr_buf w @ y" i "nl + 1"] nl assms(2) that
      by (auto simp: no_newlines_def nth_append)
  qed (use nl in simp)
  then show ?thesis using Some by (simp add: write_lines_def emit_no_fail)
qed

lemma write_overflow_inv:
  assumes "redactor_ok r" "stream_inv r x w" "\<not> collapses r limit w"
  shows "fst (write_overflow no_fail r limit w) = False \<and>
    stream_inv r x (snd (write_overflow no_fail r limit w))"
proof (cases "length (wr_buf w) \<ge> limit")
  case False
  then show ?thesis using assms by (simp add: write_overflow_def)
next
  case True
  let ?raw = "length (wr_buf w) - tailHold (rd_values r) (wr_buf w)"
  let ?ct = "safeCut (rd_values r) (wr_buf w) ?raw"
  show ?thesis
  proof (cases "?ct > 0")
    case False
    then have "?raw = 0" using assms(3) True by (simp add: collapses_def Let_def)
    then show ?thesis using True False assms(2) by (simp add: write_overflow_def Let_def)
  next
    case pos: True
    have le: "?ct \<le> ?raw" by (rule safeCut_le)
    have "stream_inv r x (w\<lparr>wr_out := wr_out w @ [replace_all (rd_values r) (take ?ct (wr_buf w))],
     wr_buf := drop ?ct (wr_buf w)\<rparr>)"
    proof (rule stream_inv_cut [OF assms(1,2)])
      show "?ct \<le> length (wr_buf w)" using le by linarith
      show "\<not> straddles v (wr_buf w @ y) i ?ct" if "v \<in> set (rd_values r)" for v i y
        using no_future_straddle [OF that le] safeCut_safe [OF that] by blast
    qed
    then show ?thesis using True pos by (simp add: write_overflow_def Let_def emit_no_fail)
  qed
qed

text \<open>A stream of chunks through \<open>Write\<close>, and the condition that no overflow collapsed.\<close>

definition writes :: "redactor \<Rightarrow> nat \<Rightarrow> string list \<Rightarrow> writer \<Rightarrow> writer" where
  "writes r limit ps w = fold (\<lambda>p w. snd (writer_Write no_fail r limit p w)) ps w"

fun never_collapses :: "redactor \<Rightarrow> nat \<Rightarrow> string list \<Rightarrow> writer \<Rightarrow> bool" where
  "never_collapses r limit [] w = True"
| "never_collapses r limit (p # ps) w =
     (\<not> collapses r limit (snd (write_lines no_fail r (w\<lparr>wr_buf := wr_buf w @ p\<rparr>))) \<and>
      never_collapses r limit ps (snd (writer_Write no_fail r limit p w)))"

definition new_writer :: writer where
  "new_writer = \<lparr>wr_buf = [], wr_out = []\<rparr>"

lemma writer_Write_inv:
  assumes "redactor_ok r" "no_newlines r" "stream_inv r x w"
    and "\<not> collapses r limit (snd (write_lines no_fail r (w\<lparr>wr_buf := wr_buf w @ p\<rparr>)))"
  shows "stream_inv r (x @ p) (snd (writer_Write no_fail r limit p w))"
proof -
  have "stream_inv r (x @ p) (w\<lparr>wr_buf := wr_buf w @ p\<rparr>)"
    using assms(3) by (simp add: stream_inv_def)
  then have "fst (write_lines no_fail r (w\<lparr>wr_buf := wr_buf w @ p\<rparr>)) = False"
      "stream_inv r (x @ p) (snd (write_lines no_fail r (w\<lparr>wr_buf := wr_buf w @ p\<rparr>)))"
    using write_lines_inv [OF assms(1,2)] by blast+
  then show ?thesis
    using write_overflow_inv [OF assms(1) _ assms(4)]
    by (simp add: writer_Write_def case_prod_beta)
qed

lemma writes_inv:
  assumes "redactor_ok r" "no_newlines r" "stream_inv r x w" "never_collapses r limit ps w"
  shows "stream_inv r (x @ concat ps) (writes r limit ps w)"
  using assms(3,4)
proof (induction ps arbitrary: x w)
  case Nil
  then show ?case by (simp add: writes_def)
next
  case (Cons p ps)
  have "stream_inv r (x @ p) (snd (writer_Write no_fail r limit p w))"
    using writer_Write_inv [OF assms(1,2) Cons.prems(1)] Cons.prems(2) by simp
  then have "stream_inv r ((x @ p) @ concat ps)
      (writes r limit ps (snd (writer_Write no_fail r limit p w)))"
    using Cons.prems(2) by (intro Cons.IH) simp_all
  then show ?case by (simp add: writes_def)
qed

lemma writer_stream:
  assumes "redactor_ok r" "no_newlines r" "never_collapses r limit ps new_writer"
  shows "concat (wr_out (snd (writer_Flush no_fail r (writes r limit ps new_writer)))) =
    Redact r (concat ps @ (if wr_buf (writes r limit ps new_writer) = [] then [] else [newline]))"
proof -
  let ?w = "writes r limit ps new_writer"
  have "stream_inv r ([] @ concat ps) ?w"
    using assms by (intro writes_inv) (simp_all add: stream_inv_def new_writer_def)
  then have inv: "Redact r (concat ps @ y) = concat (wr_out ?w) @ Redact r (wr_buf ?w @ y)" for y
    by (simp add: stream_inv_def Redact_def)
  show ?thesis
  proof (cases "wr_buf ?w = []")
    case True
    then show ?thesis using inv [of "[]"] by (simp add: writer_Flush_def Redact_def)
  next
    case False
    then show ?thesis using inv [of "[newline]"]
      by (simp add: writer_Flush_def emit_no_fail Redact_def)
  qed
qed

text \<open>
  C11: However the subprocess output is cut into chunks, what the writer forwards, flush
  included, is the redaction of the whole stream at once (terminated by a newline): a secret
  that spans chunks, lines held back or buffer overflows is never emitted in part. It needs
  targets without newlines and a stream that never forces the collapse of the overflow branch.
\<close>

theorem writer_stream_equiv:
  assumes "redactor_ok r" "no_newlines r" "never_collapses r limit ps new_writer"
  shows "concat (wr_out (snd (writer_Flush no_fail r (writes r limit ps new_writer)))) =
    Redact r (concat ps @ (if wr_buf (writes r limit ps new_writer) = [] then [] else [newline]))"
  using assms by (rule writer_stream)

definition sample_redactor :: redactor where
  "sample_redactor = SetStaticValues ''k'' [''abcabc'', ''secret1''] NewRedactor"

lemma sample_redactor_ok: "redactor_ok sample_redactor"
  by (simp add: sample_redactor_def redactor_ok_SetStatic redactor_ok_New)

lemma sample_redactor_values: "rd_values sample_redactor = [''secret1'', ''abcabc'']"
  by code_simp

theorem writer_stream_equiv_witness:
  "never_collapses sample_redactor 8 [''my se'', ''cret1 is'', '' abcab''] new_writer \<and>
   concat (wr_out (snd (writer_Flush no_fail sample_redactor
     (writes sample_redactor 8 [''my se'', ''cret1 is'', '' abcab''] new_writer)))) =
   ''my [REDACTED] is abcab\<newline>''"
proof -
  have ok: "never_collapses sample_redactor 8 [''my se'', ''cret1 is'', '' abcab''] new_writer"
    by code_simp
  have "no_newlines sample_redactor"
    by (simp add: no_newlines_def sample_redactor_values newline_def)
  note eq = writer_stream_equiv [OF sample_redactor_ok this ok]
  have "Redact sample_redactor (concat [''my se'', ''cret1 is'', '' abcab''] @
      (if wr_buf (writes sample_redactor 8 [''my se'', ''cret1 is'', '' abcab''] new_writer) = []
       then [] else [newline])) = ''my [REDACTED] is abcab\<newline>''"
    by code_simp
  with eq ok show ?thesis by simp
qed

text \<open>
  When the overflow branch finds no safe cut and replaces the head of the buffer by one
  placeholder, every byte it drops lies inside an occurrence of a target: no other output is lost.
\<close>

theorem collapse_only_secrets:
  assumes "collapses r limit w" and "j < length (wr_buf w) - tailHold (rd_values r) (wr_buf w)"
  shows "covered (rd_values r) (wr_buf w) j"
  using assms by (intro safeCut_covered [of _ _ "length (wr_buf w) - tailHold (rd_values r) (wr_buf w)"])
    (simp_all add: collapses_def Let_def)

theorem collapse_only_secrets_witness:
  "let w = \<lparr>wr_buf = ''abcabcabcabc'', wr_out = []\<rparr> in
   collapses sample_redactor 8 w \<and> covered (rd_values sample_redactor) (wr_buf w) 2"
proof -
  let ?w = "\<lparr>wr_buf = ''abcabcabcabc'', wr_out = []\<rparr>"
  have c: "collapses sample_redactor 8 ?w" by code_simp
  have "2 < length (wr_buf ?w) - tailHold (rd_values sample_redactor) (wr_buf ?w)" by code_simp
  from collapse_only_secrets [OF c this] c show ?thesis by (simp add: Let_def)
qed

text \<open>
  Redacting replaces occurrences of targets and nothing else, and no stretch of the input
  that is copied contains a target.
\<close>

theorem Redact_hides:
  assumes "redactor_ok r"
  shows "redacts (set (rd_values r)) s (Redact r s)"
  using replace_all_redacts redactor_ok_nonempty [OF assms] by (simp add: Redact_def)

theorem Redact_hides_witness:
  "redacts {''secret1'', ''abcabc''} ''a secret1!'' ''a [REDACTED]!''"
proof -
  have "Redact sample_redactor ''a secret1!'' = ''a [REDACTED]!''" by code_simp
  then show ?thesis
    using Redact_hides [OF sample_redactor_ok, of "''a secret1!''"]
    by (simp add: sample_redactor_values)
qed

text \<open>
  After an update every string leaf of at least six bytes, at any depth of any secret, is a
  target, and so is every registered static value; registering static values under a key
  replaces that key's values only.
\<close>

theorem targets_complete:
  "set (rd_values (redactor_Update secrets r)) =
     (\<Union>m\<in>fmran' secrets. set (collectLeafStrings (GMap m))) \<union>
     (\<Union>l\<in>fmran' (rd_static r). set l) \<and>
   set (rd_values (SetStaticValues key vals r)) =
     set (rd_secrets r) \<union> {v \<in> set vals. minSecretLen \<le> length v} \<union>
     (\<Union>l\<in>fmran' (fmdrop key (rd_static r)). set l)"
proof -
  have ran: "fmran' (fmupd key v m) = insert v (fmran' (fmdrop key m))"
    for v :: "string list" and m
    by (auto simp: fmlookup_ran'_iff split: if_splits)
  show ?thesis
    by (auto simp: redactor_Update_def SetStaticValues_def rebuildLocked_def set_targets Let_def ran
        simp del: collectLeafStrings.simps)
qed

end
