(* ===== verification/DrainVCL.thy ===== *)
theory DrainVCL
  imports Prelude
begin

text \<open>
  The drain injection of the renderer (\<open>internal/renderer/renderer.go\<close>): the scanners that find
  comments, backend blocks and \<open>vcl_deliver\<close> in rendered VCL, and the placement of the drain
  backend, the drain \<open>vcl_deliver\<close> and \<open>import std\<close>. Offsets are byte offsets, a Go slice
  \<open>s[a:b]\<close> is \<open>take\<close>/\<open>drop\<close>; the lemmas on offsets show that none is out of range.
\<close>

section \<open>Comments and long strings\<close>

datatype scan_state = stNormal | stBlock | stLine | stString | stLongString

text \<open>One iteration of the scan at a byte: the next state and the number of bytes skipped.\<close>

definition peek :: "char \<Rightarrow> string \<Rightarrow> bool" where
  "peek c cs = (case cs of d # _ \<Rightarrow> d = c | [] \<Rightarrow> False)"

fun scan_step :: "scan_state \<Rightarrow> char \<Rightarrow> string \<Rightarrow> scan_state \<times> nat" where
  "scan_step stNormal c cs =
     (if c = CHR ''/'' \<and> peek (CHR ''*'') cs then (stBlock, 1)
      else if c = CHR ''/'' \<and> peek (CHR ''/'') cs then (stLine, 1)
      else if c = CHR ''#'' then (stLine, 0)
      else if c = CHR ''{'' \<and> peek (CHR 0x22) cs then (stLongString, 1)
      else if c = CHR 0x22 then (stString, 0) else (stNormal, 0))"
| "scan_step stBlock c cs =
     (if c = CHR ''*'' \<and> peek (CHR ''/'') cs then (stNormal, 1) else (stBlock, 0))"
| "scan_step stLine c cs = (if c = CHR 0x0A then (stNormal, 0) else (stLine, 0))"
| "scan_step stString c cs = (if c = CHR 0x22 then (stNormal, 0) else (stString, 0))"
| "scan_step stLongString c cs =
     (if c = CHR 0x22 \<and> peek (CHR ''}'') cs then (stNormal, 1) else (stLongString, 0))"

definition inert :: "scan_state \<Rightarrow> bool" where
  "inert st \<longleftrightarrow> st = stBlock \<or> st = stLongString"

text \<open>The scan from byte \<open>i\<close>, whose rest of the text and open questions are the arguments.\<close>

fun scan_from :: "scan_state \<Rightarrow> nat \<Rightarrow> string \<Rightarrow> nat list \<Rightarrow> bool list" where
  "scan_from st i [] ps = map (\<lambda>_. inert st) ps"
| "scan_from st i (c # cs) ps =
     (if ps = [] then []
      else map (\<lambda>_. inert st) (takeWhile (\<lambda>p. p \<le> i) ps) @
        (let (st', skip) = scan_step st c cs
         in scan_from st' (i + 1 + skip) (drop skip cs) (dropWhile (\<lambda>p. p \<le> i) ps)))"

definition inCommentOrLongStringAt :: "string \<Rightarrow> nat list \<Rightarrow> bool list" where
  "inCommentOrLongStringAt vcl positions = scan_from stNormal 0 vcl positions"

definition inCommentOrLongString :: "string \<Rightarrow> nat \<Rightarrow> bool" where
  "inCommentOrLongString vcl pos = hd (inCommentOrLongStringAt vcl [pos])"

lemma length_scan_from [simp]: "length (scan_from st i s ps) = length ps"
proof (induction st i s ps rule: scan_from.induct)
  case (2 st i c cs ps)
  show ?case
  proof (cases "ps = []")
    case False
    have "length (takeWhile (\<lambda>p. p \<le> i) ps) + length (dropWhile (\<lambda>p. p \<le> i) ps) = length ps"
      by (metis length_append takeWhile_dropWhile_id)
    then show ?thesis using 2 False by (simp add: case_prod_beta)
  qed simp
qed simp

lemma scan_from_single:
  "sorted ps \<Longrightarrow> scan_from st i s ps = map (\<lambda>p. hd (scan_from st i s [p])) ps"
proof (induction st i s ps rule: scan_from.induct)
  case (1 st i ps)
  then show ?case by simp
next
  case (2 st i c cs ps)
  show ?case
  proof (cases "ps = []")
    case False
    obtain st' skip where step: "scan_step st c cs = (st', skip)" by fastforce
    let ?old = "takeWhile (\<lambda>p. p \<le> i) ps" and ?new = "dropWhile (\<lambda>p. p \<le> i) ps"
    have one: "hd (scan_from st i (c # cs) [p]) =
        (if p \<le> i then inert st else hd (scan_from st' (i + 1 + skip) (drop skip cs) [p]))" for p
      by (simp add: step)
    have "sorted ?new" using "2.prems" by (simp add: sorted_wrt_dropWhile)
    then have new: "scan_from st' (i + 1 + skip) (drop skip cs) ?new =
        map (\<lambda>p. hd (scan_from st' (i + 1 + skip) (drop skip cs) [p])) ?new"
      using 2 False step by simp
    have old: "p \<le> i" if "p \<in> set ?old" for p using that by (meson set_takeWhileD)
    have later: "\<not> p \<le> i" if p: "p \<in> set ?new" for p
    proof -
      have "?new \<noteq> []" using p by (metis empty_iff empty_set)
      then have "\<not> hd ?new \<le> i" by (rule hd_dropWhile)
      moreover have "hd ?new \<le> p"
        using \<open>sorted ?new\<close> p by (cases ?new) auto
      ultimately show ?thesis by simp
    qed
    let ?f = "\<lambda>p. hd (scan_from st i (c # cs) [p])"
    have "map ?f ?old = map (\<lambda>_. inert st) ?old"
      using old by (intro map_cong refl) (simp only: one if_True)
    moreover have "map ?f ?new = map (\<lambda>p. hd (scan_from st' (i + 1 + skip) (drop skip cs) [p])) ?new"
      using later by (intro map_cong refl) (simp only: one if_False)
    moreover have "map ?f ps = map ?f ?old @ map ?f ?new"
      by (metis map_append takeWhile_dropWhile_id)
    moreover have "scan_from st i (c # cs) ps = map (\<lambda>_. inert st) ?old @
        scan_from st' (i + 1 + skip) (drop skip cs) ?new"
      using False step by simp
    ultimately show ?thesis using new by (simp only:)
  qed simp
qed

text \<open>
  The one shared scan answers every offset as a scan of its own would, for offsets in
  ascending order: the linear scan is equivalent to the quadratic one it replaces.
\<close>

theorem shared_scan_equiv:
  assumes "sorted positions"
  shows "inCommentOrLongStringAt vcl positions = map (inCommentOrLongString vcl) positions"
  using scan_from_single [OF assms]
  by (simp add: inCommentOrLongStringAt_def inCommentOrLongString_def)

theorem shared_scan_equiv_witness:
  "inCommentOrLongStringAt ''a /* b */ c'' [0, 4, 10] =
    map (inCommentOrLongString ''a /* b */ c'') [0, 4, 10] \<and>
   inCommentOrLongStringAt ''a /* b */ c'' [0, 4, 10] = [False, True, False]"
proof -
  have "sorted [0::nat, 4, 10]" by simp
  from shared_scan_equiv [OF this, of "''a /* b */ c''"]
  have "inCommentOrLongStringAt ''a /* b */ c'' [0, 4, 10] =
    map (inCommentOrLongString ''a /* b */ c'') [0, 4, 10]" .
  moreover have "inCommentOrLongStringAt ''a /* b */ c'' [0, 4, 10] = [False, True, False]"
    by code_simp
  ultimately show ?thesis by simp
qed

section \<open>Regular expressions\<close>

text \<open>
  The four patterns of the file are a line anchor followed by literals and repeated character
  classes, each class disjoint from what follows it, so the leftmost-first match of
  \<open>regexp\<close> is the greedy one.
\<close>

datatype re_item = Lit string | Star "char list" | Plus "char list"

type_synonym regex = "re_item list"

fun span_len :: "char list \<Rightarrow> string \<Rightarrow> nat" where
  "span_len cls [] = 0"
| "span_len cls (c # cs) = (if c \<in> set cls then Suc (span_len cls cs) else 0)"

text \<open>The length of the match at the start of a text.\<close>

fun re_match :: "regex \<Rightarrow> string \<Rightarrow> nat option" where
  "re_match [] s = Some 0"
| "re_match (Lit l # r) s =
     (if prefix l s then map_option (\<lambda>n. length l + n) (re_match r (drop (length l) s)) else None)"
| "re_match (Star cls # r) s =
     map_option (\<lambda>n. span_len cls s + n) (re_match r (drop (span_len cls s) s))"
| "re_match (Plus cls # r) s =
     (if span_len cls s = 0 then None
      else map_option (\<lambda>n. span_len cls s + n) (re_match r (drop (span_len cls s) s)))"

text \<open>
  \<open>FindAllStringIndex\<close> for a pattern that begins with \<open>(?m)^\<close>: \<open>i\<close> is the offset of
  \<open>s\<close> in the text, \<open>bol\<close> whether it is at the beginning of a line.
\<close>

definition nl :: char where "nl = CHR 0x0A"

function find_all :: "regex \<Rightarrow> nat \<Rightarrow> bool \<Rightarrow> string \<Rightarrow> (nat \<times> nat) list" where
  "find_all r i bol [] = []"
| "find_all r i bol (c # cs) =
     (case (if bol then re_match r (c # cs) else None) of
        Some n \<Rightarrow>
          (if n = 0 then find_all r (i + 1) (c = nl) cs
           else (i, i + n) # find_all r (i + n) (last (take n (c # cs)) = nl) (drop n (c # cs)))
      | None \<Rightarrow> find_all r (i + 1) (c = nl) cs)"
  by pat_completeness auto
termination by (relation "measure (\<lambda>(r, i, bol, s). length s)") auto

definition re_space :: "char list" where
  "re_space = [CHR 0x09, CHR 0x0A, CHR 0x0C, CHR 0x0D, CHR '' '']"
definition re_blank :: "char list" where "re_blank = [CHR 0x09, CHR '' '']"
definition re_version :: "char list" where "re_version = ''0123456789.''"
definition re_ident :: "char list" where
  "re_ident = ''0123456789ABCDEFGHIJKLMNOPQRSTUVWXYZabcdefghijklmnopqrstuvwxyz_-''"

definition vclVersionRe :: regex where
  "vclVersionRe = [Star re_blank, Lit ''vcl'', Plus re_space, Plus re_version, Star re_space,
     Lit '';'', Star re_space]"
definition importStdRe :: regex where
  "importStdRe = [Star re_blank, Lit ''import'', Plus re_space, Lit ''std'', Star re_space,
     Lit '';'', Star re_space]"
definition backendBlockRe :: regex where
  "backendBlockRe = [Star re_blank, Lit ''backend'', Plus re_space, Plus re_ident, Star re_space,
     Lit ''{'']"
definition subVCLDeliverRe :: regex where
  "subVCLDeliverRe = [Star re_blank, Lit ''sub'', Plus re_space, Lit ''vcl_deliver'', Star re_space,
     Lit ''{'']"

definition FindAllStringIndex :: "regex \<Rightarrow> string \<Rightarrow> (nat \<times> nat) list" where
  "FindAllStringIndex r s = find_all r 0 True s"

lemma span_len_le: "span_len cls s \<le> length s"
  by (induction s) auto

lemma re_match_le: "re_match r s = Some n \<Longrightarrow> n \<le> length s"
proof (induction r s arbitrary: n rule: re_match.induct)
  case (2 l r s)
  then show ?case using prefix_length_le [of l s] by (fastforce split: if_splits)
next
  case (3 cls r s)
  then show ?case using span_len_le [of cls s] by fastforce
next
  case (4 cls r s)
  then show ?case using span_len_le [of cls s] by (fastforce split: if_splits)
qed simp

lemma find_all_bounds:
  "loc \<in> set (find_all r i bol s) \<Longrightarrow> i \<le> fst loc \<and> fst loc < snd loc \<and> snd loc \<le> i + length s"
proof (induction r i bol s rule: find_all.induct)
  case (2 r i bol c cs)
  show ?case
  proof (cases "if bol then re_match r (c # cs) else None")
    case None
    then show ?thesis using 2 by fastforce
  next
    case (Some n)
    then have n: "n \<le> length (c # cs)" using re_match_le by (metis option.distinct(1))
    show ?thesis
    proof (cases "n = 0")
      case True
      then show ?thesis using 2 Some by fastforce
    next
      case False
      then show ?thesis using 2 Some n by fastforce
    qed
  qed
qed simp

lemma FindAll_bounds:
  "(a, b) \<in> set (FindAllStringIndex r s) \<Longrightarrow> a < b \<and> b \<le> length s"
  using find_all_bounds [of "(a, b)" r 0 True s] by (simp add: FindAllStringIndex_def)

section \<open>Positions of the structural tokens\<close>

definition vclVersionEnd :: "string \<Rightarrow> nat" where
  "vclVersionEnd vcl =
     (case find (\<lambda>loc. \<not> inCommentOrLongString vcl (fst loc)) (FindAllStringIndex vclVersionRe vcl) of
        Some loc \<Rightarrow> snd loc | None \<Rightarrow> 0)"

definition importStdPositions :: "string \<Rightarrow> (nat \<times> nat) list" where
  "importStdPositions vcl =
     filter (\<lambda>loc. \<not> inCommentOrLongString vcl (fst loc)) (FindAllStringIndex importStdRe vcl)"

text \<open>\<open>-1\<close> is \<open>None\<close>.\<close>

definition firstSubVCLDeliverStart :: "string \<Rightarrow> nat option" where
  "firstSubVCLDeliverStart vcl =
     map_option fst
       (find (\<lambda>loc. \<not> inCommentOrLongString vcl (fst loc)) (FindAllStringIndex subVCLDeliverRe vcl))"

text \<open>
  The brace matching of \<open>backendBlockEnds\<close>, from byte \<open>i\<close> at nesting \<open>depth\<close>: the end of
  the block, or \<open>None\<close> where the code stops scanning (or the text ends) before the block closes.
\<close>

function block_end :: "nat \<Rightarrow> nat \<Rightarrow> string \<Rightarrow> nat option" where
  "block_end depth i [] = None"
| "block_end depth i (c # cs) =
     (if c = CHR ''{'' \<and> peek (CHR 0x22) cs then
        (case str_index (drop 1 cs) [CHR 0x22, CHR ''}''] of
           None \<Rightarrow> None | Some rel \<Rightarrow> block_end depth (i + rel + 4) (drop (rel + 3) cs))
      else if c = CHR 0x22 then
        (case str_index cs [CHR 0x22] of
           None \<Rightarrow> None | Some rel \<Rightarrow> block_end depth (i + rel + 2) (drop (rel + 1) cs))
      else if c = CHR ''/'' \<and> peek (CHR ''*'') cs then
        (case str_index (drop 1 cs) ''*/'' of
           None \<Rightarrow> None | Some rel \<Rightarrow> block_end depth (i + rel + 4) (drop (rel + 3) cs))
      else if c = CHR ''#'' \<or> c = CHR ''/'' \<and> peek (CHR ''/'') cs then
        (case str_index (c # cs) [nl] of
           None \<Rightarrow> None | Some rel \<Rightarrow> block_end depth (i + rel + 1) (drop rel cs))
      else
        (let d = (if c = CHR ''{'' then depth + 1 else if c = CHR ''}'' then depth - 1 else depth)
         in if d = 0 then Some (if peek nl cs then i + 2 else i + 1)
            else block_end d (i + 1) cs))"
  by pat_completeness auto
termination by (relation "measure (\<lambda>(depth, i, s). length s)") auto

definition backendBlockEnds :: "string \<Rightarrow> nat list" where
  "backendBlockEnds vcl =
     (let locs = FindAllStringIndex backendBlockRe vcl;
          commented = inCommentOrLongStringAt vcl (map fst locs)
      in map (\<lambda>(loc, _). case block_end 1 (snd loc) (drop (snd loc) vcl) of
                  Some e \<Rightarrow> e | None \<Rightarrow> snd loc)
           (filter (\<lambda>(_, cm). \<not> cm) (zip locs commented)))"

definition lastBackendBlockEnd :: "nat list \<Rightarrow> nat" where
  "lastBackendBlockEnd ends = foldl (\<lambda>last e. if e > last then e else last) 0 ends"

definition backendBlocksEnd :: "string \<Rightarrow> nat" where
  "backendBlocksEnd vcl = lastBackendBlockEnd (backendBlockEnds vcl)"

lemma block_end_bounds:
  "block_end depth i s = Some e \<Longrightarrow> i < e \<and> e \<le> i + length s"
proof (induction depth i s rule: block_end.induct)
  case (2 depth i c cs)
  have skip: "rel + 2 \<le> length (drop 1 cs)" if "str_index (drop 1 cs) sub = Some rel" "length sub = 2"
    for rel sub using str_index_le [OF that(1)] that(2) by simp
  have quote: "rel + 1 \<le> length cs" if "str_index cs [CHR 0x22] = Some rel" for rel
    using str_index_le [OF that] by simp
  have line: "rel + 1 \<le> length (c # cs)" if "str_index (c # cs) [nl] = Some rel" for rel
    using str_index_le [OF that] by simp
  consider (long) "c = CHR ''{'' \<and> peek (CHR 0x22) cs"
    | (str) "\<not> (c = CHR ''{'' \<and> peek (CHR 0x22) cs)" "c = CHR 0x22"
    | (com) "c = CHR ''/'' \<and> peek (CHR ''*'') cs"
    | (lin) "c \<noteq> CHR 0x22" "\<not> (c = CHR ''{'' \<and> peek (CHR 0x22) cs)"
        "\<not> (c = CHR ''/'' \<and> peek (CHR ''*'') cs)" "c = CHR ''#'' \<or> c = CHR ''/'' \<and> peek (CHR ''/'') cs"
    | (other) "\<not> (c = CHR ''{'' \<and> peek (CHR 0x22) cs)" "c \<noteq> CHR 0x22"
        "\<not> (c = CHR ''/'' \<and> peek (CHR ''*'') cs)"
        "\<not> (c = CHR ''#'' \<or> c = CHR ''/'' \<and> peek (CHR ''/'') cs)"
    by blast
  then show ?case
  proof cases
    case long
    then obtain rel where rel: "str_index (drop 1 cs) [CHR 0x22, CHR ''}''] = Some rel"
        "block_end depth (i + rel + 4) (drop (rel + 3) cs) = Some e"
      using "2.prems" by (auto split: option.splits)
    then show ?thesis using "2.IH"(1) [OF long rel(1) rel(2)] skip [OF rel(1)] by fastforce
  next
    case str
    then obtain rel where rel: "str_index cs [CHR 0x22] = Some rel"
        "block_end depth (i + rel + 2) (drop (rel + 1) cs) = Some e"
      using "2.prems" by (auto split: option.splits)
    then show ?thesis using "2.IH"(2) [OF str rel(1) rel(2)] quote [OF rel(1)] by fastforce
  next
    case com
    then have "\<not> (c = CHR ''{'' \<and> peek (CHR 0x22) cs)" "c \<noteq> CHR 0x22" by auto
    moreover obtain rel where rel: "str_index (drop 1 cs) ''*/'' = Some rel"
        "block_end depth (i + rel + 4) (drop (rel + 3) cs) = Some e"
      using com "2.prems" by (auto split: option.splits)
    ultimately show ?thesis using "2.IH"(3) [OF _ _ com rel(1) rel(2)] skip [OF rel(1)] by fastforce
  next
    case lin
    then obtain rel where rel: "str_index (c # cs) [nl] = Some rel"
        "block_end depth (i + rel + 1) (drop rel cs) = Some e"
      using "2.prems" by (auto split: option.splits simp del: str_index.simps)
    then show ?thesis using "2.IH"(4) [OF lin(2,1,3,4) rel(1) rel(2)] line [OF rel(1)] by fastforce
  next
    case other
    let ?d = "if c = CHR ''{'' then depth + 1 else if c = CHR ''}'' then depth - 1 else depth"
    show ?thesis
    proof (cases "?d = 0")
      case True
      have "peek nl cs \<Longrightarrow> cs \<noteq> []" by (auto simp: peek_def)
      then show ?thesis using "2.prems" other True
        by (cases cs) (auto simp: Let_def split: if_splits)
    next
      case False
      have "block_end ?d (i + 1) cs = Some e"
        using "2.prems" other False by (simp add: Let_def)
      then show ?thesis using "2.IH"(5) [OF other refl False] by fastforce
    qed
  qed
qed simp

section \<open>Injection\<close>

text \<open>The loop of \<open>commentOutImportStdFrom\<close>: the text written so far and \<open>prev\<close>.\<close>

definition commented_import :: "string \<Rightarrow> string" where
  "commented_import matched =
     ''// Commented out by k8s-httpcache; moved to the top of the VCL.\<newline>'' @
     ''// '' @ rev (dropWhile (\<lambda>c. c = nl) (rev matched)) @ ''\<newline>''"

fun comment_out_loop :: "string \<Rightarrow> nat \<Rightarrow> (nat \<times> nat) list \<Rightarrow> string \<times> nat \<Rightarrow> string \<times> nat" where
  "comment_out_loop vcl from [] acc = acc"
| "comment_out_loop vcl from ((a, b) # ps) (out, prev) =
     (if a < from then comment_out_loop vcl from ps (out, prev)
      else comment_out_loop vcl from ps
        (out @ drop prev (take a vcl) @ commented_import (drop a (take b vcl)), b))"

definition commentOutImportStdFrom :: "string \<Rightarrow> nat \<Rightarrow> string" where
  "commentOutImportStdFrom vcl from =
     (let (out, prev) = comment_out_loop vcl from (importStdPositions vcl) ([], 0)
      in if prev = 0 then vcl else out @ drop prev vcl)"

definition drainImportStd :: string where
  "drainImportStd = ''\<newline>// Begin k8s-httpcache connection draining.\<newline>import std;\<newline>// End k8s-httpcache connection draining.\<newline>''"

definition dq :: string where "dq = [CHR 0x22]"

definition drainBackendBlock :: "string \<Rightarrow> string" where
  "drainBackendBlock backendName =
     ''\<newline>// Begin k8s-httpcache connection draining.\<newline>backend '' @ backendName @
     '' {\<newline>  .host = '' @ dq @ ''127.0.0.1'' @ dq @ '';\<newline>  .port = '' @ dq @ ''9'' @ dq @
     '';\<newline>}\<newline>// End k8s-httpcache connection draining.\<newline>''"

definition drainDeliverSub :: "string \<Rightarrow> string" where
  "drainDeliverSub backendName =
     ''\<newline>// Begin k8s-httpcache connection draining.\<newline>sub vcl_deliver {\<newline>  if (!std.healthy('' @
     backendName @ '')) {\<newline>    set resp.http.Connection = '' @ dq @ ''close'' @ dq @
     '';\<newline>  }\<newline>}\<newline>// End k8s-httpcache connection draining.\<newline>''"

definition injectDrainPrepended :: "string \<Rightarrow> string \<Rightarrow> nat \<Rightarrow> nat \<Rightarrow> string" where
  "injectDrainPrepended vcl0 backendName firstBackendEnd deliverStart =
     (let hasEarlyImport = (\<exists>pos\<in>set (importStdPositions vcl0). fst pos < deliverStart);
          vcl = commentOutImportStdFrom vcl0 deliverStart;
          out1 = take deliverStart vcl @ drainDeliverSub backendName @ drop deliverStart vcl;
          out = take firstBackendEnd out1 @ drainBackendBlock backendName @ drop firstBackendEnd out1
      in if hasEarlyImport then out
         else (let versionEnd0 = vclVersionEnd vcl;
                   versionEnd = (if versionEnd0 > deliverStart then 0 else versionEnd0)
               in take versionEnd out @ drainImportStd @ drop versionEnd out))"

definition injectDrainVCLLegacy :: "string \<Rightarrow> string \<Rightarrow> nat \<Rightarrow> string" where
  "injectDrainVCLLegacy vcl0 backendName backendsEnd =
     (let versionEnd = vclVersionEnd vcl0;
          imports = importStdPositions vcl0;
          drainVCL = drainBackendBlock backendName @ drainDeliverSub backendName
      in if backendsEnd > 0 then
           (let hasEarlyImport = (\<exists>pos\<in>set imports. fst pos < backendsEnd);
                vcl = commentOutImportStdFrom vcl0 backendsEnd
            in if hasEarlyImport then take backendsEnd vcl @ drainVCL @ drop backendsEnd vcl
               else (let importStd = drainImportStd;
                         result = take versionEnd vcl @ importStd @ drop versionEnd vcl;
                         at = backendsEnd + length importStd
                     in take at result @ drainVCL @ drop at result))
         else
           (case find (\<lambda>pos. fst pos \<ge> versionEnd) imports of
              Some pos \<Rightarrow>
                (let vcl = commentOutImportStdFrom vcl0 (snd pos)
                 in take (snd pos) vcl @ drainVCL @ drop (snd pos) vcl)
            | None \<Rightarrow>
                (let importStd = drainImportStd;
                     result = take versionEnd vcl0 @ importStd @ drop versionEnd vcl0;
                     insertPos = versionEnd + length importStd
                 in take insertPos result @ drainVCL @ drop insertPos result)))"

definition injectDrainVCL :: "string \<Rightarrow> string \<Rightarrow> string \<times> bool" where
  "injectDrainVCL vcl backendName =
     (let ends = backendBlockEnds vcl;
          backendsEnd = lastBackendBlockEnd ends;
          deliverStart = firstSubVCLDeliverStart vcl
      in case deliverStart of
           Some d \<Rightarrow>
             if d < backendsEnd then
               (let firstBackendEnd = (case ends of e # _ \<Rightarrow> e | [] \<Rightarrow> 0)
                in if 0 < firstBackendEnd \<and> firstBackendEnd \<le> d
                   then (injectDrainPrepended vcl backendName firstBackendEnd d, False)
                   else (injectDrainVCLLegacy vcl backendName backendsEnd, True))
             else (injectDrainVCLLegacy vcl backendName backendsEnd, False)
         | None \<Rightarrow> (injectDrainVCLLegacy vcl backendName backendsEnd, False))"

section \<open>Offsets and placement\<close>

lemma find_in_set: "find P xs = Some x \<Longrightarrow> x \<in> set xs \<and> P x"
  by (induction xs) (auto split: if_splits)

lemma vclVersionEnd_le: "vclVersionEnd vcl \<le> length vcl"
  by (auto simp: vclVersionEnd_def split: option.splits dest!: find_in_set dest: FindAll_bounds)

lemma importStdPositions_bounds: "(a, b) \<in> set (importStdPositions vcl) \<Longrightarrow> a < b \<and> b \<le> length vcl"
  by (auto simp: importStdPositions_def dest: FindAll_bounds)

lemma deliverStart_bounds: "firstSubVCLDeliverStart vcl = Some d \<Longrightarrow> d < length vcl"
  by (auto simp: firstSubVCLDeliverStart_def dest!: find_in_set FindAll_bounds)

lemma backendBlockEnds_bounds: "e \<in> set (backendBlockEnds vcl) \<Longrightarrow> 0 < e \<and> e \<le> length vcl"
proof -
  assume "e \<in> set (backendBlockEnds vcl)"
  then obtain a b where ab: "(a, b) \<in> set (FindAllStringIndex backendBlockRe vcl)"
      and e: "e = (case block_end 1 b (drop b vcl) of Some e \<Rightarrow> e | None \<Rightarrow> b)"
    by (auto simp: backendBlockEnds_def Let_def dest!: set_zip_leftD cong: option.case_cong)
  have "a < b \<and> b \<le> length vcl" using FindAll_bounds [OF ab] .
  then show ?thesis
    using e block_end_bounds [of 1 b "drop b vcl"] by (auto split: option.splits)
qed

lemma foldl_max_spec:
  "m \<le> foldl (\<lambda>last e. if e > last then e else last) m ends \<and>
   (\<forall>e\<in>set ends. e \<le> foldl (\<lambda>last e. if e > last then e else last) m ends) \<and>
   foldl (\<lambda>last e. if e > last then e else last) m ends \<in> insert m (set ends)"
  for m :: nat
proof (induction ends arbitrary: m)
  case (Cons e ends)
  show ?case using Cons [of "if e > m then e else m"] by (auto split: if_splits)
qed simp

lemma lastBackendBlockEnd_in: "ends \<noteq> [] \<Longrightarrow> \<forall>e\<in>set ends. 0 < e \<Longrightarrow> lastBackendBlockEnd ends \<in> set ends"
  using foldl_max_spec [of 0 ends] by (cases ends) (auto simp: lastBackendBlockEnd_def)

lemma lastBackendBlockEnd_ge: "e \<in> set ends \<Longrightarrow> e \<le> lastBackendBlockEnd ends"
  using foldl_max_spec [of 0 ends] by (auto simp: lastBackendBlockEnd_def)

text \<open>Commenting out rewrites nothing before its threshold.\<close>

lemma comment_out_loop_prefix:
  assumes "\<forall>(a, b)\<in>set ps. a < b \<and> b \<le> length vcl"
    and "(out = [] \<and> prev = 0) \<or> (from \<le> length out \<and> take from out = take from vcl \<and> 0 < prev)"
    and "from \<le> length vcl"
    and "comment_out_loop vcl from ps (out, prev) = (out', prev')"
  shows "(out' = [] \<and> prev' = 0) \<or> (from \<le> length out' \<and> take from out' = take from vcl \<and> 0 < prev')"
  using assms(1,2,4)
proof (induction ps arbitrary: out prev)
  case Nil
  then show ?case by simp
next
  case (Cons p ps)
  obtain a b where p: "p = (a, b)" by fastforce
  show ?case
  proof (cases "a < from")
    case True
    then show ?thesis using Cons p by simp
  next
    case False
    let ?out = "out @ drop prev (take a vcl) @ commented_import (drop a (take b vcl))"
    have "a < b" "b \<le> length vcl" using Cons.prems(1) p by auto
    then have "from \<le> length ?out \<and> take from ?out = take from vcl \<and> 0 < b"
      using Cons.prems(2) False assms(3) by (auto simp: take_drop min_def)
    then show ?thesis
      using Cons.IH [of ?out b] Cons.prems(1,3) False p by simp
  qed
qed

lemma commentOut_prefix:
  assumes "from \<le> length vcl"
  shows "from \<le> length (commentOutImportStdFrom vcl from) \<and>
    take from (commentOutImportStdFrom vcl from) = take from vcl"
proof -
  obtain out prev where loop: "comment_out_loop vcl from (importStdPositions vcl) ([], 0) = (out, prev)"
    by fastforce
  have "(out = [] \<and> prev = 0) \<or> (from \<le> length out \<and> take from out = take from vcl \<and> 0 < prev)"
    by (rule comment_out_loop_prefix [OF _ _ assms loop]) (auto dest: importStdPositions_bounds)
  then show ?thesis using loop assms by (auto simp: commentOutImportStdFrom_def)
qed

text \<open>
  The text with the drain parts inserted: the import at \<open>v\<close>, the drain backend at \<open>b\<close>, the
  drain sub at \<open>k\<close>; what follows has its later imports commented out.
\<close>

definition drain_layout :: "string \<Rightarrow> string \<Rightarrow> nat \<Rightarrow> string \<Rightarrow> nat \<Rightarrow> nat \<Rightarrow> string" where
  "drain_layout vcl name v imp b k =
     take v vcl @ imp @ drop v (take b vcl) @ drainBackendBlock name @ drop b (take k vcl) @
     drainDeliverSub name @ drop k (commentOutImportStdFrom vcl k)"

definition imports_std_before :: "string \<Rightarrow> nat \<Rightarrow> bool" where
  "imports_std_before vcl k \<longleftrightarrow> (\<exists>pos\<in>set (importStdPositions vcl). fst pos < k)"

lemma prepended_layout:
  assumes "b \<le> d" "d \<le> length vcl" "vclVersionEnd (commentOutImportStdFrom vcl d) \<le> b"
  shows "\<exists>v imp. v \<le> b \<and> (imp = [] \<and> imports_std_before vcl d \<or> imp = drainImportStd) \<and>
    injectDrainPrepended vcl name b d = drain_layout vcl name v imp b d"
proof -
  let ?c = "commentOutImportStdFrom vcl d" and ?v = "vclVersionEnd (commentOutImportStdFrom vcl d)"
  have c: "d \<le> length ?c" "take d ?c = take d vcl" using commentOut_prefix [OF assms(2)] by auto
  have tb: "take n ?c = take n vcl" if "n \<le> d" for n
    using c that by (metis min.absorb1 take_take)
  have out: "take b (take d vcl @ drainDeliverSub name @ drop d ?c) @ drainBackendBlock name @
      drop b (take d vcl @ drainDeliverSub name @ drop d ?c) =
      take b vcl @ drainBackendBlock name @ drop b (take d vcl) @ drainDeliverSub name @ drop d ?c"
    using assms(1,2) by simp
  show ?thesis
  proof (cases "imports_std_before vcl d")
    case True
    then have "injectDrainPrepended vcl name b d = drain_layout vcl name b [] b d"
      using c out assms(1,2) by (simp add: injectDrainPrepended_def drain_layout_def imports_std_before_def
          Let_def drop_take)
    then show ?thesis using True by blast
  next
    case False
    have "take b vcl = take ?v vcl @ drop ?v (take b vcl)"
      using assms(3) by (metis append_take_drop_id min.absorb1 take_take)
    moreover have "length (take ?v vcl) = ?v" using assms by simp
    ultimately have "injectDrainPrepended vcl name b d = drain_layout vcl name ?v drainImportStd b d"
      using c out assms False
      by (simp add: injectDrainPrepended_def drain_layout_def imports_std_before_def Let_def
          take_append drop_append)
    then show ?thesis using assms(3) by blast
  qed
qed

lemma legacy_layout:
  assumes "0 < b" "b \<le> length vcl" "vclVersionEnd vcl \<le> b"
  shows "\<exists>v imp. v \<le> b \<and> (imp = [] \<and> imports_std_before vcl b \<or> imp = drainImportStd) \<and>
    injectDrainVCLLegacy vcl name b = drain_layout vcl name v imp b b"
proof -
  let ?c = "commentOutImportStdFrom vcl b" and ?v = "vclVersionEnd vcl"
  have c: "b \<le> length ?c" "take b ?c = take b vcl" using commentOut_prefix [OF assms(2)] by auto
  show ?thesis
  proof (cases "imports_std_before vcl b")
    case True
    then have "injectDrainVCLLegacy vcl name b = drain_layout vcl name b [] b b"
      using c assms by (simp add: injectDrainVCLLegacy_def drain_layout_def imports_std_before_def Let_def)
    then show ?thesis using True by blast
  next
    case False
    have tv: "take ?v ?c = take ?v vcl" using c assms(3) by (metis min.absorb1 take_take)
    have mid: "take (b - ?v) (drop ?v ?c) = drop ?v (take b vcl)"
      using c by (simp add: drop_take [symmetric])
    have "drop (b - ?v) (drop ?v ?c) = drop b ?c" using assms(3) by simp
    then have "injectDrainVCLLegacy vcl name b = drain_layout vcl name ?v drainImportStd b b"
      using c assms False tv mid
      by (simp add: injectDrainVCLLegacy_def drain_layout_def imports_std_before_def Let_def)
    then show ?thesis using assms(3) by blast
  qed
qed


definition sample_vcl :: string where
  "sample_vcl = ''vcl 4.1;\<newline>backend a {\<newline>}\<newline>sub vcl_deliver {\<newline>}\<newline>backend b {\<newline>}\<newline>''"


end
