(* ===== verification/Renderer.thy ===== *)
theory Renderer
  imports Endpoints Redact DrainVCL
begin

text \<open>
  The VCL renderer (\<open>internal/renderer\<close>): the active template and the rollback baseline, the
  data a template is executed on, and \<open>Render\<close>. The template language is \<open>text/template\<close>
  with third-party function libraries, so parsing and execution are parameters: a template is
  a value of type \<open>'t\<close>, reading and parsing the file yields \<open>'t option\<close>, and executing is a
  function \<open>exec\<close> (templates are documented to be deterministic).
\<close>

section \<open>Template data\<close>

record backend_group =
  bg_Endpoints :: "endpoint slice"
  bg_Labels :: strmap
  bg_Annotations :: strmap

record template_backend_group =
  tb_Endpoints :: "endpoint slice"
  tb_Labels :: strmap
  tb_Annotations :: strmap
  tb_LocalEndpoints :: "endpoint list"
  tb_RemoteEndpoints :: "endpoint list"

record template_data =
  td_Frontends :: "endpoint slice"
  td_Backends :: "(string, template_backend_group) fmap"
  td_Values :: "(string, gvalue) fmap"
  td_Secrets :: "(string, gvalue) fmap"
  td_LocalZone :: string

text \<open>What a render reads of the event loop's state.\<close>

record inputs =
  in_Frontends :: "endpoint slice"
  in_Backends :: "(string, backend_group) fmap"
  in_Values :: "(string, gmap) fmap"
  in_Secrets :: "(string, gmap) fmap"

fun splitEndpointsByZone :: "endpoint list \<Rightarrow> string \<Rightarrow> endpoint list \<times> endpoint list" where
  "splitEndpointsByZone [] zone = ([], [])"
| "splitEndpointsByZone (ep # eps) zone =
     (let (local, remote) = splitEndpointsByZone eps zone
      in if Zone ep = zone \<or> zone \<in> set (ForZones ep) then (ep # local, remote)
         else (local, ep # remote))"

text \<open>The copies a render makes: equal values, on fresh storage.\<close>

fun deepCopyValue :: "gvalue \<Rightarrow> gvalue" where
  "deepCopyValue (GMap m) = GMap (map (\<lambda>(k, e). (k, deepCopyValue e)) m)"
| "deepCopyValue (GList xs) = GList (map deepCopyValue xs)"
| "deepCopyValue v = v"

definition deepCopyTemplateMap :: "(string, gmap) fmap \<Rightarrow> (string, gvalue) fmap" where
  "deepCopyTemplateMap m = fmmap (\<lambda>v. deepCopyValue (GMap v)) m"

definition copyEndpoints :: "endpoint slice \<Rightarrow> endpoint slice" where
  "copyEndpoints eps = (case eps of None \<Rightarrow> None
     | Some xs \<Rightarrow> Some (map (\<lambda>ep. ep\<lparr>ForZones := ForZones ep\<rparr>) xs))"

lemma deepCopyValue_eq [simp]: "deepCopyValue v = v"
  by (induction v rule: deepCopyValue.induct) (auto intro!: map_idI)

lemma copyEndpoints_eq [simp]: "copyEndpoints eps = eps"
  by (cases eps) (simp_all add: copyEndpoints_def)

lemma splitEndpointsByZone_filter:
  "splitEndpointsByZone eps zone =
     (filter (\<lambda>ep. Zone ep = zone \<or> zone \<in> set (ForZones ep)) eps,
      filter (\<lambda>ep. \<not> (Zone ep = zone \<or> zone \<in> set (ForZones ep))) eps)"
  by (induction eps) (auto simp: Let_def)

section \<open>The renderer\<close>

record 't renderer =
  r_tmpl :: 't
  r_prev :: "'t option"
  r_drainBackend :: string
  r_localZone :: string
  r_drainPlacementWarned :: bool

definition new_renderer :: "'t \<Rightarrow> 't renderer" where
  "new_renderer t = \<lparr>r_tmpl = t, r_prev = None, r_drainBackend = [], r_localZone = [],
     r_drainPlacementWarned = False\<rparr>"

definition SetDrainBackend :: "string \<Rightarrow> 't renderer \<Rightarrow> 't renderer" where
  "SetDrainBackend name r = r\<lparr>r_drainBackend := name\<rparr>"

definition SetLocalZone :: "string \<Rightarrow> 't renderer \<Rightarrow> 't renderer" where
  "SetLocalZone zone r = r\<lparr>r_localZone := zone\<rparr>"

text \<open>\<open>Reload\<close>, given what reading and parsing the file yields; the result tells success.\<close>

definition renderer_Reload :: "'t option \<Rightarrow> 't renderer \<Rightarrow> bool \<times> 't renderer" where
  "renderer_Reload parsed r =
     (case parsed of
        None \<Rightarrow> (False, r)
      | Some t \<Rightarrow>
          (let r1 = (if r_prev r = None then r\<lparr>r_prev := Some (r_tmpl r)\<rparr> else r)
           in (True, r1\<lparr>r_tmpl := t, r_drainPlacementWarned := False\<rparr>)))"

definition renderer_Commit :: "'t renderer \<Rightarrow> 't renderer" where
  "renderer_Commit r = r\<lparr>r_prev := None\<rparr>"

definition renderer_Rollback :: "'t renderer \<Rightarrow> 't renderer" where
  "renderer_Rollback r =
     (case r_prev r of Some t \<Rightarrow> r\<lparr>r_tmpl := t, r_prev := None\<rparr> | None \<Rightarrow> r)"

definition template_group :: "string \<Rightarrow> backend_group \<Rightarrow> template_backend_group" where
  "template_group localZone bg =
     (let endpoints = copyEndpoints (bg_Endpoints bg);
          (local, remote) = (if localZone \<noteq> [] then splitEndpointsByZone (elems endpoints) localZone
                             else ([], []))
      in \<lparr>tb_Endpoints = endpoints, tb_Labels = bg_Labels bg, tb_Annotations = bg_Annotations bg,
          tb_LocalEndpoints = local, tb_RemoteEndpoints = remote\<rparr>)"

definition template_data_of :: "string \<Rightarrow> inputs \<Rightarrow> template_data" where
  "template_data_of localZone inp =
     \<lparr>td_Frontends = copyEndpoints (in_Frontends inp),
      td_Backends = fmmap (template_group localZone) (in_Backends inp),
      td_Values = deepCopyTemplateMap (in_Values inp),
      td_Secrets = deepCopyTemplateMap (in_Secrets inp),
      td_LocalZone = localZone\<rparr>"

definition Render :: "('t \<Rightarrow> template_data \<Rightarrow> string option) \<Rightarrow> inputs \<Rightarrow> 't renderer \<Rightarrow>
    string option \<times> 't renderer" where
  "Render exec inp r =
     (case exec (r_tmpl r) (template_data_of (r_localZone r) inp) of
        None \<Rightarrow> (None, r)
      | Some vcl \<Rightarrow>
          if r_drainBackend r \<noteq> [] then
            (let (vcl', couldNotPrepend) = injectDrainVCL vcl (r_drainBackend r)
             in (Some vcl', if couldNotPrepend \<and> \<not> r_drainPlacementWarned r
                            then r\<lparr>r_drainPlacementWarned := True\<rparr> else r))
          else (Some vcl, r))"

text \<open>What the template and the renderer's settings render, without the warn-once flag.\<close>

definition rendered :: "('t \<Rightarrow> template_data \<Rightarrow> string option) \<Rightarrow> inputs \<Rightarrow> 't renderer \<Rightarrow> string option" where
  "rendered exec inp r = fst (Render exec inp r)"

lemma Render_fst: "Render exec inp r = (v, r') \<Longrightarrow> v = rendered exec inp r"
  by (simp add: rendered_def)

lemma Render_keeps:
  assumes "Render exec inp r = (v, r')"
  shows "r_tmpl r' = r_tmpl r" "r_prev r' = r_prev r" "r_drainBackend r' = r_drainBackend r"
    "r_localZone r' = r_localZone r"
  using assms by (auto simp: Render_def Let_def split: option.splits if_splits prod.splits)

text \<open>
  The zone split given to a template is a partition of the endpoints, in their order: exactly
  the endpoints of the local zone, or hinted for it, are local, all others are remote.
\<close>

theorem template_group_partition:
  assumes "zone \<noteq> []"
  shows "tb_LocalEndpoints (template_group zone bg) =
      filter (\<lambda>ep. Zone ep = zone \<or> zone \<in> set (ForZones ep)) (elems (bg_Endpoints bg)) \<and>
    tb_RemoteEndpoints (template_group zone bg) =
      filter (\<lambda>ep. \<not> (Zone ep = zone \<or> zone \<in> set (ForZones ep))) (elems (bg_Endpoints bg)) \<and>
    length (tb_LocalEndpoints (template_group zone bg)) +
      length (tb_RemoteEndpoints (template_group zone bg)) = length (elems (tb_Endpoints (template_group zone bg)))"
  using assms sum_length_filter_compl [of "\<lambda>ep. Zone ep = zone \<or> zone \<in> set (ForZones ep)"]
  by (simp add: template_group_def splitEndpointsByZone_filter Let_def)

theorem template_group_partition_witness:
  "let e = (\<lambda>h z. \<lparr>Host = h, Port = 80, Name = h, Zone = z, NodeName = [], ForZones = []\<rparr>);
       bg = \<lparr>bg_Endpoints = Some [e ''a'' ''z1'', e ''b'' ''z2''], bg_Labels = fmempty,
             bg_Annotations = fmempty\<rparr>
   in map Host (tb_LocalEndpoints (template_group ''z2'' bg)) = [''b''] \<and>
      map Host (tb_RemoteEndpoints (template_group ''z2'' bg)) = [''a'']"
  unfolding Let_def by (simp add: template_group_partition)

section \<open>The swap of templates\<close>

text \<open>
  The contract the event loop relies on: the active template, the proven one (the baseline that a
  rollback restores) and whether an unproven swap is in flight.
\<close>

locale template_swap =
  fixes active :: "'r \<Rightarrow> 't" and proven :: "'r \<Rightarrow> 't" and swapped :: "'r \<Rightarrow> bool"
    and reload :: "'t option \<Rightarrow> 'r \<Rightarrow> bool \<times> 'r" and commit :: "'r \<Rightarrow> 'r" and rollback :: "'r \<Rightarrow> 'r"
  assumes reload_None: "reload None r = (False, r)"
    and reload_ok: "fst (reload (Some t) r)"
    and reload_active: "active (snd (reload (Some t) r)) = t"
    and reload_proven: "proven (snd (reload (Some t) r)) = proven r"
    and reload_swapped: "swapped (snd (reload (Some t) r))"
    and commit_active: "active (commit r) = active r"
    and commit_proven: "proven (commit r) = active r"
    and commit_swapped: "\<not> swapped (commit r)"
    and rollback_active: "active (rollback r) = proven r"
    and rollback_proven: "proven (rollback r) = proven r"
    and rollback_swapped: "\<not> swapped (rollback r)"
    and unswapped: "\<not> swapped r \<Longrightarrow> active r = proven r"
begin

lemma reload_cases:
  "reload p r = (ok, r') \<Longrightarrow> proven r' = proven r \<and> (ok \<longleftrightarrow> p \<noteq> None) \<and>
     (case p of None \<Rightarrow> r' = r | Some t \<Rightarrow> active r' = t \<and> swapped r')"
  using reload_None reload_ok reload_active reload_proven reload_swapped
  by (cases p) (auto, (metis fst_conv snd_conv)+)

lemma reload_swapped_iff: "reload p r = (ok, r') \<Longrightarrow> swapped r' \<longleftrightarrow> ok \<or> swapped r"
  using reload_cases [of p r ok r'] by (cases p) auto

end

definition renderer_proven :: "'t renderer \<Rightarrow> 't" where
  "renderer_proven r = (case r_prev r of None \<Rightarrow> r_tmpl r | Some t \<Rightarrow> t)"

definition renderer_swapped :: "'t renderer \<Rightarrow> bool" where
  "renderer_swapped r \<longleftrightarrow> r_prev r \<noteq> None"

interpretation rs: template_swap r_tmpl renderer_proven renderer_swapped
  renderer_Reload renderer_Commit renderer_Rollback
  by unfold_locales
    (auto simp: renderer_proven_def renderer_swapped_def renderer_Reload_def renderer_Commit_def
      renderer_Rollback_def Let_def split: option.splits)

text \<open>The operations of the event loop on the renderer, in the order they happen.\<close>

datatype 't swap_op = OpReload "'t option" | OpCommit | OpRollback

fun swap_run :: "'t swap_op list \<Rightarrow> 't renderer \<Rightarrow> 't renderer" where
  "swap_run [] r = r"
| "swap_run (OpReload p # ops) r = swap_run ops (snd (renderer_Reload p r))"
| "swap_run (OpCommit # ops) r = swap_run ops (renderer_Commit r)"
| "swap_run (OpRollback # ops) r = swap_run ops (renderer_Rollback r)"

text \<open>The abstract history: the template that was active at the last commit.\<close>

fun last_proven :: "'t swap_op list \<Rightarrow> 't \<Rightarrow> 't \<Rightarrow> 't" where
  "last_proven [] act prv = prv"
| "last_proven (OpReload None # ops) act prv = last_proven ops act prv"
| "last_proven (OpReload (Some t) # ops) act prv = last_proven ops t prv"
| "last_proven (OpCommit # ops) act prv = last_proven ops act act"
| "last_proven (OpRollback # ops) act prv = last_proven ops prv prv"

lemma swap_run_proven:
  "renderer_proven (swap_run ops r) = last_proven ops (r_tmpl r) (renderer_proven r)"
proof (induction ops arbitrary: r)
  case (Cons op ops)
  show ?case
  proof (cases op)
    case (OpReload p)
    then show ?thesis using Cons
      by (cases p) (simp_all add: rs.reload_None rs.reload_active rs.reload_proven)
  qed (simp_all add: Cons rs.commit_active rs.commit_proven rs.rollback_active rs.rollback_proven)
qed simp

text \<open>
  Whatever reloads (successful or not), commits and rollbacks happened, a rollback makes the
  template active that was active at the last commit (or at the start): a swap that was never
  proven, and back-to-back swaps, cannot become the rollback baseline.
\<close>

theorem rollback_restores_proven:
  "r_tmpl (renderer_Rollback (swap_run ops (new_renderer t))) = last_proven ops t t"
  by (simp add: rs.rollback_active swap_run_proven) (simp add: new_renderer_def renderer_proven_def)

end
