(* ===== verification/EventLoop.thy ===== *)
theory EventLoop
  imports Timers Renderer
begin

text \<open>
  The event loop of the controller (\<open>runLoop\<close> in \<open>main.go\<close>): its local state, the reload of the
  VCL with retry and rollback, the reload of TLS certificates, and one handler per \<open>select\<close> case.

  The environment is explicit. What the template file holds when it is read, whether a temporary
  file can be written and what varnishd answers are the fields of a \<open>reload_env\<close>, one per
  call of a handler; \<open>exec\<close> is the template execution and \<open>H\<close> the SHA-256 sum. The field
  \<open>active_vcl\<close> records the VCL of the last reload that varnishd reported as applied. Logging and
  the Prometheus counters are left out; the reasons of the Kubernetes Events are the list
  \<open>emitted\<close>, oldest first.
\<close>

section \<open>Updates and configuration\<close>

record tls_cert_data =
  tls_Cert :: string
  tls_Key :: string
  tls_CA :: string

definition tls_Empty :: "tls_cert_data \<Rightarrow> bool" where
  "tls_Empty d \<longleftrightarrow> length (tls_Cert d) = 0 \<or> length (tls_Key d) = 0"

record backendChange =
  bc_name :: string
  bc_endpoints :: "endpoint slice"
  bc_labels :: strmap
  bc_annotations :: strmap
  bc_removed :: bool
  bc_gen :: nat

record backendTombstone =
  ts_gen :: nat
  ts_at :: int

record loop_config =
  cf_frontendDebounce :: int
  cf_frontendDebounceMax :: int
  cf_backendDebounce :: int
  cf_backendDebounceMax :: int
  cf_tlsCertDebounce :: int
  cf_tlsCertDebounceMax :: int
  cf_backendTombstoneTTL :: int

text \<open>
  The local variables of \<open>runLoop\<close> and the mutable fields of \<open>loopConfig\<close>. \<open>ls_bcast\<close> is the
  frontend list the broadcaster was last given, \<open>None\<close> when broadcasting is disabled.
\<close>

record ('t, 'h) loop_state =
  ls_frontend :: debounceState
  ls_backend :: debounceState
  ls_tlsCert :: debounceState
  ls_pendingReload :: bool
  ls_templateChanged :: bool
  ls_pendingReasons :: "string list"
  ls_templateSwapped :: bool
  ls_vclRecovery :: recoveryState
  ls_tlsRecovery :: recoveryState
  ls_pendingShutdown :: bool
  ls_latestTLS :: "(string, tls_cert_data) fmap"
  ls_pendingCertNames :: "string fset"
  ls_removedGen :: "(string, backendTombstone) fmap"
  ls_liveGen :: "(string, nat) fmap"
  ls_inputs :: inputs
  ls_lastVCLHash :: 'h
  ls_rend :: "'t renderer"
  ls_redactor :: "redactor option"
  ls_bcast :: "endpoint slice option"
  ls_active_vcl :: string
  ls_emitted :: "string list"

definition appendUnique :: "string list \<Rightarrow> string \<Rightarrow> string list" where
  "appendUnique slice s = (if s \<in> set slice then slice else slice @ [s])"

definition emitEvent :: "string \<Rightarrow> ('t, 'h) loop_state \<Rightarrow> ('t, 'h) loop_state" where
  "emitEvent reason st = st\<lparr>ls_emitted := ls_emitted st @ [reason]\<rparr>"

section \<open>VCL reload\<close>

text \<open>
  The answer of \<open>mgr.Reload\<close> run off the loop: applied, failed (\<open>True\<close> when the error is
  \<open>ErrVCLRejected\<close>), or a shutdown signal came first.
\<close>

datatype mgr_answer = Applied | Failed bool | Signalled

record 't reload_env =
  env_parsed :: "'t option"
  env_temp_ok :: bool
  env_reload :: mgr_answer
  env_rb_temp_ok :: bool
  env_rb_reload_ok :: bool
  env_reparsed :: "'t option"

definition markRetry :: "int \<Rightarrow> ('t, 'h) loop_state \<Rightarrow> ('t, 'h) loop_state" where
  "markRetry now st = st\<lparr>ls_pendingReload := True,
     ls_vclRecovery := snd (recovery_arm now (ls_vclRecovery st))\<rparr>"

definition clearPending :: "('t, 'h) loop_state \<Rightarrow> ('t, 'h) loop_state" where
  "clearPending st = st\<lparr>ls_pendingReasons := [], ls_vclRecovery := recovery_reset (ls_vclRecovery st)\<rparr>"

text \<open>\<open>rollbackReload\<close>: render and reload with the rolled-back template; the result tells success.\<close>

definition rollbackReload :: "('t \<Rightarrow> template_data \<Rightarrow> string option) \<Rightarrow> (string \<Rightarrow> 'h) \<Rightarrow>
    't reload_env \<Rightarrow> ('t, 'h) loop_state \<Rightarrow> bool \<times> ('t, 'h) loop_state" where
  "rollbackReload exec H env st =
     (case Render exec (ls_inputs st) (ls_rend st) of
        (None, r) \<Rightarrow> (False, emitEvent ''VCLRenderFailed'' (st\<lparr>ls_rend := r\<rparr>))
      | (Some vclStr, r) \<Rightarrow>
          if \<not> env_rb_temp_ok env then (False, st\<lparr>ls_rend := r\<rparr>)
          else if \<not> env_rb_reload_ok env
          then (False, emitEvent ''VCLReloadFailed'' (st\<lparr>ls_rend := r\<rparr>))
          else (True, emitEvent ''VCLReloaded''
            (st\<lparr>ls_rend := r, ls_lastVCLHash := H vclStr, ls_active_vcl := vclStr\<rparr>)))"

definition recoverSwappedTemplate :: "'t reload_env \<Rightarrow> ('t, 'h) loop_state \<Rightarrow> bool \<times> ('t, 'h) loop_state" where
  "recoverSwappedTemplate env st =
     (let (ok, r) = renderer_Reload (env_reparsed env) (ls_rend st) in (ok, st\<lparr>ls_rend := r\<rparr>))"

text \<open>The first part of \<open>handleReload\<close>: parse the template file when it changed.\<close>

definition reload_template :: "'t reload_env \<Rightarrow> ('t, 'h) loop_state \<Rightarrow> ('t, 'h) loop_state" where
  "reload_template env st =
     (if ls_templateChanged st then
        (case renderer_Reload (env_parsed env) (ls_rend st) of
           (False, r) \<Rightarrow> emitEvent ''VCLTemplateParseFailed'' (st\<lparr>ls_rend := r, ls_templateChanged := False\<rparr>)
         | (True, r) \<Rightarrow> st\<lparr>ls_rend := r, ls_templateSwapped := True, ls_templateChanged := False\<rparr>)
      else st\<lparr>ls_templateChanged := False\<rparr>)"

text \<open>A render error.\<close>

definition reload_render_failed :: "('t \<Rightarrow> template_data \<Rightarrow> string option) \<Rightarrow> (string \<Rightarrow> 'h) \<Rightarrow> int \<Rightarrow>
    't reload_env \<Rightarrow> ('t, 'h) loop_state \<Rightarrow> ('t, 'h) loop_state" where
  "reload_render_failed exec H now env st =
     (let st1 = emitEvent ''VCLRenderFailed'' st
      in if ls_templateSwapped st1 then
           (let st2 = emitEvent ''VCLRolledBack''
                  (st1\<lparr>ls_rend := renderer_Rollback (ls_rend st1), ls_templateSwapped := False\<rparr>)
            in case rollbackReload exec H env st2 of
                 (True, st3) \<Rightarrow> clearPending st3
               | (False, st3) \<Rightarrow>
                   (let (ok, st4) = recoverSwappedTemplate env st3
                    in markRetry now (st4\<lparr>ls_templateSwapped := ok\<rparr>)))
         else clearPending st1)"

text \<open>varnishd did not apply the reload.\<close>

definition reload_rejected :: "('t \<Rightarrow> template_data \<Rightarrow> string option) \<Rightarrow> (string \<Rightarrow> 'h) \<Rightarrow> int \<Rightarrow>
    't reload_env \<Rightarrow> bool \<Rightarrow> ('t, 'h) loop_state \<Rightarrow> ('t, 'h) loop_state" where
  "reload_rejected exec H now env rejected st =
     (let st1 = emitEvent ''VCLReloadFailed'' st
      in if \<not> ls_templateSwapped st1 \<or> \<not> rejected then markRetry now st1
         else
           (let st2 = emitEvent ''VCLRolledBack''
                  (st1\<lparr>ls_rend := renderer_Rollback (ls_rend st1), ls_templateSwapped := False\<rparr>)
            in case rollbackReload exec H env st2 of
                 (True, st3) \<Rightarrow> clearPending st3
               | (False, st3) \<Rightarrow> markRetry now st3))"

text \<open>The part after the template was parsed.\<close>

definition reload_render :: "('t \<Rightarrow> template_data \<Rightarrow> string option) \<Rightarrow> (string \<Rightarrow> 'h) \<Rightarrow> int \<Rightarrow>
    't reload_env \<Rightarrow> ('t, 'h) loop_state \<Rightarrow> ('t, 'h) loop_state" where
  "reload_render exec H now env st =
     (case Render exec (ls_inputs st) (ls_rend st) of
        (None, r) \<Rightarrow> reload_render_failed exec H now env (st\<lparr>ls_rend := r\<rparr>)
      | (Some vclStr, r) \<Rightarrow>
          (let st1 = st\<lparr>ls_rend := r\<rparr>; vclHash = H vclStr
           in if vclHash = ls_lastVCLHash st1
              then clearPending (st1\<lparr>ls_templateSwapped := False, ls_rend := renderer_Commit (ls_rend st1)\<rparr>)
              else if \<not> env_temp_ok env then markRetry now st1
              else (case env_reload env of
                      Signalled \<Rightarrow> st1\<lparr>ls_pendingShutdown := True, ls_pendingReload := True\<rparr>
                    | Failed rejected \<Rightarrow> reload_rejected exec H now env rejected st1
                    | Applied \<Rightarrow>
                        clearPending (emitEvent ''VCLReloaded''
                          (st1\<lparr>ls_lastVCLHash := vclHash, ls_active_vcl := vclStr,
                            ls_templateSwapped := False, ls_rend := renderer_Commit (ls_rend st1)\<rparr>)))))"

definition handleReload :: "('t \<Rightarrow> template_data \<Rightarrow> string option) \<Rightarrow> (string \<Rightarrow> 'h) \<Rightarrow> int \<Rightarrow>
    't reload_env \<Rightarrow> ('t, 'h) loop_state \<Rightarrow> ('t, 'h) loop_state" where
  "handleReload exec H now env st =
     (let st1 = st\<lparr>ls_frontend := debounce_reset (ls_frontend st), ls_backend := debounce_reset (ls_backend st)\<rparr>
      in if \<not> ls_pendingReload st1 then st1
         else reload_render exec H now env (reload_template env (st1\<lparr>ls_pendingReload := False\<rparr>)))"

section \<open>TLS certificate reload\<close>

text \<open>
  The names are visited in the unspecified order of Go's map iteration, the argument \<open>order\<close>;
  \<open>ans\<close> is what \<open>mgr.LoadCert\<close> answers for each. The result is \<open>None\<close> when a shutdown
  signal ended the loop, else whether some certificate failed.
\<close>

datatype cert_answer = CertLoaded | CertFailed | CertSignalled

definition tls_latest :: "('t, 'h) loop_state \<Rightarrow> string \<Rightarrow> tls_cert_data" where
  "tls_latest st name = (case fmlookup (ls_latestTLS st) name of
     Some d \<Rightarrow> d | None \<Rightarrow> \<lparr>tls_Cert = [], tls_Key = [], tls_CA = []\<rparr>)"

fun cert_loop :: "(string \<Rightarrow> cert_answer) \<Rightarrow> string list \<Rightarrow> bool \<Rightarrow> ('t, 'h) loop_state \<Rightarrow>
    bool option \<times> ('t, 'h) loop_state" where
  "cert_loop ans [] failed st = (Some failed, st)"
| "cert_loop ans (name # names) failed st =
     (case ans name of
        CertSignalled \<Rightarrow> (None, st\<lparr>ls_pendingShutdown := True\<rparr>)
      | CertFailed \<Rightarrow> cert_loop ans names True (emitEvent ''TLSCertReloadFailed'' st)
      | CertLoaded \<Rightarrow>
          (let st1 = st\<lparr>ls_pendingCertNames := ls_pendingCertNames st |-| {|name|}\<rparr>
           in cert_loop ans names failed
                (emitEvent (if tls_Empty (tls_latest st name) then ''TLSCertAbsent'' else ''TLSCertReloaded'') st1)))"

definition handleCertReload :: "int \<Rightarrow> string list \<Rightarrow> (string \<Rightarrow> cert_answer) \<Rightarrow>
    ('t, 'h) loop_state \<Rightarrow> ('t, 'h) loop_state" where
  "handleCertReload now order ans st =
     (let st1 = st\<lparr>ls_tlsCert := debounce_reset (ls_tlsCert st)\<rparr>
      in if ls_pendingCertNames st1 = {||} then st1
         else (case cert_loop ans order False st1 of
                 (None, st2) \<Rightarrow> st2
               | (Some True, st2) \<Rightarrow> st2\<lparr>ls_tlsRecovery := snd (recovery_arm now (ls_tlsRecovery st2))\<rparr>
               | (Some False, st2) \<Rightarrow> st2\<lparr>ls_tlsRecovery := recovery_reset (ls_tlsRecovery st2)\<rparr>))"

section \<open>One handler per case of the select\<close>

text \<open>The tail of the handlers that schedule a reload with the backend group.\<close>

definition schedule_backend :: "loop_config \<Rightarrow> int \<Rightarrow> string \<Rightarrow> ('t, 'h) loop_state \<Rightarrow> ('t, 'h) loop_state" where
  "schedule_backend cf now reason st =
     st\<lparr>ls_pendingReload := True, ls_pendingReasons := appendUnique (ls_pendingReasons st) reason,
       ls_backend := resetDebounce (cf_backendDebounce cf) (cf_backendDebounceMax cf) now (ls_backend st)\<rparr>"

definition on_template :: "loop_config \<Rightarrow> int \<Rightarrow> ('t, 'h) loop_state \<Rightarrow> ('t, 'h) loop_state" where
  "on_template cf now st =
     schedule_backend cf now ''template changed''
       (emitEvent ''VCLTemplateChanged'' st\<lparr>ls_templateChanged := True\<rparr>)"

definition on_frontend :: "loop_config \<Rightarrow> int \<Rightarrow> endpoint slice \<Rightarrow> ('t, 'h) loop_state \<Rightarrow> ('t, 'h) loop_state" where
  "on_frontend cf now frontends st =
     (let st1 = st\<lparr>ls_inputs := (ls_inputs st)\<lparr>in_Frontends := frontends\<rparr>\<rparr>;
          st2 = (if ls_bcast st1 \<noteq> None then st1\<lparr>ls_bcast := Some frontends\<rparr> else st1)
      in st2\<lparr>ls_pendingReload := True,
           ls_pendingReasons := appendUnique (ls_pendingReasons st2) ''frontend endpoints changed'',
           ls_frontend := resetDebounce (cf_frontendDebounce cf) (cf_frontendDebounceMax cf) now (ls_frontend st2)\<rparr>)"

text \<open>Reading a Go map: the zero value of a missing key.\<close>

definition live_gen :: "(string, nat) fmap \<Rightarrow> string \<Rightarrow> nat" where
  "live_gen m name = (case fmlookup m name of Some g \<Rightarrow> g | None \<Rightarrow> 0)"

definition removed_gen :: "(string, backendTombstone) fmap \<Rightarrow> string \<Rightarrow> backendTombstone" where
  "removed_gen m name = (case fmlookup m name of Some ts \<Rightarrow> ts | None \<Rightarrow> \<lparr>ts_gen = 0, ts_at = 0\<rparr>)"

text \<open>The two guards that drop an update of a superseded discovery incarnation.\<close>

definition backend_dropped :: "backendChange \<Rightarrow> ('t, 'h) loop_state \<Rightarrow> bool" where
  "backend_dropped bc st \<longleftrightarrow>
     (bc_gen bc \<noteq> 0 \<and> bc_gen bc < live_gen (ls_liveGen st) (bc_name bc)) \<or>
     (\<not> bc_removed bc \<and> bc_gen bc \<noteq> 0 \<and> bc_gen bc \<le> ts_gen (removed_gen (ls_removedGen st) (bc_name bc)))"

definition backend_remove :: "int \<Rightarrow> backendChange \<Rightarrow> ('t, 'h) loop_state \<Rightarrow> ('t, 'h) loop_state" where
  "backend_remove now bc st =
     (let ts = removed_gen (ls_removedGen st) (bc_name bc);
          ts1 = (if bc_gen bc > ts_gen ts then ts\<lparr>ts_gen := bc_gen bc\<rparr> else ts);
          ts2 = ts1\<lparr>ts_at := now\<rparr>
      in st\<lparr>ls_removedGen := fmupd (bc_name bc) ts2 (ls_removedGen st),
           ls_inputs := (ls_inputs st)\<lparr>in_Backends := fmdrop (bc_name bc) (in_Backends (ls_inputs st))\<rparr>,
           ls_liveGen := fmdrop (bc_name bc) (ls_liveGen st)\<rparr>)"

definition backend_apply :: "backendChange \<Rightarrow> ('t, 'h) loop_state \<Rightarrow> ('t, 'h) loop_state" where
  "backend_apply bc st =
     st\<lparr>ls_inputs := (ls_inputs st)\<lparr>in_Backends := fmupd (bc_name bc)
            \<lparr>bg_Endpoints = bc_endpoints bc, bg_Labels = bc_labels bc, bg_Annotations = bc_annotations bc\<rparr>
            (in_Backends (ls_inputs st))\<rparr>,
       ls_liveGen := (if bc_gen bc \<noteq> 0 then fmupd (bc_name bc) (bc_gen bc) (ls_liveGen st) else ls_liveGen st)\<rparr>"

definition on_backend :: "loop_config \<Rightarrow> int \<Rightarrow> backendChange \<Rightarrow> ('t, 'h) loop_state \<Rightarrow> ('t, 'h) loop_state" where
  "on_backend cf now bc st =
     (if backend_dropped bc st then st
      else
        (let old = (case fmlookup (in_Backends (ls_inputs st)) (bc_name bc) of
                      Some bg \<Rightarrow> bg_Endpoints bg | None \<Rightarrow> None);
             epsChanged = (\<not> EndpointsEqual old (bc_endpoints bc));
             st1 = (if bc_removed bc then backend_remove now bc st else backend_apply bc st)
         in schedule_backend cf now
              (if epsChanged then ''backend endpoints changed'' else ''backend metadata changed'') st1))"

definition on_values :: "loop_config \<Rightarrow> int \<Rightarrow> string \<Rightarrow> gmap \<Rightarrow> ('t, 'h) loop_state \<Rightarrow> ('t, 'h) loop_state" where
  "on_values cf now name data st =
     schedule_backend cf now ''values updated''
       (st\<lparr>ls_inputs := (ls_inputs st)\<lparr>in_Values := fmupd name data (in_Values (ls_inputs st))\<rparr>\<rparr>)"

definition on_secrets :: "loop_config \<Rightarrow> int \<Rightarrow> string \<Rightarrow> gmap \<Rightarrow> ('t, 'h) loop_state \<Rightarrow> ('t, 'h) loop_state" where
  "on_secrets cf now name data st =
     (let secrets = fmupd name data (in_Secrets (ls_inputs st));
          st1 = st\<lparr>ls_inputs := (ls_inputs st)\<lparr>in_Secrets := secrets\<rparr>\<rparr>;
          st2 = st1\<lparr>ls_redactor := map_option (redactor_Update secrets) (ls_redactor st1)\<rparr>
      in schedule_backend cf now ''secrets updated'' st2)"

definition tlsRedactKey :: "string \<Rightarrow> string" where
  "tlsRedactKey certName = ''tls:'' @ certName"

definition on_tls :: "loop_config \<Rightarrow> int \<Rightarrow> string \<Rightarrow> tls_cert_data \<Rightarrow> ('t, 'h) loop_state \<Rightarrow> ('t, 'h) loop_state" where
  "on_tls cf now name data st =
     (let st1 = st\<lparr>ls_latestTLS := fmupd name data (ls_latestTLS st)\<rparr>;
          st2 = (if length (tls_Key data) > 0
                 then st1\<lparr>ls_redactor := map_option
                        (SetStaticValues (tlsRedactKey name) (KeyMaterialValues [tls_Key data])) (ls_redactor st1)\<rparr>
                 else st1)
      in st2\<lparr>ls_pendingCertNames := finsert name (ls_pendingCertNames st2),
           ls_tlsCert := resetDebounce (cf_tlsCertDebounce cf) (cf_tlsCertDebounceMax cf) now (ls_tlsCert st2)\<rparr>)"

definition sweepExpiredTombstones :: "int \<Rightarrow> int \<Rightarrow> (string, backendTombstone) fmap \<Rightarrow> (string, backendTombstone) fmap" where
  "sweepExpiredTombstones now ttl m =
     (if ttl \<le> 0 then m
      else fmfilter (\<lambda>name. \<not> now - ts_at (removed_gen m name) \<ge> ttl) m)"

definition on_sweep :: "loop_config \<Rightarrow> int \<Rightarrow> ('t, 'h) loop_state \<Rightarrow> ('t, 'h) loop_state" where
  "on_sweep cf now st =
     st\<lparr>ls_removedGen := sweepExpiredTombstones now (cf_backendTombstoneTTL cf) (ls_removedGen st)\<rparr>"

definition on_vcl_recovery :: "('t \<Rightarrow> template_data \<Rightarrow> string option) \<Rightarrow> (string \<Rightarrow> 'h) \<Rightarrow> int \<Rightarrow>
    't reload_env \<Rightarrow> ('t, 'h) loop_state \<Rightarrow> ('t, 'h) loop_state" where
  "on_vcl_recovery exec H now env st =
     (let st1 = handleReload exec H now env (st\<lparr>ls_vclRecovery := snd (recovery_fired (ls_vclRecovery st))\<rparr>)
      in if rc_timer (ls_vclRecovery st1) = None
         then st1\<lparr>ls_vclRecovery := (ls_vclRecovery st1)\<lparr>rc_delay := 0\<rparr>\<rparr> else st1)"

definition on_tls_recovery :: "int \<Rightarrow> string list \<Rightarrow> (string \<Rightarrow> cert_answer) \<Rightarrow>
    ('t, 'h) loop_state \<Rightarrow> ('t, 'h) loop_state" where
  "on_tls_recovery now order ans st =
     (let st1 = handleCertReload now order ans (st\<lparr>ls_tlsRecovery := snd (recovery_fired (ls_tlsRecovery st))\<rparr>)
      in if rc_timer (ls_tlsRecovery st1) = None
         then st1\<lparr>ls_tlsRecovery := (ls_tlsRecovery st1)\<lparr>rc_delay := 0\<rparr>\<rparr> else st1)"

section \<open>The loop\<close>

datatype 't loop_event =
    Template
  | FrontendEv "endpoint slice"
  | BackendEv backendChange
  | ValuesEv string gmap
  | SecretsEv string gmap
  | TLSEv string tls_cert_data
  | FrontendTimer "'t reload_env"
  | BackendTimer "'t reload_env"
  | TombstoneSweep
  | VCLRecoveryTimer "'t reload_env"
  | TLSTimer "string list" "string \<Rightarrow> cert_answer"
  | TLSRecoveryTimer "string list" "string \<Rightarrow> cert_answer"
  | NCSAEv string

fun loop_handle :: "('t \<Rightarrow> template_data \<Rightarrow> string option) \<Rightarrow> (string \<Rightarrow> 'h) \<Rightarrow> loop_config \<Rightarrow> int \<Rightarrow>
    't loop_event \<Rightarrow> ('t, 'h) loop_state \<Rightarrow> ('t, 'h) loop_state" where
  "loop_handle exec H cf now Template st = on_template cf now st"
| "loop_handle exec H cf now (FrontendEv eps) st = on_frontend cf now eps st"
| "loop_handle exec H cf now (BackendEv bc) st = on_backend cf now bc st"
| "loop_handle exec H cf now (ValuesEv name data) st = on_values cf now name data st"
| "loop_handle exec H cf now (SecretsEv name data) st = on_secrets cf now name data st"
| "loop_handle exec H cf now (TLSEv name data) st = on_tls cf now name data st"
| "loop_handle exec H cf now (FrontendTimer env) st = handleReload exec H now env st"
| "loop_handle exec H cf now (BackendTimer env) st = handleReload exec H now env st"
| "loop_handle exec H cf now TombstoneSweep st = on_sweep cf now st"
| "loop_handle exec H cf now (VCLRecoveryTimer env) st = on_vcl_recovery exec H now env st"
| "loop_handle exec H cf now (TLSTimer order ans) st = handleCertReload now order ans st"
| "loop_handle exec H cf now (TLSRecoveryTimer order ans) st = on_tls_recovery now order ans st"
| "loop_handle exec H cf now (NCSAEv reason) st = emitEvent reason st"

text \<open>When the select can take a case: a timer must be armed and due, and the certificate loop
  visits each pending name once.\<close>

definition due :: "int \<Rightarrow> int option \<Rightarrow> bool" where
  "due now t \<longleftrightarrow> (case t of None \<Rightarrow> False | Some f \<Rightarrow> f \<le> now)"

fun loop_enabled :: "loop_config \<Rightarrow> int \<Rightarrow> 't loop_event \<Rightarrow> ('t, 'h) loop_state \<Rightarrow> bool" where
  "loop_enabled cf now (FrontendTimer env) st = due now (db_timer (ls_frontend st))"
| "loop_enabled cf now (BackendTimer env) st = due now (db_timer (ls_backend st))"
| "loop_enabled cf now (VCLRecoveryTimer env) st = due now (recovery_channel (ls_vclRecovery st))"
| "loop_enabled cf now (TLSTimer order ans) st =
     (due now (db_timer (ls_tlsCert st)) \<and> distinct order \<and> fset_of_list order = ls_pendingCertNames st)"
| "loop_enabled cf now (TLSRecoveryTimer order ans) st =
     (due now (recovery_channel (ls_tlsRecovery st)) \<and> distinct order \<and> fset_of_list order = ls_pendingCertNames st)"
| "loop_enabled cf now TombstoneSweep st = (cf_backendTombstoneTTL cf > 0)"
| "loop_enabled cf now ev st = True"

text \<open>The iterations of the loop; a pending shutdown is acted on first and ends it.\<close>

inductive loop_reach :: "('t \<Rightarrow> template_data \<Rightarrow> string option) \<Rightarrow> (string \<Rightarrow> 'h) \<Rightarrow> loop_config \<Rightarrow>
    ('t, 'h) loop_state \<Rightarrow> int \<Rightarrow> ('t, 'h) loop_state \<Rightarrow> int \<Rightarrow> bool" for exec H cf st0 now0 where
  start: "loop_reach exec H cf st0 now0 st0 now0"
| iterate: "loop_reach exec H cf st0 now0 st now \<Longrightarrow> \<not> ls_pendingShutdown st \<Longrightarrow> now \<le> now' \<Longrightarrow>
    loop_enabled cf now' ev st \<Longrightarrow>
    loop_reach exec H cf st0 now0 (loop_handle exec H cf now' ev st) now'"

text \<open>
  The state \<open>run\<close> enters the loop with: the initial inputs \<open>inp\<close> were rendered to \<open>vcl\<close>, varnishd
  was started with it, and the secrets and the private keys of the initial certificates \<open>tls\<close>
  were registered for redaction.
\<close>

definition initial_redactor :: "inputs \<Rightarrow> (string \<times> tls_cert_data) list \<Rightarrow> redactor" where
  "initial_redactor inp tls =
     fold (\<lambda>(name, d). SetStaticValues (tlsRedactKey name) (KeyMaterialValues [tls_Key d])) tls
       (redactor_Update (in_Secrets inp) NewRedactor)"

definition loop_init :: "(string \<Rightarrow> 'h) \<Rightarrow> inputs \<Rightarrow> (string \<times> tls_cert_data) list \<Rightarrow> 't renderer \<Rightarrow> string \<Rightarrow>
    bool \<Rightarrow> ('t, 'h) loop_state" where
  "loop_init H inp tls r vcl bcast =
     (let recovery = \<lparr>rc_initial = 10 * 1000000000, rc_maxDelay = 60 * 1000000000, rc_timer = None, rc_delay = 0\<rparr> in
     \<lparr>ls_frontend = debounce_idle, ls_backend = debounce_idle, ls_tlsCert = debounce_idle,
      ls_pendingReload = False, ls_templateChanged = False, ls_pendingReasons = [],
      ls_templateSwapped = False, ls_vclRecovery = recovery, ls_tlsRecovery = recovery,
      ls_pendingShutdown = False, ls_latestTLS = fmempty, ls_pendingCertNames = {||},
      ls_removedGen = fmempty, ls_liveGen = fmempty, ls_inputs = inp, ls_lastVCLHash = H vcl,
      ls_rend = r, ls_redactor = Some (initial_redactor inp tls),
      ls_bcast = (if bcast then Some (in_Frontends inp) else None),
      ls_active_vcl = vcl, ls_emitted = []\<rparr>)"

end
