(* ===== verification/LoopInvariant.thy ===== *)
theory LoopInvariant
  imports EventLoop
begin

text \<open>
  The invariant of the event loop and its preservation by every handler: the swap flag agrees with
  the renderer, the recorded hash with the active VCL, pending work has a timer, work that is not
  pending is applied, live generations are above the tombstones, secrets are redaction targets.
\<close>

section \<open>What a reload leaves alone\<close>

definition reload_frame :: "('t, 'h) loop_state \<Rightarrow> ('t, 'h) loop_state \<Rightarrow> bool" where
  "reload_frame st st' \<longleftrightarrow>
     ls_inputs st' = ls_inputs st \<and> ls_redactor st' = ls_redactor st \<and> ls_bcast st' = ls_bcast st \<and>
     ls_liveGen st' = ls_liveGen st \<and> ls_removedGen st' = ls_removedGen st \<and>
     ls_latestTLS st' = ls_latestTLS st \<and> ls_pendingCertNames st' = ls_pendingCertNames st \<and>
     ls_tlsCert st' = ls_tlsCert st \<and> ls_tlsRecovery st' = ls_tlsRecovery st \<and>
     rc_initial (ls_vclRecovery st') = rc_initial (ls_vclRecovery st)"

lemma reload_frame_trans [trans]: "reload_frame a b \<Longrightarrow> reload_frame b c \<Longrightarrow> reload_frame a c"
  by (simp add: reload_frame_def)

lemma reload_frame_refl [simp]: "reload_frame a a"
  by (simp add: reload_frame_def)

lemma reload_frame_prims:
  "reload_frame a (emitEvent e b) = reload_frame a b"
  "reload_frame a (markRetry now b) = reload_frame a b"
  "reload_frame a (clearPending b) = reload_frame a b"
  "reload_frame a (b\<lparr>ls_rend := r\<rparr>) = reload_frame a b"
  "reload_frame a (b\<lparr>ls_templateSwapped := sw\<rparr>) = reload_frame a b"
  "reload_frame a (b\<lparr>ls_templateChanged := sw\<rparr>) = reload_frame a b"
  "reload_frame a (b\<lparr>ls_pendingReload := sw\<rparr>) = reload_frame a b"
  "reload_frame a (b\<lparr>ls_pendingShutdown := sw\<rparr>) = reload_frame a b"
  "reload_frame a (b\<lparr>ls_frontend := db\<rparr>) = reload_frame a b"
  "reload_frame a (b\<lparr>ls_backend := db\<rparr>) = reload_frame a b"
  "reload_frame a (b\<lparr>ls_lastVCLHash := h\<rparr>) = reload_frame a b"
  "reload_frame a (b\<lparr>ls_active_vcl := v\<rparr>) = reload_frame a b"
  "reload_frame a (b\<lparr>ls_emitted := es\<rparr>) = reload_frame a b"
  by (simp_all add: reload_frame_def emitEvent_def markRetry_def clearPending_def recovery_arm_def recovery_reset_def Let_def)

lemma rollbackReload_frame:
  "rollbackReload exec H env st = (ok, st') \<Longrightarrow> \<forall>a. reload_frame a st' = reload_frame a st"
  by (auto simp: rollbackReload_def reload_frame_prims split: option.splits prod.splits if_splits)

lemma recover_frame:
  "recoverSwappedTemplate env st = (ok, st') \<Longrightarrow> \<forall>a. reload_frame a st' = reload_frame a st"
  by (auto simp: recoverSwappedTemplate_def reload_frame_prims split: prod.splits)

lemma reload_template_frame [simp]: "reload_frame a (reload_template env st) = reload_frame a st"
  by (auto simp: reload_template_def reload_frame_prims split: prod.splits bool.splits)

lemma reload_render_failed_frame [simp]:
  "reload_frame a (reload_render_failed exec H now env st) = reload_frame a st"
proof (cases "ls_templateSwapped st")
  case False
  then show ?thesis by (simp add: reload_render_failed_def Let_def reload_frame_prims emitEvent_def)
next
  case True
  let ?st2 = "emitEvent ''VCLRolledBack'' ((emitEvent ''VCLRenderFailed'' st)
    \<lparr>ls_rend := renderer_Rollback (ls_rend (emitEvent ''VCLRenderFailed'' st)), ls_templateSwapped := False\<rparr>)"
  obtain ok st3 where rb: "rollbackReload exec H env ?st2 = (ok, st3)" by (metis surj_pair)
  obtain ok' st4 where rc: "recoverSwappedTemplate env st3 = (ok', st4)" by (metis surj_pair)
  have "ls_templateSwapped (emitEvent ''VCLRenderFailed'' st)" using True by (simp add: emitEvent_def)
  then show ?thesis
    using rollbackReload_frame [OF rb] recover_frame [OF rc] rb rc
    by (simp add: reload_render_failed_def Let_def reload_frame_prims split: bool.split)
qed

lemma reload_rejected_frame [simp]:
  "reload_frame a (reload_rejected exec H now env rej st) = reload_frame a st"
proof -
  let ?st2 = "emitEvent ''VCLRolledBack'' ((emitEvent ''VCLReloadFailed'' st)
    \<lparr>ls_rend := renderer_Rollback (ls_rend (emitEvent ''VCLReloadFailed'' st)), ls_templateSwapped := False\<rparr>)"
  obtain ok st3 where rb: "rollbackReload exec H env ?st2 = (ok, st3)" by (metis surj_pair)
  then show ?thesis
    using rollbackReload_frame [OF rb]
    by (simp add: reload_rejected_def Let_def reload_frame_prims split: bool.split)
qed

lemma reload_render_frame [simp]: "reload_frame a (reload_render exec H now env st) = reload_frame a st"
  by (auto simp: reload_render_def Let_def reload_frame_prims
      split: prod.splits option.splits mgr_answer.splits)

lemma handleReload_frame: "reload_frame st (handleReload exec H now env st)"
  by (simp add: handleReload_def Let_def reload_frame_prims)

section \<open>The swap flag and the recorded hash\<close>

text \<open>The loop's flag agrees with the renderer, and the recorded hash is that of the active VCL.\<close>

definition swap_hash_ok :: "(string \<Rightarrow> 'h) \<Rightarrow> ('t, 'h) loop_state \<Rightarrow> bool" where
  "swap_hash_ok H st \<longleftrightarrow> ls_templateSwapped st = renderer_swapped (ls_rend st) \<and>
     ls_lastVCLHash st = H (ls_active_vcl st)"

lemma Render_swapped [simp]:
  "Render exec inp r = (v, r') \<Longrightarrow> renderer_swapped r' = renderer_swapped r"
  "Render exec inp r = (v, r') \<Longrightarrow> renderer_proven r' = renderer_proven r"
  using Render_keeps [of exec inp r v r'] by (simp_all add: renderer_swapped_def renderer_proven_def split: option.split)

lemma rollbackReload_swap:
  "rollbackReload exec H env st = (ok, st') \<Longrightarrow> swap_hash_ok H st \<Longrightarrow> swap_hash_ok H st'"
  by (auto simp: rollbackReload_def swap_hash_ok_def emitEvent_def split: option.splits prod.splits if_splits)

lemma swap_hash_prims [simp]:
  "swap_hash_ok H (emitEvent e st) = swap_hash_ok H st"
  "swap_hash_ok H (markRetry now st) = swap_hash_ok H st"
  "swap_hash_ok H (clearPending st) = swap_hash_ok H st"
  by (simp_all add: swap_hash_ok_def emitEvent_def markRetry_def clearPending_def)

lemma reload_template_swap: "swap_hash_ok H st \<Longrightarrow> swap_hash_ok H (reload_template env st)"
  by (auto simp: reload_template_def swap_hash_ok_def emitEvent_def split: prod.splits bool.splits
      dest: rs.reload_swapped_iff)

lemma swap_hash_rollback:
  "swap_hash_ok H st \<Longrightarrow>
   swap_hash_ok H (st\<lparr>ls_rend := renderer_Rollback (ls_rend st), ls_templateSwapped := False\<rparr>)"
  by (simp add: swap_hash_ok_def rs.rollback_swapped)


text \<open>The state in which a rejected or unrenderable new template is rolled back.\<close>

definition rolled_back :: "string \<Rightarrow> ('t, 'h) loop_state \<Rightarrow> ('t, 'h) loop_state" where
  "rolled_back e st = emitEvent ''VCLRolledBack'' ((emitEvent e st)
     \<lparr>ls_rend := renderer_Rollback (ls_rend (emitEvent e st)), ls_templateSwapped := False\<rparr>)"

lemma reload_render_failed_eq:
  "reload_render_failed exec H now env st =
     (if ls_templateSwapped st then
        (case rollbackReload exec H env (rolled_back ''VCLRenderFailed'' st) of
           (True, st3) \<Rightarrow> clearPending st3
         | (False, st3) \<Rightarrow> (let (ok, st4) = recoverSwappedTemplate env st3
                           in markRetry now (st4\<lparr>ls_templateSwapped := ok\<rparr>)))
      else clearPending (emitEvent ''VCLRenderFailed'' st))"
  by (simp add: reload_render_failed_def rolled_back_def Let_def) (simp add: emitEvent_def)

lemma reload_rejected_eq:
  "reload_rejected exec H now env rej st =
     (if ls_templateSwapped st \<and> rej then
        (case rollbackReload exec H env (rolled_back ''VCLReloadFailed'' st) of
           (True, st3) \<Rightarrow> clearPending st3 | (False, st3) \<Rightarrow> markRetry now st3)
      else markRetry now (emitEvent ''VCLReloadFailed'' st))"
  by (simp add: reload_rejected_def rolled_back_def Let_def) (simp add: emitEvent_def)

lemma rolled_back_swap: "swap_hash_ok H st \<Longrightarrow> swap_hash_ok H (rolled_back e st)"
  by (simp add: rolled_back_def swap_hash_ok_def rs.rollback_swapped emitEvent_def)

lemma recover_swap:
  assumes "recoverSwappedTemplate env st = (ok, st')" and "swap_hash_ok H st" and "\<not> ls_templateSwapped st"
  shows "swap_hash_ok H (st'\<lparr>ls_templateSwapped := ok\<rparr>)"
  using assms rs.reload_swapped_iff [of "env_reparsed env" "ls_rend st"]
  by (auto simp: recoverSwappedTemplate_def swap_hash_ok_def split: prod.splits)

lemma rollbackReload_unswapped:
  "rollbackReload exec H env st = (ok, st') \<Longrightarrow> ls_templateSwapped st' = ls_templateSwapped st"
  by (auto simp: rollbackReload_def emitEvent_def split: option.splits prod.splits if_splits)

lemma rolled_back_unswapped [simp]: "\<not> ls_templateSwapped (rolled_back e st)"
  by (simp add: rolled_back_def emitEvent_def)

lemma reload_render_failed_swap:
  assumes "swap_hash_ok H st"
  shows "swap_hash_ok H (reload_render_failed exec H now env st)"
proof -
  obtain ok st3 where rb: "rollbackReload exec H env (rolled_back ''VCLRenderFailed'' st) = (ok, st3)"
    by (metis surj_pair)
  obtain ok' st4 where rc: "recoverSwappedTemplate env st3 = (ok', st4)" by (metis surj_pair)
  have "swap_hash_ok H st3" using rollbackReload_swap [OF rb rolled_back_swap [OF assms]] .
  moreover have "\<not> ls_templateSwapped st3" using rollbackReload_unswapped [OF rb] by simp
  ultimately show ?thesis
    using recover_swap [OF rc] assms rb rc
    by (simp add: reload_render_failed_eq split: bool.split)
qed

lemma reload_rejected_swap:
  assumes "swap_hash_ok H st"
  shows "swap_hash_ok H (reload_rejected exec H now env rej st)"
proof -
  obtain ok st3 where rb: "rollbackReload exec H env (rolled_back ''VCLReloadFailed'' st) = (ok, st3)"
    by (metis surj_pair)
  then show ?thesis using rollbackReload_swap [OF rb rolled_back_swap [OF assms]] assms
    by (simp add: reload_rejected_eq split: bool.split)
qed

lemma swap_hash_rend: "Render exec inp (ls_rend st) = (v, r) \<Longrightarrow> swap_hash_ok H st \<Longrightarrow>
    swap_hash_ok H (st\<lparr>ls_rend := r\<rparr>)"
  by (simp add: swap_hash_ok_def)

lemma reload_render_swap:
  assumes "swap_hash_ok H st"
  shows "swap_hash_ok H (reload_render exec H now env st)"
proof -
  obtain v r where R: "Render exec (ls_inputs st) (ls_rend st) = (v, r)" by (metis surj_pair)
  have *: "swap_hash_ok H (st\<lparr>ls_rend := r\<rparr>)" by (rule swap_hash_rend [OF R assms])
  show ?thesis
  proof (cases v)
    case None
    then show ?thesis using R reload_render_failed_swap [OF *] by (simp add: reload_render_def)
  next
    case (Some s)
    show ?thesis
      using R Some * reload_rejected_swap [OF *]
      by (auto simp: reload_render_def Let_def swap_hash_ok_def rs.commit_swapped emitEvent_def
          clearPending_def markRetry_def split: mgr_answer.split)
  qed
qed

lemma handleReload_swap: "swap_hash_ok H st \<Longrightarrow> swap_hash_ok H (handleReload exec H now env st)"
proof -
  assume "swap_hash_ok H st"
  then have "swap_hash_ok H (st\<lparr>ls_frontend := debounce_idle, ls_backend := debounce_idle\<rparr>)"
    and "swap_hash_ok H (st\<lparr>ls_frontend := debounce_idle, ls_backend := debounce_idle, ls_pendingReload := False\<rparr>)"
    by (simp_all add: swap_hash_ok_def)
  then show ?thesis by (simp add: handleReload_def Let_def reload_render_swap reload_template_swap)
qed

section \<open>Nothing pending is forgotten, and what is not pending is applied\<close>

definition fresh :: "('t \<Rightarrow> template_data \<Rightarrow> string option) \<Rightarrow> (string \<Rightarrow> 'h) \<Rightarrow> ('t, 'h) loop_state \<Rightarrow> bool" where
  "fresh exec H st \<longleftrightarrow> (\<forall>v. rendered exec (ls_inputs st) (ls_rend st) = Some v \<longrightarrow> H v = ls_lastVCLHash st)"

definition retry_armed :: "('t, 'h) loop_state \<Rightarrow> bool" where
  "retry_armed st \<longleftrightarrow> rc_timer (ls_vclRecovery st) \<noteq> None \<or> rc_initial (ls_vclRecovery st) \<le> 0"

definition reload_done :: "('t \<Rightarrow> template_data \<Rightarrow> string option) \<Rightarrow> (string \<Rightarrow> 'h) \<Rightarrow> ('t, 'h) loop_state \<Rightarrow> bool" where
  "reload_done exec H st \<longleftrightarrow> (if ls_pendingReload st then retry_armed st \<or> ls_pendingShutdown st else fresh exec H st)"

lemma rendered_cong:
  "r_tmpl r' = r_tmpl r \<Longrightarrow> r_drainBackend r' = r_drainBackend r \<Longrightarrow> r_localZone r' = r_localZone r \<Longrightarrow>
   rendered exec inp r' = rendered exec inp r"
  by (simp add: rendered_def Render_def Let_def split: option.splits if_splits prod.splits)

lemma rendered_Render [simp]: "Render exec inp0 r = (v, r') \<Longrightarrow> rendered exec inp r' = rendered exec inp r"
  by (intro rendered_cong Render_keeps)

lemma rendered_Commit [simp]: "rendered exec inp (renderer_Commit r) = rendered exec inp r"
  by (rule rendered_cong) (simp_all add: renderer_Commit_def)

lemma fresh_prims [simp]:
  "fresh exec H (emitEvent e st) = fresh exec H st"
  "fresh exec H (markRetry now st) = fresh exec H st"
  "fresh exec H (clearPending st) = fresh exec H st"
  by (simp_all add: fresh_def emitEvent_def markRetry_def clearPending_def)

lemma reload_done_markRetry [simp]: "reload_done exec H (markRetry now st)"
  by (auto simp: reload_done_def markRetry_def retry_armed_def recovery_arm_def Let_def)

lemma rollbackReload_fresh:
  assumes "rollbackReload exec H env st = (True, st')"
  shows "fresh exec H st'"
proof -
  obtain v r where R: "Render exec (ls_inputs st) (ls_rend st) = (v, r)" by (metis surj_pair)
  show ?thesis
    using assms R Render_fst [OF R]
    by (auto simp: rollbackReload_def fresh_def emitEvent_def split: option.splits if_splits)
qed

lemma rollbackReload_pending:
  "rollbackReload exec H env st = (ok, st') \<Longrightarrow> ls_pendingReload st' = ls_pendingReload st"
  by (auto simp: rollbackReload_def emitEvent_def split: option.splits prod.splits if_splits)

lemma reload_done_clear: "fresh exec H st \<Longrightarrow> \<not> ls_pendingReload st \<Longrightarrow> reload_done exec H (clearPending st)"
  by (simp add: reload_done_def) (simp add: clearPending_def)

lemma rolled_back_pending [simp]: "ls_pendingReload (rolled_back e st) = ls_pendingReload st"
  by (simp add: rolled_back_def emitEvent_def)

lemma reload_render_failed_done:
  assumes "\<not> ls_pendingReload st" and "rendered exec (ls_inputs st) (ls_rend st) = None"
  shows "reload_done exec H (reload_render_failed exec H now env st)"
proof -
  obtain ok st3 where rb: "rollbackReload exec H env (rolled_back ''VCLRenderFailed'' st) = (ok, st3)"
    by (metis surj_pair)
  obtain ok' st4 where rc: "recoverSwappedTemplate env st3 = (ok', st4)" by (metis surj_pair)
  have "fresh exec H (emitEvent ''VCLRenderFailed'' st)" using assms(2) by (simp add: fresh_def emitEvent_def)
  moreover have "\<not> ls_pendingReload (emitEvent ''VCLRenderFailed'' st)" using assms(1) by (simp add: emitEvent_def)
  ultimately show ?thesis
    using rb rc rollbackReload_fresh [of exec H env _ st3] rollbackReload_pending [OF rb] assms(1)
    by (auto simp: reload_render_failed_eq reload_done_clear split: bool.split)
qed

lemma reload_rejected_done:
  assumes "\<not> ls_pendingReload st"
  shows "reload_done exec H (reload_rejected exec H now env rej st)"
proof -
  obtain ok st3 where rb: "rollbackReload exec H env (rolled_back ''VCLReloadFailed'' st) = (ok, st3)"
    by (metis surj_pair)
  show ?thesis
    using rb rollbackReload_fresh [of exec H env _ st3] rollbackReload_pending [OF rb] assms
    by (auto simp: reload_rejected_eq reload_done_clear split: bool.split)
qed

lemma reload_render_done:
  assumes "\<not> ls_pendingReload st"
  shows "reload_done exec H (reload_render exec H now env st)"
proof -
  obtain v r where R: "Render exec (ls_inputs st) (ls_rend st) = (v, r)" by (metis surj_pair)
  note v = Render_fst [OF R]
  show ?thesis
  proof (cases v)
    case None
    then show ?thesis
      using R v assms reload_render_failed_done [of "st\<lparr>ls_rend := r\<rparr>" exec H now env]
      by (simp add: reload_render_def)
  next
    case (Some s)
    show ?thesis
    proof (cases "H s = ls_lastVCLHash st \<or> \<not> env_temp_ok env \<or> env_reload env = Applied")
      case True
      then show ?thesis
        using R v [symmetric] Some assms
        by (auto simp: reload_render_def Let_def emitEvent_def fresh_def intro!: reload_done_clear)
    next
      case False
      then show ?thesis
        using R Some assms reload_rejected_done [of "st\<lparr>ls_rend := r\<rparr>" exec H now env]
        by (cases "env_reload env") (simp_all add: reload_render_def Let_def, simp add: reload_done_def)
    qed
  qed
qed


text \<open>
  A pending reload will be attempted: a debounce timer or the recovery timer is armed, or the loop
  is about to shut down (or retries are disabled). When none is pending, what varnishd runs is, up
  to the hash, the rendering of the latest inputs, or these cannot be rendered.
\<close>

definition live :: "('t \<Rightarrow> template_data \<Rightarrow> string option) \<Rightarrow> (string \<Rightarrow> 'h) \<Rightarrow> ('t, 'h) loop_state \<Rightarrow> bool" where
  "live exec H st \<longleftrightarrow>
     (ls_pendingReload st \<longrightarrow> db_timer (ls_frontend st) \<noteq> None \<or> db_timer (ls_backend st) \<noteq> None \<or>
        retry_armed st \<or> ls_pendingShutdown st) \<and>
     (\<not> ls_pendingReload st \<longrightarrow> fresh exec H st)"

definition certs_live :: "('t, 'h) loop_state \<Rightarrow> bool" where
  "certs_live st \<longleftrightarrow> ls_pendingCertNames st = {||} \<or> db_timer (ls_tlsCert st) \<noteq> None \<or>
     rc_timer (ls_tlsRecovery st) \<noteq> None \<or> rc_initial (ls_tlsRecovery st) \<le> 0 \<or> ls_pendingShutdown st"

lemma handleReload_live:
  assumes "\<not> ls_pendingReload st \<Longrightarrow> fresh exec H st"
  shows "reload_done exec H (handleReload exec H now env st)"
proof (cases "ls_pendingReload st")
  case False
  then show ?thesis using assms by (simp add: handleReload_def Let_def reload_done_def fresh_def)
next
  case True
  have "\<not> ls_pendingReload (reload_template env (st\<lparr>ls_frontend := debounce_idle,
      ls_backend := debounce_idle, ls_pendingReload := False\<rparr>))"
    by (simp add: reload_template_def emitEvent_def split: prod.split bool.split)
  then show ?thesis using True by (simp add: handleReload_def Let_def reload_render_done)
qed

lemma reload_done_live: "reload_done exec H st \<Longrightarrow> live exec H st"
  by (auto simp: reload_done_def live_def split: if_splits)

lemma live_fresh: "live exec H st \<Longrightarrow> \<not> ls_pendingReload st \<Longrightarrow> fresh exec H st"
  by (simp add: live_def)

lemma fired_fresh [simp]: "fresh exec H (st\<lparr>ls_vclRecovery := r\<rparr>) = fresh exec H st"
  by (simp add: fresh_def)

lemma on_vcl_recovery_live:
  assumes "live exec H st"
  shows "live exec H (on_vcl_recovery exec H now env st)"
proof -
  let ?st0 = "st\<lparr>ls_vclRecovery := snd (recovery_fired (ls_vclRecovery st))\<rparr>"
  have "reload_done exec H (handleReload exec H now env ?st0)"
    using assms by (intro handleReload_live) (simp add: live_fresh)
  then show ?thesis
    by (auto simp: on_vcl_recovery_def Let_def reload_done_def live_def retry_armed_def fresh_def split: if_splits)
qed

lemma schedule_backend_live [simp]: "live exec H (schedule_backend cf now reason st)"
  by (simp add: live_def schedule_backend_def)

section \<open>The certificates\<close>

definition cert_frame :: "('t, 'h) loop_state \<Rightarrow> ('t, 'h) loop_state \<Rightarrow> bool" where
  "cert_frame st st' \<longleftrightarrow>
     ls_frontend st' = ls_frontend st \<and> ls_backend st' = ls_backend st \<and>
     ls_pendingReload st' = ls_pendingReload st \<and> ls_templateChanged st' = ls_templateChanged st \<and>
     ls_pendingReasons st' = ls_pendingReasons st \<and> ls_templateSwapped st' = ls_templateSwapped st \<and>
     ls_vclRecovery st' = ls_vclRecovery st \<and> ls_latestTLS st' = ls_latestTLS st \<and>
     ls_removedGen st' = ls_removedGen st \<and> ls_liveGen st' = ls_liveGen st \<and>
     ls_inputs st' = ls_inputs st \<and> ls_lastVCLHash st' = ls_lastVCLHash st \<and> ls_rend st' = ls_rend st \<and>
     ls_redactor st' = ls_redactor st \<and> ls_bcast st' = ls_bcast st \<and> ls_active_vcl st' = ls_active_vcl st \<and>
     rc_initial (ls_tlsRecovery st') = rc_initial (ls_tlsRecovery st) \<and>
     (ls_pendingShutdown st \<longrightarrow> ls_pendingShutdown st')"

lemma cert_frame_step:
  "cert_frame st st' \<Longrightarrow> cert_frame st (emitEvent e st')"
  "cert_frame st st' \<Longrightarrow> cert_frame st (st'\<lparr>ls_pendingCertNames := names\<rparr>)"
  "cert_frame st st' \<Longrightarrow> cert_frame st (st'\<lparr>ls_pendingShutdown := True\<rparr>)"
  "cert_frame st st' \<Longrightarrow> cert_frame st (st'\<lparr>ls_tlsCert := tc\<rparr>)"
  "cert_frame st st' \<Longrightarrow> rc_initial rc = rc_initial (ls_tlsRecovery st') \<Longrightarrow> cert_frame st (st'\<lparr>ls_tlsRecovery := rc\<rparr>)"
  by (simp_all add: cert_frame_def emitEvent_def)

lemma cert_frame_refl [simp]: "cert_frame st st"
  by (simp add: cert_frame_def)

lemma cert_loop_frame:
  "cert_frame st st1 \<Longrightarrow> cert_loop ans names failed st1 = (res, st2) \<Longrightarrow> cert_frame st st2"
  by (induction ans names failed st1 rule: cert_loop.induct)
    (auto simp: Let_def intro: cert_frame_step split: cert_answer.splits)

text \<open>Exactly the names that were loaded leave the pending set.\<close>

lemma emitEvent_pending [simp]:
  "ls_pendingCertNames (emitEvent e st) = ls_pendingCertNames st"
  "ls_pendingShutdown (emitEvent e st) = ls_pendingShutdown st"
  by (simp_all add: emitEvent_def)

lemma cert_loop_None: "cert_loop ans names failed st = (None, st') \<Longrightarrow> ls_pendingShutdown st'"
  by (induction ans names failed st rule: cert_loop.induct) (auto simp: Let_def split: cert_answer.splits)

lemma cert_loop_Some:
  "cert_loop ans names failed st = (Some f, st') \<Longrightarrow>
   (f \<longleftrightarrow> failed \<or> (\<exists>n\<in>set names. ans n = CertFailed)) \<and>
   ls_pendingCertNames st' = ls_pendingCertNames st |-| fset_of_list (filter (\<lambda>n. ans n = CertLoaded) names) \<and>
   (\<forall>n\<in>set names. ans n \<noteq> CertSignalled)"
proof (induction ans names failed st rule: cert_loop.induct)
  case (1 ans failed st)
  then show ?case by simp
next
  case (2 ans name names failed st)
  then show ?case by (cases "ans name") (auto simp: Let_def)
qed

lemma handleCertReload_frame: "cert_frame st (handleCertReload now order ans st)"
proof -
  let ?st1 = "st\<lparr>ls_tlsCert := debounce_reset (ls_tlsCert st)\<rparr>"
  obtain res st2 where c: "cert_loop ans order False ?st1 = (res, st2)" by (metis surj_pair)
  have f1: "cert_frame st ?st1" by (intro cert_frame_step cert_frame_refl)
  then have "cert_frame st st2" using cert_loop_frame c by blast
  then show ?thesis using c f1
    by (auto simp: handleCertReload_def Let_def intro: cert_frame_step split: option.split bool.split)
qed

definition certs_done :: "('t, 'h) loop_state \<Rightarrow> bool" where
  "certs_done st \<longleftrightarrow> ls_pendingCertNames st = {||} \<or> rc_timer (ls_tlsRecovery st) \<noteq> None \<or>
     rc_initial (ls_tlsRecovery st) \<le> 0 \<or> ls_pendingShutdown st"

lemma handleCertReload_done:
  assumes "fset_of_list order = ls_pendingCertNames st"
  shows "certs_done (handleCertReload now order ans st)"
proof -
  let ?st1 = "st\<lparr>ls_tlsCert := debounce_idle\<rparr>"
  obtain res st2 where c: "cert_loop ans order False ?st1 = (res, st2)" by (metis surj_pair)
  show ?thesis
  proof (cases res)
    case None
    then show ?thesis using c cert_loop_None [of ans order False ?st1 st2]
      by (simp add: handleCertReload_def Let_def certs_done_def)
  next
    case (Some f)
    note S = cert_loop_Some [OF c [unfolded Some]]
    show ?thesis
    proof (cases f)
      case True
      then show ?thesis using c Some
        by (cases "rc_initial (ls_tlsRecovery st2) \<le> 0") (auto simp: handleCertReload_def Let_def certs_done_def)
    next
      case False
      then have "\<forall>n\<in>set order. ans n = CertLoaded" using S by (metis cert_answer.exhaust)
      then have "filter (\<lambda>n. ans n = CertLoaded) order = order" by simp
      then have "ls_pendingCertNames st2 = {||}" using S assms by simp
      then show ?thesis using c Some False by (simp add: handleCertReload_def Let_def certs_done_def)
    qed
  qed
qed

lemma on_tls_recovery_live:
  assumes "fset_of_list order = ls_pendingCertNames st"
  shows "certs_live (on_tls_recovery now order ans st)"
  using handleCertReload_done [of order "st\<lparr>ls_tlsRecovery := snd (recovery_fired (ls_tlsRecovery st))\<rparr>" now ans] assms
  by (auto simp: on_tls_recovery_def Let_def certs_done_def certs_live_def)

lemma on_tls_recovery_frame: "cert_frame st (on_tls_recovery now order ans st)"
proof -
  let ?st0 = "st\<lparr>ls_tlsRecovery := snd (recovery_fired (ls_tlsRecovery st))\<rparr>"
  have "cert_frame ?st0 (handleCertReload now order ans ?st0)" by (rule handleCertReload_frame)
  then have "cert_frame st (handleCertReload now order ans ?st0)" by (simp add: cert_frame_def)
  then show ?thesis by (auto simp: on_tls_recovery_def Let_def intro: cert_frame_step)
qed

section \<open>Generations and redaction\<close>

text \<open>A live generation is above every removed one of its name, and its backend is present.\<close>

definition gens_ok :: "('t, 'h) loop_state \<Rightarrow> bool" where
  "gens_ok st \<longleftrightarrow> (\<forall>n g. fmlookup (ls_liveGen st) n = Some g \<longrightarrow>
     ts_gen (removed_gen (ls_removedGen st) n) < g \<and> fmlookup (in_Backends (ls_inputs st)) n \<noteq> None)"

text \<open>Every secret leaf the templates can read and every private key the loop holds is a target.\<close>

definition redaction_ok :: "('t, 'h) loop_state \<Rightarrow> bool" where
  "redaction_ok st \<longleftrightarrow> (\<forall>rd. ls_redactor st = Some rd \<longrightarrow>
     redactor_ok rd \<and>
     rd_secrets rd = concat (map (\<lambda>m. collectLeafStrings (GMap m)) (fmvalues (in_Secrets (ls_inputs st)))) \<and>
     (\<forall>n d. fmlookup (ls_latestTLS st) n = Some d \<longrightarrow> tls_Key d \<noteq> [] \<longrightarrow>
        fmlookup (rd_static rd) (tlsRedactKey n) =
          Some (filter (\<lambda>v. length v \<ge> minSecretLen) (KeyMaterialValues [tls_Key d]))))"

definition bcast_ok :: "('t, 'h) loop_state \<Rightarrow> bool" where
  "bcast_ok st \<longleftrightarrow> (\<forall>eps. ls_bcast st = Some eps \<longrightarrow> eps = in_Frontends (ls_inputs st))"

lemma gens_ok_cong:
  "ls_liveGen st' = ls_liveGen st \<Longrightarrow> ls_removedGen st' = ls_removedGen st \<Longrightarrow>
   in_Backends (ls_inputs st') = in_Backends (ls_inputs st) \<Longrightarrow> gens_ok st' = gens_ok st"
  by (simp add: gens_ok_def)

lemma gens_ok_backend:
  assumes "gens_ok st"
  shows "gens_ok (on_backend cf now bc st)"
proof (cases "backend_dropped bc st")
  case True
  then show ?thesis using assms by (simp add: on_backend_def)
next
  case False
  show ?thesis
  proof (cases "bc_removed bc")
    case True
    then have "gens_ok (backend_remove now bc st)" using assms
      by (auto simp: gens_ok_def backend_remove_def Let_def removed_gen_def)
    then show ?thesis using False True
      by (simp add: on_backend_def Let_def schedule_backend_def gens_ok_def)
  next
    case add: False
    then have "gens_ok (backend_apply bc st)" using assms False
      by (auto simp: gens_ok_def backend_apply_def backend_dropped_def)
    then show ?thesis using False add
      by (simp add: on_backend_def Let_def schedule_backend_def gens_ok_def)
  qed
qed

lemma removed_gen_sweep: "ts_gen (removed_gen (sweepExpiredTombstones now ttl m) n) \<le> ts_gen (removed_gen m n)"
  by (simp add: sweepExpiredTombstones_def removed_gen_def)

lemma gens_ok_sweep: "gens_ok st \<Longrightarrow> gens_ok (on_sweep cf now st)"
  using removed_gen_sweep [of now "cf_backendTombstoneTTL cf" "ls_removedGen st"]
  by (auto simp: gens_ok_def on_sweep_def intro: le_less_trans)

lemma redaction_ok_cong:
  "ls_redactor st' = ls_redactor st \<Longrightarrow> in_Secrets (ls_inputs st') = in_Secrets (ls_inputs st) \<Longrightarrow>
   ls_latestTLS st' = ls_latestTLS st \<Longrightarrow> redaction_ok st' = redaction_ok st"
  by (simp add: redaction_ok_def)

lemma tlsRedactKey_inj [simp]: "tlsRedactKey a = tlsRedactKey b \<longleftrightarrow> a = b"
  by (simp add: tlsRedactKey_def)

lemma redaction_ok_secrets: "redaction_ok st \<Longrightarrow> redaction_ok (on_secrets cf now name data st)"
  by (auto simp: redaction_ok_def on_secrets_def Let_def schedule_backend_def redactor_ok_Update)
    (simp_all add: redactor_Update_def rebuildLocked_def)

lemma redaction_ok_tls: "redaction_ok st \<Longrightarrow> redaction_ok (on_tls cf now name data st)"
  by (auto simp: redaction_ok_def on_tls_def Let_def redactor_ok_SetStatic split: if_splits)
    (auto simp: SetStaticValues_def rebuildLocked_def Let_def)

section \<open>The invariant of the loop\<close>

definition loop_inv :: "('t \<Rightarrow> template_data \<Rightarrow> string option) \<Rightarrow> (string \<Rightarrow> 'h) \<Rightarrow> ('t, 'h) loop_state \<Rightarrow> bool" where
  "loop_inv exec H st \<longleftrightarrow> swap_hash_ok H st \<and> live exec H st \<and> certs_live st \<and> gens_ok st \<and>
     redaction_ok st \<and> bcast_ok st"


lemma handleReload_inv:
  assumes "loop_inv exec H st" and "\<not> ls_pendingShutdown st"
  shows "loop_inv exec H (handleReload exec H now env st)"
proof -
  have "live exec H st" using assms by (simp add: loop_inv_def)
  then have D: "reload_done exec H (handleReload exec H now env st)"
    by (intro handleReload_live) (rule live_fresh)
  have "certs_live (handleReload exec H now env st)"
    using assms handleReload_frame [of st exec H now env] unfolding reload_frame_def
    by (auto simp: loop_inv_def certs_live_def)
  then show ?thesis
    using assms handleReload_swap [of H st exec now env] reload_done_live [OF D]
      handleReload_frame [of st exec H now env]
    unfolding reload_frame_def
    by (simp add: loop_inv_def gens_ok_def redaction_ok_def bcast_ok_def)
qed

lemma vclRecovery_irrelevant [simp]:
  "swap_hash_ok H (st\<lparr>ls_vclRecovery := r\<rparr>) = swap_hash_ok H st"
  "certs_live (st\<lparr>ls_vclRecovery := r\<rparr>) = certs_live st"
  "gens_ok (st\<lparr>ls_vclRecovery := r\<rparr>) = gens_ok st"
  "redaction_ok (st\<lparr>ls_vclRecovery := r\<rparr>) = redaction_ok st"
  "bcast_ok (st\<lparr>ls_vclRecovery := r\<rparr>) = bcast_ok st"
  by (simp_all add: swap_hash_ok_def certs_live_def gens_ok_def redaction_ok_def bcast_ok_def)

lemma on_vcl_recovery_inv:
  assumes "loop_inv exec H st" and "\<not> ls_pendingShutdown st"
  shows "loop_inv exec H (on_vcl_recovery exec H now env st)"
proof -
  let ?st0 = "st\<lparr>ls_vclRecovery := snd (recovery_fired (ls_vclRecovery st))\<rparr>"
  let ?st1 = "handleReload exec H now env ?st0"
  obtain r where r: "on_vcl_recovery exec H now env st = ?st1\<lparr>ls_vclRecovery := r\<rparr>"
  proof
    show "on_vcl_recovery exec H now env st = ?st1\<lparr>ls_vclRecovery := if rc_timer (ls_vclRecovery ?st1) = None
      then (ls_vclRecovery ?st1)\<lparr>rc_delay := 0\<rparr> else ls_vclRecovery ?st1\<rparr>"
      by (cases "rc_timer (ls_vclRecovery ?st1) = None") (auto simp: on_vcl_recovery_def Let_def)
  qed
  have L: "live exec H (on_vcl_recovery exec H now env st)"
    using assms on_vcl_recovery_live by (auto simp: loop_inv_def)
  have f: "reload_frame ?st0 ?st1" by (rule handleReload_frame)
  have "swap_hash_ok H ?st1" using assms by (intro handleReload_swap) (simp add: loop_inv_def)
  moreover have "certs_live ?st1" using assms f unfolding reload_frame_def by (auto simp: loop_inv_def certs_live_def)
  moreover have "gens_ok ?st1 \<and> redaction_ok ?st1 \<and> bcast_ok ?st1"
    using assms f unfolding reload_frame_def by (simp add: loop_inv_def gens_ok_def redaction_ok_def bcast_ok_def)
  ultimately show ?thesis using L unfolding r by (simp add: loop_inv_def)
qed

lemma cert_frame_inv:
  assumes "cert_frame st st'" and "loop_inv exec H st" and "certs_live st'"
  shows "loop_inv exec H st'"
  using assms
  by (auto simp: loop_inv_def cert_frame_def swap_hash_ok_def live_def fresh_def retry_armed_def gens_ok_def
      redaction_ok_def bcast_ok_def split: if_splits)

lemma loop_handle_inv:
  assumes "loop_inv exec H st" and "\<not> ls_pendingShutdown st" and "loop_enabled cf now ev st"
  shows "loop_inv exec H (loop_handle exec H cf now ev st)"
proof (cases ev)
  case (BackendEv bc)
  have g: "gens_ok (on_backend cf now bc st)" using assms(1) gens_ok_backend by (auto simp: loop_inv_def)
  have "swap_hash_ok H (on_backend cf now bc st) \<and> certs_live (on_backend cf now bc st) \<and>
      redaction_ok (on_backend cf now bc st) \<and> bcast_ok (on_backend cf now bc st)"
    using assms(1)
    by (simp add: loop_inv_def on_backend_def Let_def schedule_backend_def backend_remove_def backend_apply_def
        swap_hash_ok_def certs_live_def redaction_ok_def bcast_ok_def)
  moreover have "live exec H (on_backend cf now bc st)"
    using assms(1) by (simp add: on_backend_def Let_def loop_inv_def)
  ultimately show ?thesis using g BackendEv by (simp add: loop_inv_def)
next
  case (SecretsEv name data)
  have "redaction_ok (on_secrets cf now name data st)" using assms(1) redaction_ok_secrets by (auto simp: loop_inv_def)
  then show ?thesis using assms(1) SecretsEv
    by (simp add: loop_inv_def on_secrets_def Let_def)
      (simp add: schedule_backend_def swap_hash_ok_def certs_live_def gens_ok_def bcast_ok_def)
next
  case (TLSEv name data)
  have "redaction_ok (on_tls cf now name data st)" using assms(1) redaction_ok_tls by (auto simp: loop_inv_def)
  moreover have "loop_inv exec H st \<Longrightarrow> swap_hash_ok H (on_tls cf now name data st) \<and> live exec H (on_tls cf now name data st) \<and>
      certs_live (on_tls cf now name data st) \<and> gens_ok (on_tls cf now name data st) \<and> bcast_ok (on_tls cf now name data st)"
    by (cases "tls_Key data = []")
      (auto simp: on_tls_def Let_def loop_inv_def swap_hash_ok_def certs_live_def gens_ok_def bcast_ok_def live_def fresh_def retry_armed_def)
  ultimately show ?thesis using assms(1) TLSEv by (simp add: loop_inv_def)
next
  case Template
  then show ?thesis using assms(1)
    by (simp add: loop_inv_def on_template_def)
      (simp add: schedule_backend_def emitEvent_def swap_hash_ok_def certs_live_def gens_ok_def bcast_ok_def redaction_ok_def)
next
  case (FrontendEv eps)
  then show ?thesis using assms(1)
    by (auto simp: loop_inv_def on_frontend_def Let_def live_def swap_hash_ok_def certs_live_def gens_ok_def
        bcast_ok_def redaction_ok_def)
next
  case (ValuesEv name data)
  then show ?thesis using assms(1)
    by (simp add: loop_inv_def on_values_def)
      (simp add: schedule_backend_def swap_hash_ok_def certs_live_def gens_ok_def bcast_ok_def redaction_ok_def)
next
  case TombstoneSweep
  then show ?thesis using assms(1) gens_ok_sweep [of st cf now]
    by (simp add: loop_inv_def)
      (simp add: on_sweep_def swap_hash_ok_def live_def fresh_def retry_armed_def certs_live_def redaction_ok_def bcast_ok_def)
next
  case (NCSAEv r)
  then show ?thesis using assms(1)
    by (simp add: loop_inv_def emitEvent_def swap_hash_ok_def live_def fresh_def retry_armed_def certs_live_def
        gens_ok_def redaction_ok_def bcast_ok_def)
next
  case (TLSTimer order ans)
  then show ?thesis
    using assms handleCertReload_done [of order st now ans]
    by (auto intro!: cert_frame_inv [OF handleCertReload_frame] simp: certs_done_def certs_live_def)
next
  case (TLSRecoveryTimer order ans)
  then show ?thesis
    using assms by (auto intro!: cert_frame_inv [OF on_tls_recovery_frame] on_tls_recovery_live)
qed (use assms handleReload_inv on_vcl_recovery_inv in auto)

lemma loop_reach_inv:
  assumes "loop_reach exec H cf st0 now0 st now" and "loop_inv exec H st0"
  shows "loop_inv exec H st"
  using assms by (induction rule: loop_reach.induct) (auto intro: loop_handle_inv)

lemma initial_redactor_ok:
  "redactor_ok (initial_redactor inp tls) \<and>
   rd_secrets (initial_redactor inp tls) =
     concat (map (\<lambda>m. collectLeafStrings (GMap m)) (fmvalues (in_Secrets inp)))"
proof -
  have "redactor_ok rd \<Longrightarrow>
      redactor_ok (fold (\<lambda>(n, d). SetStaticValues (tlsRedactKey n) (KeyMaterialValues [tls_Key d])) tls rd) \<and>
      rd_secrets (fold (\<lambda>(n, d). SetStaticValues (tlsRedactKey n) (KeyMaterialValues [tls_Key d])) tls rd) = rd_secrets rd"
    for rd
    by (induction tls arbitrary: rd)
      (auto simp: redactor_ok_SetStatic, simp add: SetStaticValues_def rebuildLocked_def Let_def)
  from this [of "redactor_Update (in_Secrets inp) NewRedactor"] show ?thesis
    by (simp add: initial_redactor_def redactor_ok_Update redactor_ok_New)
      (simp add: redactor_Update_def rebuildLocked_def)
qed

lemma loop_init_inv:
  assumes "rendered exec inp r = Some vcl" and "r_prev r = None"
  shows "loop_inv exec H (loop_init H inp tls r vcl bcast)"
  using assms initial_redactor_ok [of inp tls]
  by (simp add: loop_init_def loop_inv_def swap_hash_ok_def renderer_swapped_def live_def fresh_def
      certs_live_def gens_ok_def redaction_ok_def bcast_ok_def Let_def)

text \<open>The states the controller reaches from a successful start.\<close>

lemma reachable_inv:
  assumes "loop_reach exec H cf (loop_init H inp tls r vcl bcast) now0 st now"
    and "rendered exec inp r = Some vcl" and "r_prev r = None"
  shows "loop_inv exec H st"
  by (rule loop_reach_inv [OF assms(1) loop_init_inv [OF assms(2,3)]])

lemma loop_reach_initial:
  assumes "loop_reach exec H cf st0 now0 st now"
  shows "rc_initial (ls_vclRecovery st) = rc_initial (ls_vclRecovery st0) \<and>
    rc_initial (ls_tlsRecovery st) = rc_initial (ls_tlsRecovery st0)"
  using assms
proof (induction rule: loop_reach.induct)
  case (iterate st now now' ev)
  have "rc_initial (ls_vclRecovery (loop_handle exec H cf now' ev st)) = rc_initial (ls_vclRecovery st) \<and>
    rc_initial (ls_tlsRecovery (loop_handle exec H cf now' ev st)) = rc_initial (ls_tlsRecovery st)"
    using handleReload_frame [of st exec H now'] handleReload_frame
        [of "st\<lparr>ls_vclRecovery := snd (recovery_fired (ls_vclRecovery st))\<rparr>" exec H now']
      handleCertReload_frame [of st now'] on_tls_recovery_frame [of st now']
    unfolding reload_frame_def cert_frame_def
    by (cases ev) (simp_all add: on_template_def schedule_backend_def on_frontend_def Let_def on_backend_def
        backend_remove_def backend_apply_def on_values_def on_secrets_def on_tls_def on_sweep_def
        on_vcl_recovery_def emitEvent_def)
  then show ?case using iterate by simp
qed simp

end
