(* ===== verification/LoopProps.thy ===== *)
theory LoopProps
  imports LoopInvariant
begin

text \<open>
  What the event loop guarantees: convergence of discovered backends over reordered updates, the
  properties of every reachable state, and the policy of a reload (what is kept, rolled back,
  retried). A small concrete loop at the end shows that their hypotheses hold.
\<close>
section \<open>Generations\<close>

text \<open>
  What should be left of a name after a list of updates, whatever their order: nothing when the
  newest incarnation was removed, else the last state its newest incarnation reported.
\<close>

definition group_of :: "backendChange \<Rightarrow> backend_group" where
  "group_of bc = \<lparr>bg_Endpoints = bc_endpoints bc, bg_Labels = bc_labels bc, bg_Annotations = bc_annotations bc\<rparr>"

definition newest_gen :: "backendChange list \<Rightarrow> nat" where
  "newest_gen bs = fold max (map bc_gen bs) 0"

definition newest :: "backendChange list \<Rightarrow> backendChange list" where
  "newest bs = filter (\<lambda>b. bc_gen b = newest_gen bs) bs"

definition backend_winner :: "backendChange list \<Rightarrow> backend_group option" where
  "backend_winner bs =
     (if bs = [] \<or> (\<exists>b\<in>set (newest bs). bc_removed b) then None else Some (group_of (last (newest bs))))"

definition of_name :: "string \<Rightarrow> backendChange list \<Rightarrow> backendChange list" where
  "of_name n bs = filter (\<lambda>b. bc_name b = n) bs"

definition backend_run :: "loop_config \<Rightarrow> (int \<times> backendChange) list \<Rightarrow> ('t, 'h) loop_state \<Rightarrow> ('t, 'h) loop_state" where
  "backend_run cf evs st = fold (\<lambda>(now, bc). on_backend cf now bc) evs st"

lemma newest_gen_Nil [simp]: "newest_gen [] = 0"
  by (simp add: newest_gen_def)

lemma newest_gen_snoc [simp]: "newest_gen (bs @ [b]) = max (newest_gen bs) (bc_gen b)"
  by (simp add: newest_gen_def max.commute)

lemma newest_gen_ge: "b \<in> set bs \<Longrightarrow> bc_gen b \<le> newest_gen bs"
  by (induction bs rule: rev_induct) (auto intro: max.coboundedI1)

lemma newest_snoc:
  "newest (bs @ [b]) = (if bc_gen b < newest_gen bs then newest bs
     else if bc_gen b = newest_gen bs then newest bs @ [b] else [b])"
  using newest_gen_ge [of _ bs] by (force simp: newest_def max_def filter_empty_conv)

lemma newest_nonempty: "bs \<noteq> [] \<Longrightarrow> newest bs \<noteq> []"
proof (induction bs rule: rev_induct)
  case (snoc b bs)
  then show ?case using newest_snoc [of "[]" b] by (cases "bs = []") (auto simp: newest_snoc)
qed simp

text \<open>What the three maps hold for a name after its updates \<open>bs\<close>.\<close>

definition gens_track :: "string \<Rightarrow> backendChange list \<Rightarrow> ('t, 'h) loop_state \<Rightarrow> bool" where
  "gens_track n bs st \<longleftrightarrow>
     fmlookup (in_Backends (ls_inputs st)) n = backend_winner bs \<and>
     (if backend_winner bs = None
      then fmlookup (ls_liveGen st) n = None \<and> ts_gen (removed_gen (ls_removedGen st) n) = newest_gen bs
      else fmlookup (ls_liveGen st) n = Some (newest_gen bs) \<and> ts_gen (removed_gen (ls_removedGen st) n) < newest_gen bs)"

lemma backend_dropped_simp:
  "bc_gen bc \<noteq> 0 \<Longrightarrow> backend_dropped bc st \<longleftrightarrow> bc_gen bc < live_gen (ls_liveGen st) (bc_name bc) \<or>
     (\<not> bc_removed bc \<and> bc_gen bc \<le> ts_gen (removed_gen (ls_removedGen st) (bc_name bc)))"
  by (auto simp: backend_dropped_def)

lemma gens_track_other: "bc_name bc \<noteq> n \<Longrightarrow> gens_track n bs (on_backend cf now bc st) = gens_track n bs st"
  by (simp add: gens_track_def on_backend_def Let_def schedule_backend_def backend_remove_def backend_apply_def
      removed_gen_def)

lemma on_backend_lookup:
  "fmlookup (in_Backends (ls_inputs (on_backend cf now bc st))) (bc_name bc) =
     (if backend_dropped bc st then fmlookup (in_Backends (ls_inputs st)) (bc_name bc)
      else if bc_removed bc then None else Some (group_of bc))"
  "fmlookup (ls_liveGen (on_backend cf now bc st)) (bc_name bc) =
     (if backend_dropped bc st then fmlookup (ls_liveGen st) (bc_name bc)
      else if bc_removed bc then None else if bc_gen bc \<noteq> 0 then Some (bc_gen bc)
      else fmlookup (ls_liveGen st) (bc_name bc))"
  "ts_gen (removed_gen (ls_removedGen (on_backend cf now bc st)) (bc_name bc)) =
     (if \<not> backend_dropped bc st \<and> bc_removed bc
      then max (bc_gen bc) (ts_gen (removed_gen (ls_removedGen st) (bc_name bc)))
      else ts_gen (removed_gen (ls_removedGen st) (bc_name bc)))"
  by (simp_all add: on_backend_def Let_def schedule_backend_def backend_remove_def backend_apply_def
      group_of_def removed_gen_def max_def)

lemma gens_track_step:
  assumes "gens_track (bc_name bc) bs st" and "bc_gen bc \<noteq> 0"
  shows "gens_track (bc_name bc) (bs @ [bc]) (on_backend cf now bc st)"
proof -
  let ?g = "newest_gen bs"
  have ne: "bs \<noteq> [] \<Longrightarrow> newest bs \<noteq> []" by (rule newest_nonempty)
  have nil: "bs = [] \<Longrightarrow> newest bs = [] \<and> ?g = 0" by (simp add: newest_def newest_gen_def)
  show ?thesis
  proof (cases "backend_winner bs = None")
    case True
    then have st: "fmlookup (in_Backends (ls_inputs st)) (bc_name bc) = None"
      "live_gen (ls_liveGen st) (bc_name bc) = 0" "fmlookup (ls_liveGen st) (bc_name bc) = None"
      "ts_gen (removed_gen (ls_removedGen st) (bc_name bc)) = ?g"
      using assms(1) by (simp_all add: gens_track_def live_gen_def)
    have d: "backend_dropped bc st \<longleftrightarrow> \<not> bc_removed bc \<and> bc_gen bc \<le> ?g"
      using assms(2) st by (simp add: backend_dropped_simp)
    have w: "backend_winner (bs @ [bc]) = (if bc_removed bc \<or> bc_gen bc \<le> ?g then None else Some (group_of bc))"
      using True nil assms(2) by (auto simp: backend_winner_def newest_snoc split: if_splits)
    show ?thesis using st d w by (auto simp: gens_track_def on_backend_lookup)
  next
    case False
    then have st: "fmlookup (in_Backends (ls_inputs st)) (bc_name bc) = Some (group_of (last (newest bs)))"
      "live_gen (ls_liveGen st) (bc_name bc) = ?g" "fmlookup (ls_liveGen st) (bc_name bc) = Some ?g"
      "ts_gen (removed_gen (ls_removedGen st) (bc_name bc)) < ?g"
      using assms(1) by (auto simp: gens_track_def live_gen_def backend_winner_def split: if_splits)
    have d: "backend_dropped bc st \<longleftrightarrow> bc_gen bc < ?g"
      using assms(2) st by (auto simp: backend_dropped_simp)
    have w: "backend_winner (bs @ [bc]) = (if bc_gen bc < ?g then backend_winner bs
        else if bc_removed bc then None else Some (group_of bc))"
      using False by (auto simp: backend_winner_def newest_snoc split: if_splits)
    show ?thesis using st d w False assms(1)
      by (auto simp: gens_track_def on_backend_lookup max_def split: if_splits)
  qed
qed

lemma backend_run_track:
  assumes "\<forall>e\<in>set evs. bc_name (snd e) = n \<longrightarrow> bc_gen (snd e) \<noteq> 0" and "gens_track n [] st"
  shows "gens_track n (of_name n (map snd evs)) (backend_run cf evs st)"
  using assms(1)
proof (induction evs rule: rev_induct)
  case Nil
  then show ?case using assms(2) by (simp add: of_name_def backend_run_def)
next
  case (snoc e evs)
  obtain now bc where e: "e = (now, bc)" by (cases e)
  have IH: "gens_track n (of_name n (map snd evs)) (backend_run cf evs st)" using snoc by simp
  show ?case
  proof (cases "bc_name bc = n")
    case True
    then show ?thesis using gens_track_step [of bc "of_name n (map snd evs)" "backend_run cf evs st" cf now]
        IH snoc.prems e by (simp add: of_name_def backend_run_def)
  next
    case False
    then show ?thesis using IH e
      by (simp add: of_name_def backend_run_def gens_track_other [OF False])
  qed
qed

text \<open>
  C8: Whatever the order in which the updates of the incarnations of a discovered backend arrive
  (adds and removals of older and newer generations through independent channels, with updates
  of other names in between), the loop ends with the last state that the newest incarnation
  reported, and with no backend when the newest incarnation was removed, early or late.
\<close>

theorem backend_generations_converge:
  assumes "\<forall>e\<in>set evs. bc_name (snd e) = n \<longrightarrow> bc_gen (snd e) \<noteq> 0"
    and "fmlookup (ls_liveGen st) n = None" and "fmlookup (ls_removedGen st) n = None"
    and "fmlookup (in_Backends (ls_inputs st)) n = None"
  shows "fmlookup (in_Backends (ls_inputs (backend_run cf evs st))) n = backend_winner (of_name n (map snd evs))"
proof -
  have "gens_track n [] st" using assms by (simp add: gens_track_def backend_winner_def removed_gen_def)
  from backend_run_track [OF assms(1) this] show ?thesis by (simp add: gens_track_def)
qed

text \<open>A concrete loop state and the updates of a backend handed from generation 1 to 2.\<close>

definition sample_inputs :: inputs where
  "sample_inputs = \<lparr>in_Frontends = None, in_Backends = fmempty, in_Values = fmempty, in_Secrets = fmempty\<rparr>"

definition sample_exec :: "nat \<Rightarrow> template_data \<Rightarrow> string option" where
  "sample_exec t td = Some ((if t = 7 then ''A'' else ''B'') @ concat (map Host (elems (td_Frontends td))))"

definition sample_state :: "(nat, string) loop_state" where
  "sample_state = loop_init id sample_inputs [] (new_renderer 7) ''A'' True"

definition sample_cf :: loop_config where
  "sample_cf = \<lparr>cf_frontendDebounce = 5, cf_frontendDebounceMax = 0, cf_backendDebounce = 5,
     cf_backendDebounceMax = 0, cf_tlsCertDebounce = 5, cf_tlsCertDebounceMax = 0, cf_backendTombstoneTTL = 0\<rparr>"

definition sample_change :: "nat \<Rightarrow> endpoint slice \<Rightarrow> backendChange" where
  "sample_change g eps = \<lparr>bc_name = ''b'', bc_endpoints = eps, bc_labels = fmempty,
     bc_annotations = fmempty, bc_removed = (eps = None), bc_gen = g\<rparr>"

theorem backend_generations_converge_witness:
  "fmlookup (in_Backends (ls_inputs (backend_run sample_cf
      [(1, sample_change 1 (Some [])), (2, sample_change 2 (Some [])), (3, sample_change 1 None)] sample_state))) ''b'' =
   Some (group_of (sample_change 2 (Some [])))"
proof -
  have "backend_winner [sample_change 1 (Some []), sample_change 2 (Some []), sample_change 1 None] =
      Some (group_of (sample_change 2 (Some [])))"
    by (simp add: backend_winner_def newest_def newest_gen_def sample_change_def)
  moreover have "of_name ''b'' (map snd [(1::int, sample_change 1 (Some [])), (2, sample_change 2 (Some [])), (3, sample_change 1 None)])
      = [sample_change 1 (Some []), sample_change 2 (Some []), sample_change 1 None]"
    by (simp add: of_name_def sample_change_def)
  ultimately show ?thesis
    using backend_generations_converge [of "[(1, sample_change 1 (Some [])), (2, sample_change 2 (Some [])), (3, sample_change 1 None)]"
        "''b''" sample_state sample_cf]
    by (simp add: sample_change_def sample_state_def loop_init_def sample_inputs_def Let_def)
qed

section \<open>Properties of the loop\<close>

text \<open>
  C5: In every state the loop reaches, when no reload is pending, what varnishd runs is the
  rendering of the latest inputs with the active template, up to the hash the controller compares
  (or those inputs do not render); and the recorded hash always is that of the active VCL.
\<close>

theorem loop_converged:
  assumes "loop_reach exec H cf (loop_init H inp tls r vcl bcast) now0 st now"
    and "rendered exec inp r = Some vcl" and "r_prev r = None"
    and "\<not> ls_pendingReload st" and "rendered exec (ls_inputs st) (ls_rend st) = Some v"
  shows "H v = H (ls_active_vcl st) \<and> ls_lastVCLHash st = H (ls_active_vcl st)"
  using reachable_inv [OF assms(1-3)] assms(4,5) by (simp add: loop_inv_def live_def fresh_def swap_hash_ok_def)

text \<open>
  C6: No reload and no certificate is lost: in every state the loop reaches and continues from,
  a pending reload has a debounce timer or the recovery timer armed, and so do pending
  certificates; the retry delay is never disabled.
\<close>

theorem loop_never_stuck:
  assumes "loop_reach exec H cf (loop_init H inp tls r vcl bcast) now0 st now"
    and "rendered exec inp r = Some vcl" and "r_prev r = None" and "\<not> ls_pendingShutdown st"
  shows "(ls_pendingReload st \<longrightarrow> db_timer (ls_frontend st) \<noteq> None \<or> db_timer (ls_backend st) \<noteq> None \<or>
       recovery_channel (ls_vclRecovery st) \<noteq> None) \<and>
     (ls_pendingCertNames st \<noteq> {||} \<longrightarrow> db_timer (ls_tlsCert st) \<noteq> None \<or>
       recovery_channel (ls_tlsRecovery st) \<noteq> None)"
  using reachable_inv [OF assms(1-3)] assms(4) loop_reach_initial [OF assms(1)]
  by (auto simp: loop_inv_def live_def certs_live_def retry_armed_def recovery_channel_def loop_init_def Let_def)



section \<open>The policy of a reload\<close>

lemma rollbackReload_proven:
  "rollbackReload exec H env st = (ok, st') \<Longrightarrow>
   r_tmpl (ls_rend st') = r_tmpl (ls_rend st) \<and> renderer_proven (ls_rend st') = renderer_proven (ls_rend st)"
proof -
  assume rb: "rollbackReload exec H env st = (ok, st')"
  obtain v r where R: "Render exec (ls_inputs st) (ls_rend st) = (v, r)" by (metis surj_pair)
  then have "ls_rend st' = r"
    using rb by (auto simp: rollbackReload_def emitEvent_def split: option.splits if_splits)
  then show ?thesis using R Render_keeps(1) [OF R] by simp
qed

lemma recover_proven:
  "recoverSwappedTemplate env st = (ok, st') \<Longrightarrow> renderer_proven (ls_rend st') = renderer_proven (ls_rend st)"
  using rs.reload_cases [of "env_reparsed env" "ls_rend st"]
  by (auto simp: recoverSwappedTemplate_def split: prod.splits)

lemma reload_template_proven: "renderer_proven (ls_rend (reload_template env st)) = renderer_proven (ls_rend st)"
  using rs.reload_cases [of "env_parsed env" "ls_rend st"]
  by (auto simp: reload_template_def emitEvent_def split: prod.splits bool.splits)

lemma rolled_back_rend [simp]: "ls_rend (rolled_back e st) = renderer_Rollback (ls_rend st)"
  by (simp add: rolled_back_def emitEvent_def)

lemma loop_rend_prims [simp]:
  "ls_rend (emitEvent e st) = ls_rend st" "ls_rend (markRetry now st) = ls_rend st"
  "ls_rend (clearPending st) = ls_rend st"
  by (simp_all add: emitEvent_def markRetry_def clearPending_def)

lemma reload_rejected_proven:
  "renderer_proven (ls_rend (reload_rejected exec H now env rej st)) = renderer_proven (ls_rend st)"
proof -
  obtain ok st3 where rb: "rollbackReload exec H env (rolled_back ''VCLReloadFailed'' st) = (ok, st3)"
    by (metis surj_pair)
  show ?thesis using rb rollbackReload_proven [OF rb]
    by (simp add: reload_rejected_eq rs.rollback_proven split: bool.split)
qed

lemma reload_render_failed_proven:
  "renderer_proven (ls_rend (reload_render_failed exec H now env st)) = renderer_proven (ls_rend st)"
proof -
  obtain ok st3 where rb: "rollbackReload exec H env (rolled_back ''VCLRenderFailed'' st) = (ok, st3)"
    by (metis surj_pair)
  obtain ok' st4 where rc: "recoverSwappedTemplate env st3 = (ok', st4)" by (metis surj_pair)
  show ?thesis using rb rc rollbackReload_proven [OF rb] recover_proven [OF rc]
    by (simp add: reload_render_failed_eq rs.rollback_proven split: bool.split)
qed

lemma reload_render_proven:
  "renderer_proven (ls_rend (reload_render exec H now env st)) = renderer_proven (ls_rend st) \<or>
   (renderer_proven (ls_rend (reload_render exec H now env st)) = r_tmpl (ls_rend st) \<and>
    r_tmpl (ls_rend (reload_render exec H now env st)) = r_tmpl (ls_rend st) \<and>
    ls_inputs (reload_render exec H now env st) = ls_inputs st \<and>
    (\<exists>v. rendered exec (ls_inputs st) (ls_rend (reload_render exec H now env st)) = Some v \<and>
       H v = ls_lastVCLHash (reload_render exec H now env st)))"
proof -
  obtain v r where R: "Render exec (ls_inputs st) (ls_rend st) = (v, r)" by (metis surj_pair)
  show ?thesis
  proof (cases "\<exists>s. v = Some s \<and> (H s = ls_lastVCLHash st \<or> env_temp_ok env \<and> env_reload env = Applied)")
    case True
    then show ?thesis using R Render_fst [OF R] Render_keeps(1) [OF R]
      by (auto simp: reload_render_def Let_def rs.commit_proven rs.commit_active) (auto simp: emitEvent_def clearPending_def)
  next
    case False
    then show ?thesis using R
      by (cases v; cases "env_reload env")
        (auto simp: reload_render_def Let_def reload_rejected_proven reload_render_failed_proven)
  qed
qed

text \<open>
  The template a rollback returns to changes only when a reload proved it: then it is the
  active template, and the hash of its rendering of the current inputs is the hash of the VCL
  that varnishd runs.
\<close>

theorem baseline_only_proven:
  "renderer_proven (ls_rend (handleReload exec H now env st)) = renderer_proven (ls_rend st) \<or>
   (renderer_proven (ls_rend (handleReload exec H now env st)) = r_tmpl (ls_rend (handleReload exec H now env st)) \<and>
    (\<exists>v. rendered exec (ls_inputs (handleReload exec H now env st)) (ls_rend (handleReload exec H now env st)) = Some v \<and>
      H v = ls_lastVCLHash (handleReload exec H now env st)))"
  using reload_render_proven [of exec H now env "reload_template env (st\<lparr>ls_frontend := debounce_idle,
      ls_backend := debounce_idle, ls_pendingReload := False\<rparr>)"] handleReload_frame [of st exec H now env]
    reload_template_frame [of "st\<lparr>ls_frontend := debounce_idle,
      ls_backend := debounce_idle, ls_pendingReload := False\<rparr>" env "st\<lparr>ls_frontend := debounce_idle,
      ls_backend := debounce_idle, ls_pendingReload := False\<rparr>"]
  unfolding reload_frame_def
  by (auto simp: handleReload_def Let_def reload_template_proven)

text \<open>The state in which \<open>handleReload\<close> renders.\<close>

definition reload_start :: "'t reload_env \<Rightarrow> ('t, 'h) loop_state \<Rightarrow> ('t, 'h) loop_state" where
  "reload_start env st = reload_template env (st\<lparr>ls_frontend := debounce_reset (ls_frontend st),
     ls_backend := debounce_reset (ls_backend st), ls_pendingReload := False\<rparr>)"

lemma handleReload_pending: "ls_pendingReload st \<Longrightarrow> handleReload exec H now env st = reload_render exec H now env (reload_start env st)"
  by (simp add: handleReload_def Let_def reload_start_def)

text \<open>
  C24: A transient failure never costs the operator's template: unless the new template does not
  render, or varnishd rejected what it rendered, the template that was active (or was just
  parsed) when the reload started is active after it, and the reload is retried if it did not
  take effect.
\<close>

theorem transient_failure_keeps_template:
  assumes "ls_pendingReload st"
    and "rendered exec (ls_inputs (reload_start env st)) (ls_rend (reload_start env st)) \<noteq> None"
    and "env_reload env \<noteq> Failed True"
  shows "r_tmpl (ls_rend (handleReload exec H now env st)) = r_tmpl (ls_rend (reload_start env st)) \<and>
    (\<not> env_temp_ok env \<or> env_reload env \<noteq> Applied \<longrightarrow>
       ls_pendingReload (handleReload exec H now env st) \<or>
       ls_lastVCLHash (handleReload exec H now env st) = ls_lastVCLHash (reload_start env st))"
proof -
  let ?s = "reload_start env st"
  obtain v r where R: "Render exec (ls_inputs ?s) (ls_rend ?s) = (v, r)" by (metis surj_pair)
  obtain s where v: "v = Some s" using assms(2) Render_fst [OF R] by auto
  have keep: "r_tmpl r = r_tmpl (ls_rend ?s)" using Render_keeps(1) [OF R] .
  show ?thesis
    using R v keep assms(3) unfolding handleReload_pending [OF assms(1)]
    by (cases "env_reload env")
      (auto simp: reload_render_def Let_def rs.commit_active reload_rejected_eq,
       auto simp: clearPending_def markRetry_def emitEvent_def)
qed

text \<open>
  C23: A template that varnishd rejects is rolled back: when the proven template renders the
  current inputs and varnishd takes the result, the proven template is active again, varnishd runs
  its rendering of the current inputs, no reload stays pending and the retry backoff is reset.
\<close>

theorem rejected_template_rolled_back:
  assumes "ls_pendingReload st" and "ls_templateSwapped (reload_start env st)"
    and "rendered exec (ls_inputs st) (ls_rend (reload_start env st)) = Some bad" and "H bad \<noteq> ls_lastVCLHash st"
    and "env_temp_ok env" and "env_reload env = Failed True"
    and "rendered exec (ls_inputs st) (renderer_Rollback (ls_rend (reload_start env st))) = Some good"
    and "env_rb_temp_ok env" and "env_rb_reload_ok env"
  shows "let st' = handleReload exec H now env st in
    r_tmpl (ls_rend st') = renderer_proven (ls_rend st) \<and> \<not> ls_templateSwapped st' \<and>
    ls_active_vcl st' = good \<and> ls_lastVCLHash st' = H good \<and> \<not> ls_pendingReload st' \<and>
    ls_pendingReasons st' = [] \<and> recovery_channel (ls_vclRecovery st') = None \<and> rc_delay (ls_vclRecovery st') = 0"
proof -
  let ?s = "reload_start env st"
  have s: "ls_inputs ?s = ls_inputs st" "ls_lastVCLHash ?s = ls_lastVCLHash st" "\<not> ls_pendingReload ?s"
    "renderer_proven (ls_rend ?s) = renderer_proven (ls_rend st)"
    by (simp_all add: reload_start_def reload_template_proven)
      (simp_all add: reload_template_def emitEvent_def split: prod.split bool.split)
  obtain r where R: "Render exec (ls_inputs ?s) (ls_rend ?s) = (Some bad, r)"
    using assms(3) s(1) by (cases "Render exec (ls_inputs ?s) (ls_rend ?s)") (simp add: rendered_def)
  let ?rb = "rolled_back ''VCLReloadFailed'' (?s\<lparr>ls_rend := r\<rparr>)"
  have "rendered exec (ls_inputs st) (renderer_Rollback r) =
      rendered exec (ls_inputs st) (renderer_Rollback (ls_rend ?s))"
    using Render_keeps [OF R]
    by (intro rendered_cong) (auto simp: renderer_Rollback_def split: option.split)
  moreover have rb: "ls_inputs ?rb = ls_inputs st" "ls_rend ?rb = renderer_Rollback r"
    by (simp_all add: s) (simp add: rolled_back_def emitEvent_def s)
  ultimately obtain r' where R': "Render exec (ls_inputs ?rb) (ls_rend ?rb) = (Some good, r')"
    using assms(7) by (cases "Render exec (ls_inputs ?rb) (ls_rend ?rb)") (simp add: rendered_def)
  have t: "r_tmpl r' = renderer_proven (ls_rend st)"
    using Render_keeps(1) [OF R'] Render_swapped(2) [OF R] s(4) rb by (simp add: rs.rollback_active)
  have "rollbackReload exec H env ?rb = (True, emitEvent ''VCLReloaded''
      (?rb\<lparr>ls_rend := r', ls_lastVCLHash := H good, ls_active_vcl := good\<rparr>))"
    using R' assms(8,9) by (simp add: rollbackReload_def)
  then have "handleReload exec H now env st = clearPending (emitEvent ''VCLReloaded''
      (?rb\<lparr>ls_rend := r', ls_lastVCLHash := H good, ls_active_vcl := good\<rparr>))"
    using R s assms unfolding handleReload_pending [OF assms(1)]
    by (simp add: reload_render_def Let_def reload_rejected_eq)
  then show ?thesis using t s(3)
    by (simp add: Let_def) (simp add: clearPending_def emitEvent_def rolled_back_def recovery_channel_def)
qed

lemma cert_loop_shutdown:
  "cert_loop ans names failed st = (Some f, st') \<Longrightarrow>
   ls_pendingShutdown st' = ls_pendingShutdown st \<and> ls_tlsCert st' = ls_tlsCert st"
  by (induction ans names failed st rule: cert_loop.induct)
    (auto simp: Let_def emitEvent_def split: cert_answer.splits)

lemma cert_loop_total:
  assumes "\<forall>n\<in>set names. ans n \<noteq> CertSignalled"
  obtains st' where "cert_loop ans names failed st = (Some (failed \<or> (\<exists>n\<in>set names. ans n = CertFailed)), st')"
proof -
  obtain res st' where c: "cert_loop ans names failed st = (res, st')" by (metis surj_pair)
  have "\<exists>f st'. cert_loop ans names failed st = (Some f, st')" using assms
    by (induction ans names failed st rule: cert_loop.induct) (auto simp: Let_def split: cert_answer.splits)
  then obtain f where "res = Some f" using c by auto
  then show ?thesis using that c cert_loop_Some [of ans names failed st f st'] by auto
qed

lemma pending_split:
  assumes "fset_of_list order = P" and "\<forall>n\<in>set order. ans n \<noteq> CertSignalled"
  shows "P |-| fset_of_list (filter (\<lambda>n. ans n = CertLoaded) order) = ffilter (\<lambda>n. ans n = CertFailed) P"
proof (rule fset_eqI)
  fix n
  have "n |\<in>| P \<Longrightarrow> ans n = CertFailed \<longleftrightarrow> ans n \<noteq> CertLoaded"
    using assms by (cases "ans n") (auto simp: fset_of_list_elem)
  then show "n |\<in>| P |-| fset_of_list (filter (\<lambda>n. ans n = CertLoaded) order) \<longleftrightarrow> n |\<in>| ffilter (\<lambda>n. ans n = CertFailed) P"
    using assms(1) by (auto simp: fset_of_list_elem)
qed

text \<open>
  TLS certificates and VCL are independent: a certificate reload changes nothing of the VCL's
  state; without a shutdown signal exactly the certificates that failed stay pending, and the
  retry is armed when some failed, and cleared otherwise.
\<close>

theorem cert_reload_exact:
  assumes "fset_of_list order = ls_pendingCertNames st" and "ls_pendingCertNames st \<noteq> {||}"
    and "\<forall>n\<in>set order. ans n \<noteq> CertSignalled" and "rc_initial (ls_tlsRecovery st) > 0"
  shows "let st' = handleCertReload now order ans st in
    ls_pendingCertNames st' = ffilter (\<lambda>n. ans n = CertFailed) (ls_pendingCertNames st) \<and>
    (recovery_channel (ls_tlsRecovery st') \<noteq> None \<longleftrightarrow> ls_pendingCertNames st' \<noteq> {||}) \<and>
    db_timer (ls_tlsCert st') = None \<and> ls_pendingShutdown st' = ls_pendingShutdown st \<and>
    ls_pendingReload st' = ls_pendingReload st \<and> ls_rend st' = ls_rend st \<and>
    ls_lastVCLHash st' = ls_lastVCLHash st \<and> ls_vclRecovery st' = ls_vclRecovery st"
proof -
  let ?st1 = "st\<lparr>ls_tlsCert := debounce_idle\<rparr>" and ?f = "\<exists>n\<in>set order. ans n = CertFailed"
  obtain st2 where c: "cert_loop ans order False ?st1 = (Some ?f, st2)"
    using cert_loop_total [OF assms(3), of False ?st1] by auto
  have f: "cert_frame ?st1 st2" using cert_loop_frame [OF cert_frame_refl c] .
  have P: "ls_pendingCertNames st2 = ffilter (\<lambda>n. ans n = CertFailed) (ls_pendingCertNames st)"
    using cert_loop_Some [OF c] pending_split [OF assms(1,3)] by simp
  have "?f \<longleftrightarrow> ffilter (\<lambda>n. ans n = CertFailed) (ls_pendingCertNames st) \<noteq> {||}"
    unfolding assms(1) [symmetric] by (auto simp: fset_of_list_elem fset_eq_iff)
  then show ?thesis
    using c f P assms(2,4) cert_loop_shutdown [OF c] unfolding cert_frame_def
    by (cases ?f) (simp_all add: handleCertReload_def Let_def recovery_channel_def debounce_idle_def recovery_arm_def)
qed

section \<open>The properties at a concrete loop\<close>

text \<open>A frontend update and the reload it triggers, with a varnishd that takes the result.\<close>

definition good_env :: "nat reload_env" where
  "good_env = \<lparr>env_parsed = Some 8, env_temp_ok = True, env_reload = Applied,
     env_rb_temp_ok = True, env_rb_reload_ok = True, env_reparsed = None\<rparr>"

definition bad_env :: "nat reload_env" where
  "bad_env = good_env\<lparr>env_reload := Failed True\<rparr>"

definition sample_ep :: endpoint where
  "sample_ep = \<lparr>Host = ''h'', Port = 80, Name = ''p'', Zone = [], NodeName = [], ForZones = []\<rparr>"

definition sample_pending :: "(nat, string) loop_state" where
  "sample_pending = loop_handle sample_exec id sample_cf 1 (FrontendEv (Some [sample_ep])) sample_state"

definition sample_done :: "(nat, string) loop_state" where
  "sample_done = loop_handle sample_exec id sample_cf 7 (FrontendTimer good_env) sample_pending"

lemma sample_rendered: "rendered sample_exec inp (new_renderer t) = Some ((if t = 7 then ''A'' else ''B'') @ concat (map Host (elems (in_Frontends inp))))"
  by (simp add: rendered_def Render_def new_renderer_def sample_exec_def template_data_of_def)

lemma sample_state_rend: "ls_rend sample_state = new_renderer 7" "\<not> ls_pendingShutdown sample_state"
  by (simp_all add: sample_state_def loop_init_def Let_def)

lemma sample_start: "rendered sample_exec sample_inputs (new_renderer 7) = Some ''A''"
  "r_prev (new_renderer 7) = None"
  by (simp_all add: sample_rendered sample_inputs_def) (simp_all add: new_renderer_def)

lemma sample_reach_pending: "loop_reach sample_exec id sample_cf sample_state 0 sample_pending 1"
  unfolding sample_pending_def
  by (rule loop_reach.iterate [OF loop_reach.start]) (simp_all add: sample_state_rend)

lemma sample_pending_facts: "ls_pendingReload sample_pending" "\<not> ls_pendingShutdown sample_pending"
  "db_timer (ls_frontend sample_pending) = Some 6"
  "in_Frontends (ls_inputs sample_pending) = Some [sample_ep]" "ls_rend sample_pending = new_renderer 7"
  "ls_lastVCLHash sample_pending = ''A''" "\<not> ls_templateChanged sample_pending" "\<not> ls_templateSwapped sample_pending"
  by (simp_all add: sample_pending_def on_frontend_def Let_def sample_state_def loop_init_def sample_cf_def
      resetDebounce_def debounce_idle_def sample_inputs_def)


lemma sample_reload: "reload_start env sample_pending = sample_pending\<lparr>ls_frontend := debounce_idle,
    ls_backend := debounce_idle, ls_pendingReload := False, ls_templateChanged := False\<rparr>"
  by (simp add: reload_start_def reload_template_def sample_pending_facts)

lemma sample_pending_rendered:
  "rendered sample_exec (ls_inputs sample_pending) (new_renderer t) = Some ((if t = 7 then ''A'' else ''B'') @ ''h'')"
  by (simp add: sample_rendered sample_pending_facts sample_ep_def)

lemma sample_reach_done: "loop_reach sample_exec id sample_cf sample_state 0 sample_done 7"
  unfolding sample_done_def
  by (rule loop_reach.iterate [OF sample_reach_pending]) (simp_all add: sample_pending_facts due_def)

lemma sample_done_facts: "\<not> ls_pendingReload sample_done" "ls_active_vcl sample_done = ''Ah''"
  "rendered sample_exec (ls_inputs sample_done) (ls_rend sample_done) = Some ''Ah''"
proof -
  obtain r where R: "Render sample_exec (ls_inputs sample_pending) (new_renderer 7) = (Some ''Ah'', r)"
    using sample_pending_rendered [of 7]
    by (cases "Render sample_exec (ls_inputs sample_pending) (new_renderer 7)") (simp add: rendered_def)
  have D: "sample_done = clearPending (emitEvent ''VCLReloaded'' (sample_pending\<lparr>ls_frontend := debounce_idle,
      ls_backend := debounce_idle, ls_pendingReload := False, ls_templateChanged := False,
      ls_lastVCLHash := ''Ah'', ls_active_vcl := ''Ah'',
      ls_templateSwapped := False, ls_rend := renderer_Commit r\<rparr>))"
    using R sample_pending_facts
    by (simp add: sample_done_def handleReload_pending sample_reload reload_render_def Let_def good_env_def)
  show "\<not> ls_pendingReload sample_done" "ls_active_vcl sample_done = ''Ah''"
    "rendered sample_exec (ls_inputs sample_done) (ls_rend sample_done) = Some ''Ah''"
    using Render_fst [OF R] rendered_Render [OF R, of "ls_inputs sample_pending"] unfolding D
    by (simp_all add: clearPending_def emitEvent_def)
qed

theorem loop_converged_witness: "ls_active_vcl sample_done = ''Ah'' \<and> ls_lastVCLHash sample_done = ''Ah''"
  using loop_converged [OF sample_reach_done [unfolded sample_state_def] sample_start(1,2) sample_done_facts(1,3)]
  by simp

theorem loop_never_stuck_witness:
  "ls_pendingReload sample_pending \<and> (\<exists>t. db_timer (ls_frontend sample_pending) = Some t \<or>
     db_timer (ls_backend sample_pending) = Some t \<or> recovery_channel (ls_vclRecovery sample_pending) = Some t)"
  using loop_never_stuck [OF sample_reach_pending [unfolded sample_state_def] sample_start(1,2) sample_pending_facts(2)]
    sample_pending_facts(1) by auto

definition sample_secret :: "(nat, string) loop_state" where
  "sample_secret = loop_handle sample_exec id sample_cf 1 (SecretsEv ''db'' [(''pw'', GStr ''hunter22'')]) sample_state"


theorem transient_failure_keeps_template_witness:
  "r_tmpl (ls_rend (handleReload sample_exec id 7 (good_env\<lparr>env_reload := Failed False\<rparr>) sample_pending)) = 7"
  using transient_failure_keeps_template [OF sample_pending_facts(1), of sample_exec "good_env\<lparr>env_reload := Failed False\<rparr>" id 7]
  by (simp add: sample_reload sample_pending_facts sample_pending_rendered) (simp add: new_renderer_def)

definition sample_swapped :: "(nat, string) loop_state" where
  "sample_swapped = sample_pending\<lparr>ls_templateChanged := True\<rparr>"

theorem rejected_template_rolled_back_witness:
  "ls_active_vcl (handleReload sample_exec id 7 bad_env sample_swapped) = ''Ah'' \<and>
   r_tmpl (ls_rend (handleReload sample_exec id 7 bad_env sample_swapped)) = 7"
proof -
  have s: "reload_start bad_env sample_swapped = sample_pending\<lparr>ls_frontend := debounce_idle,
      ls_backend := debounce_idle, ls_pendingReload := False, ls_templateChanged := False,
      ls_rend := (new_renderer 7)\<lparr>r_prev := Some 7, r_tmpl := 8\<rparr>, ls_templateSwapped := True\<rparr>"
    by (simp add: reload_start_def reload_template_def sample_swapped_def bad_env_def good_env_def
        renderer_Reload_def sample_pending_facts Let_def) (simp add: new_renderer_def)
  have bad: "rendered sample_exec (ls_inputs sample_pending) ((new_renderer 7)\<lparr>r_prev := Some 7, r_tmpl := 8\<rparr>) = Some ''Bh''"
    using sample_pending_rendered [of 8]
      rendered_cong [of "(new_renderer 7)\<lparr>r_prev := Some 7, r_tmpl := 8\<rparr>" "new_renderer 8" sample_exec]
    by (simp add: new_renderer_def)
  have good: "renderer_Rollback ((new_renderer (7::nat))\<lparr>r_prev := Some 7, r_tmpl := 8\<rparr>) = new_renderer 7"
    by (simp add: renderer_Rollback_def new_renderer_def)
  have "renderer_proven (ls_rend sample_swapped) = 7"
    by (simp add: sample_swapped_def sample_pending_facts renderer_proven_def new_renderer_def)
  then show ?thesis
    using rejected_template_rolled_back [of sample_swapped bad_env sample_exec "''Bh''" id "''Ah''" 7] s bad good
      sample_pending_rendered [of 7] sample_pending_facts
    by (simp add: sample_swapped_def bad_env_def good_env_def Let_def)
qed

theorem cert_reload_exact_witness:
  "ls_pendingCertNames (handleCertReload 9 [''a'', ''b''] (\<lambda>n. if n = ''a'' then CertLoaded else CertFailed)
     (sample_state\<lparr>ls_pendingCertNames := {|''a'', ''b''|}\<rparr>)) = {|''b''|}"
proof -
  have "ffilter (\<lambda>n. (if n = ''a'' then CertLoaded else CertFailed) = CertFailed) {|''a'', ''b''|} = {|''b''|}"
    by (auto simp: fset_eq_iff)
  then show ?thesis
    using cert_reload_exact [of "[''a'', ''b'']" "sample_state\<lparr>ls_pendingCertNames := {|''a'', ''b''|}\<rparr>"
        "\<lambda>n. if n = ''a'' then CertLoaded else CertFailed" 9]
    by (simp add: sample_state_def loop_init_def Let_def)
qed

end
