(* ===== verification/BackendWatcher.thy ===== *)
theory BackendWatcher
  imports Endpoints
begin

text \<open>
  The watcher of one backend Service (\<open>internal/watcher/backend_watcher.go\<close>,
  \<open>annotation_filter.go\<close>): it serves the endpoints of a child EndpointSlice watcher, or the host
  of an ExternalName Service itself, paired with the labels and the filtered annotations of the
  Service. A nil label map and an empty one are the same value here, as they are for
  \<open>maps.Equal\<close> and in every snapshot. A child is identified by a number that no earlier child of
  this watcher had (the pointer compared by \<open>sendFromChild\<close>).
\<close>

section \<open>Annotation filter\<close>

definition cut_suffix_star :: "string \<Rightarrow> string \<times> bool" where
  "cut_suffix_star p = (if p \<noteq> [] \<and> last p = CHR ''*'' then (butlast p, True) else (p, False))"

fun split_patterns :: "string list \<Rightarrow> string list \<times> string list" where
  "split_patterns [] = ([], [])"
| "split_patterns (p # ps) =
     (let (exact, prefixes) = split_patterns ps
      in case cut_suffix_star p of
           (pre, True) \<Rightarrow> (exact, pre # prefixes)
         | (_, False) \<Rightarrow> (p # exact, prefixes))"

definition BuildAnnotationFilter :: "string list \<Rightarrow> (string \<Rightarrow> bool) option" where
  "BuildAnnotationFilter patterns =
     (if patterns = [] then None
      else (let (exact, prefixes) = split_patterns patterns
            in Some (\<lambda>key. if key \<in> set exact then True else list_ex (\<lambda>p. prefix p key) prefixes)))"

definition filterAnnotations :: "strmap \<Rightarrow> (string \<Rightarrow> bool) option \<Rightarrow> strmap" where
  "filterAnnotations annotations exclude =
     (case exclude of None \<Rightarrow> annotations | Some ex \<Rightarrow> fmfilter (\<lambda>k. \<not> ex k) annotations)"

text \<open>What a pattern excludes: a key, or with a trailing star every key with the prefix.\<close>

definition excludes :: "string \<Rightarrow> string \<Rightarrow> bool" where
  "excludes pat key \<longleftrightarrow> (if pat \<noteq> [] \<and> last pat = CHR ''*'' then prefix (butlast pat) key else key = pat)"

lemma split_patterns_excludes:
  "key \<in> set (fst (split_patterns ps)) \<or> list_ex (\<lambda>p. prefix p key) (snd (split_patterns ps)) \<longleftrightarrow>
   (\<exists>p\<in>set ps. excludes p key)"
proof (induction ps)
  case (Cons p ps)
  obtain e pr where sp: "split_patterns ps = (e, pr)" by (metis surj_pair)
  show ?case
  proof (cases "p \<noteq> [] \<and> last p = CHR ''*''")
    case True
    then have "excludes p key \<longleftrightarrow> prefix (butlast p) key" by (simp add: excludes_def)
    moreover have "split_patterns (p # ps) = (e, butlast p # pr)" using True sp by (simp add: cut_suffix_star_def)
    ultimately show ?thesis using Cons sp by (simp add: disj_assoc [symmetric] disj_commute)
  next
    case False
    then have "excludes p key \<longleftrightarrow> key = p" by (auto simp: excludes_def)
    moreover have "split_patterns (p # ps) = (p # e, pr)" using False sp by (simp add: cut_suffix_star_def)
    ultimately show ?thesis using Cons sp by (simp add: disj_assoc [symmetric])
  qed
qed simp

section \<open>The Service and the watcher\<close>

record k8s_service =
  svc_Namespace :: string
  svc_Name :: string
  svc_Labels :: strmap
  svc_Annotations :: strmap
  svc_isExternalName :: bool
  svc_ExternalName :: string

record BackendState =
  bs_Endpoints :: "endpoint slice"
  bs_Labels :: strmap
  bs_Annotations :: strmap

record backend_watcher =
  bw_portOverride :: string
  bw_exclude :: "(string \<Rightarrow> bool) option"
  bw_previous :: "endpoint slice"
  bw_labels :: strmap
  bw_annotations :: strmap
  bw_synced :: bool
  bw_serviceNotFound :: bool
  bw_child :: "nat option"
  bw_nextChild :: nat
  bw_ch :: "BackendState list"

definition NewBackendWatcher :: "string \<Rightarrow> (string \<Rightarrow> bool) option \<Rightarrow> backend_watcher" where
  "NewBackendWatcher portOverride exclude =
     \<lparr>bw_portOverride = portOverride, bw_exclude = exclude, bw_previous = None, bw_labels = fmempty,
      bw_annotations = fmempty, bw_synced = False, bw_serviceNotFound = False, bw_child = None,
      bw_nextChild = 0, bw_ch = []\<rparr>"

definition Metadata :: "backend_watcher \<Rightarrow> strmap \<times> strmap" where
  "Metadata bw = (bw_labels bw, bw_annotations bw)"

definition snapshotLocked :: "endpoint slice \<Rightarrow> backend_watcher \<Rightarrow> BackendState" where
  "snapshotLocked eps bw =
     \<lparr>bs_Endpoints = eps, bs_Labels = bw_labels bw, bs_Annotations = bw_annotations bw\<rparr>"

definition resendLocked :: "backend_watcher \<Rightarrow> backend_watcher" where
  "resendLocked bw = bw\<lparr>bw_ch := coalescing_send (bw_ch bw) (snapshotLocked (bw_previous bw) bw)\<rparr>"

definition sendLocked :: "endpoint slice \<Rightarrow> backend_watcher \<Rightarrow> backend_watcher" where
  "sendLocked eps bw =
     (if bw_synced bw \<and> EndpointsEqual eps (bw_previous bw) then bw
      else (let bw1 = bw\<lparr>bw_synced := True, bw_previous := eps\<rparr>
            in bw1\<lparr>bw_ch := coalescing_send (bw_ch bw1) (snapshotLocked eps bw1)\<rparr>))"

definition stopEndpointSliceWatcherLocked :: "backend_watcher \<Rightarrow> backend_watcher" where
  "stopEndpointSliceWatcherLocked bw = bw\<lparr>bw_child := None\<rparr>"

definition startEndpointSliceWatcherLocked :: "backend_watcher \<Rightarrow> backend_watcher" where
  "startEndpointSliceWatcherLocked bw =
     bw\<lparr>bw_child := Some (bw_nextChild bw), bw_nextChild := Suc (bw_nextChild bw)\<rparr>"

text \<open>\<open>resolveExternalPort\<close>; \<open>None\<close> is the error for a named port.\<close>

definition resolveExternalPort :: "backend_watcher \<Rightarrow> int option" where
  "resolveExternalPort bw =
     (if bw_portOverride bw = [] then Some 80 else parse_int 32 (bw_portOverride bw))"

definition external_endpoint :: "string \<Rightarrow> int \<Rightarrow> endpoint" where
  "external_endpoint host port =
     \<lparr>Host = host, Port = port, Name = ''external'', Zone = [], NodeName = [], ForZones = []\<rparr>"

definition sync_missing :: "backend_watcher \<Rightarrow> backend_watcher" where
  "sync_missing bw =
     (let metadataCleared = (bw_labels bw \<noteq> fmempty \<or> bw_annotations bw \<noteq> fmempty);
          bw1 = stopEndpointSliceWatcherLocked
                  (bw\<lparr>bw_serviceNotFound := True, bw_labels := fmempty, bw_annotations := fmempty\<rparr>)
      in if metadataCleared \<and> bw_synced bw1 \<and> EndpointsEqual None (bw_previous bw1)
         then resendLocked bw1 else sendLocked None bw1)"

definition sync_metadata :: "k8s_service \<Rightarrow> backend_watcher \<Rightarrow> backend_watcher" where
  "sync_metadata svc bw =
     (let newLabels = svc_Labels svc;
          labelsChanged = (bw_labels bw \<noteq> newLabels);
          newAnnotations = filterAnnotations (svc_Annotations svc) (bw_exclude bw);
          annotationsChanged = (bw_annotations bw \<noteq> newAnnotations);
          bw1 = bw\<lparr>bw_serviceNotFound := False, bw_labels := newLabels, bw_annotations := newAnnotations\<rparr>
      in if (labelsChanged \<or> annotationsChanged) \<and> bw_synced bw1 then resendLocked bw1 else bw1)"

text \<open>\<open>syncService\<close>; \<open>None\<close> is a lister that does not find the Service (or fails).\<close>

definition syncService :: "k8s_service option \<Rightarrow> backend_watcher \<Rightarrow> backend_watcher" where
  "syncService found bw =
     (case found of
        None \<Rightarrow> sync_missing bw
      | Some svc \<Rightarrow>
          (let bw1 = sync_metadata svc bw
           in if svc_isExternalName svc then
                (let bw2 = stopEndpointSliceWatcherLocked bw1
                 in if svc_ExternalName svc = [] then sendLocked None bw2
                    else (case resolveExternalPort bw2 of
                            None \<Rightarrow> sendLocked None bw2
                          | Some port \<Rightarrow> sendLocked (Some [external_endpoint (svc_ExternalName svc) port]) bw2))
              else if bw_child bw1 = None then startEndpointSliceWatcherLocked bw1 else bw1))"

definition sendFromChild :: "nat \<Rightarrow> endpoint slice \<Rightarrow> backend_watcher \<Rightarrow> backend_watcher" where
  "sendFromChild child eps bw = (if bw_child bw \<noteq> Some child then bw else sendLocked eps bw)"

definition bw_receive :: "backend_watcher \<Rightarrow> backend_watcher" where
  "bw_receive bw = bw\<lparr>bw_ch := chan_drain (bw_ch bw)\<rparr>"

section \<open>What a consumer sees\<close>

datatype bw_op = SyncService "k8s_service option" | ChildUpdate nat "endpoint slice" | TakeState

fun bw_step :: "bw_op \<Rightarrow> backend_watcher \<times> BackendState option \<Rightarrow> backend_watcher \<times> BackendState option" where
  "bw_step (SyncService s) (bw, seen) = (syncService s bw, seen)"
| "bw_step (ChildUpdate c eps) (bw, seen) = (sendFromChild c eps bw, seen)"
| "bw_step TakeState (bw, seen) = (case bw_ch bw of [] \<Rightarrow> (bw, seen) | s # _ \<Rightarrow> (bw_receive bw, Some s))"

definition bw_run :: "bw_op list \<Rightarrow> backend_watcher \<times> BackendState option \<Rightarrow> backend_watcher \<times> BackendState option" where
  "bw_run ops r = fold bw_step ops r"

text \<open>What the consumer holds once it has taken what is still buffered.\<close>

fun bw_view :: "backend_watcher \<times> BackendState option \<Rightarrow> BackendState option" where
  "bw_view (bw, seen) = (case bw_ch bw of [] \<Rightarrow> seen | s # _ \<Rightarrow> Some s)"

text \<open>The view is the snapshot of now, whenever something was published at all.\<close>

fun bw_ok :: "backend_watcher \<times> BackendState option \<Rightarrow> bool" where
  "bw_ok (bw, seen) \<longleftrightarrow> length (bw_ch bw) \<le> 1 \<and>
     (bw_synced bw \<longrightarrow> bw_view (bw, seen) = Some (snapshotLocked (bw_previous bw) bw)) \<and>
     (\<not> bw_synced bw \<longrightarrow> bw_ch bw = [] \<and> seen = None)"

declare bw_view.simps [simp del] bw_ok.simps [simp del]

lemma bw_ok_sendLocked: "bw_ok (bw, seen) \<Longrightarrow> bw_ok (sendLocked eps bw, seen)"
  by (auto simp: bw_ok.simps sendLocked_def Let_def coalescing_send_cap1 bw_view.simps snapshotLocked_def split: if_splits)

text \<open>A resend publishes the snapshot whatever was seen before.\<close>

lemma bw_ok_resendLocked:
  "length (bw_ch bw) \<le> 1 \<Longrightarrow> bw_synced bw \<Longrightarrow> bw_ok (resendLocked bw, seen)"
  by (auto simp: bw_ok.simps resendLocked_def coalescing_send_cap1 bw_view.simps snapshotLocked_def)

lemma bw_ok_frame:
  "bw_ch bw' = bw_ch bw \<Longrightarrow> bw_synced bw' = bw_synced bw \<Longrightarrow> bw_previous bw' = bw_previous bw \<Longrightarrow>
   bw_labels bw' = bw_labels bw \<Longrightarrow> bw_annotations bw' = bw_annotations bw \<Longrightarrow>
   bw_ok (bw', seen) = bw_ok (bw, seen)"
  by (simp add: bw_ok.simps bw_view.simps snapshotLocked_def)

lemma bw_ok_unsynced:
  "bw_ok (bw, seen) \<Longrightarrow> \<not> bw_synced bw \<Longrightarrow> bw_ch bw' = bw_ch bw \<Longrightarrow> \<not> bw_synced bw' \<Longrightarrow> bw_ok (bw', seen)"
  by (simp add: bw_ok.simps)

text \<open>A send that is not deduplicated publishes the snapshot whatever was seen before.\<close>

lemma bw_ok_sendLocked_new:
  "length (bw_ch bw) \<le> 1 \<Longrightarrow> \<not> (bw_synced bw \<and> EndpointsEqual eps (bw_previous bw)) \<Longrightarrow> bw_ok (sendLocked eps bw, seen)"
  by (auto simp: bw_ok.simps sendLocked_def Let_def coalescing_send_cap1 bw_view.simps snapshotLocked_def)

lemma bw_ok_missing:
  assumes "bw_ok (bw, seen)"
  shows "bw_ok (sync_missing bw, seen)"
proof -
  let ?bw1 = "stopEndpointSliceWatcherLocked
                  (bw\<lparr>bw_serviceNotFound := True, bw_labels := fmempty, bw_annotations := fmempty\<rparr>)"
  have f: "bw_ch ?bw1 = bw_ch bw" "bw_synced ?bw1 = bw_synced bw" "bw_previous ?bw1 = bw_previous bw"
    "bw_labels ?bw1 = fmempty" "bw_annotations ?bw1 = fmempty"
    by (simp_all add: stopEndpointSliceWatcherLocked_def)
  have len: "length (bw_ch ?bw1) \<le> 1" using assms f by (simp add: bw_ok.simps)
  show ?thesis
  proof (cases "bw_synced ?bw1 \<and> EndpointsEqual None (bw_previous ?bw1)")
    case False
    then show ?thesis using bw_ok_sendLocked_new [OF len] by (auto simp: sync_missing_def Let_def)
  next
    case True
    show ?thesis
    proof (cases "bw_labels bw \<noteq> fmempty \<or> bw_annotations bw \<noteq> fmempty")
      case True
      then show ?thesis using bw_ok_resendLocked [OF len] \<open>bw_synced ?bw1 \<and> _\<close> by (simp add: sync_missing_def Let_def)
    next
      case False
      then have "bw_ok (?bw1, seen)" using assms f by (simp add: bw_ok_frame [of ?bw1 bw])
      then show ?thesis using bw_ok_sendLocked False by (simp add: sync_missing_def Let_def)
    qed
  qed
qed

lemma bw_ok_metadata:
  assumes "bw_ok (bw, seen)"
  shows "bw_ok (sync_metadata svc bw, seen)"
proof -
  let ?bw1 = "bw\<lparr>bw_serviceNotFound := False, bw_labels := svc_Labels svc,
    bw_annotations := filterAnnotations (svc_Annotations svc) (bw_exclude bw)\<rparr>"
  have len: "length (bw_ch ?bw1) \<le> 1" using assms by (simp add: bw_ok.simps)
  show ?thesis
  proof (cases "bw_synced bw")
    case False
    then show ?thesis using bw_ok_unsynced [OF assms False, of ?bw1] by (simp add: sync_metadata_def Let_def)
  next
    case True
    then have "bw_ok (resendLocked ?bw1, seen)" using bw_ok_resendLocked [OF len] by simp
    moreover have "bw_labels bw = svc_Labels svc \<Longrightarrow> bw_annotations bw = filterAnnotations (svc_Annotations svc) (bw_exclude bw) \<Longrightarrow>
        bw_ok (?bw1, seen)" using assms by (simp add: bw_ok_frame [of ?bw1 bw])
    ultimately show ?thesis using True by (simp add: sync_metadata_def Let_def)
  qed
qed

lemma bw_ok_step: "bw_ok r \<Longrightarrow> bw_ok (bw_step op r)"
proof (cases r)
  case (Pair bw seen)
  assume ok: "bw_ok r"
  show ?thesis
  proof (cases op)
    case (SyncService s)
    show ?thesis
    proof (cases s)
      case None
      then show ?thesis using SyncService Pair ok bw_ok_missing by (simp add: syncService_def)
    next
      case (Some svc)
      let ?bw1 = "sync_metadata svc bw"
      have ok1: "bw_ok (?bw1, seen)" using ok Pair bw_ok_metadata by simp
      then have "bw_ok (stopEndpointSliceWatcherLocked ?bw1, seen)" "bw_ok (startEndpointSliceWatcherLocked ?bw1, seen)"
        by (simp_all add: stopEndpointSliceWatcherLocked_def startEndpointSliceWatcherLocked_def bw_ok.simps bw_view.simps snapshotLocked_def)
      then show ?thesis using SyncService Some Pair ok1
        by (auto simp: syncService_def Let_def intro: bw_ok_sendLocked split: option.split)
    qed
  next
    case (ChildUpdate c eps)
    then show ?thesis using ok Pair bw_ok_sendLocked by (simp add: sendFromChild_def)
  next
    case TakeState
    then show ?thesis using ok Pair
      by (cases "bw_ch bw") (auto simp: bw_ok.simps bw_view.simps bw_receive_def chan_drain_def snapshotLocked_def split: if_splits)
  qed
qed

lemma bw_ok_run: "bw_ok r \<Longrightarrow> bw_ok (bw_run ops r)"
  by (induction ops arbitrary: r) (simp_all add: bw_run_def bw_ok_step)

lemma bw_ok_new: "bw_ok (NewBackendWatcher p ex, None)"
  by (simp add: bw_ok.simps NewBackendWatcher_def)


section \<open>Children\<close>

text \<open>Children are numbered in the order they are started, so a stopped one never comes back.\<close>

definition child_ok :: "backend_watcher \<Rightarrow> bool" where
  "child_ok bw \<longleftrightarrow> (case bw_child bw of None \<Rightarrow> True | Some c \<Rightarrow> c < bw_nextChild bw)"

definition retired :: "nat \<Rightarrow> backend_watcher \<Rightarrow> bool" where
  "retired c bw \<longleftrightarrow> c < bw_nextChild bw \<and> bw_child bw \<noteq> Some c"

lemma child_prims [simp]:
  "bw_child (sendLocked eps bw) = bw_child bw" "bw_nextChild (sendLocked eps bw) = bw_nextChild bw"
  "bw_child (resendLocked bw) = bw_child bw" "bw_nextChild (resendLocked bw) = bw_nextChild bw"
  "bw_child (sync_metadata svc bw) = bw_child bw" "bw_nextChild (sync_metadata svc bw) = bw_nextChild bw"
  "bw_child (sync_missing bw) = None" "bw_nextChild (sync_missing bw) = bw_nextChild bw"
  by (simp_all add: sendLocked_def resendLocked_def sync_metadata_def sync_missing_def Let_def
      stopEndpointSliceWatcherLocked_def)

lemma syncService_child:
  "bw_child (syncService s bw) =
     (case s of None \<Rightarrow> None
      | Some svc \<Rightarrow> if svc_isExternalName svc then None
          else (case bw_child bw of None \<Rightarrow> Some (bw_nextChild bw) | Some c \<Rightarrow> Some c))"
  "bw_nextChild bw \<le> bw_nextChild (syncService s bw)"
  "bw_child bw = None \<Longrightarrow> bw_child (syncService s bw) \<noteq> None \<Longrightarrow> bw_nextChild (syncService s bw) = Suc (bw_nextChild bw)"
  by (auto simp: syncService_def Let_def stopEndpointSliceWatcherLocked_def startEndpointSliceWatcherLocked_def
      split: option.splits if_splits)

lemma retired_step: "retired c (fst r) \<Longrightarrow> retired c (fst (bw_step op r))"
proof (cases r)
  case (Pair bw seen)
  assume "retired c (fst r)"
  then show ?thesis using Pair syncService_child(2) [of bw]
    by (cases op) (auto simp: retired_def syncService_child(1) sendFromChild_def bw_receive_def
        intro: less_le_trans split: option.splits if_splits list.splits)
qed

lemma retired_run: "retired c (fst r) \<Longrightarrow> retired c (fst (bw_run ops r))"
  by (induction ops arbitrary: r) (simp_all add: bw_run_def retired_step)

lemma child_ok_step: "child_ok (fst r) \<Longrightarrow> child_ok (fst (bw_step op r))"
proof (cases r)
  case (Pair bw seen)
  assume "child_ok (fst r)"
  then show ?thesis using Pair syncService_child [where bw = bw]
    by (cases op) (auto simp: child_ok_def sendFromChild_def bw_receive_def
        intro: less_le_trans split: option.splits if_splits list.splits)
qed

lemma child_ok_run: "child_ok (fst r) \<Longrightarrow> child_ok (fst (bw_run ops r))"
  by (induction ops arbitrary: r) (simp_all add: bw_run_def child_ok_step)

lemma child_ok_new: "child_ok (NewBackendWatcher p ex)"
  by (simp add: child_ok_def NewBackendWatcher_def)

section \<open>Properties\<close>

text \<open>
  C33: Whatever the interleaving of Service events, updates of child watchers and reads, a consumer
  that has read everything holds one consistent snapshot: the endpoints last published with the
  labels and annotations of the Service as they are now, never a pair from two observations.
\<close>

theorem backend_snapshot_consistent:
  assumes "bw_synced (fst (bw_run ops (NewBackendWatcher port ex, None)))"
  shows "let (bw, seen) = bw_run ops (NewBackendWatcher port ex, None) in
    bw_view (bw, seen) = Some \<lparr>bs_Endpoints = bw_previous bw, bs_Labels = bw_labels bw, bs_Annotations = bw_annotations bw\<rparr> \<and>
    length (bw_ch bw) \<le> 1"
  using bw_ok_run [OF bw_ok_new, of ops port ex] assms
  by (cases "bw_run ops (NewBackendWatcher port ex, None)") (simp add: bw_ok.simps snapshotLocked_def)

text \<open>
  A child watcher that was stopped (the Service was deleted or became an ExternalName Service)
  can never overwrite newer endpoints: whatever happens afterwards, its late updates are dropped.
\<close>

theorem stale_child_ignored:
  assumes "bw_child (fst (bw_run ops (NewBackendWatcher port ex, None))) = Some c"
    and "case s of None \<Rightarrow> True | Some svc \<Rightarrow> svc_isExternalName svc"
    and "r = bw_run later (bw_step (SyncService s) (bw_run ops (NewBackendWatcher port ex, None)))"
  shows "sendFromChild c eps (fst r) = fst r"
proof -
  let ?r0 = "bw_run ops (NewBackendWatcher port ex, None)"
  have ok: "child_ok (fst ?r0)" by (rule child_ok_run) (simp add: child_ok_new)
  have "retired c (fst (bw_step (SyncService s) ?r0))"
    using ok assms(1,2) syncService_child [where bw = "fst ?r0" and s = s]
    by (cases ?r0) (auto simp: retired_def child_ok_def intro: less_le_trans split: option.splits)
  then have "retired c (fst r)" unfolding assms(3) by (rule retired_run)
  then show ?thesis by (simp add: sendFromChild_def retired_def)
qed

text \<open>
  What a Service event publishes: nothing serves a Service that is missing, an ExternalName
  Service serves its host at the configured port (80 by default) or nothing when the host is empty
  or the port is a name, and any other Service keeps the endpoints and has a child watcher; the
  metadata is that of the event.
\<close>

theorem syncService_spec:
  "elems (bw_previous (syncService s bw)) =
     (case s of None \<Rightarrow> []
      | Some svc \<Rightarrow>
          if svc_isExternalName svc then
            (if svc_ExternalName svc = [] then []
             else (case resolveExternalPort bw of None \<Rightarrow> []
                   | Some port \<Rightarrow> [external_endpoint (svc_ExternalName svc) port]))
          else elems (bw_previous bw)) \<and>
   Metadata (syncService s bw) =
     (case s of None \<Rightarrow> (fmempty, fmempty)
      | Some svc \<Rightarrow> (svc_Labels svc, filterAnnotations (svc_Annotations svc) (bw_exclude bw))) \<and>
   (bw_child (syncService s bw) = None \<longleftrightarrow> (case s of None \<Rightarrow> True | Some svc \<Rightarrow> svc_isExternalName svc))"
proof -
  have send: "elems (bw_previous (sendLocked eps b)) = elems eps" "Metadata (sendLocked eps b) = Metadata b" for eps b
    by (auto simp: sendLocked_def Let_def EndpointsEqual_iff Metadata_def)
  have meta: "bw_previous (sync_metadata svc b) = bw_previous b" "bw_portOverride (sync_metadata svc b) = bw_portOverride b"
    "Metadata (sync_metadata svc b) = (svc_Labels svc, filterAnnotations (svc_Annotations svc) (bw_exclude b))" for svc b
    by (simp_all add: sync_metadata_def resendLocked_def Let_def Metadata_def)
  have miss: "elems (bw_previous (sync_missing b)) = []" "Metadata (sync_missing b) = (fmempty, fmempty)" for b
    by (auto simp: sync_missing_def Let_def send EndpointsEqual_iff)
      (auto simp: resendLocked_def Metadata_def stopEndpointSliceWatcherLocked_def EndpointsEqual_iff)
  have port: "resolveExternalPort (stopEndpointSliceWatcherLocked (sync_metadata svc b)) = resolveExternalPort b" for svc b
    by (simp add: resolveExternalPort_def stopEndpointSliceWatcherLocked_def meta)
  have stop: "Metadata (stopEndpointSliceWatcherLocked b) = Metadata b" "Metadata (startEndpointSliceWatcherLocked b) = Metadata b"
    "bw_previous (startEndpointSliceWatcherLocked b) = bw_previous b" for b
    by (simp_all add: Metadata_def stopEndpointSliceWatcherLocked_def startEndpointSliceWatcherLocked_def)
  have child: "bw_child (stopEndpointSliceWatcherLocked b) = None"
    "bw_child (startEndpointSliceWatcherLocked b) = Some (bw_nextChild b)" for b
    by (simp_all add: stopEndpointSliceWatcherLocked_def startEndpointSliceWatcherLocked_def)
  show ?thesis
    by (cases s) (auto simp: syncService_child(1) syncService_def Let_def send meta miss port stop child split: option.split)
qed

text \<open>
  The annotation filter drops exactly the annotations whose key is an excluded key or starts
  with an excluded prefix, and keeps the others unchanged.
\<close>

theorem annotation_filter_exact:
  "fmlookup (filterAnnotations annotations (BuildAnnotationFilter patterns)) key =
     (if \<exists>p\<in>set patterns. excludes p key then None else fmlookup annotations key)"
proof (cases "patterns = []")
  case True
  then show ?thesis by (simp add: BuildAnnotationFilter_def filterAnnotations_def)
next
  case False
  obtain e pr where sp: "split_patterns patterns = (e, pr)" by (metis surj_pair)
  show ?thesis using False sp split_patterns_excludes [of key patterns]
    by (auto simp: BuildAnnotationFilter_def filterAnnotations_def)
qed


section \<open>The properties at a concrete Service\<close>

definition sample_service :: k8s_service where
  "sample_service = \<lparr>svc_Namespace = ''d'', svc_Name = ''api'', svc_Labels = fmempty, svc_Annotations = fmempty,
     svc_isExternalName = False, svc_ExternalName = []\<rparr>"

definition sample_bw_ops :: "bw_op list" where
  "sample_bw_ops = [SyncService (Some sample_service), ChildUpdate 0 (Some [external_endpoint ''h'' 81])]"

lemma sample_bw_run:
  "fst (bw_run sample_bw_ops (NewBackendWatcher [] None, None)) =
     \<lparr>bw_portOverride = [], bw_exclude = None, bw_previous = Some [external_endpoint ''h'' 81], bw_labels = fmempty,
      bw_annotations = fmempty, bw_synced = True, bw_serviceNotFound = False, bw_child = Some 0, bw_nextChild = 1,
      bw_ch = [\<lparr>bs_Endpoints = Some [external_endpoint ''h'' 81], bs_Labels = fmempty, bs_Annotations = fmempty\<rparr>]\<rparr>"
  by (simp add: sample_bw_ops_def bw_run_def NewBackendWatcher_def syncService_def sync_metadata_def
      filterAnnotations_def sample_service_def startEndpointSliceWatcherLocked_def sendFromChild_def sendLocked_def
      snapshotLocked_def coalescing_send_def chan_drain_def Let_def)

theorem backend_snapshot_consistent_witness:
  "let (bw, seen) = bw_run sample_bw_ops (NewBackendWatcher [] None, None) in
   bw_synced bw \<and> bw_view (bw, seen) =
     Some \<lparr>bs_Endpoints = Some [external_endpoint ''h'' 81], bs_Labels = fmempty, bs_Annotations = fmempty\<rparr>"
  using backend_snapshot_consistent [of sample_bw_ops "[]" None] sample_bw_run
  by (cases "bw_run sample_bw_ops (NewBackendWatcher [] None, None)") simp

theorem stale_child_ignored_witness:
  "sendFromChild 0 (Some []) (fst (bw_run [TakeState] (bw_step (SyncService None)
     (bw_run sample_bw_ops (NewBackendWatcher [] None, None))))) =
   fst (bw_run [TakeState] (bw_step (SyncService None) (bw_run sample_bw_ops (NewBackendWatcher [] None, None))))"
  by (rule stale_child_ignored [OF _ _ refl]) (simp_all add: sample_bw_run)

end
