(* ===== verification/Discovery.thy ===== *)
theory Discovery
  imports BackendWatcher EventLoop
begin

text \<open>
  Backend discovery by label selector (\<open>internal/watcher/discovery_watcher.go\<close>): the registry of
  bare backend names shared by all discovery watchers, the reconcile of one watcher against the
  listed Services, and the updates it sends. The child watchers run on their own
  (\<open>BackendWatcher\<close>); here a managed backend is its entry in the map. Go ranges over the map of
  backends in an unspecified order, which is the argument \<open>order\<close> of the removals. The generation
  counter is a natural number: 64 bits do not wrap in the life of a process.
\<close>

section \<open>The name registry\<close>

text \<open>
  A subscriber is the watcher whose reconcile it kicks; \<open>nr_kicks\<close> holds the watchers with a kick
  in their channel of capacity one.
\<close>

record NameRegistry =
  nr_owners :: "(string, string) fmap"
  nr_subscribers :: "(nat, nat) fmap"
  nr_subSeq :: nat
  nr_kicks :: "nat fset"

definition NewNameRegistry :: NameRegistry where
  "NewNameRegistry = \<lparr>nr_owners = fmempty, nr_subscribers = fmempty, nr_subSeq = 0, nr_kicks = {||}\<rparr>"

definition registry_claim :: "string \<Rightarrow> string \<Rightarrow> NameRegistry \<Rightarrow> bool \<times> NameRegistry" where
  "registry_claim name owner r =
     (case fmlookup (nr_owners r) name of
        Some cur \<Rightarrow> (cur = owner, r)
      | None \<Rightarrow> (True, r\<lparr>nr_owners := fmupd name owner (nr_owners r)\<rparr>))"

definition registry_release :: "string \<Rightarrow> string \<Rightarrow> NameRegistry \<Rightarrow> NameRegistry" where
  "registry_release name owner r =
     (if (case fmlookup (nr_owners r) name of Some cur \<Rightarrow> cur | None \<Rightarrow> []) = owner
      then r\<lparr>nr_owners := fmdrop name (nr_owners r), nr_kicks := nr_kicks r |\<union>| fmran (nr_subscribers r)\<rparr>
      else r)"

definition registry_subscribe :: "nat \<Rightarrow> NameRegistry \<Rightarrow> nat \<times> NameRegistry" where
  "registry_subscribe watcher r =
     (nr_subSeq r, r\<lparr>nr_subSeq := nr_subSeq r + 1, nr_subscribers := fmupd (nr_subSeq r) watcher (nr_subscribers r)\<rparr>)"

definition registry_unsubscribe :: "nat \<Rightarrow> NameRegistry \<Rightarrow> NameRegistry" where
  "registry_unsubscribe sub r = r\<lparr>nr_subscribers := fmdrop sub (nr_subscribers r)\<rparr>"

section \<open>The watcher\<close>

record BackendUpdate =
  bu_Name :: string
  bu_Endpoints :: "endpoint slice"
  bu_Labels :: strmap
  bu_Annotations :: strmap
  bu_Gen :: nat

record managedBackend =
  mb_namespace :: string
  mb_name :: string
  mb_gen :: nat
  mb_forwarding :: bool

record discovery =
  dw_id :: nat
  dw_explicitNames :: "string fset"
  dw_registered :: bool
  dw_backends :: "(string, managedBackend) fmap option"
  dw_initialized :: bool

definition NewBackendDiscoveryWatcher :: "nat \<Rightarrow> string fset \<Rightarrow> bool \<Rightarrow> discovery" where
  "NewBackendDiscoveryWatcher seq explicit registered =
     \<lparr>dw_id = seq, dw_explicitNames = explicit, dw_registered = registered,
      dw_backends = Some fmempty, dw_initialized = False\<rparr>"

definition ownerToken :: "nat \<Rightarrow> string \<Rightarrow> string" where
  "ownerToken wid key = show_nat wid @ ''/'' @ key"

definition svc_key :: "k8s_service \<Rightarrow> string" where
  "svc_key svc = svc_Namespace svc @ ''/'' @ svc_Name svc"

definition nameClaimedLocked :: "string \<Rightarrow> string \<Rightarrow> (string, managedBackend) fmap \<Rightarrow> bool" where
  "nameClaimedLocked name namespace backends \<longleftrightarrow>
     (\<exists>mb\<in>fmran' backends. mb_name mb = name \<and> mb_namespace mb \<noteq> namespace)"

text \<open>What a reconcile works on: the managed backends, the registry, the generation counter and the
  Services the current add pass skipped (\<open>True\<close> when another watcher holds the name).\<close>

record reconcile =
  rc_backends :: "(string, managedBackend) fmap"
  rc_registry :: NameRegistry
  rc_genSeq :: nat
  rc_suppressed :: "(string \<times> bool) list"

definition adopt :: "discovery \<Rightarrow> string \<Rightarrow> k8s_service \<Rightarrow> reconcile \<Rightarrow> reconcile" where
  "adopt dw key svc s =
     (let gen = rc_genSeq s + 1
      in s\<lparr>rc_genSeq := gen, rc_backends := fmupd key
             \<lparr>mb_namespace = svc_Namespace svc, mb_name = svc_Name svc, mb_gen = gen,
              mb_forwarding = dw_initialized dw\<rparr> (rc_backends s)\<rparr>)"

definition add_one :: "discovery \<Rightarrow> (string, k8s_service) fmap \<Rightarrow> string \<Rightarrow> reconcile \<Rightarrow> reconcile" where
  "add_one dw current key s =
     (case fmlookup current key of
        None \<Rightarrow> s
      | Some svc \<Rightarrow>
          if fmlookup (rc_backends s) key \<noteq> None then s
          else if svc_Name svc |\<in>| dw_explicitNames dw then s
          else if nameClaimedLocked (svc_Name svc) (svc_Namespace svc) (rc_backends s)
          then s\<lparr>rc_suppressed := rc_suppressed s @ [(key, False)]\<rparr>
          else if dw_registered dw then
            (case registry_claim (svc_Name svc) (ownerToken (dw_id dw) key) (rc_registry s) of
               (False, _) \<Rightarrow> s\<lparr>rc_suppressed := rc_suppressed s @ [(key, True)]\<rparr>
             | (True, r) \<Rightarrow> adopt dw key svc (s\<lparr>rc_registry := r\<rparr>))
          else adopt dw key svc s)"

definition addPass :: "discovery \<Rightarrow> (string, k8s_service) fmap \<Rightarrow> string list \<Rightarrow> reconcile \<Rightarrow> reconcile" where
  "addPass dw current keys s = fold (add_one dw current) keys (s\<lparr>rc_suppressed := []\<rparr>)"

definition remove_one :: "discovery \<Rightarrow> string \<Rightarrow> managedBackend \<Rightarrow> reconcile \<Rightarrow> reconcile" where
  "remove_one dw key mb s =
     (let s1 = s\<lparr>rc_backends := fmdrop key (rc_backends s)\<rparr>
      in if dw_registered dw
         then s1\<lparr>rc_registry := registry_release (mb_name mb) (ownerToken (dw_id dw) key) (rc_registry s1)\<rparr> else s1)"

fun remove_loop :: "discovery \<Rightarrow> (string, k8s_service) fmap \<Rightarrow> string list \<Rightarrow> reconcile \<Rightarrow>
    reconcile \<times> (string \<times> nat) list" where
  "remove_loop dw current [] s = (s, [])"
| "remove_loop dw current (key # keys) s =
     (case fmlookup (rc_backends s) key of
        None \<Rightarrow> remove_loop dw current keys s
      | Some mb \<Rightarrow>
          if fmlookup current key \<noteq> None then remove_loop dw current keys s
          else (let (s1, removed) = remove_loop dw current keys (remove_one dw key mb s)
                in (s1, (mb_name mb, mb_gen mb) # removed)))"

definition listed :: "k8s_service list \<Rightarrow> (string, k8s_service) fmap" where
  "listed services = fold (\<lambda>svc. fmupd (svc_key svc) svc) services fmempty"

definition removal_update :: "string \<times> nat \<Rightarrow> BackendUpdate" where
  "removal_update r = \<lparr>bu_Name = fst r, bu_Endpoints = None, bu_Labels = fmempty, bu_Annotations = fmempty,
     bu_Gen = snd r\<rparr>"

text \<open>\<open>syncServices\<close>: \<open>None\<close> is a listing that failed. The result carries the removal
  notifications, which are sent after the lock is released.\<close>

definition syncServices :: "k8s_service list option \<Rightarrow> string list \<Rightarrow> NameRegistry \<Rightarrow> nat \<Rightarrow> discovery \<Rightarrow>
    (NameRegistry \<times> nat \<times> discovery) \<times> BackendUpdate list" where
  "syncServices services order reg gen dw =
     (case dw_backends dw of
        None \<Rightarrow> ((reg, gen, dw), [])
      | Some backends \<Rightarrow>
          (case services of
             None \<Rightarrow> ((reg, gen, dw), [])
           | Some svcs \<Rightarrow>
               (let current = listed svcs;
                    keys = sorted_list_of_fset (fmdom current);
                    s0 = \<lparr>rc_backends = backends, rc_registry = reg, rc_genSeq = gen, rc_suppressed = []\<rparr>;
                    s1 = addPass dw current keys s0;
                    (s2, removed) = remove_loop dw current order s1;
                    s3 = (if removed \<noteq> [] then addPass dw current keys s2 else s2)
                in ((rc_registry s3, rc_genSeq s3, dw\<lparr>dw_backends := Some (rc_backends s3)\<rparr>),
                    map removal_update removed))))"

text \<open>\<open>shutdown\<close>: release every claim, in the order the map is ranged over.\<close>

definition release_all :: "discovery \<Rightarrow> (string, managedBackend) fmap \<Rightarrow> string list \<Rightarrow> NameRegistry \<Rightarrow> NameRegistry" where
  "release_all dw backends order reg =
     fold (\<lambda>key r. case fmlookup backends key of None \<Rightarrow> r
        | Some mb \<Rightarrow> if dw_registered dw then registry_release (mb_name mb) (ownerToken (dw_id dw) key) r else r) order reg"

definition discovery_shutdown :: "string list \<Rightarrow> NameRegistry \<Rightarrow> discovery \<Rightarrow> NameRegistry \<times> discovery" where
  "discovery_shutdown order reg dw =
     (case dw_backends dw of None \<Rightarrow> (reg, dw)
      | Some backends \<Rightarrow> (release_all dw backends order reg, dw\<lparr>dw_backends := None\<rparr>))"

text \<open>The end of the initial sync: every managed backend starts to forward.\<close>

definition finish_initial :: "discovery \<Rightarrow> discovery" where
  "finish_initial dw =
     dw\<lparr>dw_backends := map_option (fmmap (\<lambda>mb. mb\<lparr>mb_forwarding := True\<rparr>)) (dw_backends dw), dw_initialized := True\<rparr>"

text \<open>What a forwarding goroutine sends for a state of the child watcher.\<close>

definition forward_update :: "managedBackend \<Rightarrow> BackendState \<Rightarrow> BackendUpdate" where
  "forward_update mb st =
     (let eps = (if bs_Endpoints st = None then Some [] else bs_Endpoints st)
      in \<lparr>bu_Name = mb_name mb, bu_Endpoints = eps, bu_Labels = bs_Labels st,
          bu_Annotations = bs_Annotations st, bu_Gen = mb_gen mb\<rparr>)"

text \<open>\<open>collectInitialState\<close>: what each pending backend did first.\<close>

datatype initial_answer = ParentCancelled | BackendCancelled | FirstState BackendState

fun collectInitialState :: "(managedBackend \<times> initial_answer) list \<Rightarrow> (string, BackendState) fmap \<Rightarrow>
    bool \<times> (string, BackendState) fmap" where
  "collectInitialState [] acc = (True, acc)"
| "collectInitialState ((mb, ans) # pending) acc =
     (case ans of
        ParentCancelled \<Rightarrow> (False, acc)
      | BackendCancelled \<Rightarrow> collectInitialState pending acc
      | FirstState st \<Rightarrow> collectInitialState pending (fmupd (mb_name mb) st acc))"

text \<open>\<open>backendChangeFromUpdate\<close> of \<open>main.go\<close>.\<close>

definition backendChangeFromUpdate :: "BackendUpdate \<Rightarrow> backendChange" where
  "backendChangeFromUpdate u =
     \<lparr>bc_name = bu_Name u, bc_endpoints = bu_Endpoints u, bc_labels = bu_Labels u,
      bc_annotations = bu_Annotations u, bc_removed = (bu_Endpoints u = None), bc_gen = bu_Gen u\<rparr>"

section \<open>Tokens\<close>

lemma digits_slash: "list_all is_digit d \<Longrightarrow> list_all is_digit d' \<Longrightarrow> d @ ''/'' @ k = d' @ ''/'' @ k' \<Longrightarrow> d = d' \<and> k = k'"
proof (induction d arbitrary: d')
  case Nil
  then show ?case by (cases d') (auto simp: is_digit_def)
next
  case (Cons c d)
  then show ?case by (cases d') (auto simp: is_digit_def)
qed

lemma ownerToken_inj [simp]: "ownerToken w k = ownerToken w' k' \<longleftrightarrow> w = w' \<and> k = k'"
  using digits_slash [OF show_nat_digits show_nat_digits, of w k w' k']
  by (auto simp: ownerToken_def)

lemma ownerToken_nonempty [simp]: "ownerToken w k \<noteq> []"
  by (simp add: ownerToken_def)


section \<open>One reconcile\<close>

text \<open>The claims of one watcher's backends, and all the claims the registry holds.\<close>

definition claims :: "discovery \<Rightarrow> (string, managedBackend) fmap \<Rightarrow> (string \<times> string) set" where
  "claims dw b = {(n, t). dw_registered dw \<and>
     (\<exists>k mb. fmlookup b k = Some mb \<and> n = mb_name mb \<and> t = ownerToken (dw_id dw) k)}"

definition graph :: "NameRegistry \<Rightarrow> (string \<times> string) set" where
  "graph r = {(n, t). fmlookup (nr_owners r) n = Some t}"

definition foreign :: "discovery \<Rightarrow> (string \<times> string) set \<Rightarrow> bool" where
  "foreign dw C \<longleftrightarrow> (\<forall>n t k. (n, t) \<in> C \<longrightarrow> t \<noteq> ownerToken (dw_id dw) k)"

definition claims_ok :: "discovery \<Rightarrow> (string \<times> string) set \<Rightarrow> reconcile \<Rightarrow> bool" where
  "claims_ok dw C s \<longleftrightarrow> graph (rc_registry s) = C \<union> claims dw (rc_backends s)"

lemma adopt_simps [simp]:
  "rc_registry (adopt dw key svc s) = rc_registry s" "rc_suppressed (adopt dw key svc s) = rc_suppressed s"
  "rc_genSeq (adopt dw key svc s) = rc_genSeq s + 1"
  "fmlookup (rc_backends (adopt dw key svc s)) key = Some \<lparr>mb_namespace = svc_Namespace svc,
     mb_name = svc_Name svc, mb_gen = rc_genSeq s + 1, mb_forwarding = dw_initialized dw\<rparr>"
  "k \<noteq> key \<Longrightarrow> fmlookup (rc_backends (adopt dw key svc s)) k = fmlookup (rc_backends s) k"
  by (simp_all add: adopt_def Let_def)

text \<open>The cases of one step of the add pass.\<close>

lemma add_one_cases:
  obtains (same) "rc_backends (add_one dw cur key s) = rc_backends s" "rc_registry (add_one dw cur key s) = rc_registry s"
      "rc_genSeq (add_one dw cur key s) = rc_genSeq s"
      "\<And>svc. fmlookup cur key = Some svc \<Longrightarrow> fmlookup (rc_backends s) key = None \<Longrightarrow> svc_Name svc |\<notin>| dw_explicitNames dw \<Longrightarrow>
         \<not> nameClaimedLocked (svc_Name svc) (svc_Namespace svc) (rc_backends s) \<Longrightarrow>
         dw_registered dw \<and> (\<exists>t. fmlookup (nr_owners (rc_registry s)) (svc_Name svc) = Some t \<and> t \<noteq> ownerToken (dw_id dw) key)"
  | (adopted) svc r where "fmlookup cur key = Some svc" "fmlookup (rc_backends s) key = None"
      "svc_Name svc |\<notin>| dw_explicitNames dw" "\<not> nameClaimedLocked (svc_Name svc) (svc_Namespace svc) (rc_backends s)"
      "add_one dw cur key s = adopt dw key svc (s\<lparr>rc_registry := r\<rparr>)"
      "if dw_registered dw then registry_claim (svc_Name svc) (ownerToken (dw_id dw) key) (rc_registry s) = (True, r)
       else r = rc_registry s"
proof (cases "fmlookup cur key")
  case None
  then show ?thesis using same by (simp add: add_one_def)
next
  case (Some svc)
  consider (skip) "fmlookup (rc_backends s) key \<noteq> None \<or> svc_Name svc |\<in>| dw_explicitNames dw \<or>
      nameClaimedLocked (svc_Name svc) (svc_Namespace svc) (rc_backends s)"
    | (local) "fmlookup (rc_backends s) key = None" "svc_Name svc |\<notin>| dw_explicitNames dw"
      "\<not> nameClaimedLocked (svc_Name svc) (svc_Namespace svc) (rc_backends s)" by blast
  then show ?thesis
  proof cases
    case skip
    then show ?thesis using same Some by (auto simp: add_one_def)
  next
    case local
    show ?thesis
    proof (cases "dw_registered dw")
      case False
      have "s\<lparr>rc_registry := rc_registry s\<rparr> = s" by simp
      then show ?thesis using adopted [OF Some local, of "rc_registry s"] False Some local by (simp add: add_one_def)
    next
      case True
      show ?thesis
      proof (cases "registry_claim (svc_Name svc) (ownerToken (dw_id dw) key) (rc_registry s)")
        case (Pair ok r)
        show ?thesis
        proof (cases ok)
          case ok: True
          then show ?thesis using adopted [OF Some local, of r] True Some local Pair by (simp add: add_one_def)
        next
          case False
          then show ?thesis using same True Some local Pair
            by (auto simp: add_one_def registry_claim_def split: option.splits)
        qed
      qed
    qed
  qed
qed

lemma claims_upd:
  assumes "fmlookup b key = None"
  shows "claims dw (fmupd key mb b) =
     claims dw b \<union> (if dw_registered dw then {(mb_name mb, ownerToken (dw_id dw) key)} else {})"
proof (rule set_eqI, clarify)
  fix n t
  have "(\<exists>k mb'. fmlookup (fmupd key mb b) k = Some mb' \<and> n = mb_name mb' \<and> t = ownerToken (dw_id dw) k) \<longleftrightarrow>
      (\<exists>k mb'. fmlookup b k = Some mb' \<and> n = mb_name mb' \<and> t = ownerToken (dw_id dw) k) \<or>
      (n = mb_name mb \<and> t = ownerToken (dw_id dw) key)"
    using assms by (metis fmupd_lookup option.distinct(1) option.inject)
  then show "(n, t) \<in> claims dw (fmupd key mb b) \<longleftrightarrow> (n, t) \<in> claims dw b \<union>
      (if dw_registered dw then {(mb_name mb, ownerToken (dw_id dw) key)} else {})"
    by (simp add: claims_def)
qed

lemma add_one_claims:
  assumes "foreign dw C" and "claims_ok dw C s"
  shows "claims_ok dw C (add_one dw cur key s)"
proof (cases rule: add_one_cases [of dw cur key s])
  case same
  then show ?thesis using assms by (simp add: claims_ok_def)
next
  case (adopted svc r)
  have b: "rc_backends (add_one dw cur key s) = fmupd key \<lparr>mb_namespace = svc_Namespace svc,
      mb_name = svc_Name svc, mb_gen = rc_genSeq s + 1, mb_forwarding = dw_initialized dw\<rparr> (rc_backends s)"
    using adopted by (simp add: adopt_def Let_def)
  show ?thesis
  proof (cases "dw_registered dw")
    case False
    then show ?thesis using adopted assms b by (simp add: claims_ok_def claims_upd)
  next
    case True
    have free: "fmlookup (nr_owners (rc_registry s)) (svc_Name svc) = None"
    proof (rule ccontr)
      assume "\<not> ?thesis"
      then have "(svc_Name svc, ownerToken (dw_id dw) key) \<in> graph (rc_registry s)"
        using adopted(6) True by (auto simp: registry_claim_def graph_def split: option.splits)
      then show False using assms adopted(2) by (auto simp: claims_ok_def foreign_def claims_def)
    qed
    then have "graph r = graph (rc_registry s) \<union> {(svc_Name svc, ownerToken (dw_id dw) key)}"
      using adopted(6) True by (auto simp: registry_claim_def graph_def split: if_splits)
    then show ?thesis using adopted assms b True by (simp add: claims_ok_def claims_upd)
  qed
qed

lemma addPass_claims:
  assumes "foreign dw C" and "claims_ok dw C s"
  shows "claims_ok dw C (addPass dw cur keys s)"
proof -
  have "claims_ok dw C s' \<Longrightarrow> claims_ok dw C (fold (add_one dw cur) keys s')" for s'
    using assms(1) by (induction keys arbitrary: s') (simp_all add: add_one_claims)
  moreover have "claims_ok dw C (s\<lparr>rc_suppressed := []\<rparr>)" using assms(2) by (simp add: claims_ok_def)
  ultimately show ?thesis by (simp add: addPass_def)
qed

lemma graph_release:
  "t \<noteq> [] \<Longrightarrow> graph (registry_release n t r) = graph r - {(n, t)}"
  by (auto simp: graph_def registry_release_def split: if_splits option.splits)

lemma claims_drop:
  "fmlookup b key = Some mb \<Longrightarrow> dw_registered dw \<Longrightarrow>
   claims dw (fmdrop key b) = claims dw b - {(mb_name mb, ownerToken (dw_id dw) key)}"
  by (auto simp: claims_def split: if_splits)

lemma remove_one_claims:
  assumes "foreign dw C" and "claims_ok dw C s" and "fmlookup (rc_backends s) key = Some mb"
  shows "claims_ok dw C (remove_one dw key mb s)"
proof (cases "dw_registered dw")
  case True
  have "(mb_name mb, ownerToken (dw_id dw) key) \<notin> C" using assms(1) by (auto simp: foreign_def)
  then show ?thesis using assms True
    by (auto simp: claims_ok_def remove_one_def Let_def graph_release claims_drop)
next
  case False
  then show ?thesis using assms by (simp add: claims_ok_def remove_one_def Let_def claims_def)
qed

lemma remove_loop_claims:
  assumes "foreign dw C"
  shows "claims_ok dw C s \<Longrightarrow> claims_ok dw C (fst (remove_loop dw cur order s))"
proof (induction order arbitrary: s)
  case (Cons key order)
  show ?case
  proof (cases "fmlookup (rc_backends s) key")
    case None
    then show ?thesis using Cons by simp
  next
    case (Some mb)
    then show ?thesis using Cons.IH [OF Cons.prems] Cons.IH [OF remove_one_claims [OF assms Cons.prems Some]]
      by (simp add: split_def Let_def)
  qed
qed simp


text \<open>Why a listed Service is not managed, in the state at the end.\<close>

definition settled :: "discovery \<Rightarrow> reconcile \<Rightarrow> string \<Rightarrow> k8s_service \<Rightarrow> bool" where
  "settled dw s key svc \<longleftrightarrow> fmlookup (rc_backends s) key \<noteq> None \<or> svc_Name svc |\<in>| dw_explicitNames dw \<or>
     nameClaimedLocked (svc_Name svc) (svc_Namespace svc) (rc_backends s) \<or>
     (dw_registered dw \<and> (\<exists>t. fmlookup (nr_owners (rc_registry s)) (svc_Name svc) = Some t \<and> t \<noteq> ownerToken (dw_id dw) key))"

text \<open>What an add pass may change: it only adds backends, with fresh generations, and claims free names.\<close>

definition grows :: "reconcile \<Rightarrow> reconcile \<Rightarrow> bool" where
  "grows s s' \<longleftrightarrow>
     (\<forall>k mb. fmlookup (rc_backends s) k = Some mb \<longrightarrow> fmlookup (rc_backends s') k = Some mb) \<and>
     (\<forall>k mb. fmlookup (rc_backends s) k = None \<longrightarrow> fmlookup (rc_backends s') k = Some mb \<longrightarrow>
        rc_genSeq s < mb_gen mb \<and> mb_gen mb \<le> rc_genSeq s') \<and>
     (\<forall>n t. fmlookup (nr_owners (rc_registry s)) n = Some t \<longrightarrow> fmlookup (nr_owners (rc_registry s')) n = Some t) \<and>
     nr_subscribers (rc_registry s') = nr_subscribers (rc_registry s) \<and> nr_kicks (rc_registry s') = nr_kicks (rc_registry s) \<and>
     nr_subSeq (rc_registry s') = nr_subSeq (rc_registry s) \<and> rc_genSeq s \<le> rc_genSeq s'"

lemma grows_refl: "rc_backends s' = rc_backends s \<Longrightarrow> rc_registry s' = rc_registry s \<Longrightarrow> rc_genSeq s' = rc_genSeq s \<Longrightarrow> grows s s'"
  by (simp add: grows_def)

lemma grows_trans:
  assumes "grows a b" and "grows b c"
  shows "grows a c"
proof -
  have "rc_genSeq a < mb_gen mb \<and> mb_gen mb \<le> rc_genSeq c"
    if "fmlookup (rc_backends a) k = None" "fmlookup (rc_backends c) k = Some mb" for k mb
  proof (cases "fmlookup (rc_backends b) k")
    case None
    then show ?thesis using assms that unfolding grows_def by (meson le_less_trans)
  next
    case (Some mb')
    moreover from this have "mb' = mb" using assms(2) that(2) unfolding grows_def by (metis option.inject)
    ultimately show ?thesis using assms that(1) unfolding grows_def by (meson order_trans)
  qed
  then show ?thesis using assms unfolding grows_def by (simp add: order_trans)
qed

lemma registry_claim_grows:
  "registry_claim n t r = (ok, r') \<Longrightarrow> nr_subscribers r' = nr_subscribers r \<and> nr_kicks r' = nr_kicks r \<and>
   nr_subSeq r' = nr_subSeq r \<and> (\<forall>m u. fmlookup (nr_owners r) m = Some u \<longrightarrow> fmlookup (nr_owners r') m = Some u)"
  by (auto simp: registry_claim_def split: option.splits)

lemma add_one_grows: "grows s (add_one dw cur key s)"
proof (cases rule: add_one_cases [of dw cur key s])
  case same
  then show ?thesis by (intro grows_refl)
next
  case (adopted svc r)
  have R: "nr_subscribers r = nr_subscribers (rc_registry s) \<and> nr_kicks r = nr_kicks (rc_registry s) \<and>
      nr_subSeq r = nr_subSeq (rc_registry s) \<and> (\<forall>m u. fmlookup (nr_owners (rc_registry s)) m = Some u \<longrightarrow> fmlookup (nr_owners r) m = Some u)"
    using adopted(6) registry_claim_grows by (cases "dw_registered dw") auto
  have B: "fmlookup (rc_backends (add_one dw cur key s)) k = (if k = key then Some \<lparr>mb_namespace = svc_Namespace svc,
      mb_name = svc_Name svc, mb_gen = rc_genSeq s + 1, mb_forwarding = dw_initialized dw\<rparr> else fmlookup (rc_backends s) k)" for k
    using adopted(5) by (simp add: adopt_def Let_def)
  show ?thesis unfolding grows_def B using R adopted(2,5) by auto
qed

lemma settled_grows:
  assumes "grows s s'" and "settled dw s key svc"
  shows "settled dw s' key svc"
proof -
  have "nameClaimedLocked n ns (rc_backends s) \<Longrightarrow> nameClaimedLocked n ns (rc_backends s')" for n ns
    using assms(1) unfolding nameClaimedLocked_def grows_def by (metis fmlookup_ran'_iff)
  moreover have "fmlookup (rc_backends s) key \<noteq> None \<Longrightarrow> fmlookup (rc_backends s') key \<noteq> None"
    using assms(1) unfolding grows_def by auto
  moreover have "fmlookup (nr_owners (rc_registry s)) n = Some t \<Longrightarrow> fmlookup (nr_owners (rc_registry s')) n = Some t" for n t
    using assms(1) unfolding grows_def by blast
  ultimately show ?thesis using assms(2) unfolding settled_def by blast
qed

lemma add_one_settles: "fmlookup cur key = Some svc \<Longrightarrow> settled dw (add_one dw cur key s) key svc"
proof (cases rule: add_one_cases [of dw cur key s])
  case same
  assume "fmlookup cur key = Some svc"
  then show ?thesis using same(1,2) same(4) by (auto simp: settled_def)
next
  case (adopted svc' r)
  then show ?thesis by (simp add: settled_def)
qed

lemma add_one_dom: "fmlookup (rc_backends (add_one dw cur key s)) k = Some mb \<Longrightarrow>
    fmlookup (rc_backends s) k = Some mb \<or> (\<exists>svc. fmlookup cur k = Some svc \<and> mb_name mb = svc_Name svc \<and> mb_namespace mb = svc_Namespace svc)"
proof (cases rule: add_one_cases [of dw cur key s])
  case (adopted svc r)
  assume "fmlookup (rc_backends (add_one dw cur key s)) k = Some mb"
  then show ?thesis using adopted by (cases "k = key") auto
qed simp

lemma fold_add:
  "grows s (fold (add_one dw cur) keys s)"
  "key \<in> set keys \<Longrightarrow> fmlookup cur key = Some svc \<Longrightarrow> settled dw (fold (add_one dw cur) keys s) key svc"
  "fmlookup (rc_backends (fold (add_one dw cur) keys s)) k = Some mb \<Longrightarrow>
     fmlookup (rc_backends s) k = Some mb \<or> (\<exists>svc. fmlookup cur k = Some svc \<and> mb_name mb = svc_Name svc \<and> mb_namespace mb = svc_Namespace svc)"
proof (induction keys arbitrary: s)
  case Nil
  { case 1 show ?case by (simp add: grows_refl) next case 2 then show ?case by simp next case 3 then show ?case by simp }
next
  case (Cons x keys)
  { case 1 show ?case using grows_trans [OF add_one_grows Cons.IH(1)] by simp
  next
    case 2
    then show ?case using Cons.IH(2) settled_grows [OF Cons.IH(1) add_one_settles] by (cases "key = x") auto
  next
    case 3
    then have "fmlookup (rc_backends (fold (add_one dw cur) keys (add_one dw cur x s))) k = Some mb" by simp
    then show ?case using Cons.IH(3) add_one_dom by blast }
qed

lemma addPass_facts:
  "grows s (addPass dw cur keys s)"
  "key \<in> set keys \<Longrightarrow> fmlookup cur key = Some svc \<Longrightarrow> settled dw (addPass dw cur keys s) key svc"
  "fmlookup (rc_backends (addPass dw cur keys s)) k = Some mb \<Longrightarrow>
     fmlookup (rc_backends s) k = Some mb \<or> (\<exists>svc. fmlookup cur k = Some svc \<and> mb_name mb = svc_Name svc \<and> mb_namespace mb = svc_Namespace svc)"
proof -
  have "grows s (s\<lparr>rc_suppressed := []\<rparr>)" by (simp add: grows_refl)
  then show "grows s (addPass dw cur keys s)" unfolding addPass_def by (rule grows_trans) (rule fold_add(1))
  show "key \<in> set keys \<Longrightarrow> fmlookup cur key = Some svc \<Longrightarrow> settled dw (addPass dw cur keys s) key svc"
    unfolding addPass_def by (rule fold_add(2))
  show "fmlookup (rc_backends (addPass dw cur keys s)) k = Some mb \<Longrightarrow>
     fmlookup (rc_backends s) k = Some mb \<or> (\<exists>svc. fmlookup cur k = Some svc \<and> mb_name mb = svc_Name svc \<and> mb_namespace mb = svc_Namespace svc)"
    unfolding addPass_def using fold_add(3) by fastforce
qed

lemma remove_one_simps [simp]:
  "rc_backends (remove_one dw key mb s) = fmdrop key (rc_backends s)" "rc_genSeq (remove_one dw key mb s) = rc_genSeq s"
  by (simp_all add: remove_one_def Let_def)

text \<open>The remove loop: what stays, what is reported, and what a release does to the registry.\<close>

lemma remove_loop_facts:
  "remove_loop dw cur order s = (s', removed) \<Longrightarrow>
   fmlookup (rc_backends s') k = (if k \<in> set order \<and> fmlookup cur k = None then None else fmlookup (rc_backends s) k) \<and>
   rc_genSeq s' = rc_genSeq s \<and> (removed = [] \<longrightarrow> s' = s) \<and>
   set removed = {(mb_name mb, mb_gen mb) | k mb. k \<in> set order \<and> fmlookup cur k = None \<and> fmlookup (rc_backends s) k = Some mb}"
proof (induction order arbitrary: s s' removed)
  case Nil
  then show ?case by auto
next
  case (Cons key order)
  show ?case
  proof (cases "fmlookup (rc_backends s) key = None \<or> fmlookup cur key \<noteq> None")
    case True
    then have "remove_loop dw cur order s = (s', removed)" using Cons.prems by (auto split: option.splits)
    from Cons.IH [OF this] True show ?thesis by auto
  next
    case False
    then obtain mb where mb: "fmlookup (rc_backends s) key = Some mb" and cur: "fmlookup cur key = None" by auto
    obtain removed' where r: "remove_loop dw cur order (remove_one dw key mb s) = (s', removed')"
      "removed = (mb_name mb, mb_gen mb) # removed'"
      using Cons.prems mb cur by (auto split: prod.splits)
    show ?thesis using Cons.IH [OF r(1)] r(2) mb cur by (auto split: if_splits)
  qed
qed

text \<open>Until a name is released it keeps its owner; a release kicks every subscriber.\<close>

definition kicks_on_release :: "NameRegistry \<Rightarrow> NameRegistry \<Rightarrow> bool" where
  "kicks_on_release r r' \<longleftrightarrow> nr_subscribers r' = nr_subscribers r \<and> nr_subSeq r' = nr_subSeq r \<and> nr_kicks r |\<subseteq>| nr_kicks r' \<and>
     (\<forall>n t. fmlookup (nr_owners r) n = Some t \<longrightarrow> fmlookup (nr_owners r') n = Some t \<or>
        fmran (nr_subscribers r) |\<subseteq>| nr_kicks r')"

lemma kicks_trans: "kicks_on_release a b \<Longrightarrow> kicks_on_release b c \<Longrightarrow> kicks_on_release a c"
  unfolding kicks_on_release_def by (metis order_trans)

lemma kicks_refl [simp]: "kicks_on_release r r"
  by (simp add: kicks_on_release_def)

lemma kicks_release: "kicks_on_release r (registry_release n t r)"
  by (auto simp: kicks_on_release_def registry_release_def)

lemma kicks_grows: "grows s s' \<Longrightarrow> kicks_on_release (rc_registry s) (rc_registry s')"
  by (simp add: grows_def kicks_on_release_def)

lemma kicks_remove_loop: "kicks_on_release (rc_registry s) (rc_registry (fst (remove_loop dw cur order s)))"
proof (induction order arbitrary: s)
  case (Cons key order)
  have one: "kicks_on_release (rc_registry s) (rc_registry (remove_one dw key mb s))" for mb
    by (simp add: remove_one_def Let_def kicks_release)
  show ?case using Cons.IH kicks_trans [OF one Cons.IH]
    by (auto simp: split_def Let_def split: option.split)
qed simp

end
