(* ===== verification/DiscoveryWorld.thy ===== *)
theory DiscoveryWorld
  imports Discovery
begin

text \<open>
  What backend discovery guarantees: one reconcile against its listing, and the world of all the
  watchers that share a name registry, as a step relation with subscriptions, informer events,
  kicks and shutdowns.
\<close>

section \<open>A reconcile of one watcher\<close>

text \<open>The state at the end of a reconcile of a watcher that is not shut down.\<close>

definition reconcile_end :: "k8s_service list \<Rightarrow> string list \<Rightarrow> NameRegistry \<Rightarrow> nat \<Rightarrow> discovery \<Rightarrow>
    (string, managedBackend) fmap \<Rightarrow> reconcile \<times> (string \<times> nat) list" where
  "reconcile_end svcs order reg gen dw b =
     (let current = listed svcs; keys = sorted_list_of_fset (fmdom current);
          s1 = addPass dw current keys \<lparr>rc_backends = b, rc_registry = reg, rc_genSeq = gen, rc_suppressed = []\<rparr>;
          (s2, removed) = remove_loop dw current order s1
      in (if removed \<noteq> [] then addPass dw current keys s2 else s2, removed))"

lemma syncServices_end:
  assumes "dw_backends dw = Some b" and "reconcile_end svcs order reg gen dw b = (s, removed)"
  shows "syncServices (Some svcs) order reg gen dw =
    ((rc_registry s, rc_genSeq s, dw\<lparr>dw_backends := Some (rc_backends s)\<rparr>), map removal_update removed)"
  using assms by (auto simp: syncServices_def reconcile_end_def Let_def split: prod.splits)

lemma keys_of_listed: "fmlookup cur key = Some svc \<Longrightarrow> key \<in> set (sorted_list_of_fset (fmdom cur))"
  by (simp add: fmdomI)

lemma reconcile_facts:
  assumes "reconcile_end svcs order reg gen dw b = (s, removed)"
    and "\<forall>k mb. fmlookup b k = Some mb \<longrightarrow> k \<in> set order"
  shows "\<forall>key svc. fmlookup (listed svcs) key = Some svc \<longrightarrow> settled dw s key svc"
    and "\<forall>k mb. fmlookup (rc_backends s) k = Some mb \<longrightarrow> fmlookup (listed svcs) k \<noteq> None \<and>
          (fmlookup b k = Some mb \<or> (fmlookup b k = None \<and> gen < mb_gen mb \<and> mb_gen mb \<le> rc_genSeq s \<and>
            (\<exists>svc. fmlookup (listed svcs) k = Some svc \<and> mb_name mb = svc_Name svc)))"
    and "\<forall>k mb. fmlookup b k = Some mb \<longrightarrow> fmlookup (listed svcs) k \<noteq> None \<longrightarrow> fmlookup (rc_backends s) k = Some mb"
    and "set removed = {(mb_name mb, mb_gen mb) | k mb. fmlookup b k = Some mb \<and> fmlookup (listed svcs) k = None}"
    and "kicks_on_release reg (rc_registry s)" and "gen \<le> rc_genSeq s"
proof -
  let ?cur = "listed svcs" and ?s0 = "\<lparr>rc_backends = b, rc_registry = reg, rc_genSeq = gen, rc_suppressed = []\<rparr>"
  let ?keys = "sorted_list_of_fset (fmdom ?cur)"
  define s1 where "s1 = addPass dw ?cur ?keys ?s0"
  obtain s2 where s2: "remove_loop dw ?cur order s1 = (s2, removed)"
    and s: "s = (if removed \<noteq> [] then addPass dw ?cur ?keys s2 else s2)"
    using assms(1) by (auto simp: reconcile_end_def s1_def Let_def split: prod.splits)
  note g1 = addPass_facts(1) [of ?s0 dw ?cur ?keys, folded s1_def]
  note rl = remove_loop_facts [OF s2]
  have g2: "grows s2 s" using s addPass_facts(1) by (auto simp: grows_refl)
  have b1: "fmlookup (rc_backends s1) k = Some mb \<Longrightarrow> fmlookup b k = Some mb \<or>
      (fmlookup b k = None \<and> gen < mb_gen mb \<and> mb_gen mb \<le> rc_genSeq s1 \<and>
       (\<exists>svc. fmlookup ?cur k = Some svc \<and> mb_name mb = svc_Name svc))" for k mb
    using g1 addPass_facts(3) [of dw ?cur ?keys ?s0 k mb, folded s1_def] unfolding grows_def
    by (cases "fmlookup b k") auto
  show "\<forall>key svc. fmlookup ?cur key = Some svc \<longrightarrow> settled dw s key svc"
  proof (intro allI impI)
    fix key svc assume c: "fmlookup ?cur key = Some svc"
    note k = keys_of_listed [OF c]
    show "settled dw s key svc"
    proof (cases "removed = []")
      case True
      then show ?thesis using s rl addPass_facts(2) [OF k c] by (simp add: s1_def)
    next
      case False
      then show ?thesis using s addPass_facts(2) [OF k c] by simp
    qed
  qed
  have b2: "fmlookup (rc_backends s2) k = Some mb \<Longrightarrow> fmlookup (rc_backends s1) k = Some mb \<and> fmlookup ?cur k \<noteq> None" for k mb
    using rl [of k] b1 [of k mb] assms(2) by (auto split: if_splits)
  have b3: "fmlookup (rc_backends s) k = Some mb \<Longrightarrow> fmlookup (rc_backends s2) k = Some mb \<or>
      (fmlookup (rc_backends s2) k = None \<and> rc_genSeq s2 < mb_gen mb \<and> mb_gen mb \<le> rc_genSeq s \<and>
       (\<exists>svc. fmlookup ?cur k = Some svc \<and> mb_name mb = svc_Name svc))" for k mb
    using s g2 addPass_facts(3) [of dw ?cur ?keys s2 k mb] unfolding grows_def
    by (cases "fmlookup (rc_backends s2) k"; cases "removed = []") auto
  have gen: "rc_genSeq s2 = rc_genSeq s1" "gen \<le> rc_genSeq s1" "rc_genSeq s2 \<le> rc_genSeq s"
    using rl g1 g2 unfolding grows_def by auto
  show "gen \<le> rc_genSeq s" using gen by simp
  have keep: "fmlookup b k = Some mb \<Longrightarrow> fmlookup ?cur k \<noteq> None \<Longrightarrow> fmlookup (rc_backends s2) k = Some mb" for k mb
    using g1 rl [of k] unfolding grows_def by auto
  then show "\<forall>k mb. fmlookup b k = Some mb \<longrightarrow> fmlookup ?cur k \<noteq> None \<longrightarrow> fmlookup (rc_backends s) k = Some mb"
    using g2 unfolding grows_def by blast
  show "\<forall>k mb. fmlookup (rc_backends s) k = Some mb \<longrightarrow> fmlookup ?cur k \<noteq> None \<and>
      (fmlookup b k = Some mb \<or> (fmlookup b k = None \<and> gen < mb_gen mb \<and> mb_gen mb \<le> rc_genSeq s \<and>
            (\<exists>svc. fmlookup ?cur k = Some svc \<and> mb_name mb = svc_Name svc)))"
  proof (intro allI impI)
    fix k mb assume m: "fmlookup (rc_backends s) k = Some mb"
    from b3 [OF m] show "fmlookup ?cur k \<noteq> None \<and>
      (fmlookup b k = Some mb \<or> (fmlookup b k = None \<and> gen < mb_gen mb \<and> mb_gen mb \<le> rc_genSeq s \<and>
            (\<exists>svc. fmlookup ?cur k = Some svc \<and> mb_name mb = svc_Name svc)))"
    proof
      assume "fmlookup (rc_backends s2) k = Some mb"
      from b2 [OF this] b1 [of k mb] gen show ?thesis by auto
    next
      assume n: "fmlookup (rc_backends s2) k = None \<and> rc_genSeq s2 < mb_gen mb \<and> mb_gen mb \<le> rc_genSeq s \<and>
       (\<exists>svc. fmlookup ?cur k = Some svc \<and> mb_name mb = svc_Name svc)"
      then have "fmlookup b k = None" using keep by (metis option.exhaust option.distinct(1))
      then show ?thesis using n gen by auto
    qed
  qed
  have "fmlookup (rc_backends s1) k = Some mb \<and> fmlookup ?cur k = None \<longleftrightarrow> fmlookup b k = Some mb \<and> fmlookup ?cur k = None" for k mb
    using b1 [of k mb] g1 unfolding grows_def by auto
  then show "set removed = {(mb_name mb, mb_gen mb) | k mb. fmlookup b k = Some mb \<and> fmlookup ?cur k = None}"
    using rl assms(2) by blast
  show "kicks_on_release reg (rc_registry s)"
    using kicks_trans [OF kicks_grows [OF g1] kicks_trans [OF _ kicks_grows [OF g2]]] kicks_remove_loop [of s1 dw ?cur order] s2 by simp
qed

lemma reconcile_claims:
  assumes "foreign dw C" and "graph reg = C \<union> claims dw b" and "reconcile_end svcs order reg gen dw b = (s, removed)"
  shows "graph (rc_registry s) = C \<union> claims dw (rc_backends s)"
proof -
  let ?cur = "listed svcs" and ?s0 = "\<lparr>rc_backends = b, rc_registry = reg, rc_genSeq = gen, rc_suppressed = []\<rparr>"
  let ?keys = "sorted_list_of_fset (fmdom ?cur)"
  obtain s2 where s2: "remove_loop dw ?cur order (addPass dw ?cur ?keys ?s0) = (s2, removed)"
    and s: "s = (if removed \<noteq> [] then addPass dw ?cur ?keys s2 else s2)"
    using assms(3) by (auto simp: reconcile_end_def Let_def split: prod.splits)
  have "claims_ok dw C ?s0" using assms(2) by (simp add: claims_ok_def)
  then have "claims_ok dw C s2" using remove_loop_claims [OF assms(1) addPass_claims [OF assms(1)]] s2 by (metis fst_conv)
  then have "claims_ok dw C s" using s addPass_claims [OF assms(1)] by simp
  then show ?thesis by (simp add: claims_ok_def)
qed

text \<open>
  C25: A reconcile leaves no listed Service orphaned and no departed one managed: afterwards the
  managed backends are among the listed Services, every listed Service is managed unless its name
  is explicit, used by a managed Service of another namespace, or owned by another watcher; the
  survivors keep their incarnation, adopted ones have new generations, and exactly the departed
  incarnations are reported as removed, each with its generation.
\<close>

theorem reconcile_complete:
  assumes "dw_backends dw = Some b" and "\<forall>k mb. fmlookup b k = Some mb \<longrightarrow> k \<in> set order"
    and "syncServices (Some svcs) order reg gen dw = ((reg', gen', dw'), upds)"
  shows "\<exists>b'. dw_backends dw' = Some b' \<and>
    (\<forall>k mb. fmlookup b' k = Some mb \<longrightarrow> fmlookup (listed svcs) k \<noteq> None \<and>
       (fmlookup b k = Some mb \<or> fmlookup b k = None \<and> gen < mb_gen mb \<and> mb_gen mb \<le> gen')) \<and>
    (\<forall>k mb. fmlookup b k = Some mb \<and> fmlookup (listed svcs) k \<noteq> None \<longrightarrow> fmlookup b' k = Some mb) \<and>
    (\<forall>k svc. fmlookup (listed svcs) k = Some svc \<longrightarrow> fmlookup b' k \<noteq> None \<or> svc_Name svc |\<in>| dw_explicitNames dw \<or>
       nameClaimedLocked (svc_Name svc) (svc_Namespace svc) b' \<or>
       (dw_registered dw \<and> (\<exists>t. fmlookup (nr_owners reg') (svc_Name svc) = Some t \<and> t \<noteq> ownerToken (dw_id dw) k))) \<and>
    set (map backendChangeFromUpdate upds) =
      {\<lparr>bc_name = mb_name mb, bc_endpoints = None, bc_labels = fmempty, bc_annotations = fmempty,
        bc_removed = True, bc_gen = mb_gen mb\<rparr> | k mb. fmlookup b k = Some mb \<and> fmlookup (listed svcs) k = None}"
proof -
  obtain s removed where e: "reconcile_end svcs order reg gen dw b = (s, removed)" by (metis surj_pair)
  have r: "reg' = rc_registry s" "gen' = rc_genSeq s" "dw_backends dw' = Some (rc_backends s)" "upds = map removal_update removed"
    using syncServices_end [OF assms(1) e] assms(3) by auto
  note F = reconcile_facts [OF e assms(2)]
  have "set (map backendChangeFromUpdate upds) = (\<lambda>(n, g). \<lparr>bc_name = n, bc_endpoints = None, bc_labels = fmempty,
      bc_annotations = fmempty, bc_removed = True, bc_gen = g\<rparr>) ` set removed"
    by (simp add: r(4) backendChangeFromUpdate_def removal_update_def image_image case_prod_beta)
  also have "\<dots> = {\<lparr>bc_name = mb_name mb, bc_endpoints = None, bc_labels = fmempty, bc_annotations = fmempty,
        bc_removed = True, bc_gen = mb_gen mb\<rparr> | k mb. fmlookup b k = Some mb \<and> fmlookup (listed svcs) k = None}"
    unfolding F(4) by (force simp: image_iff)
  finally have U: "set (map backendChangeFromUpdate upds) = \<dots>" .
  show ?thesis
    unfolding r(1,2) using F(1-3) by (intro exI [of _ "rc_backends s"] conjI r(3) U) (auto simp: settled_def)
qed


section \<open>All watchers and their registry\<close>

text \<open>
  The watchers that share a registry and the generation counter, by id; \<open>wd_listed\<close> remembers what
  each watcher was last reconciled against. A watcher subscribes before its first reconcile and
  unsubscribes after its shutdown. A kick is consumed by the reconcile it triggers. The listers
  are in-memory stores, which do not fail.
\<close>

record world =
  wd_registry :: NameRegistry
  wd_gen :: nat
  wd_watchers :: "(nat, discovery) fmap"
  wd_listed :: "(nat, (string, k8s_service) fmap) fmap"

definition reconcile_in :: "nat \<Rightarrow> k8s_service list \<Rightarrow> string list \<Rightarrow> world \<Rightarrow> world" where
  "reconcile_in wid svcs order w =
     (case fmlookup (wd_watchers w) wid of
        None \<Rightarrow> w
      | Some dw \<Rightarrow>
          (let ((reg, gen, dw'), upds) = syncServices (Some svcs) order (wd_registry w) (wd_gen w) dw
           in w\<lparr>wd_registry := reg, wd_gen := gen, wd_watchers := fmupd wid dw' (wd_watchers w),
                wd_listed := fmupd wid (listed svcs) (wd_listed w)\<rparr>))"

definition covers :: "string list \<Rightarrow> discovery \<Rightarrow> bool" where
  "covers order dw \<longleftrightarrow> (\<forall>b k mb. dw_backends dw = Some b \<longrightarrow> fmlookup b k = Some mb \<longrightarrow> k \<in> set order)"

definition start_world :: "(nat \<Rightarrow> string fset) \<Rightarrow> nat fset \<Rightarrow> world" where
  "start_world explicit ids = \<lparr>wd_registry = NewNameRegistry, wd_gen = 0,
     wd_watchers = fmap_of_list (map (\<lambda>i. (i, NewBackendDiscoveryWatcher i (explicit i) True)) (sorted_list_of_fset ids)),
     wd_listed = fmempty\<rparr>"

inductive disc_world :: "(nat \<Rightarrow> string fset) \<Rightarrow> nat fset \<Rightarrow> world \<Rightarrow> bool" for explicit ids where
  start: "disc_world explicit ids (start_world explicit ids)"
| subscribe: "disc_world explicit ids w \<Longrightarrow> fmlookup (wd_watchers w) wid = Some dw \<Longrightarrow>
    disc_world explicit ids (w\<lparr>wd_registry := snd (registry_subscribe wid (wd_registry w))\<rparr>)"
| event: "disc_world explicit ids w \<Longrightarrow> fmlookup (wd_watchers w) wid = Some dw \<Longrightarrow> covers order dw \<Longrightarrow>
    wid |\<in>| fmran (nr_subscribers (wd_registry w)) \<Longrightarrow> disc_world explicit ids (reconcile_in wid svcs order w)"
| kicked: "disc_world explicit ids w \<Longrightarrow> fmlookup (wd_watchers w) wid = Some dw \<Longrightarrow> covers order dw \<Longrightarrow>
    wid |\<in>| fmran (nr_subscribers (wd_registry w)) \<Longrightarrow> wid |\<in>| nr_kicks (wd_registry w) \<Longrightarrow>
    disc_world explicit ids (reconcile_in wid svcs order
      (w\<lparr>wd_registry := (wd_registry w)\<lparr>nr_kicks := nr_kicks (wd_registry w) |-| {|wid|}\<rparr>\<rparr>))"
| initialized: "disc_world explicit ids w \<Longrightarrow> fmlookup (wd_watchers w) wid = Some dw \<Longrightarrow>
    disc_world explicit ids (w\<lparr>wd_watchers := fmupd wid (finish_initial dw) (wd_watchers w)\<rparr>)"
| shutdown: "disc_world explicit ids w \<Longrightarrow> fmlookup (wd_watchers w) wid = Some dw \<Longrightarrow> covers order dw \<Longrightarrow>
    disc_world explicit ids (w\<lparr>wd_registry := fst (discovery_shutdown order (wd_registry w) dw),
      wd_watchers := fmupd wid (snd (discovery_shutdown order (wd_registry w) dw)) (wd_watchers w)\<rparr>)"
| unsubscribe: "disc_world explicit ids w \<Longrightarrow> fmlookup (nr_subscribers (wd_registry w)) sub = Some wid \<Longrightarrow>
    fmlookup (wd_watchers w) wid = Some dw \<Longrightarrow> dw_backends dw = None \<Longrightarrow>
    disc_world explicit ids (w\<lparr>wd_registry := registry_unsubscribe sub (wd_registry w)\<rparr>)"

text \<open>Every watcher carries its own id, and the registry holds exactly the claims of the backends.\<close>

definition watchers_ok :: "world \<Rightarrow> bool" where
  "watchers_ok w \<longleftrightarrow> (\<forall>i dw. fmlookup (wd_watchers w) i = Some dw \<longrightarrow> dw_id dw = i \<and> dw_registered dw)"

definition claims_of :: "discovery \<Rightarrow> (string \<times> string) set" where
  "claims_of dw = (case dw_backends dw of None \<Rightarrow> {} | Some b \<Rightarrow> claims dw b)"

definition all_claims :: "world \<Rightarrow> (string \<times> string) set" where
  "all_claims w = {c. \<exists>i dw. fmlookup (wd_watchers w) i = Some dw \<and> c \<in> claims_of dw}"

definition claims_but :: "nat \<Rightarrow> world \<Rightarrow> (string \<times> string) set" where
  "claims_but wid w = {c. \<exists>i dw. i \<noteq> wid \<and> fmlookup (wd_watchers w) i = Some dw \<and> c \<in> claims_of dw}"

definition registry_exact :: "world \<Rightarrow> bool" where
  "registry_exact w \<longleftrightarrow> graph (wd_registry w) = all_claims w"

lemma claims_of_simps [simp]:
  "dw_backends dw = None \<Longrightarrow> claims_of dw = {}" "dw_backends dw = Some b \<Longrightarrow> claims_of dw = claims dw b"
  "claims_of (dw\<lparr>dw_backends := None\<rparr>) = {}" "claims_of (dw\<lparr>dw_backends := Some b\<rparr>) = claims dw b"
  by (simp_all add: claims_of_def claims_def)

lemma claims_split:
  "fmlookup (wd_watchers w) wid = Some dw \<Longrightarrow> all_claims w = claims_but wid w \<union> claims_of dw"
  unfolding claims_but_def all_claims_def by (auto, metis option.inject)

lemma claims_but_upd [simp]:
  "claims_but wid (w\<lparr>wd_watchers := fmupd wid dw' (wd_watchers w)\<rparr>) = claims_but wid w"
  "claims_but wid (w\<lparr>wd_registry := reg\<rparr>) = claims_but wid w"
  "claims_but wid (w\<lparr>wd_registry := reg, wd_watchers := fmupd wid dw' (wd_watchers w)\<rparr>) = claims_but wid w"
  "claims_but wid (w\<lparr>wd_registry := reg, wd_gen := g, wd_watchers := fmupd wid dw' (wd_watchers w), wd_listed := l\<rparr>) = claims_but wid w"
  by (auto simp: claims_but_def)

lemma claims_of_token: "(n, t) \<in> claims_of dw \<Longrightarrow> \<exists>k. t = ownerToken (dw_id dw) k"
  by (auto simp: claims_of_def claims_def split: option.splits)

lemma claims_but_foreign:
  assumes "watchers_ok w" and "fmlookup (wd_watchers w) wid = Some dw"
  shows "foreign dw (claims_but wid w)"
proof -
  have False if c: "(n, ownerToken (dw_id dw) k) \<in> claims_of dw'" "i \<noteq> wid" "fmlookup (wd_watchers w) i = Some dw'" for n k i dw'
    using claims_of_token [OF c(1)] assms c(2,3) by (auto simp: watchers_ok_def)
  then show ?thesis by (auto simp: foreign_def claims_but_def)
qed

lemma registry_exact_upd:
  assumes "fmlookup (wd_watchers w') wid = Some dw'" and "claims_but wid w' = claims_but wid w"
    and "graph (wd_registry w') = claims_but wid w \<union> claims_of dw'"
  shows "registry_exact w'"
  unfolding registry_exact_def claims_split [OF assms(1)] using assms(2,3) by simp

lemma release_all_claims:
  assumes "dw_registered dw"
  shows "graph (release_all dw b order reg) = graph reg - {(n, t). \<exists>k mb. k \<in> set order \<and> fmlookup b k = Some mb \<and> n = mb_name mb \<and> t = ownerToken (dw_id dw) k}"
proof (induction order arbitrary: reg)
  case (Cons k order)
  show ?case
  proof (cases "fmlookup b k")
    case None
    then have "release_all dw b (k # order) reg = release_all dw b order reg" by (simp add: release_all_def)
    then show ?thesis using Cons None by auto
  next
    case (Some mb)
    then have "release_all dw b (k # order) reg = release_all dw b order (registry_release (mb_name mb) (ownerToken (dw_id dw) k) reg)"
      using assms by (simp add: release_all_def)
    then show ?thesis using Cons Some by (auto simp: graph_release)
  qed
qed (simp add: release_all_def)

lemma fmupd_same: "fmlookup m k = Some v \<Longrightarrow> fmupd k v m = m"
  by (rule fmap_ext) auto

lemma syncServices_stopped: "dw_backends dw = None \<Longrightarrow> syncServices s order reg gen dw = ((reg, gen, dw), [])"
  by (simp add: syncServices_def)

lemma reconcile_in_exact:
  assumes "watchers_ok w" and "registry_exact w" and dw: "fmlookup (wd_watchers w) wid = Some dw" and "covers order dw"
  shows "watchers_ok (reconcile_in wid svcs order w) \<and> registry_exact (reconcile_in wid svcs order w)"
proof (cases "dw_backends dw")
  case None
  have "fmupd wid dw (wd_watchers w) = wd_watchers w" using dw by (rule fmupd_same)
  then show ?thesis using assms None
    by (simp add: reconcile_in_def syncServices_stopped watchers_ok_def registry_exact_def all_claims_def)
next
  case (Some b)
  obtain s removed where e: "reconcile_end svcs order (wd_registry w) (wd_gen w) dw b = (s, removed)" by (metis surj_pair)
  have w': "reconcile_in wid svcs order w = w\<lparr>wd_registry := rc_registry s, wd_gen := rc_genSeq s,
      wd_watchers := fmupd wid (dw\<lparr>dw_backends := Some (rc_backends s)\<rparr>) (wd_watchers w),
      wd_listed := fmupd wid (listed svcs) (wd_listed w)\<rparr>"
    using dw syncServices_end [OF Some e] by (simp add: reconcile_in_def)
  have "graph (wd_registry w) = claims_but wid w \<union> claims dw b"
    using assms(2) claims_split [OF dw] Some by (simp add: registry_exact_def claims_of_def)
  from reconcile_claims [OF claims_but_foreign [OF assms(1) dw] this e]
  have "graph (rc_registry s) = claims_but wid w \<union> claims_of (dw\<lparr>dw_backends := Some (rc_backends s)\<rparr>)"
    by (simp add: claims_of_def claims_def)
  then have "registry_exact (reconcile_in wid svcs order w)"
    unfolding w' by (intro registry_exact_upd [where wid = wid and w = w and dw' = "dw\<lparr>dw_backends := Some (rc_backends s)\<rparr>"]) simp_all
  then show ?thesis using assms(1) dw unfolding w' by (simp add: watchers_ok_def)
qed

lemma start_world_facts:
  "fmlookup (wd_watchers (start_world explicit ids)) i = Some dw \<Longrightarrow> dw = NewBackendDiscoveryWatcher i (explicit i) True"
  "wd_registry (start_world explicit ids) = NewNameRegistry" "wd_gen (start_world explicit ids) = 0"
  "wd_listed (start_world explicit ids) = fmempty"
  by (auto simp: start_world_def fmlookup_of_list dest!: map_of_SomeD)

lemma disc_world_exact: "disc_world explicit ids w \<Longrightarrow> watchers_ok w \<and> registry_exact w"
proof (induction rule: disc_world.induct)
  case start
  have "dw_id dw = i \<and> dw_registered dw \<and> claims_of dw = {}"
    if "fmlookup (wd_watchers (start_world explicit ids)) i = Some dw" for i dw
    using start_world_facts(1) [OF that] by (simp add: NewBackendDiscoveryWatcher_def claims_of_def claims_def)
  then show ?case
    by (auto simp: watchers_ok_def registry_exact_def all_claims_def start_world_facts(2) graph_def NewNameRegistry_def)
next
  case (subscribe w wid dw)
  then show ?case by (simp add: watchers_ok_def registry_exact_def all_claims_def registry_subscribe_def graph_def)
next
  case (event w wid dw order svcs)
  then show ?case using reconcile_in_exact by blast
next
  case (kicked w wid dw order svcs)
  then show ?case
    by (intro reconcile_in_exact) (simp_all add: watchers_ok_def registry_exact_def all_claims_def graph_def)
next
  case (initialized w wid dw)
  have "claims_of (finish_initial dw) = claims_of dw"
    by (cases "dw_backends dw") (auto simp: claims_of_def finish_initial_def claims_def)
  then have "registry_exact (w\<lparr>wd_watchers := fmupd wid (finish_initial dw) (wd_watchers w)\<rparr>)"
    using initialized claims_split [OF initialized(2)]
    by (intro registry_exact_upd [where wid = wid and w = w and dw' = "finish_initial dw"]) (simp_all add: registry_exact_def)
  then show ?case using initialized by (simp add: watchers_ok_def finish_initial_def)
next
  case (shutdown w wid dw order)
  have reg: "dw_registered dw" "foreign dw (claims_but wid w)"
    using shutdown claims_but_foreign by (auto simp: watchers_ok_def)
  show ?case
  proof (cases "dw_backends dw")
    case None
    have "fmupd wid dw (wd_watchers w) = wd_watchers w" using shutdown(2) by (rule fmupd_same)
    then show ?thesis using shutdown None by (simp add: discovery_shutdown_def watchers_ok_def registry_exact_def all_claims_def)
  next
    case (Some b)
    have "graph (wd_registry w) = claims_but wid w \<union> claims dw b"
      using shutdown claims_split [OF shutdown(2)] Some by (simp add: registry_exact_def claims_of_def)
    moreover have "claims dw b = {(n, t). \<exists>k mb. k \<in> set order \<and> fmlookup b k = Some mb \<and> n = mb_name mb \<and> t = ownerToken (dw_id dw) k}"
      using shutdown(3) Some reg(1) by (auto simp: claims_def covers_def)
    moreover have F: "(n, ownerToken (dw_id dw) k) \<notin> claims_but wid w" for n k using reg(2) by (auto simp: foreign_def)
    ultimately have "graph (release_all dw b order (wd_registry w)) = claims_but wid w"
      using release_all_claims [OF reg(1), of b order "wd_registry w"] F by auto
    then have "registry_exact (w\<lparr>wd_registry := fst (discovery_shutdown order (wd_registry w) dw),
      wd_watchers := fmupd wid (snd (discovery_shutdown order (wd_registry w) dw)) (wd_watchers w)\<rparr>)"
      using Some by (intro registry_exact_upd [where wid = wid and w = w and dw' = "dw\<lparr>dw_backends := None\<rparr>"])
        (simp_all add: discovery_shutdown_def)
    then show ?thesis using shutdown Some by (simp add: watchers_ok_def discovery_shutdown_def)
  qed
next
  case (unsubscribe w sub wid dw)
  then show ?case by (simp add: watchers_ok_def registry_exact_def all_claims_def registry_unsubscribe_def graph_def)
qed


lemma names_owned:
  assumes "disc_world explicit ids w"
    and "fmlookup (wd_watchers w) i = Some dw" and "dw_backends dw = Some b" and "fmlookup b k = Some mb"
    and "fmlookup (wd_watchers w) i' = Some dw'" and "dw_backends dw' = Some b'" and "fmlookup b' k' = Some mb'"
    and "mb_name mb = mb_name mb'"
  shows "i = i' \<and> k = k'"
proof -
  have ok: "watchers_ok w" "registry_exact w" using disc_world_exact [OF assms(1)] by auto
  have "(mb_name mb, ownerToken i k) \<in> all_claims w" "(mb_name mb', ownerToken i' k') \<in> all_claims w"
    using ok(1) assms(2-7) unfolding all_claims_def watchers_ok_def claims_of_def claims_def by fastforce+
  then have "(mb_name mb, ownerToken i k) \<in> graph (wd_registry w)" "(mb_name mb, ownerToken i' k') \<in> graph (wd_registry w)"
    using ok(2) assms(8) by (simp_all add: registry_exact_def)
  then show ?thesis by (auto simp: graph_def)
qed

text \<open>
  C9: One bare backend name is never served by two Services: over all watchers that share the
  registry, and whatever reconciles, kicks and shutdowns happened, two managed backends with the
  same name are the same backend of the same watcher.
\<close>

theorem names_owned_once:
  assumes "disc_world explicit ids w"
    and "fmlookup (wd_watchers w) i = Some dw" and "dw_backends dw = Some b" and "fmlookup b k = Some mb"
    and "fmlookup (wd_watchers w) i' = Some dw'" and "dw_backends dw' = Some b'" and "fmlookup b' k' = Some mb'"
    and "mb_name mb = mb_name mb'"
  shows "i = i' \<and> k = k'"
  by (rule names_owned [OF assms])

text \<open>What a watcher knows: its subscription, and for every Service of its last listing why it is
  not managed, or a kick that will make it look again.\<close>

definition awake :: "world \<Rightarrow> nat \<Rightarrow> discovery \<Rightarrow> (string, managedBackend) fmap \<Rightarrow> (string, k8s_service) fmap \<Rightarrow> bool" where
  "awake w wid dw b cur \<longleftrightarrow> wid |\<in>| fmran (nr_subscribers (wd_registry w)) \<and>
     (wid |\<in>| nr_kicks (wd_registry w) \<or>
      (\<forall>key svc. fmlookup cur key = Some svc \<longrightarrow> settled dw
         \<lparr>rc_backends = b, rc_registry = wd_registry w, rc_genSeq = wd_gen w, rc_suppressed = []\<rparr> key svc))"

definition world_awake :: "world \<Rightarrow> bool" where
  "world_awake w \<longleftrightarrow> (\<forall>wid dw b cur. fmlookup (wd_watchers w) wid = Some dw \<longrightarrow> dw_backends dw = Some b \<longrightarrow>
     fmlookup (wd_listed w) wid = Some cur \<longrightarrow> awake w wid dw b cur)"

lemma settled_registry:
  assumes "settled dw \<lparr>rc_backends = b, rc_registry = r, rc_genSeq = g, rc_suppressed = []\<rparr> key svc"
    and "\<forall>n t. fmlookup (nr_owners r) n = Some t \<longrightarrow> fmlookup (nr_owners r') n = Some t"
  shows "settled dw \<lparr>rc_backends = b, rc_registry = r', rc_genSeq = g', rc_suppressed = []\<rparr> key svc"
  using assms by (auto simp: settled_def)

lemma awake_step:
  assumes "awake w wid dw b cur" and "kicks_on_release (wd_registry w) (wd_registry w')"
  shows "awake w' wid dw b cur"
proof (cases "\<forall>n t. fmlookup (nr_owners (wd_registry w)) n = Some t \<longrightarrow> fmlookup (nr_owners (wd_registry w')) n = Some t")
  case True
  then show ?thesis using assms settled_registry [OF _ True]
    unfolding awake_def kicks_on_release_def by (metis fsubsetD)
next
  case False
  then have "fmran (nr_subscribers (wd_registry w)) |\<subseteq>| nr_kicks (wd_registry w')"
    using assms(2) by (auto simp: kicks_on_release_def)
  then show ?thesis using assms unfolding awake_def kicks_on_release_def by (metis fsubsetD)
qed

lemma settled_irrelevant:
  "settled dw \<lparr>rc_backends = rc_backends s, rc_registry = rc_registry s, rc_genSeq = g, rc_suppressed = []\<rparr> key svc = settled dw s key svc"
  "settled (dw\<lparr>dw_backends := bb\<rparr>) s key svc = settled dw s key svc"
  by (simp_all add: settled_def)

lemma reconcile_in_awake:
  assumes "watchers_ok w" and dw: "fmlookup (wd_watchers w) wid = Some dw" and "covers order dw"
    and sub: "wid |\<in>| fmran (nr_subscribers (wd_registry w))"
    and others: "\<And>i d b cur. i \<noteq> wid \<Longrightarrow> fmlookup (wd_watchers w) i = Some d \<Longrightarrow> dw_backends d = Some b \<Longrightarrow>
      fmlookup (wd_listed w) i = Some cur \<Longrightarrow> awake w i d b cur"
  shows "world_awake (reconcile_in wid svcs order w)"
proof (cases "dw_backends dw")
  case None
  have "reconcile_in wid svcs order w = w\<lparr>wd_listed := fmupd wid (listed svcs) (wd_listed w)\<rparr>"
    using dw None by (simp add: reconcile_in_def syncServices_stopped fmupd_same)
  then show ?thesis using others dw None by (auto simp: world_awake_def awake_def split: if_splits)
next
  case (Some b)
  obtain s removed where e: "reconcile_end svcs order (wd_registry w) (wd_gen w) dw b = (s, removed)" by (metis surj_pair)
  let ?dw' = "dw\<lparr>dw_backends := Some (rc_backends s)\<rparr>"
  have w': "reconcile_in wid svcs order w = w\<lparr>wd_registry := rc_registry s, wd_gen := rc_genSeq s,
      wd_watchers := fmupd wid ?dw' (wd_watchers w), wd_listed := fmupd wid (listed svcs) (wd_listed w)\<rparr>"
    using dw syncServices_end [OF Some e] by (simp add: reconcile_in_def)
  have cov: "\<forall>k mb. fmlookup b k = Some mb \<longrightarrow> k \<in> set order" using assms(3) Some by (auto simp: covers_def)
  note F = reconcile_facts [OF e cov]
  have self: "awake (reconcile_in wid svcs order w) wid ?dw' (rc_backends s) (listed svcs)"
    using sub F(1,5) unfolding awake_def w' by (simp add: settled_irrelevant kicks_on_release_def)
  have "awake (reconcile_in wid svcs order w) i d b' cur"
    if "i \<noteq> wid" "fmlookup (wd_watchers w) i = Some d" "dw_backends d = Some b'" "fmlookup (wd_listed w) i = Some cur" for i d b' cur
    by (rule awake_step [OF others [OF that]]) (simp add: w' F(5))
  then show ?thesis using self unfolding world_awake_def w' by auto
qed

lemma kicks_subscribe_awake:
  "awake w wid dw b cur \<Longrightarrow> nr_owners r = nr_owners (wd_registry w) \<Longrightarrow> nr_kicks r = nr_kicks (wd_registry w) \<Longrightarrow>
   wid |\<in>| fmran (nr_subscribers r) \<Longrightarrow> awake (w\<lparr>wd_registry := r\<rparr>) wid dw b cur"
  by (simp add: awake_def settled_def)


definition subs_ok :: "NameRegistry \<Rightarrow> bool" where
  "subs_ok r \<longleftrightarrow> (\<forall>sub wid. fmlookup (nr_subscribers r) sub = Some wid \<longrightarrow> sub < nr_subSeq r)"

lemma kicks_release_all: "kicks_on_release reg (release_all dw b order reg)"
proof -
  have "kicks_on_release reg (fold (\<lambda>key r. case fmlookup b key of None \<Rightarrow> r
        | Some mb \<Rightarrow> if dw_registered dw then registry_release (mb_name mb) (ownerToken (dw_id dw) key) r else r) order r0)"
    if "kicks_on_release reg r0" for r0 using that
  proof (induction order arbitrary: r0)
    case (Cons k order)
    have "kicks_on_release reg (case fmlookup b k of None \<Rightarrow> r0
        | Some mb \<Rightarrow> if dw_registered dw then registry_release (mb_name mb) (ownerToken (dw_id dw) k) r0 else r0)"
      using Cons.prems kicks_trans [OF Cons.prems kicks_release] by (auto split: option.split)
    from Cons.IH [OF this] show ?case by simp
  qed simp
  then show ?thesis by (simp add: release_all_def)
qed

lemma reconcile_in_registry:
  assumes "fmlookup (wd_watchers w) wid = Some dw" and "covers order dw"
  shows "kicks_on_release (wd_registry w) (wd_registry (reconcile_in wid svcs order w))"
proof (cases "dw_backends dw")
  case None
  then show ?thesis using assms(1) by (simp add: reconcile_in_def syncServices_stopped)
next
  case (Some b)
  obtain s removed where e: "reconcile_end svcs order (wd_registry w) (wd_gen w) dw b = (s, removed)" by (metis surj_pair)
  have "\<forall>k mb. fmlookup b k = Some mb \<longrightarrow> k \<in> set order" using assms(2) Some by (auto simp: covers_def)
  from reconcile_facts(5) [OF e this] show ?thesis
    using assms(1) syncServices_end [OF Some e] by (simp add: reconcile_in_def)
qed

lemma subs_ok_kicks: "subs_ok r \<Longrightarrow> kicks_on_release r r' \<Longrightarrow> subs_ok r'"
  by (simp add: subs_ok_def kicks_on_release_def)

lemma finish_initial_awake:
  "awake w wid dw b cur \<Longrightarrow> awake (w\<lparr>wd_watchers := ws\<rparr>) wid (finish_initial dw) (fmmap (\<lambda>mb. mb\<lparr>mb_forwarding := True\<rparr>) b) cur"
proof -
  have n: "nameClaimedLocked n ns (fmmap (\<lambda>mb. mb\<lparr>mb_forwarding := True\<rparr>) b) = nameClaimedLocked n ns b" for n ns
    by (auto simp: nameClaimedLocked_def fmlookup_ran'_iff)
  show "awake w wid dw b cur \<Longrightarrow> ?thesis"
    by (simp add: awake_def settled_def n finish_initial_def)
qed

lemma disc_world_awake: "disc_world explicit ids w \<Longrightarrow> subs_ok (wd_registry w) \<and> world_awake w"
proof (induction rule: disc_world.induct)
  case start
  show ?case by (simp add: subs_ok_def start_world_facts NewNameRegistry_def world_awake_def)
next
  case (subscribe w wid dw)
  let ?r = "snd (registry_subscribe wid (wd_registry w))"
  have keep: "i |\<in>| fmran (nr_subscribers (wd_registry w)) \<Longrightarrow> i |\<in>| fmran (nr_subscribers ?r)" for i
    using subscribe(3) by (auto simp: registry_subscribe_def subs_ok_def fmlookup_ran_iff) (metis less_irrefl)
  have "awake (w\<lparr>wd_registry := ?r\<rparr>) i d b cur" if "awake w i d b cur" for i d b cur
    using that keep by (intro kicks_subscribe_awake) (auto simp: registry_subscribe_def awake_def)
  then show ?case using subscribe(3)
    by (auto simp: world_awake_def subs_ok_def registry_subscribe_def less_Suc_eq split: if_splits)
next
  case (event w wid dw order svcs)
  have "watchers_ok w" using disc_world_exact [OF event(1)] by simp
  from reconcile_in_awake [OF this event(2-4)] have "world_awake (reconcile_in wid svcs order w)"
    using event(5) unfolding world_awake_def by blast
  then show ?case using subs_ok_kicks [OF _ reconcile_in_registry [OF event(2,3)]] event(5) by blast
next
  case (kicked w wid dw order svcs)
  let ?w = "w\<lparr>wd_registry := (wd_registry w)\<lparr>nr_kicks := nr_kicks (wd_registry w) |-| {|wid|}\<rparr>\<rparr>"
  have ok: "watchers_ok ?w" using disc_world_exact [OF kicked(1)] by (simp add: watchers_ok_def)
  have "world_awake (reconcile_in wid svcs order ?w)"
  proof (rule reconcile_in_awake [OF ok, where dw = dw])
    fix i d b cur
    assume "i \<noteq> wid" "fmlookup (wd_watchers ?w) i = Some d" "dw_backends d = Some b" "fmlookup (wd_listed ?w) i = Some cur"
    then have "awake w i d b cur" using kicked(6) by (simp add: world_awake_def)
    then show "awake ?w i d b cur" using \<open>i \<noteq> wid\<close> by (auto simp: awake_def settled_def)
  qed (use kicked in simp_all)
  moreover have "subs_ok (wd_registry ?w)" using kicked(6) by (simp add: subs_ok_def)
  ultimately show ?case using subs_ok_kicks reconcile_in_registry [of ?w wid dw order svcs] kicked(2,3) by simp
next
  case (initialized w wid dw)
  have "awake (w\<lparr>wd_watchers := fmupd wid (finish_initial dw) (wd_watchers w)\<rparr>) i d b cur"
    if i: "fmlookup (fmupd wid (finish_initial dw) (wd_watchers w)) i = Some d" "dw_backends d = Some b" "fmlookup (wd_listed w) i = Some cur" for i d b cur
  proof (cases "i = wid")
    case True
    then obtain b0 where b0: "dw_backends dw = Some b0" "b = fmmap (\<lambda>mb. mb\<lparr>mb_forwarding := True\<rparr>) b0" "d = finish_initial dw"
      using i by (auto simp: finish_initial_def)
    have "awake w wid dw b0 cur" using initialized(2,3) b0 i True by (auto simp: world_awake_def)
    then show ?thesis using finish_initial_awake b0 True by simp
  next
    case False
    then have "awake w i d b cur" using i initialized(3) by (simp add: world_awake_def)
    then show ?thesis by (simp add: awake_def)
  qed
  then show ?case using initialized(3) by (simp add: world_awake_def)
next
  case (shutdown w wid dw order)
  have k: "kicks_on_release (wd_registry w) (fst (discovery_shutdown order (wd_registry w) dw))"
    by (cases "dw_backends dw") (simp_all add: discovery_shutdown_def kicks_release_all)
  let ?w' = "w\<lparr>wd_registry := fst (discovery_shutdown order (wd_registry w) dw),
      wd_watchers := fmupd wid (snd (discovery_shutdown order (wd_registry w) dw)) (wd_watchers w)\<rparr>"
  have n: "dw_backends (snd (discovery_shutdown order (wd_registry w) dw)) = None"
    by (cases "dw_backends dw") (simp_all add: discovery_shutdown_def)
  have "awake ?w' i d b cur" if "awake w i d b cur" for i d b cur
    by (rule awake_step [OF that]) (simp add: k)
  then have "world_awake ?w'" using shutdown(4) n unfolding world_awake_def by (auto split: if_splits)
  then show ?case using shutdown(4) subs_ok_kicks [OF _ k] by simp
next
  case (unsubscribe w sub wid dw)
  have keep: "i |\<in>| fmran (nr_subscribers (registry_unsubscribe sub (wd_registry w)))"
    if i: "i |\<in>| fmran (nr_subscribers (wd_registry w))" "i \<noteq> wid" for i
  proof -
    obtain x where "fmlookup (nr_subscribers (wd_registry w)) x = Some i" using i(1) by (auto simp: fmlookup_ran_iff)
    then have "fmlookup (nr_subscribers (registry_unsubscribe sub (wd_registry w))) x = Some i"
      using i(2) unsubscribe(2) by (auto simp: registry_unsubscribe_def)
    then show ?thesis by (rule fmranI)
  qed
  have "awake (w\<lparr>wd_registry := registry_unsubscribe sub (wd_registry w)\<rparr>) i d b cur"
    if "fmlookup (wd_watchers w) i = Some d" "dw_backends d = Some b" "fmlookup (wd_listed w) i = Some cur" for i d b cur
  proof -
    have a: "awake w i d b cur" using that unsubscribe(5) by (simp add: world_awake_def)
    have "i \<noteq> wid" using that unsubscribe(3,4) by auto
    then show ?thesis using a keep by (intro kicks_subscribe_awake) (auto simp: registry_unsubscribe_def awake_def)
  qed
  then show ?case using unsubscribe(5)
    by (auto simp: world_awake_def subs_ok_def registry_unsubscribe_def split: if_splits)
qed

text \<open>
  C10: No Service is orphaned by a lost wakeup: in every reachable state, for every Service of its
  last listing that a running watcher does not manage, the name is explicit, or used by a Service
  of another namespace that the watcher manages, or a live backend of another watcher has it right
  now, or a kick is pending that makes the watcher reconcile again.
\<close>

theorem no_lost_wakeup:
  assumes "disc_world explicit ids w" and "fmlookup (wd_watchers w) i = Some dw" and "dw_backends dw = Some b"
    and "fmlookup (wd_listed w) i = Some cur" and "fmlookup cur key = Some svc" and "fmlookup b key = None"
  shows "svc_Name svc |\<in>| dw_explicitNames dw \<or> nameClaimedLocked (svc_Name svc) (svc_Namespace svc) b \<or>
    i |\<in>| nr_kicks (wd_registry w) \<or>
    (\<exists>i' dw' b' k' mb'. fmlookup (wd_watchers w) i' = Some dw' \<and> dw_backends dw' = Some b' \<and>
       fmlookup b' k' = Some mb' \<and> mb_name mb' = svc_Name svc \<and> (i', k') \<noteq> (i, key))"
proof -
  have ok: "watchers_ok w" "registry_exact w" using disc_world_exact [OF assms(1)] by auto
  have A: "awake w i dw b cur" using disc_world_awake [OF assms(1)] assms(2-4) by (simp add: world_awake_def)
  have "\<exists>i' dw' b' k' mb'. fmlookup (wd_watchers w) i' = Some dw' \<and> dw_backends dw' = Some b' \<and>
       fmlookup b' k' = Some mb' \<and> mb_name mb' = svc_Name svc \<and> (i', k') \<noteq> (i, key)"
    if t: "fmlookup (nr_owners (wd_registry w)) (svc_Name svc) = Some t" "t \<noteq> ownerToken (dw_id dw) key" for t
  proof -
    have "(svc_Name svc, t) \<in> all_claims w" using ok(2) t(1) by (auto simp: registry_exact_def graph_def)
    then obtain i' dw' b' k' mb' where o: "fmlookup (wd_watchers w) i' = Some dw'" "dw_backends dw' = Some b'"
        "fmlookup b' k' = Some mb'" "mb_name mb' = svc_Name svc" "t = ownerToken (dw_id dw') k'"
      by (auto simp: all_claims_def claims_of_def claims_def split: option.splits)
    moreover have "(i', k') \<noteq> (i, key)" using o t(2) ok(1) assms(2) by (auto simp: watchers_ok_def)
    ultimately show ?thesis by blast
  qed
  moreover have "i |\<in>| nr_kicks (wd_registry w) \<or> settled dw
      \<lparr>rc_backends = b, rc_registry = wd_registry w, rc_genSeq = wd_gen w, rc_suppressed = []\<rparr> key svc"
    using A assms(5) unfolding awake_def by blast
  ultimately show ?thesis using assms(6) unfolding settled_def by auto
qed


definition gens_bounded :: "world \<Rightarrow> bool" where
  "gens_bounded w \<longleftrightarrow> (\<forall>i dw b k mb. fmlookup (wd_watchers w) i = Some dw \<longrightarrow> dw_backends dw = Some b \<longrightarrow>
     fmlookup b k = Some mb \<longrightarrow> 0 < mb_gen mb \<and> mb_gen mb \<le> wd_gen w)"

lemma reconcile_in_gens:
  assumes "gens_bounded w" and dw: "fmlookup (wd_watchers w) wid = Some dw" and "covers order dw"
  shows "gens_bounded (reconcile_in wid svcs order w)"
proof (cases "dw_backends dw")
  case None
  have "reconcile_in wid svcs order w = w\<lparr>wd_listed := fmupd wid (listed svcs) (wd_listed w)\<rparr>"
    using dw None by (simp add: reconcile_in_def syncServices_stopped fmupd_same)
  then show ?thesis using assms(1) unfolding gens_bounded_def by (metis world.select_convs(2,3) world.surjective world.update_convs(4))
next
  case (Some b)
  obtain s removed where e: "reconcile_end svcs order (wd_registry w) (wd_gen w) dw b = (s, removed)" by (metis surj_pair)
  have w': "reconcile_in wid svcs order w = w\<lparr>wd_registry := rc_registry s, wd_gen := rc_genSeq s,
      wd_watchers := fmupd wid (dw\<lparr>dw_backends := Some (rc_backends s)\<rparr>) (wd_watchers w),
      wd_listed := fmupd wid (listed svcs) (wd_listed w)\<rparr>"
    using dw syncServices_end [OF Some e] by (simp add: reconcile_in_def)
  have "\<forall>k mb. fmlookup b k = Some mb \<longrightarrow> k \<in> set order" using assms(3) Some by (auto simp: covers_def)
  note F = reconcile_facts [OF e this]
  have old: "fmlookup b k = Some mb \<Longrightarrow> 0 < mb_gen mb \<and> mb_gen mb \<le> wd_gen w" for k mb
    using assms(1) dw Some unfolding gens_bounded_def by blast
  have "0 < mb_gen mb \<and> mb_gen mb \<le> rc_genSeq s" if "fmlookup (rc_backends s) k = Some mb" for k mb
    using F(2,6) old that by fastforce
  then show ?thesis using assms(1) F(6) unfolding gens_bounded_def w'
    by (auto split: if_splits) (meson order_trans)
qed

lemma disc_world_gens: "disc_world explicit ids w \<Longrightarrow> gens_bounded w"
proof (induction rule: disc_world.induct)
  case start
  have "dw_backends dw = Some fmempty" if "fmlookup (wd_watchers (start_world explicit ids)) i = Some dw" for i dw
    using start_world_facts(1) [OF that] by (simp add: NewBackendDiscoveryWatcher_def)
  then show ?case by (auto simp: gens_bounded_def)
next
  case (event w wid dw order svcs)
  then show ?case using reconcile_in_gens by blast
next
  case (kicked w wid dw order svcs)
  then show ?case by (intro reconcile_in_gens) (simp_all add: gens_bounded_def)
next
  case (initialized w wid dw)
  have "0 < mb_gen mb \<and> mb_gen mb \<le> wd_gen w" if "dw_backends (finish_initial dw) = Some b" "fmlookup b k = Some mb" for b k mb
    using that initialized(2,3) by (auto simp: finish_initial_def gens_bounded_def)
  then show ?case using initialized(3) by (auto simp: gens_bounded_def split: if_splits)
next
  case (shutdown w wid dw order)
  have "dw_backends (snd (discovery_shutdown order (wd_registry w) dw)) = None"
    by (cases "dw_backends dw") (simp_all add: discovery_shutdown_def)
  then show ?case using shutdown(4) by (auto simp: gens_bounded_def split: if_splits)
qed (simp_all add: gens_bounded_def)

text \<open>
  A backend adopted by a reconcile has a higher generation than every backend that any watcher
  managed before, and than every removal the reconcile reports, so the consumer, which keeps the
  newest generation of a name, never mistakes it for a stale one; generations are never 0, which
  is kept for explicit backends.
\<close>

theorem adopted_newer:
  assumes "disc_world explicit ids w" and "fmlookup (wd_watchers w) i = Some dw" and "dw_backends dw = Some b"
    and "covers order dw" and "syncServices (Some svcs) order (wd_registry w) (wd_gen w) dw = ((reg', gen', dw'), upds)"
    and "dw_backends dw' = Some b'" and "fmlookup b' k = Some mb" and "fmlookup b k = None"
  shows "0 < mb_gen mb \<and> (\<forall>u\<in>set upds. bu_Gen u < mb_gen mb) \<and>
    (\<forall>i' dw0 b0 k0 mb0. fmlookup (wd_watchers w) i' = Some dw0 \<and> dw_backends dw0 = Some b0 \<and>
       fmlookup b0 k0 = Some mb0 \<longrightarrow> mb_gen mb0 < mb_gen mb)"
proof -
  obtain s removed where e: "reconcile_end svcs order (wd_registry w) (wd_gen w) dw b = (s, removed)" by (metis surj_pair)
  have r: "b' = rc_backends s" "upds = map removal_update removed"
    using syncServices_end [OF assms(3) e] assms(5,6) by auto
  have "\<forall>k mb. fmlookup b k = Some mb \<longrightarrow> k \<in> set order" using assms(3,4) by (auto simp: covers_def)
  note F = reconcile_facts [OF e this]
  have G: "gens_bounded w" by (rule disc_world_gens [OF assms(1)])
  have n: "wd_gen w < mb_gen mb" using F(2) [rule_format, of k mb] assms(7,8) r(1) by auto
  have "bu_Gen u < mb_gen mb" if up: "u \<in> set upds" for u
  proof -
    obtain nm g where u: "u = removal_update (nm, g)" "(nm, g) \<in> set removed" using up r(2) by auto
    then have "g \<le> wd_gen w" using F(4) G assms(2,3) by (auto simp: gens_bounded_def)
    then show ?thesis using u n by (simp add: removal_update_def)
  qed
  moreover have "mb_gen mb0 < mb_gen mb" if "fmlookup (wd_watchers w) i' = Some dw0" "dw_backends dw0 = Some b0"
      "fmlookup b0 k0 = Some mb0" for i' dw0 b0 k0 mb0
    using G that n unfolding gens_bounded_def by (meson le_less_trans)
  ultimately show ?thesis using n by (metis gr0I not_less0)
qed

text \<open>
  The wire protocol between a discovery watcher and the loop is unambiguous: what a forwarding
  goroutine sends for any state of the child, including one without endpoints, is never taken for
  a removal, carries the endpoints and metadata of that state and the generation of its
  incarnation, while a removal notification is taken for a removal of exactly that incarnation.
\<close>

theorem update_protocol:
  "let bc = backendChangeFromUpdate (forward_update mb st); rm = backendChangeFromUpdate (removal_update (n, g)) in
   \<not> bc_removed bc \<and> bc_name bc = mb_name mb \<and> bc_gen bc = mb_gen mb \<and>
   elems (bc_endpoints bc) = elems (bs_Endpoints st) \<and> bc_labels bc = bs_Labels st \<and>
   bc_annotations bc = bs_Annotations st \<and> bc_removed rm \<and> bc_name rm = n \<and> bc_gen rm = g"
  by (simp add: backendChangeFromUpdate_def forward_update_def removal_update_def Let_def)

section \<open>The properties in a concrete world\<close>

text \<open>Two watchers and two Services of the same name in different namespaces.\<close>

definition svc_a :: k8s_service where "svc_a = sample_service\<lparr>svc_Namespace := ''a''\<rparr>"
definition svc_b :: k8s_service where "svc_b = sample_service\<lparr>svc_Namespace := ''b''\<rparr>"

lemma listed_single: "listed [svc] = fmupd (svc_key svc) svc fmempty"
  by (simp add: listed_def)

lemma single_keys [simp]: "sorted_list_of_fset {|k|} = [k]"
  by (simp add: sorted_list_of_fset.rep_eq)

definition world_two :: world where
  "world_two = reconcile_in 2 [svc_b] [] (reconcile_in 7 [svc_a] [] (start_world (\<lambda>_. {||}) {|7, 2|}
     \<lparr>wd_registry := snd (registry_subscribe 2 (snd (registry_subscribe 7 NewNameRegistry)))\<rparr>))"


definition watcher_of :: "nat \<Rightarrow> (string, managedBackend) fmap \<Rightarrow> discovery" where
  "watcher_of i b = \<lparr>dw_id = i, dw_explicitNames = {||}, dw_registered = True, dw_backends = Some b, dw_initialized = False\<rparr>"

definition backend_a :: managedBackend where
  "backend_a = \<lparr>mb_namespace = ''a'', mb_name = ''api'', mb_gen = 1, mb_forwarding = False\<rparr>"

definition reg_two :: NameRegistry where
  "reg_two = \<lparr>nr_owners = fmempty, nr_subscribers = fmupd 1 2 (fmupd 0 7 fmempty), nr_subSeq = 2, nr_kicks = {||}\<rparr>"

lemma reg_two_eq: "snd (registry_subscribe 2 (snd (registry_subscribe 7 NewNameRegistry))) = reg_two"
  by (simp add: registry_subscribe_def NewNameRegistry_def reg_two_def)

lemma reg_two_subs: "7 |\<in>| fmran (nr_subscribers reg_two)" "2 |\<in>| fmran (nr_subscribers reg_two)"
  by (rule fmranI [of _ 0], simp add: reg_two_def) (rule fmranI [of _ 1], simp add: reg_two_def)

lemma svc_ab: "svc_Name svc_a = ''api''" "svc_Name svc_b = ''api''" "svc_Namespace svc_a = ''a''" "svc_Namespace svc_b = ''b''"
  "svc_key svc_a = ''a/api''" "svc_key svc_b = ''b/api''"
  by (simp_all add: svc_a_def svc_b_def sample_service_def svc_key_def)

lemma nameClaimed_empty [simp]: "\<not> nameClaimedLocked n ns fmempty"
  by (auto simp: nameClaimedLocked_def elim!: fmran'E)

lemma sync_a: "syncServices (Some [svc_a]) [] reg_two 0 (watcher_of 7 fmempty) =
    ((reg_two\<lparr>nr_owners := fmupd ''api'' (ownerToken 7 ''a/api'') fmempty\<rparr>, Suc 0, watcher_of 7 (fmupd ''a/api'' backend_a fmempty)), [])"
  by (simp add: syncServices_def watcher_of_def listed_single svc_ab addPass_def add_one_def registry_claim_def reg_two_def adopt_def backend_a_def Let_def)

lemma sync_b: "syncServices (Some [svc_b]) [] (reg_two\<lparr>nr_owners := fmupd ''api'' (ownerToken 7 ''a/api'') fmempty\<rparr>) (Suc 0) (watcher_of 2 fmempty) =
    ((reg_two\<lparr>nr_owners := fmupd ''api'' (ownerToken 7 ''a/api'') fmempty\<rparr>, Suc 0, watcher_of 2 fmempty), [])"
  by (simp add: syncServices_def watcher_of_def listed_single svc_ab addPass_def add_one_def registry_claim_def reg_two_def Let_def)

lemma start_two: "fmlookup (wd_watchers (start_world (\<lambda>_. {||}) {|7, 2|})) 7 = Some (watcher_of 7 fmempty)"
    "fmlookup (wd_watchers (start_world (\<lambda>_. {||}) {|7, 2|})) 2 = Some (watcher_of 2 fmempty)"
  by (simp_all add: start_world_def sorted_list_of_fset.rep_eq NewBackendDiscoveryWatcher_def watcher_of_def fmlookup_of_list)

definition world_one :: world where
  "world_one = (start_world (\<lambda>_. {||}) {|7, 2|})\<lparr>wd_registry := reg_two\<rparr>"

lemma world_one_reach: "disc_world (\<lambda>_. {||}) {|7, 2|} world_one"
  using disc_world.subscribe [OF disc_world.subscribe [OF disc_world.start start_two(1)], of 2] start_two(2)
  by (simp add: world_one_def reg_two_eq start_world_facts)

lemma world_two_facts:
  "disc_world (\<lambda>_. {||}) {|7, 2|} world_two"
  "fmlookup (wd_watchers world_two) 7 = Some (watcher_of 7 (fmupd ''a/api'' backend_a fmempty))"
  "fmlookup (wd_watchers world_two) 2 = Some (watcher_of 2 fmempty)"
  "fmlookup (wd_listed world_two) 2 = Some (fmupd ''b/api'' svc_b fmempty)"
  "nr_kicks (wd_registry world_two) = {||}"
proof -
  let ?w1 = "reconcile_in 7 [svc_a] [] world_one"
  have w1: "?w1 = world_one\<lparr>wd_registry := reg_two\<lparr>nr_owners := fmupd ''api'' (ownerToken 7 ''a/api'') fmempty\<rparr>, wd_gen := Suc 0,
      wd_watchers := fmupd 7 (watcher_of 7 (fmupd ''a/api'' backend_a fmempty)) (wd_watchers world_one),
      wd_listed := fmupd 7 (listed [svc_a]) (wd_listed world_one)\<rparr>"
    by (simp add: reconcile_in_def world_one_def start_two start_world_facts sync_a)
  have two: "world_two = reconcile_in 2 [svc_b] [] ?w1" by (simp add: world_two_def world_one_def reg_two_eq)
  have w2: "fmlookup (wd_watchers ?w1) 2 = Some (watcher_of 2 fmempty)"
    by (subst w1) (simp add: world_one_def start_two)
  have r1: "disc_world (\<lambda>_. {||}) {|7, 2|} ?w1"
    by (rule disc_world.event [OF world_one_reach, where dw = "watcher_of 7 fmempty"])
      (simp_all add: world_one_def start_two covers_def reg_two_subs, simp add: watcher_of_def)
  show "disc_world (\<lambda>_. {||}) {|7, 2|} world_two" unfolding two
    by (rule disc_world.event [OF r1 w2]) (simp_all add: covers_def w1 reg_two_subs, simp add: watcher_of_def)
  show "fmlookup (wd_watchers world_two) 7 = Some (watcher_of 7 (fmupd ''a/api'' backend_a fmempty))"
    "fmlookup (wd_watchers world_two) 2 = Some (watcher_of 2 fmempty)"
    "fmlookup (wd_listed world_two) 2 = Some (fmupd ''b/api'' svc_b fmempty)"
    "nr_kicks (wd_registry world_two) = {||}"
    unfolding two w1 by (simp_all add: reconcile_in_def world_one_def start_two sync_b listed_single svc_ab, simp add: reg_two_def)
qed

theorem names_owned_once_witness:
  "disc_world (\<lambda>_. {||}) {|7, 2|} world_two \<and> mb_name backend_a = ''api'' \<and> (7::nat, ''a/api'') = (7, ''a/api'')"
  using names_owned_once [OF world_two_facts(1,2) _ _ world_two_facts(2), of "fmupd ''a/api'' backend_a fmempty" "''a/api''" backend_a
      "fmupd ''a/api'' backend_a fmempty" "''a/api''" backend_a] world_two_facts(1)
  by (simp add: watcher_of_def backend_a_def)

theorem no_lost_wakeup_witness:
  "\<exists>i' dw' b' k' mb'. fmlookup (wd_watchers world_two) i' = Some dw' \<and> dw_backends dw' = Some b' \<and>
     fmlookup b' k' = Some mb' \<and> mb_name mb' = ''api'' \<and> (i', k') \<noteq> (2, ''b/api'')"
  using no_lost_wakeup [OF world_two_facts(1,3) _ world_two_facts(4), of fmempty "''b/api''" svc_b] world_two_facts(5)
  by (auto simp: watcher_of_def svc_ab)

theorem adopted_newer_witness: "0 < mb_gen backend_a"
  using adopted_newer [OF world_one_reach, of 7 "watcher_of 7 fmempty" fmempty "[]" "[svc_a]"] sync_a
  by (simp add: world_one_def start_two watcher_of_def covers_def start_world_facts)

theorem reconcile_complete_witness:
  "\<exists>b'. dw_backends (watcher_of 7 (fmupd ''a/api'' backend_a fmempty)) = Some b' \<and> fmlookup b' ''a/api'' \<noteq> None"
proof -
  have "dw_backends (watcher_of 7 fmempty) = Some fmempty" by (simp add: watcher_of_def)
  from reconcile_complete [OF this _ sync_a] show ?thesis
    by (auto simp: watcher_of_def)
qed

end
