(* ===== verification/ValueWatchers.thy ===== *)
theory ValueWatchers
  imports Feed Redact EventLoop
begin

text \<open>
  The watchers of template values and of TLS certificates: \<open>ConfigMapWatcher\<close>, \<open>SecretWatcher\<close>,
  \<open>TLSCertWatcher\<close>, \<open>FileValuesWatcher\<close> and the decoding of one entry
  (\<open>internal/watcher/{configmap_watcher,secret_watcher,tls_cert_watcher,file_values_watcher,
  values_decode}.go\<close>). The first three are coalescing feeds; the directory poller adds a rescan
  loop and carries the value of an unreadable file forward.
\<close>

section \<open>Decoding of one entry\<close>

text \<open>
  What \<open>sigs.k8s.io/yaml\<close> (not part of the repository, hence the parameter \<open>yaml\<close>) unmarshals
  with \<open>UseNumber\<close>: a number keeps its literal text. A map is listed in the order of its keys.
\<close>

datatype jvalue = JNil | JBool bool | JNumber string | JStr string
  | JList "jvalue list" | JMap "(string \<times> jvalue) list"

text \<open>
  \<open>normalizeNumbers\<close>. \<open>float\<close> is \<open>json.Number.Float64\<close>, a \<open>float64\<close> being represented by its
  shortest decimal form, \<open>strconv.FormatFloat (f, 'g', -1, 64)\<close>; \<open>json.Number.Int64\<close> is
  \<open>strconv.ParseInt (n, 10, 64)\<close>.
\<close>

fun normalizeNumbers :: "(string \<Rightarrow> string option) \<Rightarrow> jvalue \<Rightarrow> gvalue" where
  "normalizeNumbers float JNil = GNil"
| "normalizeNumbers float (JBool b) = GBool b"
| "normalizeNumbers float (JNumber n) =
     (case parse_int 64 n of
        Some i \<Rightarrow> GInt i
      | None \<Rightarrow> (case float n of Some f \<Rightarrow> GFloat f | None \<Rightarrow> GStr n))"
| "normalizeNumbers float (JStr s) = GStr s"
| "normalizeNumbers float (JList xs) = GList (map (normalizeNumbers float) xs)"
| "normalizeNumbers float (JMap kvs) = GMap (map (\<lambda>kv. (fst kv, normalizeNumbers float (snd kv))) kvs)"

definition isSignedNumber :: "string \<Rightarrow> bool" where
  "isSignedNumber text =
     (if text = [] then False
      else let body = (if hd text = CHR ''-'' then tl text else text) in
           if body = [] then False else list_all (\<lambda>r. is_digit r \<or> r = CHR ''.'') body)"

text \<open>\<open>strings.TrimRight (s, "\n")\<close>.\<close>

definition trim_newlines :: "string \<Rightarrow> string" where
  "trim_newlines s = rev (dropWhile (\<lambda>c. c = CHR 0x0A) (rev s))"

definition structural :: string where
  "structural = CHR 0x0A # '':-[]{}''"

text \<open>\<open>lossyScalar\<close>: the original text, when the decoded scalar no longer renders to it.\<close>

definition lossyScalar :: "string \<Rightarrow> gvalue \<Rightarrow> string option" where
  "lossyScalar raw val =
     (let text = trim_newlines raw in
      if list_ex (\<lambda>c. c \<in> set structural) text \<and> \<not> isSignedNumber text then None
      else case val of
             GNil \<Rightarrow> (if text = [] then Some text else None)
           | GInt i \<Rightarrow> (if show_int i \<noteq> text then Some text else None)
           | GFloat f \<Rightarrow> (if f \<noteq> text then Some text else None)
           | _ \<Rightarrow> None)"

definition decodeValue :: "(string \<Rightarrow> jvalue option) \<Rightarrow> (string \<Rightarrow> string option) \<Rightarrow> string \<Rightarrow> gvalue" where
  "decodeValue yaml float raw =
     (case yaml raw of
        None \<Rightarrow> GStr raw
      | Some j \<Rightarrow>
          let val = normalizeNumbers float j in
          (case lossyScalar raw val of Some text \<Rightarrow> GStr text | None \<Rightarrow> val))"

lemma digit_not_structural: "is_digit c \<Longrightarrow> c \<notin> set structural"
  by (auto simp: structural_def is_digit_iff)

lemma show_nat_plain: "\<not> list_ex (\<lambda>c. c \<in> set structural) (show_nat n)"
  using show_nat_digits [of n] digit_not_structural by (auto simp: list_ex_iff list_all_iff)

lemma show_int_last: "\<exists>cs c. show_int i = cs @ [c] \<and> is_digit c"
proof -
  have "\<exists>cs c. show_nat n = cs @ [c] \<and> is_digit c" for n
    using show_nat_digits [of n] show_nat_nonempty [of n]
    by (metis append_butlast_last_id last_in_set list_all_iff)
  then obtain cs c ds d where "show_nat (nat i) = cs @ [c]" "is_digit c"
    "show_nat (nat (- i)) = ds @ [d]" "is_digit d" by meson
  then show ?thesis
    by (cases "i < 0") (auto simp: show_int_def intro: exI [of _ "CHR ''-'' # ds"])
qed

lemma trim_show_int [simp]: "trim_newlines (show_int i) = show_int i"
proof -
  obtain cs c where c: "show_int i = cs @ [c]" "is_digit c" using show_int_last by blast
  have "c \<noteq> CHR 0x0A" using c(2) digit_not_structural [of c] by (auto simp: structural_def)
  then show ?thesis by (simp add: trim_newlines_def c(1))
qed

lemma isSignedNumber_show_int: "isSignedNumber (show_int i)"
proof -
  have dig: "list_all (\<lambda>r. is_digit r \<or> r = CHR ''.'') (show_nat n)" for n
    using show_nat_digits [of n] by (auto simp: list_all_iff)
  show ?thesis
  proof (cases "i < 0")
    case True
    then show ?thesis using dig by (simp add: isSignedNumber_def show_int_def)
  next
    case False
    obtain c cs where c: "show_nat (nat i) = c # cs" "is_digit c" using show_nat_head by blast
    then have "c \<noteq> CHR ''-''" using not_digit_sign by auto
    then show ?thesis using False c dig [of "nat i"]
      by (simp add: isSignedNumber_def show_int_def)
  qed
qed

text \<open>A number that survives decoding prints as the text it was written as.\<close>

lemma lossyScalar_int:
  "lossyScalar raw (GInt i) = None \<Longrightarrow>
   \<not> list_ex (\<lambda>c. c \<in> set structural) (trim_newlines raw) \<or> isSignedNumber (trim_newlines raw) \<Longrightarrow>
   show_int i = trim_newlines raw"
  by (auto simp: lossyScalar_def Let_def split: if_splits)

text \<open>
  An entry that holds a plain scalar (nothing of the structure of YAML in it) and that YAML
  resolves to a number reaches the template as that number only when the number prints back to
  the very text of the entry; otherwise the template gets the text itself. So no number is ever
  rendered differently from what the operator wrote: no octal rewriting, no lost trailing zero, no
  exponent, no loss of precision.
\<close>

theorem plain_numbers_verbatim:
  assumes "yaml raw = Some (JNumber n)"
    and "parse_int 64 n = Some i \<or> float n = Some f"
    and "list_all (\<lambda>c. c \<notin> set structural) (trim_newlines raw) \<or> isSignedNumber (trim_newlines raw)"
  shows "case decodeValue yaml float raw of
           GInt j \<Rightarrow> parse_int 64 n = Some j \<and> show_int j = trim_newlines raw
         | GFloat g \<Rightarrow> float n = Some g \<and> g = trim_newlines raw
         | GStr s \<Rightarrow> s = trim_newlines raw
         | _ \<Rightarrow> False"
proof -
  have plain: "\<not> (list_ex (\<lambda>c. c \<in> set structural) (trim_newlines raw) \<and>
      \<not> isSignedNumber (trim_newlines raw))"
    using assms(3) by (auto simp: list_all_iff list_ex_iff)
  show ?thesis
  proof (cases "parse_int 64 n")
    case (Some j)
    then show ?thesis using assms(1) plain
      by (cases "show_int j = trim_newlines raw") (simp_all add: decodeValue_def lossyScalar_def Let_def)
  next
    case None
    then have "float n = Some f" using assms(2) by simp
    with None show ?thesis using assms(1) plain
      by (cases "f = trim_newlines raw") (simp_all add: decodeValue_def lossyScalar_def Let_def)
  qed
qed

definition sample_yaml :: "string \<Rightarrow> jvalue option" where
  "sample_yaml s = (if s = ''0755'' then Some (JNumber ''493'') else Some (JStr s))"

lemma plain_numbers_verbatim_witness:
  "sample_yaml ''0755'' = Some (JNumber ''493'') \<and>
   decodeValue sample_yaml (\<lambda>_. None) ''0755'' = GStr ''0755'' \<and>
   (case decodeValue sample_yaml (\<lambda>_. None) ''0755'' of
      GInt j \<Rightarrow> parse_int 64 ''493'' = Some j \<and> show_int j = trim_newlines ''0755''
    | GFloat g \<Rightarrow> (\<lambda>_. None) ''493'' = Some g \<and> g = trim_newlines ''0755''
    | GStr s \<Rightarrow> s = trim_newlines ''0755''
    | _ \<Rightarrow> False)"
proof (intro conjI)
  have p: "parse_int 64 ''493'' = Some 493"
    by (simp add: parse_int_def parse_nat_def is_digit_iff digits_val_def digit_val_def)
  have t: "trim_newlines ''0755'' = ''0755''" by (simp add: trim_newlines_def)
  have show_int_493: "show_int 493 = ''493''"
    by (simp add: show_int_def show_nat.simps digit_char_def char_of_def bit_0)
  show y: "sample_yaml ''0755'' = Some (JNumber ''493'')" by (simp add: sample_yaml_def)
  show "decodeValue sample_yaml (\<lambda>_. None) ''0755'' = GStr ''0755''"
    by (simp add: decodeValue_def sample_yaml_def p lossyScalar_def Let_def t show_int_493 structural_def)
  have l: "list_all (\<lambda>c. c \<notin> set structural) (trim_newlines ''0755'') \<or> isSignedNumber (trim_newlines ''0755'')"
    by (simp add: t structural_def)
  show "case decodeValue sample_yaml (\<lambda>_. None) ''0755'' of
      GInt j \<Rightarrow> parse_int 64 ''493'' = Some j \<and> show_int j = trim_newlines ''0755''
    | GFloat g \<Rightarrow> (\<lambda>_. None) ''493'' = Some g \<and> g = trim_newlines ''0755''
    | GStr s \<Rightarrow> s = trim_newlines ''0755''
    | _ \<Rightarrow> False"
    by (rule plain_numbers_verbatim [where float = "\<lambda>_. None" and f = "[]" and i = 493
      and n = "''493''"]) (simp_all only: y p l simp_thms)
qed

text \<open>
  Every integer of 64 bits that is written in decimal survives decoding exactly: the template
  receives that integer, not a floating-point approximation of it, however large it is. The
  hypothesis is what YAML documents for a plain decimal integer, with numbers kept as literals.
\<close>

theorem int64_decodes_exactly:
  assumes "yaml (show_int i) = Some (JNumber (show_int i))"
    and "- (2 ^ 63) \<le> i" and "i < 2 ^ 63"
  shows "decodeValue yaml float (show_int i) = GInt i"
proof -
  have "parse_int 64 (show_int i) = Some i" using assms(2,3) by (intro parse_int_show_int) simp_all
  then show ?thesis
    using assms(1) isSignedNumber_show_int [of i] by (simp add: decodeValue_def lossyScalar_def)
qed

lemma int64_decodes_exactly_witness:
  "show_int (- 9007199254740993) = ''-9007199254740993'' \<and>
   decodeValue (\<lambda>s. Some (JNumber s)) (\<lambda>_. None) (show_int (- 9007199254740993)) =
     GInt (- 9007199254740993)"
proof
  show "show_int (- 9007199254740993) = ''-9007199254740993''"
    by (simp add: show_int_def show_nat.simps digit_char_def char_of_def bit_0)
  show "decodeValue (\<lambda>s. Some (JNumber s)) (\<lambda>_. None) (show_int (- 9007199254740993)) =
     GInt (- 9007199254740993)"
    by (rule int64_decodes_exactly) simp_all
qed

section \<open>The watchers of one object\<close>

text \<open>
  The delivered map; \<open>None\<close> is the nil map, which \<open>reflect.DeepEqual\<close> tells from an empty one.
\<close>

type_synonym values_map = "(string, gvalue) fmap option"

text \<open>The fields \<open>ch\<close>, \<open>previous\<close> and \<open>synced\<close> of the four watchers.\<close>

record 'v value_watcher =
  vw_ch :: "'v list"
  vw_previous :: 'v
  vw_synced :: bool

definition NewConfigMapWatcher :: "values_map value_watcher" where
  "NewConfigMapWatcher = \<lparr>vw_ch = [], vw_previous = None, vw_synced = False\<rparr>"

definition NewSecretWatcher :: "values_map value_watcher" where
  "NewSecretWatcher = \<lparr>vw_ch = [], vw_previous = None, vw_synced = False\<rparr>"

definition NewTLSCertWatcher :: "tls_cert_data value_watcher" where
  "NewTLSCertWatcher = \<lparr>vw_ch = [], vw_previous = \<lparr>tls_Cert = [], tls_Key = [], tls_CA = []\<rparr>,
     vw_synced = False\<rparr>"

text \<open>\<open>sendLocked\<close> of the watchers of values.\<close>

definition values_sendLocked :: "values_map \<Rightarrow> values_map value_watcher \<Rightarrow> values_map value_watcher" where
  "values_sendLocked data w =
     (if vw_synced w \<and> data = vw_previous w then w
      else w\<lparr>vw_synced := True, vw_previous := data, vw_ch := coalescing_send (vw_ch w) data\<rparr>)"

text \<open>\<open>sync\<close> on what the lister holds, \<open>None\<close> when it holds no such object.\<close>

definition configmap_sync :: "(string \<Rightarrow> jvalue option) \<Rightarrow> (string \<Rightarrow> string option) \<Rightarrow>
    strmap option \<Rightarrow> values_map value_watcher \<Rightarrow> values_map value_watcher" where
  "configmap_sync yaml float cm w =
     (case cm of
        None \<Rightarrow> values_sendLocked None w
      | Some Data \<Rightarrow> values_sendLocked (Some (fmmap (decodeValue yaml float) Data)) w)"

definition secret_sync :: "(string \<Rightarrow> jvalue option) \<Rightarrow> (string \<Rightarrow> string option) \<Rightarrow>
    strmap option \<Rightarrow> values_map value_watcher \<Rightarrow> values_map value_watcher" where
  "secret_sync yaml float secret w =
     (case secret of
        None \<Rightarrow> values_sendLocked None w
      | Some Data \<Rightarrow> values_sendLocked (Some (fmmap (decodeValue yaml float) Data)) w)"

definition tls_equal :: "tls_cert_data \<Rightarrow> tls_cert_data \<Rightarrow> bool" where
  "tls_equal d e \<longleftrightarrow> tls_Cert d = tls_Cert e \<and> tls_Key d = tls_Key e \<and> tls_CA d = tls_CA e"

lemma tls_equal_iff [simp]: "tls_equal d e \<longleftrightarrow> d = e"
  by (cases d; cases e) (auto simp: tls_equal_def)

definition tls_sendLocked :: "tls_cert_data \<Rightarrow> tls_cert_data value_watcher \<Rightarrow> tls_cert_data value_watcher" where
  "tls_sendLocked data w =
     (if vw_synced w \<and> tls_equal data (vw_previous w) then w
      else w\<lparr>vw_synced := True, vw_previous := data, vw_ch := coalescing_send (vw_ch w) data\<rparr>)"

text \<open>A missing key of the map of a Secret reads as the empty slice.\<close>

definition data_key :: "string \<Rightarrow> strmap \<Rightarrow> string" where
  "data_key k Data = (case fmlookup Data k of Some v \<Rightarrow> v | None \<Rightarrow> [])"

definition tls_material :: "strmap option \<Rightarrow> tls_cert_data" where
  "tls_material secret =
     (case secret of
        None \<Rightarrow> \<lparr>tls_Cert = [], tls_Key = [], tls_CA = []\<rparr>
      | Some Data \<Rightarrow> \<lparr>tls_Cert = data_key ''tls.crt'' Data, tls_Key = data_key ''tls.key'' Data,
          tls_CA = data_key ''ca.crt'' Data\<rparr>)"

definition tls_sync :: "strmap option \<Rightarrow> tls_cert_data value_watcher \<Rightarrow> tls_cert_data value_watcher" where
  "tls_sync secret w = tls_sendLocked (tls_material secret) w"

text \<open>The consumer takes the buffered value.\<close>

definition value_receive :: "'v value_watcher \<Rightarrow> 'v value_watcher" where
  "value_receive w = w\<lparr>vw_ch := chan_drain (vw_ch w)\<rparr>"

definition value_feed :: "'v value_watcher \<Rightarrow> 'v feed" where
  "value_feed w = (vw_synced w, vw_previous w, vw_ch w)"

lemma value_feed_receive: "value_feed (value_receive w) = feed_receive (value_feed w)"
  by (simp add: value_feed_def value_receive_def)

lemma values_feed_send: "value_feed (values_sendLocked d w) = feed_publish (=) (Some d) (value_feed w)"
  by (auto simp: value_feed_def values_sendLocked_def)

lemma tls_feed_send: "value_feed (tls_sendLocked d w) = feed_publish tls_equal (Some d) (value_feed w)"
  by (auto simp: value_feed_def tls_sendLocked_def)

text \<open>What one lister result decodes to.\<close>

definition decoded_object :: "(string \<Rightarrow> jvalue option) \<Rightarrow> (string \<Rightarrow> string option) \<Rightarrow> strmap option \<Rightarrow> values_map" where
  "decoded_object yaml float cm = map_option (fmmap (decodeValue yaml float)) cm"

lemma configmap_sync_feed: "configmap_sync yaml float cm w = values_sendLocked (decoded_object yaml float cm) w"
  by (simp add: configmap_sync_def decoded_object_def split: option.split)

lemma secret_sync_feed: "secret_sync yaml float cm w = values_sendLocked (decoded_object yaml float cm) w"
  by (simp add: secret_sync_def decoded_object_def split: option.split)

interpretation cw: coalescing_feed value_feed "\<lambda>_. ()" "configmap_sync yaml float"
  "\<lambda>_ cm. Some (decoded_object yaml float cm)" value_receive "(=)"
  by unfold_locales (auto simp: configmap_sync_feed values_feed_send value_feed_receive)

interpretation sw: coalescing_feed value_feed "\<lambda>_. ()" "secret_sync yaml float"
  "\<lambda>_ cm. Some (decoded_object yaml float cm)" value_receive "(=)"
  by unfold_locales (auto simp: secret_sync_feed values_feed_send value_feed_receive)

interpretation tw: coalescing_feed value_feed "\<lambda>_. ()" tls_sync
  "\<lambda>_ secret. Some (tls_material secret)" value_receive tls_equal
  by unfold_locales (auto simp: tls_sync_def tls_feed_send value_feed_receive)

lemma value_feed_chan [simp]: "feed_chan (value_feed w) = vw_ch w"
  by (simp add: feed_chan_def value_feed_def)

lemma value_feed_init [simp]:
  "feed_ok (value_feed NewConfigMapWatcher) None"
  "feed_ok (value_feed NewSecretWatcher) None"
  "feed_ok (value_feed NewTLSCertWatcher) None"
  by (simp_all add: value_feed_def NewConfigMapWatcher_def NewSecretWatcher_def NewTLSCertWatcher_def)

text \<open>
  Whatever the interleaving of the informer's syncs and of the consumer's receives, the
  consumer of a ConfigMap and of a Secret ends with the decoding of what the last sync listed:
  the nil map when the object is gone, and otherwise every key with its decoded value.
\<close>

theorem values_delivers_latest:
  assumes "last_value (\<lambda>cm. Some (decoded_object yaml float cm)) ops None = Some vals"
  shows "feed_view vw_ch (feed_run (configmap_sync yaml float) value_receive vw_ch ops
           (NewConfigMapWatcher, None)) = Some vals \<and>
    feed_view vw_ch (feed_run (secret_sync yaml float) value_receive vw_ch ops
           (NewSecretWatcher, None)) = Some vals"
  using cw.convergence [OF value_feed_init(1) assms] sw.convergence [OF value_feed_init(2) assms]
  by simp_all

theorem values_delivers_latest_witness:
  "feed_view vw_ch (feed_run (configmap_sync sample_yaml (\<lambda>_. None)) value_receive vw_ch
      [Sync (Some fmempty), Receive, Sync (Some (fmupd ''k'' ''v'' fmempty)), Sync None]
      (NewConfigMapWatcher, None)) = Some None"
proof -
  have "last_value (\<lambda>cm. Some (decoded_object sample_yaml (\<lambda>_. None) cm))
      [Sync (Some fmempty), Receive, Sync (Some (fmupd ''k'' ''v'' fmempty)), Sync None] None
      = Some None"
    by (simp add: decoded_object_def)
  from values_delivers_latest [OF this] show ?thesis by simp
qed

text \<open>
  Whatever the interleaving, the consumer of a TLS Secret ends with the certificate, the key
  and the CA of the last listed Secret, byte for byte, and with the empty material when the
  Secret is gone.
\<close>

theorem tls_delivers_latest:
  assumes "last_value (\<lambda>secret. Some (tls_material secret)) ops None = Some d"
  shows "feed_view vw_ch (feed_run tls_sync value_receive vw_ch ops (NewTLSCertWatcher, None)) = Some d"
  using tw.convergence [OF value_feed_init(3) assms] by simp

theorem tls_delivers_latest_witness:
  "feed_view vw_ch (feed_run tls_sync value_receive vw_ch
      [Sync None, Receive, Sync (Some (fmupd ''tls.crt'' ''c'' fmempty))] (NewTLSCertWatcher, None)) =
   Some \<lparr>tls_Cert = ''c'', tls_Key = [], tls_CA = []\<rparr>"
proof -
  have "last_value (\<lambda>secret. Some (tls_material secret))
      [Sync None, Receive, Sync (Some (fmupd ''tls.crt'' ''c'' fmempty))] None =
      Some \<lparr>tls_Cert = ''c'', tls_Key = [], tls_CA = []\<rparr>"
    by (simp add: tls_material_def data_key_def)
  from tls_delivers_latest [OF this] show ?thesis .
qed

section \<open>The directory poller\<close>

text \<open>What \<open>os.ReadDir\<close> and \<open>os.ReadFile\<close> report of one entry, \<open>None\<close> when the read fails.\<close>

record dir_entry =
  e_name :: string
  e_isDir :: bool
  e_data :: "string option"

text \<open>\<open>filepath.Ext\<close>: the suffix from the last dot, empty when there is none.\<close>

definition path_ext :: "string \<Rightarrow> string" where
  "path_ext name = (if CHR ''.'' \<in> set name
     then CHR ''.'' # rev (takeWhile (\<lambda>c. c \<noteq> CHR ''.'') (rev name)) else [])"

definition is_values_file :: "dir_entry \<Rightarrow> bool" where
  "is_values_file e \<longleftrightarrow> \<not> e_isDir e \<and> \<not> prefix ''.'' (e_name e) \<and>
     (path_ext (e_name e) = ''.yaml'' \<or> path_ext (e_name e) = ''.yml'')"

definition values_key :: "dir_entry \<Rightarrow> string" where
  "values_key e = take (length (e_name e) - length (path_ext (e_name e))) (e_name e)"

text \<open>The loop of \<open>readFiles\<close> over the listing; \<open>dec\<close> is \<open>decodeValue\<close>.\<close>

fun read_loop :: "(string \<Rightarrow> gvalue) \<Rightarrow> dir_entry list \<Rightarrow> (string, gvalue) fmap \<Rightarrow> string list \<Rightarrow>
    (string, gvalue) fmap \<times> string list" where
  "read_loop dec [] parsed unreadable = (parsed, unreadable)"
| "read_loop dec (e # es) parsed unreadable =
     (if \<not> is_values_file e then read_loop dec es parsed unreadable
      else case e_data e of
             None \<Rightarrow> read_loop dec es parsed (unreadable @ [values_key e])
           | Some data \<Rightarrow> read_loop dec es (fmupd (values_key e) (dec data) parsed) unreadable)"

text \<open>\<open>readFiles\<close>, \<open>None\<close> when the listing failed.\<close>

definition readFiles :: "(string \<Rightarrow> gvalue) \<Rightarrow> dir_entry list option \<Rightarrow>
    ((string, gvalue) fmap \<times> string list) option" where
  "readFiles dec listing = map_option (\<lambda>es. read_loop dec es fmempty []) listing"

text \<open>The carry-forward of \<open>send\<close>: a key that was never delivered stays absent.\<close>

fun carry_forward :: "(string, gvalue) fmap \<Rightarrow> string list \<Rightarrow> (string, gvalue) fmap \<Rightarrow>
    (string, gvalue) fmap" where
  "carry_forward previous [] data = data"
| "carry_forward previous (key # keys) data =
     (case fmlookup previous key of
        None \<Rightarrow> carry_forward previous keys data
      | Some prev \<Rightarrow> carry_forward previous keys (fmupd key prev data))"

definition file_send :: "values_map \<Rightarrow> string list \<Rightarrow> values_map value_watcher \<Rightarrow> values_map value_watcher" where
  "file_send data unreadable w =
     values_sendLocked
       (case data of
          None \<Rightarrow> None
        | Some m \<Rightarrow> Some (carry_forward (case vw_previous w of Some p \<Rightarrow> p | None \<Rightarrow> fmempty) unreadable m)) w"

text \<open>
  One pass: where \<open>..data\<close> points before and after it (\<open>None\<close> when the link cannot be read) and
  what the listing was.
\<close>

record scan_pass =
  sp_before :: "string option"
  sp_listing :: "dir_entry list option"
  sp_after :: "string option"

definition maxScanAttempts :: nat where
  "maxScanAttempts = 3"

text \<open>
  The loop of \<open>scan\<close> over the attempts left, with the snapshot of the previous pass: the snapshot
  to send, or \<open>None\<close> when no pass could list the directory.
\<close>

fun scan_loop :: "(string \<Rightarrow> gvalue) \<Rightarrow> scan_pass list \<Rightarrow> ((string, gvalue) fmap \<times> string list) option \<Rightarrow>
    ((string, gvalue) fmap \<times> string list) option" where
  "scan_loop dec [] snap = snap"
| "scan_loop dec (p # ps) snap =
     (case readFiles dec (sp_listing p) of
        None \<Rightarrow> snap
      | Some r \<Rightarrow>
          if sp_before p = None then Some r
          else if sp_after p \<noteq> None \<and> sp_after p = sp_before p then Some r
          else scan_loop dec ps (Some r))"

definition file_scan :: "(string \<Rightarrow> gvalue) \<Rightarrow> (nat \<Rightarrow> scan_pass) \<Rightarrow> values_map value_watcher \<Rightarrow>
    values_map value_watcher" where
  "file_scan dec passes w =
     (case scan_loop dec (map passes [0..<maxScanAttempts]) None of
        None \<Rightarrow> (if \<not> vw_synced w then file_send None [] w else w)
      | Some (parsed, unreadable) \<Rightarrow> file_send (Some parsed) unreadable w)"

text \<open>\<open>Run\<close>: a first scan, then one per tick, until the context ends.\<close>

fun file_run :: "(string \<Rightarrow> gvalue) \<Rightarrow> (nat \<Rightarrow> scan_pass) list \<Rightarrow> values_map value_watcher \<Rightarrow>
    values_map value_watcher" where
  "file_run dec [] w = w"
| "file_run dec (ps # pss) w = file_run dec pss (file_scan dec ps w)"

subsection \<open>What a pass reads\<close>

text \<open>The last readable file of a key; two files of one key differ in their extension.\<close>

definition file_value :: "(string \<Rightarrow> gvalue) \<Rightarrow> dir_entry list \<Rightarrow> string \<Rightarrow> gvalue option" where
  "file_value dec es k =
     (case [d. e \<leftarrow> es, is_values_file e, values_key e = k, Some d \<leftarrow> [e_data e]] of
        [] \<Rightarrow> None | ds \<Rightarrow> Some (dec (last ds)))"

definition unreadable_key :: "dir_entry list \<Rightarrow> string \<Rightarrow> bool" where
  "unreadable_key es k \<longleftrightarrow>
     list_ex (\<lambda>e. is_values_file e \<and> values_key e = k \<and> e_data e = None) es"

lemma file_value_Cons: "file_value dec (e # es) k =
  (case file_value dec es k of
     Some v \<Rightarrow> Some v
   | None \<Rightarrow> (if is_values_file e \<and> values_key e = k then map_option dec (e_data e) else None))"
proof -
  have data: "[d. Some d \<leftarrow> [x]] = (case x of Some d \<Rightarrow> [d] | None \<Rightarrow> [])" for x :: "string option"
    by (cases x) simp_all
  define ds where "ds = [d. e \<leftarrow> es, is_values_file e, values_key e = k, Some d \<leftarrow> [e_data e]]"
  have "file_value dec (e # es) k =
     (case (if is_values_file e \<and> values_key e = k
            then case e_data e of Some d \<Rightarrow> [d] | None \<Rightarrow> [] else []) @ ds
      of [] \<Rightarrow> None | ds \<Rightarrow> Some (dec (last ds)))"
    unfolding file_value_def ds_def by (cases "e_data e") simp_all
  moreover have "file_value dec es k = (case ds of [] \<Rightarrow> None | ds \<Rightarrow> Some (dec (last ds)))"
    unfolding file_value_def ds_def ..
  ultimately show ?thesis
    by (cases ds; cases "e_data e"; cases "is_values_file e \<and> values_key e = k") simp_all
qed

lemma read_loop_value:
  "fmlookup (fst (read_loop dec es parsed un)) k =
     (case file_value dec es k of Some v \<Rightarrow> Some v | None \<Rightarrow> fmlookup parsed k)"
proof (induction es arbitrary: parsed un)
  case Nil
  then show ?case by (simp add: file_value_def)
next
  case (Cons e es)
  then show ?case
    by (cases "is_values_file e"; cases "e_data e") (auto simp: file_value_Cons split: option.split)
qed

lemma read_loop_unreadable:
  "set (snd (read_loop dec es parsed un)) = set un \<union> {k. unreadable_key es k}"
proof (induction es arbitrary: parsed un)
  case Nil
  then show ?case by (simp add: unreadable_key_def)
next
  case (Cons e es)
  then show ?case
    by (cases "is_values_file e"; cases "e_data e") (auto simp: unreadable_key_def)
qed

lemma carry_forward_lookup:
  "fmlookup (carry_forward previous keys data) k =
     (if k \<in> set keys \<and> fmlookup previous k \<noteq> None then fmlookup previous k else fmlookup data k)"
proof (induction keys arbitrary: data)
  case (Cons key keys)
  then show ?case by (cases "fmlookup previous key") auto
qed simp

lemma values_sendLocked_previous [simp]: "vw_previous (values_sendLocked d w) = d"
  by (auto simp: values_sendLocked_def)

lemma values_sendLocked_synced [simp]: "vw_synced (values_sendLocked d w)"
  by (simp add: values_sendLocked_def)

text \<open>The passes of a scan that it makes, and the snapshot it takes: that of the last of them.\<close>

definition settled :: "scan_pass \<Rightarrow> bool" where
  "settled p \<longleftrightarrow> sp_before p = None \<or> sp_after p = sp_before p"

lemma scan_loop_settled:
  "sp_listing p = Some es \<Longrightarrow> settled p \<Longrightarrow>
   scan_loop dec (p # ps) snap = Some (read_loop dec es fmempty [])"
  by (auto simp: readFiles_def settled_def)

lemma scan_loop_listed:
  "scan_loop dec ps snap = Some r \<Longrightarrow>
   snap = Some r \<or> (\<exists>p\<in>set ps. \<exists>es. sp_listing p = Some es \<and> r = read_loop dec es fmempty [])"
proof (induction ps arbitrary: snap)
  case (Cons p ps)
  show ?case
  proof (cases "sp_listing p")
    case None
    then show ?thesis using Cons.prems by (simp add: readFiles_def)
  next
    case (Some es)
    then show ?thesis using Cons.prems Cons.IH [of "Some (read_loop dec es fmempty [])"]
      by (cases "sp_before p = None"; cases "sp_after p \<noteq> None \<and> sp_after p = sp_before p")
        (auto simp: readFiles_def)
  qed
qed simp

lemma scan_loop_Some: "scan_loop dec ps (Some r) \<noteq> None"
  by (induction ps arbitrary: r) (simp_all split: option.split)

lemma scan_loop_first:
  assumes "sp_listing p = Some es"
  shows "\<exists>r. scan_loop dec (p # ps) snap = Some r"
  using assms scan_loop_Some [of dec ps "read_loop dec es fmempty []"]
  by (simp add: readFiles_def)

lemma scan_loop_unlisted: "sp_listing p = None \<Longrightarrow> scan_loop dec (p # ps) snap = snap"
  by (simp add: readFiles_def)

lemma scan_passes: "map passes [0..<maxScanAttempts] = [passes 0, passes 1, passes 2]"
  by (simp add: maxScanAttempts_def upt_rec numeral_3_eq_3 numeral_2_eq_2)

subsection \<open>What a scan publishes\<close>

text \<open>The map one complete listing stands for, given what was delivered before.\<close>

definition file_snapshot :: "(string \<Rightarrow> gvalue) \<Rightarrow> dir_entry list \<Rightarrow> (string, gvalue) fmap \<Rightarrow> string \<Rightarrow> gvalue option" where
  "file_snapshot dec es prev k =
     (if unreadable_key es k \<and> fmlookup prev k \<noteq> None then fmlookup prev k else file_value dec es k)"

definition delivered :: "values_map \<Rightarrow> (string, gvalue) fmap" where
  "delivered v = (case v of Some m \<Rightarrow> m | None \<Rightarrow> fmempty)"

lemma file_send_snapshot:
  assumes "r = read_loop dec es fmempty []"
  shows "\<exists>m. vw_previous (file_send (Some (fst r)) (snd r) w) = Some m \<and>
     fmlookup m = file_snapshot dec es (delivered (vw_previous w))"
proof -
  have "fmlookup (carry_forward (delivered (vw_previous w)) (snd r) (fst r)) k =
      file_snapshot dec es (delivered (vw_previous w)) k" for k
    unfolding carry_forward_lookup assms file_snapshot_def
    by (simp add: read_loop_unreadable read_loop_value split: option.split)
  then show ?thesis by (auto simp: file_send_def delivered_def)
qed

text \<open>
  What a scan of the values directory leaves as the delivered map. When no pass could list the
  directory, the values stay as they were (the empty map only if nothing was ever delivered).
  Otherwise it is the map of one complete listing among those the scan made: every key has the
  decoded content of its last readable file, a key without a file is gone, and a key with a file
  that could not be read keeps the value that was last delivered, so a transient read error never
  deletes a value. When the \<open>..data\<close> link did not move during the first pass, that listing is the
  first one: no snapshot mixes two generations of a mounted volume.
\<close>

theorem scan_publishes_snapshot:
  "case sp_listing (passes 0) of
     None \<Rightarrow> file_scan dec passes w = (if vw_synced w then w else file_send None [] w)
   | Some _ \<Rightarrow> \<exists>n es m. n \<le> (if settled (passes 0) then 0 else maxScanAttempts - 1) \<and>
       sp_listing (passes n) = Some es \<and>
       vw_synced (file_scan dec passes w) \<and> vw_previous (file_scan dec passes w) = Some m \<and>
       fmlookup m = file_snapshot dec es (delivered (vw_previous w))"
proof (cases "sp_listing (passes 0)")
  case None
  then show ?thesis by (simp add: file_scan_def scan_passes scan_loop_unlisted del: scan_loop.simps)
next
  case (Some es)
  have run: "file_scan dec passes w = file_send (Some (fst r)) (snd r) w"
    if "scan_loop dec [passes 0, passes 1, passes 2] None = Some r" for r
    using that by (cases r) (simp add: file_scan_def scan_passes)
  have ok: "vw_synced (file_send d u w)" for d u by (simp add: file_send_def)
  show ?thesis
  proof (cases "settled (passes 0)")
    case True
    from run [OF scan_loop_settled [OF Some True]] file_send_snapshot [OF refl, of dec es w] ok Some
    show ?thesis by (simp add: True)
  next
    case False
    obtain r where r: "scan_loop dec [passes 0, passes 1, passes 2] None = Some r"
      using scan_loop_first [OF Some] by blast
    have "\<exists>p\<in>{passes 0, passes 1, passes 2}. \<exists>es'. sp_listing p = Some es' \<and>
        r = read_loop dec es' fmempty []"
      using scan_loop_listed [OF r] by (simp del: scan_loop.simps)
    then obtain p es' where p: "p \<in> {passes 0, passes 1, passes 2}" "sp_listing p = Some es'"
      "r = read_loop dec es' fmempty []" by blast
    have upto: "(0::nat) \<le> maxScanAttempts - 1" "1 \<le> maxScanAttempts - 1" "2 \<le> maxScanAttempts - 1"
      by (simp_all add: maxScanAttempts_def)
    from p(1) have "p = passes 0 \<or> p = passes 1 \<or> p = passes 2" by simp
    then obtain n where "n \<le> maxScanAttempts - 1" "p = passes n" using upto by blast
    with p(2,3) have n: "n \<le> maxScanAttempts - 1" "sp_listing (passes n) = Some es'"
      "r = read_loop dec es' fmempty []" by simp_all
    from run [OF r] file_send_snapshot [OF n(3), of w] ok n(1,2) False Some show ?thesis
      by simp metis
  qed
qed

end
