(* ===== verification/VarnishCLI.thy ===== *)
theory VarnishCLI
  imports GoText "HOL-Library.Multiset"
begin

text \<open>
  The part of \<open>internal/varnish/manager.go\<close> that drives varnishd over its command line: quoting,
  starting, reloading with retries, and the clean-up of old VCLs. varnishd and its tools are not
  part of the repository: a command is a parameter \<open>run\<close> that takes the arguments and the state of
  the world to a response, an error and the next state.
\<close>

section \<open>Quoting\<close>

definition needs_quote :: string where
  "needs_quote = [CHR '' '', CHR 0x09, CHR 0x0A, CHR 0x0D, CHR 0x22, CHR 0x5C]"

text \<open>\<open>strings.Builder.WriteRune\<close>: a byte that is no rune is written as the replacement character.\<close>

definition write_rune :: "string \<Rightarrow> string" where
  "write_rune r = (if length r = 1 \<and> \<not> list_all is_ascii r then [CHR 0xEF, CHR 0xBF, CHR 0xBD] else r)"

definition quote_rune :: "string \<Rightarrow> string" where
  "quote_rune r =
     (if r = [CHR 0x22] \<or> r = [CHR 0x5C] then CHR 0x5C # write_rune r
      else if r = [CHR 0x0A] then CHR 0x5C # ''n''
      else if r = [CHR 0x0D] then CHR 0x5C # ''r''
      else if r = [CHR 0x09] then CHR 0x5C # ''t''
      else write_rune r)"

definition cliQuote :: "string \<Rightarrow> string" where
  "cliQuote s =
     (if s \<noteq> [] \<and> \<not> list_ex (\<lambda>c. c \<in> set needs_quote) s then s
      else CHR 0x22 # concat (map quote_rune (runes s)) @ [CHR 0x22])"

text \<open>\<open>admRaw\<close>: the arguments given to varnishadm, which joins those after the options by spaces.\<close>

definition adm_args :: "string \<Rightarrow> string list \<Rightarrow> string list" where
  "adm_args workDir args =
     (if workDir \<noteq> [] then [''-n'', workDir] else []) @ [''-t'', ''60''] @ map cliQuote args"

text \<open>\<open>extractWorkDir\<close>.\<close>

fun extractWorkDir :: "string list \<Rightarrow> string" where
  "extractWorkDir [] = []"
| "extractWorkDir (a # as) =
     (if a = ''-n'' then (case as of v # _ \<Rightarrow> v | [] \<Rightarrow> [])
      else if prefix ''-n'' a \<and> length a > 2 then drop 2 a
      else extractWorkDir as)"

section \<open>The version\<close>

definition strip_prefix :: "string \<Rightarrow> string \<Rightarrow> string option" where
  "strip_prefix p s = (if prefix p s then Some (drop (length p) s) else None)"

definition after_name :: "string \<Rightarrow> string option" where
  "after_name s =
     (case strip_prefix ''varnish-'' s of Some t \<Rightarrow> Some t | None \<Rightarrow> strip_prefix ''vinyl-'' s)"

definition word_byte :: "char \<Rightarrow> bool" where
  "word_byte c \<longleftrightarrow> is_digit c \<or> (65 \<le> byte c \<and> byte c \<le> 90) \<or> (97 \<le> byte c \<and> byte c \<le> 122) \<or> byte c = 95"

text \<open>\<open>trunkVersionRe\<close> matches at the front of a text; the word boundary follows a letter.\<close>

definition trunk_here :: "string \<Rightarrow> bool" where
  "trunk_here s =
     (case after_name s of
        None \<Rightarrow> False
      | Some t \<Rightarrow> (case strip_prefix ''trunk'' t of
          None \<Rightarrow> False | Some [] \<Rightarrow> True | Some (c # _) \<Rightarrow> \<not> word_byte c))"

text \<open>\<open>versionRe\<close> matches at the front of a text: the digits it captures.\<close>

definition version_here :: "string \<Rightarrow> string option" where
  "version_here s =
     (case after_name s of
        None \<Rightarrow> None
      | Some t \<Rightarrow> (let ds = takeWhile is_digit t in
          if ds \<noteq> [] \<and> prefix ''.'' (drop (length ds) t) then Some ds else None))"

fun first_match :: "(string \<Rightarrow> 'a option) \<Rightarrow> string \<Rightarrow> 'a option" where
  "first_match f [] = f []"
| "first_match f (c # cs) = (case f (c # cs) of Some x \<Rightarrow> Some x | None \<Rightarrow> first_match f cs)"

definition trunkMajorVersion :: int where
  "trunkMajorVersion = 99"

text \<open>\<open>DetectVersion\<close> on the output of \<open>varnishd -V\<close>; \<open>None\<close> when there is no version in it.\<close>

definition DetectVersion :: "string \<Rightarrow> int option" where
  "DetectVersion out =
     (if first_match (\<lambda>s. if trunk_here s then Some () else None) out \<noteq> None then Some trunkMajorVersion
      else case first_match version_here out of None \<Rightarrow> None | Some ds \<Rightarrow> parse_int 64 ds)"

section \<open>The manager and its commands\<close>

record manager =
  mg_workDir :: string
  mg_reloadCounter :: int
  mg_ReloadRetries :: int
  mg_VCLKept :: int
  mg_retriesTotal :: nat

text \<open>The response of a command, its error, and the next state of the world.\<close>

type_synonym 'w runner = "string list \<Rightarrow> 'w \<Rightarrow> (string \<times> string option) \<times> 'w"

definition admRaw :: "'w runner \<Rightarrow> manager \<Rightarrow> string list \<Rightarrow> 'w \<Rightarrow> (string \<times> string option) \<times> 'w" where
  "admRaw run m args w = run (adm_args (mg_workDir m) args) w"

definition adm :: "'w runner \<Rightarrow> (string \<Rightarrow> string) \<Rightarrow> manager \<Rightarrow> string list \<Rightarrow> 'w \<Rightarrow>
    (string \<times> string option) \<times> 'w" where
  "adm run redact m args w =
     (case admRaw run m args w of ((resp, err), w') \<Rightarrow> ((redact resp, err), w'))"

definition MarkBackendSick :: "'w runner \<Rightarrow> (string \<Rightarrow> string) \<Rightarrow> manager \<Rightarrow> string \<Rightarrow> 'w \<Rightarrow> string option \<times> 'w" where
  "MarkBackendSick run redact m name w =
     (case adm run redact m [''backend.set_health'', name, ''sick''] w of ((_, err), w') \<Rightarrow> (err, w'))"

section \<open>Clean-up of old VCLs\<close>

definition vclReloadPrefix :: string where
  "vclReloadPrefix = ''kv_reload_''"

definition vclSuffix :: "string \<Rightarrow> int" where
  "vclSuffix name =
     (if \<not> prefix vclReloadPrefix name then -1
      else case parse_int 64 (drop (length vclReloadPrefix) name) of Some n \<Rightarrow> n | None \<Rightarrow> -1)"

text \<open>\<open>slices.Index (fields, "->")\<close>.\<close>

fun arrow_index :: "string list \<Rightarrow> nat option" where
  "arrow_index [] = None"
| "arrow_index (f # fs) = (if f = ''->'' then Some 0 else map_option Suc (arrow_index fs))"

text \<open>The first pass: the targets of labels, and the rows of VCLs.\<close>

fun label_pass :: "string list list \<Rightarrow> string list \<times> string list list" where
  "label_pass [] = ([], [])"
| "label_pass (fs # rest) =
     (let (labels, rows) = label_pass rest
      in if length fs < 4 then (labels, rows)
         else case arrow_index fs of
                Some i \<Rightarrow> (if i + 1 < length fs then fs ! (i + 1) # labels else labels, rows)
              | None \<Rightarrow> (labels, fs # rows))"

text \<open>The index of the name in a row: the last field, or the one before a parenthesis.\<close>

fun paren_index :: "string list \<Rightarrow> nat option" where
  "paren_index [] = None"
| "paren_index (f # fs) = (if prefix ''('' f then Some 0 else map_option Suc (paren_index fs))"

definition row_name :: "string list \<Rightarrow> string option" where
  "row_name fs =
     (let nameIdx = (case paren_index fs of Some i \<Rightarrow> int i - 1 | None \<Rightarrow> int (length fs) - 1)
      in if nameIdx < 1 then None else Some (fs ! nat nameIdx))"

text \<open>
  The second pass: the names that may be discarded. The order of names with the same number, which
  \<open>slices.SortFunc\<close> leaves open, is that of the listing here; the names of the listing are distinct
  and so are their numbers, up to names that this program did not give.
\<close>

fun available_pass :: "string \<Rightarrow> string list \<Rightarrow> string list list \<Rightarrow> string list" where
  "available_pass currentName labels [] = []"
| "available_pass currentName labels (fs # rest) =
     (case row_name fs of
        None \<Rightarrow> available_pass currentName labels rest
      | Some name \<Rightarrow>
          if hd fs \<noteq> ''available'' \<or> name = currentName \<or> \<not> prefix vclReloadPrefix name
          then available_pass currentName labels rest
          else if name \<in> set labels then available_pass currentName labels rest
          else name # available_pass currentName labels rest)"

definition available_vcls :: "string \<Rightarrow> string \<Rightarrow> string list" where
  "available_vcls currentName resp =
     (case scan_lines resp of
        None \<Rightarrow> []
      | Some ls \<Rightarrow> (let (labels, rows) = label_pass (map str_fields ls)
                   in available_pass currentName labels rows))"

definition vcl_discards :: "int \<Rightarrow> string \<Rightarrow> string \<Rightarrow> string list" where
  "vcl_discards VCLKept currentName resp =
     (let available = available_vcls currentName resp
      in if available = [] then []
         else if VCLKept > 0 \<and> int (length available) \<le> VCLKept then []
         else if VCLKept > 0 then drop (nat VCLKept) (sort_key (\<lambda>n. - vclSuffix n) available)
         else available)"

fun discard_loop :: "'w runner \<Rightarrow> (string \<Rightarrow> string) \<Rightarrow> manager \<Rightarrow> string list \<Rightarrow> 'w \<Rightarrow> 'w" where
  "discard_loop run redact m [] w = w"
| "discard_loop run redact m (name # names) w =
     discard_loop run redact m names (snd (adm run redact m [''vcl.discard'', name] w))"

definition discardOldVCLs :: "'w runner \<Rightarrow> (string \<Rightarrow> string) \<Rightarrow> manager \<Rightarrow> string \<Rightarrow> 'w \<Rightarrow> 'w" where
  "discardOldVCLs run redact m currentName w =
     (case admRaw run m [''vcl.list''] w of
        ((resp, Some err), w') \<Rightarrow> w'
      | ((resp, None), w') \<Rightarrow> discard_loop run redact m (vcl_discards (mg_VCLKept m) currentName resp) w')"

section \<open>Reload\<close>

definition isVCLRejection :: "string \<Rightarrow> bool" where
  "isVCLRejection resp \<longleftrightarrow>
     list_ex (str_contains resp) [''VCC-compiler'', ''VCL compilation failed'']"

text \<open>The errors of \<open>reload\<close>: the first carries whether it wraps \<open>ErrVCLRejected\<close>.\<close>

datatype reload_error = LoadError bool string string | UseError string string

text \<open>
  The loop of \<open>reload\<close> over the attempts left; \<open>exited\<close> says, per attempt, whether the exit of
  varnishd ends the wait before the next one.
\<close>

fun reload_loop :: "'w runner \<Rightarrow> (string \<Rightarrow> string) \<Rightarrow> (nat \<Rightarrow> bool) \<Rightarrow> string \<Rightarrow> nat \<Rightarrow> nat \<Rightarrow>
    reload_error option \<Rightarrow> manager \<times> 'w \<Rightarrow> reload_error option \<times> manager \<times> 'w" where
  "reload_loop run redact exited vclPath 0 attempt lastErr (m, w) = (lastErr, m, w)"
| "reload_loop run redact exited vclPath (Suc left) attempt lastErr (m, w) =
     (let n = mg_reloadCounter m + 1;
          m1 = m\<lparr>mg_reloadCounter := n\<rparr>;
          name = vclReloadPrefix @ show_int n
      in case admRaw run m1 [''vcl.load'', name, vclPath] w of
           ((resp, Some err), w1) \<Rightarrow>
             (let lastErr' = Some (LoadError (isVCLRejection resp) err (redact resp))
              in if left > 0
                 then let m2 = m1\<lparr>mg_retriesTotal := Suc (mg_retriesTotal m1)\<rparr>
                      in if exited attempt then (lastErr', m2, w1)
                         else reload_loop run redact exited vclPath left (Suc attempt) lastErr' (m2, w1)
                 else (lastErr', m1, w1))
         | ((resp, None), w1) \<Rightarrow>
             (case adm run redact m1 [''vcl.use'', name] w1 of
                ((resp2, Some err2), w2) \<Rightarrow>
                  (Some (UseError err2 resp2), m1, snd (adm run redact m1 [''vcl.discard'', name] w2))
              | ((resp2, None), w2) \<Rightarrow> (None, m1, discardOldVCLs run redact m1 name w2)))"

definition reload :: "'w runner \<Rightarrow> (string \<Rightarrow> string) \<Rightarrow> (nat \<Rightarrow> bool) \<Rightarrow> string \<Rightarrow> manager \<times> 'w \<Rightarrow>
    reload_error option \<times> manager \<times> 'w" where
  "reload run redact exited vclPath mw =
     reload_loop run redact exited vclPath (nat (1 + mg_ReloadRetries (fst mw))) 0 None mw"


section \<open>One command line, one list of arguments\<close>

text \<open>Bytewise quoting, which \<open>cliQuote\<close> is on a text of well-formed runes.\<close>

definition quote_byte :: "char \<Rightarrow> string" where
  "quote_byte c =
     (if c = CHR 0x22 \<or> c = CHR 0x5C then [CHR 0x5C, c]
      else if c = CHR 0x0A then CHR 0x5C # ''n''
      else if c = CHR 0x0D then CHR 0x5C # ''r''
      else if c = CHR 0x09 then CHR 0x5C # ''t''
      else [c])"

definition valid_text :: "string \<Rightarrow> bool" where
  "valid_text s \<longleftrightarrow> list_all (\<lambda>r. length r = 1 \<longrightarrow> list_all is_ascii r) (runes s)"

lemma cont_at_byte: "cont_at s i lo hi \<Longrightarrow> 128 \<le> lo \<Longrightarrow> i < length s \<and> \<not> is_ascii (s ! i)"
proof -
  assume a: "cont_at s i lo hi" "128 \<le> lo"
  then obtain c cs where d: "drop i s = c # cs" "lo \<le> byte c"
    by (auto simp: cont_at_def is_cont_def split: list.splits)
  have "i < length s" using d(1) by (metis drop_all linorder_not_less list.distinct(1))
  with a(2) d show ?thesis by (simp add: is_ascii_def nth_via_drop)
qed

lemma second_range_lo: "128 \<le> fst (second_range b)"
  by (simp add: second_range_def)

lemma wide_rune:
  assumes "rune_width (c # cs) \<noteq> 1" and "i < rune_width (c # cs)"
  shows "i < length (c # cs) \<and> \<not> is_ascii ((c # cs) ! i)"
proof -
  obtain lo hi where r: "second_range (byte c) = (lo, hi)" by force
  have lo: "128 \<le> lo" using second_range_lo [of "byte c"] r by simp
  let ?s = "c # cs"
  have width: "194 \<le> byte c" "1 < rune_width ?s \<Longrightarrow> cont_at ?s 1 lo hi"
    "2 < rune_width ?s \<Longrightarrow> cont_at ?s 2 128 191" "3 < rune_width ?s \<Longrightarrow> cont_at ?s 3 128 191"
    "rune_width ?s \<le> 4"
    using assms(1) r by (auto simp: rune_width_def Let_def split: if_splits)
  have "i = 0 \<or> i = 1 \<or> i = 2 \<or> i = 3" using assms(2) width(5) by linarith
  then show ?thesis
    using assms(2) width lo cont_at_byte [of ?s] by (elim disjE) (force simp: is_ascii_def)+
qed

lemma quote_wide:
  "list_all (\<lambda>c. \<not> is_ascii c) r \<Longrightarrow> concat (map quote_byte r) = r"
  by (induction r) (auto simp: quote_byte_def is_ascii_def byte_def)

lemma quote_rune_bytes:
  assumes "length r = 1 \<longrightarrow> list_all is_ascii r"
    and "length r \<noteq> 1 \<longrightarrow> list_all (\<lambda>c. \<not> is_ascii c) r"
  shows "quote_rune r = concat (map quote_byte r)"
proof (cases "length r = 1")
  case True
  then obtain c where "r = [c]" by (metis One_nat_def length_0_conv length_Suc_conv)
  then show ?thesis using assms(1) by (simp add: quote_rune_def quote_byte_def write_rune_def)
next
  case False
  then have "quote_rune r = r" by (auto simp: quote_rune_def write_rune_def)
  then show ?thesis using False assms(2) quote_wide by simp
qed

lemma quote_text:
  "valid_text s \<Longrightarrow> concat (map quote_rune (runes s)) = concat (map quote_byte s)"
proof (induction s rule: runes.induct)
  case (2 c cs)
  let ?w = "rune_width (c # cs)" and ?s = "c # cs"
  have "list_all (\<lambda>c. \<not> is_ascii c) (take ?w ?s)" if "length (take ?w ?s) \<noteq> 1"
  proof -
    have "?w \<noteq> 1" using that by auto
    then show ?thesis using wide_rune [of c cs] by (auto simp: list_all_length)
  qed
  moreover have "length (take ?w ?s) = 1 \<longrightarrow> list_all is_ascii (take ?w ?s)"
    and v: "valid_text (drop ?w ?s)"
    using "2.prems" unfolding valid_text_def runes.simps list.pred_inject by auto
  ultimately have "quote_rune (take ?w ?s) = concat (map quote_byte (take ?w ?s))"
    by (intro quote_rune_bytes) auto
  then have "concat (map quote_rune (runes ?s)) =
      concat (map quote_byte (take ?w ?s)) @ concat (map quote_byte (drop ?w ?s))"
    using "2.IH" [OF v] by (simp only: runes.simps list.map concat.simps)
  also have "... = concat (map quote_byte ?s)"
    by (metis append_take_drop_id concat_append map_append)
  finally show ?case .
qed simp

lemma quote_byte_inj: "quote_byte c @ x = quote_byte d @ y \<Longrightarrow> c = d \<and> x = y"
  by (auto simp: quote_byte_def split: if_splits)

lemma quoted_inj:
  "concat (map quote_byte a) @ CHR 0x22 # r = concat (map quote_byte b) @ CHR 0x22 # r' \<Longrightarrow>
   a = b \<and> r = r'"
proof (induction a arbitrary: b)
  case Nil
  then show ?case by (cases b) (auto simp: quote_byte_def split: if_splits)
next
  case (Cons c a)
  show ?case
  proof (cases b)
    case Nil
    then show ?thesis using Cons.prems by (auto simp: quote_byte_def split: if_splits)
  next
    case (Cons d b')
    have "c = d \<and> concat (map quote_byte a) @ CHR 0x22 # r = concat (map quote_byte b') @ CHR 0x22 # r'"
      using Cons.prems Cons quote_byte_inj by simp
    then show ?thesis using Cons.IH Cons by simp
  qed
qed


lemma plain_no_space: "\<not> list_ex (\<lambda>c. c \<in> set needs_quote) s \<Longrightarrow> CHR '' '' \<notin> set s \<and> CHR 0x22 \<notin> set s"
  by (auto simp: list_ex_iff needs_quote_def)

text \<open>What follows an argument on the line: nothing, or a space.\<close>

definition arg_end :: "string \<Rightarrow> bool" where
  "arg_end r \<longleftrightarrow> r = [] \<or> hd r = CHR '' ''"

lemma until_end: "CHR '' '' \<notin> set a \<Longrightarrow> arg_end r \<Longrightarrow> takeWhile (\<lambda>c. c \<noteq> CHR '' '') (a @ r) = a"
  by (cases r) (auto simp: arg_end_def takeWhile_append)

lemma cliQuote_inj:
  assumes "valid_text a" and "valid_text b" and "arg_end r" and "arg_end r'"
    and eq: "cliQuote a @ r = cliQuote b @ r'"
  shows "a = b \<and> r = r'"
proof -
  let ?p = "\<lambda>s. s \<noteq> [] \<and> \<not> list_ex (\<lambda>c. c \<in> set needs_quote) s"
  let ?q = "\<lambda>s. CHR 0x22 # concat (map quote_byte s) @ [CHR 0x22]"
  have q: "cliQuote s = (if ?p s then s else ?q s)" if "valid_text s" for s
    using quote_text [OF that] by (simp add: cliQuote_def)
  have mixed: False if "?p s" "s @ t = ?q u @ v" for s t u v
    using that plain_no_space [of s] by (cases s) auto
  consider "?p a" "?p b" | "\<not> ?p a" "\<not> ?p b" | "?p a" "\<not> ?p b" | "\<not> ?p a" "?p b" by blast
  then show ?thesis
  proof cases
    case 1
    then have "a @ r = b @ r'" using eq q assms(1,2) by simp
    moreover have "CHR '' '' \<notin> set a" "CHR '' '' \<notin> set b" using 1 plain_no_space by blast+
    ultimately show ?thesis using until_end assms(3,4) by (metis same_append_eq)
  next
    case 2
    then have "?q a @ r = ?q b @ r'" using eq q assms(1,2) by metis
    then show ?thesis using quoted_inj [of a r b r'] by simp
  next
    case 3
    then have "a @ r = ?q b @ r'" using eq q assms(1,2) by metis
    with mixed 3(1) show ?thesis by blast
  next
    case 4
    then have "b @ r' = ?q a @ r" using eq q assms(1,2) by metis
    with mixed 4(2) show ?thesis by blast
  qed
qed

text \<open>The line varnishadm makes of its arguments: it joins them by spaces, without quoting.\<close>

fun cli_line :: "string list \<Rightarrow> string" where
  "cli_line [] = []"
| "cli_line [a] = cliQuote a"
| "cli_line (a # b # as) = cliQuote a @ CHR '' '' # cli_line (b # as)"

lemma cliQuote_nonempty: "cliQuote s \<noteq> []"
  by (simp add: cliQuote_def)

lemma cli_line_Cons: "\<exists>r. cli_line (a # as) = cliQuote a @ r \<and> arg_end r \<and>
    (r = [] \<longleftrightarrow> as = []) \<and> (as \<noteq> [] \<longrightarrow> r = CHR '' '' # cli_line as)"
  by (cases as) (simp_all add: arg_end_def)

text \<open>
  C38: The line that reaches varnishd determines the arguments: two lists of arguments (of
  well-formed text) that give the same line are the same list. So no argument, whatever spaces,
  quotes, backslashes or line breaks it holds, is ever split into two or runs into the next.
\<close>

theorem cli_line_unambiguous:
  assumes "list_all valid_text as" and "list_all valid_text bs"
    and "cli_line as = cli_line bs"
  shows "as = bs"
  using assms
proof (induction as arbitrary: bs)
  case Nil
  then show ?case using cliQuote_nonempty cli_line_Cons by (cases bs) (auto, metis append_is_Nil_conv)
next
  case (Cons a as)
  obtain b bs' where bs: "bs = b # bs'"
    using Cons.prems(3) cli_line_Cons [of a as] cliQuote_nonempty [of a] by (cases bs) auto
  obtain r where r: "cli_line (a # as) = cliQuote a @ r" "arg_end r" "r = [] \<longleftrightarrow> as = []"
    "as \<noteq> [] \<longrightarrow> r = CHR '' '' # cli_line as" using cli_line_Cons by blast
  obtain r' where r': "cli_line (b # bs') = cliQuote b @ r'" "arg_end r'" "r' = [] \<longleftrightarrow> bs' = []"
    "bs' \<noteq> [] \<longrightarrow> r' = CHR '' '' # cli_line bs'" using cli_line_Cons by blast
  have "cliQuote a @ r = cliQuote b @ r'" using Cons.prems(3) r(1) r'(1) bs by metis
  from cliQuote_inj [OF _ _ r(2) r'(2) this] have ab: "a = b" "r = r'"
    using Cons.prems(1,2) bs by auto
  show ?case
  proof (cases as)
    case Nil
    then show ?thesis using ab r(3) r'(3) bs by simp
  next
    case (Cons c cs)
    then have "cli_line as = cli_line bs'" using ab r(3,4) r'(3,4) by auto
    then show ?thesis using Cons.IH Cons.prems(1,2) ab bs by simp
  qed
qed

theorem cli_line_unambiguous_witness:
  "cli_line [''vcl.load'', ''a b''] = ''vcl.load '' @ CHR 0x22 # ''a b'' @ [CHR 0x22] \<and>
   cli_line [''vcl.load'', ''a b''] \<noteq> cli_line [''vcl.load'', ''a'', ''b'']"
proof
  have v: "valid_text s" if "list_all is_ascii s" for s
    using that by (simp add: valid_text_def runes_ascii list_all_iff)
  have "list_all valid_text [''vcl.load'', ''a b'']" "list_all valid_text [''vcl.load'', ''a'', ''b'']"
    by (simp_all add: v is_ascii_def byte_def)
  from cli_line_unambiguous [OF this]
  show "cli_line [''vcl.load'', ''a b''] \<noteq> cli_line [''vcl.load'', ''a'', ''b'']" by auto
  show "cli_line [''vcl.load'', ''a b''] = ''vcl.load '' @ CHR 0x22 # ''a b'' @ [CHR 0x22]"
  proof -
    have "concat (map quote_rune (runes ''a b'')) = ''a b''"
      using quote_text [OF v, of "''a b''"] by (simp add: is_ascii_def byte_def quote_byte_def)
    then show ?thesis by (simp add: cliQuote_def needs_quote_def del: runes.simps)
  qed
qed


section \<open>What the clean-up discards\<close>

lemma available_pass_set:
  "n \<in> set (available_pass cur labels rows) \<longleftrightarrow>
     n \<noteq> cur \<and> prefix vclReloadPrefix n \<and> n \<notin> set labels \<and>
     (\<exists>fs\<in>set rows. hd fs = ''available'' \<and> row_name fs = Some n)"
proof (induction rows)
  case (Cons fs rows)
  show ?case
  proof (cases "row_name fs")
    case None
    then show ?thesis using Cons by simp
  next
    case (Some name)
    then show ?thesis using Cons by (cases "n = name") (simp_all, blast)
  qed
qed simp

text \<open>The rows of VCLs and the labels' targets of a response that could be scanned.\<close>

definition vcl_rows :: "string \<Rightarrow> string list list" where
  "vcl_rows resp = (case scan_lines resp of None \<Rightarrow> [] | Some ls \<Rightarrow> snd (label_pass (map str_fields ls)))"

definition label_targets :: "string \<Rightarrow> string list" where
  "label_targets resp = (case scan_lines resp of None \<Rightarrow> [] | Some ls \<Rightarrow> fst (label_pass (map str_fields ls)))"

lemma available_vcls_rows:
  "available_vcls cur resp = available_pass cur (label_targets resp) (vcl_rows resp)"
  by (simp add: available_vcls_def vcl_rows_def label_targets_def split: option.split prod.split)

lemma vcl_discards_sub: "set (vcl_discards kept cur resp) \<subseteq> set (available_vcls cur resp)"
  using set_drop_subset [of "nat kept" "sort_key (\<lambda>n. - vclSuffix n) (available_vcls cur resp)"]
  by (auto simp: vcl_discards_def Let_def)

lemma sorted_drop_le:
  assumes "sorted (map f xs)" and "x \<in> set (take k xs)" and "y \<in> set (drop k xs)"
  shows "f x \<le> f y"
proof -
  have "sorted (map f (take k xs) @ map f (drop k xs))"
    using assms(1) by (simp flip: map_append)
  then show ?thesis using assms(2,3) by (simp add: sorted_append)
qed

text \<open>
  After a reload only VCLs are discarded that varnishd lists as available, that this program
  loaded, that are not the VCL just activated and that no label points to. With a retention limit
  the listed candidates beyond the limit are discarded and no others, and every VCL that is kept is
  at least as new (by the number in its name) as every one that is discarded.
\<close>

theorem discards_only_old:
  "let ds = vcl_discards kept cur resp; avail = available_vcls cur resp in
   (\<forall>n. n \<in> set ds \<longrightarrow> n \<noteq> cur \<and> prefix vclReloadPrefix n \<and> n \<notin> set (label_targets resp) \<and>
      (\<exists>fs. fs \<in> set (vcl_rows resp) \<and> hd fs = ''available'' \<and> row_name fs = Some n)) \<and>
   (if kept \<le> 0 then ds = avail
    else \<exists>ks. mset (ks @ ds) = mset avail \<and> length ks = min (nat kept) (length avail) \<and>
      (\<forall>k d. k \<in> set ks \<and> d \<in> set ds \<longrightarrow> vclSuffix d \<le> vclSuffix k))"
proof -
  let ?ds = "vcl_discards kept cur resp" and ?av = "available_vcls cur resp"
  let ?s = "sort_key (\<lambda>n. - vclSuffix n) ?av"
  have "\<forall>n. n \<in> set ?ds \<longrightarrow> n \<noteq> cur \<and> prefix vclReloadPrefix n \<and> n \<notin> set (label_targets resp) \<and>
      (\<exists>fs. fs \<in> set (vcl_rows resp) \<and> hd fs = ''available'' \<and> row_name fs = Some n)"
    using vcl_discards_sub [of kept cur resp] unfolding available_vcls_rows
    by (auto simp: available_pass_set dest!: subsetD)
  moreover have "if kept \<le> 0 then ?ds = ?av
    else \<exists>ks. mset (ks @ ?ds) = mset ?av \<and> length ks = min (nat kept) (length ?av) \<and>
      (\<forall>k d. k \<in> set ks \<and> d \<in> set ?ds \<longrightarrow> vclSuffix d \<le> vclSuffix k)"
  proof (cases "kept \<le> 0")
    case True
    then show ?thesis by (simp add: vcl_discards_def Let_def)
  next
    case False
    show ?thesis
    proof (cases "int (length ?av) \<le> kept")
      case True
      then have "?ds = []" using False by (simp add: vcl_discards_def Let_def)
      then show ?thesis using False True by (auto intro: exI [of _ ?av])
    next
      case long: False
      then have ds: "?ds = drop (nat kept) ?s" using False by (auto simp: vcl_discards_def Let_def)
      have "mset (take (nat kept) ?s @ ?ds) = mset ?av"
        unfolding ds append_take_drop_id by simp
      moreover have "vclSuffix d \<le> vclSuffix k" if "k \<in> set (take (nat kept) ?s)" "d \<in> set ?ds" for k d
        using sorted_drop_le [OF sorted_sort_key that [unfolded ds]] by simp
      ultimately show ?thesis using False long by (auto intro!: exI [of _ "take (nat kept) ?s"])
    qed
  qed
  ultimately show ?thesis by (simp add: Let_def)
qed

definition sample_list :: string where
  "sample_list = ''available a w 0 kv_reload_1'' @ newline # ''available a w 0 kv_reload_2'' @ newline
    # ''active a w 0 kv_reload_3'' @ newline # ''available a w 0 boot''"

lemma sample_list_lines: "scan_lines sample_list = Some [''available a w 0 kv_reload_1'', ''available a w 0 kv_reload_2'',
    ''active a w 0 kv_reload_3'', ''available a w 0 boot'']"
  by (simp add: scan_lines_def raw_lines_def drop_cr_def sample_list_def newline_def Let_def)

lemma sample_row_fields:
   "str_fields ''available a w 0 kv_reload_1'' = [''available'', ''a'', ''w'', ''0'', ''kv_reload_1'']"
   "str_fields ''available a w 0 kv_reload_2'' = [''available'', ''a'', ''w'', ''0'', ''kv_reload_2'']"
   "str_fields ''active a w 0 kv_reload_3'' = [''active'', ''a'', ''w'', ''0'', ''kv_reload_3'']"
   "str_fields ''available a w 0 boot'' = [''available'', ''a'', ''w'', ''0'', ''boot'']"
  by (simp_all add: str_fields_def runes_ascii is_ascii_def byte_def space_rune_def del: runes.simps)

lemma sample_suffix: "vclSuffix ''kv_reload_1'' = 1" "vclSuffix ''kv_reload_2'' = 2"
  by (simp_all add: vclSuffix_def vclReloadPrefix_def parse_int_def parse_nat_def digits_val_def digit_val_def is_digit_def Let_def)

lemma sample_discards: "vcl_discards 1 ''kv_reload_3'' sample_list = [''kv_reload_1'']"
  by (simp add: vcl_discards_def available_vcls_def sample_list_lines sample_row_fields row_name_def Let_def
      vclReloadPrefix_def sample_suffix)

theorem discards_only_old_witness:
  "vcl_discards 1 ''kv_reload_3'' sample_list = [''kv_reload_1''] \<and>
   (\<exists>fs. fs \<in> set (vcl_rows sample_list) \<and> hd fs = ''available'' \<and> row_name fs = Some ''kv_reload_1'') \<and>
   ''kv_reload_1'' \<notin> set (label_targets sample_list)"
  using discards_only_old [of 1 "''kv_reload_3''" sample_list] by (simp add: Let_def sample_discards)

end
