(* ===== verification/VarnishReload.thy ===== *)
theory VarnishReload
  imports VarnishCLI
begin

text \<open>
  What a reload promises (\<open>Manager.Reload\<close>): it either activates the new VCL under a fresh name or
  leaves the running VCL as it is, and it calls a VCL rejected only on the word of the compiler.
\<close>

section \<open>Branches of one attempt\<close>

lemmas reload_one = reload_loop.simps(2)

text \<open>The laws of varnishd that a reload relies on: only a successful \<open>vcl.use\<close> changes which VCL is
  active.\<close>

definition use_law :: "'w runner \<Rightarrow> string \<Rightarrow> ('w \<Rightarrow> string option) \<Rightarrow> bool" where
  "use_law run workDir active \<longleftrightarrow>
     (\<forall>cmd w. active (snd (run (adm_args workDir cmd) w)) =
        (if snd (fst (run (adm_args workDir cmd) w)) = None \<and> length cmd = 2 \<and> hd cmd = ''vcl.use''
         then Some (cmd ! 1) else active w))"

lemma admRaw_active:
  assumes "use_law run (mg_workDir m) active" and "admRaw run m cmd w = ((resp, err), w')"
  shows "active w' = (if err = None \<and> length cmd = 2 \<and> hd cmd = ''vcl.use'' then Some (cmd ! 1) else active w)"
proof -
  have "active (snd (admRaw run m cmd w)) =
      (if snd (fst (admRaw run m cmd w)) = None \<and> length cmd = 2 \<and> hd cmd = ''vcl.use''
       then Some (cmd ! 1) else active w)"
    using assms(1) by (simp only: use_law_def admRaw_def)
  then show ?thesis unfolding assms(2) by simp
qed

lemma adm_active:
  assumes "use_law run (mg_workDir m) active" and "adm run redact m cmd w = ((resp, err), w')"
  shows "active w' = (if err = None \<and> length cmd = 2 \<and> hd cmd = ''vcl.use'' then Some (cmd ! 1) else active w)"
proof -
  obtain resp' where "admRaw run m cmd w = ((resp', err), w')"
    using assms(2) by (auto simp: adm_def split: prod.splits)
  from admRaw_active [OF assms(1) this] show ?thesis .
qed

lemma adm_other:
  assumes "use_law run (mg_workDir m) active" and "hd cmd \<noteq> ''vcl.use''"
  shows "active (snd (adm run redact m cmd w)) = active w"
proof -
  obtain resp err w' where a: "adm run redact m cmd w = ((resp, err), w')" by (metis surj_pair)
  from adm_active [OF assms(1) a] show ?thesis using a assms(2) by simp
qed

lemma discard_loop_active:
  "use_law run (mg_workDir m) active \<Longrightarrow> active (discard_loop run redact m names w) = active w"
  by (induction names arbitrary: w) (simp_all add: adm_other)

lemma discardOldVCLs_active:
  assumes "use_law run (mg_workDir m) active"
  shows "active (discardOldVCLs run redact m cur w) = active w"
proof -
  obtain resp err w' where r: "admRaw run m [''vcl.list''] w = ((resp, err), w')" by (metis surj_pair)
  from admRaw_active [OF assms r] have "active w' = active w" by simp
  then show ?thesis using r discard_loop_active [OF assms]
    by (cases err) (simp_all add: discardOldVCLs_def)
qed

text \<open>The name an attempt loads, and the state of the manager in which it does.\<close>

definition next_name :: "manager \<Rightarrow> string" where
  "next_name m = vclReloadPrefix @ show_int (mg_reloadCounter m + 1)"

definition counted :: "manager \<Rightarrow> manager" where
  "counted m = m\<lparr>mg_reloadCounter := mg_reloadCounter m + 1\<rparr>"

lemma reload_one_cases:
  obtains (load_failed) resp err w1 where
      "admRaw run (counted m) [''vcl.load'', next_name m, path] w = ((resp, Some err), w1)"
      "reload_loop run redact exited path (Suc left) attempt lastErr (m, w) =
        (let e = Some (LoadError (isVCLRejection resp) err (redact resp)) in
         if left = 0 then (e, counted m, w1)
         else let m2 = (counted m)\<lparr>mg_retriesTotal := Suc (mg_retriesTotal m)\<rparr> in
              if exited attempt then (e, m2, w1)
              else reload_loop run redact exited path left (Suc attempt) e (m2, w1))"
  | (use_failed) resp w1 err2 resp2 w2 where
      "admRaw run (counted m) [''vcl.load'', next_name m, path] w = ((resp, None), w1)"
      "adm run redact (counted m) [''vcl.use'', next_name m] w1 = ((resp2, Some err2), w2)"
      "reload_loop run redact exited path (Suc left) attempt lastErr (m, w) =
        (Some (UseError err2 resp2), counted m, snd (adm run redact (counted m) [''vcl.discard'', next_name m] w2))"
  | (activated) resp w1 resp2 w2 where
      "admRaw run (counted m) [''vcl.load'', next_name m, path] w = ((resp, None), w1)"
      "adm run redact (counted m) [''vcl.use'', next_name m] w1 = ((resp2, None), w2)"
      "reload_loop run redact exited path (Suc left) attempt lastErr (m, w) =
        (None, counted m, discardOldVCLs run redact (counted m) (next_name m) w2)"
proof -
  obtain resp err w1 where l: "admRaw run (counted m) [''vcl.load'', next_name m, path] w = ((resp, err), w1)"
    by (metis surj_pair)
  obtain resp2 err2 w2 where u: "adm run redact (counted m) [''vcl.use'', next_name m] w1 = ((resp2, err2), w2)"
    by (metis surj_pair)
  note names = next_name_def [symmetric] counted_def [symmetric]
  show thesis
  proof (cases err)
    case (Some e)
    then show thesis using l load_failed
      by (auto simp: reload_one Let_def next_name_def counted_def split: if_splits)
  next
    case None
    show thesis
    proof (cases err2)
      case (Some e)
      then show thesis using l u \<open>err = None\<close> use_failed
        by (simp add: reload_one Let_def next_name_def counted_def)
    next
      case u0: None
      then show thesis using l u \<open>err = None\<close> activated
        by (simp add: reload_one Let_def next_name_def counted_def)
    qed
  qed
qed

lemma counted_simps [simp]:
  "mg_workDir (counted m) = mg_workDir m" "mg_reloadCounter (counted m) = mg_reloadCounter m + 1"
  by (simp_all add: counted_def)

lemma reload_loop_active:
  assumes "use_law run (mg_workDir m) active"
    and "reload_loop run redact exited path left attempt lastErr (m, w) = (e, m', w')"
    and "0 < left"
  shows "active w' = (if e = None then Some (vclReloadPrefix @ show_int (mg_reloadCounter m')) else active w) \<and>
    mg_reloadCounter m < mg_reloadCounter m' \<and> mg_reloadCounter m' \<le> mg_reloadCounter m + int left"
  using assms
proof (induction left arbitrary: attempt lastErr m w)
  case (Suc left)
  note law = Suc.prems(1)
  have law': "use_law run (mg_workDir (counted m)) active" using law by simp
  show ?case
  proof (rule reload_one_cases [of run m path w redact exited left attempt lastErr])
    fix resp err w1
    assume l: "admRaw run (counted m) [''vcl.load'', next_name m, path] w = ((resp, Some err), w1)"
      and r: "reload_loop run redact exited path (Suc left) attempt lastErr (m, w) =
        (let e = Some (LoadError (isVCLRejection resp) err (redact resp)) in
         if left = 0 then (e, counted m, w1)
         else let m2 = (counted m)\<lparr>mg_retriesTotal := Suc (mg_retriesTotal m)\<rparr> in
              if exited attempt then (e, m2, w1)
              else reload_loop run redact exited path left (Suc attempt) e (m2, w1))"
    let ?e = "Some (LoadError (isVCLRejection resp) err (redact resp))"
    let ?m2 = "(counted m)\<lparr>mg_retriesTotal := Suc (mg_retriesTotal m)\<rparr>"
    have w1: "active w1 = active w" using admRaw_active [OF law' l] by simp
    show ?thesis
    proof (cases "left = 0 \<or> exited attempt")
      case True
      then show ?thesis using r w1 Suc.prems(2) by (auto simp: Let_def split: if_splits)
    next
      case False
      then have "reload_loop run redact exited path left (Suc attempt) ?e (?m2, w1) = (e, m', w')"
        using r Suc.prems(2) by (simp add: Let_def)
      from Suc.IH [OF _ this] law False w1 show ?thesis by simp
    qed
  next
    fix resp w1 err2 resp2 w2
    assume l: "admRaw run (counted m) [''vcl.load'', next_name m, path] w = ((resp, None), w1)"
      and u: "adm run redact (counted m) [''vcl.use'', next_name m] w1 = ((resp2, Some err2), w2)"
      and r: "reload_loop run redact exited path (Suc left) attempt lastErr (m, w) =
        (Some (UseError err2 resp2), counted m, snd (adm run redact (counted m) [''vcl.discard'', next_name m] w2))"
    have "active (snd (adm run redact (counted m) [''vcl.discard'', next_name m] w2)) = active w"
      using adm_other [OF law', of "[''vcl.discard'', next_name m]"] admRaw_active [OF law' l]
        adm_active [OF law' u] by simp
    then show ?thesis using r Suc.prems(2) by auto
  next
    fix resp w1 resp2 w2
    assume u: "adm run redact (counted m) [''vcl.use'', next_name m] w1 = ((resp2, None), w2)"
      and r: "reload_loop run redact exited path (Suc left) attempt lastErr (m, w) =
        (None, counted m, discardOldVCLs run redact (counted m) (next_name m) w2)"
    have "active (discardOldVCLs run redact (counted m) (next_name m) w2) = Some (next_name m)"
      using discardOldVCLs_active [OF law'] adm_active [OF law' u] by simp
    then show ?thesis using r Suc.prems(2) by (auto simp: next_name_def)
  qed
qed simp

text \<open>
  C7: A reload is all or nothing, whatever commands fail and however often it retries: when it
  succeeds, varnishd runs the VCL of the last attempt, under a name that was never used before; when
  it fails, varnishd still runs the VCL it ran before. It makes at least one attempt and at most
  one more than the configured retries. The hypothesis is what varnishd documents: the active VCL
  changes by a successful \<open>vcl.use\<close> and by nothing else.
\<close>

theorem reload_all_or_nothing:
  assumes "use_law run (mg_workDir m) active" and "0 \<le> mg_ReloadRetries m"
    and "reload run redact exited path (m, w) = (e, m', w')"
  shows "active w' = (if e = None then Some (vclReloadPrefix @ show_int (mg_reloadCounter m')) else active w) \<and>
    mg_reloadCounter m < mg_reloadCounter m' \<and>
    mg_reloadCounter m' \<le> mg_reloadCounter m + 1 + mg_ReloadRetries m"
  using reload_loop_active [OF assms(1), of redact exited path "nat (1 + mg_ReloadRetries m)"] assms(2,3)
  by (fastforce simp: reload_def)


lemma cliQuote_plain: "cliQuote s = t \<Longrightarrow> hd t \<noteq> CHR 0x22 \<Longrightarrow> s = t"
  by (auto simp: cliQuote_def split: if_splits)

definition sample_varnishd :: "string option runner" where
  "sample_varnishd args w =
     (if drop 2 args = [''vcl.use'', ''kv_reload_8''] then (([], None), Some ''kv_reload_8'')
      else if drop 2 args \<noteq> [] \<and> args ! 2 = ''vcl.load'' then (([], None), w)
      else (([], Some ''refused''), w))"

definition sample_manager :: manager where
  "sample_manager = \<lparr>mg_workDir = [], mg_reloadCounter = 7, mg_ReloadRetries = 2, mg_VCLKept = 0,
     mg_retriesTotal = 0\<rparr>"

lemma sample_law: "use_law sample_varnishd [] id"
proof -
  have use: "map cliQuote cmd = [''vcl.use'', ''kv_reload_8''] \<Longrightarrow> cmd = [''vcl.use'', ''kv_reload_8'']" for cmd
    using cliQuote_plain [of _ "''vcl.use''"] cliQuote_plain [of _ "''kv_reload_8''"] by auto
  have load: "cliQuote c = ''vcl.load'' \<Longrightarrow> c \<noteq> ''vcl.use''" for c
    using cliQuote_plain [of c "''vcl.load''"] by auto
  have plain: "cliQuote ''vcl.use'' = ''vcl.use''" "cliQuote ''kv_reload_8'' = ''kv_reload_8''"
    by (simp_all add: cliQuote_def needs_quote_def)
  show ?thesis
    unfolding use_law_def
  proof (intro allI)
    fix cmd w
    have args: "drop 2 (adm_args [] cmd) = map cliQuote cmd" by (simp add: adm_args_def)
    show "id (snd (sample_varnishd (adm_args [] cmd) w)) =
      (if snd (fst (sample_varnishd (adm_args [] cmd) w)) = None \<and> length cmd = 2 \<and> hd cmd = ''vcl.use''
       then Some (cmd ! 1) else id w)"
    proof (cases "map cliQuote cmd = [''vcl.use'', ''kv_reload_8'']")
      case True
      then show ?thesis using use [OF True] args by (simp add: sample_varnishd_def)
    next
      case False
      then show ?thesis using args load [of "hd cmd"]
        by (cases cmd) (auto simp: sample_varnishd_def adm_args_def)
    qed
  qed
qed

lemma show_int_8: "show_int 8 = ''8''"
  by (simp add: show_int_def show_nat.simps digit_char_def char_of_def bit_0)

theorem reload_all_or_nothing_witness:
  "\<exists>m'. reload sample_varnishd id (\<lambda>_. False) ''/tmp/new.vcl'' (sample_manager, None) =
      (None, m', Some ''kv_reload_8'') \<and> mg_reloadCounter m' = 8"
proof -
  obtain e m' w' where r: "reload sample_varnishd id (\<lambda>_. False) ''/tmp/new.vcl'' (sample_manager, None) = (e, m', w')"
    by (metis surj_pair)
  have "e = None \<and> mg_reloadCounter m' = 8"
    using r by (auto simp: reload_def sample_manager_def numeral_3_eq_3 reload_one admRaw_def adm_def
        adm_args_def sample_varnishd_def cliQuote_def needs_quote_def vclReloadPrefix_def show_int_8
        discardOldVCLs_def Let_def split: if_splits)
  moreover have "id w' = (if e = None then Some (vclReloadPrefix @ show_int (mg_reloadCounter m')) else id None)"
    using reload_all_or_nothing [OF _ _ r, of id] sample_law by (simp add: sample_manager_def)
  ultimately show ?thesis using r
    by (simp add: vclReloadPrefix_def show_int_8)
qed

section \<open>What a failed reload reports\<close>

definition reload_failure :: "'w runner \<Rightarrow> (string \<Rightarrow> string) \<Rightarrow> string \<Rightarrow> reload_error \<Rightarrow> manager \<Rightarrow> 'w \<Rightarrow> bool" where
  "reload_failure run redact path e m' w' \<longleftrightarrow>
     (let name = vclReloadPrefix @ show_int (mg_reloadCounter m') in
      case e of
        LoadError rejected err resp \<Rightarrow>
          \<exists>w0 raw. admRaw run m' [''vcl.load'', name, path] w0 = ((raw, Some err), w') \<and> resp = redact raw \<and>
            rejected = (sublist ''VCC-compiler'' raw \<or> sublist ''VCL compilation failed'' raw)
      | UseError err resp \<Rightarrow>
          \<exists>w0 raw w1 w2. admRaw run m' [''vcl.load'', name, path] w0 = ((raw, None), w1) \<and>
            adm run redact m' [''vcl.use'', name] w1 = ((resp, Some err), w2) \<and>
            w' = snd (adm run redact m' [''vcl.discard'', name] w2))"

lemma isVCLRejection_iff:
  "isVCLRejection raw \<longleftrightarrow> sublist ''VCC-compiler'' raw \<or> sublist ''VCL compilation failed'' raw"
  by (simp add: isVCLRejection_def str_contains_def str_index_None)

lemma admRaw_workDir: "mg_workDir m = mg_workDir m' \<Longrightarrow> admRaw run m = admRaw run m'"
  by (simp add: admRaw_def fun_eq_iff)

lemma reload_loop_failure:
  assumes "reload_loop run redact exited path left attempt lastErr (m, w) = (Some e, m', w')" and "0 < left"
  shows "reload_failure run redact path e m' w'"
  using assms
proof (induction left arbitrary: attempt lastErr m w)
  case (Suc left)
  show ?case
  proof (rule reload_one_cases [of run m path w redact exited left attempt lastErr])
    fix resp err w1
    assume l: "admRaw run (counted m) [''vcl.load'', next_name m, path] w = ((resp, Some err), w1)"
      and r: "reload_loop run redact exited path (Suc left) attempt lastErr (m, w) =
        (let e = Some (LoadError (isVCLRejection resp) err (redact resp)) in
         if left = 0 then (e, counted m, w1)
         else let m2 = (counted m)\<lparr>mg_retriesTotal := Suc (mg_retriesTotal m)\<rparr> in
              if exited attempt then (e, m2, w1)
              else reload_loop run redact exited path left (Suc attempt) e (m2, w1))"
    let ?e = "LoadError (isVCLRejection resp) err (redact resp)"
    let ?m2 = "(counted m)\<lparr>mg_retriesTotal := Suc (mg_retriesTotal m)\<rparr>"
    have l2: "admRaw run ?m2 [''vcl.load'', next_name m, path] w = ((resp, Some err), w1)"
      using l by (simp add: admRaw_def)
    have f: "reload_failure run redact path ?e mm w1" if "mm = counted m \<or> mm = ?m2" for mm
      using that l l2 unfolding reload_failure_def Let_def
      by (auto simp: isVCLRejection_iff next_name_def intro!: exI [of _ w] exI [of _ resp])
    show ?thesis
    proof (cases "left = 0 \<or> exited attempt")
      case True
      then show ?thesis using r Suc.prems(1) f by (auto simp: Let_def split: if_splits)
    next
      case False
      then have "reload_loop run redact exited path left (Suc attempt) (Some ?e) (?m2, w1) = (Some e, m', w')"
        using r Suc.prems(1) by (simp add: Let_def)
      from Suc.IH [OF this] False show ?thesis by simp
    qed
  next
    fix resp w1 err2 resp2 w2
    assume l: "admRaw run (counted m) [''vcl.load'', next_name m, path] w = ((resp, None), w1)"
      and u: "adm run redact (counted m) [''vcl.use'', next_name m] w1 = ((resp2, Some err2), w2)"
      and r: "reload_loop run redact exited path (Suc left) attempt lastErr (m, w) =
        (Some (UseError err2 resp2), counted m, snd (adm run redact (counted m) [''vcl.discard'', next_name m] w2))"
    then have "reload_failure run redact path (UseError err2 resp2) (counted m)
        (snd (adm run redact (counted m) [''vcl.discard'', next_name m] w2))"
      unfolding reload_failure_def Let_def next_name_def counted_simps
      by (simp only: reload_error.case) blast
    then show ?thesis using r Suc.prems(1) by auto
  next
    fix resp w1 resp2 w2
    assume "reload_loop run redact exited path (Suc left) attempt lastErr (m, w) =
        (None, counted m, discardOldVCLs run redact (counted m) (next_name m) w2)"
    then show ?thesis using Suc.prems(1) by simp
  qed
qed simp

text \<open>
  C26: The error of a failed reload tells the truth about the last attempt. A load error carries the
  error of that attempt's \<open>vcl.load\<close> and its redacted response, and it counts as a rejection of the
  VCL exactly when the raw response has one of the compiler's markers: a broken admin connection is
  never taken for a bad template, and redaction cannot hide a marker. After a failed \<open>vcl.use\<close> the
  VCL just loaded has been discarded, and the error is never a rejection.
\<close>

theorem reload_error_honest:
  assumes "reload run redact exited path (m, w) = (Some e, m', w')" and "0 \<le> mg_ReloadRetries m"
  shows "reload_failure run redact path e m' w'"
  using reload_loop_failure assms by (fastforce simp: reload_def)

definition broken_varnishd :: "nat runner" where
  "broken_varnishd args w = ((''VCC-compiler failed'', Some ''exit 1''), Suc w)"

theorem reload_error_honest_witness:
  "\<exists>e m' w'. reload broken_varnishd id (\<lambda>_. False) ''/tmp/new.vcl'' (sample_manager, 0) = (Some e, m', w') \<and>
     w' = 3 \<and> reload_failure broken_varnishd id ''/tmp/new.vcl'' e m' w'"
proof -
  have "\<exists>e m'. reload broken_varnishd id (\<lambda>_. False) ''/tmp/new.vcl'' (sample_manager, 0) = (Some e, m', 3)"
    by (simp add: reload_def sample_manager_def numeral_3_eq_3 reload_one admRaw_def broken_varnishd_def Let_def)
  then obtain e m' where r: "reload broken_varnishd id (\<lambda>_. False) ''/tmp/new.vcl'' (sample_manager, 0) = (Some e, m', 3)"
    by blast
  from reload_error_honest [OF r] r show ?thesis by (auto simp: sample_manager_def)
qed

end
