(* ===== verification/PrefixWriter.thy ===== *)
theory PrefixWriter
  imports GoText Redact
begin

text \<open>
  The writer that puts a prefix before every line of varnishncsa's output (\<open>prefixWriter\<close> in
  \<open>internal/varnish/manager.go\<close>) and its composition with the redacting writer
  (\<open>buildNCSAWriters\<close>): the redactor sees the raw bytes, the prefix writer the redacted ones.
\<close>

section \<open>The writer\<close>

definition maxBufferedLine :: nat where
  "maxBufferedLine = 2 ^ 20"

text \<open>
  The buffered partial line and what was written to the sink, one element per write. An error of
  the sink is handed to the caller and changes no field.
\<close>

record prefix_writer =
  pw_buf :: string
  pw_out :: "string list"

definition newPrefixWriter :: prefix_writer where
  "newPrefixWriter = \<lparr>pw_buf = [], pw_out = []\<rparr>"

text \<open>\<open>bytes.IndexByte (p, '\n')\<close>.\<close>

fun newline_index :: "string \<Rightarrow> nat option" where
  "newline_index [] = None"
| "newline_index (c # cs) = (if c = newline then Some 0 else map_option Suc (newline_index cs))"

lemma newline_index_less: "newline_index p = Some i \<Longrightarrow> i < length p"
  by (induction p arbitrary: i) (auto split: if_splits)

definition flushOverlongLine :: "string \<Rightarrow> prefix_writer \<Rightarrow> prefix_writer" where
  "flushOverlongLine pre w = \<lparr>pw_buf = [], pw_out = pw_out w @ [pre @ pw_buf w]\<rparr>"

text \<open>The loop over the remaining lines: the scratch buffer, and the new partial line.\<close>

function line_loop :: "string \<Rightarrow> string \<Rightarrow> string \<Rightarrow> string \<times> string" where
  "line_loop pre scratch p =
     (if p = [] then (scratch, [])
      else case newline_index p of
             None \<Rightarrow> (scratch, p)
           | Some nl \<Rightarrow> line_loop pre (scratch @ pre @ take (nl + 1) p) (drop (nl + 1) p))"
  by pat_completeness auto
termination
  by (relation "measure (\<lambda>(pre, scratch, p). length p)") (auto dest: newline_index_less)

declare line_loop.simps [simp del]

text \<open>\<open>Write\<close>, with the bound on the partial line as an argument.\<close>

definition pw_Write :: "string \<Rightarrow> nat \<Rightarrow> string \<Rightarrow> prefix_writer \<Rightarrow> prefix_writer" where
  "pw_Write pre limit p w =
     (case newline_index p of
        None \<Rightarrow>
          (let w1 = w\<lparr>pw_buf := pw_buf w @ p\<rparr>
           in if length (pw_buf w1) \<ge> limit then flushOverlongLine pre w1 else w1)
      | Some nl \<Rightarrow>
          if pw_buf w = [] \<and> nl = length p - 1
          then w\<lparr>pw_out := pw_out w @ [pre @ p]\<rparr>
          else (let (scratch, rest) =
                  line_loop pre (pre @ pw_buf w @ take (nl + 1) p) (drop (nl + 1) p)
                in \<lparr>pw_buf = rest, pw_out = pw_out w @ [scratch]\<rparr>))"

definition pw_Flush :: "string \<Rightarrow> prefix_writer \<Rightarrow> prefix_writer" where
  "pw_Flush pre w =
     (if pw_buf w = [] then w else flushOverlongLine pre (w\<lparr>pw_buf := pw_buf w @ [newline]\<rparr>))"

section \<open>Lines\<close>

definition whole_lines :: "string \<Rightarrow> string list" where
  "whole_lines s = butlast (split_on newline s)"

definition partial_line :: "string \<Rightarrow> string" where
  "partial_line s = last (split_on newline s)"

text \<open>The prefix before every whole line.\<close>

definition prefixed :: "string \<Rightarrow> string list \<Rightarrow> string" where
  "prefixed pre ls = concat (map (\<lambda>l. pre @ l @ [newline]) ls)"

lemma prefixed_append [simp]: "prefixed pre (ls @ ms) = prefixed pre ls @ prefixed pre ms"
  by (simp add: prefixed_def)

lemma prefixed_simps [simp]: "prefixed pre [] = []" "prefixed pre (l # ls) = pre @ l @ newline # prefixed pre ls"
  by (simp_all add: prefixed_def)

lemma lines_no_newline: "newline \<notin> set p \<Longrightarrow> whole_lines p = [] \<and> partial_line p = p"
  by (simp add: whole_lines_def partial_line_def split_on_id)

lemma partial_no_newline: "newline \<notin> set (partial_line s)"
  unfolding partial_line_def using split_on_no_sep [OF last_in_set [OF split_on_nonempty]] by simp

lemma lines_first: "newline \<notin> set l \<Longrightarrow>
  whole_lines (l @ newline # r) = l # whole_lines r \<and> partial_line (l @ newline # r) = partial_line r"
  by (simp add: whole_lines_def partial_line_def split_on_append_sep split_on_id)

lemma split_on_partial: "split_on newline (s @ p) = whole_lines s @ split_on newline (partial_line s @ p)"
proof (induction s)
  case Nil
  then show ?case by (simp add: whole_lines_def partial_line_def)
next
  case (Cons c s)
  obtain w ws where w: "split_on newline s = w # ws" by (metis neq_Nil_conv split_on_nonempty)
  show ?case
  proof (cases "c = newline")
    case True
    then show ?thesis using Cons w by (simp add: whole_lines_def partial_line_def)
  next
    case False
    show ?thesis
    proof (cases ws)
      case Nil
      then have "s = w" using w split_on_single by fast
      then show ?thesis using w Nil False by (simp add: whole_lines_def partial_line_def)
    next
      case (Cons v vs)
      then show ?thesis using Cons.IH w False by (simp add: whole_lines_def partial_line_def)
    qed
  qed
qed

lemma lines_append: "whole_lines (s @ p) = whole_lines s @ whole_lines (partial_line s @ p)"
    "partial_line (s @ p) = partial_line (partial_line s @ p)"
proof -
  show "whole_lines (s @ p) = whole_lines s @ whole_lines (partial_line s @ p)"
    unfolding whole_lines_def [of "s @ p"] whole_lines_def [of "partial_line s @ p"] split_on_partial [of s p]
    by (simp add: butlast_append)
  show "partial_line (s @ p) = partial_line (partial_line s @ p)"
    unfolding partial_line_def [of "s @ p"] partial_line_def [of "partial_line s @ p"] split_on_partial [of s p]
    by simp
qed

lemma newline_index_None: "newline_index p = None \<longleftrightarrow> newline \<notin> set p"
  by (induction p) auto

lemma newline_index_Some: "newline_index p = Some i \<Longrightarrow>
  \<exists>l r. p = l @ newline # r \<and> newline \<notin> set l \<and> take (i + 1) p = l @ [newline] \<and> drop (i + 1) p = r \<and> i = length l"
proof (induction p arbitrary: i)
  case (Cons c p)
  show ?case
  proof (cases "c = newline")
    case True
    then show ?thesis using Cons.prems by (auto intro: exI [of _ "[]"])
  next
    case False
    then obtain j where j: "newline_index p = Some j" "i = Suc j" using Cons.prems by auto
    from Cons.IH [OF j(1)] obtain l r where "p = l @ newline # r" "newline \<notin> set l"
      "take (j + 1) p = l @ [newline]" "drop (j + 1) p = r" "j = length l" by blast
    then show ?thesis using j False by (intro exI [of _ "c # l"] exI [of _ r]) auto
  qed
qed simp

lemma line_loop_lines: "line_loop pre scratch p = (scratch @ prefixed pre (whole_lines p), partial_line p)"
proof (induction pre scratch p rule: line_loop.induct)
  case (1 pre scratch p)
  show ?case
  proof (cases "newline_index p")
    case None
    then have "newline \<notin> set p" by (simp add: newline_index_None)
    then show ?thesis using None lines_no_newline [of p] by (subst line_loop.simps) auto
  next
    case (Some nl)
    then obtain l r where lr: "p = l @ newline # r" "newline \<notin> set l" "take (nl + 1) p = l @ [newline]"
      "drop (nl + 1) p = r" using newline_index_Some by blast
    then have ne: "p \<noteq> []" by simp
    have lines: "whole_lines p = l # whole_lines r" "partial_line p = partial_line r"
      using lines_first [OF lr(2), of r] lr(1) by simp_all
    have "line_loop pre scratch p = line_loop pre (scratch @ pre @ take (nl + 1) p) (drop (nl + 1) p)"
      by (subst line_loop.simps) (simp add: Some ne)
    also have "... = (scratch @ prefixed pre (whole_lines p), partial_line p)"
      using "1.IH" [OF ne Some] unfolding lr(3,4) lines by simp
    finally show ?thesis .
  qed
qed

text \<open>What one write adds to the sink, and the partial line it leaves.\<close>

lemma pw_Write_lines:
  assumes "newline \<notin> set (pw_buf w)" and "length (partial_line (pw_buf w @ p)) < limit"
  shows "concat (pw_out (pw_Write pre limit p w)) =
      concat (pw_out w) @ prefixed pre (whole_lines (pw_buf w @ p))"
    and "pw_buf (pw_Write pre limit p w) = partial_line (pw_buf w @ p)"
proof -
  have "concat (pw_out (pw_Write pre limit p w)) = concat (pw_out w) @ prefixed pre (whole_lines (pw_buf w @ p)) \<and>
      pw_buf (pw_Write pre limit p w) = partial_line (pw_buf w @ p)"
  proof (cases "newline_index p")
    case None
    then have "newline \<notin> set (pw_buf w @ p)" using assms(1) by (simp add: newline_index_None)
    then show ?thesis using None assms(2) lines_no_newline [of "pw_buf w @ p"] by (simp add: pw_Write_def Let_def)
  next
    case (Some nl)
    then obtain l r where lr: "p = l @ newline # r" "newline \<notin> set l" "take (nl + 1) p = l @ [newline]"
      "drop (nl + 1) p = r" "nl = length l" using newline_index_Some by blast
    have first: "whole_lines (pw_buf w @ p) = (pw_buf w @ l) # whole_lines r \<and>
        partial_line (pw_buf w @ p) = partial_line r"
      using lines_first [of "pw_buf w @ l" r] assms(1) lr(1,2) by simp
    show ?thesis
    proof (cases "pw_buf w = [] \<and> nl = length p - 1")
      case True
      then have "r = []" using lr(1,5) by simp
      then show ?thesis using True Some first lr(1) lines_no_newline [of "[]"] by (simp add: pw_Write_def)
    next
      case False
      show ?thesis
        unfolding pw_Write_def Some option.case if_not_P [OF False] lr(3,4) line_loop_lines
        using first by simp
    qed
  qed
  then show "concat (pw_out (pw_Write pre limit p w)) =
      concat (pw_out w) @ prefixed pre (whole_lines (pw_buf w @ p))"
    and "pw_buf (pw_Write pre limit p w) = partial_line (pw_buf w @ p)" by simp_all
qed

definition pw_writes :: "string \<Rightarrow> nat \<Rightarrow> string list \<Rightarrow> prefix_writer \<Rightarrow> prefix_writer" where
  "pw_writes pre limit ps w = fold (pw_Write pre limit) ps w"

text \<open>No line of a stream fills the buffer.\<close>

definition short_lines :: "nat \<Rightarrow> string \<Rightarrow> bool" where
  "short_lines limit s \<longleftrightarrow> list_all (\<lambda>l. length l < limit) (split_on newline s)"

lemma short_partial: "short_lines limit (s @ t) \<Longrightarrow> length (partial_line s) < limit"
proof -
  assume short: "short_lines limit (s @ t)"
  obtain w ws where w: "split_on newline (partial_line s @ t) = w # ws" and "prefix (partial_line s) w"
    using split_on_prefix [OF partial_no_newline] by blast
  moreover have "length w < limit"
    using short w unfolding short_lines_def split_on_partial [of s t] by simp
  ultimately show ?thesis using prefix_length_le by fastforce
qed

lemma pw_writes_lines:
  assumes "newline \<notin> set (pw_buf w)" and "short_lines limit (pw_buf w @ concat ps)"
  shows "concat (pw_out (pw_writes pre limit ps w)) =
      concat (pw_out w) @ prefixed pre (whole_lines (pw_buf w @ concat ps)) \<and>
    pw_buf (pw_writes pre limit ps w) = partial_line (pw_buf w @ concat ps)"
  using assms
proof (induction ps arbitrary: w)
  case Nil
  then show ?case using lines_no_newline [of "pw_buf w"] by (simp add: pw_writes_def)
next
  case (Cons p ps)
  let ?w = "pw_Write pre limit p w"
  have lim: "length (partial_line (pw_buf w @ p)) < limit"
    using short_partial [of limit "pw_buf w @ p" "concat ps"] Cons.prems(2) by simp
  note step = pw_Write_lines [OF Cons.prems(1) lim, of pre]
  have short: "short_lines limit (pw_buf ?w @ concat ps)"
    using Cons.prems(2) split_on_partial [of "pw_buf w @ p" "concat ps"] by (simp add: short_lines_def step)
  have nn: "newline \<notin> set (pw_buf ?w)" by (simp add: step partial_no_newline)
  have fold: "pw_writes pre limit (p # ps) w = pw_writes pre limit ps ?w" by (simp add: pw_writes_def)
  show ?case
    using Cons.IH [OF nn short] lines_append [of "pw_buf w @ p" "concat ps"] by (simp add: fold step)
qed

lemma pw_Flush_lines:
  "concat (pw_out (pw_Flush pre w)) =
     concat (pw_out w) @ (if pw_buf w = [] then [] else prefixed pre [pw_buf w])"
  by (simp add: pw_Flush_def flushOverlongLine_def)

text \<open>The lines of a text, the last one without its newline if it has none.\<close>

definition text_lines :: "string \<Rightarrow> string list" where
  "text_lines s = whole_lines s @ (if partial_line s = [] then [] else [partial_line s])"

lemma prefix_writer_stream:
  assumes "short_lines limit (concat ps)"
  shows "concat (pw_out (pw_Flush pre (pw_writes pre limit ps newPrefixWriter))) =
    prefixed pre (text_lines (concat ps))"
  using pw_writes_lines [of newPrefixWriter limit ps pre] assms
  by (simp add: newPrefixWriter_def pw_Flush_lines text_lines_def)


section \<open>Redaction and prefix together\<close>

text \<open>
  \<open>buildNCSAWriters\<close> with a prefix: every write of the redacting writer goes to the prefix writer,
  and the flush reaches the redacting writer first.
\<close>

definition ncsa_stdout :: "string \<Rightarrow> nat \<Rightarrow> redactor \<Rightarrow> nat \<Rightarrow> string list \<Rightarrow> string" where
  "ncsa_stdout pre limit r rlimit ps =
     concat (pw_out (pw_Flush pre (pw_writes pre limit
       (wr_out (snd (writer_Flush no_fail r (writes r rlimit ps new_writer)))) newPrefixWriter)))"


definition sample_chunks :: "string list" where
  "sample_chunks = [''a se'', ''cret1'' @ [newline], ''b'']"


end
