(* ===== verification/TLSCerts.thy ===== *)
theory TLSCerts
  imports VarnishCLI
begin

text \<open>
  The certificates of varnishd (\<open>internal/varnish/tls.go\<close>): combining and naming the PEM files,
  staging and committing a certificate, identifying its id by the difference of two listings, and
  the queue of superseded ids whose discard is retried. A command is given by its arguments before
  quoting, so \<open>cli\<close> is \<open>admRaw\<close> of a runner; the check of a key pair, the file system and the
  hash are parameters.
\<close>

section \<open>PEM files\<close>

definition writePEMBlock :: "string \<Rightarrow> string \<Rightarrow> string" where
  "writePEMBlock buf block =
     buf @ trim_right {carriage_return, newline, CHR '' ''} block @ [newline]"

text \<open>\<open>keyPair\<close> is the error of \<open>tls.X509KeyPair\<close>, if any.\<close>

datatype pem_error = EmptyMaterial | InvalidKeyPair string

definition combinePEM :: "(string \<Rightarrow> string \<Rightarrow> string option) \<Rightarrow> string \<Rightarrow> string \<Rightarrow> string \<Rightarrow> pem_error + string" where
  "combinePEM keyPair cert key ca =
     (if length cert = 0 \<or> length key = 0 then Inl EmptyMaterial
      else case keyPair cert key of
             Some err \<Rightarrow> Inl (InvalidKeyPair err)
           | None \<Rightarrow>
               (let buf = writePEMBlock (writePEMBlock [] key) cert
                in Inr (if length ca > 0 then writePEMBlock buf ca else buf)))"

definition safe_char :: "char \<Rightarrow> bool" where
  "safe_char c \<longleftrightarrow> (97 \<le> byte c \<and> byte c \<le> 122) \<or> (65 \<le> byte c \<and> byte c \<le> 90) \<or> is_digit c \<or>
     c = CHR ''-'' \<or> c = CHR ''_'' \<or> c = CHR ''.''"

definition safe_rune :: "string \<Rightarrow> string" where
  "safe_rune r = (case r of [c] \<Rightarrow> (if safe_char c then r else ''_'') | _ \<Rightarrow> ''_'')"

text \<open>\<open>sanitizeCertFileName\<close>; \<open>sum4\<close> is the hexadecimal form of the first four bytes of SHA-256.\<close>

definition sanitizeCertFileName :: "(string \<Rightarrow> string) \<Rightarrow> string \<Rightarrow> string" where
  "sanitizeCertFileName sum4 name =
     (let safe = concat (map safe_rune (runes name))
      in if safe = name \<and> safe \<noteq> [] \<and> safe \<noteq> ''.'' \<and> safe \<noteq> ''..'' then safe
         else (if safe = [] \<or> safe = ''.'' \<or> safe = ''..'' then ''tlscert'' else safe) @ ''-'' @ sum4 name)"

section \<open>The state\<close>

record tls_state =
  tl_major :: int
  tl_CertIDs :: strmap
  tl_CertDir :: "string option"
  tl_PendingDiscards :: "(string \<times> string) list"
  tl_active :: "int option"

definition TLSSupported :: "tls_state \<Rightarrow> bool" where
  "TLSSupported s \<longleftrightarrow> tl_major s \<ge> 9"

definition maxPendingDiscards :: nat where
  "maxPendingDiscards = 8"

definition queueDiscard :: "string \<Rightarrow> string \<Rightarrow> tls_state \<Rightarrow> tls_state" where
  "queueDiscard name i s =
     (if list_ex (\<lambda>p. snd p = i) (tl_PendingDiscards s) then s
      else let ps = (if length (tl_PendingDiscards s) \<ge> maxPendingDiscards
                     then tl (tl_PendingDiscards s) else tl_PendingDiscards s)
           in s\<lparr>tl_PendingDiscards := ps @ [(name, i)]\<rparr>)"

type_synonym 'w cli = "string list \<Rightarrow> 'w \<Rightarrow> (string \<times> string option) \<times> 'w"

text \<open>The loop of \<open>discardQueued\<close>: what is kept, and how many listed ids were discarded.\<close>

fun discard_queue :: "'w cli \<Rightarrow> string list \<Rightarrow> bool \<Rightarrow> (string \<times> string) list \<Rightarrow> 'w \<Rightarrow>
    (string \<times> string) list \<times> nat \<times> 'w" where
  "discard_queue cli after afterOK [] w = ([], 0, w)"
| "discard_queue cli after afterOK (p # ps) w =
     (if afterOK \<and> snd p \<notin> set after then discard_queue cli after afterOK ps w
      else case cli [''tls.cert.discard'', snd p] w of
             ((_, Some err), w1) \<Rightarrow>
               (case discard_queue cli after afterOK ps w1 of (kept, n, w2) \<Rightarrow> (p # kept, n, w2))
           | ((_, None), w1) \<Rightarrow>
               (case discard_queue cli after afterOK ps w1 of
                  (kept, n, w2) \<Rightarrow> (kept, if snd p \<in> set after then Suc n else n, w2)))"

definition discardQueued :: "'w cli \<Rightarrow> string list \<Rightarrow> bool \<Rightarrow> tls_state \<Rightarrow> 'w \<Rightarrow> nat \<times> tls_state \<times> 'w" where
  "discardQueued cli after afterOK s w =
     (case discard_queue cli after afterOK (tl_PendingDiscards s) w of
        (kept, n, w') \<Rightarrow> (n, s\<lparr>tl_PendingDiscards := kept\<rparr>, w'))"

text \<open>\<open>tlsCertIDRe\<close>.\<close>

definition is_cert_id :: "string \<Rightarrow> bool" where
  "is_cert_id f \<longleftrightarrow> prefix ''cert'' f \<and> drop 4 f \<noteq> [] \<and> list_all is_digit (drop 4 f)"

definition tlsListAttempts :: nat where
  "tlsListAttempts = 3"

text \<open>\<open>listCertIDs\<close>: the ids of the first listing that succeeds, without repetition.\<close>

fun list_attempts :: "'w cli \<Rightarrow> nat \<Rightarrow> 'w \<Rightarrow> string option \<times> 'w" where
  "list_attempts cli 0 w = (None, w)"
| "list_attempts cli (Suc n) w =
     (case cli [''tls.cert.list''] w of
        ((resp, None), w1) \<Rightarrow> (Some resp, w1)
      | ((_, Some err), w1) \<Rightarrow> list_attempts cli n w1)"

definition listCertIDs :: "'w cli \<Rightarrow> 'w \<Rightarrow> string list option \<times> 'w" where
  "listCertIDs cli w =
     (case list_attempts cli tlsListAttempts w of
        (r, w') \<Rightarrow> (map_option (\<lambda>resp. remdups (filter is_cert_id (str_fields resp))) r, w'))"

section \<open>Loading a certificate\<close>

datatype load_error = Unsupported | BadPEM pem_error | FileError string | LoadFailed string | CommitFailed string

text \<open>
  The environment of one call: the key pair check, the hash, the directory that can be made, and
  the error of writing the file. \<open>lc_choose\<close> is the element the range over the map of new ids
  starts with.
\<close>

record load_env =
  lc_keyPair :: "string \<Rightarrow> string \<Rightarrow> string option"
  lc_sum4 :: "string \<Rightarrow> string"
  lc_mkdir :: "string + string"
  lc_write :: "string \<Rightarrow> string \<Rightarrow> string option"
  lc_choose :: "string list \<Rightarrow> string"

definition ensureTLSDir :: "load_env \<Rightarrow> tls_state \<Rightarrow> (load_error + string) \<times> tls_state" where
  "ensureTLSDir env s =
     (case tl_CertDir s of
        Some dir \<Rightarrow> (Inr dir, s)
      | None \<Rightarrow> (case lc_mkdir env of
          Inl err \<Rightarrow> (Inl (FileError err), s)
        | Inr dir \<Rightarrow> (Inr dir, s\<lparr>tl_CertDir := Some dir\<rparr>)))"

definition cert_path :: "load_env \<Rightarrow> string \<Rightarrow> string \<Rightarrow> string" where
  "cert_path env dir name = dir @ ''/'' @ sanitizeCertFileName (lc_sum4 env) name @ ''.pem''"

text \<open>The id that the commit added; empty when a listing failed or nothing is new.\<close>

definition new_id :: "load_env \<Rightarrow> string list option \<Rightarrow> string list option \<Rightarrow> string" where
  "new_id env before after =
     (case (before, after) of
        (Some b, Some a) \<Rightarrow> (let fresh = filter (\<lambda>i. i \<notin> set b) a in if fresh = [] then [] else lc_choose env fresh)
      | _ \<Rightarrow> [])"

text \<open>The steps after the commit: record the new id, queue the prior one, retry the discards.\<close>

definition rotate :: "'w cli \<Rightarrow> string \<Rightarrow> string \<Rightarrow> string \<Rightarrow> string list option \<Rightarrow> tls_state \<Rightarrow> 'w \<Rightarrow> tls_state \<times> 'w" where
  "rotate cli name newID prior after s w =
     (let s1 = (if newID \<noteq> [] then s\<lparr>tl_CertIDs := fmupd name newID (tl_CertIDs s)\<rparr> else s);
          s2 = (if newID \<noteq> [] \<and> prior \<noteq> [] \<and> prior \<noteq> newID then queueDiscard name prior s1 else s1)
      in case discardQueued cli (case after of Some a \<Rightarrow> a | None \<Rightarrow> []) (after \<noteq> None) s2 w of
           (n, s3, w3) \<Rightarrow>
             (case after of Some a \<Rightarrow> s3\<lparr>tl_active := Some (int (length a) - int n)\<rparr> | None \<Rightarrow> s3, w3))"

text \<open>From the file that was written to the end: list, stage, commit, list again, rotate.\<close>

definition stage_and_commit :: "'w cli \<Rightarrow> load_env \<Rightarrow> string \<Rightarrow> string \<Rightarrow> tls_state \<Rightarrow> 'w \<Rightarrow>
    load_error option \<times> tls_state \<times> 'w" where
  "stage_and_commit cli env name path s w =
     (case listCertIDs cli w of
        (before, w1) \<Rightarrow>
          (let prior = (case fmlookup (tl_CertIDs s) name of Some i \<Rightarrow> i | None \<Rightarrow> [])
           in case cli [''tls.cert.load'', path] w1 of
                ((_, Some err), w2) \<Rightarrow> (Some (LoadFailed err), s, snd (cli [''tls.cert.rollback''] w2))
              | ((_, None), w2) \<Rightarrow>
                  (case cli [''tls.cert.commit''] w2 of
                     ((_, Some err), w3) \<Rightarrow> (Some (CommitFailed err), s, snd (cli [''tls.cert.rollback''] w3))
                   | ((_, None), w3) \<Rightarrow>
                       (case listCertIDs cli w3 of
                          (after, w4) \<Rightarrow>
                            (None, rotate cli name (new_id env before after) prior after s w4)))))"

definition LoadCert :: "'w cli \<Rightarrow> load_env \<Rightarrow> string \<Rightarrow> string \<Rightarrow> string \<Rightarrow> string \<Rightarrow> tls_state \<Rightarrow> 'w \<Rightarrow>
    load_error option \<times> tls_state \<times> 'w" where
  "LoadCert cli env name cert key ca s w =
     (if \<not> TLSSupported s then (Some Unsupported, s, w)
      else if length cert = 0 \<or> length key = 0 then (None, s, w)
      else case combinePEM (lc_keyPair env) cert key ca of
             Inl e \<Rightarrow> (Some (BadPEM e), s, w)
           | Inr pem \<Rightarrow>
               (case ensureTLSDir env s of
                  (Inl e, s1) \<Rightarrow> (Some e, s1, w)
                | (Inr dir, s1) \<Rightarrow>
                    (let path = cert_path env dir name
                     in case lc_write env path pem of
                          Some err \<Rightarrow> (Some (FileError err), s1, w)
                        | None \<Rightarrow> stage_and_commit cli env name path s1 w)))"

definition CleanupTLS :: "tls_state \<Rightarrow> tls_state" where
  "CleanupTLS s = s\<lparr>tl_CertDir := None\<rparr>"


section \<open>The commands a call issues\<close>

type_synonym entry = "string list \<times> string \<times> string option"

text \<open>A command line that also logs every command with its response and error.\<close>

definition traced :: "'w cli \<Rightarrow> ('w \<times> entry list) cli" where
  "traced cli cmd wl =
     (case cli cmd (fst wl) of ((resp, err), w') \<Rightarrow> ((resp, err), (w', snd wl @ [(cmd, resp, err)])))"

lemma traced_cases:
  obtains resp err w' where "traced cli cmd (w, l) = ((resp, err), (w', l @ [(cmd, resp, err)]))"
  by (cases "cli cmd w") (auto simp: traced_def split: prod.splits)

definition discards :: "entry list \<Rightarrow> string set" where
  "discards l = {i. \<exists>resp err. ([''tls.cert.discard'', i], resp, err) \<in> set l}"

lemma discards_simps [simp]:
  "discards [] = {}" "discards (l @ l') = discards l \<union> discards l'"
  "discards ((cmd, resp, err) # l) = {i. cmd = [''tls.cert.discard'', i]} \<union> discards l"
  by (auto simp: discards_def)

lemma list_attempts_log:
  "\<exists>new. snd (list_attempts (traced cli) n (w, l)) = (fst (snd (list_attempts (traced cli) n (w, l))), l @ new) \<and>
     list_all (\<lambda>e. fst e = [''tls.cert.list'']) new \<and>
     (\<forall>resp. fst (list_attempts (traced cli) n (w, l)) = Some resp \<longrightarrow> ([''tls.cert.list''], resp, None) \<in> set new)"
proof (induction n arbitrary: w l)
  case 0
  then show ?case by simp
next
  case (Suc n)
  obtain resp err w1 where t: "traced cli [''tls.cert.list''] (w, l) =
      ((resp, err), (w1, l @ [([''tls.cert.list''], resp, err)]))" by (rule traced_cases)
  show ?case
  proof (cases err)
    case None
    then show ?thesis using t by (intro exI [of _ "[([''tls.cert.list''], resp, None)]"]) simp
  next
    case (Some e)
    obtain new where new: "snd (list_attempts (traced cli) n (w1, l @ [([''tls.cert.list''], resp, err)])) =
        (fst (snd (list_attempts (traced cli) n (w1, l @ [([''tls.cert.list''], resp, err)]))),
         (l @ [([''tls.cert.list''], resp, err)]) @ new)"
      "list_all (\<lambda>e. fst e = [''tls.cert.list'']) new"
      "\<forall>resp'. fst (list_attempts (traced cli) n (w1, l @ [([''tls.cert.list''], resp, err)])) = Some resp' \<longrightarrow>
        ([''tls.cert.list''], resp', None) \<in> set new"
      using Suc.IH by blast
    have "list_attempts (traced cli) (Suc n) (w, l) =
        list_attempts (traced cli) n (w1, l @ [([''tls.cert.list''], resp, err)])"
      using t Some by simp
    then show ?thesis using new
      by (intro exI [of _ "([''tls.cert.list''], resp, err) # new"]) simp
  qed
qed

lemma listCertIDs_log:
  assumes "listCertIDs (traced cli) (w, l) = (ids, (w', l'))"
  obtains new where "l' = l @ new" "discards new = {}"
    "\<And>a. ids = Some a \<Longrightarrow> distinct a \<and> (\<exists>resp. ([''tls.cert.list''], resp, None) \<in> set new \<and>
       set a = {f \<in> set (str_fields resp). is_cert_id f})"
proof -
  obtain new where new: "snd (list_attempts (traced cli) tlsListAttempts (w, l)) =
      (fst (snd (list_attempts (traced cli) tlsListAttempts (w, l))), l @ new)"
    "list_all (\<lambda>e. fst e = [''tls.cert.list'']) new"
    "\<forall>resp. fst (list_attempts (traced cli) tlsListAttempts (w, l)) = Some resp \<longrightarrow>
      ([''tls.cert.list''], resp, None) \<in> set new"
    using list_attempts_log [of cli tlsListAttempts w l] by (elim exE conjE) (rule that)
  have r: "l' = l @ new" "ids = map_option (\<lambda>resp. remdups (filter is_cert_id (str_fields resp)))
      (fst (list_attempts (traced cli) tlsListAttempts (w, l)))"
    using assms new(1) by (auto simp: listCertIDs_def split: prod.splits)
  have "discards new = {}" using new(2) by (fastforce simp: discards_def list_all_iff)
  moreover have "distinct a \<and> (\<exists>resp. ([''tls.cert.list''], resp, None) \<in> set new \<and>
       set a = {f \<in> set (str_fields resp). is_cert_id f})" if "ids = Some a" for a
    using that r(2) new(3) by auto
  ultimately show thesis using that [OF r(1)] by blast
qed

lemma discard_queue_log:
  assumes "discard_queue (traced cli) after ok ps (w, l) = (kept, n, (w', l'))"
  obtains new where "l' = l @ new" "discards new \<subseteq> snd ` set ps" "set kept \<subseteq> set ps"
    "subseq kept ps"
    "\<And>p. p \<in> set ps \<Longrightarrow> p \<in> set kept \<or> (ok \<and> snd p \<notin> set after) \<or>
      (\<exists>resp. ([''tls.cert.discard'', snd p], resp, None) \<in> set new)"
  using assms
proof (induction ps arbitrary: w l kept n thesis)
  case Nil
  then show ?case by simp
next
  case (Cons p ps)
  show ?case
  proof (cases "ok \<and> snd p \<notin> set after")
    case True
    then have "discard_queue (traced cli) after ok ps (w, l) = (kept, n, (w', l'))"
      using Cons.prems(2) by simp
    from Cons.IH [OF _ this] obtain new where "l' = l @ new" "discards new \<subseteq> snd ` set ps"
      "set kept \<subseteq> set ps" "subseq kept ps"
      "\<And>q. q \<in> set ps \<Longrightarrow> q \<in> set kept \<or> (ok \<and> snd q \<notin> set after) \<or>
        (\<exists>resp. ([''tls.cert.discard'', snd q], resp, None) \<in> set new)" by blast
    note old = this
    show ?thesis
    proof (rule Cons.prems(1) [of new])
      show "q \<in> set kept \<or> (ok \<and> snd q \<notin> set after) \<or>
          (\<exists>resp. ([''tls.cert.discard'', snd q], resp, None) \<in> set new)" if "q \<in> set (p # ps)" for q
        using that old(5) [of q] True by auto
    qed (use old in auto)
  next
    case False
    obtain resp err w1 where t: "traced cli [''tls.cert.discard'', snd p] (w, l) =
      ((resp, err), (w1, l @ [([''tls.cert.discard'', snd p], resp, err)]))" by (rule traced_cases)
    let ?e = "([''tls.cert.discard'', snd p], resp, err)"
    obtain kept1 n1 wl where d: "discard_queue (traced cli) after ok ps (w1, l @ [?e]) = (kept1, n1, wl)"
      by (metis surj_pair)
    have r: "wl = (w', l')" "kept = (if err = None then kept1 else p # kept1)"
      using Cons.prems(2) False t d by (auto split: option.splits)
    from Cons.IH [OF _ d [unfolded r(1)]] obtain new where new: "l' = (l @ [?e]) @ new" "discards new \<subseteq> snd ` set ps"
      "set kept1 \<subseteq> set ps" "subseq kept1 ps"
      "\<And>q. q \<in> set ps \<Longrightarrow> q \<in> set kept1 \<or> (ok \<and> snd q \<notin> set after) \<or>
        (\<exists>resp. ([''tls.cert.discard'', snd q], resp, None) \<in> set new)" by blast
    have "discards (?e # new) \<subseteq> snd ` set (p # ps)"
      using new(2) by (auto simp: discards_def)
    moreover have "q \<in> set kept \<or> (ok \<and> snd q \<notin> set after) \<or>
        (\<exists>resp. ([''tls.cert.discard'', snd q], resp, None) \<in> set (?e # new))" if "q \<in> set (p # ps)" for q
      using that new(5) [of q] r(2) by (cases err) auto
    moreover have "l' = l @ ?e # new" "set kept \<subseteq> set (p # ps)" "subseq kept (p # ps)"
      using new(1,3,4) r(2) by auto
    ultimately show ?thesis using Cons.prems(1) [of "?e # new"] by blast
  qed
qed

section \<open>The invariant of the ids\<close>

text \<open>
  The queue is bounded and has no id twice; no recorded id waits for its discard, and no two names
  share an id.
\<close>

definition tls_inv :: "tls_state \<Rightarrow> bool" where
  "tls_inv s \<longleftrightarrow>
     length (tl_PendingDiscards s) \<le> maxPendingDiscards \<and> distinct (map snd (tl_PendingDiscards s)) \<and>
     (\<forall>n i. fmlookup (tl_CertIDs s) n = Some i \<longrightarrow> i \<noteq> [] \<and> i \<notin> snd ` set (tl_PendingDiscards s)) \<and>
     (\<forall>n n' i. fmlookup (tl_CertIDs s) n = Some i \<and> fmlookup (tl_CertIDs s) n' = Some i \<longrightarrow> n = n')"

text \<open>varnishd does not reuse ids: an id that a call records anew was neither recorded nor queued.\<close>

definition ids_fresh :: "string \<Rightarrow> tls_state \<Rightarrow> tls_state \<Rightarrow> bool" where
  "ids_fresh name s s' \<longleftrightarrow>
     fmlookup (tl_CertIDs s') name = fmlookup (tl_CertIDs s) name \<or>
     (\<forall>i. fmlookup (tl_CertIDs s') name = Some i \<longrightarrow>
        i \<notin> fmran' (tl_CertIDs s) \<and> i \<notin> snd ` set (tl_PendingDiscards s))"

lemma queueDiscard_fields [simp]: "tl_CertIDs (queueDiscard n i s) = tl_CertIDs s"
  by (simp add: queueDiscard_def Let_def)

lemma queueDiscard_pending:
  assumes "length (tl_PendingDiscards s) \<le> maxPendingDiscards" and "distinct (map snd (tl_PendingDiscards s))"
  shows "length (tl_PendingDiscards (queueDiscard n i s)) \<le> maxPendingDiscards \<and>
    distinct (map snd (tl_PendingDiscards (queueDiscard n i s))) \<and>
    i \<in> snd ` set (tl_PendingDiscards (queueDiscard n i s)) \<and>
    snd ` set (tl_PendingDiscards (queueDiscard n i s)) \<subseteq> insert i (snd ` set (tl_PendingDiscards s))"
proof (cases "list_ex (\<lambda>p. snd p = i) (tl_PendingDiscards s)")
  case True
  then show ?thesis using assms by (auto simp: queueDiscard_def list_ex_iff)
next
  case False
  then have "i \<notin> snd ` set (tl_PendingDiscards s)" by (auto simp: list_ex_iff)
  moreover have "snd ` set (tl ps) \<subseteq> snd ` set ps" for ps :: "(string \<times> string) list" by (cases ps) auto
  moreover have "distinct (map snd (tl ps))" if "distinct (map snd ps)" for ps :: "(string \<times> string) list"
    using that by (simp add: map_tl distinct_tl)
  moreover have "queueDiscard n i s = s\<lparr>tl_PendingDiscards :=
      (if length (tl_PendingDiscards s) \<ge> maxPendingDiscards then tl (tl_PendingDiscards s)
       else tl_PendingDiscards s) @ [(n, i)]\<rparr>"
    using False by (simp add: queueDiscard_def Let_def)
  ultimately show ?thesis using assms by (auto simp: maxPendingDiscards_def)
qed


lemma discardQueued_log:
  assumes "discardQueued (traced cli) after ok s (w, l) = (n, s', (w', l'))"
  obtains new where "l' = l @ new" "discards new \<subseteq> snd ` set (tl_PendingDiscards s)"
    "subseq (tl_PendingDiscards s') (tl_PendingDiscards s)" "tl_CertIDs s' = tl_CertIDs s"
    "\<And>p. p \<in> set (tl_PendingDiscards s) \<Longrightarrow> p \<in> set (tl_PendingDiscards s') \<or> (ok \<and> snd p \<notin> set after) \<or>
      (\<exists>resp. ([''tls.cert.discard'', snd p], resp, None) \<in> set new)"
proof -
  obtain kept m wl where d: "discard_queue (traced cli) after ok (tl_PendingDiscards s) (w, l) = (kept, m, wl)"
    by (metis surj_pair)
  have r: "wl = (w', l')" "s' = s\<lparr>tl_PendingDiscards := kept\<rparr>"
    using assms d by (simp_all add: discardQueued_def)
  show thesis
  proof (rule discard_queue_log [OF d [unfolded r(1)]])
    fix new
    assume new: "l' = l @ new" "discards new \<subseteq> snd ` set (tl_PendingDiscards s)"
      "subseq kept (tl_PendingDiscards s)"
      "\<And>p. p \<in> set (tl_PendingDiscards s) \<Longrightarrow> p \<in> set kept \<or> ok \<and> snd p \<notin> set after \<or>
        (\<exists>resp. ([''tls.cert.discard'', snd p], resp, None) \<in> set new)"
    then show thesis using that [of new] r(2) by simp
  qed
qed

lemma inv_subseq:
  assumes "tls_inv s" and "subseq ps (tl_PendingDiscards s)"
  shows "tls_inv (s\<lparr>tl_PendingDiscards := ps\<rparr>)"
proof -
  have "length ps \<le> length (tl_PendingDiscards s)" using assms(2) by (rule list_emb_length)
  moreover have "distinct (map snd ps)"
  proof -
    obtain N where "map snd ps = nths (map snd (tl_PendingDiscards s)) N"
      using subseq_map [OF assms(2)] subseq_conv_nths by blast
    then show ?thesis using assms(1) by (simp add: tls_inv_def distinct_nthsI)
  qed
  moreover have "set ps \<subseteq> set (tl_PendingDiscards s)" using list_emb_set [OF assms(2)] by auto
  ultimately show ?thesis using assms(1) unfolding tls_inv_def by (auto simp: image_iff)
qed

text \<open>The state after recording and queueing, before the discards are tried.\<close>

definition recorded :: "string \<Rightarrow> string \<Rightarrow> string \<Rightarrow> tls_state \<Rightarrow> tls_state" where
  "recorded name newID prior s =
     (let s1 = (if newID \<noteq> [] then s\<lparr>tl_CertIDs := fmupd name newID (tl_CertIDs s)\<rparr> else s)
      in if newID \<noteq> [] \<and> prior \<noteq> [] \<and> prior \<noteq> newID then queueDiscard name prior s1 else s1)"

lemma recorded_inv:
  assumes inv: "tls_inv s" and prior: "prior = (case fmlookup (tl_CertIDs s) name of Some i \<Rightarrow> i | None \<Rightarrow> [])"
    and fresh: "newID = [] \<or> newID = prior \<or>
      (newID \<notin> fmran' (tl_CertIDs s) \<and> newID \<notin> snd ` set (tl_PendingDiscards s))"
  shows "tls_inv (recorded name newID prior s)"
proof (cases "newID = []")
  case True
  then show ?thesis using inv by (simp add: recorded_def)
next
  case new: False
  let ?s1 = "s\<lparr>tl_CertIDs := fmupd name newID (tl_CertIDs s)\<rparr>"
  show ?thesis
  proof (cases "newID = prior")
    case True
    then have "fmlookup (tl_CertIDs s) name = Some newID"
      using prior new by (auto split: option.splits)
    then have "tl_CertIDs ?s1 = tl_CertIDs s" by (intro fmap_ext) auto
    then show ?thesis using inv True new by (simp add: recorded_def tls_inv_def)
  next
    case False
    then have f: "newID \<notin> fmran' (tl_CertIDs s)" "newID \<notin> snd ` set (tl_PendingDiscards s)"
      using fresh new by simp_all
    have inv1: "tls_inv ?s1"
      using inv new f unfolding tls_inv_def by (auto intro: fmran'I)
    show ?thesis
    proof (cases "prior = []")
      case True
      then show ?thesis using inv1 new by (simp add: recorded_def)
    next
      case False
      then have p: "fmlookup (tl_CertIDs s) name = Some prior" using prior by (auto split: option.splits)
      have gone: "fmlookup (tl_CertIDs ?s1) n \<noteq> Some prior" for n
        using inv p f(1) \<open>newID \<noteq> prior\<close> by (auto simp: tls_inv_def)
      have q: "length (tl_PendingDiscards (queueDiscard name prior ?s1)) \<le> maxPendingDiscards \<and>
          distinct (map snd (tl_PendingDiscards (queueDiscard name prior ?s1))) \<and>
          prior \<in> snd ` set (tl_PendingDiscards (queueDiscard name prior ?s1)) \<and>
          snd ` set (tl_PendingDiscards (queueDiscard name prior ?s1)) \<subseteq> insert prior (snd ` set (tl_PendingDiscards ?s1))"
        using inv1 by (intro queueDiscard_pending) (simp_all add: tls_inv_def)
      have "tls_inv (queueDiscard name prior ?s1)"
        unfolding tls_inv_def queueDiscard_fields
      proof (intro conjI allI impI)
        fix n i
        assume i: "fmlookup (tl_CertIDs ?s1) n = Some i"
        then show "i \<noteq> []" using inv1 unfolding tls_inv_def by blast
        have "i \<noteq> prior" using gone i by auto
        then show "i \<notin> snd ` set (tl_PendingDiscards (queueDiscard name prior ?s1))"
          using q inv1 i unfolding tls_inv_def by blast
      next
        fix n n' i
        assume "fmlookup (tl_CertIDs ?s1) n = Some i \<and> fmlookup (tl_CertIDs ?s1) n' = Some i"
        then show "n = n'" using inv1 unfolding tls_inv_def by blast
      qed (use q in simp_all)
      then show ?thesis using new False \<open>newID \<noteq> prior\<close> by (simp add: recorded_def)
    qed
  qed
qed

lemma rotate_recorded:
  "rotate cli name newID prior after s w =
     (case discardQueued cli (case after of Some a \<Rightarrow> a | None \<Rightarrow> []) (after \<noteq> None) (recorded name newID prior s) w of
        (n, s3, w3) \<Rightarrow> (case after of Some a \<Rightarrow> s3\<lparr>tl_active := Some (int (length a) - int n)\<rparr> | None \<Rightarrow> s3, w3))"
  by (simp add: rotate_def recorded_def Let_def)


text \<open>The ways a call can go: it stops early, it fails after staging, or it commits.\<close>

lemma ensureTLSDir_ids:
  "ensureTLSDir env s = (r, s1) \<Longrightarrow>
   tl_CertIDs s1 = tl_CertIDs s \<and> tl_PendingDiscards s1 = tl_PendingDiscards s \<and> tl_active s1 = tl_active s"
  by (auto simp: ensureTLSDir_def split: option.splits sum.splits)

lemma LoadCert_early:
  assumes "LoadCert cli env name cert key ca s w = (e, s', w')"
  shows "(w' = w \<and> tl_CertIDs s' = tl_CertIDs s \<and> tl_PendingDiscards s' = tl_PendingDiscards s \<and>
      tl_active s' = tl_active s \<and> (e = None \<longrightarrow> length cert = 0 \<or> length key = 0)) \<or>
    (\<exists>path s1. tl_CertIDs s1 = tl_CertIDs s \<and> tl_PendingDiscards s1 = tl_PendingDiscards s \<and>
       tl_active s1 = tl_active s \<and> stage_and_commit cli env name path s1 w = (e, s', w'))"
proof -
  consider (off) "\<not> TLSSupported s" | (empty) "TLSSupported s" "length cert = 0 \<or> length key = 0"
    | (pem) err where "TLSSupported s" "\<not> (length cert = 0 \<or> length key = 0)"
        "combinePEM (lc_keyPair env) cert key ca = Inl err"
    | (go) pem where "TLSSupported s" "\<not> (length cert = 0 \<or> length key = 0)"
        "combinePEM (lc_keyPair env) cert key ca = Inr pem"
    by (cases "combinePEM (lc_keyPair env) cert key ca") blast+
  then show ?thesis
  proof cases
    case go
    obtain r s1 where d: "ensureTLSDir env s = (r, s1)" by (metis surj_pair)
    note ids = ensureTLSDir_ids [OF d]
    show ?thesis
    proof (cases r)
      case (Inl err)
      then show ?thesis using assms go d ids by (auto simp: LoadCert_def)
    next
      case (Inr dir)
      let ?path = "cert_path env dir name"
      show ?thesis
      proof (cases "lc_write env ?path pem")
        case None
        then have "stage_and_commit cli env name ?path s1 w = (e, s', w')"
          using assms go d Inr by (simp add: LoadCert_def Let_def)
        then show ?thesis using ids by blast
      next
        case (Some err)
        then show ?thesis using assms go d ids Inr by (auto simp: LoadCert_def Let_def)
      qed
    qed
  qed (use assms in \<open>auto simp: LoadCert_def\<close>)
qed

lemma stage_cases:
  assumes "stage_and_commit (traced cli) env name path s (w, l) = (e, s', (w', l'))"
  obtains (failed) new where "e \<noteq> None" "s' = s" "l' = l @ new" "discards new = {}"
      "new \<noteq> []" "fst (last new) = [''tls.cert.rollback'']"
  | (committed) before after new new2 w4 where "e = None"
      "rotate (traced cli) name (new_id env before after)
         (case fmlookup (tl_CertIDs s) name of Some i \<Rightarrow> i | None \<Rightarrow> []) after s (w4, l @ new @ new2) = (s', (w', l'))"
      "discards new = {}" "discards new2 = {}"
      "\<And>a. after = Some a \<Longrightarrow> \<exists>resp. ([''tls.cert.list''], resp, None) \<in> set new2 \<and>
         set a = {f \<in> set (str_fields resp). is_cert_id f}"
proof -
  obtain before w1 k1 where b: "listCertIDs (traced cli) (w, l) = (before, (w1, k1))" by (metis surj_pair)
  obtain n1 where n1: "k1 = l @ n1" "discards n1 = {}" using listCertIDs_log [OF b] by metis
  obtain resp2 err2 w2 where ld: "traced cli [''tls.cert.load'', path] (w1, k1) =
      ((resp2, err2), (w2, k1 @ [([''tls.cert.load'', path], resp2, err2)]))" by (rule traced_cases)
  let ?k2 = "k1 @ [([''tls.cert.load'', path], resp2, err2)]"
  obtain resp3 err3 w3 where cm: "traced cli [''tls.cert.commit''] (w2, ?k2) =
      ((resp3, err3), (w3, ?k2 @ [([''tls.cert.commit''], resp3, err3)]))" by (rule traced_cases)
  let ?k3 = "?k2 @ [([''tls.cert.commit''], resp3, err3)]"
  obtain resp4 err4 wr where rb: "traced cli [''tls.cert.rollback''] (w2, ?k2) =
      ((resp4, err4), (wr, ?k2 @ [([''tls.cert.rollback''], resp4, err4)]))" by (rule traced_cases)
  obtain resp5 err5 wr3 where rb3: "traced cli [''tls.cert.rollback''] (w3, ?k3) =
      ((resp5, err5), (wr3, ?k3 @ [([''tls.cert.rollback''], resp5, err5)]))" by (rule traced_cases)
  show thesis
  proof (cases err2)
    case (Some err)
    then have "e \<noteq> None \<and> s' = s \<and> l' = ?k2 @ [([''tls.cert.rollback''], resp4, err4)]"
      using assms b ld rb by (auto simp: stage_and_commit_def Let_def)
    then show thesis using failed [of "n1 @ [([''tls.cert.load'', path], resp2, err2)] @
        [([''tls.cert.rollback''], resp4, err4)]"] n1 by simp
  next
    case e2: None
    show thesis
    proof (cases err3)
      case (Some err)
      then have "e \<noteq> None \<and> s' = s \<and> l' = ?k3 @ [([''tls.cert.rollback''], resp5, err5)]"
        using assms b ld cm rb3 e2 by (simp add: stage_and_commit_def Let_def split: prod.splits) (metis option.distinct(1))
      then show thesis using failed [of "n1 @ [([''tls.cert.load'', path], resp2, err2)] @
          [([''tls.cert.commit''], resp3, err3)] @ [([''tls.cert.rollback''], resp5, err5)]"] n1 by simp
    next
      case e3: None
      obtain after w4 k4 where a: "listCertIDs (traced cli) (w3, ?k3) = (after, (w4, k4))" by (metis surj_pair)
      have r: "e = None \<and> rotate (traced cli) name (new_id env before after)
          (case fmlookup (tl_CertIDs s) name of Some i \<Rightarrow> i | None \<Rightarrow> []) after s (w4, k4) = (s', (w', l'))"
        using assms b ld cm a e2 e3 by (simp add: stage_and_commit_def Let_def)
      show thesis
      proof (rule listCertIDs_log [OF a])
        fix n4
        assume n4: "k4 = ?k3 @ n4" "discards n4 = {}"
          and after: "\<And>b. after = Some b \<Longrightarrow> distinct b \<and> (\<exists>resp. ([''tls.cert.list''], resp, None) \<in> set n4 \<and>
            set b = {f \<in> set (str_fields resp). is_cert_id f})"
        show thesis
        proof (rule committed)
          show "e = None" using r by simp
          show "rotate (traced cli) name (new_id env before after)
            (case fmlookup (tl_CertIDs s) name of Some i \<Rightarrow> i | None \<Rightarrow> []) after s
            (w4, l @ (n1 @ [([''tls.cert.load'', path], resp2, err2)] @ [([''tls.cert.commit''], resp3, err3)]) @ n4) =
            (s', (w', l'))"
            using r n1(1) n4(1) by simp
          show "discards (n1 @ [([''tls.cert.load'', path], resp2, err2)] @
            [([''tls.cert.commit''], resp3, err3)]) = {}" using n1(2) by simp
          show "discards n4 = {}" by (rule n4(2))
          show "\<exists>resp. ([''tls.cert.list''], resp, None) \<in> set n4 \<and>
              set b = {f \<in> set (str_fields resp). is_cert_id f}" if "after = Some b" for b
            using after [OF that] by blast
        qed
      qed
    qed
  qed
qed


section \<open>No certificate in use is discarded, and no superseded one is forgotten\<close>

text \<open>What a rotation leaves, in terms of the log of its commands.\<close>

lemma rotate_log:
  assumes rot: "rotate (traced cli) name newID prior after s (w, l) = (s', (w', l'))"
    and inv: "tls_inv s" and prior: "prior = (case fmlookup (tl_CertIDs s) name of Some i \<Rightarrow> i | None \<Rightarrow> [])"
    and fresh: "newID = [] \<or> newID = prior \<or>
      (newID \<notin> fmran' (tl_CertIDs s) \<and> newID \<notin> snd ` set (tl_PendingDiscards s))"
  shows "tls_inv s' \<and> tl_CertIDs s' = tl_CertIDs (recorded name newID prior s) \<and>
    (\<exists>new. l' = l @ new \<and> discards new \<inter> fmran' (tl_CertIDs s') = {} \<and>
      (\<forall>p\<in>set (tl_PendingDiscards (recorded name newID prior s)). p \<in> set (tl_PendingDiscards s') \<or>
        (\<exists>a. after = Some a \<and> snd p \<notin> set a) \<or>
        (\<exists>resp. ([''tls.cert.discard'', snd p], resp, None) \<in> set new)))"
proof -
  let ?r = "recorded name newID prior s"
  have inv_r: "tls_inv ?r" using recorded_inv [OF inv prior fresh] .
  obtain n s3 w3 where d: "discardQueued (traced cli) (case after of Some a \<Rightarrow> a | None \<Rightarrow> []) (after \<noteq> None) ?r (w, l) =
      (n, s3, w3)" by (metis surj_pair)
  have s': "w3 = (w', l')" "tl_CertIDs s' = tl_CertIDs s3" "tl_PendingDiscards s' = tl_PendingDiscards s3"
    using rot d unfolding rotate_recorded by (auto split: option.splits)
  show ?thesis
  proof (rule discardQueued_log [OF d [unfolded s'(1)]])
    fix new
    assume new: "l' = l @ new" "discards new \<subseteq> snd ` set (tl_PendingDiscards ?r)"
      "subseq (tl_PendingDiscards s3) (tl_PendingDiscards ?r)" "tl_CertIDs s3 = tl_CertIDs ?r"
      and kept: "\<And>p. p \<in> set (tl_PendingDiscards ?r) \<Longrightarrow> p \<in> set (tl_PendingDiscards s3) \<or>
        (after \<noteq> None \<and> snd p \<notin> set (case after of Some a \<Rightarrow> a | None \<Rightarrow> [])) \<or>
        (\<exists>resp. ([''tls.cert.discard'', snd p], resp, None) \<in> set new)"
    have "tls_inv s'"
      using inv_subseq [OF inv_r new(3)] s'(2,3) new(4) by (simp add: tls_inv_def)
    moreover have "discards new \<inter> fmran' (tl_CertIDs s') = {}"
      using new(2) inv_r s'(2) new(4) by (fastforce simp: tls_inv_def elim!: fmran'E)
    moreover have "p \<in> set (tl_PendingDiscards s') \<or> (\<exists>a. after = Some a \<and> snd p \<notin> set a) \<or>
        (\<exists>resp. ([''tls.cert.discard'', snd p], resp, None) \<in> set new)" if "p \<in> set (tl_PendingDiscards ?r)" for p
      using kept [OF that] s'(3) by (cases after) auto
    ultimately show ?thesis using new(1,4) s'(2) by auto
  qed
qed

lemma recorded_lookup:
  "fmlookup (tl_CertIDs (recorded name newID prior s)) name =
     (if newID \<noteq> [] then Some newID else fmlookup (tl_CertIDs s) name)"
  by (simp add: recorded_def Let_def)

text \<open>Every call: nothing changed and nothing discarded, or a rotation with its log.\<close>

lemma LoadCert_log:
  assumes "tls_inv s"
    and "LoadCert (traced cli) env name cert key ca s (w, l) = (e, s', (w', l'))"
    and "ids_fresh name s s'"
  obtains (same) new where "tl_CertIDs s' = tl_CertIDs s" "tl_PendingDiscards s' = tl_PendingDiscards s"
      "tl_active s' = tl_active s" "l' = l @ new" "discards new = {}"
      "e = None \<Longrightarrow> length cert = 0 \<or> length key = 0"
      "new = [] \<or> fst (last new) = [''tls.cert.rollback'']"
  | (rotated) newID prior after s1 new where "e = None" "tl_CertIDs s1 = tl_CertIDs s"
      "tl_PendingDiscards s1 = tl_PendingDiscards s"
      "prior = (case fmlookup (tl_CertIDs s) name of Some i \<Rightarrow> i | None \<Rightarrow> [])"
      "tls_inv s'" "tl_CertIDs s' = tl_CertIDs (recorded name newID prior s1)" "l' = l @ new"
      "discards new \<inter> fmran' (tl_CertIDs s') = {}"
      "\<forall>p\<in>set (tl_PendingDiscards (recorded name newID prior s1)). p \<in> set (tl_PendingDiscards s') \<or>
        (\<exists>a. after = Some a \<and> snd p \<notin> set a) \<or>
        (\<exists>resp. ([''tls.cert.discard'', snd p], resp, None) \<in> set new)"
      "\<And>a. after = Some a \<Longrightarrow> \<exists>resp. ([''tls.cert.list''], resp, None) \<in> set new \<and>
         set a = {f \<in> set (str_fields resp). is_cert_id f}"
proof (rule disjE [OF LoadCert_early [OF assms(2)]])
  assume "(w', l') = (w, l) \<and> tl_CertIDs s' = tl_CertIDs s \<and> tl_PendingDiscards s' = tl_PendingDiscards s \<and>
      tl_active s' = tl_active s \<and> (e = None \<longrightarrow> length cert = 0 \<or> length key = 0)"
  then show thesis using same [of "[]"] by simp
next
  assume "\<exists>path s1. tl_CertIDs s1 = tl_CertIDs s \<and> tl_PendingDiscards s1 = tl_PendingDiscards s \<and>
       tl_active s1 = tl_active s \<and> stage_and_commit (traced cli) env name path s1 (w, l) = (e, s', (w', l'))"
  then obtain path s1 where s1: "tl_CertIDs s1 = tl_CertIDs s" "tl_PendingDiscards s1 = tl_PendingDiscards s"
    "tl_active s1 = tl_active s"
    "stage_and_commit (traced cli) env name path s1 (w, l) = (e, s', (w', l'))" by blast
  have inv1: "tls_inv s1" using assms(1) s1(1,2) by (simp add: tls_inv_def)
  show thesis
  proof (rule stage_cases [OF s1(4)])
    fix new
    assume "e \<noteq> None" "s' = s1" "l' = l @ new" "discards new = {}" "fst (last new) = [''tls.cert.rollback'']"
    then show thesis using same [of new] s1 by auto
  next
    fix before after new new2 w4
    let ?prior = "case fmlookup (tl_CertIDs s1) name of Some i \<Rightarrow> i | None \<Rightarrow> []"
    let ?new = "new_id env before after"
    assume e: "e = None"
      and rot: "rotate (traced cli) name ?new ?prior after s1 (w4, l @ new @ new2) = (s', (w', l'))"
      and no: "discards new = {}" "discards new2 = {}"
      and after: "\<And>a. after = Some a \<Longrightarrow> \<exists>resp. ([''tls.cert.list''], resp, None) \<in> set new2 \<and>
         set a = {f \<in> set (str_fields resp). is_cert_id f}"
    obtain n s3 w3 where d: "discardQueued (traced cli) (case after of Some a \<Rightarrow> a | None \<Rightarrow> []) (after \<noteq> None)
        (recorded name ?new ?prior s1) (w4, l @ new @ new2) = (n, s3, w3)" by (metis surj_pair)
    have ids: "tl_CertIDs s' = tl_CertIDs (recorded name ?new ?prior s1)"
      using rot d unfolding rotate_recorded
      by (auto simp: discardQueued_def split: option.splits prod.splits)
    have "?new = [] \<or> ?new = ?prior \<or>
        (?new \<notin> fmran' (tl_CertIDs s1) \<and> ?new \<notin> snd ` set (tl_PendingDiscards s1))"
      using assms(3) s1(1,2) unfolding ids_fresh_def ids recorded_lookup
      by (cases "fmlookup (tl_CertIDs s1) name"; cases "?new = []") auto
    note log = rotate_log [OF rot inv1 refl this]
    then obtain new3 where new3: "l' = (l @ new @ new2) @ new3" "discards new3 \<inter> fmran' (tl_CertIDs s') = {}"
      "\<forall>p\<in>set (tl_PendingDiscards (recorded name ?new ?prior s1)). p \<in> set (tl_PendingDiscards s') \<or>
        (\<exists>a. after = Some a \<and> snd p \<notin> set a) \<or>
        (\<exists>resp. ([''tls.cert.discard'', snd p], resp, None) \<in> set new3)" by blast
    show thesis
    proof (rule rotated [OF e s1(1,2) _ _ ids, of "new @ new2 @ new3"])
      show "?prior = (case fmlookup (tl_CertIDs s) name of Some i \<Rightarrow> i | None \<Rightarrow> [])" by (simp add: s1(1))
      show "tls_inv s'" using log by blast
      show "l' = l @ new @ new2 @ new3" using new3(1) by simp
      show "discards (new @ new2 @ new3) \<inter> fmran' (tl_CertIDs s') = {}" using no new3(2) by simp
      show "\<exists>resp. ([''tls.cert.list''], resp, None) \<in> set (new @ new2 @ new3) \<and>
         set a = {f \<in> set (str_fields resp). is_cert_id f}" if "after = Some a" for a
        using after [OF that] by auto
      show "\<forall>p\<in>set (tl_PendingDiscards (recorded name ?new ?prior s1)). p \<in> set (tl_PendingDiscards s') \<or>
        (\<exists>a. after = Some a \<and> snd p \<notin> set a) \<or>
        (\<exists>resp. ([''tls.cert.discard'', snd p], resp, None) \<in> set (new @ new2 @ new3))"
        using new3(3) by fastforce
    qed
  qed
qed


definition sample_tls :: "bool cli" where
  "sample_tls cmd w =
     (if cmd = [''tls.cert.list''] then ((if w then ''cert0 cert1'' else ''cert0'', None), w)
      else if cmd = [''tls.cert.commit''] then (([], None), True)
      else if hd cmd = ''tls.cert.discard'' then ((''busy'', Some ''exit 1''), w)
      else (([], None), w))"

definition sample_env :: load_env where
  "sample_env = \<lparr>lc_keyPair = \<lambda>_ _. None, lc_sum4 = \<lambda>_. ''00000000'', lc_mkdir = Inr ''/tmp/t'',
     lc_write = \<lambda>_ _. None, lc_choose = hd\<rparr>"

definition sample_tls_state :: tls_state where
  "sample_tls_state = \<lparr>tl_major = 9, tl_CertIDs = fmupd ''web'' ''cert0'' fmempty, tl_CertDir = None,
     tl_PendingDiscards = [], tl_active = None\<rparr>"

definition sample_rotated :: tls_state where
  "sample_rotated = \<lparr>tl_major = 9, tl_CertIDs = fmupd ''web'' ''cert1'' (fmupd ''web'' ''cert0'' fmempty),
     tl_CertDir = Some ''/tmp/t'', tl_PendingDiscards = [(''web'', ''cert0'')], tl_active = Some 2\<rparr>"

definition sample_log :: "entry list" where
  "sample_log =
     [([''tls.cert.list''], ''cert0'', None), ([''tls.cert.load'', ''/tmp/t/web.pem''], [], None),
      ([''tls.cert.commit''], [], None), ([''tls.cert.list''], ''cert0 cert1'', None),
      ([''tls.cert.discard'', ''cert0''], ''busy'', Some ''exit 1'')]"

lemma sample_fields: "str_fields ''cert0'' = [''cert0'']" "str_fields ''cert0 cert1'' = [''cert0'', ''cert1'']"
  by (simp_all add: str_fields_def runes_ascii is_ascii_def byte_def space_rune_def del: runes.simps)

lemma sample_path: "sanitizeCertFileName f ''web'' = ''web''"
proof -
  have "runes ''web'' = [''w'', ''e'', ''b'']" by (subst runes_ascii) (simp_all add: is_ascii_def byte_def)
  then show ?thesis
    by (simp add: sanitizeCertFileName_def safe_rune_def safe_char_def byte_def del: runes.simps)
qed

lemma sample_load:
  "LoadCert (traced sample_tls) sample_env ''web'' ''c'' ''k'' [] sample_tls_state (False, []) =
     (None, sample_rotated, (True, sample_log))"
  by (simp add: LoadCert_def TLSSupported_def sample_tls_state_def sample_env_def combinePEM_def
      ensureTLSDir_def cert_path_def sample_path stage_and_commit_def listCertIDs_def tlsListAttempts_def
      numeral_3_eq_3 traced_def sample_tls_def sample_fields is_cert_id_def is_digit_iff new_id_def
      rotate_def queueDiscard_def maxPendingDiscards_def discardQueued_def sample_rotated_def sample_log_def Let_def)

lemma sample_tls_ok: "tls_inv sample_tls_state" "ids_fresh ''web'' sample_tls_state sample_rotated"
  by (auto simp: tls_inv_def sample_tls_state_def ids_fresh_def sample_rotated_def elim!: fmran'E split: if_splits)


text \<open>
  C37: A certificate that a rotation supersedes is not forgotten: when a call replaces the id recorded
  for a name, the old id was discarded with success, or varnishd no longer lists it, or it waits in the
  queue for the next call. A call that reports an error changes neither the recorded ids nor the
  queue, discards nothing, and has rolled the staging area back if it touched it.
\<close>

theorem superseded_cert_kept_track:
  assumes "tls_inv s"
    and "LoadCert (traced cli) env name cert key ca s (w, []) = (e, s', (w', l'))"
    and "ids_fresh name s s'"
  shows "case e of
      Some _ \<Rightarrow> tl_CertIDs s' = tl_CertIDs s \<and> tl_PendingDiscards s' = tl_PendingDiscards s \<and>
        discards l' = {} \<and> (l' = [] \<or> fst (last l') = [''tls.cert.rollback''])
    | None \<Rightarrow> (\<forall>p i. fmlookup (tl_CertIDs s) name = Some p \<and> fmlookup (tl_CertIDs s') name = Some i \<and> i \<noteq> p \<longrightarrow>
        p \<in> snd ` set (tl_PendingDiscards s') \<or>
        (\<exists>resp. ([''tls.cert.list''], resp, None) \<in> set l' \<and> \<not> (p \<in> set (str_fields resp) \<and> is_cert_id p)) \<or>
        (\<exists>resp. ([''tls.cert.discard'', p], resp, None) \<in> set l'))"
proof (rule LoadCert_log [OF assms])
  fix new
  assume "tl_CertIDs s' = tl_CertIDs s" "tl_PendingDiscards s' = tl_PendingDiscards s" "l' = [] @ new"
    "discards new = {}" "new = [] \<or> fst (last new) = [''tls.cert.rollback'']"
  then show ?thesis by (cases e) auto
next
  fix newID prior after s1 new
  assume e: "e = None" and s1: "tl_CertIDs s1 = tl_CertIDs s" "tl_PendingDiscards s1 = tl_PendingDiscards s"
    and prior: "prior = (case fmlookup (tl_CertIDs s) name of Some i \<Rightarrow> i | None \<Rightarrow> [])"
    and ids: "tl_CertIDs s' = tl_CertIDs (recorded name newID prior s1)" and new: "l' = [] @ new"
    and kept: "\<forall>p\<in>set (tl_PendingDiscards (recorded name newID prior s1)). p \<in> set (tl_PendingDiscards s') \<or>
        (\<exists>a. after = Some a \<and> snd p \<notin> set a) \<or>
        (\<exists>resp. ([''tls.cert.discard'', snd p], resp, None) \<in> set new)"
    and after: "\<And>a. after = Some a \<Longrightarrow> \<exists>resp. ([''tls.cert.list''], resp, None) \<in> set new \<and>
         set a = {f \<in> set (str_fields resp). is_cert_id f}"
  have "p \<in> snd ` set (tl_PendingDiscards s') \<or>
        (\<exists>resp. ([''tls.cert.list''], resp, None) \<in> set l' \<and> \<not> (p \<in> set (str_fields resp) \<and> is_cert_id p)) \<or>
        (\<exists>resp. ([''tls.cert.discard'', p], resp, None) \<in> set l')"
    if old: "fmlookup (tl_CertIDs s) name = Some p" and i: "fmlookup (tl_CertIDs s') name = Some i" "i \<noteq> p" for p i
  proof -
    have "newID \<noteq> []" "prior = p" "newID \<noteq> p"
      using i old prior unfolding ids recorded_lookup s1(1) by (auto split: if_splits)
    moreover have "p \<noteq> []" using old assms(1) by (auto simp: tls_inv_def)
    ultimately have rec: "recorded name newID prior s1 =
        queueDiscard name p (s1\<lparr>tl_CertIDs := fmupd name newID (tl_CertIDs s1)\<rparr>)"
      by (simp add: recorded_def)
    have "p \<in> snd ` set (tl_PendingDiscards (recorded name newID prior s1))"
      unfolding rec using assms(1) s1(2)
        queueDiscard_pending [of "s1\<lparr>tl_CertIDs := fmupd name newID (tl_CertIDs s1)\<rparr>" name p]
      by (simp add: tls_inv_def)
    then obtain q where q: "q \<in> set (tl_PendingDiscards (recorded name newID prior s1))" "snd q = p" by blast
    show ?thesis
      using bspec [OF kept q(1)] q(2) new after by (fastforce simp: image_iff)
  qed
  then show ?thesis using e by simp
qed


theorem superseded_cert_kept_track_witness:
  "fmlookup (tl_CertIDs sample_rotated) ''web'' = Some ''cert1'' \<and>
   (''cert0'' \<in> snd ` set (tl_PendingDiscards sample_rotated) \<or>
    (\<exists>resp. ([''tls.cert.list''], resp, None) \<in> set sample_log \<and> \<not> (''cert0'' \<in> set (str_fields resp) \<and> is_cert_id ''cert0'')) \<or>
    (\<exists>resp. ([''tls.cert.discard'', ''cert0''], resp, None) \<in> set sample_log))"
proof
  show n: "fmlookup (tl_CertIDs sample_rotated) ''web'' = Some ''cert1''" by (simp add: sample_rotated_def)
  have o: "fmlookup (tl_CertIDs sample_tls_state) ''web'' = Some ''cert0''" by (simp add: sample_tls_state_def)
  have ne: "''cert1'' \<noteq> ''cert0''" by simp
  have "\<forall>p i. fmlookup (tl_CertIDs sample_tls_state) ''web'' = Some p \<and>
        fmlookup (tl_CertIDs sample_rotated) ''web'' = Some i \<and> i \<noteq> p \<longrightarrow>
      p \<in> snd ` set (tl_PendingDiscards sample_rotated) \<or>
      (\<exists>resp. ([''tls.cert.list''], resp, None) \<in> set sample_log \<and> \<not> (p \<in> set (str_fields resp) \<and> is_cert_id p)) \<or>
      (\<exists>resp. ([''tls.cert.discard'', p], resp, None) \<in> set sample_log)"
    using superseded_cert_kept_track [OF sample_tls_ok(1) sample_load sample_tls_ok(2)]
    by (simp only: option.case)
  from this [rule_format, OF conjI [OF o conjI [OF n ne]]]
  show "''cert0'' \<in> snd ` set (tl_PendingDiscards sample_rotated) \<or>
    (\<exists>resp. ([''tls.cert.list''], resp, None) \<in> set sample_log \<and> \<not> (''cert0'' \<in> set (str_fields resp) \<and> is_cert_id ''cert0'')) \<or>
    (\<exists>resp. ([''tls.cert.discard'', ''cert0''], resp, None) \<in> set sample_log)" .
qed

section \<open>File names\<close>

lemma safe_rune_safe: "list_all safe_char (safe_rune r)"
  by (simp add: safe_rune_def safe_char_def split: list.split)

lemma safe_rune_nonempty: "safe_rune r \<noteq> []"
  by (simp add: safe_rune_def split: list.split)

lemma safe_name: "list_all safe_char (concat (map safe_rune rs))"
  using safe_rune_safe by (induction rs) simp_all

text \<open>
  No certificate name given by the operator leads out of the directory of the PEM files: the base
  name made of it holds only letters, digits, dashes, underscores and dots, and it is neither empty nor
  a dot nor two dots, so it has no path separator and names a file of that directory. A name that is
  safe as it stands is kept; the others get the hash of the whole name.
\<close>

theorem cert_file_name_safe:
  assumes "list_all safe_char (sum4 name)"
  shows "list_all safe_char (sanitizeCertFileName sum4 name) \<and>
    sanitizeCertFileName sum4 name \<notin> {[], ''.'', ''..''} \<and>
    CHR ''/'' \<notin> set (sanitizeCertFileName sum4 name) \<and>
    (sanitizeCertFileName sum4 name = name \<or> suffix (CHR ''-'' # sum4 name) (sanitizeCertFileName sum4 name))"
proof -
  let ?safe = "concat (map safe_rune (runes name))" and ?n = "sanitizeCertFileName sum4 name"
  have dash: "safe_char (CHR ''-'')" "list_all safe_char ''tlscert''"
    by (simp_all add: safe_char_def byte_def)
  have slash: "\<not> safe_char (CHR ''/'')" by (simp add: safe_char_def byte_def is_digit_iff)
  have safe: "list_all safe_char ?safe" by (rule safe_name)
  define safe where "safe = ?safe"
  have safe_all: "list_all safe_char safe" unfolding safe_def by (rule safe_name)
  have n_def: "?n = (if safe = name \<and> safe \<noteq> [] \<and> safe \<noteq> ''.'' \<and> safe \<noteq> ''..'' then safe
      else (if safe = [] \<or> safe = ''.'' \<or> safe = ''..'' then ''tlscert'' else safe) @ ''-'' @ sum4 name)"
    by (simp only: sanitizeCertFileName_def Let_def safe_def)
  have n: "(?n = name \<and> safe = name \<and> ?n \<notin> {[], ''.'', ''..''}) \<or>
      (\<exists>base. ?n = base @ ''-'' @ sum4 name \<and> list_all safe_char base \<and> base \<noteq> [])"
  proof (cases "safe = name \<and> safe \<noteq> [] \<and> safe \<noteq> ''.'' \<and> safe \<noteq> ''..''")
    case True
    then have "?n = safe" unfolding n_def by (rule if_P)
    then show ?thesis using True by auto
  next
    case False
    then have "?n = (if safe = [] \<or> safe = ''.'' \<or> safe = ''..'' then ''tlscert'' else safe) @ ''-'' @ sum4 name"
      unfolding n_def by (rule if_not_P)
    then show ?thesis using dash(2) safe safe_def
      by (intro disjI2 exI [of _ "if safe = [] \<or> safe = ''.'' \<or> safe = ''..'' then ''tlscert'' else safe"]) simp
  qed
  then have all: "list_all safe_char ?n"
    using safe_all dash(1) assms by auto
  moreover have "CHR ''/'' \<notin> set ?n" using all slash by (auto simp: list_all_iff)
  moreover have "?n \<notin> {[], ''.'', ''..''}" using n by (auto simp: Cons_eq_append_conv)
  moreover have "?n = name \<or> suffix (CHR ''-'' # sum4 name) ?n"
    using n by (auto simp: suffix_def)
  ultimately show ?thesis by blast
qed

theorem cert_file_name_safe_witness:
  "sanitizeCertFileName (\<lambda>_. ''2c26b46b'') ''../etc'' = ''.._etc-2c26b46b'' \<and>
   CHR ''/'' \<notin> set (sanitizeCertFileName (\<lambda>_. ''2c26b46b'') ''../etc'')"
proof
  show "sanitizeCertFileName (\<lambda>_. ''2c26b46b'') ''../etc'' = ''.._etc-2c26b46b''"
  proof -
    have "runes ''../etc'' = [''.'', ''.'', ''/'', ''e'', ''t'', ''c'']"
      by (subst runes_ascii) (simp_all add: is_ascii_def byte_def)
    then show ?thesis
      by (simp add: sanitizeCertFileName_def safe_rune_def safe_char_def byte_def is_digit_iff del: runes.simps)
  qed
  have "list_all safe_char ((\<lambda>_. ''2c26b46b'') ''../etc'')"
    by (simp add: safe_char_def byte_def is_digit_iff)
  from cert_file_name_safe [of "\<lambda>_. ''2c26b46b''" "''../etc''", OF this]
  show "CHR ''/'' \<notin> set (sanitizeCertFileName (\<lambda>_. ''2c26b46b'') ''../etc'')" by simp
qed

end
