(* ===== verification/VarnishProcess.thy ===== *)
theory VarnishProcess
  imports VarnishCLI "HOL-Library.Word"
begin

text \<open>
  The processes the manager runs (\<open>internal/varnish/manager.go\<close>): the start of varnishd with its
  wait for the admin port, the supervision of varnishncsa with its crash-loop breaker, and the
  count of active sessions that the graceful drain polls. Clocks, processes and pings are inputs.
\<close>

section \<open>Starting varnishd\<close>

definition start_args :: "string list \<Rightarrow> string \<Rightarrow> string list \<Rightarrow> string list" where
  "start_args listenAddrs initialVCL extraArgs =
     [''-F''] @ concat (map (\<lambda>la. [''-a'', la]) listenAddrs) @ [''-f'', initialVCL] @ extraArgs"

text \<open>
  One turn of the loop of \<open>waitForAdmin\<close> before the deadline: whether varnishd had exited at its
  start, and which arm of the select ended it.
\<close>

datatype ping = PingAnswered | PingFailed | DeadlineReached | ExitedMeanwhile

datatype admin_result = AdminReady | AdminTimeout | AdminExited

fun waitForAdmin :: "(bool \<times> ping) list \<Rightarrow> admin_result" where
  "waitForAdmin [] = AdminTimeout"
| "waitForAdmin ((exited, p) # turns) =
     (if exited then AdminExited
      else case p of
             PingAnswered \<Rightarrow> AdminReady
           | PingFailed \<Rightarrow> waitForAdmin turns
           | DeadlineReached \<Rightarrow> AdminTimeout
           | ExitedMeanwhile \<Rightarrow> AdminExited)"

datatype start_error = VersionUnknown | SpawnFailed string | AdminNotReady admin_result

text \<open>
  \<open>Start\<close>: the error, the version then known, the command line of the process that was spawned, and
  whether that process was killed and waited for.
\<close>

definition start :: "int \<Rightarrow> string option \<Rightarrow> (string list \<Rightarrow> string option) \<Rightarrow> (bool \<times> ping) list \<Rightarrow>
    string list \<Rightarrow> string \<Rightarrow> string list \<Rightarrow> start_error option \<times> int \<times> string list option \<times> bool" where
  "start majorVersion versionOutput spawn turns listenAddrs initialVCL extraArgs =
     (let detected = (if majorVersion = 0
          then (case versionOutput of None \<Rightarrow> None | Some out \<Rightarrow> DetectVersion out)
          else Some majorVersion)
      in case detected of
           None \<Rightarrow> (Some VersionUnknown, majorVersion, None, False)
         | Some v \<Rightarrow>
             (let args = start_args listenAddrs initialVCL extraArgs
              in case spawn args of
                   Some err \<Rightarrow> (Some (SpawnFailed err), v, None, False)
                 | None \<Rightarrow>
                     (case waitForAdmin turns of
                        AdminReady \<Rightarrow> (None, v, Some args, False)
                      | r \<Rightarrow> (Some (AdminNotReady r), v, Some args, True))))"

lemma start_outcome:
  assumes "start mv out spawn turns addrs vcl extra = (err, v, spawned, killed)"
  shows "(err = None \<longleftrightarrow> spawned \<noteq> None \<and> \<not> killed) \<and> (killed \<longrightarrow> spawned \<noteq> None \<and> err \<noteq> None) \<and>
    (err = None \<longrightarrow> waitForAdmin turns = AdminReady \<and> spawned = Some (start_args addrs vcl extra))"
  using assms by (auto simp: start_def Let_def split: option.splits admin_result.splits)

section \<open>Signals\<close>

datatype signal = SIGTERM | SIGINT | SIGHUP | SIGKILL | SIGQUIT

text \<open>\<open>ForwardSignal\<close>: which of varnishd and varnishncsa get the signal.\<close>

definition ForwardSignal :: "signal \<Rightarrow> bool \<Rightarrow> bool \<Rightarrow> bool \<times> bool" where
  "ForwardSignal sig varnishd ncsa = (varnishd, sig = SIGKILL \<and> ncsa)"

section \<open>Supervision of varnishncsa\<close>

record ncsa_event =
  ne_Type :: string
  ne_Reason :: string
  ne_Message :: string

record ncsa_config =
  nc_MaxCrashes :: int
  nc_StableUptime :: int

text \<open>
  The local variable \<open>crashes\<close>, the buffered channel of events, the channels that were closed, the
  signals sent to the subprocess, whether it is recorded as running, and how often its output was
  flushed.
\<close>

record ncsa_state =
  ns_crashes :: int
  ns_events :: "ncsa_event list"
  ns_crashed :: bool
  ns_done :: bool
  ns_signals :: "signal list"
  ns_running :: bool
  ns_flushes :: nat

definition ncsa_init :: ncsa_state where
  "ncsa_init = \<lparr>ns_crashes = 0, ns_events = [], ns_crashed = False, ns_done = False, ns_signals = [],
     ns_running = False, ns_flushes = 0\<rparr>"

definition ncsaEventsCap :: nat where
  "ncsaEventsCap = 8"

text \<open>\<open>sendNCSAEvent\<close>: dropped when the channel is full.\<close>

definition sendNCSAEvent :: "string \<Rightarrow> string \<Rightarrow> string \<Rightarrow> ncsa_state \<Rightarrow> ncsa_state" where
  "sendNCSAEvent typ reason message s =
     (if chan_can_send ncsaEventsCap (ns_events s)
      then s\<lparr>ns_events := ns_events s @ [\<lparr>ne_Type = typ, ne_Reason = reason, ne_Message = message\<rparr>]\<rparr>
      else s)"

text \<open>
  What happens in one turn of the loop of \<open>monitorNCSA\<close>: the process cannot be started, or the stop
  is requested while it runs (and it exits before the timeout or not), or it exits by itself after
  some uptime. The last argument of the first and third tells whether the stop ends the delay.
\<close>

datatype ncsa_turn = CannotStart string bool | StopRequested bool | Exits string int bool

text \<open>The check of the breaker: whether the loop gives up.\<close>

definition give_up :: "ncsa_config \<Rightarrow> ncsa_state \<Rightarrow> bool" where
  "give_up cf s \<longleftrightarrow> nc_MaxCrashes cf > 0 \<and> ns_crashes s \<ge> nc_MaxCrashes cf"

definition crash_loop_event :: "ncsa_state \<Rightarrow> ncsa_state" where
  "crash_loop_event s =
     (sendNCSAEvent ''Warning'' ''VarnishncsaCrashLoop''
       (''varnishncsa crashed '' @ show_int (ns_crashes s) @ '' times consecutively, giving up'') s)
     \<lparr>ns_crashed := True\<rparr>"

text \<open>One turn: whether the loop returns, and the new state.\<close>

fun ncsa_turn_step :: "ncsa_config \<Rightarrow> ncsa_turn \<Rightarrow> ncsa_state \<Rightarrow> bool \<times> ncsa_state" where
  "ncsa_turn_step cf (CannotStart err stop) s =
     (let s1 = sendNCSAEvent ''Warning'' ''VarnishncsaStartFailed'' (''Failed to start varnishncsa: '' @ err) s;
          s2 = s1\<lparr>ns_crashes := ns_crashes s1 + 1\<rparr>
      in if give_up cf s2 then (True, crash_loop_event s2) else (stop, s2))"
| "ncsa_turn_step cf (StopRequested inTime) s =
     (True, s\<lparr>ns_signals := ns_signals s @ (if inTime then [SIGTERM] else [SIGTERM, SIGKILL]),
        ns_flushes := Suc (ns_flushes s), ns_running := False\<rparr>)"
| "ncsa_turn_step cf (Exits err uptime stop) s =
     (let s1 = s\<lparr>ns_flushes := Suc (ns_flushes s), ns_running := False\<rparr>;
          s2 = sendNCSAEvent ''Warning'' ''VarnishncsaExited'' (''varnishncsa exited unexpectedly: '' @ err) s1;
          s3 = (if nc_StableUptime cf > 0 \<and> uptime \<ge> nc_StableUptime cf then s2\<lparr>ns_crashes := 0\<rparr>
                else s2\<lparr>ns_crashes := ns_crashes s2 + 1\<rparr>)
      in if give_up cf s3 then (True, crash_loop_event s3)
         else if stop then (True, s3)
         else (False, sendNCSAEvent ''Normal'' ''VarnishncsaRestarted''
                 ''Restarting varnishncsa after unexpected exit'' s3))"

text \<open>\<open>monitorNCSA\<close> over the turns; the deferred close of \<open>ncsaDone\<close> follows a return.\<close>

fun monitorNCSA :: "ncsa_config \<Rightarrow> ncsa_turn list \<Rightarrow> ncsa_state \<Rightarrow> ncsa_state" where
  "monitorNCSA cf [] s = s"
| "monitorNCSA cf (t # ts) s =
     (case ncsa_turn_step cf t s of
        (True, s') \<Rightarrow> s'\<lparr>ns_done := True\<rparr>
      | (False, s') \<Rightarrow> monitorNCSA cf ts s')"

subsection \<open>The breaker\<close>

fun stops :: "ncsa_turn \<Rightarrow> bool" where
  "stops (CannotStart err stop) = stop"
| "stops (StopRequested inTime) = True"
| "stops (Exits err uptime stop) = stop"

text \<open>A turn that counts as a crash: not started, or gone before the stable uptime.\<close>

fun crash :: "ncsa_config \<Rightarrow> ncsa_turn \<Rightarrow> bool" where
  "crash cf (CannotStart err stop) = True"
| "crash cf (StopRequested inTime) = False"
| "crash cf (Exits err uptime stop) = (\<not> (nc_StableUptime cf > 0 \<and> uptime \<ge> nc_StableUptime cf))"

definition count_crash :: "ncsa_config \<Rightarrow> ncsa_turn \<Rightarrow> int \<Rightarrow> int" where
  "count_crash cf t c = (if crash cf t then c + 1 else 0)"

lemma send_fields [simp]:
  "ns_crashes (sendNCSAEvent a b c s) = ns_crashes s" "ns_crashed (sendNCSAEvent a b c s) = ns_crashed s"
  "ns_done (sendNCSAEvent a b c s) = ns_done s" "ns_flushes (sendNCSAEvent a b c s) = ns_flushes s"
  by (simp_all add: sendNCSAEvent_def)

lemma turn_step_breaker:
  assumes "\<not> stops t" and "\<not> ns_crashed s"
  shows "(let c = count_crash cf t (ns_crashes s); r = ncsa_turn_step cf t s;
      trip = (nc_MaxCrashes cf > 0 \<and> c \<ge> nc_MaxCrashes cf) in
    fst r = trip \<and> ns_crashed (snd r) = trip \<and> ns_crashes (snd r) = c)"
  using assms by (cases t) (auto simp: count_crash_def give_up_def crash_loop_event_def Let_def)

text \<open>So many crashes in a row, somewhere in the history.\<close>

definition crash_run :: "ncsa_config \<Rightarrow> ncsa_turn list \<Rightarrow> bool" where
  "crash_run cf ts \<longleftrightarrow>
     (\<exists>xs ys zs. ts = xs @ ys @ zs \<and> int (length ys) = nc_MaxCrashes cf \<and> list_all (crash cf) ys)"

text \<open>The crashes already counted stand for a run of crashes before the history.\<close>

lemma crash_run_Cons:
  assumes pos: "0 < nc_MaxCrashes cf" and c: "c < nc_MaxCrashes cf" "0 \<le> c"
    and old: "list_all (crash cf) cs" "int (length cs) = c"
  shows "crash_run cf (cs @ t # ts) \<longleftrightarrow>
    count_crash cf t c \<ge> nc_MaxCrashes cf \<or>
    crash_run cf ((if crash cf t then cs @ [t] else []) @ ts)"
proof (cases "crash cf t")
  case True
  have "crash_run cf (cs @ t # ts)" if "count_crash cf t c \<ge> nc_MaxCrashes cf"
  proof -
    have "int (length (cs @ [t])) = nc_MaxCrashes cf" using that True c old(2) by (simp add: count_crash_def)
    then show ?thesis using old(1) True
      unfolding crash_run_def by (intro exI [of _ "[]"] exI [of _ "cs @ [t]"] exI [of _ ts]) simp
  qed
  then show ?thesis using True by auto
next
  case False
  have "crash_run cf ts" if run: "crash_run cf (cs @ t # ts)"
  proof -
    obtain xs ys zs where s: "cs @ t # ts = xs @ ys @ zs" "int (length ys) = nc_MaxCrashes cf"
      "list_all (crash cf) ys" using run by (auto simp: crash_run_def)
    have nt: "t \<notin> set ys" using s(3) False by (auto simp: list_all_iff)
    have "length xs > length cs"
    proof (rule ccontr)
      assume le: "\<not> length xs > length cs"
      have "length xs + length ys > length cs" using s(2) c old(2) by linarith
      then have "length cs - length xs < length ys" using le by linarith
      then have "(xs @ ys @ zs) ! length cs \<in> set ys"
        using le by (simp add: nth_append)
      moreover have "(cs @ t # ts) ! length cs = t" by simp
      ultimately show False using s(1) nt by simp
    qed
    then obtain us where "xs = cs @ t # us"
      using s(1) by (auto simp: append_eq_append_conv2 append_eq_Cons_conv Cons_eq_append_conv)
    then have "ts = us @ ys @ zs" using s(1) by simp
    then show ?thesis using s(2,3) unfolding crash_run_def by blast
  qed
  moreover have "crash_run cf (cs @ t # ts)" if "crash_run cf ts"
    using that unfolding crash_run_def by (metis append.assoc append_Cons)
  ultimately show ?thesis using False pos by (auto simp: count_crash_def)
qed

lemma crash_run_Nil: "0 < nc_MaxCrashes cf \<Longrightarrow> list_all (crash cf) cs \<Longrightarrow> int (length cs) < nc_MaxCrashes cf \<Longrightarrow>
  \<not> crash_run cf cs"
  by (auto simp: crash_run_def)

lemma monitor_breaker:
  assumes "0 < nc_MaxCrashes cf" and "list_all (\<lambda>t. \<not> stops t) ts" and "\<not> ns_crashed s" and "\<not> ns_done s"
    and "list_all (crash cf) cs" and "int (length cs) = ns_crashes s" and "ns_crashes s < nc_MaxCrashes cf"
  shows "(ns_crashed (monitorNCSA cf ts s) \<longleftrightarrow> crash_run cf (cs @ ts)) \<and>
    ns_done (monitorNCSA cf ts s) = ns_crashed (monitorNCSA cf ts s)"
  using assms(2-)
proof (induction ts arbitrary: s cs)
  case Nil
  then show ?case using crash_run_Nil [OF assms(1)] by simp
next
  case (Cons t ts)
  let ?c = "count_crash cf t (ns_crashes s)" and ?r = "ncsa_turn_step cf t s"
  have step: "fst ?r = (?c \<ge> nc_MaxCrashes cf)" "ns_crashed (snd ?r) = (?c \<ge> nc_MaxCrashes cf)"
    "ns_crashes (snd ?r) = ?c"
    using turn_step_breaker [of t s cf] Cons.prems(1,2) assms(1) by (simp_all add: Let_def)
  have nd: "ns_done (snd ?r) = False"
    using Cons.prems(3) by (cases t) (auto simp: Let_def crash_loop_event_def)
  note eq = crash_run_Cons [OF assms(1) Cons.prems(6) _ Cons.prems(4,5), of t ts]
  show ?case
  proof (cases "?c \<ge> nc_MaxCrashes cf")
    case True
    then obtain s' where "?r = (True, s')" "ns_crashed s'" using step by (cases ?r) auto
    then show ?thesis using True eq Cons.prems(5) by (simp add: eq) 
  next
    case False
    then obtain s' where s': "?r = (False, s')" using step by (cases ?r) auto
    let ?cs = "if crash cf t then cs @ [t] else []"
    have "list_all (crash cf) ?cs" "int (length ?cs) = ns_crashes s'"
      using Cons.prems(4,5) step(3) s' by (auto simp: count_crash_def)
    from Cons.IH [of s' ?cs, OF _ _ _ this] show ?thesis
      using Cons.prems step nd s' False eq by auto
  qed
qed

text \<open>
  C29: The breaker of varnishncsa's supervision gives up exactly when \<open>NCSAMaxCrashes\<close> turns in a row
  crashed, a turn being a crash when the process could not be started or exited before the stable
  uptime: exits spread over the life of the process never trip it, and an uptime that long resets
  it. Once it trips, the loop has ended.
\<close>

theorem ncsa_breaker_exact:
  assumes "0 < nc_MaxCrashes cf" and "list_all (\<lambda>t. \<not> stops t) ts"
  shows "(ns_crashed (monitorNCSA cf ts ncsa_init) \<longleftrightarrow> crash_run cf ts) \<and>
    ns_done (monitorNCSA cf ts ncsa_init) = ns_crashed (monitorNCSA cf ts ncsa_init)"
  using monitor_breaker [OF assms, of ncsa_init "[]"] assms(1) by (simp add: ncsa_init_def)

definition sample_turns :: "ncsa_turn list" where
  "sample_turns = [Exits ''exit 1'' 2 False, Exits ''exit 1'' 90 False, CannotStart ''ENOENT'' False,
     Exits ''exit 1'' 3 False]"

theorem ncsa_breaker_exact_witness:
  "crash_run \<lparr>nc_MaxCrashes = 2, nc_StableUptime = 60\<rparr> sample_turns \<and>
   ns_crashed (monitorNCSA \<lparr>nc_MaxCrashes = 2, nc_StableUptime = 60\<rparr> sample_turns ncsa_init)"
proof -
  let ?cf = "\<lparr>nc_MaxCrashes = 2, nc_StableUptime = 60\<rparr>"
  have "crash_run ?cf sample_turns"
    unfolding crash_run_def sample_turns_def
    by (intro exI [of _ "[Exits ''exit 1'' 2 False, Exits ''exit 1'' 90 False]"]
        exI [of _ "[CannotStart ''ENOENT'' False, Exits ''exit 1'' 3 False]"] exI [of _ "[]"]) simp
  moreover have "list_all (\<lambda>t. \<not> stops t) sample_turns" by (simp add: sample_turns_def)
  ultimately show ?thesis using ncsa_breaker_exact [of ?cf sample_turns] by simp
qed

section \<open>Active sessions\<close>

text \<open>
  \<open>parseActiveSessions\<close>. The JSON decoder of the standard library is a parameter: \<open>nested\<close> gives
  the counters of the nested schema, \<open>Some None\<close> when the object has none, \<open>flat\<close> the top level
  entries, and \<open>counter\<close> the value of one of them; each is \<open>None\<close> on bad input. The sum of the
  \<open>uint64\<close> counters wraps as Go's does.
\<close>

definition session_key :: "string \<Rightarrow> bool" where
  "session_key key \<longleftrightarrow> prefix ''MEMPOOL.sess'' key \<and> suffix ''.live'' key"

definition parseActiveSessionsV7 :: "(string \<Rightarrow> (string \<times> 64 word) list option option) \<Rightarrow> string \<Rightarrow>
    (64 word \<times> bool) option" where
  "parseActiveSessionsV7 nested out =
     (case nested out of
        None \<Rightarrow> None
      | Some None \<Rightarrow> Some (0, False)
      | Some (Some cs) \<Rightarrow> Some (sum_list (map snd (filter (\<lambda>c. session_key (fst c)) cs)), True))"

fun sum_flat :: "('j \<Rightarrow> 64 word option) \<Rightarrow> (string \<times> 'j) list \<Rightarrow> 64 word \<Rightarrow> 64 word option" where
  "sum_flat counter [] acc = Some acc"
| "sum_flat counter ((key, raw) # entries) acc =
     (if \<not> session_key key then sum_flat counter entries acc
      else case counter raw of None \<Rightarrow> None | Some v \<Rightarrow> sum_flat counter entries (acc + v))"

definition parseActiveSessionsV6 :: "(string \<Rightarrow> (string \<times> 'j) list option) \<Rightarrow> ('j \<Rightarrow> 64 word option) \<Rightarrow>
    string \<Rightarrow> 64 word option" where
  "parseActiveSessionsV6 flat counter out =
     (case flat out of None \<Rightarrow> None | Some entries \<Rightarrow> sum_flat counter entries 0)"

definition parseActiveSessions :: "(string \<Rightarrow> (string \<times> 64 word) list option option) \<Rightarrow>
    (string \<Rightarrow> (string \<times> 'j) list option) \<Rightarrow> ('j \<Rightarrow> 64 word option) \<Rightarrow> string \<Rightarrow> 64 word option" where
  "parseActiveSessions nested flat counter out =
     (case parseActiveSessionsV7 nested out of
        None \<Rightarrow> None
      | Some (acc, True) \<Rightarrow> Some acc
      | Some (_, False) \<Rightarrow> parseActiveSessionsV6 flat counter out)"

text \<open>Both schemas give the same count of the same counters, in whatever order they are listed.\<close>

lemma sum_flat_total:
  assumes "list_all (\<lambda>e. counter (snd e) = Some (f e)) (filter (\<lambda>e. session_key (fst e)) entries)"
  shows "sum_flat counter entries acc = Some (acc + sum_list (map f (filter (\<lambda>e. session_key (fst e)) entries)))"
  using assms by (induction entries arbitrary: acc) (auto simp: add.assoc)

end
