(* ===== verification/Broadcast.thy ===== *)
theory Broadcast
  imports Endpoints GoText
begin

text \<open>
  The broadcaster (\<open>internal/broadcast/broadcast.go\<close>), which fans a request out to every frontend
  pod and answers with a map of their results, and its drain, which waits until the last client
  connection is closed. What \<open>net/http\<close> does with a request is the parameter \<open>client\<close>; the order in
  which the goroutines finish is a parameter too.
\<close>

section \<open>Metric labels\<close>

definition knownMethods :: "string list" where
  "knownMethods = [''GET'', ''HEAD'', ''POST'', ''PUT'', ''PATCH'', ''DELETE'', ''CONNECT'', ''OPTIONS'',
     ''TRACE'', ''PURGE'', ''BAN'']"

definition normalizeMethod :: "string \<Rightarrow> string" where
  "normalizeMethod method = (if method \<in> set knownMethods then method else ''other'')"

definition classifyOutcome :: "int \<Rightarrow> string" where
  "classifyOutcome status =
     (if status = 0 then ''transport_error'' else if status \<ge> 400 then ''http_error'' else ''ok'')"

section \<open>Hop-by-hop headers\<close>

type_synonym header = "(string, string list) fmap"

definition hopByHopHeaders :: "string list" where
  "hopByHopHeaders = [''Connection'', ''Proxy-Connection'', ''Keep-Alive'', ''Proxy-Authenticate'',
     ''Proxy-Authorization'', ''Te'', ''Trailer'', ''Transfer-Encoding'', ''Upgrade'']"

definition header_values :: "header \<Rightarrow> string \<Rightarrow> string list" where
  "header_values h k = (case fmlookup h k of Some vs \<Rightarrow> vs | None \<Rightarrow> [])"

definition isHopByHopHeader :: "string \<Rightarrow> header \<Rightarrow> bool" where
  "isHopByHopHeader k h =
     (if k \<in> set hopByHopHeaders then True
      else list_ex (\<lambda>v. list_ex (\<lambda>tok. equal_fold (trim_space tok) k) (split_on (CHR '','') v))
             (header_values h ''Connection''))"

section \<open>One pod\<close>

definition maxBodySize :: nat where
  "maxBodySize = 2 ^ 20"

record pod_result =
  pr_Status :: int
  pr_Body :: string

record http_request =
  rq_Method :: string
  rq_Path :: string
  rq_RawPath :: string
  rq_RawQuery :: string
  rq_Host :: string
  rq_Header :: header

text \<open>The request \<open>forward\<close> hands to the client: the address dialled, and what is sent.\<close>

record pod_request =
  pq_Method :: string
  pq_Addr :: string
  pq_Path :: string
  pq_RawPath :: string
  pq_RawQuery :: string
  pq_Host :: string
  pq_Header :: header
  pq_Body :: string

text \<open>
  The body of a message: the bytes that arrive, and the error after them, if any. The client gives
  an error, or a status and a body.
\<close>

type_synonym stream = "string \<times> string option"

datatype answer = Failed string | Answered int stream

definition read_limited :: "stream \<Rightarrow> string + string" where
  "read_limited b =
     (if length (fst b) \<ge> maxBodySize then Inr (take maxBodySize (fst b))
      else case snd b of Some err \<Rightarrow> Inl err | None \<Rightarrow> Inr (fst b))"

definition target_port :: "int \<Rightarrow> endpoint \<Rightarrow> int" where
  "target_port targetPort fe = (if targetPort > 0 then targetPort else Port fe)"

definition end_to_end :: "header \<Rightarrow> header" where
  "end_to_end h = fmfilter (\<lambda>k. \<not> isHopByHopHeader k h \<and> header_values h k \<noteq> []) h"

definition pod_request_of :: "int \<Rightarrow> http_request \<Rightarrow> endpoint \<Rightarrow> string \<Rightarrow> pod_request" where
  "pod_request_of targetPort r fe body =
     \<lparr>pq_Method = rq_Method r, pq_Addr = joinHostPort (Host fe) (show_int (target_port targetPort fe)),
      pq_Path = rq_Path r, pq_RawPath = rq_RawPath r, pq_RawQuery = rq_RawQuery r,
      pq_Host = rq_Host r, pq_Header = end_to_end (rq_Header r), pq_Body = body\<rparr>"

text \<open>
  \<open>forward\<close>. \<open>bad\<close> is the error of \<open>http.NewRequestWithContext\<close> on a method or URL it refuses.
\<close>

definition forward :: "(pod_request \<Rightarrow> string option) \<Rightarrow> (pod_request \<Rightarrow> answer) \<Rightarrow> int \<Rightarrow>
    http_request \<Rightarrow> endpoint \<Rightarrow> string \<Rightarrow> pod_result" where
  "forward bad client targetPort r fe body =
     (let req = pod_request_of targetPort r fe body
      in case bad req of
           Some err \<Rightarrow> \<lparr>pr_Status = 0, pr_Body = ''request error: '' @ err\<rparr>
         | None \<Rightarrow>
             (case client req of
                Failed err \<Rightarrow> \<lparr>pr_Status = 0, pr_Body = ''request error: '' @ err\<rparr>
              | Answered status b \<Rightarrow>
                  (case read_limited b of
                     Inl err \<Rightarrow> \<lparr>pr_Status = status, pr_Body = ''read error: '' @ err\<rparr>
                   | Inr respBody \<Rightarrow> \<lparr>pr_Status = status, pr_Body = respBody\<rparr>)))"

section \<open>The keys of the answer\<close>

definition pod_addr :: "endpoint \<Rightarrow> string" where
  "pod_addr fe = joinHostPort (Host fe) (show_int (Port fe))"

definition base_key :: "(string \<Rightarrow> nat) \<Rightarrow> endpoint \<Rightarrow> string" where
  "base_key nameCount fe =
     (if Name fe = [] then pod_addr fe
      else if nameCount (Name fe) > 1 then Name fe @ ''@'' @ pod_addr fe
      else Name fe)"

fun key_loop :: "(string \<Rightarrow> nat) \<Rightarrow> nat \<Rightarrow> string list \<Rightarrow> endpoint list \<Rightarrow> string list" where
  "key_loop nameCount i used [] = []"
| "key_loop nameCount i used (fe # fes) =
     (let key = base_key nameCount fe;
          key' = (if key \<in> set used then key @ ''#'' @ show_nat i else key)
      in key' # key_loop nameCount (Suc i) (key' # used) fes)"

definition fanoutKeys :: "endpoint list \<Rightarrow> string list" where
  "fanoutKeys frontends = key_loop (count_list (map Name frontends)) 0 [] frontends"

section \<open>The handler\<close>

datatype reply_body = ErrorBody string | Results "(string, pod_result) fmap"

record reply =
  rp_status :: int
  rp_close :: bool
  rp_body :: reply_body

text \<open>
  \<open>ServeHTTP\<close>: the reply and the labels of \<open>BroadcastRequestsTotal\<close>. \<open>reqBody\<close> is the incoming body;
  \<open>order\<close> is the order in which the pods' results arrive.
\<close>

definition collect :: "(nat \<Rightarrow> pod_result) \<Rightarrow> string list \<Rightarrow> nat list \<Rightarrow> (string, pod_result) fmap" where
  "collect result keys order = fold (\<lambda>i out. fmupd (keys ! i) (result i) out) order fmempty"

definition ServeHTTP :: "(pod_request \<Rightarrow> string option) \<Rightarrow> (pod_request \<Rightarrow> answer) \<Rightarrow> int \<Rightarrow> bool \<Rightarrow>
    endpoint list \<Rightarrow> nat list \<Rightarrow> http_request \<Rightarrow> stream \<Rightarrow> reply \<times> string \<times> string" where
  "ServeHTTP bad client targetPort draining frontends order r reqBody =
     (let method = normalizeMethod (rq_Method r)
      in if frontends = []
         then (\<lparr>rp_status = 503, rp_close = draining, rp_body = ErrorBody ''no frontends available''\<rparr>,
               method, ''503'')
         else if length (fst reqBody) > maxBodySize
         then (\<lparr>rp_status = 413, rp_close = draining,
                rp_body = ErrorBody (''request body exceeds '' @ show_nat maxBodySize @ '' bytes'')\<rparr>,
               method, ''413'')
         else if snd reqBody \<noteq> None
         then (\<lparr>rp_status = 400, rp_close = draining, rp_body = ErrorBody ''failed to read request body''\<rparr>,
               method, ''400'')
         else (\<lparr>rp_status = 200, rp_close = draining,
                rp_body = Results (collect
                  (\<lambda>i. forward bad client targetPort r (frontends ! i) (fst reqBody))
                  (fanoutKeys frontends) order)\<rparr>,
               method, ''200''))"

section \<open>No pod is lost in the answer\<close>

lemma split_last_eq:
  "c \<notin> set p \<Longrightarrow> c \<notin> set p' \<Longrightarrow> h @ c # p = h' @ c # p' \<longleftrightarrow> h = h' \<and> p = p'"
  by (auto simp: append_eq_append_conv2 Cons_eq_append_conv append_eq_Cons_conv)

lemma split_first_eq:
  "c \<notin> set h \<Longrightarrow> c \<notin> set h' \<Longrightarrow> h @ c # p = h' @ c # p' \<longleftrightarrow> h = h' \<and> p = p'"
  by (auto simp: append_eq_append_conv2 Cons_eq_append_conv append_eq_Cons_conv)

lemma show_nat_no_char: "\<not> is_digit c \<Longrightarrow> c \<notin> set (show_nat n)"
  using show_nat_digits [of n] by (auto simp: list_all_iff)

lemma show_int_no_colon: "CHR '':'' \<notin> set (show_int i)"
  using show_nat_no_char [of "CHR '':''"] by (simp add: show_int_def is_digit_iff)

lemma show_int_no_at: "CHR ''@'' \<notin> set (show_int i)"
  using show_nat_no_char [of "CHR ''@''"] by (simp add: show_int_def is_digit_iff)

lemma show_int_inj: "show_int i = show_int j \<Longrightarrow> i = j"
proof -
  assume eq: "show_int i = show_int j"
  have neg: "show_nat m \<noteq> CHR ''-'' # ds" for m ds
    using show_nat_no_char [of "CHR ''-''" m] by (auto simp: is_digit_iff)
  show ?thesis using eq neg [of "nat i" "show_nat (nat (- j))"] neg [of "nat j" "show_nat (nat (- i))"]
    by (auto simp: show_int_def split: if_splits)
qed

text \<open>The bracketed form keeps the host and the port apart, whatever the host.\<close>

lemma joinHostPort_split:
  "joinHostPort h p = (if CHR '':'' \<in> set h then ''['' @ h @ '']'' else h) @ CHR '':'' # p"
  by (simp add: joinHostPort_def)

lemma pod_addr_inj: "pod_addr fe = pod_addr fe' \<Longrightarrow> Host fe = Host fe' \<and> Port fe = Port fe'"
proof -
  assume "pod_addr fe = pod_addr fe'"
  then have "(if CHR '':'' \<in> set (Host fe) then ''['' @ Host fe @ '']'' else Host fe) =
      (if CHR '':'' \<in> set (Host fe') then ''['' @ Host fe' @ '']'' else Host fe')"
    and p: "show_int (Port fe) = show_int (Port fe')"
    unfolding pod_addr_def joinHostPort_split
    by (simp_all only: split_last_eq [OF show_int_no_colon show_int_no_colon])
  moreover have colon: "CHR '':'' \<in> set g" if "''['' @ h @ '']'' = g" "CHR '':'' \<in> set h" for g h :: string
    using that(2) by (simp add: that(1) [symmetric])
  ultimately have "Host fe = Host fe'"
    using colon [of "Host fe" "Host fe'"] colon [of "Host fe'" "Host fe"] by (auto split: if_splits)
  then show ?thesis using show_int_inj [OF p] by simp
qed

lemma pod_addr_colon: "CHR '':'' \<in> set (pod_addr fe)"
  by (simp add: pod_addr_def joinHostPort_def)

lemma pod_addr_at: "CHR ''@'' \<notin> set (Host fe) \<Longrightarrow> CHR ''@'' \<notin> set (pod_addr fe)"
  by (simp add: pod_addr_def joinHostPort_def show_int_no_at)

text \<open>
  What Kubernetes guarantees of the frontends: no two have the same address (the watcher removes
  duplicates), a pod name has neither colon nor at sign, and a host is an IP address or a host name.
\<close>

definition frontends_ok :: "endpoint list \<Rightarrow> bool" where
  "frontends_ok fes \<longleftrightarrow> distinct (map (\<lambda>fe. (Host fe, Port fe)) fes) \<and>
     list_all (\<lambda>fe. CHR '':'' \<notin> set (Name fe) \<and> CHR ''@'' \<notin> set (Name fe) \<and> CHR ''@'' \<notin> set (Host fe)) fes"

lemma base_key_eq:
  assumes ok: "\<forall>e\<in>{fe, fe'}. CHR '':'' \<notin> set (Name e) \<and> CHR ''@'' \<notin> set (Name e) \<and> CHR ''@'' \<notin> set (Host e)"
    and eq: "base_key cnt fe = base_key cnt fe'"
  shows "pod_addr fe = pod_addr fe' \<or> (Name fe = Name fe' \<and> cnt (Name fe) \<le> 1)"
proof -
  have at: "CHR ''@'' \<notin> set (pod_addr fe)" "CHR ''@'' \<notin> set (pod_addr fe')"
    using ok by (simp_all add: pod_addr_at)
  have n: "CHR '':'' \<notin> set (Name fe)" "CHR '':'' \<notin> set (Name fe')" using ok by simp_all
  have ne: "pod_addr e \<noteq> Name e'" if "CHR '':'' \<notin> set (Name e')" for e e'
    using that pod_addr_colon [of e] by metis
  have na: "Name e @ ''@'' @ pod_addr e \<noteq> Name e'" if "CHR '':'' \<notin> set (Name e')" for e e'
    using that pod_addr_colon [of e] by (metis Un_iff set_append)
  have pa: "pod_addr e' \<noteq> Name e @ ''@'' @ pod_addr e" if "CHR ''@'' \<notin> set (pod_addr e')" for e e'
    using that by (metis Un_iff list.set_intros(1) append_Cons set_append)
  have both: "Name fe @ ''@'' @ pod_addr fe = Name fe' @ ''@'' @ pod_addr fe' \<Longrightarrow> pod_addr fe = pod_addr fe'"
    using ok split_first_eq [of "CHR ''@''" "Name fe" "Name fe'"] by simp
  show ?thesis
    using eq ne n na pa at both unfolding base_key_def
    by (smt (verit, ccfv_threshold) linorder_not_le)
qed

lemma count_list_twice: "i < j \<Longrightarrow> j < length xs \<Longrightarrow> xs ! i = xs ! j \<Longrightarrow> 1 < count_list xs (xs ! i)"
proof -
  assume ij: "i < j" "j < length xs" and eq: "xs ! i = xs ! j"
  have "xs ! i \<in> set (take j xs)" using ij by (metis in_set_conv_nth length_take min.absorb4 nth_take)
  then have "0 < count_list (take j xs) (xs ! i)" using count_list_0_iff [of "take j xs" "xs ! i"] by simp
  moreover have "count_list xs (xs ! i) = count_list (take j xs) (xs ! i) + count_list (drop j xs) (xs ! i)"
    by (metis append_take_drop_id count_list_append)
  moreover have "0 < count_list (drop j xs) (xs ! i)"
    using ij(2) eq by (simp add: Cons_nth_drop_Suc [symmetric])
  ultimately show ?thesis by simp
qed

lemma base_keys_distinct:
  assumes ok: "frontends_ok fes"
  shows "distinct (map (base_key (count_list (map Name fes))) fes)"
  unfolding distinct_conv_nth
proof (intro allI impI)
  have wrong: False
    if ij: "i < j" "j < length fes"
      and eq: "base_key (count_list (map Name fes)) (fes ! i) = base_key (count_list (map Name fes)) (fes ! j)"
    for i j
  proof -
    have "\<forall>e\<in>{fes ! i, fes ! j}. CHR '':'' \<notin> set (Name e) \<and> CHR ''@'' \<notin> set (Name e) \<and> CHR ''@'' \<notin> set (Host e)"
      using ok ij by (auto simp: frontends_ok_def list_all_length)
    from base_key_eq [OF this eq] show False
    proof
      assume "pod_addr (fes ! i) = pod_addr (fes ! j)"
      from pod_addr_inj [OF this] show False
        using ok ij by (auto simp: frontends_ok_def distinct_conv_nth)
    next
      assume a: "Name (fes ! i) = Name (fes ! j) \<and> count_list (map Name fes) (Name (fes ! i)) \<le> 1"
      have "1 < count_list (map Name fes) (map Name fes ! i)"
        using a ij by (intro count_list_twice [of i j]) simp_all
      then have "1 < count_list (map Name fes) (Name (fes ! i))" using ij by simp
      then show False using conjunct2 [OF a] by linarith
    qed
  qed
  fix i j
  assume "i < length (map (base_key (count_list (map Name fes))) fes)"
    and "j < length (map (base_key (count_list (map Name fes))) fes)" and "i \<noteq> j"
  then show "map (base_key (count_list (map Name fes))) fes ! i \<noteq>
      map (base_key (count_list (map Name fes))) fes ! j"
    using wrong [of i j] wrong [of j i] by (cases "i < j") auto
qed

lemma key_loop_distinct:
  "distinct (map (base_key cnt) fes) \<Longrightarrow> set (map (base_key cnt) fes) \<inter> set used = {} \<Longrightarrow>
   key_loop cnt i used fes = map (base_key cnt) fes"
  by (induction fes arbitrary: i used) (auto simp: Let_def)

lemma fanoutKeys_ok:
  "frontends_ok fes \<Longrightarrow> fanoutKeys fes = map (base_key (count_list (map Name fes))) fes"
  unfolding fanoutKeys_def by (rule key_loop_distinct) (simp_all add: base_keys_distinct)

lemma length_fanoutKeys [simp]: "length (fanoutKeys fes) = length fes"
proof -
  have "length (key_loop cnt i used fes) = length fes" for cnt i used
    by (induction fes arbitrary: i used) (simp_all add: Let_def)
  then show ?thesis by (simp add: fanoutKeys_def)
qed

lemma collect_lookup:
  assumes "distinct keys" and "set order \<subseteq> {..<length keys}" and "i < length keys"
  shows "fmlookup (fold (\<lambda>i out. fmupd (keys ! i) (f i) out) order m) (keys ! i) =
     (if i \<in> set order then Some (f i) else fmlookup m (keys ! i))"
  using assms(2)
proof (induction order arbitrary: m)
  case (Cons j order)
  then have "j < length keys" by simp
  then have "keys ! j = keys ! i \<longleftrightarrow> j = i" using assms(1,3) by (simp add: nth_eq_iff_index_eq)
  then show ?case using Cons by auto
qed simp

lemma collect_dom:
  "fmdom' (fold (\<lambda>i out. fmupd (keys ! i) (f i) out) order m) = fmdom' m \<union> (\<lambda>i. keys ! i) ` set order"
  by (induction order arbitrary: m) auto

text \<open>
  C19: A broadcast that is carried out answers 200 with exactly one entry per frontend pod, and the
  entry of a pod is what forwarding the request to that pod gave, in whatever order the pods
  answered: pods without a name or with a repeated name do not collapse into one entry, so a purge
  that failed on one pod is always seen. A name that is unique is its pod's key unchanged.
\<close>

theorem broadcast_reports_every_pod:
  assumes "frontends_ok fes" and "fes \<noteq> []"
    and "length body \<le> maxBodySize" and "set order = {..<length fes}"
  shows "\<exists>m. fst (ServeHTTP bad client tp draining fes order r (body, None)) =
        \<lparr>rp_status = 200, rp_close = draining, rp_body = Results m\<rparr> \<and>
      fmdom' m = set (fanoutKeys fes) \<and> card (fmdom' m) = length fes \<and>
      list_all (\<lambda>i. fmlookup m (fanoutKeys fes ! i) = Some (forward bad client tp r (fes ! i) body) \<and>
        (if Name (fes ! i) \<noteq> [] \<and> count_list (map Name fes) (Name (fes ! i)) = 1
         then fanoutKeys fes ! i = Name (fes ! i) else True)) [0..<length fes]"
proof -
  let ?keys = "fanoutKeys fes"
  let ?m = "collect (\<lambda>i. forward bad client tp r (fes ! i) body) ?keys order"
  have d: "distinct ?keys" using fanoutKeys_ok [OF assms(1)] base_keys_distinct [OF assms(1)] by simp
  have reply: "fst (ServeHTTP bad client tp draining fes order r (body, None)) =
      \<lparr>rp_status = 200, rp_close = draining, rp_body = Results ?m\<rparr>"
    using assms(2,3) by (simp add: ServeHTTP_def)
  have dom: "fmdom' ?m = set ?keys"
  proof -
    have "fmdom' ?m = (\<lambda>i. ?keys ! i) ` {..<length ?keys}"
      using assms(4) by (simp add: collect_def collect_dom)
    also have "... = set (map (\<lambda>i. ?keys ! i) [0..<length ?keys])" by (simp add: atLeast0LessThan)
    finally show ?thesis by (simp only: map_nth)
  qed
  have look: "fmlookup ?m (?keys ! i) = Some (forward bad client tp r (fes ! i) body)" if "i < length fes" for i
    using collect_lookup [OF d, of order i] that assms(4) by (simp add: collect_def)
  have name: "?keys ! i = Name (fes ! i)"
    if "i < length fes" "Name (fes ! i) \<noteq> []" "count_list (map Name fes) (Name (fes ! i)) = 1" for i
    using that by (simp add: fanoutKeys_ok [OF assms(1)] base_key_def)
  have all: "list_all (\<lambda>i. fmlookup ?m (?keys ! i) = Some (forward bad client tp r (fes ! i) body) \<and>
      (if Name (fes ! i) \<noteq> [] \<and> count_list (map Name fes) (Name (fes ! i)) = 1
       then ?keys ! i = Name (fes ! i) else True)) [0..<length fes]"
    unfolding list_all_iff using look name by (intro ballI conjI) auto
  have "card (fmdom' ?m) = length fes" unfolding dom distinct_card [OF d] by simp
  with reply dom all show ?thesis by (intro exI [of _ ?m] conjI)
qed

definition sample_pods :: "endpoint list" where
  "sample_pods =
     [\<lparr>Host = ''10.0.0.2'', Port = 80, Name = [], Zone = [], NodeName = [], ForZones = []\<rparr>,
      \<lparr>Host = ''10.0.0.3'', Port = 80, Name = [], Zone = [], NodeName = [], ForZones = []\<rparr>]"

definition sample_request :: http_request where
  "sample_request = \<lparr>rq_Method = ''PURGE'', rq_Path = ''/'', rq_RawPath = [], rq_RawQuery = [],
     rq_Host = ''shop'', rq_Header = fmempty\<rparr>"

lemma sample_pods_ok: "frontends_ok sample_pods"
  by (simp add: frontends_ok_def sample_pods_def)

theorem broadcast_reports_every_pod_witness:
  "\<exists>m. fst (ServeHTTP (\<lambda>_. None) (\<lambda>_. Answered 200 ([], None)) 8080 False sample_pods [1, 0]
          sample_request ([], None)) =
        \<lparr>rp_status = 200, rp_close = False, rp_body = Results m\<rparr> \<and>
      fmdom' m = set (fanoutKeys sample_pods) \<and> card (fmdom' m) = length sample_pods \<and>
      list_all (\<lambda>i. fmlookup m (fanoutKeys sample_pods ! i) =
          Some (forward (\<lambda>_. None) (\<lambda>_. Answered 200 ([], None)) 8080 sample_request (sample_pods ! i) []) \<and>
        (if Name (sample_pods ! i) \<noteq> [] \<and> count_list (map Name sample_pods) (Name (sample_pods ! i)) = 1
         then fanoutKeys sample_pods ! i = Name (sample_pods ! i) else True)) [0..<length sample_pods]"
proof (rule broadcast_reports_every_pod [OF sample_pods_ok])
  show "sample_pods \<noteq> []" "length [] \<le> maxBodySize" "set [1, 0] = {..<length sample_pods}"
    by (auto simp: sample_pods_def)
qed

section \<open>What is forwarded\<close>

text \<open>
  What a pod receives of a client's request: the method, the path, the query, the body and the
  Host are unchanged, an end-to-end header is passed with all its values, and no header of the
  hop-by-hop set and none that the request's own Connection header names is passed. The pod is
  dialled on the configured Varnish port, or on its own port when none is configured.
\<close>

theorem forwarded_request_exact:
  "let req = pod_request_of tp r fe body in
      pq_Method req = rq_Method r \<and> pq_Path req = rq_Path r \<and> pq_RawPath req = rq_RawPath r \<and>
      pq_RawQuery req = rq_RawQuery r \<and> pq_Host req = rq_Host r \<and> pq_Body req = body \<and>
      pq_Addr req = joinHostPort (Host fe) (show_int (if tp > 0 then tp else Port fe)) \<and>
      header_values (pq_Header req) k =
        (if k \<in> set hopByHopHeaders \<or>
            (\<exists>v tok. v \<in> set (header_values (rq_Header r) ''Connection'') \<and>
               tok \<in> set (split_on (CHR '','') v) \<and> equal_fold (trim_space tok) k)
         then [] else header_values (rq_Header r) k)"
proof -
  have hop: "isHopByHopHeader k (rq_Header r) \<longleftrightarrow> k \<in> set hopByHopHeaders \<or>
      (\<exists>v tok. v \<in> set (header_values (rq_Header r) ''Connection'') \<and>
        tok \<in> set (split_on (CHR '','') v) \<and> equal_fold (trim_space tok) k)"
    by (auto simp: isHopByHopHeader_def list_ex_iff)
  have "header_values (end_to_end h) k = (if isHopByHopHeader k h then [] else header_values h k)" for h
    by (simp add: end_to_end_def header_values_def split: option.split)
  then show ?thesis by (simp add: pod_request_of_def target_port_def hop Let_def)
qed

section \<open>Draining\<close>

text \<open>
  The counters of the drain and the program counter of the goroutine in \<open>Drain\<close>. Atomic operations
  of \<open>connState\<close> are single steps: \<open>ds_closing\<close> callbacks are between the decrement that found no
  connection left and the load of \<open>draining\<close>, \<open>ds_signalling\<close> ones are about to call
  \<open>signalDrained\<close>. \<open>ds_drained\<close> says that \<open>connsDrained\<close> is closed.
\<close>

datatype drain_pc = NotDraining | FlagStored | SawNone | Waiting

record drain_state =
  ds_conns :: int
  ds_draining :: bool
  ds_drained :: bool
  ds_closing :: nat
  ds_signalling :: nat
  ds_pc :: drain_pc

definition drain_init :: drain_state where
  "drain_init = \<lparr>ds_conns = 0, ds_draining = False, ds_drained = False, ds_closing = 0,
     ds_signalling = 0, ds_pc = NotDraining\<rparr>"

definition signalDrained :: "drain_state \<Rightarrow> drain_state" where
  "signalDrained s = s\<lparr>ds_drained := True\<rparr>"

datatype http_conn_state = StateNew | StateActive | StateIdle | StateHijacked | StateClosed

text \<open>\<open>connState\<close>, up to the load of \<open>draining\<close>.\<close>

definition connState :: "http_conn_state \<Rightarrow> drain_state \<Rightarrow> drain_state" where
  "connState state s =
     (case state of
        StateNew \<Rightarrow> s\<lparr>ds_conns := ds_conns s + 1\<rparr>
      | StateClosed \<Rightarrow> (let n = ds_conns s - 1 in
          s\<lparr>ds_conns := n, ds_closing := (if n \<le> 0 then Suc (ds_closing s) else ds_closing s)\<rparr>)
      | StateHijacked \<Rightarrow> (let n = ds_conns s - 1 in
          s\<lparr>ds_conns := n, ds_closing := (if n \<le> 0 then Suc (ds_closing s) else ds_closing s)\<rparr>)
      | _ \<Rightarrow> s)"

definition closing_load :: "drain_state \<Rightarrow> drain_state" where
  "closing_load s = s\<lparr>ds_closing := ds_closing s - 1,
     ds_signalling := (if ds_draining s then Suc (ds_signalling s) else ds_signalling s)\<rparr>"

definition closing_signal :: "drain_state \<Rightarrow> drain_state" where
  "closing_signal s = signalDrained (s\<lparr>ds_signalling := ds_signalling s - 1\<rparr>)"

text \<open>\<open>Drain\<close> up to its select: store the flag, load the count, signal.\<close>

definition drain_step :: "drain_state \<Rightarrow> drain_state" where
  "drain_step s =
     (case ds_pc s of
        NotDraining \<Rightarrow> s\<lparr>ds_draining := True, ds_pc := FlagStored\<rparr>
      | FlagStored \<Rightarrow> s\<lparr>ds_pc := (if ds_conns s \<le> 0 then SawNone else Waiting)\<rparr>
      | SawNone \<Rightarrow> signalDrained (s\<lparr>ds_pc := Waiting\<rparr>)
      | Waiting \<Rightarrow> s)"

inductive drain_reach :: "drain_state \<Rightarrow> bool" where
  init: "drain_reach drain_init"
| conn: "drain_reach s \<Longrightarrow> drain_reach (connState state s)"
| load: "drain_reach s \<Longrightarrow> 0 < ds_closing s \<Longrightarrow> drain_reach (closing_load s)"
| signal: "drain_reach s \<Longrightarrow> 0 < ds_signalling s \<Longrightarrow> drain_reach (closing_signal s)"
| drain: "drain_reach s \<Longrightarrow> drain_reach (drain_step s)"

definition drain_inv :: "drain_state \<Rightarrow> bool" where
  "drain_inv s \<longleftrightarrow>
     (ds_draining s \<longleftrightarrow> ds_pc s \<noteq> NotDraining) \<and>
     (ds_drained s \<or> 0 < ds_signalling s \<or> ds_pc s = SawNone \<longrightarrow> ds_draining s) \<and>
     (ds_pc s = Waiting \<and> ds_conns s \<le> 0 \<longrightarrow> ds_drained s \<or> 0 < ds_closing s \<or> 0 < ds_signalling s)"

lemma drain_inv_reach: "drain_reach s \<Longrightarrow> drain_inv s"
proof (induction rule: drain_reach.induct)
  case init
  then show ?case by (simp add: drain_inv_def drain_init_def)
next
  case (conn s state)
  then show ?case by (cases state) (auto simp: drain_inv_def connState_def Let_def)
next
  case (load s)
  then show ?case by (auto simp: drain_inv_def closing_load_def)
next
  case (signal s)
  then show ?case by (auto simp: drain_inv_def closing_signal_def signalDrained_def)
next
  case (drain s)
  then show ?case by (cases "ds_pc s") (auto simp: drain_inv_def drain_step_def signalDrained_def)
qed

text \<open>
  C20: However the callbacks of the connections interleave with \<open>Drain\<close>, the signal that the last
  connection is gone is never lost: once \<open>Drain\<close> waits, no callback is still running and no
  connection is open, the signal has been given, so \<open>Drain\<close> does not wait for its timeout in vain.
  And it is never given before draining began.
\<close>

theorem drain_signal_not_lost:
  assumes "drain_reach s"
  shows "(if ds_drained s then ds_draining s else True) \<and>
    (if ds_pc s = Waiting \<and> ds_conns s \<le> 0 \<and> ds_closing s = 0 \<and> ds_signalling s = 0
     then ds_drained s else True)"
  using drain_inv_reach [OF assms] by (auto simp: drain_inv_def)

definition sample_drain :: drain_state where
  "sample_drain = closing_signal (closing_load (connState StateClosed
     (drain_step (drain_step (connState StateNew drain_init)))))"

lemma sample_drain_reach: "drain_reach sample_drain"
  unfolding sample_drain_def
  by (intro drain_reach.intros)
    (simp_all add: drain_init_def connState_def drain_step_def closing_load_def Let_def)

theorem drain_signal_not_lost_witness: "ds_pc sample_drain = Waiting \<and> ds_drained sample_drain"
proof
  show w: "ds_pc sample_drain = Waiting"
    by (simp add: sample_drain_def drain_init_def connState_def drain_step_def closing_load_def
        closing_signal_def signalDrained_def)
  have "ds_conns sample_drain \<le> 0 \<and> ds_closing sample_drain = 0 \<and> ds_signalling sample_drain = 0"
    by (simp add: sample_drain_def drain_init_def connState_def drain_step_def closing_load_def
        closing_signal_def signalDrained_def)
  with w drain_signal_not_lost [OF sample_drain_reach] show "ds_drained sample_drain" by simp
qed

end
