(* ===== verification/Shutdown.thy ===== *)
theory Shutdown
  imports VarnishProcess Broadcast EventLoop
begin

text \<open>
  The way out of the program (\<open>main.go\<close>): the graceful drain, the orderly shutdown and the budget it
  is compared with, and the small helpers of \<open>main\<close> around start and exit. Times are nanoseconds;
  what a select receives is a list of events with the times they arrive at.
\<close>

section \<open>The drain\<close>

datatype wait_event = DelayOver | VarnishdExited | SecondSignal

datatype drain_event = Tick | PollResult "nat option" | PollExit | DeadlineFired | PollSignal

datatype drain_outcome = TimedOut | AllDrained | Abandoned | Aborted

text \<open>
  The loop of \<open>handleDrain\<close>: how it ended and when, with the times at which polls were started.
  \<open>inFlight\<close> is \<open>pollInFlight\<close>; a poll that failed has no count.
\<close>

fun drain_loop :: "int \<Rightarrow> bool \<Rightarrow> (int \<times> drain_event) list \<Rightarrow> (drain_outcome \<times> int) option \<times> int list" where
  "drain_loop deadlineAt inFlight [] = (None, [])"
| "drain_loop deadlineAt inFlight ((now, ev) # evs) =
     (case ev of
        Tick \<Rightarrow>
          (if now \<ge> deadlineAt then (Some (TimedOut, now), [])
           else if inFlight then drain_loop deadlineAt inFlight evs
           else (case drain_loop deadlineAt True evs of (r, polls) \<Rightarrow> (r, now # polls)))
      | PollResult None \<Rightarrow> drain_loop deadlineAt False evs
      | PollResult (Some n) \<Rightarrow>
          (if n = 0 then (Some (AllDrained, now), []) else drain_loop deadlineAt False evs)
      | PollExit \<Rightarrow> (Some (Abandoned, now), [])
      | DeadlineFired \<Rightarrow> (Some (TimedOut, now), [])
      | PollSignal \<Rightarrow> (Some (Aborted, now), []))"

text \<open>
  \<open>handleDrain\<close>: the first wait ends with an event, the polling starts from there. The result is
  when it returned, the outcome of the polling if there was any, and the reasons of the events
  recorded. \<open>None\<close> says that it is still waiting for the events listed.
\<close>

definition handleDrain :: "int \<Rightarrow> int \<times> wait_event \<Rightarrow> (int \<times> drain_event) list \<Rightarrow>
    (int \<times> drain_outcome option \<times> string list) option" where
  "handleDrain drainTimeout first evs =
     (case first of
        (now, VarnishdExited) \<Rightarrow> Some (now, None, [''DrainStarted''])
      | (now, SecondSignal) \<Rightarrow> Some (now, None, [''DrainStarted''])
      | (now, DelayOver) \<Rightarrow>
          if drainTimeout \<le> 0 then Some (now, None, [''DrainStarted''])
          else (case fst (drain_loop (now + drainTimeout) False evs) of
                  None \<Rightarrow> None
                | Some (TimedOut, t) \<Rightarrow> Some (t, Some TimedOut, [''DrainStarted'', ''DrainTimeout''])
                | Some (AllDrained, t) \<Rightarrow> Some (t, Some AllDrained, [''DrainStarted'', ''DrainCompleted''])
                | Some (out, t) \<Rightarrow> Some (t, Some out, [''DrainStarted''])))"

text \<open>
  The events in the order of their times, the deadline's timer among them: it fires at its time, and
  nothing later than it is received before it.
\<close>

definition drain_timeline :: "int \<Rightarrow> (int \<times> drain_event) list \<Rightarrow> bool" where
  "drain_timeline deadlineAt evs \<longleftrightarrow> sorted (map fst evs) \<and> (deadlineAt, DeadlineFired) \<in> set evs"

lemma drain_loop_returns:
  "drain_timeline d evs \<Longrightarrow> \<exists>out t. fst (drain_loop d f evs) = Some (out, t) \<and> t \<le> d"
proof (induction d f evs rule: drain_loop.induct)
  case (1 d f)
  then show ?case by (simp add: drain_timeline_def)
next
  case (2 d f now ev evs)
  have le: "now \<le> d" using "2.prems" by (fastforce simp: drain_timeline_def)
  have tl: "ev \<noteq> DeadlineFired \<Longrightarrow> drain_timeline d evs" using "2.prems" by (auto simp: drain_timeline_def)
  show ?case
  proof (cases ev)
    case Tick
    then show ?thesis using "2.IH"(1,2) tl le
      by (cases "now \<ge> d"; cases f) (auto split: prod.splits)
  next
    case (PollResult c)
    then show ?thesis using "2.IH"(3,4) tl le by (cases c) auto
  qed (use le in auto)
qed

text \<open>The loop reports all connections drained only after a poll that counted none.\<close>

lemma drain_loop_completed:
  "fst (drain_loop d f evs) = Some (AllDrained, t) \<Longrightarrow> (t, PollResult (Some 0)) \<in> set evs"
proof (induction d f evs rule: drain_loop.induct)
  case (2 d f now ev evs)
  show ?case
  proof (cases ev)
    case Tick
    then show ?thesis using 2 by (cases "now \<ge> d"; cases f) (auto split: prod.splits)
  next
    case (PollResult c)
    then show ?thesis using 2 by (cases c) (auto split: if_splits)
  qed (use 2 in auto)
qed simp

text \<open>A signal or the exit of varnishd ends it at once.\<close>

lemma drain_loop_stops:
  assumes "ev = PollSignal \<or> ev = PollExit" and "(t, ev) \<in> set evs" and "sorted (map fst evs)"
  shows "\<exists>out t'. fst (drain_loop d f evs) = Some (out, t') \<and> t' \<le> t"
  using assms
proof (induction d f evs rule: drain_loop.induct)
  case (2 d f now ev' evs)
  have le: "now \<le> t" using "2.prems"(2,3) by auto
  have tl: "(t, ev) \<in> set evs \<or> ev' = ev" "sorted (map fst evs)" using "2.prems"(2,3) by auto
  show ?case
  proof (cases ev')
    case Tick
    then show ?thesis using 2 le tl by (cases "now \<ge> d"; cases f) (auto split: prod.splits)
  next
    case (PollResult c)
    then show ?thesis using 2 le tl by (cases c) auto
  qed (use le in auto)
qed simp

text \<open>
  C27: The polling of the drain never outlives its deadline, whatever varnishstat does: with the events
  in the order of time and the deadline's timer among them, the loop returns, at the latest at the
  deadline, also when no poll ever answers. A second signal or the exit of varnishd ends it no later
  than it arrives, and it reports all connections drained only when a poll counted no session.
\<close>

theorem drain_ends_in_time:
  assumes "drain_timeline deadlineAt evs"
  shows "\<exists>out t. fst (drain_loop deadlineAt inFlight evs) = Some (out, t) \<and> t \<le> deadlineAt \<and>
    (\<forall>u ev. (ev = PollSignal \<or> ev = PollExit) \<and> (u, ev) \<in> set evs \<longrightarrow> t \<le> u) \<and>
    (out = AllDrained \<longrightarrow> (t, PollResult (Some 0)) \<in> set evs)"
proof -
  obtain out t where r: "fst (drain_loop deadlineAt inFlight evs) = Some (out, t)" "t \<le> deadlineAt"
    using drain_loop_returns [OF assms] by blast
  have sorted: "sorted (map fst evs)" using assms by (simp add: drain_timeline_def)
  have "t \<le> u" if "ev = PollSignal \<or> ev = PollExit" "(u, ev) \<in> set evs" for u ev
    using drain_loop_stops [OF that sorted, of deadlineAt inFlight] r(1) by simp
  moreover have "out = AllDrained \<longrightarrow> (t, PollResult (Some 0)) \<in> set evs"
    using drain_loop_completed r(1) by blast
  ultimately show ?thesis using r by blast
qed

definition sample_timeline :: "(int \<times> drain_event) list" where
  "sample_timeline = [(1, Tick), (2, Tick), (3, PollResult (Some 4)), (4, Tick), (10, DeadlineFired)]"

theorem drain_ends_in_time_witness:
  "\<exists>out t. fst (drain_loop 10 False sample_timeline) = Some (out, t) \<and> t \<le> 10 \<and> out = TimedOut"
proof -
  have "drain_timeline 10 sample_timeline" by (simp add: drain_timeline_def sample_timeline_def)
  from drain_ends_in_time [OF this, of False] obtain out t where
    "fst (drain_loop 10 False sample_timeline) = Some (out, t)" "t \<le> 10" by blast
  moreover from this have "out = TimedOut" by (simp add: sample_timeline_def)
  ultimately show ?thesis by blast
qed

text \<open>Polls do not pile up: no start but the first without a result since the one before.\<close>

lemma polls_bounded:
  "length (snd (drain_loop d f evs)) \<le>
     length (filter (\<lambda>e. case snd e of PollResult _ \<Rightarrow> True | _ \<Rightarrow> False) evs) + (if f then 0 else 1)"
proof (induction d f evs rule: drain_loop.induct)
  case (2 d f now ev evs)
  show ?case
  proof (cases ev)
    case Tick
    then show ?thesis using 2 by (cases "now \<ge> d"; cases f) (auto split: prod.splits)
  next
    case (PollResult c)
    then show ?thesis using 2 by (cases c) auto
  qed auto
qed simp


section \<open>The orderly shutdown\<close>

text \<open>
  What \<open>runShutdown\<close> does, in order. The drain's result says when it ended; the other durations are
  inputs: of marking the backend sick, of draining the broadcaster, of stopping varnishncsa.
\<close>

datatype action = MarkSick | Drained | BroadcastDrained | NCSAStopped | Cancelled | Forwarded signal | Exited

record shutdown_config =
  sc_Drain :: bool
  sc_DrainDelay :: int
  sc_DrainTimeout :: int
  sc_Broadcast :: bool
  sc_BroadcastDrainTimeout :: int
  sc_BroadcastShutdownTimeout :: int
  sc_NCSA :: bool
  sc_Metrics :: bool
  sc_ShutdownTimeout :: int

record shutdown_run =
  sr_sick :: int
  sr_wait :: "int \<times> wait_event"
  sr_polls :: "(int \<times> drain_event) list"
  sr_bcast :: int
  sr_ncsa :: int
  sr_exit :: "int option"
  sr_kill :: int
  sr_err :: "string option"
  sr_metrics :: int

text \<open>The time the drain takes after the backend was marked; the waits start at zero.\<close>

definition drain_time :: "shutdown_config \<Rightarrow> shutdown_run \<Rightarrow> int option" where
  "drain_time c r = map_option fst (handleDrain (sc_DrainTimeout c) (sr_wait r) (sr_polls r))"

text \<open>
  The last wait: \<open>afterOrNever\<close> fires after a positive timeout only. \<open>sr_exit\<close> is when varnishd exits
  after the signal, \<open>None\<close> when that signal does not end it, \<open>sr_kill\<close> how long it lives on after a
  SIGKILL.
\<close>

definition await_exit :: "shutdown_config \<Rightarrow> shutdown_run \<Rightarrow> (action list \<times> int) option" where
  "await_exit c r =
     (case sr_exit r of
        Some t \<Rightarrow>
          (if sc_ShutdownTimeout c \<le> 0 \<or> t \<le> sc_ShutdownTimeout c then Some ([Exited], t)
           else Some ([Forwarded SIGKILL, Exited], sc_ShutdownTimeout c + sr_kill r))
      | None \<Rightarrow>
          (if sc_ShutdownTimeout c \<le> 0 then None
           else Some ([Forwarded SIGKILL, Exited], sc_ShutdownTimeout c + sr_kill r)))"

text \<open>
  \<open>runShutdown\<close>: the exit code, the actions and the time it took; \<open>None\<close> when it never returns.
\<close>

definition runShutdown :: "shutdown_config \<Rightarrow> shutdown_run \<Rightarrow> signal \<Rightarrow> (int \<times> action list \<times> int) option" where
  "runShutdown c r sig =
     (case (if sc_Drain c then map_option (\<lambda>t. ([MarkSick, Drained], sr_sick r + t)) (drain_time c r)
            else Some ([], 0)) of
        None \<Rightarrow> None
      | Some (as1, t1) \<Rightarrow>
          (let sig' = (if sig = SIGHUP then SIGTERM else sig);
               (as2, t2) = (if sc_Broadcast c then ([BroadcastDrained], sr_bcast r) else ([], 0));
               (as3, t3) = (if sc_NCSA c then ([NCSAStopped], sr_ncsa r) else ([], 0))
           in case await_exit c r of
                None \<Rightarrow> None
              | Some (as4, t4) \<Rightarrow>
                  Some (if sr_err r = None then 0 else 1,
                        as1 @ as2 @ as3 @ [Cancelled, Forwarded sig'] @ as4, t1 + t2 + t3 + t4)))"

section \<open>The budget\<close>

definition second :: int where
  "second = 10 ^ 9"

definition ncsaStopBudget :: int where
  "ncsaStopBudget = 5 * second"

definition metricsShutdownTimeout :: "int \<Rightarrow> int" where
  "metricsShutdownTimeout shutdownTimeout = (if shutdownTimeout \<le> 0 then 5 * second else shutdownTimeout)"

definition shutdownBudget :: "shutdown_config \<Rightarrow> int" where
  "shutdownBudget c =
     (if sc_ShutdownTimeout c \<le> 0 then 0
      else sc_ShutdownTimeout c
        + (if sc_Drain c then sc_DrainDelay c + sc_DrainTimeout c else 0)
        + (if sc_Broadcast c then sc_BroadcastDrainTimeout c + sc_BroadcastShutdownTimeout c else 0)
        + (if sc_NCSA c then ncsaStopBudget else 0)
        + (if sc_Metrics c then metricsShutdownTimeout (sc_ShutdownTimeout c) else 0))"

text \<open>
  \<open>gracePeriodWarning\<close>: which of the two texts it returns, if any. The grace period comes from the
  pod and its product with a second wraps around as a \<open>time.Duration\<close>; the durations of the flags are
  taken to add up to less than 292 years.
\<close>

definition duration :: "int \<Rightarrow> int" where
  "duration i = (i + 2 ^ 63) mod 2 ^ 64 - 2 ^ 63"

datatype grace_warning = NoWarning | UnboundedShutdown | BudgetExceeds

definition gracePeriodWarning :: "shutdown_config \<Rightarrow> int option \<Rightarrow> grace_warning" where
  "gracePeriodWarning c grace =
     (case grace of
        None \<Rightarrow> NoWarning
      | Some g \<Rightarrow>
          if sc_ShutdownTimeout c \<le> 0 then UnboundedShutdown
          else if shutdownBudget c > duration (g * second) then BudgetExceeds else NoWarning)"

lemma duration_id: "- (2 ^ 63) \<le> i \<Longrightarrow> i < 2 ^ 63 \<Longrightarrow> duration i = i"
  by (simp add: duration_def)

lemma gracePeriodWarning_exact:
  assumes "0 < sc_ShutdownTimeout c" and "0 \<le> g" and "g \<le> 9223372036"
  shows "gracePeriodWarning c (Some g) = (if g * second < shutdownBudget c then BudgetExceeds else NoWarning)"
  using assms by (simp add: gracePeriodWarning_def second_def duration_id)

text \<open>
  The durations a run can have under a configuration: the first wait ends at the delay at the latest,
  the polling has its deadline's timer, the broadcaster and varnishncsa keep to their timeouts, and
  so does the metrics server.
\<close>

definition run_within :: "shutdown_config \<Rightarrow> shutdown_run \<Rightarrow> bool" where
  "run_within c r \<longleftrightarrow>
     0 \<le> sr_sick r \<and> 0 \<le> fst (sr_wait r) \<and> fst (sr_wait r) \<le> sc_DrainDelay c \<and> 0 \<le> sc_DrainTimeout c \<and>
     drain_timeline (fst (sr_wait r) + sc_DrainTimeout c) (sr_polls r) \<and>
     0 \<le> sr_bcast r \<and> sr_bcast r \<le> sc_BroadcastDrainTimeout c + sc_BroadcastShutdownTimeout c \<and>
     0 \<le> sr_ncsa r \<and> sr_ncsa r \<le> ncsaStopBudget \<and> 0 \<le> sr_kill r \<and>
     0 \<le> sr_metrics r \<and> sr_metrics r \<le> metricsShutdownTimeout (sc_ShutdownTimeout c)"

lemma drain_time_bound:
  assumes "run_within c r"
  shows "\<exists>t. drain_time c r = Some t \<and> t \<le> sc_DrainDelay c + sc_DrainTimeout c"
proof -
  obtain now ev where w: "sr_wait r = (now, ev)" by force
  have now: "now \<le> sc_DrainDelay c" "0 \<le> sc_DrainTimeout c"
    and tl: "drain_timeline (now + sc_DrainTimeout c) (sr_polls r)"
    using assms w by (simp_all add: run_within_def)
  obtain out t where l: "fst (drain_loop (now + sc_DrainTimeout c) False (sr_polls r)) = Some (out, t)"
    "t \<le> now + sc_DrainTimeout c" using drain_loop_returns [OF tl] by blast
  show ?thesis
  proof (cases ev)
    case DelayOver
    then show ?thesis using w l now by (cases out) (auto simp: drain_time_def handleDrain_def)
  qed (use w now in \<open>auto simp: drain_time_def handleDrain_def\<close>)
qed

lemma await_exit_bound:
  assumes "0 < sc_ShutdownTimeout c" and "0 \<le> sr_kill r"
  shows "\<exists>as t. await_exit c r = Some (as, t) \<and> t \<le> sc_ShutdownTimeout c + sr_kill r"
  using assms by (auto simp: await_exit_def split: option.split)

lemma shutdown_bound:
  assumes "run_within c r" and "0 < sc_ShutdownTimeout c"
  shows "\<exists>code as t. runShutdown c r sig = Some (code, as, t) \<and>
    t + (if sc_Metrics c then sr_metrics r else 0) \<le>
      shutdownBudget c + (if sc_Drain c then sr_sick r else 0) + sr_kill r"
proof -
  obtain t1 where t1: "drain_time c r = Some t1" "t1 \<le> sc_DrainDelay c + sc_DrainTimeout c"
    using drain_time_bound [OF assms(1)] by blast
  have kill: "0 \<le> sr_kill r" using assms(1) by (simp add: run_within_def)
  obtain as4 t4 where t4: "await_exit c r = Some (as4, t4)" "t4 \<le> sc_ShutdownTimeout c + sr_kill r"
    using await_exit_bound [OF assms(2) kill] by blast
  show ?thesis
    using t1 t4 assms
    by (cases "sc_Drain c"; cases "sc_Broadcast c"; cases "sc_NCSA c"; cases "sc_Metrics c")
      (auto simp: runShutdown_def shutdownBudget_def run_within_def Let_def)
qed

text \<open>
  C28: A shutdown with a bounded wait for varnishd always returns, and it takes, with the metrics
  server's drain, no longer than the budget that is compared with the grace period of the pod, plus two
  times the budget leaves out: marking the backend sick, and the death of varnishd after a SIGKILL.
\<close>

theorem shutdown_within_budget:
  assumes "run_within c r" and "0 < sc_ShutdownTimeout c"
  shows "\<exists>code as t. runShutdown c r sig = Some (code, as, t) \<and>
    t + (if sc_Metrics c then sr_metrics r else 0) \<le>
      shutdownBudget c + (if sc_Drain c then sr_sick r else 0) + sr_kill r"
  using shutdown_bound [OF assms] .

definition sample_config :: shutdown_config where
  "sample_config = \<lparr>sc_Drain = True, sc_DrainDelay = 15 * second, sc_DrainTimeout = 0, sc_Broadcast = True,
     sc_BroadcastDrainTimeout = 30 * second, sc_BroadcastShutdownTimeout = 5 * second, sc_NCSA = False,
     sc_Metrics = True, sc_ShutdownTimeout = 30 * second\<rparr>"

definition sample_run :: shutdown_run where
  "sample_run = \<lparr>sr_sick = 60 * second, sr_wait = (15 * second, DelayOver),
     sr_polls = [(15 * second, DeadlineFired)], sr_bcast = 35 * second, sr_ncsa = 0,
     sr_exit = Some (30 * second), sr_kill = 0, sr_err = None, sr_metrics = 30 * second\<rparr>"

lemma sample_run_ok: "run_within sample_config sample_run"
  by (simp add: run_within_def sample_config_def sample_run_def drain_timeline_def second_def
      ncsaStopBudget_def metricsShutdownTimeout_def)

theorem shutdown_within_budget_witness:
  "\<exists>code as t. runShutdown sample_config sample_run SIGTERM = Some (code, as, t) \<and>
     t + 30 * second \<le> shutdownBudget sample_config + 60 * second \<and> shutdownBudget sample_config = 110 * second"
proof -
  have "0 < sc_ShutdownTimeout sample_config" by (simp add: sample_config_def second_def)
  from shutdown_within_budget [OF sample_run_ok this, of SIGTERM]
  show ?thesis
    by (simp add: sample_config_def sample_run_def shutdownBudget_def metricsShutdownTimeout_def second_def)
qed

text \<open>
  Without the first of the two extra times the bound is false: a varnishadm that hangs until its timeout
  of a minute makes the shutdown longer than its budget.
\<close>

lemma budget_misses_mark_sick:
  "\<exists>t. runShutdown sample_config sample_run SIGTERM = Some (0, [MarkSick, Drained, BroadcastDrained, Cancelled,
     Forwarded SIGTERM, Exited], t) \<and> t + sr_metrics sample_run > shutdownBudget sample_config"
  by (simp add: runShutdown_def drain_time_def handleDrain_def await_exit_def sample_config_def sample_run_def
      shutdownBudget_def metricsShutdownTimeout_def second_def)

text \<open>
  A grace period beyond 292 years wraps around to a negative duration, and the warning is given
  although every shutdown fits.
\<close>

lemma grace_period_wraps: "gracePeriodWarning sample_config (Some 9223372037) = BudgetExceeds"
  by (simp add: gracePeriodWarning_def duration_def sample_config_def shutdownBudget_def second_def
      metricsShutdownTimeout_def)

text \<open>
  The order and the result of a shutdown. The backend is marked sick and drained first, then the
  broadcaster is drained, then varnishncsa is stopped, then the context is cancelled and the signal
  forwarded, SIGHUP as SIGTERM; varnishd is killed only when it outlives a positive timeout; the last
  thing is its exit, and the exit code is one exactly when it exited with an error. With a timeout of
  zero it is never killed.
\<close>

theorem shutdown_order:
  assumes "runShutdown c r sig = Some (code, as, t)"
  shows "as = (if sc_Drain c then [MarkSick, Drained] else []) @ (if sc_Broadcast c then [BroadcastDrained] else []) @
      (if sc_NCSA c then [NCSAStopped] else []) @
      [Cancelled, Forwarded (if sig = SIGHUP then SIGTERM else sig)] @
      (if 0 < sc_ShutdownTimeout c \<and>
          (case sr_exit r of None \<Rightarrow> True | Some u \<Rightarrow> sc_ShutdownTimeout c < u)
       then [Forwarded SIGKILL] else []) @ [Exited] \<and>
    (code = 1 \<longleftrightarrow> sr_err r \<noteq> None) \<and> code \<in> {0, 1}"
proof -
  obtain as4 t4 where a4: "await_exit c r = Some (as4, t4)"
    using assms by (auto simp: runShutdown_def Let_def split: option.splits prod.splits)
  have "as4 = (if 0 < sc_ShutdownTimeout c \<and>
      (case sr_exit r of None \<Rightarrow> True | Some u \<Rightarrow> sc_ShutdownTimeout c < u)
      then [Forwarded SIGKILL] else []) @ [Exited]"
    using a4 by (auto simp: await_exit_def split: option.splits if_splits)
  then show ?thesis
    using assms a4 by (auto simp: runShutdown_def Let_def split: option.splits if_splits)
qed

theorem shutdown_order_witness:
  "\<exists>t. runShutdown sample_config sample_run SIGHUP = Some (0, [MarkSick, Drained, BroadcastDrained, Cancelled,
     Forwarded SIGTERM, Exited], t)"
proof -
  obtain code as t where r: "runShutdown sample_config sample_run SIGHUP = Some (code, as, t)"
    by (simp add: runShutdown_def drain_time_def handleDrain_def await_exit_def sample_config_def
        sample_run_def second_def)
  show ?thesis using shutdown_order [OF r] r by (auto simp: sample_config_def sample_run_def second_def)
qed

end
