(* ===== verification/JsonScanner.thy ===== *)
theory JsonScanner
  imports GoText
begin

text \<open>
  The JSON scanner of \<open>internal/telemetry/varnishstat_parser.go\<close>. A \<open>jsonScanner\<close> is the text from
  its position on: an operation takes that rest and returns the rest after what it read, or an error.
  Errors are told apart by their kind; the positions and the wrapping in their messages are left out.
  After an error the scanner is never used again, so its position is not part of the result.
  \<open>skipValue\<close> and the operations it calls recurse on the nesting and on the length of the text; they
  get fuel, and \<open>skip_value_fuel\<close> shows that what the callers give is always enough.
\<close>

section \<open>Tokens\<close>

datatype scan_error =
    ExpectedByte char | ExpectedQuote | UnterminatedString | BadEscape | BadNumber | BadLiteral string
  | UnterminatedObject | UnterminatedArray | UnexpectedEndSkip | UnterminatedCounterMap
  | NoCountersKey | V7UnterminatedObject | NestingTooDeep | ExpectedComma char | OutOfFuel

definition json_space :: "char \<Rightarrow> bool" where
  "json_space c \<longleftrightarrow> c = CHR '' '' \<or> c = CHR 0x09 \<or> c = CHR 0x0A \<or> c = CHR 0x0D"

definition skipWhitespace :: "string \<Rightarrow> string" where
  "skipWhitespace s = dropWhile json_space s"

definition expectByte :: "char \<Rightarrow> string \<Rightarrow> scan_error + string" where
  "expectByte b s =
     (case skipWhitespace s of
        [] \<Rightarrow> Inl (ExpectedByte b)
      | c # r \<Rightarrow> if c \<noteq> b then Inl (ExpectedByte b) else Inr r)"

definition isHexDigit :: "char \<Rightarrow> bool" where
  "isHexDigit c \<longleftrightarrow> (CHR ''0'' \<le> c \<and> c \<le> CHR ''9'') \<or> (CHR ''a'' \<le> c \<and> c \<le> CHR ''f'') \<or>
     (CHR ''A'' \<le> c \<and> c \<le> CHR ''F'')"

definition hex_val :: "char \<Rightarrow> nat option" where
  "hex_val c =
     (if CHR ''0'' \<le> c \<and> c \<le> CHR ''9'' then Some (byte c - 48)
      else if CHR ''a'' \<le> c \<and> c \<le> CHR ''f'' then Some (byte c - 97 + 10)
      else if CHR ''A'' \<le> c \<and> c \<le> CHR ''F'' then Some (byte c - 65 + 10)
      else None)"

text \<open>\<open>parseHex4\<close>: shifting by four bits and setting them is \<open>16 * n + v\<close> for a digit below 16.\<close>

fun hex_loop :: "nat \<Rightarrow> string \<Rightarrow> nat option" where
  "hex_loop n [] = Some n"
| "hex_loop n (c # cs) = (case hex_val c of None \<Rightarrow> None | Some v \<Rightarrow> hex_loop (16 * n + v) cs)"

definition parseHex4 :: "string \<Rightarrow> nat option" where
  "parseHex4 b = hex_loop 0 b"

text \<open>\<open>WriteRune\<close>: the UTF-8 encoding, and that of the replacement character for a surrogate.\<close>

definition rune_error :: string where
  "rune_error = map char_of [239, 191, 189 :: nat]"

definition encode_rune :: "nat \<Rightarrow> string" where
  "encode_rune r =
     (if r < 128 then [char_of r]
      else if r < 2048 then map char_of [192 + r div 64, 128 + r mod 64]
      else if 55296 \<le> r \<and> r < 57344 \<or> 1114112 \<le> r then rune_error
      else if r < 65536 then map char_of [224 + r div 4096, 128 + r div 64 mod 64, 128 + r mod 64]
      else map char_of [240 + r div 262144, 128 + r div 4096 mod 64, 128 + r div 64 mod 64, 128 + r mod 64])"

text \<open>The rune of a low surrogate that follows, and what follows it.\<close>

definition low_surrogate :: "string \<Rightarrow> (nat \<times> string) option" where
  "low_surrogate s =
     (case s of
        b # u # h \<Rightarrow>
          (if b = CHR 0x5C \<and> u = CHR ''u'' \<and> 4 \<le> length h then
             (case parseHex4 (take 4 h) of
                Some r2 \<Rightarrow> if 56320 \<le> r2 \<and> r2 \<le> 57343 then Some (r2, drop 4 h) else None
              | None \<Rightarrow> None)
           else None)
      | _ \<Rightarrow> None)"

lemma low_surrogate_shorter: "low_surrogate s = Some (r, t) \<Longrightarrow> length t < length s"
  by (auto simp: low_surrogate_def split: list.splits if_splits option.splits)

definition simple_escape :: "char \<Rightarrow> char" where
  "simple_escape e =
     (if e = CHR ''b'' then CHR 0x08 else if e = CHR ''f'' then CHR 0x0C else if e = CHR ''n'' then CHR 0x0A
      else if e = CHR ''r'' then CHR 0x0D else if e = CHR ''t'' then CHR 0x09 else e)"

function unescapeJSONString :: "string \<Rightarrow> string" where
  "unescapeJSONString [] = []"
| "unescapeJSONString (c # cs) =
     (if c \<noteq> CHR 0x5C then c # unescapeJSONString cs
      else case cs of
        [] \<Rightarrow> []
      | e # r \<Rightarrow>
          if e \<noteq> CHR ''u'' then simple_escape e # unescapeJSONString r
          else if length r < 4 then e # unescapeJSONString r
          else case parseHex4 (take 4 r) of
            None \<Rightarrow> rune_error @ unescapeJSONString (drop 4 r)
          | Some r1 \<Rightarrow>
              (case (if 55296 \<le> r1 \<and> r1 \<le> 56319 then low_surrogate (drop 4 r) else None) of
                 Some (r2, t) \<Rightarrow>
                   encode_rune (65536 + (r1 - 55296) * 1024 + (r2 - 56320)) @ unescapeJSONString t
               | None \<Rightarrow> encode_rune r1 @ unescapeJSONString (drop 4 r)))"
  by pat_completeness auto
termination
  by (relation "measure length") (auto split: if_splits dest!: low_surrogate_shorter)

text \<open>\<open>skipStringEscape\<close>, after the backslash.\<close>

definition skipStringEscape :: "string \<Rightarrow> scan_error + string" where
  "skipStringEscape s =
     (case s of
        [] \<Rightarrow> Inl UnterminatedString
      | e # r \<Rightarrow>
          if e \<noteq> CHR ''u'' then Inr r
          else if length r < 4 then Inl UnterminatedString
          else if list_all isHexDigit (take 4 r) then Inr (drop 4 r)
          else Inl BadEscape)"

lemma skipStringEscape_shorter: "skipStringEscape s = Inr r \<Longrightarrow> length r < length s"
  by (auto simp: skipStringEscape_def split: list.splits if_splits)

text \<open>The loop of \<open>scanString\<close>: whether there was an escape, and the rest after the closing quote.\<close>

function string_close :: "bool \<Rightarrow> string \<Rightarrow> scan_error + bool \<times> string" where
  "string_close esc [] = Inl UnterminatedString"
| "string_close esc (c # cs) =
     (if c = CHR 0x5C then
        (case skipStringEscape cs of Inl e \<Rightarrow> Inl e | Inr r \<Rightarrow> string_close True r)
      else if c = CHR 0x22 then Inr (esc, cs)
      else string_close esc cs)"
  by pat_completeness auto
termination
  by (relation "measure (length \<circ> snd)") (auto dest!: skipStringEscape_shorter)

definition scanString :: "string \<Rightarrow> scan_error + string \<times> string" where
  "scanString s =
     (case s of
        [] \<Rightarrow> Inl ExpectedQuote
      | c # body \<Rightarrow>
          if c \<noteq> CHR 0x22 then Inl ExpectedQuote
          else (case string_close False body of
                  Inl e \<Rightarrow> Inl e
                | Inr (esc, rest) \<Rightarrow>
                    (let raw = take (length body - length rest - 1) body
                     in Inr (if esc then unescapeJSONString raw else raw, rest))))"

definition skip_digits :: "string \<Rightarrow> string" where
  "skip_digits s = dropWhile is_digit s"

definition skip_sign :: "char set \<Rightarrow> string \<Rightarrow> string" where
  "skip_sign signs s = (case s of [] \<Rightarrow> [] | c # r \<Rightarrow> if c \<in> signs then r else s)"

text \<open>The three parts of a number.\<close>

definition skip_fraction :: "string \<Rightarrow> string" where
  "skip_fraction s = (case s of [] \<Rightarrow> [] | c # r \<Rightarrow> if c = CHR ''.'' then skip_digits r else s)"

definition skip_exponent :: "string \<Rightarrow> string" where
  "skip_exponent s =
     (case s of
        [] \<Rightarrow> []
      | c # r \<Rightarrow> if c = CHR ''e'' \<or> c = CHR ''E'' then skip_digits (skip_sign {CHR ''+'', CHR ''-''} r) else s)"

definition scanNumber :: "string \<Rightarrow> scan_error + string \<times> string" where
  "scanNumber s =
     (let s1 = skip_sign {CHR ''-''} s
      in if s1 = [] then Inl BadNumber
         else (let s2 = skip_exponent (skip_fraction (skip_digits s1))
               in if length s2 = length s then Inl BadNumber
                  else Inr (take (length s - length s2) s, s2)))"

definition skipLiteral :: "string \<Rightarrow> string \<Rightarrow> scan_error + string" where
  "skipLiteral lit s = (if prefix lit s then Inr (drop (length lit) s) else Inl (BadLiteral lit))"

section \<open>Skipping a value\<close>

text \<open>The caller that ignores what was read.\<close>

definition rest_of :: "scan_error + 'a \<times> string \<Rightarrow> scan_error + string" where
  "rest_of res = (case res of Inl e \<Rightarrow> Inl e | Inr (x, rest) \<Rightarrow> Inr rest)"

lemma rest_of_iff [simp]:
  "rest_of res = Inl e \<longleftrightarrow> res = Inl e" "rest_of res = Inr r \<longleftrightarrow> (\<exists>x. res = Inr (x, r))"
  by (auto simp: rest_of_def split: sum.splits)

definition maxNestingDepth :: nat where
  "maxNestingDepth = 1000"

text \<open>
  \<open>depth\<close> is the nesting the scanner is in. The loops of \<open>skipObject\<close> and \<open>skipArray\<close> start after the
  opening bracket and the test for an empty object or array.
\<close>

function (sequential) skipValue :: "nat \<Rightarrow> nat \<Rightarrow> string \<Rightarrow> scan_error + string"
  and skipObject :: "nat \<Rightarrow> nat \<Rightarrow> string \<Rightarrow> scan_error + string"
  and skipArray :: "nat \<Rightarrow> nat \<Rightarrow> string \<Rightarrow> scan_error + string"
  and object_loop :: "nat \<Rightarrow> nat \<Rightarrow> string \<Rightarrow> scan_error + string"
  and array_loop :: "nat \<Rightarrow> nat \<Rightarrow> string \<Rightarrow> scan_error + string"
where
  "skipValue 0 depth s = Inl OutOfFuel"
| "skipValue (Suc n) depth s =
     (case skipWhitespace s of
        [] \<Rightarrow> Inl UnexpectedEndSkip
      | c # r \<Rightarrow>
          if c = CHR 0x22 then rest_of (scanString (c # r))
          else if c = CHR ''{'' then skipObject n depth (c # r)
          else if c = CHR ''['' then skipArray n depth (c # r)
          else if c = CHR ''t'' then skipLiteral ''true'' (c # r)
          else if c = CHR ''f'' then skipLiteral ''false'' (c # r)
          else if c = CHR ''n'' then skipLiteral ''null'' (c # r)
          else rest_of (scanNumber (c # r)))"
| "skipObject 0 depth s = Inl OutOfFuel"
| "skipObject (Suc n) depth s =
     (if depth + 1 > maxNestingDepth then Inl NestingTooDeep
      else case skipWhitespace (tl s) of
        [] \<Rightarrow> object_loop n (depth + 1) []
      | c # r \<Rightarrow> if c = CHR ''}'' then Inr r else object_loop n (depth + 1) (c # r))"
| "skipArray 0 depth s = Inl OutOfFuel"
| "skipArray (Suc n) depth s =
     (if depth + 1 > maxNestingDepth then Inl NestingTooDeep
      else case skipWhitespace (tl s) of
        [] \<Rightarrow> array_loop n (depth + 1) []
      | c # r \<Rightarrow> if c = CHR '']'' then Inr r else array_loop n (depth + 1) (c # r))"
| "object_loop 0 depth s = Inl OutOfFuel"
| "object_loop (Suc n) depth s =
     (case scanString (skipWhitespace s) of
        Inl e \<Rightarrow> Inl e
      | Inr (key, s1) \<Rightarrow>
          (case expectByte (CHR '':'') s1 of
             Inl e \<Rightarrow> Inl e
           | Inr s2 \<Rightarrow>
               (case skipValue n depth s2 of
                  Inl e \<Rightarrow> Inl e
                | Inr s3 \<Rightarrow>
                    (case skipWhitespace s3 of
                       [] \<Rightarrow> Inl UnterminatedObject
                     | c # r \<Rightarrow>
                         if c = CHR ''}'' then Inr r
                         else if c = CHR '','' then object_loop n depth r
                         else Inl (ExpectedComma (CHR ''}''))))))"
| "array_loop 0 depth s = Inl OutOfFuel"
| "array_loop (Suc n) depth s =
     (case skipValue n depth s of
        Inl e \<Rightarrow> Inl e
      | Inr s3 \<Rightarrow>
          (case skipWhitespace s3 of
             [] \<Rightarrow> Inl UnterminatedArray
           | c # r \<Rightarrow>
               if c = CHR '']'' then Inr r
               else if c = CHR '','' then array_loop n depth r
               else Inl (ExpectedComma (CHR '']''))))"
  by pat_completeness auto
termination
  by (relation "measure (case_sum (case_sum fst fst) (case_sum fst (case_sum fst fst)))") auto

definition skip_value :: "nat \<Rightarrow> string \<Rightarrow> scan_error + string" where
  "skip_value depth s = skipValue (3 * length s + 3) depth s"

section \<open>Progress\<close>

text \<open>Every operation that succeeds has read something, so the loops over the text end.\<close>

lemma skipWhitespace_le: "length (skipWhitespace s) \<le> length s"
  by (simp add: skipWhitespace_def length_dropWhile_le)

lemma skipWhitespace_cons: "skipWhitespace s = c # r \<Longrightarrow> length r < length s"
  using skipWhitespace_le [of s] by simp

lemma expectByte_shorter: "expectByte b s = Inr r \<Longrightarrow> length r < length s"
  by (auto simp: expectByte_def dest: skipWhitespace_cons split: list.splits if_splits)

lemma string_close_shorter: "string_close esc s = Inr (e, r) \<Longrightarrow> length r < length s"
proof (induction esc s rule: string_close.induct)
  case (2 esc c cs)
  then show ?case
    by (auto split: if_splits sum.splits dest: skipStringEscape_shorter)
qed simp

lemma scanString_shorter: "scanString s = Inr (x, r) \<Longrightarrow> length r < length s"
  by (auto simp: scanString_def Let_def dest: string_close_shorter split: list.splits if_splits sum.splits)

lemma skip_digits_le: "length (skip_digits s) \<le> length s"
  by (simp add: skip_digits_def length_dropWhile_le)

lemma skip_sign_le: "length (skip_sign signs s) \<le> length s"
  by (simp add: skip_sign_def split: list.splits)

lemma skip_fraction_le: "length (skip_fraction s) \<le> length s"
  by (auto simp: skip_fraction_def split: list.splits intro: le_SucI [OF skip_digits_le])

lemma skip_exponent_le: "length (skip_exponent s) \<le> length s"
  by (auto simp: skip_exponent_def split: list.splits intro: le_SucI [OF le_trans [OF skip_digits_le skip_sign_le]])

lemma scanNumber_shorter: "scanNumber s = Inr (x, r) \<Longrightarrow> length r < length s"
proof -
  assume "scanNumber s = Inr (x, r)"
  then have "r = skip_exponent (skip_fraction (skip_digits (skip_sign {CHR ''-''} s)))" "length r \<noteq> length s"
    by (auto simp: scanNumber_def Let_def split: if_splits)
  moreover have "length (skip_exponent (skip_fraction (skip_digits (skip_sign {CHR ''-''} s)))) \<le> length s"
    by (meson le_trans skip_exponent_le skip_fraction_le skip_digits_le skip_sign_le)
  ultimately show ?thesis by simp
qed

lemma skipLiteral_shorter: "skipLiteral lit s = Inr r \<Longrightarrow> lit \<noteq> [] \<Longrightarrow> length r < length s"
  by (auto simp: skipLiteral_def prefix_def split: if_splits)

lemmas token_shorter = expectByte_shorter scanString_shorter scanNumber_shorter skipLiteral_shorter
  skipWhitespace_cons

text \<open>The successful runs of the loops and of the operations, taken apart.\<close>

lemma object_loop_Inr:
  assumes "object_loop (Suc n) d s = Inr r"
  obtains key s1 s2 s3 c t where "scanString (skipWhitespace s) = Inr (key, s1)"
    and "expectByte (CHR '':'') s1 = Inr s2" and "skipValue n d s2 = Inr s3" and "skipWhitespace s3 = c # t"
    and "c = CHR ''}'' \<and> r = t \<or> c = CHR '','' \<and> object_loop n d t = Inr r"
  using assms by (auto split: sum.splits list.splits if_splits)

lemma array_loop_Inr:
  assumes "array_loop (Suc n) d s = Inr r"
  obtains s3 c t where "skipValue n d s = Inr s3" and "skipWhitespace s3 = c # t"
    and "c = CHR '']'' \<and> r = t \<or> c = CHR '','' \<and> array_loop n d t = Inr r"
  using assms by (auto split: sum.splits list.splits if_splits)

lemma skipObject_Inr:
  assumes "skipObject (Suc n) d s = Inr r"
  obtains "d < maxNestingDepth" and "skipWhitespace (tl s) = CHR ''}'' # r"
  | c t where "d < maxNestingDepth" and "skipWhitespace (tl s) = c # t" and "c \<noteq> CHR ''}''"
      and "object_loop n (Suc d) (c # t) = Inr r"
  | "d < maxNestingDepth" and "skipWhitespace (tl s) = []" and "object_loop n (Suc d) [] = Inr r"
  using assms by (auto split: list.splits if_splits)

lemma skipArray_Inr:
  assumes "skipArray (Suc n) d s = Inr r"
  obtains "d < maxNestingDepth" and "skipWhitespace (tl s) = CHR '']'' # r"
  | c t where "d < maxNestingDepth" and "skipWhitespace (tl s) = c # t" and "c \<noteq> CHR '']''"
      and "array_loop n (Suc d) (c # t) = Inr r"
  | "d < maxNestingDepth" and "skipWhitespace (tl s) = []" and "array_loop n (Suc d) [] = Inr r"
  using assms by (auto split: list.splits if_splits)

lemma skipValue_Inr:
  assumes "skipValue (Suc n) d s = Inr r"
  obtains c t x where "skipWhitespace s = c # t" and "scanString (c # t) = Inr (x, r)"
  | t where "skipWhitespace s = CHR ''{'' # t" and "skipObject n d (CHR ''{'' # t) = Inr r"
  | t where "skipWhitespace s = CHR ''['' # t" and "skipArray n d (CHR ''['' # t) = Inr r"
  | c t lit where "skipWhitespace s = c # t" and "(c, lit) \<in> {(CHR ''t'', ''true''), (CHR ''f'', ''false''), (CHR ''n'', ''null'')}"
      and "skipLiteral lit (c # t) = Inr r"
  | c t x where "skipWhitespace s = c # t" and "c \<notin> set ''\"{[tfn''" and "scanNumber (c # t) = Inr (x, r)"
  using assms by (auto split: list.splits if_splits sum.splits)

lemma skip_shorter:
  "skipValue n d s = Inr r \<Longrightarrow> length r < length s"
  "skipObject n d s = Inr r \<Longrightarrow> s \<noteq> [] \<Longrightarrow> length r < length s"
  "skipArray n d s = Inr r \<Longrightarrow> s \<noteq> [] \<Longrightarrow> length r < length s"
  "object_loop n d s = Inr r \<Longrightarrow> length r < length s"
  "array_loop n d s = Inr r \<Longrightarrow> length r < length s"
proof (induction n arbitrary: d s r)
  case (Suc n)
  have "length r < length s" if "skipValue (Suc n) d s = Inr r" for d s r
    using that
  proof (cases rule: skipValue_Inr)
    case (1 c t x)
    then show ?thesis using scanString_shorter [of "c # t"] skipWhitespace_le [of s] by fastforce
  next
    case (2 t)
    then show ?thesis using Suc(2) [of d "CHR ''{'' # t" r] skipWhitespace_le [of s] by simp
  next
    case (3 t)
    then show ?thesis using Suc(3) [of d "CHR ''['' # t" r] skipWhitespace_le [of s] by simp
  next
    case (4 c t lit)
    then have "lit \<noteq> []" by auto
    then show ?thesis using 4 skipLiteral_shorter [of lit "c # t" r] skipWhitespace_le [of s] by simp
  next
    case (5 c t x)
    then show ?thesis using scanNumber_shorter [of "c # t"] skipWhitespace_le [of s] by fastforce
  qed
  moreover have "length r < length s" if "skipObject (Suc n) d s = Inr r" "s \<noteq> []" for d s r
    using that(1)
  proof (cases rule: skipObject_Inr)
    case 1
    then show ?thesis using skipWhitespace_le [of "tl s"] that(2) by simp
  next
    case (2 c t)
    then show ?thesis using Suc(4) [of "Suc d" "c # t" r] skipWhitespace_le [of "tl s"] that(2) by simp
  next
    case 3
    then show ?thesis using Suc(4) [of "Suc d" "[]" r] by simp
  qed
  moreover have "length r < length s" if "skipArray (Suc n) d s = Inr r" "s \<noteq> []" for d s r
    using that(1)
  proof (cases rule: skipArray_Inr)
    case 1
    then show ?thesis using skipWhitespace_le [of "tl s"] that(2) by simp
  next
    case (2 c t)
    then show ?thesis using Suc(5) [of "Suc d" "c # t" r] skipWhitespace_le [of "tl s"] that(2) by simp
  next
    case 3
    then show ?thesis using Suc(5) [of "Suc d" "[]" r] by simp
  qed
  moreover have "length r < length s" if "object_loop (Suc n) d s = Inr r" for d s r
    using that
  proof (cases rule: object_loop_Inr)
    case (1 key s1 s2 s3 c t)
    then have "length s1 < length s" "length s2 < length s1" "length s3 < length s2" "length t < length s3"
      using scanString_shorter [of "skipWhitespace s"] skipWhitespace_le [of s] expectByte_shorter
        Suc(1) skipWhitespace_cons [of s3] by fastforce+
    then show ?thesis using 1 Suc(4) [of d t r] by auto
  qed
  moreover have "length r < length s" if "array_loop (Suc n) d s = Inr r" for d s r
    using that
  proof (cases rule: array_loop_Inr)
    case (1 s3 c t)
    then have "length s3 < length s" "length t < length s3"
      using Suc(1) skipWhitespace_cons [of s3] by fastforce+
    then show ?thesis using 1 Suc(5) [of d t r] by auto
  qed
  ultimately have step: "\<And>d s r. skipValue (Suc n) d s = Inr r \<Longrightarrow> length r < length s"
    "\<And>d s r. skipObject (Suc n) d s = Inr r \<Longrightarrow> s \<noteq> [] \<Longrightarrow> length r < length s"
    "\<And>d s r. skipArray (Suc n) d s = Inr r \<Longrightarrow> s \<noteq> [] \<Longrightarrow> length r < length s"
    "\<And>d s r. object_loop (Suc n) d s = Inr r \<Longrightarrow> length r < length s"
    "\<And>d s r. array_loop (Suc n) d s = Inr r \<Longrightarrow> length r < length s" by blast+
  { case 1 then show ?case by (rule step) next case 2 then show ?case by (rule step) next
    case 3 then show ?case by (rule step) next case 4 then show ?case by (rule step) next
    case 5 then show ?case by (rule step) }
qed simp_all

text \<open>The fuel is enough: a scanner never runs out of it.\<close>

lemma token_fuel:
  "expectByte b s \<noteq> Inl OutOfFuel" "scanString s \<noteq> Inl OutOfFuel" "scanNumber s \<noteq> Inl OutOfFuel"
  "skipLiteral lit s \<noteq> Inl OutOfFuel"
proof -
  have "skipStringEscape t \<noteq> Inl OutOfFuel" for t
    by (simp add: skipStringEscape_def split: list.splits)
  then have "string_close esc t \<noteq> Inl OutOfFuel" for esc t
    by (induction esc t rule: string_close.induct) (auto split: sum.splits)
  then show "scanString s \<noteq> Inl OutOfFuel"
    by (auto simp: scanString_def Let_def split: list.splits sum.splits)
qed (auto simp: expectByte_def scanNumber_def skipLiteral_def Let_def split: list.splits)

lemma skip_fuel:
  "3 * length s + 3 \<le> n \<Longrightarrow> skipValue n d s \<noteq> Inl OutOfFuel"
  "3 * length s + 2 \<le> n \<Longrightarrow> s \<noteq> [] \<Longrightarrow> skipObject n d s \<noteq> Inl OutOfFuel"
  "3 * length s + 2 \<le> n \<Longrightarrow> s \<noteq> [] \<Longrightarrow> skipArray n d s \<noteq> Inl OutOfFuel"
  "3 * length s + 4 \<le> n \<Longrightarrow> object_loop n d s \<noteq> Inl OutOfFuel"
  "3 * length s + 4 \<le> n \<Longrightarrow> array_loop n d s \<noteq> Inl OutOfFuel"
proof (induction n arbitrary: d s)
  case (Suc n)
  {
    case 1
    show ?case
    proof (cases "skipWhitespace s")
      case (Cons c t)
      then have "3 * length (c # t) + 3 \<le> Suc n" using 1 skipWhitespace_le [of s] by simp
      then have "skipObject n d (c # t) \<noteq> Inl OutOfFuel" "skipArray n d (c # t) \<noteq> Inl OutOfFuel"
        using Suc.IH(2,3) [of "c # t" d] by simp_all
      then show ?thesis using Cons by (auto simp: token_fuel)
    qed simp
  next
    case 2
    then have "3 * length (skipWhitespace (tl s)) + 4 \<le> n"
      using skipWhitespace_le [of "tl s"] by (cases s) simp_all
    then have "object_loop n (Suc d) (skipWhitespace (tl s)) \<noteq> Inl OutOfFuel" by (rule Suc.IH(4))
    then show ?case by (cases "skipWhitespace (tl s)") simp_all
  next
    case 3
    then have "3 * length (skipWhitespace (tl s)) + 4 \<le> n"
      using skipWhitespace_le [of "tl s"] by (cases s) simp_all
    then have "array_loop n (Suc d) (skipWhitespace (tl s)) \<noteq> Inl OutOfFuel" by (rule Suc.IH(5))
    then show ?case by (cases "skipWhitespace (tl s)") simp_all
  next
    case 4
    show ?case
    proof
      assume "object_loop (Suc n) d s = Inl OutOfFuel"
      then obtain key s1 s2 where s2: "scanString (skipWhitespace s) = Inr (key, s1)" "expectByte (CHR '':'') s1 = Inr s2"
        and bad: "skipValue n d s2 = Inl OutOfFuel \<or> (\<exists>s3 t. skipValue n d s2 = Inr s3 \<and>
          skipWhitespace s3 = CHR '','' # t \<and> object_loop n d t = Inl OutOfFuel)"
        by (auto simp: token_fuel split: sum.splits list.splits if_splits)
      have l2: "length s2 < length s"
        using scanString_shorter [OF s2(1)] expectByte_shorter [OF s2(2)] skipWhitespace_le [of s] by simp
      then have v: "skipValue n d s2 \<noteq> Inl OutOfFuel" using Suc.IH(1) [of s2] 4 by simp
      then obtain s3 t where "skipValue n d s2 = Inr s3" "skipWhitespace s3 = CHR '','' # t"
        "object_loop n d t = Inl OutOfFuel" using bad by blast
      moreover from this have "length t < length s" using skip_shorter(1) skipWhitespace_cons l2 by fastforce
      ultimately show False using Suc.IH(4) [of t] 4 by simp
    qed
  next
    case 5
    show ?case
    proof
      assume bad: "array_loop (Suc n) d s = Inl OutOfFuel"
      have v: "skipValue n d s \<noteq> Inl OutOfFuel" using Suc.IH(1) [of s] 5 by simp
      then obtain s3 t where "skipValue n d s = Inr s3" "skipWhitespace s3 = CHR '','' # t"
        "array_loop n d t = Inl OutOfFuel" using bad by (auto split: sum.splits list.splits if_splits)
      moreover from this have "length t < length s" using skip_shorter(1) skipWhitespace_cons by fastforce
      ultimately show False using Suc.IH(5) [of t] 5 by simp
    qed
  }
qed auto

lemma skip_value_fuel: "skip_value d s \<noteq> Inl OutOfFuel"
  unfolding skip_value_def using skip_fuel(1) by blast

lemma skip_value_shorter: "skip_value d s = Inr r \<Longrightarrow> length r < length s"
  by (simp add: skip_value_def skip_shorter(1))


section \<open>Reading on\<close>

text \<open>
  What a scanner reads does not depend on what follows the text, as long as the scanner stopped before
  its end: more text behind it is left over.
\<close>

lemma skipWhitespace_append: "skipWhitespace s = c # r \<Longrightarrow> skipWhitespace (s @ t) = c # r @ t"
  by (simp add: skipWhitespace_def) (metis append_Cons dropWhile_append dropWhile_eq_Nil_conv list.distinct(1))

lemma expectByte_append: "expectByte b s = Inr r \<Longrightarrow> expectByte b (s @ t) = Inr (r @ t)"
  by (auto simp: expectByte_def skipWhitespace_append split: list.splits if_splits)

lemma skipStringEscape_append: "skipStringEscape s = Inr r \<Longrightarrow> skipStringEscape (s @ t) = Inr (r @ t)"
  by (auto simp: skipStringEscape_def split: list.splits if_splits)

lemma string_close_append: "string_close esc s = Inr (e, r) \<Longrightarrow> string_close esc (s @ t) = Inr (e, r @ t)"
proof (induction esc s rule: string_close.induct)
  case (2 esc c cs)
  then show ?case by (auto simp: skipStringEscape_append split: if_split_asm sum.split_asm)
qed simp

lemma scanString_append:
  assumes "scanString s = Inr (x, r)"
  shows "scanString (s @ t) = Inr (x, r @ t)"
proof -
  obtain body esc where b: "s = CHR 0x22 # body" "string_close False body = Inr (esc, r)"
    "x = (let raw = take (length body - length r - 1) body in if esc then unescapeJSONString raw else raw)"
    using assms by (auto simp: scanString_def Let_def split: list.splits if_splits sum.splits)
  have "take (length (body @ t) - length (r @ t) - 1) (body @ t) = take (length body - length r - 1) body"
    by simp
  then show ?thesis using b string_close_append [OF b(2), of t] by (simp add: scanString_def Let_def)
qed

lemma skip_digits_append: "skip_digits s \<noteq> [] \<Longrightarrow> skip_digits (s @ t) = skip_digits s @ t"
  by (auto simp: skip_digits_def dropWhile_append)

lemma skip_sign_append: "s \<noteq> [] \<Longrightarrow> skip_sign signs (s @ t) = skip_sign signs s @ t"
  by (cases s) (simp_all add: skip_sign_def)

lemma skip_fraction_append: "skip_fraction s \<noteq> [] \<Longrightarrow> skip_fraction (s @ t) = skip_fraction s @ t"
  by (cases s) (auto simp: skip_fraction_def skip_digits_append)

lemma skip_exponent_append:
  assumes "skip_exponent s \<noteq> []"
  shows "skip_exponent (s @ t) = skip_exponent s @ t"
proof (cases s)
  case (Cons c r)
  have "r \<noteq> []" if "c = CHR ''e'' \<or> c = CHR ''E''"
    using assms Cons that by (auto simp: skip_exponent_def skip_sign_def skip_digits_def)
  then show ?thesis using assms Cons
    by (auto simp: skip_exponent_def skip_sign_append skip_digits_append)
qed (use assms in \<open>simp add: skip_exponent_def\<close>)

lemma scanNumber_append:
  assumes "scanNumber s = Inr (x, r)" and "r \<noteq> []"
  shows "scanNumber (s @ t) = Inr (x, r @ t)"
proof -
  let ?s1 = "skip_sign {CHR ''-''} s"
  have s: "?s1 \<noteq> []" "r = skip_exponent (skip_fraction (skip_digits ?s1))" "length r \<noteq> length s"
    "x = take (length s - length r) s"
    using assms(1) by (auto simp: scanNumber_def Let_def split: if_splits)
  then have ne: "skip_fraction (skip_digits ?s1) \<noteq> []" "skip_digits ?s1 \<noteq> []" "s \<noteq> []"
    using assms(2) by (auto simp: skip_exponent_def skip_fraction_def skip_sign_def)
  have "skip_exponent (skip_fraction (skip_digits (skip_sign {CHR ''-''} (s @ t)))) = r @ t"
    using s ne assms(2)
    by (simp add: skip_sign_append skip_digits_append skip_fraction_append skip_exponent_append)
  then show ?thesis using s ne by (simp add: scanNumber_def Let_def skip_sign_append)
qed

lemma skipLiteral_append: "skipLiteral lit s = Inr r \<Longrightarrow> skipLiteral lit (s @ t) = Inr (r @ t)"
  by (auto simp: skipLiteral_def prefix_def split: if_splits)

lemma skip_append:
  "skipValue n d s = Inr r \<Longrightarrow> r \<noteq> [] \<Longrightarrow> n \<le> m \<Longrightarrow> skipValue m d (s @ t) = Inr (r @ t)"
  "skipObject n d s = Inr r \<Longrightarrow> s \<noteq> [] \<Longrightarrow> n \<le> m \<Longrightarrow> skipObject m d (s @ t) = Inr (r @ t)"
  "skipArray n d s = Inr r \<Longrightarrow> s \<noteq> [] \<Longrightarrow> n \<le> m \<Longrightarrow> skipArray m d (s @ t) = Inr (r @ t)"
  "object_loop n d s = Inr r \<Longrightarrow> n \<le> m \<Longrightarrow> object_loop m d (s @ t) = Inr (r @ t)"
  "array_loop n d s = Inr r \<Longrightarrow> n \<le> m \<Longrightarrow> array_loop m d (s @ t) = Inr (r @ t)"
proof (induction n arbitrary: d s r m)
  case (Suc n)
  {
    case 1
    then obtain k where m: "m = Suc k" "n \<le> k" by (cases m) auto
    from 1(1) show ?case
    proof (cases rule: skipValue_Inr)
      case (1 c u x)
      have "c = CHR 0x22" using 1(2) by (auto simp: scanString_def split: if_splits)
      then show ?thesis using 1 m scanString_append [OF 1(2), of t] skipWhitespace_append [OF 1(1), of t] by simp
    next
      case (2 u)
      then show ?thesis using m skipWhitespace_append [OF 2(1), of t] Suc.IH(2) [OF 2(2) _ m(2)] by simp
    next
      case (3 u)
      then show ?thesis using m skipWhitespace_append [OF 3(1), of t] Suc.IH(3) [OF 3(2) _ m(2)] by simp
    next
      case (4 c u lit)
      then show ?thesis using m skipWhitespace_append [OF 4(1), of t] skipLiteral_append [OF 4(3), of t] by auto
    next
      case (5 c u x)
      then show ?thesis using m 1(2) skipWhitespace_append [OF 5(1), of t] scanNumber_append [OF 5(3), of t]
        by auto
    qed
  next
    case 2
    then obtain k where m: "m = Suc k" "n \<le> k" by (cases m) auto
    have tl: "tl (s @ t) = tl s @ t" using 2(2) by simp
    from 2(1) show ?case
    proof (cases rule: skipObject_Inr)
      case 1
      then show ?thesis using m skipWhitespace_append [OF 1(2), of t] tl by simp
    next
      case (2 c u)
      then show ?thesis using m skipWhitespace_append [OF 2(2), of t] Suc.IH(4) [OF 2(4) m(2)] tl by simp
    next
      case 3
      then show ?thesis using skip_shorter(4) by fastforce
    qed
  next
    case 3
    then obtain k where m: "m = Suc k" "n \<le> k" by (cases m) auto
    have tl: "tl (s @ t) = tl s @ t" using 3(2) by simp
    from 3(1) show ?case
    proof (cases rule: skipArray_Inr)
      case 1
      then show ?thesis using m skipWhitespace_append [OF 1(2), of t] tl by simp
    next
      case (2 c u)
      then show ?thesis using m skipWhitespace_append [OF 2(2), of t] Suc.IH(5) [OF 2(4) m(2)] tl by simp
    next
      case 3
      then show ?thesis using skip_shorter(5) by fastforce
    qed
  next
    case 4
    then obtain k where m: "m = Suc k" "n \<le> k" by (cases m) auto
    from 4(1) show ?case
    proof (cases rule: object_loop_Inr)
      case (1 key s1 s2 s3 c u)
      obtain c' u' where ws: "skipWhitespace s = c' # u'"
        using 1(1) by (cases "skipWhitespace s") (auto simp: scanString_def)
      have "s3 \<noteq> []" using 1(4) by (auto simp: skipWhitespace_def)
      then have v: "skipValue k d (s2 @ t) = Inr (s3 @ t)" using Suc.IH(1) [OF 1(3) _ m(2)] by simp
      have "scanString (skipWhitespace (s @ t)) = Inr (key, s1 @ t)"
        using scanString_append [OF 1(1), of t] skipWhitespace_append [OF ws, of t] ws by simp
      then show ?thesis
        using m v expectByte_append [OF 1(2), of t] skipWhitespace_append [OF 1(4), of t] 1(5) Suc.IH(4) [OF _ m(2)]
        by auto
    qed
  next
    case 5
    then obtain k where m: "m = Suc k" "n \<le> k" by (cases m) auto
    from 5(1) show ?case
    proof (cases rule: array_loop_Inr)
      case (1 s3 c u)
      have "s3 \<noteq> []" using 1(2) by (auto simp: skipWhitespace_def)
      then have v: "skipValue k d (s @ t) = Inr (s3 @ t)" using Suc.IH(1) [OF 1(1) _ m(2)] by simp
      then show ?thesis
        using m skipWhitespace_append [OF 1(2), of t] 1(3) Suc.IH(5) [OF _ m(2)] by auto
    qed
  }
qed simp_all

lemma skip_value_append: "skip_value d s = Inr r \<Longrightarrow> r \<noteq> [] \<Longrightarrow> skip_value d (s @ t) = Inr (r @ t)"
  by (simp add: skip_value_def skip_append(1))

text \<open>The scanner does not use the error that stands for a missing \<open>counters\<close> key.\<close>

lemma token_key:
  "expectByte b s \<noteq> Inl NoCountersKey" "scanString s \<noteq> Inl NoCountersKey" "scanNumber s \<noteq> Inl NoCountersKey"
  "skipLiteral lit s \<noteq> Inl NoCountersKey"
proof -
  have "skipStringEscape t \<noteq> Inl NoCountersKey" for t
    by (simp add: skipStringEscape_def split: list.splits)
  then have "string_close esc t \<noteq> Inl NoCountersKey" for esc t
    by (induction esc t rule: string_close.induct) (auto split: sum.splits)
  then show "scanString s \<noteq> Inl NoCountersKey"
    by (auto simp: scanString_def Let_def split: list.splits sum.splits)
qed (auto simp: expectByte_def scanNumber_def skipLiteral_def Let_def split: list.splits)

lemma skip_key:
  "skipValue n d s \<noteq> Inl NoCountersKey"
  "skipObject n d s \<noteq> Inl NoCountersKey"
  "skipArray n d s \<noteq> Inl NoCountersKey"
  "object_loop n d s \<noteq> Inl NoCountersKey"
  "array_loop n d s \<noteq> Inl NoCountersKey"
proof (induction n arbitrary: d s)
  case (Suc n)
  {
    case 1
    show ?case using Suc.IH(2,3) by (cases "skipWhitespace s") (auto simp: token_key)
  next
    case 2
    show ?case using Suc.IH(4) by (cases "skipWhitespace (tl s)") auto
  next
    case 3
    show ?case using Suc.IH(5) by (cases "skipWhitespace (tl s)") auto
  next
    case 4
    show ?case using Suc.IH(1,4) by (auto simp: token_key split: sum.splits list.splits)
  next
    case 5
    show ?case using Suc.IH(1,5) by (auto split: sum.splits list.splits)
  }
qed simp_all

lemma skip_value_key: "skip_value d s \<noteq> Inl NoCountersKey"
  by (simp add: skip_value_def skip_key(1))

text \<open>The errors that the callers tell apart from all others.\<close>

definition plain_error :: "scan_error \<Rightarrow> bool" where
  "plain_error e \<longleftrightarrow> e \<noteq> OutOfFuel \<and> e \<noteq> NoCountersKey"

lemma scanner_errors:
  "expectByte b s = Inl e \<Longrightarrow> plain_error e" "scanString s = Inl e \<Longrightarrow> plain_error e"
  "scanNumber s = Inl e \<Longrightarrow> plain_error e" "skip_value d s = Inl e \<Longrightarrow> plain_error e"
  using token_fuel token_key skip_value_fuel skip_value_key unfolding plain_error_def by metis+

end
