(* ===== verification/VarnishstatParser.thy ===== *)
theory VarnishstatParser
  imports JsonScanner
begin

text \<open>
  The counters of \<open>internal/telemetry/varnishstat_parser.go\<close>: the objects of counters, the map of them,
  and the two schemas of varnishstat's output.
\<close>

section \<open>Counters\<close>

text \<open>
  \<open>varnishstatCounter\<close>. The value is what \<open>strconv.ParseFloat\<close> makes of the number, a parameter of
  the parser. \<open>counter_head\<close> holds the fields of a counter that is still being read; interning a flag
  does not change it.
\<close>

record counter_head =
  vc_Flag :: string
  vc_Description :: string
  vc_Ident :: string

record 'f varnishstatCounter = counter_head +
  vc_Value :: 'f
  vc_RawValue :: string

definition no_head :: counter_head where
  "no_head = \<lparr>vc_Flag = [], vc_Description = [], vc_Ident = []\<rparr>"

definition finish_counter :: "(string \<Rightarrow> 'f option) \<Rightarrow> counter_head \<Rightarrow> string \<Rightarrow> 'f varnishstatCounter option" where
  "finish_counter ParseFloat c numStr =
     (case ParseFloat numStr of
        None \<Rightarrow> None
      | Some v \<Rightarrow> Some \<lparr>vc_Flag = vc_Flag c, vc_Description = vc_Description c, vc_Ident = vc_Ident c,
          vc_Value = v, vc_RawValue = numStr\<rparr>)"

text \<open>
  \<open>parseCounterValue\<close> on a text that is not empty: \<open>None\<close> is a value that is no number and has been
  skipped.
\<close>

definition parseCounterValue :: "string \<Rightarrow> scan_error + string option \<times> string" where
  "parseCounterValue s =
     (if hd s \<in> {CHR 0x22, CHR ''n'', CHR ''['', CHR ''{'', CHR ''t'', CHR ''f''} then
        (case skip_value 0 s of Inl e \<Rightarrow> Inl e | Inr r \<Rightarrow> Inr (None, r))
      else (case scanNumber s of Inl e \<Rightarrow> Inl e | Inr (numStr, r) \<Rightarrow> Inr (Some numStr, r)))"

text \<open>A comma before a field is skipped with the white space behind it.\<close>

definition skip_comma :: "string \<Rightarrow> string" where
  "skip_comma s = (case s of [] \<Rightarrow> [] | c # r \<Rightarrow> if c = CHR '','' then skipWhitespace r else s)"

text \<open>The name of a field and the colon behind it.\<close>

definition field_name :: "string \<Rightarrow> scan_error + string \<times> string" where
  "field_name s =
     (case scanString s of
        Inl e \<Rightarrow> Inl e
      | Inr (key, s1) \<Rightarrow> (case expectByte (CHR '':'') s1 of Inl e \<Rightarrow> Inl e | Inr s2 \<Rightarrow> Inr (key, s2)))"

lemma skip_comma_le: "length (skip_comma s) \<le> length s"
  using skipWhitespace_le by (auto simp: skip_comma_def intro: le_SucI split: list.split)

lemma field_name_shorter: "field_name s = Inr (k, r) \<Longrightarrow> length r < length s"
  by (auto simp: field_name_def split: sum.splits dest!: scanString_shorter expectByte_shorter)

lemma field_shorter:
  assumes "skipWhitespace s = b # u" and "field_name (skip_comma (b # u)) = Inr (k, r)"
  shows "length r < length s"
  using field_name_shorter [OF assms(2)] skip_comma_le [of "b # u"] skipWhitespace_le [of s] assms(1) by simp

lemma parseCounterValue_shorter: "parseCounterValue s = Inr (v, r) \<Longrightarrow> length r < length s"
  by (auto simp: parseCounterValue_def split: if_splits sum.splits dest: skip_value_shorter scanNumber_shorter)

text \<open>\<open>skipRemainingFields\<close>: the rest behind the object.\<close>

function skipRemainingFields :: "string \<Rightarrow> scan_error + string" where
  "skipRemainingFields s =
     (case skipWhitespace s of
        [] \<Rightarrow> Inl UnterminatedObject
      | c # r \<Rightarrow>
          if c = CHR ''}'' then Inr r
          else (case field_name (skip_comma (skipWhitespace s)) of
                  Inl e \<Rightarrow> Inl e
                | Inr (key, s1) \<Rightarrow>
                    (case skip_value 0 s1 of Inl e \<Rightarrow> Inl e | Inr s2 \<Rightarrow> skipRemainingFields s2)))"
  by pat_completeness auto
termination
  by (relation "measure length") (auto dest!: skip_value_shorter dest: field_shorter less_trans)

declare skipRemainingFields.simps [simp del]

text \<open>
  The switch of \<open>parseCounterObject\<close> on the name of a field: what has been read so far with the field in
  it, whether the field is a value that is no number, and the rest behind the field.
\<close>

definition object_field :: "string \<Rightarrow> counter_head \<Rightarrow> string option \<Rightarrow> string \<Rightarrow>
    scan_error + (counter_head \<times> string option \<times> bool) \<times> string" where
  "object_field key c num s =
     (if s = [] then Inl UnterminatedObject
      else if key = ''value'' then
        (case parseCounterValue s of Inl e \<Rightarrow> Inl e | Inr (num', r) \<Rightarrow> Inr ((c, num', num' = None), r))
      else if key = ''flag'' then
        (case scanString s of Inl e \<Rightarrow> Inl e | Inr (v, r) \<Rightarrow> Inr ((c\<lparr>vc_Flag := v\<rparr>, num, False), r))
      else if key = ''description'' then
        (case scanString s of Inl e \<Rightarrow> Inl e | Inr (v, r) \<Rightarrow> Inr ((c\<lparr>vc_Description := v\<rparr>, num, False), r))
      else if key = ''ident'' then
        (case scanString s of Inl e \<Rightarrow> Inl e | Inr (v, r) \<Rightarrow> Inr ((c\<lparr>vc_Ident := v\<rparr>, num, False), r))
      else (case skip_value 0 s of Inl e \<Rightarrow> Inl e | Inr r \<Rightarrow> Inr ((c, num, False), r)))"

lemma object_field_shorter: "object_field key c num s = Inr (x, r) \<Longrightarrow> length r < length s"
  by (auto simp: object_field_def split: if_splits sum.splits
      dest: skip_value_shorter scanString_shorter parseCounterValue_shorter)

lemma field_step_shorter:
  assumes "skipWhitespace s = b # u" and "field_name (skip_comma (b # u)) = Inr (k, s1)"
    and "object_field key c num (skipWhitespace s1) = Inr (x, s2)"
  shows "length s2 < length s"
  using object_field_shorter [OF assms(3)] field_shorter [OF assms(1,2)] skipWhitespace_le [of s1] by simp

text \<open>
  \<open>parseCounterObject\<close> after the opening brace: the counter, unless it is to be left out, and the rest
  behind the object.
\<close>

function object_fields :: "(string \<Rightarrow> 'f option) \<Rightarrow> counter_head \<Rightarrow> string option \<Rightarrow> string \<Rightarrow>
    scan_error + 'f varnishstatCounter option \<times> string" where
  "object_fields ParseFloat c num s =
     (case skipWhitespace s of
        [] \<Rightarrow> Inl UnterminatedObject
      | b # u \<Rightarrow>
          if b = CHR ''}'' then
            Inr (case num of None \<Rightarrow> None | Some numStr \<Rightarrow> finish_counter ParseFloat c numStr, u)
          else (case field_name (skip_comma (b # u)) of
                  Inl e \<Rightarrow> Inl e
                | Inr (key, s1) \<Rightarrow>
                    (case object_field key c num (skipWhitespace s1) of
                       Inl e \<Rightarrow> Inl e
                     | Inr ((c', num', bad), s2) \<Rightarrow>
                         if bad then (case skipRemainingFields s2 of Inl e \<Rightarrow> Inl e | Inr s3 \<Rightarrow> Inr (None, s3))
                         else object_fields ParseFloat c' num' s2)))"
  by pat_completeness auto
termination
  by (relation "measure (\<lambda>(f, c, num, s). length s)") (auto intro: field_step_shorter)

declare object_fields.simps [simp del]

lemma object_fields_Inr:
  assumes "object_fields ParseFloat c num s = Inr (v, r)"
  obtains "skipWhitespace s = CHR ''}'' # r"
      and "v = (case num of None \<Rightarrow> None | Some numStr \<Rightarrow> finish_counter ParseFloat c numStr)"
  | b u key s1 c' num' s2 where "skipWhitespace s = b # u" and "b \<noteq> CHR ''}''"
      and "field_name (skip_comma (b # u)) = Inr (key, s1)"
      and "object_field key c num (skipWhitespace s1) = Inr ((c', num', True), s2)"
      and "skipRemainingFields s2 = Inr r" and "v = None"
  | b u key s1 c' num' s2 where "skipWhitespace s = b # u" and "b \<noteq> CHR ''}''"
      and "field_name (skip_comma (b # u)) = Inr (key, s1)"
      and "object_field key c num (skipWhitespace s1) = Inr ((c', num', False), s2)"
      and "object_fields ParseFloat c' num' s2 = Inr (v, r)"
  using assms by (subst (asm) object_fields.simps)
    (auto split: list.splits if_splits sum.splits)

lemma skipRemainingFields_Inr:
  assumes "skipRemainingFields s = Inr r"
  obtains "skipWhitespace s = CHR ''}'' # r"
  | b u key s1 s2 where "skipWhitespace s = b # u" and "b \<noteq> CHR ''}''"
      and "field_name (skip_comma (b # u)) = Inr (key, s1)" and "skip_value 0 s1 = Inr s2"
      and "skipRemainingFields s2 = Inr r"
  using assms by (subst (asm) skipRemainingFields.simps) (auto split: list.splits if_splits sum.splits)

lemma skipRemainingFields_shorter: "skipRemainingFields s = Inr r \<Longrightarrow> length r < length s"
proof (induction s rule: measure_induct_rule [of length])
  case (less s)
  from less.prems show ?case
  proof (cases rule: skipRemainingFields_Inr)
    case 1
    then show ?thesis using skipWhitespace_cons by blast
  next
    case (2 b u key s1 s2)
    then have "length s2 < length s" using skip_value_shorter field_shorter [OF 2(1,3)] by fastforce
    then show ?thesis using less.IH [OF _ 2(5)] by simp
  qed
qed

lemma object_fields_shorter: "object_fields ParseFloat c num s = Inr (v, r) \<Longrightarrow> length r < length s"
proof (induction s arbitrary: c num rule: measure_induct_rule [of length])
  case (less s)
  from less.prems show ?case
  proof (cases rule: object_fields_Inr)
    case 1
    then show ?thesis using skipWhitespace_cons by blast
  next
    case (2 b u key s1 c' num' s2)
    then show ?thesis using field_step_shorter [OF 2(1,3,4)] skipRemainingFields_shorter by fastforce
  next
    case (3 b u key s1 c' num' s2)
    then show ?thesis using field_step_shorter [OF 3(1,3,4)] less.IH [OF _ 3(5)] by fastforce
  qed
qed

text \<open>
  One entry of a counter map behind its key and colon: a counter, or \<open>None\<close> for a value that is
  skipped and for a counter that is left out.
\<close>

definition map_entry :: "(string \<Rightarrow> 'f option) \<Rightarrow> (string \<Rightarrow> bool) \<Rightarrow> string \<Rightarrow> string \<Rightarrow>
    scan_error + 'f varnishstatCounter option \<times> string" where
  "map_entry ParseFloat skipKey key s =
     (let skipped = (case skip_value 0 s of Inl e \<Rightarrow> Inl e | Inr r \<Rightarrow> Inr (None, r))
      in if skipKey key then skipped
         else case s of
           [] \<Rightarrow> skipped
         | c # r \<Rightarrow> if c = CHR ''{'' then object_fields ParseFloat no_head None r else skipped)"

lemma map_entry_shorter: "map_entry ParseFloat skipKey key s = Inr (v, r) \<Longrightarrow> length r < length s"
  by (auto simp: map_entry_def Let_def split: if_splits sum.splits list.splits
      dest!: skip_value_shorter object_fields_shorter)

text \<open>The loop of \<open>parseCounterMap\<close>; a key that occurs again replaces its counter.\<close>

definition add_counter :: "string \<Rightarrow> 'c option \<Rightarrow> (string, 'c) fmap \<Rightarrow> (string, 'c) fmap" where
  "add_counter key v result = (case v of None \<Rightarrow> result | Some c \<Rightarrow> fmupd key c result)"

function map_loop :: "(string \<Rightarrow> 'f option) \<Rightarrow> (string \<Rightarrow> bool) \<Rightarrow> (string, 'f varnishstatCounter) fmap \<Rightarrow> string \<Rightarrow>
    scan_error + (string, 'f varnishstatCounter) fmap" where
  "map_loop ParseFloat skipKey result s =
     (case field_name (skipWhitespace s) of
        Inl e \<Rightarrow> Inl e
      | Inr (key, s1) \<Rightarrow>
          (case map_entry ParseFloat skipKey key (skipWhitespace s1) of
             Inl e \<Rightarrow> Inl e
           | Inr (v, s2) \<Rightarrow>
               (case skipWhitespace s2 of
                  [] \<Rightarrow> Inl UnterminatedCounterMap
                | c # r \<Rightarrow>
                    if c = CHR ''}'' then Inr (add_counter key v result)
                    else if c = CHR '','' then map_loop ParseFloat skipKey (add_counter key v result) r
                    else Inl (ExpectedComma (CHR ''}'')))))"
  by pat_completeness auto

lemma map_step_shorter:
  assumes "field_name (skipWhitespace s) = Inr (key, s1)"
    and "map_entry ParseFloat skipKey key (skipWhitespace s1) = Inr (v, s2)" and "skipWhitespace s2 = c # r"
  shows "length r < length s"
  using field_name_shorter [OF assms(1)] map_entry_shorter [OF assms(2)] skipWhitespace_cons [OF assms(3)]
    skipWhitespace_le [of s] skipWhitespace_le [of s1] by simp

termination map_loop
  by (relation "measure (\<lambda>(f, k, m, s). length s)") (auto intro: map_step_shorter)

declare map_loop.simps [simp del]

definition parseCounterMap :: "(string \<Rightarrow> 'f option) \<Rightarrow> (string \<Rightarrow> bool) \<Rightarrow> string \<Rightarrow>
    scan_error + (string, 'f varnishstatCounter) fmap" where
  "parseCounterMap ParseFloat skipKey s =
     (case expectByte (CHR ''{'') s of
        Inl e \<Rightarrow> Inl e
      | Inr s1 \<Rightarrow>
          (case skipWhitespace s1 of
             [] \<Rightarrow> map_loop ParseFloat skipKey fmempty []
           | c # r \<Rightarrow> if c = CHR ''}'' then Inr fmempty else map_loop ParseFloat skipKey fmempty (c # r)))"

text \<open>\<open>parseVarnishstatV7\<close>: the members of the outer object up to the one named \<open>counters\<close>.\<close>

function v7_loop :: "(string \<Rightarrow> 'f option) \<Rightarrow> string \<Rightarrow> scan_error + (string, 'f varnishstatCounter) fmap" where
  "v7_loop ParseFloat s =
     (case field_name (skipWhitespace s) of
        Inl e \<Rightarrow> Inl e
      | Inr (key, s1) \<Rightarrow>
          if key = ''counters'' then parseCounterMap ParseFloat (\<lambda>_. False) s1
          else (case skip_value 0 s1 of
                  Inl e \<Rightarrow> Inl e
                | Inr s2 \<Rightarrow>
                    (case skipWhitespace s2 of
                       [] \<Rightarrow> Inl V7UnterminatedObject
                     | c # r \<Rightarrow>
                         if c = CHR ''}'' then Inl NoCountersKey
                         else if c = CHR '','' then v7_loop ParseFloat r
                         else Inl (ExpectedComma (CHR ''}'')))))"
  by pat_completeness auto

lemma v7_step_shorter:
  assumes "field_name (skipWhitespace s) = Inr (key, s1)" and "skip_value 0 s1 = Inr s2" and "skipWhitespace s2 = c # r"
  shows "length r < length s"
  using field_name_shorter [OF assms(1)] skip_value_shorter [OF assms(2)] skipWhitespace_cons [OF assms(3)]
    skipWhitespace_le [of s] by simp

termination v7_loop
  by (relation "measure (\<lambda>(f, s). length s)") (auto intro: v7_step_shorter)

declare v7_loop.simps [simp del]

definition parseVarnishstatV7 :: "(string \<Rightarrow> 'f option) \<Rightarrow> string \<Rightarrow>
    scan_error + (string, 'f varnishstatCounter) fmap" where
  "parseVarnishstatV7 ParseFloat s =
     (case expectByte (CHR ''{'') s of
        Inl e \<Rightarrow> Inl e
      | Inr s1 \<Rightarrow>
          (case skipWhitespace s1 of
             [] \<Rightarrow> v7_loop ParseFloat []
           | c # r \<Rightarrow> if c = CHR ''}'' then Inl NoCountersKey else v7_loop ParseFloat (c # r)))"

definition parseVarnishstatV6 :: "(string \<Rightarrow> 'f option) \<Rightarrow> string \<Rightarrow>
    scan_error + (string, 'f varnishstatCounter) fmap" where
  "parseVarnishstatV6 ParseFloat s = parseCounterMap ParseFloat (\<lambda>key. CHR ''.'' \<notin> set key) s"

definition parseVarnishstat :: "(string \<Rightarrow> 'f option) \<Rightarrow> string \<Rightarrow>
    scan_error + (string, 'f varnishstatCounter) fmap" where
  "parseVarnishstat ParseFloat s =
     (let result = parseVarnishstatV7 ParseFloat s
      in if result = Inl NoCountersKey then parseVarnishstatV6 ParseFloat s else result)"


section \<open>Errors\<close>

lemma field_name_error: "field_name s = Inl e \<Longrightarrow> plain_error e"
  by (auto simp: field_name_def dest: scanner_errors split: sum.splits)

lemma parseCounterValue_error: "parseCounterValue s = Inl e \<Longrightarrow> plain_error e"
  by (auto simp: parseCounterValue_def dest: scanner_errors split: sum.splits if_splits)

lemma object_field_error: "object_field key c num s = Inl e \<Longrightarrow> plain_error e"
  by (auto simp: object_field_def plain_error_def [of UnterminatedObject] dest: scanner_errors parseCounterValue_error
      split: sum.splits if_splits)

lemma skipRemainingFields_error: "skipRemainingFields s = Inl e \<Longrightarrow> plain_error e"
proof (induction s rule: measure_induct_rule [of length])
  case (less s)
  note run = less.prems [unfolded skipRemainingFields.simps [of s]]
  show ?case
  proof (cases "skipWhitespace s")
    case Nil
    then show ?thesis using run by (auto simp: plain_error_def)
  next
    case (Cons b u)
    show ?thesis
    proof (cases "field_name (skip_comma (b # u))")
      case (Inl e')
      then show ?thesis using run Cons field_name_error by (simp split: if_splits)
    next
      case (Inr p)
      obtain key s1 where p: "p = (key, s1)" by force
      show ?thesis
      proof (cases "skip_value 0 s1")
        case (Inl e')
        then show ?thesis using run Cons Inr p scanner_errors(4) by (simp split: if_splits)
      next
        case s2: (Inr s2)
        have "length s2 < length s" using skip_value_shorter [OF s2] field_shorter [OF Cons] Inr p by fastforce
        then show ?thesis using run Cons Inr p s2 less.IH [of s2] by (simp split: if_splits)
      qed
    qed
  qed
qed

lemma object_fields_error: "object_fields ParseFloat c num s = Inl e \<Longrightarrow> plain_error e"
proof (induction s arbitrary: c num rule: measure_induct_rule [of length])
  case (less s)
  note run = less.prems [unfolded object_fields.simps [of ParseFloat c num s]]
  show ?case
  proof (cases "skipWhitespace s")
    case Nil
    then show ?thesis using run by (auto simp: plain_error_def)
  next
    case (Cons b u)
    show ?thesis
    proof (cases "field_name (skip_comma (b # u))")
      case (Inl e')
      then show ?thesis using run Cons field_name_error by (simp split: if_splits)
    next
      case (Inr p)
      obtain key s1 where p: "p = (key, s1)" by force
      show ?thesis
      proof (cases "object_field key c num (skipWhitespace s1)")
        case (Inl e')
        then show ?thesis using run Cons Inr p object_field_error by (simp split: if_splits)
      next
        case q: (Inr q)
        obtain c' num' bad s2 where q': "q = ((c', num', bad), s2)" by (metis surj_pair)
        have "length s2 < length s" using field_step_shorter [OF Cons] Inr p q q' by blast
        then show ?thesis
          using run Cons Inr p q q' less.IH [of s2 c' num'] skipRemainingFields_error
          by (simp split: if_splits sum.splits)
      qed
    qed
  qed
qed

lemma map_entry_error: "map_entry ParseFloat skipKey key s = Inl e \<Longrightarrow> plain_error e"
  by (auto simp: map_entry_def Let_def split: if_splits sum.splits list.splits
      dest: scanner_errors object_fields_error)

lemma map_loop_error: "map_loop ParseFloat skipKey m s = Inl e \<Longrightarrow> plain_error e"
proof (induction s arbitrary: m rule: measure_induct_rule [of length])
  case (less s)
  note run = less.prems [unfolded map_loop.simps [of ParseFloat skipKey m s]]
  show ?case
  proof (cases "field_name (skipWhitespace s)")
    case (Inl e')
    then show ?thesis using run field_name_error by simp
  next
    case (Inr p)
    obtain key s1 where p: "p = (key, s1)" by force
    show ?thesis
    proof (cases "map_entry ParseFloat skipKey key (skipWhitespace s1)")
      case (Inl e')
      then show ?thesis using run Inr p map_entry_error by simp
    next
      case q: (Inr q)
      obtain v s2 where q': "q = (v, s2)" by force
      show ?thesis
      proof (cases "skipWhitespace s2")
        case Nil
        then show ?thesis using run Inr p q q' by (auto simp: plain_error_def)
      next
        case (Cons c r)
        have "length r < length s" using map_step_shorter [OF _ _ Cons] Inr p q q' by blast
        then show ?thesis using run Inr p q q' Cons less.IH [of r]
          by (auto simp: plain_error_def split: if_splits)
      qed
    qed
  qed
qed

lemma parseCounterMap_error: "parseCounterMap ParseFloat skipKey s = Inl e \<Longrightarrow> plain_error e"
  by (auto simp: parseCounterMap_def split: sum.splits list.splits if_splits dest: scanner_errors map_loop_error)

lemma v7_loop_Inl:
  assumes "v7_loop ParseFloat s = Inl e"
  obtains "plain_error e"
  | key s1 s2 r where "field_name (skipWhitespace s) = Inr (key, s1)" and "key \<noteq> ''counters''"
      and "skip_value 0 s1 = Inr s2" and "skipWhitespace s2 = CHR ''}'' # r" and "e = NoCountersKey"
  | key s1 s2 r where "field_name (skipWhitespace s) = Inr (key, s1)" and "key \<noteq> ''counters''"
      and "skip_value 0 s1 = Inr s2" and "skipWhitespace s2 = CHR '','' # r" and "v7_loop ParseFloat r = Inl e"
proof (cases "field_name (skipWhitespace s)")
  case (Inl e')
  then show ?thesis using assms [unfolded v7_loop.simps [of ParseFloat s]] field_name_error that(1) by simp
next
  case (Inr p)
  note run = assms [unfolded v7_loop.simps [of ParseFloat s]]
  obtain key s1 where p: "p = (key, s1)" by force
  show ?thesis
  proof (cases "key = ''counters''")
    case True
    then show ?thesis using run Inr p parseCounterMap_error [of ParseFloat] that(1) by simp
  next
    case False
    show ?thesis
    proof (cases "skip_value 0 s1")
      case (Inl e')
      then show ?thesis using run \<open>field_name (skipWhitespace s) = Inr p\<close> p False scanner_errors(4) that(1) by simp
    next
      case s2: (Inr s2)
      show ?thesis
      proof (cases "skipWhitespace s2")
        case Nil
        then show ?thesis using run Inr p False s2 that(1) by (auto simp: plain_error_def)
      next
        case (Cons c r)
        then show ?thesis using run Inr p False s2 that by (auto simp: plain_error_def split: if_splits)
      qed
    qed
  qed
qed

lemma v7_loop_error: "v7_loop ParseFloat s = Inl e \<Longrightarrow> e \<noteq> OutOfFuel"
proof (induction s rule: measure_induct_rule [of length])
  case (less s)
  from less.prems show ?case
  proof (cases rule: v7_loop_Inl)
    case (3 key s1 s2 r)
    then show ?thesis using less.IH v7_step_shorter [OF 3(1,3,4)] by blast
  qed (auto simp: plain_error_def)
qed

text \<open>
  C40: The parser of varnishstat's output returns on every text, well-formed or not: no loop of it runs
  forever and the recursion over nested values, whose fuel the model fixes, never runs out.
\<close>

theorem varnishstat_parser_terminates: "parseVarnishstat ParseFloat s \<noteq> Inl OutOfFuel"
proof -
  have "parseVarnishstatV7 ParseFloat s \<noteq> Inl OutOfFuel"
    using v7_loop_error [of ParseFloat] scanner_errors(1) [of "CHR ''{''" s]
    by (auto simp: parseVarnishstatV7_def plain_error_def split: sum.split list.split)
  then show ?thesis
    using parseCounterMap_error [of ParseFloat _ s]
    by (auto simp: parseVarnishstat_def parseVarnishstatV6_def plain_error_def Let_def)
qed

section \<open>Truncated output\<close>

lemma skip_comma_append: "skip_comma s = c # r \<Longrightarrow> skip_comma (s @ t) = c # r @ t"
  by (auto simp: skip_comma_def skipWhitespace_append split: list.splits if_splits)

lemma field_name_append: "field_name s = Inr (k, r) \<Longrightarrow> field_name (s @ t) = Inr (k, r @ t)"
  by (auto simp: field_name_def scanString_append expectByte_append split: sum.splits)

lemma field_name_cons: "field_name s = Inr (k, r) \<Longrightarrow> s \<noteq> []"
  by (auto simp: field_name_def scanString_def)

lemma field_comma_append:
  assumes "field_name (skip_comma s) = Inr (k, r)"
  shows "field_name (skip_comma (s @ t)) = Inr (k, r @ t)"
proof -
  obtain c u where "skip_comma s = c # u" using field_name_cons [OF assms] by (cases "skip_comma s") auto
  then show ?thesis using field_name_append [OF assms, of t] by (simp add: skip_comma_append)
qed

lemma field_space_append:
  assumes "field_name (skipWhitespace s) = Inr (k, r)"
  shows "field_name (skipWhitespace (s @ t)) = Inr (k, r @ t)"
proof -
  obtain c u where "skipWhitespace s = c # u" using field_name_cons [OF assms] by (cases "skipWhitespace s") auto
  then show ?thesis using field_name_append [OF assms, of t] by (simp add: skipWhitespace_append)
qed

lemma parseCounterValue_append:
  assumes "parseCounterValue s = Inr (v, r)" and "r \<noteq> []" and "s \<noteq> []"
  shows "parseCounterValue (s @ t) = Inr (v, r @ t)"
  using assms by (auto simp: parseCounterValue_def skip_value_append scanNumber_append split: if_splits sum.splits)

lemma object_field_append:
  assumes "object_field key c num s = Inr (x, r)" and "r \<noteq> []"
  shows "object_field key c num (s @ t) = Inr (x, r @ t)"
proof -
  have "s \<noteq> []" using assms(1) by (auto simp: object_field_def)
  then show ?thesis
    using assms by (auto simp: object_field_def parseCounterValue_append scanString_append skip_value_append
        split: if_splits sum.splits)
qed

lemma skipRemainingFields_cons: "skipRemainingFields s = Inr r \<Longrightarrow> s \<noteq> []"
  by (auto simp: skipRemainingFields.simps [of "[]"] skipWhitespace_def)

lemma object_fields_cons: "object_fields ParseFloat c num s = Inr r \<Longrightarrow> s \<noteq> []"
  by (auto simp: object_fields.simps [of _ _ _ "[]"] skipWhitespace_def)

lemma skipRemainingFields_append: "skipRemainingFields s = Inr r \<Longrightarrow> skipRemainingFields (s @ t) = Inr (r @ t)"
proof (induction s rule: measure_induct_rule [of length])
  case (less s)
  from less.prems show ?case
  proof (cases rule: skipRemainingFields_Inr)
    case 1
    then show ?thesis using skipWhitespace_append [OF 1, of t] by (subst skipRemainingFields.simps) simp
  next
    case (2 b u key s1 s2)
    have "length s2 < length s" using 2 skip_value_shorter field_shorter [OF 2(1,3)] by fastforce
    then have "skipRemainingFields (s2 @ t) = Inr (r @ t)" using less.IH 2(5) by blast
    then show ?thesis
      using 2 skipWhitespace_append [OF 2(1), of t] field_comma_append [OF 2(3), of t]
        skip_value_append [OF 2(4) skipRemainingFields_cons [OF 2(5)], of t]
      by (subst skipRemainingFields.simps) simp
  qed
qed

lemma object_fields_append:
  "object_fields ParseFloat c num s = Inr (v, r) \<Longrightarrow> object_fields ParseFloat c num (s @ t) = Inr (v, r @ t)"
proof (induction s arbitrary: c num rule: measure_induct_rule [of length])
  case (less s)
  from less.prems show ?case
  proof (cases rule: object_fields_Inr)
    case 1
    then show ?thesis using skipWhitespace_append [OF 1(1), of t] by (subst object_fields.simps) simp
  next
    case (2 b u key s1 c' num' s2)
    obtain d w where s1: "skipWhitespace s1 = d # w"
      using 2(4) by (cases "skipWhitespace s1") (auto simp: object_field_def)
    then show ?thesis
      using 2 skipWhitespace_append [OF 2(1), of t] field_comma_append [OF 2(3), of t]
        object_field_append [OF 2(4) skipRemainingFields_cons [OF 2(5)], of t]
        skipWhitespace_append [OF s1, of t] skipRemainingFields_append [OF 2(5), of t]
      by (subst object_fields.simps) simp
  next
    case (3 b u key s1 c' num' s2)
    obtain d w where s1: "skipWhitespace s1 = d # w"
      using 3(4) by (cases "skipWhitespace s1") (auto simp: object_field_def)
    have "object_fields ParseFloat c' num' (s2 @ t) = Inr (v, r @ t)"
      using less.IH field_step_shorter [OF 3(1,3,4)] 3(5) by blast
    then show ?thesis
      using 3 skipWhitespace_append [OF 3(1), of t] field_comma_append [OF 3(3), of t]
        object_field_append [OF 3(4) object_fields_cons [OF 3(5)], of t] skipWhitespace_append [OF s1, of t] s1
      by (subst object_fields.simps) simp
  qed
qed

lemma map_entry_append:
  assumes "map_entry ParseFloat skipKey key s = Inr (v, r)" and "r \<noteq> []"
  shows "map_entry ParseFloat skipKey key (s @ t) = Inr (v, r @ t)"
proof -
  have "s \<noteq> []" using map_entry_shorter [OF assms(1)] by auto
  then obtain c u where s: "s = c # u" by (cases s) auto
  then show ?thesis
    using assms skip_value_append [OF _ assms(2), of 0 s t]
    by (auto simp: map_entry_def Let_def object_fields_append split: if_splits sum.splits)
qed

lemma map_loop_Inr:
  assumes "map_loop ParseFloat skipKey m s = Inr res"
  obtains key s1 v s2 c r where "field_name (skipWhitespace s) = Inr (key, s1)"
      and "map_entry ParseFloat skipKey key (skipWhitespace s1) = Inr (v, s2)" and "skipWhitespace s2 = c # r"
      and "c = CHR ''}'' \<and> res = add_counter key v m \<or>
        c = CHR '','' \<and> map_loop ParseFloat skipKey (add_counter key v m) r = Inr res"
  using assms by (subst (asm) map_loop.simps) (auto split: list.splits if_splits sum.splits)

lemma map_loop_append: "map_loop ParseFloat skipKey m s = Inr res \<Longrightarrow> map_loop ParseFloat skipKey m (s @ t) = Inr res"
proof (induction s arbitrary: m rule: measure_induct_rule [of length])
  case (less s)
  from less.prems show ?case
  proof (cases rule: map_loop_Inr)
    case (1 key s1 v s2 c r)
    obtain d w where s1: "skipWhitespace s1 = d # w"
      using map_entry_shorter [OF 1(2)] by (cases "skipWhitespace s1") auto
    have "s2 \<noteq> []" using 1(3) by (auto simp: skipWhitespace_def)
    then have e: "map_entry ParseFloat skipKey key (d # w @ t) = Inr (v, s2 @ t)"
      using map_entry_append [OF 1(2), of t] s1 by simp
    show ?thesis
      using 1 e less.IH [OF map_step_shorter [OF 1(1,2,3)]] field_space_append [OF 1(1), of t]
        skipWhitespace_append [OF s1, of t] skipWhitespace_append [OF 1(3), of t]
      by (subst map_loop.simps) auto
  qed
qed

lemma map_loop_Nil: "map_loop ParseFloat skipKey m [] = Inl ExpectedQuote"
  by (subst map_loop.simps) (simp add: field_name_def scanString_def skipWhitespace_def)

lemma parseCounterMap_append:
  assumes "parseCounterMap ParseFloat skipKey s = Inr m"
  shows "parseCounterMap ParseFloat skipKey (s @ t) = Inr m"
proof -
  obtain s1 where s1: "expectByte (CHR ''{'') s = Inr s1"
    using assms by (auto simp: parseCounterMap_def split: sum.splits)
  obtain c r where r: "skipWhitespace s1 = c # r"
    using assms s1 by (cases "skipWhitespace s1") (auto simp: parseCounterMap_def map_loop_Nil)
  then show ?thesis
    using assms s1 expectByte_append [OF s1, of t] skipWhitespace_append [OF r, of t]
      map_loop_append [of ParseFloat skipKey fmempty "c # r" m t]
    by (auto simp: parseCounterMap_def split: if_splits)
qed

text \<open>The outcomes of the outer object that decide the scrape: its counters, or that it has none.\<close>

definition decided :: "scan_error + 'm \<Rightarrow> bool" where
  "decided res \<longleftrightarrow> (case res of Inl e \<Rightarrow> e = NoCountersKey | Inr m \<Rightarrow> True)"

lemma v7_loop_append:
  "v7_loop ParseFloat s = res \<Longrightarrow> decided res \<Longrightarrow> v7_loop ParseFloat (s @ t) = res"
proof (induction s rule: measure_induct_rule [of length])
  case (less s)
  have ne: "\<not> plain_error e" if "res = Inl e" for e
    using less.prems(2) that by (simp add: decided_def plain_error_def)
  obtain key s1 where s1: "field_name (skipWhitespace s) = Inr (key, s1)"
    using less.prems ne
    by (subst (asm) v7_loop.simps) (auto dest: field_name_error split: sum.splits)
  have f: "field_name (skipWhitespace (s @ t)) = Inr (key, s1 @ t)" using s1 by (rule field_space_append)
  show ?case
  proof (cases "key = ''counters''")
    case True
    then have "parseCounterMap ParseFloat (\<lambda>_. False) s1 = res"
      using less.prems(1) s1 by (subst (asm) v7_loop.simps) simp
    moreover from this obtain m where "res = Inr m"
      using ne parseCounterMap_error by (cases res) blast+
    ultimately have "parseCounterMap ParseFloat (\<lambda>_. False) (s1 @ t) = res" using parseCounterMap_append by metis
    then show ?thesis using f True by (subst v7_loop.simps) simp
  next
    case False
    obtain s2 where s2: "skip_value 0 s1 = Inr s2"
      using less.prems ne s1 False
      by (subst (asm) v7_loop.simps) (auto dest: scanner_errors split: sum.splits)
    obtain c r where r: "skipWhitespace s2 = c # r"
      using less.prems(1) ne s1 s2 False
      by (subst (asm) v7_loop.simps) (auto simp: plain_error_def split: list.splits)
    have "s2 \<noteq> []" using r by (auto simp: skipWhitespace_def)
    then have v: "skip_value 0 (s1 @ t) = Inr (s2 @ t)" using skip_value_append [OF s2] by blast
    have "length r < length s" using v7_step_shorter [OF s1 s2 r] .
    then show ?thesis
      using less.prems less.IH [of r] f v False s1 s2 r skipWhitespace_append [OF r, of t] ne
      by (subst v7_loop.simps, subst (asm) v7_loop.simps) (auto simp: plain_error_def split: if_splits)
  qed
qed


lemma parse_prefix:
  assumes "prefix p s" and "parseVarnishstat ParseFloat p = Inr m"
  shows "parseVarnishstat ParseFloat s = Inr m"
proof -
  obtain t where s: "s = p @ t" using assms(1) by (auto simp: prefix_def)
  have v7: "parseVarnishstatV7 ParseFloat (p @ t) = parseVarnishstatV7 ParseFloat p"
    if d: "decided (parseVarnishstatV7 ParseFloat p)"
  proof -
    obtain s1 where s1: "expectByte (CHR ''{'') p = Inr s1"
      using d scanner_errors(1) [of "CHR ''{''" p]
      by (auto simp: parseVarnishstatV7_def decided_def plain_error_def split: sum.splits)
    have nil: "v7_loop ParseFloat [] = Inl ExpectedQuote"
      by (subst v7_loop.simps) (simp add: field_name_def scanString_def skipWhitespace_def)
    obtain c r where r: "skipWhitespace s1 = c # r"
      using d s1 nil by (cases "skipWhitespace s1") (auto simp: parseVarnishstatV7_def decided_def)
    show ?thesis
      using d s1 r expectByte_append [OF s1, of t] skipWhitespace_append [OF r, of t]
        v7_loop_append [of ParseFloat "c # r" _ t, OF refl]
      by (auto simp: parseVarnishstatV7_def split: if_splits)
  qed
  have "decided (parseVarnishstatV7 ParseFloat p)"
    using assms(2) by (auto simp: parseVarnishstat_def decided_def Let_def split: if_splits sum.splits)
  then have "parseVarnishstatV7 ParseFloat s = parseVarnishstatV7 ParseFloat p" using v7 s by simp
  then show ?thesis
    using assms(2) parseCounterMap_append [of ParseFloat _ p m t] s
    by (auto simp: parseVarnishstat_def parseVarnishstatV6_def Let_def split: if_splits)
qed

end
