(* ===== verification/VarnishstatFormat.thy ===== *)
theory VarnishstatFormat
  imports VarnishstatParser
begin

text \<open>
  What varnishstat prints, as a grammar that does not mention the parser: JSON texts (RFC 8259, with
  strings that need no escape), the object of a counter, and the documents of the two schemas. The
  theorems at the end say that the parser reads every such document as what it denotes.
\<close>

section \<open>JSON texts\<close>

definition quoted :: "string \<Rightarrow> string" where
  "quoted x = CHR 0x22 # x @ [CHR 0x22]"

definition plain :: "string \<Rightarrow> bool" where
  "plain x \<longleftrightarrow> CHR 0x22 \<notin> set x \<and> CHR 0x5C \<notin> set x"

definition spaces :: "string \<Rightarrow> bool" where
  "spaces w \<longleftrightarrow> list_all json_space w"

definition digits :: "string \<Rightarrow> bool" where
  "digits w \<longleftrightarrow> w \<noteq> [] \<and> list_all is_digit w"

text \<open>An optional sign, digits, an optional fraction and an optional exponent.\<close>

definition number_lit :: "string \<Rightarrow> bool" where
  "number_lit w \<longleftrightarrow>
     (\<exists>sign ip fp ex. w = sign @ ip @ fp @ ex \<and> sign \<in> {[], ''-''} \<and> digits ip \<and>
        (fp = [] \<or> (\<exists>ds. fp = CHR ''.'' # ds \<and> digits ds)) \<and>
        (ex = [] \<or> (\<exists>e sg ds. ex = e # sg @ ds \<and> e \<in> {CHR ''e'', CHR ''E''} \<and> sg \<in> {[], ''+'', ''-''} \<and>
           digits ds)))"

inductive value_text :: "nat \<Rightarrow> string \<Rightarrow> bool"
  and members_text :: "nat \<Rightarrow> string \<Rightarrow> bool"
  and items_text :: "nat \<Rightarrow> string \<Rightarrow> bool"
where
  str: "plain x \<Longrightarrow> value_text d (quoted x)"
| num: "number_lit w \<Longrightarrow> value_text d w"
| lit: "w \<in> {''true'', ''false'', ''null''} \<Longrightarrow> value_text d w"
| obj0: "spaces a \<Longrightarrow> value_text (Suc d) (CHR ''{'' # a @ ''}'')"
| obj: "members_text d w \<Longrightarrow> value_text (Suc d) (CHR ''{'' # w @ ''}'')"
| arr0: "spaces a \<Longrightarrow> value_text (Suc d) (CHR ''['' # a @ '']'')"
| arr: "items_text d w \<Longrightarrow> value_text (Suc d) (CHR ''['' # w @ '']'')"
| member: "spaces a \<Longrightarrow> plain k \<Longrightarrow> spaces b \<Longrightarrow> spaces c \<Longrightarrow> value_text d v \<Longrightarrow> spaces e \<Longrightarrow>
    members_text d (a @ quoted k @ b @ CHR '':'' # c @ v @ e)"
| members: "spaces a \<Longrightarrow> plain k \<Longrightarrow> spaces b \<Longrightarrow> spaces c \<Longrightarrow> value_text d v \<Longrightarrow> spaces e \<Longrightarrow> members_text d w \<Longrightarrow>
    members_text d (a @ quoted k @ b @ CHR '':'' # c @ v @ e @ CHR '','' # w)"
| item: "spaces c \<Longrightarrow> value_text d v \<Longrightarrow> spaces e \<Longrightarrow> items_text d (c @ v @ e)"
| items: "spaces c \<Longrightarrow> value_text d v \<Longrightarrow> spaces e \<Longrightarrow> items_text d w \<Longrightarrow> items_text d (c @ v @ e @ CHR '','' # w)"

section \<open>The scanner reads them\<close>

lemma skipWhitespace_spaces: "spaces w \<Longrightarrow> skipWhitespace (w @ s) = skipWhitespace s"
  by (induction w) (simp_all add: spaces_def skipWhitespace_def)

lemma skipWhitespace_id: "\<not> json_space c \<Longrightarrow> skipWhitespace (c # r) = c # r"
  by (simp add: skipWhitespace_def)

lemma no_space [simp]:
  "\<not> json_space (CHR 0x22)" "\<not> json_space (CHR ''{'')" "\<not> json_space (CHR ''}'')" "\<not> json_space (CHR ''['')"
  "\<not> json_space (CHR '']'')" "\<not> json_space (CHR '':'')" "\<not> json_space (CHR '','')" "\<not> json_space (CHR ''t'')"
  "\<not> json_space (CHR ''f'')" "\<not> json_space (CHR ''n'')" "\<not> json_space (CHR ''-'')"
  by (simp_all add: json_space_def)

lemma digit_no_space: "is_digit c \<Longrightarrow> \<not> json_space c"
  by (auto simp: json_space_def is_digit_iff)

lemma string_close_plain: "plain x \<Longrightarrow> string_close esc (x @ CHR 0x22 # r) = Inr (esc, r)"
  by (induction x) (auto simp: plain_def)

lemma scanString_quoted: "plain x \<Longrightarrow> scanString (quoted x @ r) = Inr (x, r)"
  by (simp add: scanString_def quoted_def string_close_plain Let_def)

lemma expectByte_spaces: "spaces a \<Longrightarrow> \<not> json_space b \<Longrightarrow> expectByte b (a @ b # r) = Inr r"
  by (simp add: expectByte_def skipWhitespace_spaces skipWhitespace_id)

text \<open>What ends a number.\<close>

definition num_stop :: "string \<Rightarrow> bool" where
  "num_stop r \<longleftrightarrow> (case r of [] \<Rightarrow> True | c # _ \<Rightarrow> \<not> is_digit c \<and> c \<notin> set ''.eE'')"

lemma skip_digits_stop: "list_all is_digit ds \<Longrightarrow> (case r of [] \<Rightarrow> True | c # _ \<Rightarrow> \<not> is_digit c) \<Longrightarrow> skip_digits (ds @ r) = r"
  by (induction ds) (auto simp: skip_digits_def split: list.splits)

lemma scanNumber_lit:
  assumes "number_lit w" and "num_stop r"
  shows "scanNumber (w @ r) = Inr (w, r)"
proof -
  obtain sign ip fp ex where w: "w = sign @ ip @ fp @ ex" "sign \<in> {[], ''-''}" "digits ip"
    and fp: "fp = [] \<or> (\<exists>ds. fp = CHR ''.'' # ds \<and> digits ds)"
    and ex: "ex = [] \<or> (\<exists>e sg ds. ex = e # sg @ ds \<and> e \<in> {CHR ''e'', CHR ''E''} \<and> sg \<in> {[], ''+'', ''-''} \<and> digits ds)"
    using assms(1) unfolding number_lit_def by blast
  have stop: "case r of [] \<Rightarrow> True | c # _ \<Rightarrow> \<not> is_digit c \<and> c \<noteq> CHR ''.'' \<and> c \<noteq> CHR ''e'' \<and> c \<noteq> CHR ''E''"
    using assms(2) by (simp add: num_stop_def split: list.splits)
  have nd: "\<not> is_digit (CHR ''.'')" "\<not> is_digit (CHR ''e'')" "\<not> is_digit (CHR ''E'')" "\<not> is_digit (CHR ''-'')"
    "\<not> is_digit (CHR ''+'')"
    by (simp_all add: is_digit_iff)
  have e: "skip_exponent (ex @ r) = r"
  proof (cases "ex = []")
    case True
    then show ?thesis using stop by (simp add: skip_exponent_def split: list.splits)
  next
    case False
    then obtain c sg ds where x: "ex = c # sg @ ds" "c \<in> {CHR ''e'', CHR ''E''}" "sg \<in> {[], ''+'', ''-''}" "digits ds"
      using ex by blast
    obtain d ds' where ds: "ds = d # ds'" "is_digit d" using x(4) by (cases ds) (auto simp: digits_def)
    have "skip_sign {CHR ''+'', CHR ''-''} (sg @ ds @ r) = ds @ r"
      using x(3) ds nd by (auto simp: skip_sign_def)
    moreover have "skip_digits (ds @ r) = r"
      using x(4) stop by (intro skip_digits_stop) (auto simp: digits_def split: list.splits)
    ultimately show ?thesis using x(1,2) by (auto simp: skip_exponent_def)
  qed
  have f: "skip_fraction (fp @ ex @ r) = ex @ r"
  proof (cases "fp = []")
    case True
    then show ?thesis using ex stop by (cases "ex @ r") (auto simp: skip_fraction_def)
  next
    case False
    then obtain ds where "fp = CHR ''.'' # ds" "digits ds" using fp by blast
    moreover have "case ex @ r of [] \<Rightarrow> True | c # _ \<Rightarrow> \<not> is_digit c"
      using ex stop nd by (cases "ex @ r") (auto split: list.splits)
    ultimately show ?thesis by (simp add: skip_fraction_def skip_digits_stop digits_def)
  qed
  obtain d ip' where ip: "ip = d # ip'" "is_digit d" using w(3) by (cases ip) (auto simp: digits_def)
  have d: "skip_digits (ip @ fp @ ex @ r) = fp @ ex @ r"
  proof (rule skip_digits_stop)
    show "case fp @ ex @ r of [] \<Rightarrow> True | c # _ \<Rightarrow> \<not> is_digit c"
      using fp ex stop nd by (cases "fp @ ex @ r") (auto simp: Cons_eq_append_conv split: list.splits)
  qed (use w(3) in \<open>simp add: digits_def\<close>)
  have s: "skip_sign {CHR ''-''} (w @ r) = ip @ fp @ ex @ r"
    using w(1,2) ip nd by (auto simp: skip_sign_def)
  show ?thesis using s d e f w(1) ip by (simp add: scanNumber_def Let_def)
qed

lemma number_head:
  assumes "number_lit w"
  obtains c t where "w = c # t" and "c = CHR ''-'' \<or> is_digit c"
proof -
  obtain sign ip rest where v: "w = sign @ ip @ rest" "sign \<in> {[], ''-''}" "digits ip"
    using assms unfolding number_lit_def by blast
  then show ?thesis by (intro that [of "hd w" "tl w"]) (cases ip; auto simp: digits_def)+
qed

lemma value_head:
  assumes "value_text d v"
  shows "\<exists>c t. v = c # t \<and> \<not> json_space c \<and> c \<noteq> CHR '']''"
  using assms
proof (cases rule: value_text.cases)
  case num
  then obtain c t where "v = c # t" "c = CHR ''-'' \<or> is_digit c" using number_head by blast
  then show ?thesis using digit_no_space by (auto simp: is_digit_iff)
next
  case lit
  then have "v = ''true'' \<or> v = ''false'' \<or> v = ''null''" by simp
  then show ?thesis by (elim disjE) simp_all
qed (simp_all add: quoted_def)

lemma skipValue_spaces: "spaces c \<Longrightarrow> skipValue n d (c @ s) = skipValue n d s"
  by (cases n) (simp_all add: skipWhitespace_spaces)

lemma num_stop_spaces: "spaces e \<Longrightarrow> c \<in> set '',}]'' \<Longrightarrow> num_stop (e @ c # r)"
  by (cases e) (auto simp: num_stop_def spaces_def json_space_def is_digit_iff)

lemma skipWhitespace_idem [simp]: "skipWhitespace (skipWhitespace s) = skipWhitespace s"
  by (simp add: skipWhitespace_def)

lemma loop_space:
  "object_loop n d (skipWhitespace s) = object_loop n d s" "array_loop n d (skipWhitespace s) = array_loop n d s"
proof -
  have "skipValue m d (skipWhitespace s) = skipValue m d s" for m by (cases m) simp_all
  then show "object_loop n d (skipWhitespace s) = object_loop n d s"
    "array_loop n d (skipWhitespace s) = array_loop n d s" by (cases n; simp)+
qed

lemma members_head: "members_text k w \<Longrightarrow> \<exists>t. skipWhitespace (w @ s) = CHR 0x22 # t"
  by (cases rule: members_text.cases) (auto simp: skipWhitespace_spaces quoted_def skipWhitespace_id)

lemma items_head: "items_text k w \<Longrightarrow> \<exists>c t. skipWhitespace (w @ s) = c # t \<and> c \<noteq> CHR '']''"
  by (cases rule: items_text.cases)
    (auto simp: skipWhitespace_spaces skipWhitespace_id dest!: value_head)

lemma object_step:
  assumes "spaces a" and "plain k" and "spaces b" and "spaces c" and "spaces e"
    and "skipValue n d (v @ e @ x # r) = Inr (e @ x # r)" and "x \<in> set '',}''"
  shows "object_loop (Suc n) d (a @ quoted k @ b @ CHR '':'' # c @ v @ e @ x # r) =
    (if x = CHR ''}'' then Inr r else object_loop n d r)"
proof -
  have "skipWhitespace (a @ quoted k @ b @ CHR '':'' # c @ v @ e @ x # r) = quoted k @ b @ CHR '':'' # c @ v @ e @ x # r"
    using assms(1) by (simp add: skipWhitespace_spaces quoted_def skipWhitespace_id)
  moreover have "skipWhitespace (e @ x # r) = x # r"
    using assms(5,7) by (auto simp: skipWhitespace_spaces skipWhitespace_id)
  ultimately show ?thesis
    using assms by (auto simp: scanString_quoted expectByte_spaces skipValue_spaces)
qed

lemma array_step:
  assumes "spaces c" and "spaces e" and "skipValue n d (v @ e @ x # r) = Inr (e @ x # r)" and "x \<in> set '',]''"
  shows "array_loop (Suc n) d (c @ v @ e @ x # r) = (if x = CHR '']'' then Inr r else array_loop n d r)"
  using assms by (auto simp: skipValue_spaces skipWhitespace_spaces skipWhitespace_id)

lemma skip_text:
  "value_text k v \<Longrightarrow> d + k \<le> maxNestingDepth \<Longrightarrow> num_stop r \<Longrightarrow> 3 * length (v @ r) + 3 \<le> n \<Longrightarrow>
     skipValue n d (v @ r) = Inr r"
  "members_text k w \<Longrightarrow> d + k \<le> maxNestingDepth \<Longrightarrow> 3 * length (w @ CHR ''}'' # r) + 4 \<le> n \<Longrightarrow>
     object_loop n d (w @ CHR ''}'' # r) = Inr r"
  "items_text k w \<Longrightarrow> d + k \<le> maxNestingDepth \<Longrightarrow> 3 * length (w @ CHR '']'' # r) + 4 \<le> n \<Longrightarrow>
     array_loop n d (w @ CHR '']'' # r) = Inr r"
proof (induction arbitrary: d r n and d r n and d r n rule: value_text_members_text_items_text.inducts)
  case (str x k)
  then obtain m where m: "n = Suc m" by (cases n) auto
  then show ?case using scanString_quoted [OF str(1), of r] by (simp add: quoted_def skipWhitespace_id)
next
  case (num w k)
  then obtain m where m: "n = Suc m" by (cases n) auto
  obtain c t where w: "w = c # t" "c = CHR ''-'' \<or> is_digit c" using number_head [OF num(1)] .
  then have "\<not> json_space c" "c \<notin> set ''\"{[tfn''" using digit_no_space by (auto simp: is_digit_iff)
  then show ?case using scanNumber_lit [OF num(1,3)] w m by (simp add: skipWhitespace_id)
next
  case (lit w k)
  then obtain m where m: "n = Suc m" by (cases n) auto
  then show ?case using lit by (auto simp: skipWhitespace_id skipLiteral_def)
next
  case (obj0 a k)
  then obtain m where m: "n = Suc (Suc m)" by (cases n; cases "n - 1") auto
  then show ?case using obj0 by (simp add: skipWhitespace_id skipWhitespace_spaces)
next
  case (obj k w)
  then obtain m where m: "n = Suc (Suc m)" by (cases n; cases "n - 1") auto
  obtain t where t: "skipWhitespace (w @ CHR ''}'' # r) = CHR 0x22 # t" using members_head [OF obj(1)] by blast
  have "object_loop m (Suc d) (w @ CHR ''}'' # r) = Inr r" using obj m by (intro obj.IH) simp_all
  then have "object_loop m (Suc d) (CHR 0x22 # t) = Inr r" using loop_space(1) t by metis
  then show ?case using m t obj.prems(1) by (simp add: skipWhitespace_id)
next
  case (arr0 a k)
  then obtain m where m: "n = Suc (Suc m)" by (cases n; cases "n - 1") auto
  then show ?case using arr0 by (simp add: skipWhitespace_id skipWhitespace_spaces)
next
  case (arr k w)
  then obtain m where m: "n = Suc (Suc m)" by (cases n; cases "n - 1") auto
  obtain c t where t: "skipWhitespace (w @ CHR '']'' # r) = c # t" "c \<noteq> CHR '']''" using items_head [OF arr(1)] by blast
  have "array_loop m (Suc d) (w @ CHR '']'' # r) = Inr r" using arr m by (intro arr.IH) simp_all
  then have "array_loop m (Suc d) (c # t) = Inr r" using loop_space(2) t by metis
  then show ?case using m t arr.prems(1) by (simp add: skipWhitespace_id)
next
  case (member a k b c dd v e)
  then obtain m where m: "n = Suc m" by (cases n) auto
  have "skipValue m d (v @ e @ CHR ''}'' # r) = Inr (e @ CHR ''}'' # r)"
    using member m by (intro member.IH num_stop_spaces) (simp_all add: quoted_def)
  then show ?case using object_step [OF member(1-4,6), where x = "CHR ''}''"] m by simp
next
  case (members a k b c dd v e w)
  then obtain m where m: "n = Suc m" by (cases n) auto
  have "skipValue m d (v @ e @ CHR '','' # w @ CHR ''}'' # r) = Inr (e @ CHR '','' # w @ CHR ''}'' # r)"
    using members m by (intro members.IH num_stop_spaces) (simp_all add: quoted_def)
  moreover have "object_loop m d (w @ CHR ''}'' # r) = Inr r"
    using members m by (intro members.IH) (simp_all add: quoted_def)
  ultimately show ?case using object_step [OF members(1-4,6), where x = "CHR '',''"] m by simp
next
  case (item c dd v e)
  then obtain m where m: "n = Suc m" by (cases n) auto
  have "skipValue m d (v @ e @ CHR '']'' # r) = Inr (e @ CHR '']'' # r)"
    using item m by (intro item.IH num_stop_spaces) simp_all
  then show ?case using array_step [OF item(1,3), where x = "CHR '']''"] m by simp
next
  case (items c dd v e w)
  then obtain m where m: "n = Suc m" by (cases n) auto
  have "skipValue m d (v @ e @ CHR '','' # w @ CHR '']'' # r) = Inr (e @ CHR '','' # w @ CHR '']'' # r)"
    using items m by (intro items.IH num_stop_spaces) simp_all
  moreover have "array_loop m d (w @ CHR '']'' # r) = Inr r"
    using items m by (intro items.IH) simp_all
  ultimately show ?case using array_step [OF items(1,3), where x = "CHR '',''"] m by simp
qed


lemma skip_value_text:
  assumes "value_text k v" and "k \<le> maxNestingDepth" and "num_stop r" and "spaces c"
  shows "skip_value 0 (c @ v @ r) = Inr r"
  using assms unfolding skip_value_def skipValue_spaces [OF assms(4)] by (intro skip_text(1)) simp_all

lemma skip_value_text0:
  "value_text k v \<Longrightarrow> k \<le> maxNestingDepth \<Longrightarrow> num_stop r \<Longrightarrow> skip_value 0 (v @ r) = Inr r"
  using skip_value_text [of k v r "[]"] by (simp add: spaces_def)

lemma quoted_nonempty [simp]: "quoted x \<noteq> []"
  by (simp add: quoted_def)

section \<open>Counters and documents\<close>

text \<open>The members of the object of a counter; other members are kept with their name and text.\<close>

datatype counter_field =
    FDescription string | FFlag string | FIdent string | FValue string | FOther string string

fun field_body :: "counter_field \<Rightarrow> string \<times> string" where
  "field_body (FDescription x) = (''description'', quoted x)"
| "field_body (FFlag x) = (''flag'', quoted x)"
| "field_body (FIdent x) = (''ident'', quoted x)"
| "field_body (FValue w) = (''value'', w)"
| "field_body (FOther k v) = (k, v)"

fun field_wf :: "counter_field \<Rightarrow> bool" where
  "field_wf (FDescription x) \<longleftrightarrow> plain x"
| "field_wf (FFlag x) \<longleftrightarrow> plain x"
| "field_wf (FIdent x) \<longleftrightarrow> plain x"
| "field_wf (FValue w) \<longleftrightarrow> number_lit w"
| "field_wf (FOther k v) \<longleftrightarrow> plain k \<and> k \<notin> {''description'', ''flag'', ''ident'', ''value''} \<and>
     value_text (maxNestingDepth - 1) v"

inductive fields_text :: "counter_field list \<Rightarrow> string \<Rightarrow> bool" where
  one: "field_wf f \<Longrightarrow> field_body f = (k, v) \<Longrightarrow> spaces a \<Longrightarrow> spaces b \<Longrightarrow> spaces c \<Longrightarrow> spaces e \<Longrightarrow>
    fields_text [f] (a @ quoted k @ b @ CHR '':'' # c @ v @ e)"
| more: "field_wf f \<Longrightarrow> field_body f = (k, v) \<Longrightarrow> spaces a \<Longrightarrow> spaces b \<Longrightarrow> spaces c \<Longrightarrow> spaces e \<Longrightarrow>
    fields_text fs w \<Longrightarrow> fields_text (f # fs) (a @ quoted k @ b @ CHR '':'' # c @ v @ e @ CHR '','' # w)"

text \<open>The counter that a list of members denotes: the last occurrence of a member counts.\<close>

fun read_field :: "counter_field \<Rightarrow> counter_head \<times> string option \<Rightarrow> counter_head \<times> string option" where
  "read_field (FDescription x) (c, num) = (c\<lparr>vc_Description := x\<rparr>, num)"
| "read_field (FFlag x) (c, num) = (c\<lparr>vc_Flag := x\<rparr>, num)"
| "read_field (FIdent x) (c, num) = (c\<lparr>vc_Ident := x\<rparr>, num)"
| "read_field (FValue w) (c, num) = (c, Some w)"
| "read_field (FOther k v) (c, num) = (c, num)"

definition finish :: "(string \<Rightarrow> 'f option) \<Rightarrow> counter_head \<times> string option \<Rightarrow> 'f varnishstatCounter option" where
  "finish ParseFloat st = (case st of (c, None) \<Rightarrow> None | (c, Some w) \<Rightarrow> finish_counter ParseFloat c w)"

definition counter_of :: "(string \<Rightarrow> 'f option) \<Rightarrow> counter_field list \<Rightarrow> 'f varnishstatCounter option" where
  "counter_of ParseFloat fs = finish ParseFloat (fold read_field fs (no_head, None))"

lemma plain_names [simp]:
  "plain ''description''" "plain ''flag''" "plain ''ident''" "plain ''value''" "plain ''counters''"
  by (simp_all add: plain_def)

lemma field_wf_plain: "field_wf f \<Longrightarrow> field_body f = (k, v) \<Longrightarrow> plain k"
  by (cases f) auto

lemma field_value_text: "field_wf f \<Longrightarrow> field_body f = (k, v) \<Longrightarrow> value_text (maxNestingDepth - 1) v"
  by (cases f) (auto intro: str num)

lemma field_name_text:
  "plain k \<Longrightarrow> spaces b \<Longrightarrow> field_name (quoted k @ b @ CHR '':'' # s) = Inr (k, s)"
  by (simp add: field_name_def scanString_quoted expectByte_spaces)

lemma object_field_text:
  assumes "field_wf f" and "field_body f = (k, v)" and "num_stop r"
  shows "object_field k c num (v @ r) = Inr ((fst (read_field f (c, num)), snd (read_field f (c, num)), False), r)"
proof -
  have q: "object_field n c num (quoted x @ r) =
      (if n = ''flag'' then Inr ((c\<lparr>vc_Flag := x\<rparr>, num, False), r)
       else if n = ''description'' then Inr ((c\<lparr>vc_Description := x\<rparr>, num, False), r)
       else Inr ((c\<lparr>vc_Ident := x\<rparr>, num, False), r))"
    if "plain x" "n \<in> {''flag'', ''description'', ''ident''}" for n x
    using that(2) scanString_quoted [OF that(1), of r] by (auto simp: object_field_def)
  show ?thesis
  proof (cases f)
    case (FValue w)
    then have w: "number_lit w" "k = ''value''" "v = w" using assms by auto
    obtain d t where d: "w = d # t" "d = CHR ''-'' \<or> is_digit d" using number_head [OF w(1)] .
    then have "d \<notin> {CHR 0x22, CHR ''n'', CHR ''['', CHR ''{'', CHR ''t'', CHR ''f''}" by (auto simp: is_digit_iff)
    then show ?thesis
      using w FValue scanNumber_lit [OF w(1) assms(3)] d(1)
      by (simp add: object_field_def parseCounterValue_def)
  next
    case (FOther k' v')
    then have "skip_value 0 (v @ r) = Inr r"
      using assms by (intro skip_value_text0 [of "maxNestingDepth - 1"]) simp_all
    moreover have "v \<noteq> []" using FOther assms(1,2) value_head by fastforce
    ultimately show ?thesis using FOther assms(1,2) by (auto simp: object_field_def)
  next
    case (FDescription x)
    then show ?thesis using assms q [of x "''description''"] by auto
  next
    case (FFlag x)
    then show ?thesis using assms q [of x "''flag''"] by auto
  next
    case (FIdent x)
    then show ?thesis using assms q [of x "''ident''"] by auto
  qed
qed

lemma value_no_space: "value_text k v \<Longrightarrow> skipWhitespace (v @ r) = v @ r"
  using value_head by (fastforce simp: skipWhitespace_id)

lemma fields_head: "fields_text fs w \<Longrightarrow> \<exists>t. skipWhitespace (w @ s) = CHR 0x22 # t"
  by (cases rule: fields_text.cases) (auto simp: skipWhitespace_spaces quoted_def skipWhitespace_id)

lemma object_fields_comma:
  assumes "spaces e" and "skipWhitespace s = CHR 0x22 # t"
  shows "object_fields ParseFloat c num (e @ CHR '','' # s) = object_fields ParseFloat c num s"
proof -
  have "skipWhitespace (e @ CHR '','' # s) = CHR '','' # s"
    using assms(1) by (simp add: skipWhitespace_spaces skipWhitespace_id)
  moreover have "skip_comma (CHR '','' # s) = CHR 0x22 # t" "skip_comma (CHR 0x22 # t) = CHR 0x22 # t"
    using assms(2) by (simp_all add: skip_comma_def)
  ultimately show ?thesis
    using assms(2) by (simp add: object_fields.simps [of ParseFloat c num s]
        object_fields.simps [of ParseFloat c num "e @ CHR '','' # s"])
qed

lemma object_fields_step:
  assumes "field_wf f" and "field_body f = (k, v)" and "spaces a" and "spaces b" and "spaces x" and "num_stop r"
  shows "object_fields ParseFloat c num (a @ quoted k @ b @ CHR '':'' # x @ v @ r) =
    object_fields ParseFloat (fst (read_field f (c, num))) (snd (read_field f (c, num))) r"
proof -
  have ws: "skipWhitespace (a @ quoted k @ b @ CHR '':'' # x @ v @ r) = quoted k @ b @ CHR '':'' # x @ v @ r"
    using assms(3) by (simp add: skipWhitespace_spaces quoted_def skipWhitespace_id)
  have q: "quoted k @ b @ CHR '':'' # x @ v @ r = CHR 0x22 # k @ CHR 0x22 # b @ CHR '':'' # x @ v @ r"
    by (simp add: quoted_def)
  have "skipWhitespace (x @ v @ r) = v @ r"
    using assms(5) value_no_space [OF field_value_text [OF assms(1,2)]] by (simp add: skipWhitespace_spaces)
  moreover have "skip_comma (quoted k @ b @ CHR '':'' # x @ v @ r) = quoted k @ b @ CHR '':'' # x @ v @ r"
    by (simp add: skip_comma_def q)
  ultimately show ?thesis
    using ws q field_name_text [OF field_wf_plain [OF assms(1,2)] assms(4), of "x @ v @ r"]
      object_field_text [OF assms(1,2,6), of c num]
    by (subst object_fields.simps) simp
qed

lemma object_fields_text:
  "fields_text fs w \<Longrightarrow> object_fields ParseFloat c num (w @ CHR ''}'' # r) =
     Inr (finish ParseFloat (fold read_field fs (c, num)), r)"
proof (induction arbitrary: c num rule: fields_text.induct)
  case (one f k v a b x e)
  have "num_stop (e @ CHR ''}'' # r)" using one by (simp add: num_stop_spaces)
  then have "object_fields ParseFloat c num ((a @ quoted k @ b @ CHR '':'' # x @ v @ e) @ CHR ''}'' # r) =
      object_fields ParseFloat (fst (read_field f (c, num))) (snd (read_field f (c, num))) (e @ CHR ''}'' # r)"
    using object_fields_step [OF one(1-5)] by simp
  also have "\<dots> = Inr (finish ParseFloat (read_field f (c, num)), r)"
    using one(6) by (subst object_fields.simps)
      (auto simp: skipWhitespace_spaces skipWhitespace_id finish_def split: prod.split option.split)
  finally show ?case by simp
next
  case (more f k v a b x e fs w)
  have "num_stop (e @ CHR '','' # w @ CHR ''}'' # r)" using more by (simp add: num_stop_spaces)
  then have "object_fields ParseFloat c num ((a @ quoted k @ b @ CHR '':'' # x @ v @ e @ CHR '','' # w) @ CHR ''}'' # r) =
      object_fields ParseFloat (fst (read_field f (c, num))) (snd (read_field f (c, num)))
        (e @ CHR '','' # w @ CHR ''}'' # r)"
    using object_fields_step [OF more(1-5)] by simp
  also have "\<dots> = object_fields ParseFloat (fst (read_field f (c, num))) (snd (read_field f (c, num)))
      (w @ CHR ''}'' # r)"
    using fields_head [OF more(7)] object_fields_comma [OF more(6)] by metis
  finally show ?case using more.IH by simp
qed

text \<open>
  The entries of a counter map. An entry that is no counter is one whose key the parser is told to skip
  or whose value is no object.
\<close>

datatype map_member = CounterEntry string "counter_field list" | OtherEntry string string

fun member_key :: "map_member \<Rightarrow> string" where
  "member_key (CounterEntry k fs) = k"
| "member_key (OtherEntry k v) = k"

inductive member_text :: "(string \<Rightarrow> bool) \<Rightarrow> map_member \<Rightarrow> string \<Rightarrow> bool" where
  counter: "plain k \<Longrightarrow> \<not> skipKey k \<Longrightarrow> fields_text fs w \<Longrightarrow>
    member_text skipKey (CounterEntry k fs) (CHR ''{'' # w @ ''}'')"
| other: "plain k \<Longrightarrow> value_text maxNestingDepth v \<Longrightarrow> skipKey k \<or> hd v \<noteq> CHR ''{'' \<Longrightarrow>
    member_text skipKey (OtherEntry k v) v"

inductive entries_text :: "(string \<Rightarrow> bool) \<Rightarrow> map_member list \<Rightarrow> string \<Rightarrow> bool" for skipKey where
  one: "member_text skipKey m v \<Longrightarrow> spaces a \<Longrightarrow> spaces b \<Longrightarrow> spaces c \<Longrightarrow> spaces e \<Longrightarrow>
    entries_text skipKey [m] (a @ quoted (member_key m) @ b @ CHR '':'' # c @ v @ e)"
| more: "member_text skipKey m v \<Longrightarrow> spaces a \<Longrightarrow> spaces b \<Longrightarrow> spaces c \<Longrightarrow> spaces e \<Longrightarrow>
    entries_text skipKey ms w \<Longrightarrow>
    entries_text skipKey (m # ms) (a @ quoted (member_key m) @ b @ CHR '':'' # c @ v @ e @ CHR '','' # w)"

fun member_counter :: "(string \<Rightarrow> 'f option) \<Rightarrow> map_member \<Rightarrow> 'f varnishstatCounter option" where
  "member_counter ParseFloat (CounterEntry k fs) = counter_of ParseFloat fs"
| "member_counter ParseFloat (OtherEntry k v) = None"

definition counters_of :: "(string \<Rightarrow> 'f option) \<Rightarrow> map_member list \<Rightarrow> (string, 'f varnishstatCounter) fmap" where
  "counters_of ParseFloat ms = fold (\<lambda>m. add_counter (member_key m) (member_counter ParseFloat m)) ms fmempty"

lemma map_entry_text:
  assumes "member_text skipKey m v" and "num_stop r"
  shows "map_entry ParseFloat skipKey (member_key m) (v @ r) = Inr (member_counter ParseFloat m, r)"
  using assms(1)
proof cases
  case (counter k fs w)
  then show ?thesis using object_fields_text [OF counter(5), of ParseFloat no_head None r]
    by (simp add: map_entry_def counter_of_def)
next
  case (other k)
  obtain d t where "v = d # t" using value_head [OF other(3)] by blast
  then show ?thesis using other skip_value_text0 [OF other(3) _ assms(2)] by (auto simp: map_entry_def Let_def)
qed

lemma member_value:
  assumes "member_text skipKey m v"
  shows "value_text maxNestingDepth v" and "plain (member_key m)"
proof -
  have "members_text (maxNestingDepth - 1) w" if "fields_text fs w" for fs w
    using that
  proof (induction rule: fields_text.induct)
    case (one f k v a b c e)
    then show ?case by (intro member) (auto dest: field_wf_plain field_value_text)
  next
    case (more f k v a b c e fs w)
    then show ?case by (intro members) (auto dest: field_wf_plain field_value_text)
  qed
  then have obj': "value_text maxNestingDepth (CHR ''{'' # w @ ''}'')" if "fields_text fs w" for fs w
    using obj [of "maxNestingDepth - 1" w] that by (simp add: maxNestingDepth_def)
  show "value_text maxNestingDepth v" by (rule member_text.cases [OF assms]) (simp_all add: obj')
  show "plain (member_key m)" by (rule member_text.cases [OF assms]) simp_all
qed


text \<open>
  The two documents. The nested one holds the counters under the key \<open>counters\<close>, after members that are
  skipped, and what follows them is not read; in the flat one they are the members of the document
  itself, among members whose keys have no dot.
\<close>

inductive nested_members :: "map_member list \<Rightarrow> string \<Rightarrow> bool" where
  here: "spaces a \<Longrightarrow> spaces b \<Longrightarrow> spaces c \<Longrightarrow> entries_text (\<lambda>_. False) ms w \<Longrightarrow>
    nested_members ms (a @ quoted ''counters'' @ b @ CHR '':'' # c @ CHR ''{'' # w @ CHR ''}'' # rest)"
| later: "spaces a \<Longrightarrow> plain k \<Longrightarrow> k \<noteq> ''counters'' \<Longrightarrow> spaces b \<Longrightarrow> spaces c \<Longrightarrow> value_text maxNestingDepth v \<Longrightarrow>
    spaces e \<Longrightarrow> nested_members ms u \<Longrightarrow>
    nested_members ms (a @ quoted k @ b @ CHR '':'' # c @ v @ e @ CHR '','' # u)"

definition nested_document :: "map_member list \<Rightarrow> string \<Rightarrow> bool" where
  "nested_document ms s \<longleftrightarrow> (\<exists>a u. spaces a \<and> s = a @ CHR ''{'' # u \<and> nested_members ms u)"

definition flat_document :: "map_member list \<Rightarrow> string \<Rightarrow> bool" where
  "flat_document ms s \<longleftrightarrow>
     (\<exists>a w rest. spaces a \<and> s = a @ CHR ''{'' # w @ CHR ''}'' # rest \<and>
        entries_text (\<lambda>key. CHR ''.'' \<notin> set key) ms w \<and> ''counters'' \<notin> set (map member_key ms))"

lemma entries_head: "entries_text skipKey ms w \<Longrightarrow> \<exists>t. skipWhitespace (w @ s) = CHR 0x22 # t"
  by (cases rule: entries_text.cases) (auto simp: skipWhitespace_spaces quoted_def skipWhitespace_id)

lemma field_name_spaces:
  assumes "spaces a" and "plain k" and "spaces b"
  shows "field_name (skipWhitespace (a @ quoted k @ b @ CHR '':'' # s)) = Inr (k, s)"
proof -
  have "skipWhitespace (a @ quoted k @ b @ CHR '':'' # s) = quoted k @ b @ CHR '':'' # s"
    using assms(1) by (simp add: skipWhitespace_spaces quoted_def skipWhitespace_id)
  then show ?thesis using field_name_text [OF assms(2,3)] by simp
qed

lemma map_loop_step:
  assumes "member_text skipKey m v" and "spaces a" and "spaces b" and "spaces c" and "spaces e" and "x \<in> set '',}''"
  shows "map_loop ParseFloat skipKey res (a @ quoted (member_key m) @ b @ CHR '':'' # c @ v @ e @ x # r) =
    (let res' = add_counter (member_key m) (member_counter ParseFloat m) res
     in if x = CHR ''}'' then Inr res' else map_loop ParseFloat skipKey res' r)"
proof -
  have "num_stop (e @ x # r)" using assms(5,6) by (intro num_stop_spaces) auto
  then have "map_entry ParseFloat skipKey (member_key m) (v @ e @ x # r) =
      Inr (member_counter ParseFloat m, e @ x # r)" by (rule map_entry_text [OF assms(1)])
  moreover have "skipWhitespace (c @ v @ e @ x # r) = v @ e @ x # r"
    using assms(4) value_no_space [OF member_value(1) [OF assms(1)]] by (simp add: skipWhitespace_spaces)
  moreover have "skipWhitespace (e @ x # r) = x # r"
    using assms(5,6) by (auto simp: skipWhitespace_spaces skipWhitespace_id)
  ultimately show ?thesis
    using assms(6) field_name_spaces [OF assms(2) member_value(2) [OF assms(1)] assms(3)]
    by (subst map_loop.simps) (auto simp: Let_def)
qed

lemma map_loop_text:
  "entries_text skipKey ms w \<Longrightarrow> map_loop ParseFloat skipKey res (w @ CHR ''}'' # r) =
     Inr (fold (\<lambda>m. add_counter (member_key m) (member_counter ParseFloat m)) ms res)"
proof (induction arbitrary: res rule: entries_text.induct)
  case (one m v a b c e)
  then show ?case using map_loop_step [OF one(1-5), where x = "CHR ''}''" and ParseFloat = ParseFloat] by (simp add: Let_def)
next
  case (more m v a b c e ms w)
  then show ?case using map_loop_step [OF more(1-5), where x = "CHR '',''" and r = "w @ CHR ''}'' # r" and
        ParseFloat = ParseFloat]
    by (simp add: Let_def)
qed

lemma parseCounterMap_text:
  assumes "entries_text skipKey ms w" and "spaces c"
  shows "parseCounterMap ParseFloat skipKey (c @ CHR ''{'' # w @ CHR ''}'' # r) = Inr (counters_of ParseFloat ms)"
proof -
  obtain t where t: "skipWhitespace (w @ CHR ''}'' # r) = CHR 0x22 # t" using entries_head [OF assms(1)] by blast
  have "map_loop ParseFloat skipKey fmempty (CHR 0x22 # t) = map_loop ParseFloat skipKey fmempty (w @ CHR ''}'' # r)"
    using t by (simp add: map_loop.simps [of _ _ _ "w @ CHR ''}'' # r"] map_loop.simps [of _ _ _ "CHR 0x22 # t"]
        skipWhitespace_id)
  then show ?thesis
    using t expectByte_spaces [OF assms(2)] map_loop_text [OF assms(1)]
    by (simp add: parseCounterMap_def counters_of_def)
qed

lemma v7_loop_text: "nested_members ms u \<Longrightarrow> v7_loop ParseFloat u = Inr (counters_of ParseFloat ms)"
proof (induction rule: nested_members.induct)
  case (here a b c ms w rest)
  then show ?case
    using field_name_spaces [OF here(1) _ here(2), of "''counters''"] parseCounterMap_text [OF here(4,3)]
    by (subst v7_loop.simps) simp
next
  case (later a k b c v e ms u)
  have "skip_value 0 (c @ v @ e @ CHR '','' # u) = Inr (e @ CHR '','' # u)"
    using later by (intro skip_value_text [of maxNestingDepth] num_stop_spaces) simp_all
  moreover have "skipWhitespace (e @ CHR '','' # u) = CHR '','' # u"
    using later(7) by (simp add: skipWhitespace_spaces skipWhitespace_id)
  ultimately show ?case
    using later field_name_spaces [OF later(1,2,4)] by (subst v7_loop.simps) simp
qed

lemma nested_head: "nested_members ms u \<Longrightarrow> \<exists>t. skipWhitespace u = CHR 0x22 # t"
  by (cases rule: nested_members.cases) (auto simp: skipWhitespace_spaces quoted_def skipWhitespace_id)

lemma v7_loop_flat:
  "entries_text skipKey ms w \<Longrightarrow> ''counters'' \<notin> set (map member_key ms) \<Longrightarrow>
     v7_loop ParseFloat (w @ CHR ''}'' # r) = Inl NoCountersKey"
proof (induction rule: entries_text.induct)
  case (one m v a b c e)
  have "skip_value 0 (c @ v @ e @ CHR ''}'' # r) = Inr (e @ CHR ''}'' # r)"
    using one member_value(1) [OF one(1)] by (intro skip_value_text [of maxNestingDepth] num_stop_spaces) simp_all
  moreover have "skipWhitespace (e @ CHR ''}'' # r) = CHR ''}'' # r"
    using one(5) by (simp add: skipWhitespace_spaces skipWhitespace_id)
  ultimately show ?case
    using one field_name_spaces [OF one(2) member_value(2) [OF one(1)] one(3)] by (subst v7_loop.simps) auto
next
  case (more m v a b c e ms w)
  have "skip_value 0 (c @ v @ e @ CHR '','' # w @ CHR ''}'' # r) = Inr (e @ CHR '','' # w @ CHR ''}'' # r)"
    using more member_value(1) [OF more(1)] by (intro skip_value_text [of maxNestingDepth] num_stop_spaces) simp_all
  moreover have "skipWhitespace (e @ CHR '','' # w @ CHR ''}'' # r) = CHR '','' # w @ CHR ''}'' # r"
    using more(5) by (simp add: skipWhitespace_spaces skipWhitespace_id)
  ultimately show ?case
    using more field_name_spaces [OF more(2) member_value(2) [OF more(1)] more(3)]
    by (subst v7_loop.simps) auto
qed

lemma v7_loop_space: "v7_loop ParseFloat (skipWhitespace s) = v7_loop ParseFloat s"
  by (subst (1 2) v7_loop.simps) simp

lemma document_parsed:
  assumes "nested_document ms s \<or> flat_document ms s"
  shows "parseVarnishstat ParseFloat s = Inr (counters_of ParseFloat ms)"
  using assms
proof
  assume "nested_document ms s"
  then obtain a u where s: "spaces a" "s = a @ CHR ''{'' # u" "nested_members ms u"
    by (auto simp: nested_document_def)
  obtain t where t: "skipWhitespace u = CHR 0x22 # t" using nested_head [OF s(3)] by blast
  then have "v7_loop ParseFloat (CHR 0x22 # t) = Inr (counters_of ParseFloat ms)"
    using v7_loop_text [OF s(3)] v7_loop_space by metis
  then show ?thesis
    using s t expectByte_spaces [OF s(1)] by (simp add: parseVarnishstat_def parseVarnishstatV7_def Let_def)
next
  assume "flat_document ms s"
  then obtain a w rest where s: "spaces a" "s = a @ CHR ''{'' # w @ CHR ''}'' # rest"
    "entries_text (\<lambda>key. CHR ''.'' \<notin> set key) ms w" "''counters'' \<notin> set (map member_key ms)"
    by (auto simp: flat_document_def)
  obtain t where t: "skipWhitespace (w @ CHR ''}'' # rest) = CHR 0x22 # t" using entries_head [OF s(3)] by blast
  then have "v7_loop ParseFloat (CHR 0x22 # t) = Inl NoCountersKey"
    using v7_loop_flat [OF s(3,4)] v7_loop_space by metis
  then have "parseVarnishstatV7 ParseFloat s = Inl NoCountersKey"
    using s t expectByte_spaces [OF s(1)] by (simp add: parseVarnishstatV7_def)
  then show ?thesis
    using s parseCounterMap_text [OF s(3,1)] by (simp add: parseVarnishstat_def parseVarnishstatV6_def)
qed

text \<open>
  C31: Every document that varnishstat prints is parsed to exactly the counters it holds, whichever of the
  two schemas it has, whatever white space separates its tokens and whatever other members, nested up to
  the limit, stand among them: each key gets the value, flag, description and ident of its object, a
  counter without a number is left out, and everything else is skipped.
\<close>

theorem varnishstat_output_parsed:
  assumes "nested_document ms s \<or> flat_document ms s"
  shows "parseVarnishstat ParseFloat s = Inr (counters_of ParseFloat ms)"
  using assms by (rule document_parsed)

definition sample_scrape :: string where
  "sample_scrape = ''{'' @ quoted ''MAIN.uptime'' @ '': {'' @ quoted ''flag'' @ '':'' @ quoted ''c'' @ '', '' @
     quoted ''value'' @ '': 7}}''"

lemma sample_flat: "flat_document [CounterEntry ''MAIN.uptime'' [FFlag ''c'', FValue ''7'']] sample_scrape"
proof -
  have num: "number_lit ''7''"
    unfolding number_lit_def by (rule exI [of _ "[]"], rule exI [of _ "''7''"]) (simp add: digits_def is_digit_iff)
  have "fields_text [FValue ''7''] ('' '' @ quoted ''value'' @ [] @ CHR '':'' # '' '' @ ''7'' @ [])"
    by (rule fields_text.one) (simp_all add: num spaces_def json_space_def)
  then have "fields_text [FFlag ''c'', FValue ''7''] ([] @ quoted ''flag'' @ [] @ CHR '':'' # [] @ quoted ''c'' @ [] @
      CHR '','' # ('' '' @ quoted ''value'' @ [] @ CHR '':'' # '' '' @ ''7'' @ []))"
    by (intro fields_text.more) (simp_all add: plain_def spaces_def)
  then have m: "member_text (\<lambda>key. CHR ''.'' \<notin> set key) (CounterEntry ''MAIN.uptime'' [FFlag ''c'', FValue ''7''])
      (CHR ''{'' # ([] @ quoted ''flag'' @ [] @ CHR '':'' # [] @ quoted ''c'' @ [] @
      CHR '','' # ('' '' @ quoted ''value'' @ [] @ CHR '':'' # '' '' @ ''7'' @ [])) @ ''}'')"
    by (intro counter) (simp_all add: plain_def)
  have sp: "spaces []" "spaces '' ''" by (simp_all add: spaces_def json_space_def)
  have e: "entries_text (\<lambda>key. CHR ''.'' \<notin> set key) [CounterEntry ''MAIN.uptime'' [FFlag ''c'', FValue ''7'']]
      (quoted ''MAIN.uptime'' @ '': {'' @ quoted ''flag'' @ '':'' @ quoted ''c'' @ '', '' @ quoted ''value'' @ '': 7}'')"
    using entries_text.one [OF m sp(1,1,2,1)] by simp
  have "sample_scrape = [] @ CHR ''{'' # (quoted ''MAIN.uptime'' @ '': {'' @ quoted ''flag'' @ '':'' @ quoted ''c'' @
      '', '' @ quoted ''value'' @ '': 7}'') @ CHR ''}'' # []"
    by (simp add: sample_scrape_def)
  moreover have "''counters'' \<notin> set (map member_key [CounterEntry ''MAIN.uptime'' [FFlag ''c'', FValue ''7'']])"
    by simp
  ultimately show ?thesis unfolding flat_document_def using e sp(1) by blast
qed

theorem varnishstat_output_parsed_witness:
  "parseVarnishstat (\<lambda>w. Some (length w)) sample_scrape =
     Inr (fmupd ''MAIN.uptime'' \<lparr>vc_Flag = ''c'', vc_Description = [], vc_Ident = [], vc_Value = 1, vc_RawValue = ''7''\<rparr> fmempty)"
  using varnishstat_output_parsed [OF disjI2 [OF sample_flat], of "\<lambda>w. Some (length w)"]
  by (simp add: counters_of_def counter_of_def finish_def finish_counter_def no_head_def add_counter_def)

text \<open>
  C32: A truncated scrape is never taken for a smaller complete one: when the parser accepts a text, it
  gives the same counters for every longer text that starts with it. So the output of a varnishstat
  that was cut off is either refused or gives exactly the counters of the whole output, whichever of
  the two schemas it has.
\<close>

theorem truncated_scrape_never_partial:
  assumes "prefix p s" and "parseVarnishstat ParseFloat p = Inr m"
  shows "parseVarnishstat ParseFloat s = Inr m"
  using assms by (rule parse_prefix)

lemma sample_parsed:
  "parseVarnishstat (\<lambda>w. Some (length w)) sample_scrape =
     Inr (fmupd ''MAIN.uptime'' \<lparr>vc_Flag = ''c'', vc_Description = [], vc_Ident = [], vc_Value = 1, vc_RawValue = ''7''\<rparr> fmempty)"
  using document_parsed [OF disjI2 [OF sample_flat], of "\<lambda>w. Some (length w)"]
  by (simp add: counters_of_def counter_of_def finish_def finish_counter_def no_head_def add_counter_def)

theorem truncated_scrape_never_partial_witness:
  "parseVarnishstat (\<lambda>w. Some (length w)) (sample_scrape @ ''trailing'') =
     Inr (fmupd ''MAIN.uptime'' \<lparr>vc_Flag = ''c'', vc_Description = [], vc_Ident = [], vc_Value = 1, vc_RawValue = ''7''\<rparr> fmempty)"
  by (rule truncated_scrape_never_partial [OF _ sample_parsed]) simp

end
