(* ===== verification/Varnishstat.thy ===== *)
theory Varnishstat
  imports VarnishstatFormat Broadcast
begin

text \<open>
  The exporter of \<open>internal/telemetry/varnishstat_collector.go\<close>: which generation of backend counters is
  exported, the metric and the labels a counter becomes, and one scrape as a step on the collector's
  state. What a map iteration visits is a list in an order of its own; descriptions are kept as the
  name, the help and the label keys they are made of.
\<close>

section \<open>Generations\<close>

text \<open>\<open>cmp.Compare\<close> as an integer, and \<open>strconv.ParseUint (s, 10, 64)\<close>.\<close>

definition compare_by :: "'a :: linorder \<Rightarrow> 'a \<Rightarrow> int" where
  "compare_by a b = (if a < b then - 1 else if b < a then 1 else 0)"

definition parse_uint :: "string \<Rightarrow> nat option" where
  "parse_uint s = (case parse_nat s of Some n \<Rightarrow> if n < 2 ^ 64 then Some n else None | None \<Rightarrow> None)"

definition compareReloadTags :: "string \<Rightarrow> string \<Rightarrow> int" where
  "compareReloadTags a b =
     (case (parse_uint a, parse_uint b) of
        (Some na, Some nb) \<Rightarrow> compare_by na nb
      | _ \<Rightarrow> compare_by a b)"

definition trim_prefix :: "string \<Rightarrow> string \<Rightarrow> string" where
  "trim_prefix s p = (if prefix p s then drop (length p) s else s)"

definition compareForeignGenerations :: "string \<Rightarrow> string \<Rightarrow> int" where
  "compareForeignGenerations a b =
     (if a = b then 0
      else if a = ''boot'' then - 1
      else if b = ''boot'' then 1
      else (let c = compareReloadTags (trim_prefix a ''reload_'') (trim_prefix b ''reload_'')
            in if c \<noteq> 0 then c else compare_by a b))"

definition vbeReloadTag :: string where
  "vbeReloadTag = ''VBE.kv_reload_''"

record generations =
  gn_latest :: string
  gn_latestSuffix :: string
  gn_foreign :: string
  gn_multiple :: bool

definition no_generation :: generations where
  "no_generation = \<lparr>gn_latest = [], gn_latestSuffix = [], gn_foreign = [], gn_multiple = False\<rparr>"

text \<open>One turn of the loop of \<open>newestVBEGeneration\<close>.\<close>

definition see_counter :: "string \<Rightarrow> generations \<Rightarrow> generations" where
  "see_counter key g =
     (if \<not> prefix ''VBE.'' key then g
      else if prefix vbeReloadTag key then
        (case cut_byte (CHR ''.'') (drop (length vbeReloadTag) key) of
           None \<Rightarrow> g
         | Some (tag, _) \<Rightarrow>
             if gn_latest g = [] \<or> compareReloadTags tag (gn_latestSuffix g) > 0
             then g\<lparr>gn_latest := take (length vbeReloadTag + length tag) key, gn_latestSuffix := tag\<rparr>
             else g)
      else
        (case cut_byte (CHR ''.'') (drop (length ''VBE.'') key) of
           None \<Rightarrow> g
         | Some (gen, _) \<Rightarrow>
             if gen = gn_foreign g then g
             else if gn_foreign g = [] then g\<lparr>gn_foreign := gen\<rparr>
             else (let g' = g\<lparr>gn_multiple := True\<rparr>
                   in if compareForeignGenerations gen (gn_foreign g) > 0 then g'\<lparr>gn_foreign := gen\<rparr> else g')))"

definition newestVBEGeneration :: "string list \<Rightarrow> string" where
  "newestVBEGeneration keys =
     (let g = fold see_counter keys no_generation
      in if gn_latest g \<noteq> [] then gn_latest g
         else if gn_multiple g then ''VBE.'' @ gn_foreign g else [])"

definition isStaleBackendCounter :: "string \<Rightarrow> string \<Rightarrow> bool" where
  "isStaleBackendCounter counterName latestReload =
     (if latestReload = [] then False
      else if \<not> prefix ''VBE.'' counterName then False
      else if prefix latestReload counterName \<and> length counterName > length latestReload \<and>
          counterName ! length latestReload = CHR ''.'' then False
      else True)"

text \<open>The number of a controller's generation that a counter belongs to.\<close>

definition kv_tag :: "string \<Rightarrow> string option" where
  "kv_tag key = (if prefix vbeReloadTag key
     then map_option fst (cut_byte (CHR ''.'') (drop (length vbeReloadTag) key)) else None)"

lemma kv_tag_VBE: "kv_tag key = Some t \<Longrightarrow> prefix ''VBE.'' key"
  by (auto simp: kv_tag_def vbeReloadTag_def prefix_def split: if_splits)

lemma kv_tag_take: "kv_tag key = Some t \<Longrightarrow> take (length vbeReloadTag + length t) key = vbeReloadTag @ t"
  by (auto simp: kv_tag_def cut_byte_Some prefix_def split: if_splits)

lemma see_counter_kv:
  "gn_latest (see_counter key g) =
     (case kv_tag key of
        None \<Rightarrow> gn_latest g
      | Some t \<Rightarrow> if gn_latest g = [] \<or> compareReloadTags t (gn_latestSuffix g) > 0 then vbeReloadTag @ t
                  else gn_latest g) \<and>
   gn_latestSuffix (see_counter key g) =
     (case kv_tag key of
        None \<Rightarrow> gn_latestSuffix g
      | Some t \<Rightarrow> if gn_latest g = [] \<or> compareReloadTags t (gn_latestSuffix g) > 0 then t
                  else gn_latestSuffix g)"
proof (cases "kv_tag key")
  case None
  then have "prefix vbeReloadTag key \<Longrightarrow> cut_byte (CHR ''.'') (drop (length vbeReloadTag) key) = None"
    by (auto simp: kv_tag_def)
  then show ?thesis using None by (auto simp: see_counter_def Let_def split: option.split)
next
  case (Some t)
  then obtain u where "prefix vbeReloadTag key" "cut_byte (CHR ''.'') (drop (length vbeReloadTag) key) = Some (t, u)"
    by (auto simp: kv_tag_def split: if_splits)
  then show ?thesis using Some kv_tag_VBE [OF Some] kv_tag_take [OF Some] by (simp add: see_counter_def)
qed

lemma parse_uint_show: "n < 2 ^ 64 \<Longrightarrow> parse_uint (show_nat n) = Some n"
  by (simp add: parse_uint_def)

lemma compareReloadTags_show:
  "m < 2 ^ 64 \<Longrightarrow> n < 2 ^ 64 \<Longrightarrow> compareReloadTags (show_nat m) (show_nat n) = compare_by m n"
  by (simp add: compareReloadTags_def parse_uint_show)

text \<open>The numbers of the controller's generations among the counters.\<close>

definition kv_numbers :: "string list \<Rightarrow> nat set" where
  "kv_numbers keys = {n. \<exists>k. k \<in> set keys \<and> kv_tag k = Some (show_nat n)}"

definition kv_canonical :: "string \<Rightarrow> bool" where
  "kv_canonical key \<longleftrightarrow> (case kv_tag key of None \<Rightarrow> True | Some t \<Rightarrow> (\<exists>n. t = show_nat n \<and> n < 2 ^ 64))"

lemma kv_numbers_snoc:
  "kv_numbers (keys @ [k]) = (case kv_tag k of Some t \<Rightarrow> {n. t = show_nat n} | None \<Rightarrow> {}) \<union> kv_numbers keys"
  by (auto simp: kv_numbers_def split: option.splits)

lemma finite_kv_numbers: "finite (kv_numbers keys)"
proof (induction keys rule: rev_induct)
  case (snoc k keys)
  have "finite {n. t = show_nat n}" for t
    by (rule finite_subset [of _ "{digits_val t}"]) auto
  then show ?case using snoc by (simp add: kv_numbers_snoc split: option.split)
qed (simp add: kv_numbers_def)

text \<open>What the loop holds of the controller's generations, after any part of the counters.\<close>

definition newest_is :: "nat set \<Rightarrow> generations \<Rightarrow> bool" where
  "newest_is N g \<longleftrightarrow>
     (if N = {} then gn_latest g = []
      else Max N < 2 ^ 64 \<and> gn_latestSuffix g = show_nat (Max N) \<and> gn_latest g = vbeReloadTag @ show_nat (Max N))"

lemma newest_is_step:
  assumes "newest_is N g" and "finite N" and "kv_tag key = Some (show_nat n)" and "n < 2 ^ 64"
  shows "newest_is (insert n N) (see_counter key g)"
proof (cases "N = {}")
  case True
  then show ?thesis using assms see_counter_kv [of key g] by (simp add: newest_is_def)
next
  case False
  then have m: "Max N < 2 ^ 64" "gn_latestSuffix g = show_nat (Max N)" "gn_latest g = vbeReloadTag @ show_nat (Max N)"
    using assms(1) by (simp_all add: newest_is_def)
  have "gn_latest g \<noteq> []" using m(3) by (simp add: vbeReloadTag_def)
  moreover have "compareReloadTags (show_nat n) (gn_latestSuffix g) > 0 \<longleftrightarrow> n > Max N"
    using compareReloadTags_show [OF assms(4) m(1)] m(2) by (auto simp: compare_by_def)
  moreover have "Max (insert n N) = max n (Max N)" using assms(2) False by simp
  ultimately show ?thesis
    using assms(3,4) m see_counter_kv [of key g] by (auto simp: newest_is_def max_def)
qed

lemma kv_fold:
  "list_all kv_canonical keys \<Longrightarrow> newest_is (kv_numbers keys) (fold see_counter keys no_generation)"
proof (induction keys rule: rev_induct)
  case Nil
  then show ?case by (simp add: newest_is_def kv_numbers_def no_generation_def)
next
  case (snoc k keys)
  then have IH: "newest_is (kv_numbers keys) (fold see_counter keys no_generation)" by simp
  show ?case
  proof (cases "kv_tag k")
    case None
    then have "gn_latest (see_counter k g) = gn_latest g \<and> gn_latestSuffix (see_counter k g) = gn_latestSuffix g" for g
      using see_counter_kv [of k g] by simp
    then have "newest_is N (see_counter k g) = newest_is N g" for N g by (simp only: newest_is_def)
    then show ?thesis using IH None by (simp add: kv_numbers_snoc)
  next
    case (Some t)
    then obtain n where n: "t = show_nat n" "n < 2 ^ 64" using snoc.prems by (auto simp: kv_canonical_def)
    have "kv_numbers (keys @ [k]) = insert n (kv_numbers keys)" using Some n by (auto simp: kv_numbers_snoc)
    then show ?thesis using newest_is_step [OF IH finite_kv_numbers] Some n by simp
  qed
qed

lemma prefix_snoc_iff: "prefix (xs @ [c]) ys \<longleftrightarrow> prefix xs ys \<and> length ys > length xs \<and> ys ! length xs = c"
proof
  assume r: "prefix xs ys \<and> length ys > length xs \<and> ys ! length xs = c"
  then obtain zs where zs: "ys = xs @ zs" by (auto simp: prefix_def)
  with r obtain z zs' where "zs = z # zs'" by (cases zs) auto
  then show "prefix (xs @ [c]) ys" using r zs by (simp add: nth_append)
qed (auto simp: prefix_def nth_append)

lemma stale_iff:
  assumes "latest \<noteq> []"
  shows "isStaleBackendCounter name latest \<longleftrightarrow> prefix ''VBE.'' name \<and> \<not> prefix (latest @ ''.'') name"
  using assms by (auto simp: isStaleBackendCounter_def prefix_snoc_iff)

text \<open>
  Of the backend counters exactly those of the newest generation that this controller loaded are
  exported, whatever order the counters are visited in: as long as the controller's generations carry the
  decimal numbers it gives them, the highest number wins by value (10 before 9), every other backend
  counter is stale, those of a foreign generation and of kv_reload_25 beside kv_reload_2 included, and no
  counter of another group is.
\<close>

theorem newest_generation_exact:
  assumes "list_all kv_canonical keys" and "kv_numbers keys \<noteq> {}"
  shows "newestVBEGeneration keys = vbeReloadTag @ show_nat (Max (kv_numbers keys)) \<and>
    (isStaleBackendCounter name (newestVBEGeneration keys) \<longleftrightarrow>
      prefix ''VBE.'' name \<and> kv_tag name \<noteq> Some (show_nat (Max (kv_numbers keys))))"
proof -
  let ?n = "Max (kv_numbers keys)"
  have "newestVBEGeneration keys = vbeReloadTag @ show_nat ?n"
    using kv_fold [OF assms(1)] assms(2) by (simp add: newestVBEGeneration_def newest_is_def vbeReloadTag_def Let_def)
  moreover have "prefix (vbeReloadTag @ show_nat ?n @ ''.'') name \<longleftrightarrow> kv_tag name = Some (show_nat ?n)"
  proof -
    have nd: "CHR ''.'' \<notin> set (show_nat ?n)"
      using show_nat_digits [of ?n] by (auto simp: list_all_iff is_digit_iff)
    have "kv_tag name = Some (show_nat ?n) \<longleftrightarrow>
        prefix vbeReloadTag name \<and> (\<exists>u. cut_byte (CHR ''.'') (drop (length vbeReloadTag) name) = Some (show_nat ?n, u))"
      by (auto simp: kv_tag_def)
    then show ?thesis using nd by (auto simp: cut_byte_Some prefix_def)
  qed
  ultimately show ?thesis using stale_iff [of "vbeReloadTag @ show_nat ?n" name] by (simp add: vbeReloadTag_def)
qed


theorem newest_generation_exact_witness:
  "newestVBEGeneration [''VBE.kv_reload_9.b.happy'', ''VBE.kv_reload_10.b.happy'', ''VBE.boot.x.happy'', ''MAIN.uptime''] =
     vbeReloadTag @ show_nat 10 \<and>
   isStaleBackendCounter ''VBE.boot.x.happy'' (vbeReloadTag @ show_nat 10)"
proof -
  let ?keys = "[''VBE.kv_reload_9.b.happy'', ''VBE.kv_reload_10.b.happy'', ''VBE.boot.x.happy'', ''MAIN.uptime'']"
  have tags: "map kv_tag ?keys = [Some (show_nat 9), Some (show_nat 10), None, None]"
    by (simp add: kv_tag_def vbeReloadTag_def cut_byte_def show_nat.simps digit_char_def char_of_def of_bool_def bit_0)
  then have can: "list_all kv_canonical ?keys" by (auto simp: kv_canonical_def)
  have "kv_numbers ?keys = {n. show_nat n = show_nat 9 \<or> show_nat n = show_nat 10}"
    using tags by (auto simp: kv_numbers_def)
  also have "\<dots> = {9, 10}" by auto
  finally have n: "kv_numbers ?keys = {9, 10}" .
  have ne: "kv_numbers ?keys \<noteq> {}" and max: "Max (kv_numbers ?keys) = 10" unfolding n by simp_all
  note exact = newest_generation_exact [OF can ne, of "''VBE.boot.x.happy''", unfolded max]
  have "isStaleBackendCounter ''VBE.boot.x.happy'' (vbeReloadTag @ show_nat 10)"
    using exact tags unfolding exact [THEN conjunct1] by simp
  with exact show ?thesis by (intro conjI) (rule conjunct1)
qed

text \<open>
  Among foreign generations the choice does depend on the order of the counters: the comparison of their
  names, by value between two numbers and as text otherwise, is not transitive.
\<close>

lemma foreign_generations_cycle:
  "newestVBEGeneration [''VBE.reload_9.b.happy'', ''VBE.reload_10.b.happy'', ''VBE.reload_1a.b.happy''] = ''VBE.reload_1a''"
  "newestVBEGeneration [''VBE.reload_10.b.happy'', ''VBE.reload_1a.b.happy'', ''VBE.reload_9.b.happy''] = ''VBE.reload_9''"
  by (simp_all add: newestVBEGeneration_def see_counter_def no_generation_def vbeReloadTag_def cut_byte_def
      compareForeignGenerations_def compareReloadTags_def trim_prefix_def parse_uint_def parse_nat_def digits_val_def
      digit_val_def is_digit_iff compare_by_def less_char_def Let_def)

section \<open>Metrics\<close>

text \<open>\<open>strings.ToLower\<close> on a text of ASCII bytes; \<open>other\<close> stands for it on any other text.\<close>

definition lower_byte :: "char \<Rightarrow> char" where
  "lower_byte c = (if CHR ''A'' \<le> c \<and> c \<le> CHR ''Z'' then char_of (byte c + 32) else c)"

definition lowerGroup :: "(string \<Rightarrow> string) \<Rightarrow> string \<Rightarrow> string" where
  "lowerGroup other upper =
     (if upper = ''MAIN'' then ''main'' else if upper = ''VBE'' then ''backend'' else if upper = ''SMA'' then ''sma''
      else if upper = ''LCK'' then ''lck'' else if upper = ''MGT'' then ''mgt''
      else if upper = ''MEMPOOL'' then ''mempool'' else if upper = ''SMF'' then ''smf''
      else if list_all is_ascii upper then map lower_byte upper else other upper)"

definition trim_dots :: "string \<Rightarrow> string" where
  "trim_dots s = trim_right {CHR ''.''} (dropWhile (\<lambda>c. c = CHR ''.'') s)"

definition normalizeBackendName :: "string \<Rightarrow> string" where
  "normalizeBackendName raw =
     (let s = trim_dots raw in case cut_byte (CHR ''.'') s of Some (_, rest) \<Rightarrow> rest | None \<Rightarrow> s)"

definition parseBackendIdent :: "string \<Rightarrow> string \<times> string" where
  "parseBackendIdent ident =
     (case last_index_byte ident (CHR ''('') of
        Some paren \<Rightarrow>
          if length ident > paren + 1 \<and> last ident = CHR '')'' then
            (let inner = butlast (drop (paren + 1) ident);
                 addr = (case cut_text inner '',,'' of Some (host, port) \<Rightarrow> joinHostPort host port | None \<Rightarrow> inner)
             in (normalizeBackendName (take paren ident), addr))
          else (normalizeBackendName ident, ''unknown'')
      | None \<Rightarrow> (normalizeBackendName ident, ''unknown''))"

text \<open>The rules of \<open>counterAggregations\<close>: exact name, prefix, target and help of each family.\<close>

record aggregation =
  ag_fqTotal :: string
  ag_fqMatchPrefix :: string
  ag_target :: string
  ag_help :: string

definition counterAggregations :: "aggregation list" where
  "counterAggregations =
     [\<lparr>ag_fqTotal = ''varnish_main_s_fetch'', ag_fqMatchPrefix = ''varnish_main_fetch_'',
       ag_target = ''varnish_main_fetch'', ag_help = ''Number of fetches''\<rparr>,
      \<lparr>ag_fqTotal = ''varnish_main_s_sess'', ag_fqMatchPrefix = ''varnish_main_sess_'',
       ag_target = ''varnish_main_sessions'', ag_help = ''Number of sessions''\<rparr>,
      \<lparr>ag_fqTotal = ''varnish_main_n_wrk'', ag_fqMatchPrefix = ''varnish_main_n_wrk_'',
       ag_target = ''varnish_main_worker_threads'', ag_help = ''Number of worker threads''\<rparr>]"

definition renamedMetrics :: "string \<Rightarrow> string option" where
  "renamedMetrics = map_of
     [(''varnish_lck_colls'', ''varnish_lock_collisions''), (''varnish_lck_creat'', ''varnish_lock_created''),
      (''varnish_lck_destroy'', ''varnish_lock_destroyed''), (''varnish_lck_locks'', ''varnish_lock_operations'')]"

definition labelKeyByMetric :: "string \<Rightarrow> string option" where
  "labelKeyByMetric = map_of
     (map (\<lambda>n. (n, ''target'')) [''varnish_lock_collisions'', ''varnish_lock_created'',
        ''varnish_lock_destroyed'', ''varnish_lock_operations''] @
      map (\<lambda>n. (n, ''type'')) [''varnish_sma_c_bytes'', ''varnish_sma_c_fail'', ''varnish_sma_c_freed'',
        ''varnish_sma_c_req'', ''varnish_sma_g_alloc'', ''varnish_sma_g_bytes'', ''varnish_sma_g_space'',
        ''varnish_smf_c_bytes'', ''varnish_smf_c_fail'', ''varnish_smf_c_freed'', ''varnish_smf_c_req'',
        ''varnish_smf_g_alloc'', ''varnish_smf_g_bytes'', ''varnish_smf_g_smf_frag'',
        ''varnish_smf_g_smf_large'', ''varnish_smf_g_smf'', ''varnish_smf_g_space''])"

definition needsTransform :: "string \<Rightarrow> bool" where
  "needsTransform s = list_ex (\<lambda>c. c = CHR ''.'' \<or> (CHR ''A'' \<le> c \<and> c \<le> CHR ''Z'')) s"

definition stat_name :: "string \<Rightarrow> string" where
  "stat_name stat =
     (if \<not> needsTransform stat then stat else map (\<lambda>c. if c = CHR ''.'' then CHR ''_'' else lower_byte c) stat)"

lemma stat_name_eq: "stat_name stat = map (\<lambda>c. if c = CHR ''.'' then CHR ''_'' else lower_byte c) stat"
proof (cases "needsTransform stat")
  case False
  then have "map (\<lambda>c. if c = CHR ''.'' then CHR ''_'' else lower_byte c) stat = stat"
    by (intro map_idI) (auto simp: needsTransform_def list_ex_iff lower_byte_def)
  then show ?thesis using False by (simp add: stat_name_def)
qed (simp add: stat_name_def)

text \<open>
  The text behind the group, the identifier, and the rest of the name that is the statistic's. The
  identifiers of varnishstat are ASCII, for which \<open>equal_fold\<close> is \<open>strings.EqualFold\<close>.
\<close>

definition counter_suffix :: "string \<Rightarrow> string" where
  "counter_suffix counterName =
     (case cut_byte (CHR ''.'') counterName of Some (_, r) \<Rightarrow> r | None \<Rightarrow> [])"

definition derived_ident :: "string \<Rightarrow> string \<Rightarrow> string" where
  "derived_ident counterName ident =
     (if ident \<noteq> [] then ident
      else case last_index_byte (counter_suffix counterName) (CHR ''.'') of
        Some lastDot \<Rightarrow> if lastDot > 0 then take lastDot (counter_suffix counterName) else []
      | None \<Rightarrow> [])"

definition stat_of :: "string \<Rightarrow> string \<Rightarrow> string" where
  "stat_of counterName ident =
     (let sf = counter_suffix counterName
      in if ident \<noteq> [] \<and> length sf > length ident \<and> sf ! length ident = CHR ''.'' \<and>
          equal_fold (take (length ident) sf) ident
         then drop (length ident + 1) sf else sf)"

definition metric_base :: "string \<Rightarrow> string \<Rightarrow> string \<Rightarrow> string" where
  "metric_base counterName grp ident =
     (let name = ''varnish_'' @ grp @ ''_'' @ stat_name (stat_of counterName ident)
      in case renamedMetrics name of Some canonical \<Rightarrow> canonical | None \<Rightarrow> name)"

definition counter_labels :: "string \<Rightarrow> string \<Rightarrow> string \<Rightarrow> (string \<times> string) list" where
  "counter_labels counterName name ident =
     (if ident = [] then []
      else if prefix ''VBE.'' counterName then
        (case parseBackendIdent ident of (backend, server) \<Rightarrow> [(''backend'', backend), (''server'', server)])
      else [(case labelKeyByMetric name of Some lk \<Rightarrow> lk | None \<Rightarrow> ''id'', ident)])"

text \<open>The loop over the aggregations.\<close>

fun aggregate :: "aggregation list \<Rightarrow> string \<Rightarrow> string \<Rightarrow> (string \<times> string) list \<Rightarrow>
    string \<times> string \<times> (string \<times> string) list" where
  "aggregate [] name help ls = (name, help, ls)"
| "aggregate (agg # aggs) name help ls =
     (if name = ag_fqTotal agg then (ag_target agg @ ''_total'', ag_help agg, ls)
      else if length name > length (ag_fqMatchPrefix agg) \<and> prefix (ag_fqMatchPrefix agg) name then
        (ag_target agg, ag_help agg, ls @ [(''type'', drop (length (ag_fqMatchPrefix agg)) name)])
      else aggregate aggs name help ls)"

text \<open>\<open>resolveMetric\<close>: the name, the help and the labels with their values.\<close>

definition resolveMetric :: "string \<Rightarrow> string \<Rightarrow> string \<Rightarrow> string \<Rightarrow> string \<times> string \<times> (string \<times> string) list" where
  "resolveMetric counterName grp ident help =
     (let ident' = derived_ident counterName ident;
          name = metric_base counterName grp ident'
      in aggregate counterAggregations name help (counter_labels counterName name ident'))"


section \<open>One scrape\<close>

datatype value_type = GaugeValue | CounterValue

text \<open>
  A metric sent to the channel: its description, its type, its value and the values of its labels. A
  value is a float of varnishstat's output, the boolean of \<open>varnish_backend_up\<close>, or one of the
  exporter's own: a flag, a count, or the measured duration.
\<close>

datatype 'f sample = FromStat 'f | UpFlag bool | Tally nat | Elapsed

record desc =
  de_name :: string
  de_help :: string
  de_keys :: "string list"

record 'f metric =
  me_name :: string
  me_keys :: "string list"
  me_type :: value_type
  me_value :: "'f sample"
  me_labels :: "string list"

record collector =
  co_groupFilter :: "string list"
  co_descCache :: "(string, desc) fmap"
  co_probeSeen :: "string fset"
  co_totalScrapes :: nat
  co_parseFailures :: nat

definition NewVarnishstatCollector :: "(string \<Rightarrow> string) \<Rightarrow> string list \<Rightarrow> collector" where
  "NewVarnishstatCollector upper filt = \<lparr>co_groupFilter = map upper filt, co_descCache = fmempty,
     co_probeSeen = {||}, co_totalScrapes = 0, co_parseFailures = 0\<rparr>"

text \<open>\<open>strings.Join (values, "\x00")\<close>.\<close>

fun join_nul :: "string list \<Rightarrow> string" where
  "join_nul [] = []"
| "join_nul [v] = v"
| "join_nul (v # vs) = v @ CHR 0x00 # join_nul vs"

definition observeProbe :: "string list \<Rightarrow> nat \<Rightarrow> collector \<Rightarrow> bool \<times> collector" where
  "observeProbe labelValues bitmap c =
     (let key = join_nul labelValues
      in if bitmap \<noteq> 0 then (True, c\<lparr>co_probeSeen := finsert key (co_probeSeen c)\<rparr>)
         else (key |\<in>| co_probeSeen c, c))"

definition cachedDesc :: "string \<Rightarrow> string \<Rightarrow> string list \<Rightarrow> collector \<Rightarrow> desc \<times> collector" where
  "cachedDesc name help labelKeys c =
     (case fmlookup (co_descCache c) name of
        Some d \<Rightarrow> (d, c)
      | None \<Rightarrow>
          (let d = \<lparr>de_name = name, de_help = help, de_keys = labelKeys\<rparr>
           in (d, c\<lparr>co_descCache := fmupd name d (co_descCache c)\<rparr>)))"

text \<open>
  \<open>emitOnce\<close> with the keys seen and the metrics sent so far in this scrape. \<open>ok\<close> says whether
  \<open>prometheus.NewConstMetric\<close> accepts a description and label values.
\<close>

definition emitOnce :: "(desc \<Rightarrow> string list \<Rightarrow> bool) \<Rightarrow> string \<Rightarrow> string \<Rightarrow> string list \<Rightarrow> value_type \<Rightarrow> 'f sample \<Rightarrow>
    string list \<Rightarrow> collector \<times> string fset \<times> 'f metric list \<Rightarrow> collector \<times> string fset \<times> 'f metric list" where
  "emitOnce ok name help labelKeys vt v labelValues st =
     (case st of (c, seen, ch) \<Rightarrow>
        (let key = name @ CHR 0x00 # join_nul labelValues
         in if key |\<in>| seen then st
            else (let (d, c') = cachedDesc name help labelKeys c; seen' = finsert key seen
                  in if ok d labelValues
                     then (c', seen', ch @ [\<lparr>me_name = de_name d, me_keys = de_keys d, me_type = vt, me_value = v,
                            me_labels = labelValues\<rparr>])
                     else (c'\<lparr>co_descCache := fmdrop name (co_descCache c')\<rparr>, seen', ch))))"

text \<open>
  One turn of the loop of \<open>Collect\<close>: \<open>is_zero\<close> is the comparison of the value with 0, \<open>lower\<close> is
  \<open>strings.ToLower\<close> off ASCII.
\<close>

definition collect_counter :: "(desc \<Rightarrow> string list \<Rightarrow> bool) \<Rightarrow> (string \<Rightarrow> string) \<Rightarrow> ('f \<Rightarrow> bool) \<Rightarrow> string \<Rightarrow>
    string \<times> 'f varnishstatCounter \<Rightarrow> collector \<times> string fset \<times> 'f metric list \<Rightarrow>
    collector \<times> string fset \<times> 'f metric list" where
  "collect_counter ok lower is_zero latestReload nc st =
     (case nc of (name, counter) \<Rightarrow>
        if isStaleBackendCounter name latestReload then st
        else (let rawGroup = takeWhile (\<lambda>x. x \<noteq> CHR ''.'') name
              in if co_groupFilter (fst st) \<noteq> [] \<and> rawGroup \<notin> set (co_groupFilter (fst st)) then st
                 else (case resolveMetric name (lowerGroup lower rawGroup) (vc_Ident counter) (vc_Description counter) of
                   (metricName, help, ls) \<Rightarrow>
                     (let vt = (if vc_Flag counter = ''c'' \<or> vc_Flag counter = ''a'' then CounterValue else GaugeValue)
                      in if vt = CounterValue \<and> is_zero (vc_Value counter) then st
                         else if metricName = ''varnish_backend_happy'' then
                           (case parse_uint (vc_RawValue counter) of
                              None \<Rightarrow> st
                            | Some bitmap \<Rightarrow>
                                (case observeProbe (map snd ls) bitmap (fst st) of (known, c') \<Rightarrow>
                                   if \<not> known then (c', snd st)
                                   else emitOnce ok ''varnish_backend_up''
                                     ''Whether the backend is healthy according to the latest probe'' (map fst ls) GaugeValue
                                     (UpFlag (odd bitmap)) (map snd ls) (c', snd st)))
                         else emitOnce ok metricName help (map fst ls) vt (FromStat (vc_Value counter)) (map snd ls) st))))"

text \<open>The metrics of the exporter itself.\<close>

definition meta_metric :: "string \<Rightarrow> value_type \<Rightarrow> 'f sample \<Rightarrow> 'f metric" where
  "meta_metric name vt v = \<lparr>me_name = name, me_keys = [], me_type = vt, me_value = v, me_labels = []\<rparr>"

text \<open>
  \<open>Collect\<close>: \<open>out\<close> is the output of varnishstat, \<open>None\<close> when it failed, and \<open>visit_keys\<close> and
  \<open>visit\<close> give the orders of the two iterations over the counters.
\<close>

definition Collect_scrape :: "(desc \<Rightarrow> string list \<Rightarrow> bool) \<Rightarrow> (string \<Rightarrow> string) \<Rightarrow> ('f \<Rightarrow> bool) \<Rightarrow> (string \<Rightarrow> 'f option) \<Rightarrow>
    ((string, 'f varnishstatCounter) fmap \<Rightarrow> string list) \<Rightarrow>
    ((string, 'f varnishstatCounter) fmap \<Rightarrow> (string \<times> 'f varnishstatCounter) list) \<Rightarrow> string option \<Rightarrow> collector \<Rightarrow> collector \<times> 'f metric list" where
  "Collect_scrape ok lower is_zero ParseFloat visit_keys visit out c =
     (let c1 = c\<lparr>co_totalScrapes := co_totalScrapes c + 1\<rparr>;
          head = [meta_metric ''varnish_scrape_duration_seconds'' GaugeValue Elapsed,
                  meta_metric ''varnish_exporter_total_scrapes'' CounterValue (Tally (co_totalScrapes c1))];
          tail = (\<lambda>up c'. [meta_metric ''varnish_up'' GaugeValue (UpFlag up),
                  meta_metric ''varnish_exporter_json_parse_failures_total'' CounterValue (Tally (co_parseFailures c'))])
      in case out of
           None \<Rightarrow> (c1, head @ tail False c1)
         | Some text_out \<Rightarrow>
             (case parseVarnishstat ParseFloat text_out of
                Inl _ \<Rightarrow> (let c2 = c1\<lparr>co_parseFailures := co_parseFailures c1 + 1\<rparr> in (c2, head @ tail False c2))
              | Inr counters \<Rightarrow>
                  (case fold (collect_counter ok lower is_zero (newestVBEGeneration (visit_keys counters)))
                          (visit counters) (c1, {||}, []) of
                     (c2, seen, ch) \<Rightarrow> (c2, head @ tail True c1 @ ch))))"


text \<open>What one turn sends has a series key that was not seen before.\<close>

definition series :: "'f metric \<Rightarrow> string" where
  "series m = me_name m @ CHR 0x00 # join_nul (me_labels m)"

definition scrape_ok :: "collector \<times> string fset \<times> 'f metric list \<Rightarrow> bool" where
  "scrape_ok st \<longleftrightarrow> (case st of (c, seen, ch) \<Rightarrow>
     distinct (map series ch) \<and> series ` set ch \<subseteq> fset seen \<and>
     (\<forall>n d. fmlookup (co_descCache c) n = Some d \<longrightarrow> de_name d = n))"

lemma emitOnce_ok:
  assumes "scrape_ok st"
  shows "scrape_ok (emitOnce ok name help ks vt v ls st)"
proof -
  obtain c seen ch where st: "st = (c, seen, ch)" by (metis surj_pair)
  obtain d c' where d: "cachedDesc name help ks c = (d, c')" by force
  have names: "de_name d = name" "\<forall>n e. fmlookup (co_descCache c') n = Some e \<longrightarrow> de_name e = n"
    using d assms st by (auto simp: cachedDesc_def scrape_ok_def Let_def split: option.splits if_splits)
  show ?thesis
    using assms st d names
    by (auto simp: emitOnce_def scrape_ok_def series_def Let_def)
qed

lemma observeProbe_cache: "observeProbe ls b c = (k, c') \<Longrightarrow> co_descCache c' = co_descCache c"
  by (auto simp: observeProbe_def Let_def split: if_splits)

lemma collect_counter_ok:
  assumes "scrape_ok st"
  shows "scrape_ok (collect_counter ok lower is_zero latest nc st)"
proof -
  have probe: "scrape_ok (c', snd st)" if "observeProbe ls b (fst st) = (k, c')" for ls b k c'
    using assms that by (cases st) (auto simp: scrape_ok_def dest: observeProbe_cache)
  show ?thesis
    using assms probe
    by (auto simp: collect_counter_def Let_def intro!: emitOnce_ok split: prod.split option.split)
qed

lemma fold_collect_ok: "scrape_ok st \<Longrightarrow> scrape_ok (fold (collect_counter ok lower is_zero latest) ncs st)"
  by (induction ncs arbitrary: st) (simp_all add: collect_counter_ok)


inductive collector_reach :: "(desc \<Rightarrow> string list \<Rightarrow> bool) \<Rightarrow> (string \<Rightarrow> string) \<Rightarrow> ('f \<Rightarrow> bool) \<Rightarrow> (string \<Rightarrow> 'f option) \<Rightarrow>
    collector \<Rightarrow> bool" for ok lower is_zero ParseFloat where
  new: "collector_reach ok lower is_zero ParseFloat (NewVarnishstatCollector upper filt)"
| scrape: "collector_reach ok lower is_zero ParseFloat c \<Longrightarrow>
    collector_reach ok lower is_zero ParseFloat (fst (Collect_scrape ok lower is_zero ParseFloat visit_keys visit out c))"

lemma scrape_start_ok:
  assumes "\<forall>n d. fmlookup (co_descCache c) n = Some d \<longrightarrow> de_name d = n"
  shows "scrape_ok (c\<lparr>co_totalScrapes := k\<rparr>, {||}, [])"
  using assms by (simp add: scrape_ok_def)

text \<open>The three ways a scrape goes.\<close>

lemma scrape_failed:
  "Collect_scrape ok lower is_zero ParseFloat visit_keys visit None c =
     (c\<lparr>co_totalScrapes := co_totalScrapes c + 1\<rparr>,
      [meta_metric ''varnish_scrape_duration_seconds'' GaugeValue Elapsed,
       meta_metric ''varnish_exporter_total_scrapes'' CounterValue (Tally (co_totalScrapes c + 1)),
       meta_metric ''varnish_up'' GaugeValue (UpFlag False),
       meta_metric ''varnish_exporter_json_parse_failures_total'' CounterValue (Tally (co_parseFailures c))])"
  by (simp add: Collect_scrape_def Let_def)

lemma scrape_unparsed:
  assumes "parseVarnishstat ParseFloat s = Inl e"
  shows "Collect_scrape ok lower is_zero ParseFloat visit_keys visit (Some s) c =
     (c\<lparr>co_totalScrapes := co_totalScrapes c + 1, co_parseFailures := co_parseFailures c + 1\<rparr>,
      [meta_metric ''varnish_scrape_duration_seconds'' GaugeValue Elapsed,
       meta_metric ''varnish_exporter_total_scrapes'' CounterValue (Tally (co_totalScrapes c + 1)),
       meta_metric ''varnish_up'' GaugeValue (UpFlag False),
       meta_metric ''varnish_exporter_json_parse_failures_total'' CounterValue (Tally (co_parseFailures c + 1))])"
  using assms by (simp add: Collect_scrape_def Let_def)

lemma scrape_parsed:
  assumes "parseVarnishstat ParseFloat s = Inr m"
    and "fold (collect_counter ok lower is_zero (newestVBEGeneration (visit_keys m))) (visit m)
        (c\<lparr>co_totalScrapes := co_totalScrapes c + 1\<rparr>, {||}, []) = (c2, seen, ch)"
  shows "Collect_scrape ok lower is_zero ParseFloat visit_keys visit (Some s) c =
     (c2,
      [meta_metric ''varnish_scrape_duration_seconds'' GaugeValue Elapsed,
       meta_metric ''varnish_exporter_total_scrapes'' CounterValue (Tally (co_totalScrapes c + 1)),
       meta_metric ''varnish_up'' GaugeValue (UpFlag True),
       meta_metric ''varnish_exporter_json_parse_failures_total'' CounterValue (Tally (co_parseFailures c))] @ ch)"
  using assms by (simp add: Collect_scrape_def Let_def)

lemma reach_cache:
  assumes "collector_reach ok lower is_zero ParseFloat c"
  shows "\<forall>n d. fmlookup (co_descCache c) n = Some d \<longrightarrow> de_name d = n"
  using assms
proof induction
  case (new upper filt)
  then show ?case by (simp add: NewVarnishstatCollector_def)
next
  case (scrape c visit_keys visit out)
  show ?case
  proof (cases out)
    case None
    then show ?thesis using scrape.IH by (simp add: scrape_failed)
  next
    case out: (Some s)
    show ?thesis
    proof (cases "parseVarnishstat ParseFloat s")
      case (Inl e)
      then show ?thesis using scrape.IH by (simp add: out scrape_unparsed)
    next
      case (Inr m)
      obtain c2 seen ch where f: "fold (collect_counter ok lower is_zero (newestVBEGeneration (visit_keys m))) (visit m)
          (c\<lparr>co_totalScrapes := co_totalScrapes c + 1\<rparr>, {||}, []) = (c2, seen, ch)" by (metis surj_pair)
      have "scrape_ok (c2, seen, ch)"
        unfolding f [symmetric] by (intro fold_collect_ok scrape_start_ok scrape.IH)
      then show ?thesis by (simp add: out scrape_parsed [OF Inr, where visit_keys = visit_keys and visit = visit, OF f] scrape_ok_def)
    qed
  qed
qed



end
