(* ===== verification/ConfigFlags.thy ===== *)
theory ConfigFlags
  imports GoText
begin

text \<open>
  The values of the repeatable flags of \<open>internal/config/config.go\<close>: listen addresses, backends,
  backend selectors, values, secrets, certificates and directories, and the references to Kubernetes
  objects in them. The checks of Kubernetes' own validation package are parameters.
\<close>

section \<open>Numbers and addresses\<close>

text \<open>
  \<open>strconv.ParseInt (s, 10, bits)\<close> with its two errors: the scan of the digits stops at the first
  byte that is no digit, and before that at the first digit that takes the value out of the range of an
  unsigned integer.
\<close>

datatype num_error = ErrSyntax | ErrRange

fun scan_digits :: "nat \<Rightarrow> nat \<Rightarrow> string \<Rightarrow> num_error + nat" where
  "scan_digits maxVal n [] = Inr n"
| "scan_digits maxVal n (c # cs) =
     (if \<not> is_digit c then Inl ErrSyntax
      else if 10 * n + digit_val c > maxVal then Inl ErrRange
      else scan_digits maxVal (10 * n + digit_val c) cs)"

definition ParseInt :: "nat \<Rightarrow> string \<Rightarrow> num_error + int" where
  "ParseInt bits s =
     (if s = [] then Inl ErrSyntax
      else (let neg = (hd s = CHR ''-''); body = (if hd s = CHR ''-'' \<or> hd s = CHR ''+'' then tl s else s)
            in if body = [] then Inl ErrSyntax
               else case scan_digits (2 ^ bits - 1) 0 body of
                 Inl e \<Rightarrow> Inl e
               | Inr n \<Rightarrow>
                   if neg then (if n > 2 ^ (bits - 1) then Inl ErrRange else Inr (- int n))
                   else if n \<ge> 2 ^ (bits - 1) then Inl ErrRange else Inr (int n)))"

text \<open>\<open>net.SplitHostPort\<close>; \<open>None\<close> is an error.\<close>

definition SplitHostPort :: "string \<Rightarrow> (string \<times> string) option" where
  "SplitHostPort hp =
     (case last_index_byte hp (CHR '':'') of
        None \<Rightarrow> None
      | Some i \<Rightarrow>
          if hd hp = CHR ''['' then
            (let e = length (takeWhile (\<lambda>c. c \<noteq> CHR '']'') hp)
             in if CHR '']'' \<notin> set hp \<or> e + 1 \<noteq> i then None
                else if CHR ''['' \<in> set (drop 1 hp) \<or> CHR '']'' \<in> set (drop (e + 1) hp) then None
                else Some (drop 1 (take e hp), drop (i + 1) hp))
          else if CHR '':'' \<in> set (take i hp) \<or> CHR ''['' \<in> set hp \<or> CHR '']'' \<in> set hp then None
          else Some (take i hp, drop (i + 1) hp))"

section \<open>Errors and specifications\<close>

text \<open>
  The errors of the package: the variables of the source, a bad address (of \<open>net.SplitHostPort\<close>), a
  bad label selector (of \<open>labels.Parse\<close>), and an index out of range, which would be a panic.
\<close>

datatype flag_error = EmptyName | InvalidFormat | InvalidPort | PortOutOfRange | EmptyField | EmptyServiceRef
  | InvalidDNSLabel | InvalidDNSSubdomain | InvalidPortName | EmptySelector | ListenAddrNotFound
  | ListenAddrUDS | ListenAddrPROXY | NoHTTPSListener | BadAddress | BadSelector | IndexPanic

record backend_spec =
  bs_Name :: string
  bs_ServiceName :: string
  bs_Port :: string
  bs_Namespace :: string

record values_spec =
  vs_Name :: string
  vs_ConfigMapName :: string
  vs_Namespace :: string

record secrets_spec =
  ss_Name :: string
  ss_SecretName :: string
  ss_Namespace :: string

record tls_cert_spec =
  ts_Name :: string
  ts_SecretName :: string
  ts_Namespace :: string

record values_dir_spec =
  ds_Name :: string
  ds_Path :: string

record backend_selector_spec =
  sel_Selector :: string
  sel_Port :: string
  sel_Namespace :: string
  sel_AllNamespaces :: bool

record listen_addr_spec =
  la_Name :: string
  la_Host :: string
  la_Port :: int
  la_Raw :: string
  la_UDS :: bool
  la_Protos :: "string list"

definition hasProto :: "listen_addr_spec \<Rightarrow> string \<Rightarrow> bool" where
  "hasProto s proto = list_ex (\<lambda>p. equal_fold p proto) (la_Protos s)"

definition hasHTTPSListener :: "listen_addr_spec list \<Rightarrow> bool" where
  "hasHTTPSListener addrs = list_ex (\<lambda>la. hasProto la ''https'') addrs"

text \<open>The trimmed tokens of a comma-separated list that are not empty.\<close>

definition comma_tokens :: "string \<Rightarrow> string list" where
  "comma_tokens v = filter (\<lambda>tok. tok \<noteq> []) (map trim_space (split_on (CHR '','') v))"

definition splitCommaList :: "string list \<Rightarrow> string list" where
  "splitCommaList vals = concat (map comma_tokens vals)"

section \<open>The flags\<close>

text \<open>The name before the first equals sign, when what stands there could be one.\<close>

definition listen_name :: "string \<Rightarrow> flag_error + string \<times> string" where
  "listen_name val =
     (case cut_byte (CHR ''='') val of
        Some (name, after) \<Rightarrow>
          if list_ex (\<lambda>c. c \<in> {CHR ''/'', CHR ''@'', CHR '':'', CHR '',''}) name then Inr ([], val)
          else if name = [] then Inl EmptyName
          else Inr (name, after)
      | None \<Rightarrow> Inr ([], val))"

definition listenAddr_Set :: "string \<Rightarrow> listen_addr_spec list \<Rightarrow> flag_error + listen_addr_spec list" where
  "listenAddr_Set val l =
     (case listen_name val of
        Inl e \<Rightarrow> Inl e
      | Inr (name, rest) \<Rightarrow>
          (let (addr, subArgs) = (case cut_byte (CHR '','') rest of Some as \<Rightarrow> as | None \<Rightarrow> (rest, []));
               spec = \<lparr>la_Name = name, la_Host = [], la_Port = 0, la_Raw = val, la_UDS = False,
                  la_Protos = comma_tokens subArgs\<rparr>
           in if prefix ''/'' addr \<or> prefix ''@'' addr then
                (if length addr < 2 then Inl InvalidFormat else Inr (l @ [spec\<lparr>la_UDS := True\<rparr>]))
              else case SplitHostPort addr of
                None \<Rightarrow> Inl BadAddress
              | Some (host, portStr) \<Rightarrow>
                  (case ParseInt 32 portStr of
                     Inl _ \<Rightarrow> Inl InvalidPort
                   | Inr p \<Rightarrow>
                       if p \<le> 0 \<or> p > 65535 then Inl InvalidPort
                       else Inr (l @ [spec\<lparr>la_Host := host, la_Port := p\<rparr>]))))"

text \<open>The common part of the flags of the form name, colon, reference.\<close>

definition name_ref :: "string \<Rightarrow> flag_error + string \<times> string" where
  "name_ref val =
     (case cut_byte (CHR '':'') val of
        None \<Rightarrow> Inl InvalidFormat
      | Some (name, ref) \<Rightarrow> if name = [] then Inl EmptyName else if ref = [] then Inl EmptyField else Inr (name, ref))"

definition values_Set :: "string \<Rightarrow> values_spec list \<Rightarrow> flag_error + values_spec list" where
  "values_Set val v =
     (case name_ref val of
        Inl e \<Rightarrow> Inl e
      | Inr (name, ref) \<Rightarrow> Inr (v @ [\<lparr>vs_Name = name, vs_ConfigMapName = ref, vs_Namespace = []\<rparr>]))"

definition secrets_Set :: "string \<Rightarrow> secrets_spec list \<Rightarrow> flag_error + secrets_spec list" where
  "secrets_Set val s =
     (case name_ref val of
        Inl e \<Rightarrow> Inl e
      | Inr (name, ref) \<Rightarrow> Inr (s @ [\<lparr>ss_Name = name, ss_SecretName = ref, ss_Namespace = []\<rparr>]))"

definition tlsCert_Set :: "string \<Rightarrow> tls_cert_spec list \<Rightarrow> flag_error + tls_cert_spec list" where
  "tlsCert_Set val t =
     (case name_ref val of
        Inl e \<Rightarrow> Inl e
      | Inr (name, ref) \<Rightarrow> Inr (t @ [\<lparr>ts_Name = name, ts_SecretName = ref, ts_Namespace = []\<rparr>]))"

definition valuesDir_Set :: "string \<Rightarrow> values_dir_spec list \<Rightarrow> flag_error + values_dir_spec list" where
  "valuesDir_Set val v =
     (case name_ref val of
        Inl e \<Rightarrow> Inl e
      | Inr (name, path) \<Rightarrow> Inr (v @ [\<lparr>ds_Name = name, ds_Path = path\<rparr>]))"

text \<open>\<open>isPortName\<close> stands for \<open>validation.IsValidPortName\<close>.\<close>

definition validatePortOverride :: "(string \<Rightarrow> bool) \<Rightarrow> string \<Rightarrow> flag_error option" where
  "validatePortOverride isPortName port =
     (case ParseInt 32 port of
        Inr p \<Rightarrow> if p < 1 \<or> p > 65535 then Some PortOutOfRange else None
      | Inl ErrRange \<Rightarrow> Some PortOutOfRange
      | Inl ErrSyntax \<Rightarrow> if \<not> isPortName port then Some InvalidPortName else None)"

text \<open>\<open>strings.SplitN\<close> at a byte.\<close>

fun split_n :: "nat \<Rightarrow> char \<Rightarrow> string \<Rightarrow> string list" where
  "split_n 0 sep s = []"
| "split_n (Suc 0) sep s = [s]"
| "split_n (Suc (Suc n)) sep s =
     (case cut_byte sep s of None \<Rightarrow> [s] | Some (w, rest) \<Rightarrow> w # split_n (Suc n) sep rest)"

definition backend_Set :: "(string \<Rightarrow> bool) \<Rightarrow> string \<Rightarrow> backend_spec list \<Rightarrow> flag_error + backend_spec list" where
  "backend_Set isPortName val b =
     (let parts = split_n 3 (CHR '':'') val
      in if length parts < 2 then Inl InvalidFormat
         else if parts ! 0 = [] then Inl EmptyName
         else if parts ! 1 = [] then Inl EmptyField
         else (let spec = \<lparr>bs_Name = parts ! 0, bs_ServiceName = parts ! 1, bs_Port = [], bs_Namespace = []\<rparr>
               in if length parts = 3 then
                    (if parts ! 2 = [] then Inl EmptyField
                     else case validatePortOverride isPortName (parts ! 2) of
                       Some e \<Rightarrow> Inl e
                     | None \<Rightarrow> Inr (b @ [spec\<lparr>bs_Port := parts ! 2\<rparr>]))
                  else Inr (b @ [spec])))"

section \<open>References to Kubernetes objects\<close>

definition isValidDNSLabel :: "string \<Rightarrow> bool" where
  "isValidDNSLabel s =
     (if s = [] \<or> length s > 63 then False
      else list_all (\<lambda>(i, c).
        let isAlnum = (CHR ''a'' \<le> c \<and> c \<le> CHR ''z'') \<or> (CHR ''0'' \<le> c \<and> c \<le> CHR ''9''); isHyphen = (c = CHR ''-'')
        in \<not> (\<not> isAlnum \<and> \<not> isHyphen) \<and> \<not> (isHyphen \<and> (i = 0 \<or> i = length s - 1))) (enumerate 0 s))"

definition parseNamespacedService :: "string \<Rightarrow> string \<Rightarrow> flag_error + string \<times> string" where
  "parseNamespacedService s defaultNS =
     (if s = [] then Inl EmptyServiceRef
      else case cut_byte (CHR ''/'') s of
        None \<Rightarrow> if \<not> isValidDNSLabel s then Inl InvalidDNSLabel else Inr (defaultNS, s)
      | Some (namespace, service) \<Rightarrow>
          if namespace = [] then Inl EmptyField
          else if service = [] then Inl EmptyField
          else if \<not> isValidDNSLabel namespace then Inl InvalidDNSLabel
          else if \<not> isValidDNSLabel service then Inl InvalidDNSLabel
          else Inr (namespace, service))"

text \<open>\<open>isSubdomain\<close> stands for \<open>validation.IsDNS1123Subdomain\<close>.\<close>

definition parseNamespacedResource :: "(string \<Rightarrow> bool) \<Rightarrow> string \<Rightarrow> string \<Rightarrow> flag_error + string \<times> string" where
  "parseNamespacedResource isSubdomain s defaultNS =
     (if s = [] then Inl EmptyServiceRef
      else case cut_byte (CHR ''/'') s of
        None \<Rightarrow> if \<not> isSubdomain s then Inl InvalidDNSSubdomain else Inr (defaultNS, s)
      | Some (namespace, name) \<Rightarrow>
          if namespace = [] then Inl EmptyField
          else if name = [] then Inl EmptyField
          else if \<not> isValidDNSLabel namespace then Inl InvalidDNSLabel
          else if \<not> isSubdomain name then Inl InvalidDNSSubdomain
          else Inr (namespace, name))"

fun find_target :: "listen_addr_spec list \<Rightarrow> string \<Rightarrow> flag_error + int" where
  "find_target [] targetName = Inl ListenAddrNotFound"
| "find_target (la # las) targetName =
     (if la_Name la = targetName then
        (if la_UDS la then Inl ListenAddrUDS else if hasProto la ''PROXY'' then Inl ListenAddrPROXY else Inr (la_Port la))
      else find_target las targetName)"

definition resolveBroadcastTargetPort :: "listen_addr_spec list \<Rightarrow> string \<Rightarrow> flag_error + int" where
  "resolveBroadcastTargetPort addrs targetName =
     (if targetName = [] then
        (case addrs of
           [] \<Rightarrow> Inl IndexPanic
         | la # _ \<Rightarrow> if hasProto la ''PROXY'' then Inl ListenAddrPROXY else Inr (la_Port la))
      else find_target addrs targetName)"

text \<open>\<open>parseBackendSelector\<close>: the namespace, then the port, then the selector. \<open>isSelector\<close> stands for \<open>labels.Parse\<close>.\<close>

definition selector_namespace :: "string \<Rightarrow> string \<Rightarrow> flag_error + backend_selector_spec \<times> string" where
  "selector_namespace raw defaultNS =
     (let spec = \<lparr>sel_Selector = [], sel_Port = [], sel_Namespace = [], sel_AllNamespaces = False\<rparr>
      in if prefix ''*//'' raw then Inr (spec\<lparr>sel_AllNamespaces := True\<rparr>, drop 3 raw)
         else case str_index raw ''//'' of
           Some idx \<Rightarrow>
             (let ns = take idx raw
              in if ns = [] then Inl EmptyField
                 else if \<not> isValidDNSLabel ns then Inl InvalidDNSLabel
                 else Inr (spec\<lparr>sel_Namespace := ns\<rparr>, drop (idx + 2) raw))
         | None \<Rightarrow> Inr (spec\<lparr>sel_Namespace := defaultNS\<rparr>, raw))"

definition selector_port :: "(string \<Rightarrow> bool) \<Rightarrow> string \<Rightarrow> flag_error + string \<times> string" where
  "selector_port isPortName rest =
     (case last_index_byte rest (CHR '':'') of
        None \<Rightarrow> Inr ([], rest)
      | Some idx \<Rightarrow>
          (let portStr = drop (idx + 1) rest
           in if portStr = [] then Inl EmptyField
              else case validatePortOverride isPortName portStr of
                Some e \<Rightarrow> Inl e
              | None \<Rightarrow> Inr (portStr, take idx rest)))"

definition parseBackendSelector :: "(string \<Rightarrow> bool) \<Rightarrow> (string \<Rightarrow> bool) \<Rightarrow> string \<Rightarrow> string \<Rightarrow>
    flag_error + backend_selector_spec" where
  "parseBackendSelector isPortName isSelector raw defaultNS =
     (if raw = [] then Inl EmptySelector
      else case selector_namespace raw defaultNS of
        Inl e \<Rightarrow> Inl e
      | Inr (spec, rest) \<Rightarrow>
          (case selector_port isPortName rest of
             Inl e \<Rightarrow> Inl e
           | Inr (port, expr) \<Rightarrow>
               if expr = [] then Inl EmptySelector
               else if \<not> isSelector expr then Inl BadSelector
               else Inr (spec\<lparr>sel_Port := port, sel_Selector := expr\<rparr>)))"

section \<open>What the flags hold\<close>

lemma scan_digits_range: "scan_digits m n s = Inr k \<Longrightarrow> n \<le> m \<Longrightarrow> k \<le> m"
  by (induction s arbitrary: n) (auto split: if_splits)

lemma scan_digits_value:
  "scan_digits m n s = Inr k \<Longrightarrow> list_all is_digit s \<and> k = foldl (\<lambda>n c. 10 * n + digit_val c) n s"
  by (induction s arbitrary: n) (auto split: if_splits)

lemma foldl_digits_mono: "n \<le> foldl (\<lambda>n c. 10 * n + digit_val c) n s"
proof (induction s arbitrary: n)
  case (Cons c s)
  show ?case using Cons [of "10 * n + digit_val c"] by simp
qed simp

lemma scan_digits_complete:
  "list_all is_digit s \<Longrightarrow> foldl (\<lambda>n c. 10 * n + digit_val c) n s \<le> m \<Longrightarrow>
     scan_digits m n s = Inr (foldl (\<lambda>n c. 10 * n + digit_val c) n s)"
proof (induction s arbitrary: n)
  case (Cons c s)
  have "10 * n + digit_val c \<le> m"
    using Cons.prems(2) foldl_digits_mono [of "10 * n + digit_val c" s] by simp
  then show ?case using Cons by simp
qed simp

lemma ParseInt_show_nat: "n < 2 ^ (bits - 1) \<Longrightarrow> ParseInt bits (show_nat n) = Inr (int n)"
proof -
  assume n: "n < 2 ^ (bits - 1)"
  obtain c cs where c: "show_nat n = c # cs" "is_digit c" using show_nat_head by blast
  then have sign: "c \<noteq> CHR ''-''" "c \<noteq> CHR ''+''" using not_digit_sign by auto
  have v: "foldl (\<lambda>n c. 10 * n + digit_val c) 0 (show_nat n) = n"
    using digits_val_show_nat [of n] by (simp add: digits_val_def)
  have "(2 :: nat) ^ (bits - 1) \<le> 2 ^ bits" by (rule power_increasing) simp_all
  then have "n \<le> 2 ^ bits - 1" using n by linarith
  then have "scan_digits (2 ^ bits - 1) 0 (show_nat n) = Inr n"
    using scan_digits_complete [OF show_nat_digits, of 0 n "2 ^ bits - 1"] v by simp
  then show ?thesis using n c sign by (simp add: ParseInt_def)
qed

lemma ParseInt_parse_int:
  assumes "ParseInt bits s = Inr i"
  shows "parse_int bits s = Some i"
proof -
  obtain c cs where s: "s = c # cs" using assms by (cases s) (simp_all add: ParseInt_def)
  let ?body = "if c = CHR ''-'' \<or> c = CHR ''+'' then cs else s"
  obtain n where b: "?body \<noteq> []" "scan_digits (2 ^ bits - 1) 0 ?body = Inr n"
    and i: "if c = CHR ''-'' then n \<le> 2 ^ (bits - 1) \<and> i = - int n else n < 2 ^ (bits - 1) \<and> i = int n"
    using assms s by (auto simp: ParseInt_def Let_def split: sum.splits if_splits)
  have "parse_nat ?body = Some n"
    using b scan_digits_value [OF b(2)] by (simp add: parse_nat_def digits_val_def)
  then show ?thesis using i s by (auto simp: parse_int_def Let_def)
qed

lemma takeWhile_stop: "c \<notin> set xs \<Longrightarrow> takeWhile (\<lambda>x. x \<noteq> c) (xs @ c # ys) = xs"
  by (induction xs) auto

lemma last_index_byte_append:
  assumes "c \<notin> set p"
  shows "last_index_byte (h @ c # p) c = Some (length h)"
proof -
  have "takeWhile (\<lambda>x. x \<noteq> c) (rev (h @ c # p)) = rev p"
    using assms takeWhile_stop [of c "rev p"] by simp
  then show ?thesis by (simp add: last_index_byte_def)
qed

lemma SplitHostPort_join:
  assumes "CHR '':'' \<notin> set p" "CHR ''['' \<notin> set (h @ p)" "CHR '']'' \<notin> set (h @ p)"
  shows "SplitHostPort (joinHostPort h p) = Some (h, p)"
proof (cases "CHR '':'' \<in> set h")
  case True
  have j: "joinHostPort h p = (''['' @ h @ '']'') @ CHR '':'' # p" using True by (simp add: joinHostPort_def)
  have e: "length (takeWhile (\<lambda>c. c \<noteq> CHR '']'') ((''['' @ h @ '']'') @ CHR '':'' # p)) = length h + 1"
    using assms(3) takeWhile_stop [of "CHR '']''" "''['' @ h" "CHR '':'' # p"] by simp
  show ?thesis
    unfolding SplitHostPort_def j last_index_byte_append [OF assms(1)] using assms e by simp
next
  case False
  have j: "joinHostPort h p = h @ CHR '':'' # p" using False by (simp add: joinHostPort_def)
  have "hd (h @ CHR '':'' # p) \<noteq> CHR ''[''" using assms(2) by (cases h) auto
  then show ?thesis
    unfolding SplitHostPort_def j last_index_byte_append [OF assms(1)] using assms False by simp
qed

text \<open>What a listen address accepted by the flag holds.\<close>

definition listen_spec_ok :: "listen_addr_spec \<Rightarrow> bool" where
  "listen_spec_ok la \<longleftrightarrow>
     (if la_UDS la then la_Host la = [] \<and> la_Port la = 0 else 1 \<le> la_Port la \<and> la_Port la \<le> 65535) \<and>
     list_all (\<lambda>p. p \<noteq> [] \<and> CHR '','' \<notin> set p) (la_Protos la) \<and>
     list_all (\<lambda>c. c \<notin> {CHR ''/'', CHR ''@'', CHR '':'', CHR '','', CHR ''=''}) (la_Name la)"

lemma trim_space_subset: "set (trim_space s) \<subseteq> set s"
proof -
  have "set (dropWhile space_rune (rev (dropWhile space_rune (runes s)))) \<subseteq> set (runes s)"
    by (rule subsetI) (metis set_dropWhileD set_rev)
  then have "set (concat (dropWhile space_rune (rev (dropWhile space_rune (runes s))))) \<subseteq> set (concat (runes s))"
    by (simp only: set_concat) blast
  moreover have "concat (runes s) = s"
    by (induction s rule: runes.induct) simp_all
  ultimately show ?thesis by (auto simp: trim_space_def)
qed

lemma comma_tokens_ok: "list_all (\<lambda>p. p \<noteq> [] \<and> CHR '','' \<notin> set p) (comma_tokens v)"
  using split_on_no_sep trim_space_subset by (fastforce simp: comma_tokens_def list_all_iff)

lemma listen_name_ok:
  assumes "listen_name val = Inr (name, rest)"
  shows "list_all (\<lambda>c. c \<notin> {CHR ''/'', CHR ''@'', CHR '':'', CHR '','', CHR ''=''}) name"
  using assms
  by (auto simp: listen_name_def list_all_iff list_ex_iff cut_byte_Some split: option.splits if_splits)

lemma listenAddr_Set_Inr:
  assumes "listenAddr_Set val l = Inr l'"
  obtains la where "l' = l @ [la]" "listen_spec_ok la" "la_Raw la = val"
proof -
  obtain name rest where n: "listen_name val = Inr (name, rest)"
    using assms by (auto simp: listenAddr_Set_def split: sum.splits)
  obtain addr subArgs where a: "(case cut_byte (CHR '','') rest of Some as \<Rightarrow> as | None \<Rightarrow> (rest, [])) = (addr, subArgs)"
    by (metis surj_pair)
  have ok: "listen_spec_ok \<lparr>la_Name = name, la_Host = h, la_Port = p, la_Raw = val, la_UDS = u, la_Protos = comma_tokens subArgs\<rparr>"
    if "if u then h = [] \<and> p = 0 else 1 \<le> p \<and> p \<le> 65535" for h p u
    using that listen_name_ok [OF n] comma_tokens_ok [of subArgs] by (simp add: listen_spec_ok_def)
  show ?thesis
  proof (cases "prefix ''/'' addr \<or> prefix ''@'' addr")
    case True
    then show ?thesis
      using assms n a ok [of True "[]" 0] that by (auto simp: listenAddr_Set_def split: if_splits)
  next
    case False
    then obtain h s p where "SplitHostPort addr = Some (h, s)" "ParseInt 32 s = Inr p" "1 \<le> p" "p \<le> 65535"
      using assms n a by (auto simp: listenAddr_Set_def split: if_splits option.splits sum.splits)
    then show ?thesis
      using assms n a False ok [of False h p] that by (auto simp: listenAddr_Set_def)
  qed
qed

text \<open>The text of a listen address with its parts.\<close>

definition listen_text :: "string \<Rightarrow> string \<Rightarrow> nat \<Rightarrow> string list \<Rightarrow> string" where
  "listen_text name host port protos =
     (if name = [] then [] else name @ ''='') @ joinHostPort host (show_nat port) @ concat (map (\<lambda>p. CHR '','' # p) protos)"

lemma cut_byte_None: "c \<notin> set s \<Longrightarrow> cut_byte c s = None"
  by (simp add: cut_byte_def)

lemma prefix_before:
  assumes "a @ t = w @ c # u" and "c \<notin> set a"
  shows "prefix a w"
proof -
  obtain us where "a @ us = w \<or> (a = w @ us \<and> us @ t = c # u)"
    using assms(1) by (auto simp: append_eq_append_conv2)
  then show ?thesis using assms(2) by (cases us) auto
qed

lemma show_nat_bytes: "\<not> is_digit c \<Longrightarrow> c \<notin> set (show_nat n)"
  using show_nat_digits [of n] by (auto simp: list_all_iff)

lemma joinHostPort_free:
  "c \<notin> set h \<Longrightarrow> c \<notin> set p \<Longrightarrow> c \<notin> {CHR ''['', CHR '']'', CHR '':''} \<Longrightarrow> c \<notin> set (joinHostPort h p)"
  by (simp add: joinHostPort_def)

lemma comma_tokens_concat:
  assumes "list_all (\<lambda>p. p \<noteq> [] \<and> CHR '','' \<notin> set p \<and> trim_space p = p) (p # ps)"
  shows "comma_tokens (p @ concat (map (\<lambda>p. CHR '','' # p) ps)) = p # ps"
proof -
  have "split_on (CHR '','') (p @ concat (map (\<lambda>p. CHR '','' # p) ps)) = p # ps"
    using assms
  proof (induction ps arbitrary: p)
    case Nil
    then show ?case by (simp add: split_on_id)
  next
    case (Cons q ps)
    then show ?case
      by (simp add: split_on_append_sep [of "CHR '',''" p "q @ concat (map (\<lambda>p. CHR '','' # p) ps)"] split_on_id)
  qed
  moreover have "map trim_space (p # ps) = p # ps"
    using assms by (intro map_idI) (auto simp: list_all_iff)
  moreover have "filter (\<lambda>tok. tok \<noteq> []) (p # ps) = p # ps"
    using assms by (intro filter_True) (auto simp: list_all_iff)
  ultimately show ?thesis by (simp only: comma_tokens_def)
qed

lemma trim_space_id:
  assumes "list_all (\<lambda>c. 32 < byte c \<and> byte c < 128) s"
  shows "trim_space s = s"
proof -
  have r: "runes s = map (\<lambda>c. [c]) s"
    using assms by (intro runes_ascii) (auto simp: list_all_iff is_ascii_def)
  have "\<not> space_rune [c]" if "c \<in> set s" for c
    using that assms by (auto simp: space_rune_def list_all_iff)
  then have "dropWhile space_rune (map (\<lambda>c. [c]) xs) = map (\<lambda>c. [c]) xs" if "set xs \<subseteq> set s" for xs
    using that by (cases xs) auto
  from this [of s] this [of "rev s"] show ?thesis by (simp add: trim_space_def r rev_map [symmetric])
qed

lemma trim_space_Nil [simp]: "trim_space [] = []"
  by (simp add: trim_space_def)

text \<open>
  Parsing a listen address gives back its parts: for every name that can stand before an equals
  sign, every host without brackets (an IPv6 address included, which is written in brackets), every port
  and every list of protocols, the flag's value is read as exactly this name, host, port and protocols,
  also when a protocol holds an equals sign or a slash (user=vcache).
\<close>

theorem listen_addr_roundtrip:
  assumes "list_all (\<lambda>c. c \<notin> {CHR ''/'', CHR ''@'', CHR '':'', CHR '','', CHR ''=''}) name"
    and "list_all (\<lambda>c. c \<notin> {CHR ''['', CHR '']'', CHR ''/'', CHR ''@'', CHR '','', CHR ''=''}) host"
    and "1 \<le> port" and "port \<le> 65535"
    and "list_all (\<lambda>p. p \<noteq> [] \<and> CHR '','' \<notin> set p \<and> trim_space p = p) protos"
  shows "listenAddr_Set (listen_text name host port protos) l =
    Inr (l @ [\<lparr>la_Name = name, la_Host = host, la_Port = int port, la_Raw = listen_text name host port protos,
      la_UDS = False, la_Protos = protos\<rparr>])"
proof -
  let ?a = "joinHostPort host (show_nat port)"
  let ?r = "?a @ concat (map (\<lambda>p. CHR '','' # p) protos)"
  have digits: "c \<notin> set (show_nat port)" if "c \<in> {CHR '':'', CHR ''['', CHR '']'', CHR '','', CHR ''='', CHR ''/'', CHR ''@''}" for c
    using that by (intro show_nat_bytes) (auto simp: is_digit_iff)
  have colon: "CHR '':'' \<in> set ?a" by (simp add: joinHostPort_def)
  have "cut_byte (CHR ''='') ?r = None \<or> (\<exists>w u. cut_byte (CHR ''='') ?r = Some (w, u) \<and> CHR '':'' \<in> set w)"
  proof (cases "cut_byte (CHR ''='') ?r")
    case (Some wu)
    obtain w u where wu: "wu = (w, u)" by force
    then have "?r = w @ CHR ''='' # u" using Some by (simp add: cut_byte_Some)
    moreover have "CHR ''='' \<notin> set ?a"
      using digits assms(2) by (intro joinHostPort_free) (auto simp: list_all_iff)
    ultimately have "prefix ?a w" by (rule prefix_before)
    then show ?thesis using Some wu colon by (auto simp: prefix_def)
  qed simp
  then have name: "listen_name (listen_text name host port protos) = Inr (name, ?r)"
  proof (cases "name = []")
    case True
    then show ?thesis
      using \<open>cut_byte (CHR ''='') ?r = None \<or> _\<close> by (auto simp: listen_name_def listen_text_def list_ex_iff)
  next
    case False
    have "cut_byte (CHR ''='') (name @ CHR ''='' # ?r) = Some (name, ?r)"
      using assms(1) by (auto simp: cut_byte_Some list_all_iff)
    then show ?thesis using False assms(1) by (auto simp: listen_name_def listen_text_def list_ex_iff list_all_iff)
  qed
  have comma: "CHR '','' \<notin> set ?a"
    using digits assms(2) by (intro joinHostPort_free) (auto simp: list_all_iff)
  have parts: "\<exists>s. (case cut_byte (CHR '','') ?r of Some as \<Rightarrow> as | None \<Rightarrow> (?r, [])) = (?a, s) \<and> comma_tokens s = protos"
  proof (cases protos)
    case Nil
    then show ?thesis using comma by (simp add: cut_byte_None comma_tokens_def)
  next
    case (Cons p ps)
    then have "cut_byte (CHR '','') ?r = Some (?a, p @ concat (map (\<lambda>p. CHR '','' # p) ps))"
      using comma by (simp add: cut_byte_Some)
    then show ?thesis using comma_tokens_concat [of p ps] assms(5) Cons by simp
  qed
  have tcp: "\<not> prefix ''/'' ?a" "\<not> prefix ''@'' ?a"
    using assms(2) by (cases host; auto simp: joinHostPort_def)+
  have "SplitHostPort ?a = Some (host, show_nat port)"
    using assms(2) digits by (intro SplitHostPort_join) (auto simp: list_all_iff)
  moreover have "ParseInt 32 (show_nat port) = Inr (int port)"
    using assms(4) by (intro ParseInt_show_nat) simp
  ultimately show ?thesis
    using name parts tcp assms(3,4) by (auto simp: listenAddr_Set_def)
qed

theorem listen_addr_roundtrip_witness:
  "listenAddr_Set (listen_text ''http'' ''::1'' 8443 [''https'']) [] =
     Inr [\<lparr>la_Name = ''http'', la_Host = ''::1'', la_Port = 8443, la_Raw = listen_text ''http'' ''::1'' 8443 [''https''],
       la_UDS = False, la_Protos = [''https'']\<rparr>]"
proof -
  have "trim_space ''https'' = ''https''" by (rule trim_space_id) (simp add: byte_def)
  then show ?thesis
    using listen_addr_roundtrip [of "''http''" "''::1''" 8443 "[''https'']" "[]"] by simp
qed

end
