(* ===== verification/Config.thy ===== *)
theory Config
  imports ConfigFlags Shutdown
begin

text \<open>
  The configuration of \<open>internal/config/config.go\<close>: the values the flags have by default, the checks
  of \<open>parse\<close> in their order, and the configuration it returns. The command-line library is outside the
  model: what it gives is the destinations of the flags, which of them are set, and the arguments that
  are left. Durations are integers of 64 bits in nanoseconds.
\<close>

section \<open>Data\<close>

record config =
  cf_ServiceName :: string
  cf_ServiceNamespace :: string
  cf_Namespace :: string
  cf_VCLTemplate :: string
  cf_ListenAddrs :: "listen_addr_spec list"
  cf_VarnishdPath :: string
  cf_VarnishadmPath :: string
  cf_BroadcastAddr :: string
  cf_BroadcastTargetListenAddr :: string
  cf_BroadcastTargetPort :: int
  cf_BroadcastDrainTimeout :: int
  cf_BroadcastShutdownTimeout :: int
  cf_BroadcastServerIdleTimeout :: int
  cf_BroadcastReadHeaderTimeout :: int
  cf_BroadcastReadTimeout :: int
  cf_BroadcastWriteTimeout :: int
  cf_BroadcastClientIdleTimeout :: int
  cf_BroadcastClientTimeout :: int
  cf_Debounce :: int
  cf_DebounceMax :: int
  cf_FrontendDebounce :: int
  cf_FrontendDebounceMax :: int
  cf_BackendDebounce :: int
  cf_BackendDebounceMax :: int
  cf_ShutdownTimeout :: int
  cf_StartupTimeout :: int
  cf_KubeAPITimeout :: int
  cf_Backends :: "backend_spec list"
  cf_BackendSelectors :: "backend_selector_spec list"
  cf_Values :: "values_spec list"
  cf_Secrets :: "secrets_spec list"
  cf_TLSCerts :: "tls_cert_spec list"
  cf_TLSCertDebounce :: int
  cf_TLSCertDebounceMax :: int
  cf_ValuesDirs :: "values_dir_spec list"
  cf_ValuesDirPollInterval :: int
  cf_MetricsAddr :: string
  cf_MetricsReadHeaderTimeout :: int
  cf_MetricsReadTimeout :: int
  cf_MetricsWriteTimeout :: int
  cf_MetricsIdleTimeout :: int
  cf_ExtraVarnishd :: "string list"
  cf_LogLevel :: int
  cf_LogFormat :: string
  cf_AdminTimeout :: int
  cf_Drain :: bool
  cf_DrainDelay :: int
  cf_DrainPollInterval :: int
  cf_DrainTimeout :: int
  cf_VCLTemplateWatchInterval :: int
  cf_FileWatch :: bool
  cf_ValuesDirWatch :: bool
  cf_VarnishstatPath :: string
  cf_TemplateDelimLeft :: string
  cf_TemplateDelimRight :: string
  cf_TemplateFuncs :: string
  cf_VCLReloadRetries :: int
  cf_VCLReloadRetryInterval :: int
  cf_VCLKept :: int
  cf_DebounceLatencyBuckets :: "rat list"
  cf_Zone :: string
  cf_VarnishstatExport :: bool
  cf_VarnishstatExportFilter :: "string list"
  cf_VarnishncsaEnabled :: bool
  cf_VarnishncsaPath :: string
  cf_VarnishncsaFormat :: string
  cf_VarnishncsaQuery :: string
  cf_VarnishncsaBackend :: bool
  cf_VarnishncsaOutput :: string
  cf_VarnishncsaPrefix :: string
  cf_ExcludeAnnotations :: "string list"

text \<open>The destinations that are no fields of the configuration.\<close>

record raw_flags =
  rf_Backends :: "string list"
  rf_BackendSelectors :: "string list"
  rf_ListenAddrs :: "string list"
  rf_Values :: "string list"
  rf_Secrets :: "string list"
  rf_TLSCerts :: "string list"
  rf_ValuesDirs :: "string list"
  rf_templateDelims :: string
  rf_logLevel :: string
  rf_FrontendDebounce :: int
  rf_FrontendDebounceMax :: int
  rf_BackendDebounce :: int
  rf_BackendDebounceMax :: int
  rf_TLSCertDebounce :: int
  rf_TLSCertDebounceMax :: int
  rf_DebounceLatencyBuckets :: string
  rf_VinyldPath :: string
  rf_VinyladmPath :: string
  rf_VinylstatPath :: string
  rf_VinylncsaPath :: string

text \<open>
  What the checks ask the outside: the validation package of Kubernetes, \<open>labels.Parse\<close>, \<open>os.Stat\<close>
  (whether a path exists and whether it is a directory), \<open>exec.LookPath\<close>, and of the standard library
  \<open>strings.ToUpper\<close> off ASCII and \<open>strconv.ParseFloat\<close>.
\<close>

datatype float64 = Fin rat | PosInf | NegInf | NaN

record config_world =
  cw_isPortName :: "string \<Rightarrow> bool"
  cw_isSubdomain :: "string \<Rightarrow> bool"
  cw_isSelector :: "string \<Rightarrow> bool"
  cw_Stat :: "string \<Rightarrow> bool option"
  cw_LookPath :: "string \<Rightarrow> bool"
  cw_upper :: "string \<Rightarrow> string"
  cw_ParseFloat :: "string \<Rightarrow> float64 option"

text \<open>
  The errors, each with the flag it names: a missing flag, a value that is refused, a value that a parser
  of \<open>ConfigFlags\<close> refuses, a name given twice, and a path that is not there.
\<close>

datatype config_error = Required string | Invalid string | Refused string flag_error
  | Duplicate string string | NoPath string string

definition then_ok :: "'e + 'a \<Rightarrow> ('a \<Rightarrow> 'e + 'b) \<Rightarrow> 'e + 'b" where
  "then_ok r f = (case r of Inl e \<Rightarrow> Inl e | Inr x \<Rightarrow> f x)"

lemma then_ok_simps [simp]: "then_ok (Inl e) f = Inl e" "then_ok (Inr x) f = f x"
  by (simp_all add: then_ok_def)

lemma then_ok_Inr: "then_ok r f = Inr y \<longleftrightarrow> (\<exists>x. r = Inr x \<and> f x = Inr y)"
  by (cases r) simp_all

section \<open>Defaults\<close>

text \<open>The zero value, and the values of the flags by their categories.\<close>

definition minutes :: "int \<Rightarrow> int" where
  "minutes n = n * (60 * second)"

definition zero_config :: config where
  "zero_config = \<lparr>cf_ServiceName = [], cf_ServiceNamespace = [], cf_Namespace = [], cf_VCLTemplate = [],
     cf_ListenAddrs = [], cf_VarnishdPath = [], cf_VarnishadmPath = [], cf_BroadcastAddr = [],
     cf_BroadcastTargetListenAddr = [], cf_BroadcastTargetPort = 0, cf_BroadcastDrainTimeout = 0,
     cf_BroadcastShutdownTimeout = 0, cf_BroadcastServerIdleTimeout = 0,
     cf_BroadcastReadHeaderTimeout = 0, cf_BroadcastReadTimeout = 0, cf_BroadcastWriteTimeout = 0,
     cf_BroadcastClientIdleTimeout = 0, cf_BroadcastClientTimeout = 0, cf_Debounce = 0,
     cf_DebounceMax = 0, cf_FrontendDebounce = 0, cf_FrontendDebounceMax = 0,
     cf_BackendDebounce = 0, cf_BackendDebounceMax = 0, cf_ShutdownTimeout = 0,
     cf_StartupTimeout = 0, cf_KubeAPITimeout = 0, cf_Backends = [], cf_BackendSelectors = [],
     cf_Values = [], cf_Secrets = [], cf_TLSCerts = [], cf_TLSCertDebounce = 0,
     cf_TLSCertDebounceMax = 0, cf_ValuesDirs = [], cf_ValuesDirPollInterval = 0,
     cf_MetricsAddr = [], cf_MetricsReadHeaderTimeout = 0, cf_MetricsReadTimeout = 0,
     cf_MetricsWriteTimeout = 0, cf_MetricsIdleTimeout = 0, cf_ExtraVarnishd = [], cf_LogLevel = 0,
     cf_LogFormat = [], cf_AdminTimeout = 0, cf_Drain = False, cf_DrainDelay = 0,
     cf_DrainPollInterval = 0, cf_DrainTimeout = 0, cf_VCLTemplateWatchInterval = 0,
     cf_FileWatch = False, cf_ValuesDirWatch = False, cf_VarnishstatPath = [],
     cf_TemplateDelimLeft = [], cf_TemplateDelimRight = [], cf_TemplateFuncs = [],
     cf_VCLReloadRetries = 0, cf_VCLReloadRetryInterval = 0, cf_VCLKept = 0,
     cf_DebounceLatencyBuckets = [], cf_Zone = [], cf_VarnishstatExport = False,
     cf_VarnishstatExportFilter = [], cf_VarnishncsaEnabled = False, cf_VarnishncsaPath = [],
     cf_VarnishncsaFormat = [], cf_VarnishncsaQuery = [], cf_VarnishncsaBackend = False,
     cf_VarnishncsaOutput = [], cf_VarnishncsaPrefix = [], cf_ExcludeAnnotations = []\<rparr>"

definition listen_defaults :: "config \<Rightarrow> config" where
  "listen_defaults c = c\<lparr>cf_ValuesDirPollInterval := 5 * second\<rparr>"

definition paths_defaults :: "config \<Rightarrow> config" where
  "paths_defaults c = c\<lparr>cf_VarnishdPath := ''varnishd'', cf_VarnishadmPath := ''varnishadm'',
     cf_VarnishstatPath := ''varnishstat'', cf_AdminTimeout := 30 * second\<rparr>"

definition broadcast_defaults :: "config \<Rightarrow> config" where
  "broadcast_defaults c = c\<lparr>cf_BroadcastAddr := '':8088'', cf_BroadcastDrainTimeout := 30 * second,
     cf_BroadcastShutdownTimeout := 5 * second, cf_BroadcastServerIdleTimeout := 120 * second,
     cf_BroadcastReadHeaderTimeout := 10 * second, cf_BroadcastClientIdleTimeout := 4 * second,
     cf_BroadcastClientTimeout := 3 * second, cf_BroadcastReadTimeout := 15 * second,
     cf_BroadcastWriteTimeout := 30 * second\<rparr>"

definition metrics_defaults :: "config \<Rightarrow> config" where
  "metrics_defaults c = c\<lparr>cf_MetricsAddr := '':9101'', cf_MetricsReadHeaderTimeout := 10 * second,
     cf_MetricsReadTimeout := 15 * second, cf_MetricsWriteTimeout := 15 * second,
     cf_MetricsIdleTimeout := 120 * second\<rparr>"

definition logging_defaults :: "config \<Rightarrow> config" where
  "logging_defaults c = c\<lparr>cf_VarnishncsaPath := ''varnishncsa'', cf_VarnishncsaPrefix := ''[access] ''\<rparr>"

definition drain_defaults :: "config \<Rightarrow> config" where
  "drain_defaults c = c\<lparr>cf_DrainDelay := 15 * second, cf_DrainPollInterval := 1 * second\<rparr>"

definition template_defaults :: "config \<Rightarrow> config" where
  "template_defaults c = c\<lparr>cf_TemplateFuncs := ''sprig''\<rparr>"

definition timing_defaults :: "config \<Rightarrow> config" where
  "timing_defaults c = c\<lparr>cf_Debounce := 2 * second, cf_ShutdownTimeout := 30 * second,
     cf_StartupTimeout := minutes 3, cf_KubeAPITimeout := 30 * second, cf_VCLTemplateWatchInterval := 5 * second,
     cf_FileWatch := True, cf_ValuesDirWatch := True, cf_VCLReloadRetries := 3,
     cf_VCLReloadRetryInterval := 2 * second, cf_LogFormat := ''text''\<rparr>"

definition default_config :: config where
  "default_config = timing_defaults (template_defaults (drain_defaults (logging_defaults
     (metrics_defaults (broadcast_defaults (paths_defaults (listen_defaults zero_config)))))))"

definition default_raw :: raw_flags where
  "default_raw = \<lparr>rf_Backends = [], rf_BackendSelectors = [], rf_ListenAddrs = [], rf_Values = [], rf_Secrets = [],
     rf_TLSCerts = [], rf_ValuesDirs = [], rf_templateDelims = ''<< >>'', rf_logLevel = ''INFO'',
     rf_FrontendDebounce = - 1, rf_FrontendDebounceMax = - 1, rf_BackendDebounce = - 1, rf_BackendDebounceMax = - 1,
     rf_TLSCertDebounce = - 1, rf_TLSCertDebounceMax = - 1,
     rf_DebounceLatencyBuckets = ''0.01,0.05,0.1,0.25,0.5,1,2.5,5,10'',
     rf_VinyldPath = [], rf_VinyladmPath = [], rf_VinylstatPath = [], rf_VinylncsaPath = []\<rparr>"

section \<open>The checks\<close>

definition check_required :: "config \<Rightarrow> config_error + config" where
  "check_required c =
     (if cf_ServiceName c = [] then Inl (Required ''service-name'')
      else if cf_Namespace c = [] then Inl (Required ''namespace'')
      else if \<not> isValidDNSLabel (cf_Namespace c) then Inl (Refused ''namespace'' InvalidDNSLabel)
      else if cf_VCLTemplate c = [] then Inl (Required ''vcl-template'')
      else Inr c)"

definition parse_delims :: "string \<Rightarrow> config \<Rightarrow> config_error + config" where
  "parse_delims delims c =
     (case str_fields delims of
        [l, r] \<Rightarrow>
          if l = r then Inl (Invalid ''template-delims'')
          else Inr (c\<lparr>cf_TemplateDelimLeft := l, cf_TemplateDelimRight := r\<rparr>)
      | _ \<Rightarrow> Inl (Invalid ''template-delims''))"

text \<open>\<open>slog.Level.UnmarshalText\<close>: a name in any case, and an offset behind its sign.\<close>

definition upper_byte :: "char \<Rightarrow> char" where
  "upper_byte c = (if CHR ''a'' \<le> c \<and> c \<le> CHR ''z'' then char_of (byte c - 32) else c)"

definition level_of :: "string \<Rightarrow> int option" where
  "level_of = map_of [(''DEBUG'', - 4), (''INFO'', 0), (''WARN'', 4), (''ERROR'', 8)]"

definition parse_level :: "(string \<Rightarrow> string) \<Rightarrow> string \<Rightarrow> int option" where
  "parse_level upper s =
     (let name = takeWhile (\<lambda>c. c \<noteq> CHR ''+'' \<and> c \<noteq> CHR ''-'') s;
          offset = drop (length name) s;
          base = level_of (if list_all is_ascii name then map upper_byte name else upper name)
      in if offset = [] then base
         else case parse_int 64 offset of
           None \<Rightarrow> None
         | Some n \<Rightarrow> map_option (\<lambda>b. duration (b + n)) base)"

definition check_modes :: "config_world \<Rightarrow> string \<Rightarrow> config \<Rightarrow> config_error + config" where
  "check_modes w level c =
     (if cf_TemplateFuncs c \<noteq> ''sprig'' \<and> cf_TemplateFuncs c \<noteq> ''sprout'' then Inl (Invalid ''template-funcs'')
      else case parse_level (cw_upper w) level of
        None \<Rightarrow> Inl (Invalid ''log-level'')
      | Some l \<Rightarrow>
          (let c' = c\<lparr>cf_LogLevel := l\<rparr>
           in if cf_LogFormat c' \<noteq> ''text'' \<and> cf_LogFormat c' \<noteq> ''json'' then Inl (Invalid ''log-format'')
              else Inr c'))"

text \<open>A row of checks, each with the flag it names: the first that fails is the error.\<close>

fun first_bad :: "(bool \<times> string) list \<Rightarrow> config \<Rightarrow> config_error + config" where
  "first_bad [] c = Inr c"
| "first_bad ((bad, flag) # rows) c = (if bad then Inl (Invalid flag) else first_bad rows c)"

definition check_debounce :: "config \<Rightarrow> config_error + config" where
  "check_debounce c = first_bad
     [(cf_Debounce c < 0, ''debounce''),
      (cf_DebounceMax c < 0, ''debounce-max''),
      (cf_DebounceMax c > 0 \<and> cf_DebounceMax c < cf_Debounce c, ''debounce-max'')] c"

definition check_source_debounces :: "(string \<Rightarrow> bool) \<Rightarrow> raw_flags \<Rightarrow> config \<Rightarrow> config_error + config" where
  "check_source_debounces isSet f c = first_bad
     (map (\<lambda>(name, v). (isSet name \<and> v < 0, name))
       [(''frontend-debounce'', rf_FrontendDebounce f), (''frontend-debounce-max'', rf_FrontendDebounceMax f),
        (''backend-debounce'', rf_BackendDebounce f), (''backend-debounce-max'', rf_BackendDebounceMax f),
        (''tls-cert-debounce'', rf_TLSCertDebounce f), (''tls-cert-debounce-max'', rf_TLSCertDebounceMax f)]) c"

definition resolve_debounces :: "raw_flags \<Rightarrow> config \<Rightarrow> config" where
  "resolve_debounces f c = c\<lparr>
     cf_FrontendDebounce := if rf_FrontendDebounce f < 0 then cf_Debounce c else rf_FrontendDebounce f,
     cf_FrontendDebounceMax := if rf_FrontendDebounceMax f < 0 then cf_DebounceMax c else rf_FrontendDebounceMax f,
     cf_BackendDebounce := if rf_BackendDebounce f < 0 then cf_Debounce c else rf_BackendDebounce f,
     cf_BackendDebounceMax := if rf_BackendDebounceMax f < 0 then cf_DebounceMax c else rf_BackendDebounceMax f,
     cf_TLSCertDebounce := if rf_TLSCertDebounce f < 0 then cf_Debounce c else rf_TLSCertDebounce f,
     cf_TLSCertDebounceMax := if rf_TLSCertDebounceMax f < 0 then cf_DebounceMax c else rf_TLSCertDebounceMax f\<rparr>"

definition check_source_max :: "config \<Rightarrow> config_error + config" where
  "check_source_max c = first_bad
     [(cf_FrontendDebounceMax c > 0 \<and> cf_FrontendDebounceMax c < cf_FrontendDebounce c, ''frontend-debounce-max''),
      (cf_BackendDebounceMax c > 0 \<and> cf_BackendDebounceMax c < cf_BackendDebounce c, ''backend-debounce-max''),
      (cf_TLSCertDebounceMax c > 0 \<and> cf_TLSCertDebounceMax c < cf_TLSCertDebounce c, ''tls-cert-debounce-max'')] c"

definition check_numbers :: "config \<Rightarrow> config_error + config" where
  "check_numbers c = first_bad
     [(cf_VCLReloadRetries c < 0, ''vcl-reload-retries''),
      (cf_VCLReloadRetryInterval c < 0, ''vcl-reload-retry-interval''),
      (cf_VCLKept c < 0, ''vcl-kept''),
      (cf_ValuesDirPollInterval c \<le> 0, ''values-dir-poll-interval''),
      (cf_VCLTemplateWatchInterval c \<le> 0, ''vcl-template-watch-interval''),
      (cf_DrainPollInterval c \<le> 0, ''drain-poll-interval'')] c"

definition check_timeouts :: "config \<Rightarrow> config_error + config" where
  "check_timeouts c = first_bad
     [(cf_MetricsReadHeaderTimeout c < 0, ''metrics-read-header-timeout''),
      (cf_BroadcastReadHeaderTimeout c < 0, ''broadcast-read-header-timeout''),
      (cf_BroadcastServerIdleTimeout c < 0, ''broadcast-server-idle-timeout''),
      (cf_AdminTimeout c \<le> 0, ''admin-timeout''),
      (cf_ShutdownTimeout c < 0, ''shutdown-timeout''),
      (cf_StartupTimeout c < 0, ''startup-timeout''),
      (cf_KubeAPITimeout c < 0, ''kube-api-timeout''),
      (cf_BroadcastReadTimeout c < 0, ''broadcast-read-timeout''),
      (cf_BroadcastWriteTimeout c < 0, ''broadcast-write-timeout''),
      (cf_MetricsReadTimeout c < 0, ''metrics-read-timeout''),
      (cf_MetricsWriteTimeout c < 0, ''metrics-write-timeout''),
      (cf_MetricsIdleTimeout c < 0, ''metrics-idle-timeout''),
      (cf_BroadcastDrainTimeout c < 0, ''broadcast-drain-timeout''),
      (cf_BroadcastShutdownTimeout c < 0, ''broadcast-shutdown-timeout''),
      (cf_BroadcastClientTimeout c < 0, ''broadcast-client-timeout''),
      (cf_BroadcastClientIdleTimeout c < 0, ''broadcast-client-idle-timeout''),
      (cf_DrainDelay c < 0, ''drain-delay''),
      (cf_DrainTimeout c < 0, ''drain-timeout'')] c"

text \<open>The buckets: parsed one by one, then sorted and without duplicates.\<close>

fun parse_buckets :: "(string \<Rightarrow> float64 option) \<Rightarrow> string list \<Rightarrow> config_error + rat list" where
  "parse_buckets ParseFloat [] = Inr []"
| "parse_buckets ParseFloat (p # ps) =
     (case ParseFloat (trim_space p) of
        Some (Fin v) \<Rightarrow>
          if v \<le> 0 then Inl (Invalid ''debounce-latency-buckets'')
          else then_ok (parse_buckets ParseFloat ps) (\<lambda>vs. Inr (v # vs))
      | _ \<Rightarrow> Inl (Invalid ''debounce-latency-buckets''))"

definition check_buckets :: "config_world \<Rightarrow> string \<Rightarrow> config \<Rightarrow> config_error + config" where
  "check_buckets w raw c =
     then_ok (parse_buckets (cw_ParseFloat w) (split_on (CHR '','') raw))
       (\<lambda>vs. Inr (c\<lparr>cf_DebounceLatencyBuckets := remdups_adj (sort (cf_DebounceLatencyBuckets c @ vs))\<rparr>))"

definition check_template :: "config_world \<Rightarrow> config \<Rightarrow> config_error + config" where
  "check_template w c =
     (if cw_Stat w (cf_VCLTemplate c) = None then Inl (NoPath ''vcl-template'' (cf_VCLTemplate c)) else Inr c)"

section \<open>Listen addresses and servers\<close>

text \<open>The values of a repeatable flag, one after the other.\<close>

fun set_all :: "string \<Rightarrow> (string \<Rightarrow> 'a list \<Rightarrow> flag_error + 'a list) \<Rightarrow> string list \<Rightarrow> 'a list \<Rightarrow>
    config_error + 'a list" where
  "set_all flag set_one [] l = Inr l"
| "set_all flag set_one (raw # raws) l =
     (case set_one raw l of Inl e \<Rightarrow> Inl (Refused flag e) | Inr l' \<Rightarrow> set_all flag set_one raws l')"

text \<open>The loops over the names: the first name that was there before is the error.\<close>

fun unique_names :: "string \<Rightarrow> string set \<Rightarrow> string list \<Rightarrow> config_error + string set" where
  "unique_names flag seen [] = Inr seen"
| "unique_names flag seen (n # ns) =
     (if n \<in> seen then Inl (Duplicate flag n) else unique_names flag (insert n seen) ns)"

definition check_listen :: "string list \<Rightarrow> config \<Rightarrow> config_error + config" where
  "check_listen raws c =
     then_ok (set_all ''listen-addr'' listenAddr_Set raws [])
       (\<lambda>las0. then_ok (if las0 = [] then set_all ''listen-addr'' listenAddr_Set [''http=:8080,HTTP''] las0 else Inr las0)
         (\<lambda>las. if la_UDS (hd las) then Inl (Invalid ''listen-addr'')
           else then_ok (unique_names ''listen-addr'' {} (filter (\<lambda>n. n \<noteq> []) (map la_Name las)))
             (\<lambda>_. Inr (c\<lparr>cf_ListenAddrs := las\<rparr>))))"

definition or_none :: "string \<Rightarrow> string" where
  "or_none a = (if a = ''none'' then [] else a)"

definition check_addrs :: "config \<Rightarrow> config_error + config" where
  "check_addrs c =
     then_ok (first_bad [(cf_BroadcastAddr c = [], ''broadcast-addr''), (cf_MetricsAddr c = [], ''metrics-addr'')] c)
       (\<lambda>c. Inr (c\<lparr>cf_BroadcastAddr := or_none (cf_BroadcastAddr c), cf_MetricsAddr := or_none (cf_MetricsAddr c),
          cf_VarnishstatExportFilter := splitCommaList (cf_VarnishstatExportFilter c)\<rparr>))"

text \<open>The difference of the two timeouts is the code's, on integers of 64 bits.\<close>

definition check_broadcast :: "config \<Rightarrow> config_error + config" where
  "check_broadcast c =
     (if cf_BroadcastAddr c = [] then Inr c
      else case resolveBroadcastTargetPort (cf_ListenAddrs c) (cf_BroadcastTargetListenAddr c) of
        Inl e \<Rightarrow> Inl (Refused ''broadcast-target-listen-addr'' e)
      | Inr port \<Rightarrow>
          (let c' = c\<lparr>cf_BroadcastTargetPort := port\<rparr>
           in if cf_BroadcastWriteTimeout c' > 0 \<and>
                duration (cf_BroadcastWriteTimeout c' - cf_BroadcastClientTimeout c') \<le> cf_BroadcastReadTimeout c'
              then Inl (Invalid ''broadcast-write-timeout'') else Inr c'))"

section \<open>Objects to watch\<close>

definition check_service :: "config \<Rightarrow> config_error + config" where
  "check_service c =
     (case parseNamespacedService (cf_ServiceName c) (cf_Namespace c) of
        Inl e \<Rightarrow> Inl (Refused ''service-name'' e)
      | Inr (ns, svc) \<Rightarrow> Inr (c\<lparr>cf_ServiceNamespace := ns, cf_ServiceName := svc\<rparr>))"

text \<open>
  A loop that checks the name of each entry and resolves its reference in place: \<open>resolve\<close> is the
  entry with its namespace and name.
\<close>

fun resolve_all :: "string \<Rightarrow> ('a \<Rightarrow> string) \<Rightarrow> ('a \<Rightarrow> flag_error + 'a) \<Rightarrow> string set \<Rightarrow> 'a list \<Rightarrow>
    config_error + 'a list \<times> string set" where
  "resolve_all flag name resolve seen [] = Inr ([], seen)"
| "resolve_all flag name resolve seen (x # xs) =
     (if name x \<in> seen then Inl (Duplicate flag (name x))
      else case resolve x of
        Inl e \<Rightarrow> Inl (Refused flag e)
      | Inr x' \<Rightarrow>
          then_ok (resolve_all flag name resolve (insert (name x) seen) xs) (\<lambda>(xs', s). Inr (x' # xs', s)))"

definition resolve_backend :: "string \<Rightarrow> backend_spec \<Rightarrow> flag_error + backend_spec" where
  "resolve_backend defaultNS b =
     (case parseNamespacedService (bs_ServiceName b) defaultNS of
        Inl e \<Rightarrow> Inl e
      | Inr (ns, svc) \<Rightarrow> Inr (b\<lparr>bs_Namespace := ns, bs_ServiceName := svc\<rparr>))"

definition check_backends :: "config_world \<Rightarrow> string list \<Rightarrow> config \<Rightarrow> config_error + config" where
  "check_backends w raws c =
     then_ok (set_all ''backend'' (backend_Set (cw_isPortName w)) raws [])
       (\<lambda>bs. then_ok (resolve_all ''backend'' bs_Name (resolve_backend (cf_Namespace c)) {} bs)
         (\<lambda>(bs', _). Inr (c\<lparr>cf_Backends := bs'\<rparr>)))"

fun parse_selectors :: "config_world \<Rightarrow> string list \<Rightarrow> config \<Rightarrow> config_error + config" where
  "parse_selectors w [] c = Inr c"
| "parse_selectors w (raw # raws) c =
     (case parseBackendSelector (cw_isPortName w) (cw_isSelector w) raw (cf_Namespace c) of
        Inl e \<Rightarrow> Inl (Refused ''backend-selector'' e)
      | Inr spec \<Rightarrow> parse_selectors w raws (c\<lparr>cf_BackendSelectors := cf_BackendSelectors c @ [spec]\<rparr>))"

definition resolve_values :: "config_world \<Rightarrow> string \<Rightarrow> values_spec \<Rightarrow> flag_error + values_spec" where
  "resolve_values w defaultNS v =
     (case parseNamespacedResource (cw_isSubdomain w) (vs_ConfigMapName v) defaultNS of
        Inl e \<Rightarrow> Inl e
      | Inr (ns, cm) \<Rightarrow> Inr (v\<lparr>vs_Namespace := ns, vs_ConfigMapName := cm\<rparr>))"

text \<open>The names of the values are kept for the directories.\<close>

definition check_values :: "config_world \<Rightarrow> string list \<Rightarrow> config \<Rightarrow> config_error + config \<times> string set" where
  "check_values w raws c =
     then_ok (set_all ''values'' values_Set raws [])
       (\<lambda>vs. then_ok (resolve_all ''values'' vs_Name (resolve_values w (cf_Namespace c)) {} vs)
         (\<lambda>(vs', seen). Inr (c\<lparr>cf_Values := vs'\<rparr>, seen)))"

definition resolve_secret :: "config_world \<Rightarrow> string \<Rightarrow> secrets_spec \<Rightarrow> flag_error + secrets_spec" where
  "resolve_secret w defaultNS s =
     (case parseNamespacedResource (cw_isSubdomain w) (ss_SecretName s) defaultNS of
        Inl e \<Rightarrow> Inl e
      | Inr (ns, sec) \<Rightarrow> Inr (s\<lparr>ss_Namespace := ns, ss_SecretName := sec\<rparr>))"

definition check_secrets :: "config_world \<Rightarrow> string list \<Rightarrow> config \<Rightarrow> config_error + config" where
  "check_secrets w raws c =
     then_ok (set_all ''secrets'' secrets_Set raws [])
       (\<lambda>ss. then_ok (resolve_all ''secrets'' ss_Name (resolve_secret w (cf_Namespace c)) {} ss)
         (\<lambda>(ss', _). Inr (c\<lparr>cf_Secrets := ss'\<rparr>)))"

definition resolve_tls_cert :: "config_world \<Rightarrow> string \<Rightarrow> tls_cert_spec \<Rightarrow> flag_error + tls_cert_spec" where
  "resolve_tls_cert w defaultNS t =
     (case parseNamespacedResource (cw_isSubdomain w) (ts_SecretName t) defaultNS of
        Inl e \<Rightarrow> Inl e
      | Inr (ns, sec) \<Rightarrow> Inr (t\<lparr>ts_Namespace := ns, ts_SecretName := sec\<rparr>))"

definition check_tls_certs :: "config_world \<Rightarrow> string list \<Rightarrow> config \<Rightarrow> config_error + config" where
  "check_tls_certs w raws c =
     then_ok (set_all ''tls-cert'' tlsCert_Set raws [])
       (\<lambda>ts. then_ok (resolve_all ''tls-cert'' ts_Name (resolve_tls_cert w (cf_Namespace c)) {} ts)
         (\<lambda>(ts', _). let c' = c\<lparr>cf_TLSCerts := ts'\<rparr>
            in if cf_TLSCerts c' \<noteq> [] \<and> \<not> hasHTTPSListener (cf_ListenAddrs c')
               then Inl (Refused ''tls-cert'' NoHTTPSListener) else Inr c'))"

fun stat_dirs :: "config_world \<Rightarrow> string set \<Rightarrow> values_dir_spec list \<Rightarrow> config_error + unit" where
  "stat_dirs w seen [] = Inr ()"
| "stat_dirs w seen (vd # vds) =
     (if ds_Name vd \<in> seen then Inl (Duplicate ''values-dir'' (ds_Name vd))
      else if cw_Stat w (ds_Path vd) \<noteq> Some True then Inl (NoPath ''values-dir'' (ds_Path vd))
      else stat_dirs w (insert (ds_Name vd) seen) vds)"

definition check_values_dirs :: "config_world \<Rightarrow> string set \<Rightarrow> string list \<Rightarrow> config \<Rightarrow> config_error + config" where
  "check_values_dirs w seen raws c =
     then_ok (set_all ''values-dir'' valuesDir_Set raws [])
       (\<lambda>vds. then_ok (stat_dirs w seen vds) (\<lambda>_. Inr (c\<lparr>cf_ValuesDirs := vds\<rparr>)))"

section \<open>The whole of parse\<close>

text \<open>\<open>resolveBinaryPaths\<close>; \<open>cmp.Or\<close> takes the first that is not empty.\<close>

definition cmp_or :: "string \<Rightarrow> string \<Rightarrow> string" where
  "cmp_or a b = (if a \<noteq> [] then a else b)"

definition resolveBinaryPaths :: "config_world \<Rightarrow> raw_flags \<Rightarrow> bool \<Rightarrow> config \<Rightarrow> config" where
  "resolveBinaryPaths w f varnishExplicit c =
     (if rf_VinyldPath f \<noteq> [] \<or> rf_VinyladmPath f \<noteq> [] \<or> rf_VinylstatPath f \<noteq> [] \<or> rf_VinylncsaPath f \<noteq> [] then
        c\<lparr>cf_VarnishdPath := cmp_or (rf_VinyldPath f) ''vinyld'', cf_VarnishadmPath := cmp_or (rf_VinyladmPath f) ''vinyladm'',
          cf_VarnishstatPath := cmp_or (rf_VinylstatPath f) ''vinylstat'',
          cf_VarnishncsaPath := cmp_or (rf_VinylncsaPath f) ''vinylncsa''\<rparr>
      else if varnishExplicit then c
      else if cw_LookPath w ''vinyld'' then
        c\<lparr>cf_VarnishdPath := ''vinyld'', cf_VarnishadmPath := ''vinyladm'', cf_VarnishstatPath := ''vinylstat'',
          cf_VarnishncsaPath := ''vinylncsa''\<rparr>
      else c)"

definition finish_config :: "config_world \<Rightarrow> (string \<Rightarrow> bool) \<Rightarrow> raw_flags \<Rightarrow> string list \<Rightarrow> config \<Rightarrow> config" where
  "finish_config w isSet f args c =
     (let c1 = (if \<not> isSet ''values-dir-watch'' then c\<lparr>cf_ValuesDirWatch := cf_FileWatch c\<rparr> else c);
          varnishExplicit = (isSet ''varnishd-path'' \<or> isSet ''varnishadm-path'' \<or> isSet ''varnishstat-path'' \<or>
            isSet ''varnishncsa-path'')
      in (resolveBinaryPaths w f varnishExplicit c1)\<lparr>cf_ExtraVarnishd := args\<rparr>)"

text \<open>The action of the command, in three parts: the values, the addresses, and the objects.\<close>

definition check_values_part :: "config_world \<Rightarrow> (string \<Rightarrow> bool) \<Rightarrow> raw_flags \<Rightarrow> config \<Rightarrow> config_error + config" where
  "check_values_part w isSet f c =
     then_ok (check_required c) (\<lambda>c.
     then_ok (parse_delims (rf_templateDelims f) c) (\<lambda>c.
     then_ok (check_modes w (rf_logLevel f) c) (\<lambda>c.
     then_ok (check_debounce c) (\<lambda>c.
     then_ok (check_source_debounces isSet f c) (\<lambda>c.
     then_ok (check_source_max (resolve_debounces f c)) (\<lambda>c.
     then_ok (check_numbers c) (\<lambda>c.
     then_ok (check_timeouts c) (\<lambda>c.
     check_buckets w (rf_DebounceLatencyBuckets f) c))))))))"

definition check_address_part :: "config_world \<Rightarrow> raw_flags \<Rightarrow> config \<Rightarrow> config_error + config" where
  "check_address_part w f c =
     then_ok (check_template w c) (\<lambda>c.
     then_ok (check_listen (rf_ListenAddrs f) c) (\<lambda>c.
     then_ok (check_addrs c) (\<lambda>c.
     check_broadcast c)))"

definition check_object_part :: "config_world \<Rightarrow> raw_flags \<Rightarrow> config \<Rightarrow> config_error + config" where
  "check_object_part w f c =
     then_ok (check_service c) (\<lambda>c.
     then_ok (check_backends w (rf_Backends f) c) (\<lambda>c.
     then_ok (parse_selectors w (rf_BackendSelectors f) c) (\<lambda>c.
     then_ok (check_values w (rf_Values f) c) (\<lambda>(c, seenValues).
     then_ok (check_secrets w (rf_Secrets f) c) (\<lambda>c.
     then_ok (check_tls_certs w (rf_TLSCerts f) c) (\<lambda>c.
     check_values_dirs w seenValues (rf_ValuesDirs f) c))))))"

definition action :: "config_world \<Rightarrow> (string \<Rightarrow> bool) \<Rightarrow> raw_flags \<Rightarrow> string list \<Rightarrow> config \<Rightarrow> config_error + config" where
  "action w isSet f args c =
     then_ok (check_values_part w isSet f c) (\<lambda>c.
     then_ok (check_address_part w f c) (\<lambda>c.
     then_ok (check_object_part w f c) (\<lambda>c.
     Inr (finish_config w isSet f args c))))"

text \<open>
  \<open>parse\<close> behind the command-line library, which fails, shows its help or version, or runs the action
  on the destinations of the flags.
\<close>

datatype cli_run = CliFailed | CliHelp | CliRan "string \<Rightarrow> bool" raw_flags "string list" config

datatype parse_error = RunningCLI | ErrHelp | ActionErr config_error

definition parse_config :: "config_world \<Rightarrow> cli_run \<Rightarrow> parse_error + config" where
  "parse_config w r =
     (case r of
        CliFailed \<Rightarrow> Inl RunningCLI
      | CliHelp \<Rightarrow> Inl ErrHelp
      | CliRan isSet f args c \<Rightarrow> (case action w isSet f args c of Inl e \<Rightarrow> Inl (ActionErr e) | Inr c' \<Rightarrow> Inr c'))"

end
