(* ===== verification/ConfigChecks.thy ===== *)
theory ConfigChecks
  imports Config
begin

text \<open>
  What a configuration accepted by the checks holds, whatever the flags were: an inversion lemma for
  each check of \<open>parse\<close>, and the well-formedness they add up to.
\<close>

section \<open>Well-formed configurations\<close>

definition window_ok :: "int \<Rightarrow> int \<Rightarrow> bool" where
  "window_ok d m \<longleftrightarrow> 0 \<le> d \<and> (m = 0 \<or> d \<le> m)"

definition timing_ok :: "config \<Rightarrow> bool" where
  "timing_ok c \<longleftrightarrow>
     window_ok (cf_Debounce c) (cf_DebounceMax c) \<and> window_ok (cf_FrontendDebounce c) (cf_FrontendDebounceMax c) \<and>
     window_ok (cf_BackendDebounce c) (cf_BackendDebounceMax c) \<and> window_ok (cf_TLSCertDebounce c) (cf_TLSCertDebounceMax c)"

definition numbers_ok :: "config \<Rightarrow> bool" where
  "numbers_ok c \<longleftrightarrow> list_all (\<lambda>i. 0 \<le> i) [cf_VCLReloadRetries c, cf_VCLReloadRetryInterval c, cf_VCLKept c] \<and>
     list_all (\<lambda>i. 0 < i) [cf_ValuesDirPollInterval c, cf_VCLTemplateWatchInterval c, cf_DrainPollInterval c,
       cf_AdminTimeout c]"

definition timeouts_ok :: "config \<Rightarrow> bool" where
  "timeouts_ok c \<longleftrightarrow> list_all (\<lambda>i. 0 \<le> i)
     [cf_MetricsReadHeaderTimeout c, cf_BroadcastReadHeaderTimeout c, cf_BroadcastServerIdleTimeout c,
      cf_ShutdownTimeout c, cf_StartupTimeout c, cf_KubeAPITimeout c, cf_BroadcastReadTimeout c,
      cf_BroadcastWriteTimeout c, cf_MetricsReadTimeout c, cf_MetricsWriteTimeout c, cf_MetricsIdleTimeout c,
      cf_BroadcastDrainTimeout c, cf_BroadcastShutdownTimeout c, cf_BroadcastClientTimeout c,
      cf_BroadcastClientIdleTimeout c, cf_DrainDelay c, cf_DrainTimeout c]"

definition template_ok :: "config \<Rightarrow> bool" where
  "template_ok c \<longleftrightarrow> cf_VCLTemplate c \<noteq> [] \<and> cf_TemplateDelimLeft c \<noteq> [] \<and> cf_TemplateDelimRight c \<noteq> [] \<and>
     cf_TemplateDelimLeft c \<noteq> cf_TemplateDelimRight c \<and> cf_TemplateFuncs c \<in> {''sprig'', ''sprout''} \<and>
     cf_LogFormat c \<in> {''text'', ''json''}"

definition buckets_ok :: "config \<Rightarrow> bool" where
  "buckets_ok c \<longleftrightarrow> cf_DebounceLatencyBuckets c \<noteq> [] \<and> sorted_wrt (<) (cf_DebounceLatencyBuckets c) \<and>
     list_all (\<lambda>v. 0 < v) (cf_DebounceLatencyBuckets c)"

definition listen_ok :: "config \<Rightarrow> bool" where
  "listen_ok c \<longleftrightarrow> cf_ListenAddrs c \<noteq> [] \<and> list_all listen_spec_ok (cf_ListenAddrs c) \<and>
     \<not> la_UDS (hd (cf_ListenAddrs c)) \<and> distinct (filter (\<lambda>n. n \<noteq> []) (map la_Name (cf_ListenAddrs c)))"

definition fan_out_ok :: "config \<Rightarrow> bool" where
  "fan_out_ok c \<longleftrightarrow> cf_BroadcastAddr c = [] \<or>
     list_ex (\<lambda>la. \<not> la_UDS la \<and> \<not> hasProto la ''PROXY'' \<and> la_Port la = cf_BroadcastTargetPort c) (cf_ListenAddrs c) \<and>
     (cf_BroadcastWriteTimeout c = 0 \<or>
      cf_BroadcastReadTimeout c + cf_BroadcastClientTimeout c < cf_BroadcastWriteTimeout c)"

definition port_ok :: "config_world \<Rightarrow> string \<Rightarrow> bool" where
  "port_ok w p \<longleftrightarrow> p = [] \<or> validatePortOverride (cw_isPortName w) p = None"

definition backend_ok :: "config_world \<Rightarrow> backend_spec \<Rightarrow> bool" where
  "backend_ok w b \<longleftrightarrow> bs_Name b \<noteq> [] \<and> isValidDNSLabel (bs_ServiceName b) \<and> isValidDNSLabel (bs_Namespace b) \<and>
     port_ok w (bs_Port b)"

definition selector_ok :: "config_world \<Rightarrow> backend_selector_spec \<Rightarrow> bool" where
  "selector_ok w s \<longleftrightarrow> cw_isSelector w (sel_Selector s) \<and> port_ok w (sel_Port s) \<and>
     (if sel_AllNamespaces s then sel_Namespace s = [] else isValidDNSLabel (sel_Namespace s))"

definition objects_ok :: "config_world \<Rightarrow> config \<Rightarrow> bool" where
  "objects_ok w c \<longleftrightarrow>
     isValidDNSLabel (cf_Namespace c) \<and> isValidDNSLabel (cf_ServiceName c) \<and> isValidDNSLabel (cf_ServiceNamespace c) \<and>
     distinct (map bs_Name (cf_Backends c)) \<and> list_all (backend_ok w) (cf_Backends c) \<and>
     list_all (selector_ok w) (cf_BackendSelectors c) \<and>
     distinct (map vs_Name (cf_Values c) @ map ds_Name (cf_ValuesDirs c)) \<and>
     distinct (map ss_Name (cf_Secrets c)) \<and> distinct (map ts_Name (cf_TLSCerts c)) \<and>
     (cf_TLSCerts c = [] \<or> hasHTTPSListener (cf_ListenAddrs c))"

definition config_ok :: "config_world \<Rightarrow> config \<Rightarrow> bool" where
  "config_ok w c \<longleftrightarrow> timing_ok c \<and> numbers_ok c \<and> timeouts_ok c \<and> template_ok c \<and> buckets_ok c \<and>
     listen_ok c \<and> fan_out_ok c \<and> objects_ok w c"

section \<open>Inversion of the checks\<close>

lemma first_bad_Inr: "first_bad rows c = Inr c' \<longleftrightarrow> c' = c \<and> list_all (\<lambda>(bad, _). \<not> bad) rows"
  by (induction rows c rule: first_bad.induct) auto

lemma check_required_Inr:
  "check_required c = Inr c' \<longleftrightarrow> c' = c \<and> cf_ServiceName c \<noteq> [] \<and> isValidDNSLabel (cf_Namespace c) \<and> cf_VCLTemplate c \<noteq> []"
  by (auto simp: check_required_def isValidDNSLabel_def)

lemma parse_delims_Inr:
  assumes "parse_delims s c = Inr c'"
  obtains l r where "c' = c\<lparr>cf_TemplateDelimLeft := l, cf_TemplateDelimRight := r\<rparr>" "l \<noteq> r" "l \<noteq> []" "r \<noteq> []"
proof -
  obtain l r where "str_fields s = [l, r]" "l \<noteq> r" "c' = c\<lparr>cf_TemplateDelimLeft := l, cf_TemplateDelimRight := r\<rparr>"
    using assms by (auto simp: parse_delims_def split: list.splits if_splits)
  moreover from this have "l \<noteq> []" "r \<noteq> []" using str_fields_nonempty [of _ s] by auto
  ultimately show ?thesis using that by blast
qed

lemma check_modes_Inr:
  assumes "check_modes w s c = Inr c'"
  obtains l where "c' = c\<lparr>cf_LogLevel := l\<rparr>" "cf_TemplateFuncs c \<in> {''sprig'', ''sprout''}"
    "cf_LogFormat c \<in> {''text'', ''json''}"
  using assms by (auto simp: check_modes_def Let_def split: if_splits option.splits)

lemma check_debounce_Inr:
  "check_debounce c = Inr c' \<longleftrightarrow> c' = c \<and> window_ok (cf_Debounce c) (cf_DebounceMax c) \<and> 0 \<le> cf_DebounceMax c"
  by (auto simp: check_debounce_def first_bad_Inr window_ok_def)

lemma window_resolved:
  assumes "\<not> (0 < m \<and> m < d)" and "d = (if rd < 0 then D else rd)" and "m = (if rm < 0 then M else rm)" and "0 \<le> D" and "0 \<le> M"
  shows "window_ok d m"
  using assms by (cases "rd < 0"; cases "rm < 0"; simp add: window_ok_def; linarith)

lemma check_source_max_Inr:
  assumes "check_source_max (resolve_debounces f c) = Inr c'"
    and "window_ok (cf_Debounce c) (cf_DebounceMax c)" and "0 \<le> cf_DebounceMax c"
  shows "c' = resolve_debounces f c \<and> timing_ok c'"
proof -
  let ?r = "resolve_debounces f c"
  have d: "0 \<le> cf_Debounce c" using assms(2) by (simp add: window_ok_def)
  have r: "c' = ?r \<and>
      \<not> (0 < cf_FrontendDebounceMax ?r \<and> cf_FrontendDebounceMax ?r < cf_FrontendDebounce ?r) \<and>
      \<not> (0 < cf_BackendDebounceMax ?r \<and> cf_BackendDebounceMax ?r < cf_BackendDebounce ?r) \<and>
      \<not> (0 < cf_TLSCertDebounceMax ?r \<and> cf_TLSCertDebounceMax ?r < cf_TLSCertDebounce ?r)"
    using assms(1) unfolding check_source_max_def first_bad_Inr by simp
  have "window_ok (cf_FrontendDebounce ?r) (cf_FrontendDebounceMax ?r)"
    by (rule window_resolved [OF _ _ _ d assms(3), where rd = "rf_FrontendDebounce f" and rm = "rf_FrontendDebounceMax f"])
      (use r in \<open>simp_all add: resolve_debounces_def\<close>)
  moreover have "window_ok (cf_BackendDebounce ?r) (cf_BackendDebounceMax ?r)"
    by (rule window_resolved [OF _ _ _ d assms(3), where rd = "rf_BackendDebounce f" and rm = "rf_BackendDebounceMax f"])
      (use r in \<open>simp_all add: resolve_debounces_def\<close>)
  moreover have "window_ok (cf_TLSCertDebounce ?r) (cf_TLSCertDebounceMax ?r)"
    by (rule window_resolved [OF _ _ _ d assms(3), where rd = "rf_TLSCertDebounce f" and rm = "rf_TLSCertDebounceMax f"])
      (use r in \<open>simp_all add: resolve_debounces_def\<close>)
  moreover have "window_ok (cf_Debounce ?r) (cf_DebounceMax ?r)"
    using assms(2) by (simp add: resolve_debounces_def)
  ultimately show ?thesis using r by (simp add: timing_ok_def)
qed

lemma check_source_debounces_Inr: "check_source_debounces isSet f c = Inr c' \<Longrightarrow> c' = c"
  by (simp add: check_source_debounces_def first_bad_Inr del: list.map first_bad.simps)

lemma check_numbers_Inr:
  "check_numbers c = Inr c' \<Longrightarrow> c' = c \<and> list_all (\<lambda>i. 0 \<le> i) [cf_VCLReloadRetries c, cf_VCLReloadRetryInterval c, cf_VCLKept c] \<and>
     list_all (\<lambda>i. 0 < i) [cf_ValuesDirPollInterval c, cf_VCLTemplateWatchInterval c, cf_DrainPollInterval c]"
  by (simp add: check_numbers_def first_bad_Inr del: first_bad.simps)

lemma check_timeouts_Inr: "check_timeouts c = Inr c' \<Longrightarrow> c' = c \<and> timeouts_ok c \<and> 0 < cf_AdminTimeout c"
  by (simp add: check_timeouts_def first_bad_Inr timeouts_ok_def del: first_bad.simps)

lemma parse_buckets_Inr:
  "parse_buckets P ps = Inr vs \<Longrightarrow> length vs = length ps \<and> list_all (\<lambda>v. 0 < v) vs"
proof (induction ps arbitrary: vs)
  case (Cons p ps)
  then obtain v where v: "P (trim_space p) = Some (Fin v)"
    by (auto split: option.splits float64.splits)
  then show ?case using Cons by (auto simp: then_ok_Inr split: if_splits)
qed simp

lemma sorted_remdups_adj: "sorted (xs :: 'a :: linorder list) \<Longrightarrow> sorted_wrt (<) (remdups_adj xs)"
  by (induction xs rule: remdups_adj.induct) (auto simp: less_le)

lemma check_buckets_Inr:
  assumes "check_buckets w raw c = Inr c'" and "cf_DebounceLatencyBuckets c = []"
  obtains vs where "c' = c\<lparr>cf_DebounceLatencyBuckets := vs\<rparr>" "buckets_ok c'"
proof -
  obtain us where us: "parse_buckets (cw_ParseFloat w) (split_on (CHR '','') raw) = Inr us"
    "c' = c\<lparr>cf_DebounceLatencyBuckets := remdups_adj (sort us)\<rparr>"
    using assms by (auto simp: check_buckets_def then_ok_Inr)
  have "us \<noteq> []" "list_all (\<lambda>v. 0 < v) us"
    using parse_buckets_Inr [OF us(1)] by auto
  moreover from this have "sort us \<noteq> []" by (metis set_empty set_sort)
  ultimately have "buckets_ok c'"
    using sorted_remdups_adj [of "sort us"] unfolding us(2) by (simp add: buckets_ok_def list_all_iff)
  then show ?thesis using us(2) that by blast
qed

lemma values_part_Inr:
  assumes "check_values_part w isSet f c = Inr c'" and "cf_DebounceLatencyBuckets c = []"
  obtains l r lv vs where
    "c' = (resolve_debounces f (c\<lparr>cf_TemplateDelimLeft := l, cf_TemplateDelimRight := r, cf_LogLevel := lv\<rparr>))
       \<lparr>cf_DebounceLatencyBuckets := vs\<rparr>"
    "timing_ok c'" "numbers_ok c'" "timeouts_ok c'" "template_ok c'" "buckets_ok c'"
    "cf_ServiceName c' \<noteq> []" "isValidDNSLabel (cf_Namespace c')"
proof -
  obtain c1 c2 c3 c4 c5 c6 c7 c8 where
    1: "check_required c = Inr c1" and 2: "parse_delims (rf_templateDelims f) c1 = Inr c2"
    and 3: "check_modes w (rf_logLevel f) c2 = Inr c3" and 4: "check_debounce c3 = Inr c4"
    and 5: "check_source_debounces isSet f c4 = Inr c5" and 6: "check_source_max (resolve_debounces f c5) = Inr c6"
    and 7: "check_numbers c6 = Inr c7" and 8: "check_timeouts c7 = Inr c8"
    and 9: "check_buckets w (rf_DebounceLatencyBuckets f) c8 = Inr c'"
    using assms(1) by (auto simp: check_values_part_def then_ok_Inr)
  have c1: "c1 = c" using 1 by (simp add: check_required_Inr)
  obtain l r where d: "c2 = c\<lparr>cf_TemplateDelimLeft := l, cf_TemplateDelimRight := r\<rparr>" "l \<noteq> r" "l \<noteq> []" "r \<noteq> []"
    using parse_delims_Inr [OF 2 [unfolded c1]] by blast
  obtain lv where m: "c3 = c2\<lparr>cf_LogLevel := lv\<rparr>" "cf_TemplateFuncs c2 \<in> {''sprig'', ''sprout''}"
    "cf_LogFormat c2 \<in> {''text'', ''json''}"
    using check_modes_Inr [OF 3] by blast
  have c5: "c5 = c3" using 4 check_source_debounces_Inr [OF 5] by (simp add: check_debounce_Inr)
  have c6: "c6 = resolve_debounces f c3" "timing_ok c6"
    using check_source_max_Inr [OF 6 [unfolded c5]] 4 by (auto simp: check_debounce_Inr)
  have c8: "c8 = c6" using check_numbers_Inr [OF 7] check_timeouts_Inr [OF 8] by simp
  have "cf_DebounceLatencyBuckets c8 = []"
    using assms(2) unfolding c8 c6(1) m(1) d(1) by (simp add: resolve_debounces_def)
  then obtain vs where v: "c' = c8\<lparr>cf_DebounceLatencyBuckets := vs\<rparr>" "buckets_ok c'"
    using check_buckets_Inr [OF 9] by blast
  have c': "c' = (resolve_debounces f (c\<lparr>cf_TemplateDelimLeft := l, cf_TemplateDelimRight := r, cf_LogLevel := lv\<rparr>))
       \<lparr>cf_DebounceLatencyBuckets := vs\<rparr>"
    unfolding v(1) c8 c6(1) m(1) d(1) by simp
  show ?thesis
  proof (rule that [OF c'])
    show "timing_ok c'" using c6(2) unfolding v(1) c8 by (simp add: timing_ok_def)
    show "numbers_ok c'"
      using check_numbers_Inr [OF 7] check_timeouts_Inr [OF 8] unfolding v(1) c8 by (simp add: numbers_ok_def)
    show "timeouts_ok c'" using check_timeouts_Inr [OF 8] unfolding v(1) by (simp add: timeouts_ok_def)
    show "template_ok c'"
      using 1 d m unfolding c' by (simp add: template_ok_def resolve_debounces_def check_required_Inr)
    show "buckets_ok c'" by (rule v(2))
    show "cf_ServiceName c' \<noteq> []" "isValidDNSLabel (cf_Namespace c')"
      using 1 unfolding c' by (simp_all add: resolve_debounces_def check_required_Inr)
  qed
qed

section \<open>Addresses\<close>

lemma set_all_Inr:
  assumes one: "\<And>raw l l'. set_one raw l = Inr l' \<Longrightarrow> \<exists>x. l' = l @ [x] \<and> P x"
  shows "set_all flag set_one raws l = Inr l' \<Longrightarrow> \<exists>xs. l' = l @ xs \<and> length xs = length raws \<and> list_all P xs"
proof (induction raws arbitrary: l)
  case (Cons raw raws)
  then obtain m where m: "set_one raw l = Inr m" "set_all flag set_one raws m = Inr l'"
    by (auto split: sum.splits)
  obtain x where x: "m = l @ [x]" "P x" using one [OF m(1)] by blast
  obtain xs where "l' = m @ xs" "length xs = length raws" "list_all P xs" using Cons.IH [OF m(2)] by blast
  then show ?case using x by (intro exI [of _ "x # xs"]) simp
qed simp

lemma unique_names_Inr:
  "unique_names flag seen ns = Inr seen' \<Longrightarrow> distinct ns \<and> set ns \<inter> seen = {} \<and> seen' = seen \<union> set ns"
  by (induction ns arbitrary: seen) (auto split: if_splits)

lemma listen_set_Inr: "listenAddr_Set raw l = Inr l' \<Longrightarrow> \<exists>la. l' = l @ [la] \<and> listen_spec_ok la"
  by (metis listenAddr_Set_Inr)

lemma check_listen_Inr:
  assumes "check_listen raws c = Inr c'"
  obtains las where "c' = c\<lparr>cf_ListenAddrs := las\<rparr>" "listen_ok c'"
proof -
  obtain las0 las seen where
    0: "set_all ''listen-addr'' listenAddr_Set raws [] = Inr las0"
    and 1: "(if las0 = [] then set_all ''listen-addr'' listenAddr_Set [''http=:8080,HTTP''] las0 else Inr las0) = Inr las"
    and 2: "\<not> la_UDS (hd las)" "unique_names ''listen-addr'' {} (filter (\<lambda>n. n \<noteq> []) (map la_Name las)) = Inr seen"
    and c': "c' = c\<lparr>cf_ListenAddrs := las\<rparr>"
    using assms unfolding check_listen_def then_ok_Inr by (auto simp: then_ok_Inr split: if_split_asm simp del: set_all.simps)
  have las0: "list_all listen_spec_ok las0"
    using set_all_Inr [OF listen_set_Inr 0] by simp
  have "las \<noteq> [] \<and> list_all listen_spec_ok las"
  proof (cases "las0 = []")
    case True
    then have "set_all ''listen-addr'' listenAddr_Set [''http=:8080,HTTP''] [] = Inr las" using 1 by (simp del: set_all.simps)
    from set_all_Inr [OF listen_set_Inr this] show ?thesis by auto
  next
    case False
    then show ?thesis using 1 las0 by simp
  qed
  moreover have "distinct (filter (\<lambda>n. n \<noteq> []) (map la_Name las))" using unique_names_Inr [OF 2(2)] by blast
  ultimately have "listen_ok c'" using 2(1) unfolding c' by (simp add: listen_ok_def)
  then show ?thesis using c' that by blast
qed

lemma find_target_Inr:
  "find_target las n = Inr p \<Longrightarrow> list_ex (\<lambda>la. \<not> la_UDS la \<and> \<not> hasProto la ''PROXY'' \<and> la_Port la = p) las"
  by (induction las) (auto split: if_splits)

lemma resolveBroadcastTargetPort_Inr:
  assumes "resolveBroadcastTargetPort las n = Inr p" and "\<not> la_UDS (hd las)"
  shows "list_ex (\<lambda>la. \<not> la_UDS la \<and> \<not> hasProto la ''PROXY'' \<and> la_Port la = p) las"
  using assms find_target_Inr [of las n p]
  by (auto simp: resolveBroadcastTargetPort_def split: if_splits list.splits)

lemma check_broadcast_Inr:
  assumes "check_broadcast c = Inr c'" and "timeouts_ok c" and "listen_ok c"
    and "cf_BroadcastWriteTimeout c < 2 ^ 63" and "cf_BroadcastClientTimeout c < 2 ^ 63"
  obtains p where "c' = c\<lparr>cf_BroadcastTargetPort := p\<rparr>" "fan_out_ok c'"
proof (cases "cf_BroadcastAddr c = []")
  case True
  then have "c' = c\<lparr>cf_BroadcastTargetPort := cf_BroadcastTargetPort c\<rparr>" "fan_out_ok c'"
    using assms(1) by (simp_all add: check_broadcast_def fan_out_ok_def)
  then show ?thesis using that by blast
next
  case False
  then obtain p where p: "resolveBroadcastTargetPort (cf_ListenAddrs c) (cf_BroadcastTargetListenAddr c) = Inr p"
    and c': "c' = c\<lparr>cf_BroadcastTargetPort := p\<rparr>"
    and t: "\<not> (cf_BroadcastWriteTimeout c > 0 \<and>
      duration (cf_BroadcastWriteTimeout c - cf_BroadcastClientTimeout c) \<le> cf_BroadcastReadTimeout c)"
    using assms(1) by (simp add: check_broadcast_def Let_def split: sum.splits if_split_asm)
  have nn: "0 \<le> cf_BroadcastWriteTimeout c" "0 \<le> cf_BroadcastClientTimeout c"
    using assms(2) by (simp_all add: timeouts_ok_def)
  have "duration (cf_BroadcastWriteTimeout c - cf_BroadcastClientTimeout c) =
      cf_BroadcastWriteTimeout c - cf_BroadcastClientTimeout c"
    by (rule duration_id) (use nn assms(4,5) in linarith)+
  then have "cf_BroadcastWriteTimeout c = 0 \<or>
      cf_BroadcastReadTimeout c + cf_BroadcastClientTimeout c < cf_BroadcastWriteTimeout c"
    using t nn by linarith
  moreover have "list_ex (\<lambda>la. \<not> la_UDS la \<and> \<not> hasProto la ''PROXY'' \<and> la_Port la = p) (cf_ListenAddrs c)"
    using resolveBroadcastTargetPort_Inr [OF p] assms(3) by (simp add: listen_ok_def)
  ultimately have "fan_out_ok c'" unfolding c' by (simp add: fan_out_ok_def)
  then show ?thesis using c' that by blast
qed

lemma address_part_Inr:
  assumes "check_address_part w f c = Inr c'" and "timeouts_ok c"
    and "cf_BroadcastWriteTimeout c < 2 ^ 63" and "cf_BroadcastClientTimeout c < 2 ^ 63"
  obtains las a m e p where
    "c' = c\<lparr>cf_ListenAddrs := las, cf_BroadcastAddr := a, cf_MetricsAddr := m, cf_VarnishstatExportFilter := e,
      cf_BroadcastTargetPort := p\<rparr>"
    "listen_ok c'" "fan_out_ok c'"
proof -
  obtain c1 c2 c3 where 1: "check_template w c = Inr c1" and 2: "check_listen (rf_ListenAddrs f) c1 = Inr c2"
    and 3: "check_addrs c2 = Inr c3" and 4: "check_broadcast c3 = Inr c'"
    using assms(1) by (auto simp: check_address_part_def then_ok_Inr)
  have c1: "c1 = c" using 1 by (simp add: check_template_def split: if_split_asm)
  obtain las where las: "c2 = c\<lparr>cf_ListenAddrs := las\<rparr>" "listen_ok c2" using check_listen_Inr [OF 2 [unfolded c1]] by blast
  obtain a m e where c3: "c3 = c2\<lparr>cf_BroadcastAddr := a, cf_MetricsAddr := m, cf_VarnishstatExportFilter := e\<rparr>"
    using 3 unfolding check_addrs_def then_ok_Inr first_bad_Inr by blast
  have ok: "timeouts_ok c3" "listen_ok c3"
    using assms(2) las by (simp_all add: c3 timeouts_ok_def listen_ok_def)
  obtain p where p: "c' = c3\<lparr>cf_BroadcastTargetPort := p\<rparr>" "fan_out_ok c'"
    using check_broadcast_Inr [OF 4 ok] assms(3,4) by (auto simp: c3 las(1))
  show ?thesis
  proof (rule that)
    show "c' = c\<lparr>cf_ListenAddrs := las, cf_BroadcastAddr := a, cf_MetricsAddr := m, cf_VarnishstatExportFilter := e,
      cf_BroadcastTargetPort := p\<rparr>" unfolding p(1) c3 las(1) by simp
    show "listen_ok c'" using ok(2) unfolding p(1) by (simp add: listen_ok_def)
  qed (rule p(2))
qed

section \<open>Objects\<close>

lemma parseNamespacedService_Inr:
  assumes "parseNamespacedService s d = Inr (ns, svc)" and "isValidDNSLabel d"
  shows "isValidDNSLabel ns \<and> isValidDNSLabel svc"
  using assms by (auto simp: parseNamespacedService_def split: option.splits prod.splits if_splits)

lemma check_service_Inr:
  assumes "check_service c = Inr c'" and "isValidDNSLabel (cf_Namespace c)"
  obtains ns svc where "c' = c\<lparr>cf_ServiceNamespace := ns, cf_ServiceName := svc\<rparr>" "isValidDNSLabel ns" "isValidDNSLabel svc"
proof -
  obtain ns svc where "parseNamespacedService (cf_ServiceName c) (cf_Namespace c) = Inr (ns, svc)"
    "c' = c\<lparr>cf_ServiceNamespace := ns, cf_ServiceName := svc\<rparr>"
    using assms(1) by (auto simp: check_service_def split: sum.splits)
  then show ?thesis using parseNamespacedService_Inr assms(2) that by blast
qed

lemma resolve_all_Inr:
  assumes one: "\<And>x x'. resolve x = Inr x' \<Longrightarrow> name x' = name x \<and> (P x \<longrightarrow> Q x')"
  shows "resolve_all flag name resolve seen xs = Inr (xs', seen') \<Longrightarrow> list_all P xs \<Longrightarrow>
    distinct (map name xs') \<and> set (map name xs') \<inter> seen = {} \<and> seen' = seen \<union> set (map name xs') \<and> list_all Q xs'"
proof (induction xs arbitrary: seen xs')
  case (Cons x xs)
  then obtain x' ys where x: "name x \<notin> seen" "resolve x = Inr x'"
    "resolve_all flag name resolve (insert (name x) seen) xs = Inr (ys, seen')" "xs' = x' # ys"
    by (auto simp: then_ok_Inr split: if_splits sum.splits)
  have "distinct (map name ys) \<and> set (map name ys) \<inter> insert (name x) seen = {} \<and>
      seen' = insert (name x) seen \<union> set (map name ys) \<and> list_all Q ys"
    using Cons.IH [OF x(3)] Cons.prems(2) by simp
  then show ?case using x one [OF x(2)] Cons.prems(2) by auto
qed simp

lemma split_n_3:
  "split_n 3 sep s = (case cut_byte sep s of None \<Rightarrow> [s] | Some (a, r) \<Rightarrow>
     (case cut_byte sep r of None \<Rightarrow> [a, r] | Some (b, q) \<Rightarrow> [a, b, q]))"
  by (simp add: numeral_3_eq_3 split: option.split)

lemma backend_Set_Inr:
  assumes "backend_Set (cw_isPortName w) raw l = Inr l'"
  shows "\<exists>b. l' = l @ [b] \<and> bs_Name b \<noteq> [] \<and> port_ok w (bs_Port b)"
  using assms
  by (auto simp: backend_Set_def split_n_3 port_ok_def Let_def split: option.splits prod.splits if_splits)

lemma check_backends_Inr:
  assumes "check_backends w raws c = Inr c'" and "isValidDNSLabel (cf_Namespace c)"
  obtains bs where "c' = c\<lparr>cf_Backends := bs\<rparr>" "distinct (map bs_Name bs)" "list_all (backend_ok w) bs"
proof -
  obtain bs bs' seen where 1: "set_all ''backend'' (backend_Set (cw_isPortName w)) raws [] = Inr bs"
    and 2: "resolve_all ''backend'' bs_Name (resolve_backend (cf_Namespace c)) {} bs = Inr (bs', seen)"
    and c': "c' = c\<lparr>cf_Backends := bs'\<rparr>"
    using assms(1) by (auto simp: check_backends_def then_ok_Inr)
  have bs: "list_all (\<lambda>b. bs_Name b \<noteq> [] \<and> port_ok w (bs_Port b)) bs"
    using set_all_Inr [OF backend_Set_Inr 1] by simp
  have one: "bs_Name b' = bs_Name b \<and> (bs_Name b \<noteq> [] \<and> port_ok w (bs_Port b) \<longrightarrow> backend_ok w b')"
    if r: "resolve_backend (cf_Namespace c) b = Inr b'" for b b'
  proof -
    obtain ns svc where n: "parseNamespacedService (bs_ServiceName b) (cf_Namespace c) = Inr (ns, svc)"
      "b' = b\<lparr>bs_Namespace := ns, bs_ServiceName := svc\<rparr>"
      using r by (auto simp: resolve_backend_def split: sum.splits)
    then show ?thesis using parseNamespacedService_Inr [OF n(1) assms(2)] by (simp add: backend_ok_def)
  qed
  from resolve_all_Inr [OF one 2 bs] show ?thesis using c' that by simp
qed

lemma selector_namespace_Inr:
  assumes "selector_namespace raw d = Inr (spec, rest)" and "isValidDNSLabel d"
  shows "if sel_AllNamespaces spec then sel_Namespace spec = [] else isValidDNSLabel (sel_Namespace spec)"
  using assms by (auto simp: selector_namespace_def Let_def split: option.splits if_splits)

lemma selector_port_Inr: "selector_port (cw_isPortName w) rest = Inr (p, e) \<Longrightarrow> port_ok w p"
  by (auto simp: selector_port_def port_ok_def Let_def split: option.splits if_splits)

lemma parseBackendSelector_Inr:
  assumes "parseBackendSelector (cw_isPortName w) (cw_isSelector w) raw d = Inr s" and "isValidDNSLabel d"
  shows "selector_ok w s"
proof -
  obtain spec rest p e where 1: "selector_namespace raw d = Inr (spec, rest)"
    and 2: "selector_port (cw_isPortName w) rest = Inr (p, e)"
    and s: "cw_isSelector w e" "s = spec\<lparr>sel_Port := p, sel_Selector := e\<rparr>"
    using assms(1) by (auto simp: parseBackendSelector_def split: if_splits sum.splits)
  show ?thesis
    using selector_namespace_Inr [OF 1 assms(2)] selector_port_Inr [OF 2] s by (simp add: selector_ok_def split: if_splits)
qed

lemma parse_selectors_Inr:
  "parse_selectors w raws c = Inr c' \<Longrightarrow> isValidDNSLabel (cf_Namespace c) \<Longrightarrow>
     \<exists>ss. c' = c\<lparr>cf_BackendSelectors := cf_BackendSelectors c @ ss\<rparr> \<and> list_all (selector_ok w) ss"
proof (induction raws arbitrary: c)
  case (Cons raw raws)
  then obtain s where s: "parseBackendSelector (cw_isPortName w) (cw_isSelector w) raw (cf_Namespace c) = Inr s"
    "parse_selectors w raws (c\<lparr>cf_BackendSelectors := cf_BackendSelectors c @ [s]\<rparr>) = Inr c'"
    by (auto split: sum.splits)
  obtain ss where "c' = c\<lparr>cf_BackendSelectors := cf_BackendSelectors c @ [s], cf_BackendSelectors := cf_BackendSelectors c @ [s] @ ss\<rparr>"
    "list_all (selector_ok w) ss"
    using Cons.IH [OF s(2)] Cons.prems(2) by auto
  then show ?case
    using parseBackendSelector_Inr [OF s(1) Cons.prems(2)] by (intro exI [of _ "s # ss"]) simp
next
  case Nil
  then show ?case by (intro exI [of _ "[]"]) simp
qed

lemma values_set_Inr: "values_Set raw l = Inr l' \<Longrightarrow> \<exists>x. l' = l @ [x] \<and> True"
  by (auto simp: values_Set_def split: sum.splits)

lemma check_values_Inr:
  assumes "check_values w raws c = Inr (c', seen)"
  obtains vs where "c' = c\<lparr>cf_Values := vs\<rparr>" "distinct (map vs_Name vs)" "seen = set (map vs_Name vs)"
proof -
  obtain vs vs' where 1: "resolve_all ''values'' vs_Name (resolve_values w (cf_Namespace c)) {} vs = Inr (vs', seen)"
    and c': "c' = c\<lparr>cf_Values := vs'\<rparr>"
    using assms by (auto simp: check_values_def then_ok_Inr)
  have "vs_Name v' = vs_Name v \<and> (True \<longrightarrow> True)" if "resolve_values w (cf_Namespace c) v = Inr v'" for v v'
    using that by (auto simp: resolve_values_def split: sum.splits)
  from resolve_all_Inr [OF this 1] show ?thesis using c' that by (simp add: list_all_iff)
qed

lemma check_secrets_Inr:
  assumes "check_secrets w raws c = Inr c'"
  obtains ss where "c' = c\<lparr>cf_Secrets := ss\<rparr>" "distinct (map ss_Name ss)"
proof -
  obtain ss ss' seen where 1: "resolve_all ''secrets'' ss_Name (resolve_secret w (cf_Namespace c)) {} ss = Inr (ss', seen)"
    and c': "c' = c\<lparr>cf_Secrets := ss'\<rparr>"
    using assms by (auto simp: check_secrets_def then_ok_Inr)
  have "ss_Name s' = ss_Name s \<and> (True \<longrightarrow> True)" if "resolve_secret w (cf_Namespace c) s = Inr s'" for s s'
    using that by (auto simp: resolve_secret_def split: sum.splits)
  from resolve_all_Inr [OF this 1] show ?thesis using c' that by (simp add: list_all_iff)
qed

lemma check_tls_certs_Inr:
  assumes "check_tls_certs w raws c = Inr c'"
  obtains ts where "c' = c\<lparr>cf_TLSCerts := ts\<rparr>" "distinct (map ts_Name ts)" "ts = [] \<or> hasHTTPSListener (cf_ListenAddrs c)"
proof -
  obtain ts ts' seen where 1: "resolve_all ''tls-cert'' ts_Name (resolve_tls_cert w (cf_Namespace c)) {} ts = Inr (ts', seen)"
    and c': "c' = c\<lparr>cf_TLSCerts := ts'\<rparr>" "ts' = [] \<or> hasHTTPSListener (cf_ListenAddrs c)"
    using assms by (auto simp: check_tls_certs_def then_ok_Inr Let_def split: if_split_asm)
  have "ts_Name s' = ts_Name s \<and> (True \<longrightarrow> True)" if "resolve_tls_cert w (cf_Namespace c) s = Inr s'" for s s'
    using that by (auto simp: resolve_tls_cert_def split: sum.splits)
  from resolve_all_Inr [OF this 1] show ?thesis using c' that by (simp add: list_all_iff)
qed

lemma stat_dirs_Inr:
  "stat_dirs w seen vds = Inr u \<Longrightarrow> distinct (map ds_Name vds) \<and> set (map ds_Name vds) \<inter> seen = {}"
  by (induction vds arbitrary: seen) (auto split: if_splits)

lemma check_values_dirs_Inr:
  assumes "check_values_dirs w seen raws c = Inr c'"
  obtains vds where "c' = c\<lparr>cf_ValuesDirs := vds\<rparr>" "distinct (map ds_Name vds)" "set (map ds_Name vds) \<inter> seen = {}"
proof -
  obtain vds where "stat_dirs w seen vds = Inr ()" "c' = c\<lparr>cf_ValuesDirs := vds\<rparr>"
    using assms by (auto simp: check_values_dirs_def then_ok_Inr)
  then show ?thesis using stat_dirs_Inr that by blast
qed

end
