(* ===== verification/ConfigProps.thy ===== *)
theory ConfigProps
  imports ConfigChecks
begin

text \<open>
  The properties of the configuration: what \<open>parse\<close> accepts is well-formed, the defaults are accepted,
  and what the checks leave open.
\<close>

lemma object_part_Inr:
  assumes "check_object_part w f c = Inr c'" and "isValidDNSLabel (cf_Namespace c)" and "cf_BackendSelectors c = []"
  obtains ns svc bs sels vs ss ts vds where
    "c' = c\<lparr>cf_ServiceNamespace := ns, cf_ServiceName := svc, cf_Backends := bs, cf_BackendSelectors := sels,
      cf_Values := vs, cf_Secrets := ss, cf_TLSCerts := ts, cf_ValuesDirs := vds\<rparr>"
    "objects_ok w c'"
proof -
  obtain c1 c2 c3 c4 c5 c6 seen where 1: "check_service c = Inr c1" and 2: "check_backends w (rf_Backends f) c1 = Inr c2"
    and 3: "parse_selectors w (rf_BackendSelectors f) c2 = Inr c3" and 4: "check_values w (rf_Values f) c3 = Inr (c4, seen)"
    and 5: "check_secrets w (rf_Secrets f) c4 = Inr c5" and 6: "check_tls_certs w (rf_TLSCerts f) c5 = Inr c6"
    and 7: "check_values_dirs w seen (rf_ValuesDirs f) c6 = Inr c'"
    using assms(1) by (auto simp: check_object_part_def then_ok_Inr)
  obtain ns svc where a: "c1 = c\<lparr>cf_ServiceNamespace := ns, cf_ServiceName := svc\<rparr>" "isValidDNSLabel ns" "isValidDNSLabel svc"
    using check_service_Inr [OF 1 assms(2)] by blast
  have n1: "isValidDNSLabel (cf_Namespace c1)" using assms(2) by (simp add: a(1))
  obtain bs where b: "c2 = c1\<lparr>cf_Backends := bs\<rparr>" "distinct (map bs_Name bs)" "list_all (backend_ok w) bs"
    using check_backends_Inr [OF 2 n1] by blast
  have n2: "isValidDNSLabel (cf_Namespace c2)" using n1 by (simp add: b(1))
  obtain sels where d: "c3 = c2\<lparr>cf_BackendSelectors := cf_BackendSelectors c2 @ sels\<rparr>" "list_all (selector_ok w) sels"
    using parse_selectors_Inr [OF 3 n2] by blast
  have none: "cf_BackendSelectors c2 = []" using assms(3) by (simp add: b(1) a(1))
  obtain vs where v: "c4 = c3\<lparr>cf_Values := vs\<rparr>" "distinct (map vs_Name vs)" "seen = set (map vs_Name vs)"
    using check_values_Inr [OF 4] by blast
  obtain ss where s: "c5 = c4\<lparr>cf_Secrets := ss\<rparr>" "distinct (map ss_Name ss)"
    using check_secrets_Inr [OF 5] by blast
  obtain ts where t: "c6 = c5\<lparr>cf_TLSCerts := ts\<rparr>" "distinct (map ts_Name ts)" "ts = [] \<or> hasHTTPSListener (cf_ListenAddrs c5)"
    using check_tls_certs_Inr [OF 6] by blast
  obtain vds where y: "c' = c6\<lparr>cf_ValuesDirs := vds\<rparr>" "distinct (map ds_Name vds)" "set (map ds_Name vds) \<inter> seen = {}"
    using check_values_dirs_Inr [OF 7] by blast
  have c': "c' = c\<lparr>cf_ServiceNamespace := ns, cf_ServiceName := svc, cf_Backends := bs, cf_BackendSelectors := sels,
      cf_Values := vs, cf_Secrets := ss, cf_TLSCerts := ts, cf_ValuesDirs := vds\<rparr>"
    using none by (simp add: y(1) t(1) s(1) v(1) d(1) b(1) a(1))
  have l5: "cf_ListenAddrs c5 = cf_ListenAddrs c" by (simp add: s(1) v(1) d(1) b(1) a(1))
  show ?thesis
  proof (rule that [OF c'])
    show "objects_ok w c'"
      using a b d v s t y(2,3) assms(2) unfolding c' l5 objects_ok_def by (simp add: inf_commute)
  qed
qed

text \<open>The last steps touch none of the fields the checks are about.\<close>

lemma finish_ok:
  assumes "config_ok w c"
  shows "config_ok w (finish_config w isSet f args c)"
proof -
  obtain vw p1 p2 p3 p4 where "finish_config w isSet f args c =
      c\<lparr>cf_ValuesDirWatch := vw, cf_VarnishdPath := p1, cf_VarnishadmPath := p2, cf_VarnishstatPath := p3,
        cf_VarnishncsaPath := p4, cf_ExtraVarnishd := args\<rparr>"
  proof -
    define c1 where "c1 = (if \<not> isSet ''values-dir-watch'' then c\<lparr>cf_ValuesDirWatch := cf_FileWatch c\<rparr> else c)"
    have 1: "c1 = c\<lparr>cf_ValuesDirWatch := cf_ValuesDirWatch c1\<rparr>" by (simp add: c1_def)
    have "\<exists>p1 p2 p3 p4. resolveBinaryPaths w f b c1 = c1\<lparr>cf_VarnishdPath := p1, cf_VarnishadmPath := p2,
        cf_VarnishstatPath := p3, cf_VarnishncsaPath := p4\<rparr>" for b
    proof -
      have "c1 = c1\<lparr>cf_VarnishdPath := cf_VarnishdPath c1, cf_VarnishadmPath := cf_VarnishadmPath c1,
        cf_VarnishstatPath := cf_VarnishstatPath c1, cf_VarnishncsaPath := cf_VarnishncsaPath c1\<rparr>" by simp
      then show ?thesis unfolding resolveBinaryPaths_def by metis
    qed
    then show ?thesis
      using that 1 unfolding finish_config_def Let_def c1_def [symmetric] by metis
  qed
  then show ?thesis
    using assms
    by (simp add: config_ok_def timing_ok_def numbers_ok_def timeouts_ok_def template_ok_def buckets_ok_def
        listen_ok_def fan_out_ok_def objects_ok_def)
qed


section \<open>The defaults\<close>

lemmas default_defs = default_config_def listen_defaults_def paths_defaults_def broadcast_defaults_def
  metrics_defaults_def logging_defaults_def drain_defaults_def template_defaults_def timing_defaults_def
  zero_config_def second_def minutes_def

definition default_buckets :: "rat list" where
  "default_buckets = [1/100, 1/20, 1/10, 1/4, 1/2, 1, 5/2, 5, 10]"

definition default_tokens :: "string list" where
  "default_tokens = [''0.01'', ''0.05'', ''0.1'', ''0.25'', ''0.5'', ''1'', ''2.5'', ''5'', ''10'']"

definition default_listener :: listen_addr_spec where
  "default_listener = \<lparr>la_Name = ''http'', la_Host = [], la_Port = 8080, la_Raw = ''http=:8080,HTTP'', la_UDS = False,
     la_Protos = [''HTTP'']\<rparr>"

lemma listener_default: "listenAddr_Set ''http=:8080,HTTP'' [] = Inr [default_listener]"
proof -
  have "trim_space ''HTTP'' = ''HTTP''" by (rule trim_space_id) (simp add: byte_def)
  then have t: "comma_tokens ''HTTP'' = [''HTTP'']" by (simp add: comma_tokens_def)
  have d: "''8080'' = show_nat 8080" by (simp add: show_nat.simps digit_char_def char_of_def of_bool_def bit_0)
  have p: "ParseInt 32 ''8080'' = Inr 8080" unfolding d by (subst ParseInt_show_nat) simp_all
  have s: "SplitHostPort '':8080'' = Some ([], ''8080'')" by (simp add: SplitHostPort_def last_index_byte_def)
  show ?thesis
    by (simp add: listenAddr_Set_def listen_name_def cut_byte_def t s p default_listener_def)
qed

lemma http_not_proxy: "\<not> equal_fold ''HTTP'' ''PROXY''"
proof -
  have "runes ''HTTP'' = [''H'', ''T'', ''T'', ''P'']" "runes ''PROXY'' = [''P'', ''R'', ''O'', ''X'', ''Y'']"
    by (subst runes_ascii; simp add: is_ascii_def byte_def del: runes.simps)+
  then show ?thesis by (simp add: equal_fold_def)
qed

lemma delims_default: "str_fields ''<< >>'' = [''<<'', ''>>'']"
proof -
  have "runes ''<< >>'' = [''<'', ''<'', '' '', ''>'', ''>'']"
    by (subst runes_ascii; simp add: is_ascii_def byte_def del: runes.simps)
  then show ?thesis by (simp add: str_fields_def space_rune_def byte_def)
qed

lemma level_default: "parse_level up ''INFO'' = Some 0"
  by (simp add: parse_level_def is_ascii_def byte_def upper_byte_def level_of_def less_eq_char_def)

lemma buckets_default:
  assumes "map P default_tokens = map (\<lambda>v. Some (Fin v)) default_buckets"
  shows "parse_buckets P (split_on (CHR '','') ''0.01,0.05,0.1,0.25,0.5,1,2.5,5,10'') = Inr default_buckets"
proof -
  have "split_on (CHR '','') ''0.01,0.05,0.1,0.25,0.5,1,2.5,5,10'' = default_tokens" by (simp add: default_tokens_def)
  moreover have "parse_buckets P ts = Inr vs"
    if "map P ts = map (\<lambda>v. Some (Fin v)) vs" "list_all (\<lambda>v. 0 < v) vs" "list_all (\<lambda>s. trim_space s = s) ts" for ts vs
    using that
  proof (induction ts arbitrary: vs)
    case (Cons s ts)
    then show ?case by (cases vs) (auto split: option.split)
  qed simp
  moreover have "list_all (\<lambda>s. trim_space s = s) default_tokens"
    by (simp add: default_tokens_def trim_space_id byte_def)
  moreover have "list_all (\<lambda>v. 0 < v) default_buckets" by (simp add: default_buckets_def)
  ultimately show ?thesis using assms by simp
qed

lemma label_no_slash: "isValidDNSLabel s \<Longrightarrow> cut_byte (CHR ''/'') s = None \<and> s \<noteq> []"
proof -
  assume l: "isValidDNSLabel s"
  have "CHR ''/'' \<notin> set s"
  proof
    assume "CHR ''/'' \<in> set s"
    then obtain i where "i < length s" "s ! i = CHR ''/''" by (auto simp: in_set_conv_nth)
    then have "(i, CHR ''/'') \<in> set (enumerate 0 s)" by (auto simp: in_set_enumerate_eq)
    then show False using l by (auto simp: isValidDNSLabel_def list_all_iff less_eq_char_def split: if_splits)
  qed
  then show ?thesis using l by (auto simp: cut_byte_None isValidDNSLabel_def)
qed

text \<open>The configuration of the flags that are required, and what the checks add to it.\<close>

definition minimal_config :: "string \<Rightarrow> string \<Rightarrow> string \<Rightarrow> config" where
  "minimal_config s n t = default_config\<lparr>cf_ServiceName := s, cf_Namespace := n, cf_VCLTemplate := t\<rparr>"

definition minimal_checked :: "string \<Rightarrow> string \<Rightarrow> string \<Rightarrow> config" where
  "minimal_checked s n t = (minimal_config s n t)\<lparr>cf_TemplateDelimLeft := ''<<'', cf_TemplateDelimRight := ''>>'',
     cf_LogLevel := 0, cf_FrontendDebounce := 2 * second, cf_FrontendDebounceMax := 0, cf_BackendDebounce := 2 * second,
     cf_BackendDebounceMax := 0, cf_TLSCertDebounce := 2 * second, cf_TLSCertDebounceMax := 0,
     cf_DebounceLatencyBuckets := default_buckets\<rparr>"

lemma minimal_values:
  assumes "isValidDNSLabel s" "isValidDNSLabel n" "t \<noteq> []"
    and "map (cw_ParseFloat w) default_tokens = map (\<lambda>v. Some (Fin v)) default_buckets"
  shows "check_values_part w (\<lambda>_. False) default_raw (minimal_config s n t) = Inr (minimal_checked s n t)"
proof -
  let ?c = "minimal_config s n t"
  let ?c3 = "?c\<lparr>cf_TemplateDelimLeft := ''<<'', cf_TemplateDelimRight := ''>>'', cf_LogLevel := 0\<rparr>"
  let ?c6 = "?c3\<lparr>cf_FrontendDebounce := 2 * second, cf_FrontendDebounceMax := 0, cf_BackendDebounce := 2 * second,
     cf_BackendDebounceMax := 0, cf_TLSCertDebounce := 2 * second, cf_TLSCertDebounceMax := 0\<rparr>"
  have "check_required ?c = Inr ?c"
    using assms(1-3) label_no_slash [OF assms(1)] by (simp add: check_required_Inr minimal_config_def)
  moreover have "parse_delims (rf_templateDelims default_raw) ?c =
      Inr (?c\<lparr>cf_TemplateDelimLeft := ''<<'', cf_TemplateDelimRight := ''>>''\<rparr>)"
    by (simp add: parse_delims_def default_raw_def delims_default)
  moreover have "check_modes w (rf_logLevel default_raw) (?c\<lparr>cf_TemplateDelimLeft := ''<<'', cf_TemplateDelimRight := ''>>''\<rparr>) = Inr ?c3"
    by (simp add: check_modes_def default_raw_def level_default minimal_config_def default_defs)
  moreover have "check_debounce ?c3 = Inr ?c3"
    by (simp add: check_debounce_Inr window_ok_def minimal_config_def default_defs)
  moreover have "check_source_debounces (\<lambda>_. False) default_raw ?c3 = Inr ?c3"
    by (simp add: check_source_debounces_def)
  moreover have "resolve_debounces default_raw ?c3 = ?c6"
    by (simp add: resolve_debounces_def default_raw_def minimal_config_def default_defs)
  moreover have "check_source_max ?c6 = Inr ?c6" by (simp add: check_source_max_def)
  moreover have "check_numbers ?c6 = Inr ?c6" by (simp add: check_numbers_def minimal_config_def default_defs)
  moreover have "check_timeouts ?c6 = Inr ?c6" by (simp add: check_timeouts_def minimal_config_def default_defs)
  moreover have "check_buckets w (rf_DebounceLatencyBuckets default_raw) ?c6 = Inr (minimal_checked s n t)"
  proof -
    have "remdups_adj (sort default_buckets) = default_buckets" by (simp add: default_buckets_def)
    moreover have "cf_DebounceLatencyBuckets ?c6 = []" by (simp add: minimal_config_def default_defs)
    ultimately show ?thesis
      using buckets_default [OF assms(4)]
      by (simp add: check_buckets_def default_raw_def minimal_checked_def del: parse_buckets.simps split_on.simps)
  qed
  ultimately show ?thesis by (simp add: check_values_part_def)
qed

definition minimal_accepted :: "string \<Rightarrow> string \<Rightarrow> string \<Rightarrow> config" where
  "minimal_accepted s n t = (minimal_checked s n t)\<lparr>cf_ListenAddrs := [default_listener], cf_BroadcastTargetPort := 8080,
     cf_ServiceNamespace := n\<rparr>"

lemma minimal_address:
  assumes "cw_Stat w t \<noteq> None"
  shows "check_address_part w default_raw (minimal_checked s n t) =
    Inr ((minimal_checked s n t)\<lparr>cf_ListenAddrs := [default_listener], cf_BroadcastTargetPort := 8080\<rparr>)"
proof -
  let ?c = "minimal_checked s n t"
  let ?c1 = "?c\<lparr>cf_ListenAddrs := [default_listener]\<rparr>"
  have "check_template w ?c = Inr ?c"
    using assms by (simp add: check_template_def minimal_checked_def minimal_config_def)
  moreover have "check_listen (rf_ListenAddrs default_raw) ?c = Inr ?c1"
    by (simp add: check_listen_def default_raw_def listener_default default_listener_def)
  moreover have "check_addrs ?c1 = Inr ?c1"
  proof -
    have f: "cf_BroadcastAddr ?c1 = '':8088''" "cf_MetricsAddr ?c1 = '':9101''" "cf_VarnishstatExportFilter ?c1 = []"
      by (simp_all add: minimal_checked_def minimal_config_def default_defs)
    have "?c1 = ?c1\<lparr>cf_BroadcastAddr := cf_BroadcastAddr ?c1, cf_MetricsAddr := cf_MetricsAddr ?c1,
        cf_VarnishstatExportFilter := cf_VarnishstatExportFilter ?c1\<rparr>" by simp
    then show ?thesis using f by (simp add: check_addrs_def or_none_def splitCommaList_def)
  qed
  moreover have "check_broadcast ?c1 = Inr (?c1\<lparr>cf_BroadcastTargetPort := 8080\<rparr>)"
  proof -
    have f: "cf_BroadcastAddr ?c1 = '':8088''" "cf_BroadcastTargetListenAddr ?c1 = []" "cf_BroadcastWriteTimeout ?c1 = 30 * second"
      "cf_BroadcastReadTimeout ?c1 = 15 * second" "cf_BroadcastClientTimeout ?c1 = 3 * second"
      by (simp_all add: minimal_checked_def minimal_config_def default_defs)
    have "resolveBroadcastTargetPort [default_listener] [] = Inr 8080"
      by (simp add: resolveBroadcastTargetPort_def hasProto_def default_listener_def http_not_proxy)
    then show ?thesis using f by (simp add: check_broadcast_def duration_def second_def)
  qed
  ultimately show ?thesis by (simp add: check_address_part_def)
qed

lemma minimal_objects:
  assumes "isValidDNSLabel s" "isValidDNSLabel n"
  shows "check_object_part w default_raw
      ((minimal_checked s n t)\<lparr>cf_ListenAddrs := [default_listener], cf_BroadcastTargetPort := 8080\<rparr>) =
    Inr (minimal_accepted s n t)"
proof -
  let ?c = "(minimal_checked s n t)\<lparr>cf_ListenAddrs := [default_listener], cf_BroadcastTargetPort := 8080\<rparr>"
  have f: "cf_ServiceName ?c = s" "cf_Namespace ?c = n" "cf_Backends ?c = []" "cf_Values ?c = []" "cf_Secrets ?c = []"
    "cf_TLSCerts ?c = []" "cf_ValuesDirs ?c = []"
    by (simp_all add: minimal_checked_def minimal_config_def default_defs)
  have "check_service ?c = Inr (?c\<lparr>cf_ServiceNamespace := n, cf_ServiceName := s\<rparr>)"
    using assms label_no_slash [OF assms(1)] f by (simp add: check_service_def parseNamespacedService_def)
  moreover have c: "?c\<lparr>cf_ServiceNamespace := n, cf_ServiceName := s\<rparr> = minimal_accepted s n t"
    by (simp add: minimal_accepted_def minimal_checked_def minimal_config_def)
  moreover have e: "d\<lparr>cf_Backends := []\<rparr> = d" "d\<lparr>cf_Values := []\<rparr> = d" "d\<lparr>cf_Secrets := []\<rparr> = d"
    "d\<lparr>cf_TLSCerts := []\<rparr> = d" "d\<lparr>cf_ValuesDirs := []\<rparr> = d" if "d = minimal_accepted s n t" for d
    unfolding that by (simp_all add: minimal_accepted_def minimal_checked_def minimal_config_def default_defs)
  ultimately show ?thesis
    by (simp add: check_object_part_def check_backends_def check_values_def check_secrets_def check_tls_certs_def
        check_values_dirs_def default_raw_def)
qed

lemma defaults_parse:
  assumes "isValidDNSLabel s" and "isValidDNSLabel n" and "t \<noteq> []" and "cw_Stat w t \<noteq> None"
    and "\<not> cw_LookPath w ''vinyld''"
    and "map (cw_ParseFloat w) default_tokens = map (\<lambda>v. Some (Fin v)) default_buckets"
  shows "parse_config w (CliRan (\<lambda>_. False) default_raw [] (minimal_config s n t)) = Inr (minimal_accepted s n t)"
proof -
  have "finish_config w (\<lambda>_. False) default_raw [] (minimal_accepted s n t) = minimal_accepted s n t"
    using assms(5)
    by (simp add: finish_config_def resolveBinaryPaths_def default_raw_def minimal_accepted_def minimal_checked_def
        minimal_config_def default_defs)
  then show ?thesis
    using minimal_values [OF assms(1-3,6)] minimal_address [OF assms(4)] minimal_objects [OF assms(1,2)]
    by (simp add: parse_config_def action_def)
qed

text \<open>
  With the required flags alone the program starts: for every service and namespace that are DNS
  labels and every template that exists, \<open>parse\<close> accepts the defaults of all other flags, and the result
  is exactly these defaults, with the debounce of every group the global one, the listener http on port
  8080 and the fan-out to it.
\<close>

theorem defaults_accepted:
  assumes "isValidDNSLabel s" and "isValidDNSLabel n" and "t \<noteq> []" and "cw_Stat w t \<noteq> None"
    and "\<not> cw_LookPath w ''vinyld''"
    and "map (cw_ParseFloat w) default_tokens = map (\<lambda>v. Some (Fin v)) default_buckets"
  shows "parse_config w (CliRan (\<lambda>_. False) default_raw [] (minimal_config s n t)) = Inr (minimal_accepted s n t)"
  using assms by (rule defaults_parse)

text \<open>A world with nothing but a template file.\<close>

definition bare_world :: config_world where
  "bare_world = \<lparr>cw_isPortName = (\<lambda>s. s \<noteq> []), cw_isSubdomain = (\<lambda>s. s \<noteq> []), cw_isSelector = (\<lambda>s. s \<noteq> []),
     cw_Stat = (\<lambda>p. if p = ''/t.vcl'' then Some False else None), cw_LookPath = (\<lambda>_. False), cw_upper = id,
     cw_ParseFloat = map_of (zip default_tokens (map Fin default_buckets))\<rparr>"

lemma bare_floats: "map (cw_ParseFloat bare_world) default_tokens = map (\<lambda>v. Some (Fin v)) default_buckets"
  by (simp add: bare_world_def default_tokens_def default_buckets_def)

lemma label_samples: "isValidDNSLabel ''cache''" "isValidDNSLabel ''web''"
  by (simp_all add: isValidDNSLabel_def less_eq_char_def)

lemma bare_accepted:
  "parse_config bare_world (CliRan (\<lambda>_. False) default_raw [] (minimal_config ''cache'' ''web'' ''/t.vcl'')) =
     Inr (minimal_accepted ''cache'' ''web'' ''/t.vcl'')"
  by (rule defaults_parse [OF label_samples _ _ _ bare_floats]) (simp_all add: bare_world_def)

theorem defaults_accepted_witness:
  "parse_config bare_world (CliRan (\<lambda>_. False) default_raw [] (minimal_config ''cache'' ''web'' ''/t.vcl'')) =
     Inr (minimal_accepted ''cache'' ''web'' ''/t.vcl'')"
  by (rule defaults_accepted [OF label_samples _ _ _ bare_floats]) (simp_all add: bare_world_def)


section \<open>What the checks leave open\<close>

text \<open>
  The check of the write timeout takes the client timeout as it was given, but the broadcast server
  replaces a timeout of 0 by its default of 3 seconds (\<open>New\<close> in \<open>broadcast.go\<close>): with a client timeout of
  0 and one second between the two other timeouts the flags are accepted, although the response of a pod
  may take longer than the write deadline.
\<close>

definition clientTimeout :: "int \<Rightarrow> int" where
  "clientTimeout configured = (if configured \<le> 0 then 3 * second else configured)"

lemma zero_client_timeout_unchecked:
  "let c = (minimal_checked ''cache'' ''web'' ''/t.vcl'')\<lparr>cf_ListenAddrs := [default_listener],
       cf_BroadcastClientTimeout := 0, cf_BroadcastReadTimeout := 15 * second, cf_BroadcastWriteTimeout := 16 * second\<rparr>
   in (\<exists>c'. check_broadcast c = Inr c') \<and>
      cf_BroadcastReadTimeout c + clientTimeout (cf_BroadcastClientTimeout c) > cf_BroadcastWriteTimeout c"
proof -
  have "resolveBroadcastTargetPort [default_listener] [] = Inr 8080"
    by (simp add: resolveBroadcastTargetPort_def hasProto_def default_listener_def http_not_proxy)
  then show ?thesis
    by (simp add: check_broadcast_def clientTimeout_def duration_def minimal_checked_def minimal_config_def default_defs)
qed

text \<open>
  A port name that starts with a number beyond 32 bits is refused as a port out of range, although
  Kubernetes accepts it: \<open>strconv.ParseInt\<close> reports the range before it sees the letter.
\<close>

lemma numeric_port_name_refused: "validatePortOverride (\<lambda>_. True) ''4294967296x'' = Some PortOutOfRange"
  by (simp add: validatePortOverride_def ParseInt_def is_digit_def digit_val_def less_eq_char_def)

end
