(* ===== verification/Status.thy ===== *)
theory Status
  imports EventLoop GoText
begin

text \<open>
  What the program tells about itself in \<open>main.go\<close>: the status store with its setters and its snapshot,
  and the handlers of \<open>/status\<close>, \<open>/healthz\<close> and \<open>/readyz\<close>. Times are integers, and 0 is the zero time;
  the parsing of a certificate is a parameter.
\<close>

section \<open>The store\<close>

record tlsCertInfo =
  ci_Name :: string
  ci_Subject :: string
  ci_DNSNames :: "string list"
  ci_NotAfter :: int
  ci_Issuer :: string

record statusStore =
  ss_version :: string
  ss_goVersion :: string
  ss_varnishMajorVersion :: int
  ss_serviceName :: string
  ss_serviceNamespace :: string
  ss_drainEnabled :: bool
  ss_broadcastEnabled :: bool
  ss_startedAt :: int
  ss_frontendCount :: nat
  ss_backendCounts :: "(string, nat) fmap"
  ss_valuesCount :: nat
  ss_secretsCount :: nat
  ss_lastReloadAt :: int
  ss_reloadCount :: nat
  ss_varnishdUp :: bool
  ss_tlsEnabled :: bool
  ss_tlsSupported :: bool
  ss_tlsConfiguredCerts :: nat
  ss_tlsLastReloadAt :: int
  ss_tlsCerts :: "(string, tlsCertInfo) fmap"

definition new_status :: "string \<Rightarrow> string \<Rightarrow> int \<Rightarrow> statusStore" where
  "new_status version goVersion now = \<lparr>ss_version = version, ss_goVersion = goVersion, ss_varnishMajorVersion = 0,
     ss_serviceName = [], ss_serviceNamespace = [], ss_drainEnabled = False, ss_broadcastEnabled = False,
     ss_startedAt = now, ss_frontendCount = 0, ss_backendCounts = fmempty, ss_valuesCount = 0, ss_secretsCount = 0,
     ss_lastReloadAt = 0, ss_reloadCount = 0, ss_varnishdUp = False, ss_tlsEnabled = False, ss_tlsSupported = False,
     ss_tlsConfiguredCerts = 0, ss_tlsLastReloadAt = 0, ss_tlsCerts = fmempty\<rparr>"

definition setEndpointCounts :: "nat \<Rightarrow> (string, nat) fmap \<Rightarrow> statusStore \<Rightarrow> statusStore" where
  "setEndpointCounts n bs s = s\<lparr>ss_frontendCount := n, ss_backendCounts := bs\<rparr>"

definition recordReload :: "int \<Rightarrow> statusStore \<Rightarrow> statusStore" where
  "recordReload now s = s\<lparr>ss_lastReloadAt := now, ss_reloadCount := ss_reloadCount s + 1\<rparr>"

definition setVarnishdUp :: "bool \<Rightarrow> statusStore \<Rightarrow> statusStore" where
  "setVarnishdUp up s = s\<lparr>ss_varnishdUp := up\<rparr>"

definition setVarnishMajorVersion :: "int \<Rightarrow> statusStore \<Rightarrow> statusStore" where
  "setVarnishMajorVersion v s = s\<lparr>ss_varnishMajorVersion := v\<rparr>"

definition setServiceInfo :: "string \<Rightarrow> string \<Rightarrow> bool \<Rightarrow> bool \<Rightarrow> statusStore \<Rightarrow> statusStore" where
  "setServiceInfo name namespace drain bcast s =
     s\<lparr>ss_serviceName := name, ss_serviceNamespace := namespace, ss_drainEnabled := drain, ss_broadcastEnabled := bcast\<rparr>"

definition setSourceCounts :: "nat \<Rightarrow> nat \<Rightarrow> statusStore \<Rightarrow> statusStore" where
  "setSourceCounts vs scs s = s\<lparr>ss_valuesCount := vs, ss_secretsCount := scs\<rparr>"

definition setTLSConfig :: "bool \<Rightarrow> bool \<Rightarrow> nat \<Rightarrow> statusStore \<Rightarrow> statusStore" where
  "setTLSConfig enabled supported configured s =
     s\<lparr>ss_tlsEnabled := enabled, ss_tlsSupported := supported, ss_tlsConfiguredCerts := configured\<rparr>"

definition recordTLSCert :: "int \<Rightarrow> tlsCertInfo \<Rightarrow> statusStore \<Rightarrow> statusStore" where
  "recordTLSCert now info s =
     s\<lparr>ss_tlsCerts := fmupd (ci_Name info) info (ss_tlsCerts s), ss_tlsLastReloadAt := now\<rparr>"

text \<open>
  \<open>parseTLSCertInfo\<close>: \<open>decode\<close> is \<open>pem.Decode\<close>, \<open>x509\<close> the parser of the certificate, which gives the
  subject, the names, the end of validity and the issuer.
\<close>

datatype cert_info_error = NoPEMBlock | BadCertificate string

definition parseTLSCertInfo :: "(string \<Rightarrow> string option) \<Rightarrow> (string \<Rightarrow> string + string \<times> string list \<times> int \<times> string) \<Rightarrow>
    string \<Rightarrow> string \<Rightarrow> cert_info_error + tlsCertInfo" where
  "parseTLSCertInfo decode x509 name certPEM =
     (case decode certPEM of
        None \<Rightarrow> Inl NoPEMBlock
      | Some bytes \<Rightarrow>
          (case x509 bytes of
             Inl err \<Rightarrow> Inl (BadCertificate err)
           | Inr (subject, dnsNames, notAfter, issuer) \<Rightarrow>
               Inr \<lparr>ci_Name = name, ci_Subject = subject, ci_DNSNames = dnsNames, ci_NotAfter = notAfter, ci_Issuer = issuer\<rparr>))"

definition recordTLSCertInfo :: "(string \<Rightarrow> string option) \<Rightarrow> (string \<Rightarrow> string + string \<times> string list \<times> int \<times> string) \<Rightarrow>
    int \<Rightarrow> string \<Rightarrow> string \<Rightarrow> statusStore \<Rightarrow> statusStore" where
  "recordTLSCertInfo decode x509 now name certPEM s =
     (case parseTLSCertInfo decode x509 name certPEM of Inl _ \<Rightarrow> s | Inr info \<Rightarrow> recordTLSCert now info s)"

definition backendCountsMap :: "(string, backend_group) fmap \<Rightarrow> (string, nat) fmap" where
  "backendCountsMap backends = fmmap (\<lambda>bg. length (elems (bg_Endpoints bg))) backends"

section \<open>The snapshot\<close>

record tlsStatus =
  tls_Enabled :: bool
  tls_Supported :: bool
  tls_ConfiguredCerts :: nat
  tls_ActiveCerts :: nat
  tls_LastReloadAt :: "int option"
  tls_Certificates :: "tlsCertInfo list"

record statusResponse =
  sp_Version :: string
  sp_GoVersion :: string
  sp_VarnishMajorVersion :: int
  sp_ServiceName :: string
  sp_ServiceNamespace :: string
  sp_DrainEnabled :: bool
  sp_BroadcastEnabled :: bool
  sp_StartedAt :: int
  sp_UptimeSeconds :: int
  sp_FrontendCount :: nat
  sp_BackendCounts :: "(string, nat) fmap"
  sp_ValuesCount :: nat
  sp_SecretsCount :: nat
  sp_LastReloadAt :: "int option"
  sp_ReloadCount :: nat
  sp_VarnishdUp :: bool
  sp_TLS :: tlsStatus

definition time_or_nil :: "int \<Rightarrow> int option" where
  "time_or_nil t = (if t = 0 then None else Some t)"

text \<open>The certificates in the order of their names; \<open>visit\<close> is the order in which Go visits the map.\<close>

definition status_certs :: "((string, tlsCertInfo) fmap \<Rightarrow> tlsCertInfo list) \<Rightarrow> statusStore \<Rightarrow> tlsCertInfo list" where
  "status_certs visit s = sort_key ci_Name (visit (ss_tlsCerts s))"

definition snapshot :: "((string, tlsCertInfo) fmap \<Rightarrow> tlsCertInfo list) \<Rightarrow> int \<Rightarrow> statusStore \<Rightarrow> statusResponse" where
  "snapshot visit now s =
     (let certs = status_certs visit s
      in \<lparr>sp_Version = ss_version s, sp_GoVersion = ss_goVersion s, sp_VarnishMajorVersion = ss_varnishMajorVersion s,
          sp_ServiceName = ss_serviceName s, sp_ServiceNamespace = ss_serviceNamespace s,
          sp_DrainEnabled = ss_drainEnabled s, sp_BroadcastEnabled = ss_broadcastEnabled s, sp_StartedAt = ss_startedAt s,
          sp_UptimeSeconds = now - ss_startedAt s, sp_FrontendCount = ss_frontendCount s,
          sp_BackendCounts = ss_backendCounts s, sp_ValuesCount = ss_valuesCount s, sp_SecretsCount = ss_secretsCount s,
          sp_LastReloadAt = time_or_nil (ss_lastReloadAt s), sp_ReloadCount = ss_reloadCount s,
          sp_VarnishdUp = ss_varnishdUp s,
          sp_TLS = \<lparr>tls_Enabled = ss_tlsEnabled s, tls_Supported = ss_tlsSupported s,
            tls_ConfiguredCerts = ss_tlsConfiguredCerts s, tls_ActiveCerts = length certs,
            tls_LastReloadAt = time_or_nil (ss_tlsLastReloadAt s), tls_Certificates = certs\<rparr>\<rparr>)"

section \<open>The handlers\<close>

datatype status_reply = MethodNotAllowed | StatusJSON statusResponse

definition statusHandler :: "((string, tlsCertInfo) fmap \<Rightarrow> tlsCertInfo list) \<Rightarrow> int \<Rightarrow> statusStore \<Rightarrow> string \<Rightarrow> status_reply" where
  "statusHandler visit now s method = (if method \<noteq> ''GET'' then MethodNotAllowed else StatusJSON (snapshot visit now s))"

text \<open>The code and the body of a probe; \<open>dial\<close> says whether the address accepts a connection within a second.\<close>

definition not_allowed :: "nat \<times> string" where
  "not_allowed = (405, ''method not allowed'' @ [newline])"

definition healthzHandler :: "statusStore \<Rightarrow> string \<Rightarrow> nat \<times> string" where
  "healthzHandler s method =
     (if method \<noteq> ''GET'' then not_allowed
      else if ss_varnishdUp s then (200, ''ok'' @ [newline])
      else (503, ''varnishd not running'' @ [newline]))"

definition readyzHandler :: "(string \<Rightarrow> bool) \<Rightarrow> string \<Rightarrow> statusStore \<Rightarrow> string \<Rightarrow> nat \<times> string" where
  "readyzHandler dial listenAddr s method =
     (if method \<noteq> ''GET'' then not_allowed
      else if \<not> ss_varnishdUp s then (503, ''not ready'' @ [newline])
      else if \<not> dial listenAddr then (503, ''not ready: varnish not accepting connections'' @ [newline])
      else (200, ''ok'' @ [newline]))"

text \<open>Ready implies alive: a pod the readiness probe sends traffic to is never killed by the liveness probe.\<close>

lemma ready_implies_alive: "fst (readyzHandler dial a s m) = 200 \<Longrightarrow> fst (healthzHandler s m) = 200"
  by (simp add: readyzHandler_def healthzHandler_def not_allowed_def split: if_splits)

lemma readyz_exact: "fst (readyzHandler dial a s m) = 200 \<longleftrightarrow> m = ''GET'' \<and> ss_varnishdUp s \<and> dial a"
  by (simp add: readyzHandler_def not_allowed_def)

text \<open>The answer of \<open>/status\<close> does not depend on the order of the map.\<close>

lemma certs_visited:
  assumes "distinct (map ci_Name xs)" "distinct (map ci_Name ys)" "set xs = set ys"
  shows "sort_key ci_Name xs = sort_key ci_Name ys"
proof -
  let ?a = "sort_key ci_Name xs" and ?b = "sort_key ci_Name ys"
  have d: "distinct (map ci_Name ?a)" "distinct (map ci_Name ?b)"
    using assms(1,2) by (auto simp: distinct_map)
  have "map ci_Name ?a = map ci_Name ?b"
    by (rule sorted_distinct_set_unique) (use d assms(3) in \<open>simp_all\<close>)
  moreover have "inj_on ci_Name (set ?a \<union> set ?b)"
    using assms(1,3) by (simp add: distinct_map)
  ultimately show ?thesis by (simp only: inj_on_map_eq_map)
qed

lemma snapshot_order_irrelevant:
  assumes "distinct (map ci_Name (visit (ss_tlsCerts s)))" "distinct (map ci_Name (visit' (ss_tlsCerts s)))"
    and "set (visit (ss_tlsCerts s)) = set (visit' (ss_tlsCerts s))"
  shows "snapshot visit now s = snapshot visit' now s"
  using certs_visited [OF assms] by (simp add: snapshot_def status_certs_def)

end
