(* ===== verification/Startup.thy ===== *)
theory Startup
  imports ConfigProps Status VarnishProcess TLSCerts LoopInvariant BackendWatcher "HOL-Library.AList"
begin

text \<open>
  \<open>run\<close> of \<open>main.go\<close>: from the flags to the event loop, with every early return and the deferred calls.
  What the steps ask of the outside, from the Kubernetes API to the process of varnishd, is a record of
  answers; the flags, the renderer, the start of varnishd, the certificates and the loop are the models of
  their own theories.
\<close>

section \<open>Small helpers\<close>

text \<open>\<open>podNamespace\<close>: the variable, else the trimmed file of the service account, else the fallback.\<close>

definition podNamespace :: "string \<Rightarrow> string option \<Rightarrow> string \<Rightarrow> string" where
  "podNamespace POD_NAMESPACE saFile fallback =
     (if POD_NAMESPACE \<noteq> [] then POD_NAMESPACE
      else case saFile of
        Some raw \<Rightarrow> if trim_space raw \<noteq> [] then trim_space raw else fallback
      | None \<Rightarrow> fallback)"

text \<open>\<open>detectLocalZone\<close>: \<open>node\<close> gives the labels of a node, \<open>None\<close> when it cannot be fetched.\<close>

definition detectLocalZone :: "(string \<Rightarrow> strmap option) \<Rightarrow> string \<Rightarrow> string" where
  "detectLocalZone node nodeName =
     (if nodeName = [] then []
      else case node nodeName of
        None \<Rightarrow> []
      | Some labels \<Rightarrow> (case fmlookup labels ''topology.kubernetes.io/zone'' of Some zone \<Rightarrow> zone | None \<Rightarrow> []))"

definition drainBackendForLoop :: "bool \<Rightarrow> string" where
  "drainBackendForLoop drain = (if drain then ''drain_flag'' else [])"

definition buildNCSAArgs :: "config \<Rightarrow> string list" where
  "buildNCSAArgs c =
     (if cf_VarnishncsaBackend c then [''-b''] else []) @
     (if cf_VarnishncsaFormat c \<noteq> [] then [''-F'', cf_VarnishncsaFormat c] else []) @
     (if cf_VarnishncsaQuery c \<noteq> [] then [''-q'', cf_VarnishncsaQuery c] else []) @
     (if cf_VarnishncsaOutput c \<noteq> [] then [''-w'', cf_VarnishncsaOutput c, ''-a''] else [])"

definition readyzDialAddr :: "listen_addr_spec \<Rightarrow> string" where
  "readyzDialAddr la =
     joinHostPort (if la_Host la \<in> {[], ''0.0.0.0'', ''::''} then ''localhost'' else la_Host la) (show_int (la_Port la))"

text \<open>
  The temporary file of the first VCL: creating it, writing it and closing it may fail; the path, and
  whether a file is left behind.
\<close>

record file_answers =
  fa_path :: "string option"
  fa_write :: bool
  fa_close :: bool

definition writeInitialVCLFile :: "file_answers \<Rightarrow> string option \<times> bool" where
  "writeInitialVCLFile fa =
     (case fa_path fa of
        None \<Rightarrow> (None, False)
      | Some path \<Rightarrow>
          if \<not> fa_write fa then (None, False)
          else if \<not> fa_close fa then (None, False)
          else (Some path, True))"

definition writeVCLTempFile :: "file_answers \<Rightarrow> string option \<times> bool" where
  "writeVCLTempFile fa =
     (case fa_path fa of
        None \<Rightarrow> (None, False)
      | Some path \<Rightarrow> if \<not> (fa_write fa \<and> fa_close fa) then (None, False) else (Some path, True))"

text \<open>
  \<open>awaitInitial\<close> under \<open>startupContext\<close>: the first event its select sees decides, and the deadline is one
  of them only when the timeout is positive; \<open>None\<close> when none ever comes.
\<close>

datatype 'd await_event = Collected 'd | WatcherFailed string | DeadlinePassed

fun awaitInitial :: "int \<Rightarrow> 'd await_event list \<Rightarrow> (string + 'd) option" where
  "awaitInitial timeout [] = None"
| "awaitInitial timeout (Collected d # evs) = Some (Inr d)"
| "awaitInitial timeout (WatcherFailed err # evs) = Some (Inl err)"
| "awaitInitial timeout (DeadlinePassed # evs) =
     (if timeout \<le> 0 then awaitInitial timeout evs else Some (Inl ''context deadline exceeded''))"

text \<open>
  What the watchers send first, by the index of the watcher, and the maps that the closure of \<open>awaitInitial\<close>
  assembles from it; the certificates as a list without a name twice, the last one given to a name.
\<close>

record first_sends =
  fs_frontends :: "endpoint slice"
  fs_backends :: "nat \<Rightarrow> BackendState"
  fs_discovered :: "nat \<Rightarrow> (string \<times> BackendState) list"
  fs_values :: "nat \<Rightarrow> gmap"
  fs_dirs :: "nat \<Rightarrow> gmap"
  fs_secrets :: "nat \<Rightarrow> gmap"
  fs_tls :: "nat \<Rightarrow> tls_cert_data"

definition group_of_state :: "BackendState \<Rightarrow> backend_group" where
  "group_of_state st = \<lparr>bg_Endpoints = bs_Endpoints st, bg_Labels = bs_Labels st, bg_Annotations = bs_Annotations st\<rparr>"

fun assign_all :: "(string \<times> 'v) list \<Rightarrow> (string, 'v) fmap \<Rightarrow> (string, 'v) fmap" where
  "assign_all [] m = m"
| "assign_all ((name, v) # nvs) m = assign_all nvs (fmupd name v m)"

definition by_name :: "string list \<Rightarrow> (nat \<Rightarrow> 'v) \<Rightarrow> (string \<times> 'v) list" where
  "by_name names sent = map (\<lambda>(i, name). (name, sent i)) (enumerate 0 names)"

definition collect_sources :: "config \<Rightarrow> first_sends \<Rightarrow> inputs \<times> (string \<times> tls_cert_data) list" where
  "collect_sources c fs =
     (\<lparr>in_Frontends = fs_frontends fs,
       in_Backends = assign_all (concat (map (\<lambda>i. map (\<lambda>(name, st). (name, group_of_state st)) (fs_discovered fs i))
           [0..<length (cf_BackendSelectors c)]))
         (assign_all (by_name (map bs_Name (cf_Backends c)) (\<lambda>i. group_of_state (fs_backends fs i))) fmempty),
       in_Values = assign_all (by_name (map ds_Name (cf_ValuesDirs c)) (fs_dirs fs))
         (assign_all (by_name (map vs_Name (cf_Values c)) (fs_values fs)) fmempty),
       in_Secrets = assign_all (by_name (map ss_Name (cf_Secrets c)) (fs_secrets fs)) fmempty\<rparr>,
      AList.clearjunk (rev (by_name (map ts_Name (cf_TLSCerts c)) (fs_tls fs))))"

text \<open>
  \<open>loadInitialTLSCerts\<close> with the state \<open>s\<close> of the manager: the names loaded, and on a failure varnishd is
  killed and waited for.
\<close>

fun loadInitialTLSCerts :: "(string \<Rightarrow> tls_cert_data \<Rightarrow> 's \<Rightarrow> 'e option \<times> 's) \<Rightarrow> string list \<Rightarrow> (string \<Rightarrow> tls_cert_data) \<Rightarrow>
    's \<Rightarrow> string list \<times> bool \<times> 's" where
  "loadInitialTLSCerts load [] tls s = ([], False, s)"
| "loadInitialTLSCerts load (name # names) tls s =
     (case load name (tls name) s of
        (Some err, s') \<Rightarrow> ([], True, s')
      | (None, s') \<Rightarrow>
          (case loadInitialTLSCerts load names tls s' of
             (loaded, killed, s'') \<Rightarrow> (if tls_Empty (tls name) then loaded else name # loaded, killed, s'')))"

text \<open>
  \<open>setupMetricsServer\<close>: the error of the listen, or the server if there is an address; its readiness probe
  dials the first listener.
\<close>

definition setupMetricsServer :: "bool \<Rightarrow> config \<Rightarrow> string + string option" where
  "setupMetricsServer listens c =
     (if cf_MetricsAddr c = [] then Inr None
      else let readyzAddr = readyzDialAddr (hd (cf_ListenAddrs c))
           in if \<not> listens then Inl (''metrics server listen on '' @ cf_MetricsAddr c) else Inr (Some readyzAddr))"

text \<open>
  The watchers of the flags, each with what its constructor is given. The discovery watchers exclude the
  names of the explicit backends; the annotations excluded are the default ones and those of the flags.
\<close>

datatype watched =
    FrontendOf string string
  | BackendOf string string string string
  | DiscoveryOf string bool string string "string list"
  | ConfigMapOf string string string
  | SecretOf string string string
  | TLSCertOf string string string
  | DirOf string string bool

definition watched_sources :: "config \<Rightarrow> watched list" where
  "watched_sources c =
     FrontendOf (cf_ServiceNamespace c) (cf_ServiceName c) #
     map (\<lambda>b. BackendOf (bs_Name b) (bs_Namespace b) (bs_ServiceName b) (bs_Port b)) (cf_Backends c) @
     map (\<lambda>s. DiscoveryOf (sel_Namespace s) (sel_AllNamespaces s) (sel_Selector s) (sel_Port s) (map bs_Name (cf_Backends c)))
       (cf_BackendSelectors c) @
     map (\<lambda>v. ConfigMapOf (vs_Name v) (vs_Namespace v) (vs_ConfigMapName v)) (cf_Values c) @
     map (\<lambda>x. SecretOf (ss_Name x) (ss_Namespace x) (ss_SecretName x)) (cf_Secrets c) @
     map (\<lambda>t. TLSCertOf (ts_Name t) (ts_Namespace t) (ts_SecretName t)) (cf_TLSCerts c) @
     map (\<lambda>d. DirOf (ds_Name d) (ds_Path d) (cf_ValuesDirWatch c)) (cf_ValuesDirs c)"

definition excludeAnnotation :: "config \<Rightarrow> (string \<Rightarrow> bool) option" where
  "excludeAnnotation c = BuildAnnotationFilter (''kubectl.kubernetes.io/last-applied-configuration'' # cf_ExcludeAnnotations c)"

section \<open>Steps with early returns and deferred calls\<close>

datatype effect =
    MetricsListening string | MetricsShutDown | RecorderStarted string | EventsFlushed | GraceChecked grace_warning
  | StatRegistered "string list" | WatchersStarted "watched list" | WatchersCancelled | BroadcastListening int "endpoint list"
  | VCLWritten string | VCLRemoved | SignalsNotified | VarnishdSpawned "string list" | VarnishdReaped | TLSDirRemoved
  | KeyRegistered string | CertInstalled string | EventEmitted string | MarkedUp | NCSAStarted string "string list" string
  | LoopRan

text \<open>The effects so far, the deferred calls with the last one first; a step stops, hangs or goes on.\<close>

type_synonym run_state = "effect list \<times> effect list"

datatype 'a outcome = Exit int | Hangs | Go 'a

type_synonym 'a step = "run_state \<Rightarrow> 'a outcome \<times> run_state"

definition go :: "'a \<Rightarrow> 'a step" where
  "go x s = (Go x, s)"

definition quit :: "int \<Rightarrow> 'a step" where
  "quit code s = (Exit code, s)"

definition effect :: "effect \<Rightarrow> unit step" where
  "effect e s = (Go (), (fst s @ [e], snd s))"

definition deferred :: "effect \<Rightarrow> unit step" where
  "deferred e s = (Go (), (fst s, e # snd s))"

definition seq :: "'a step \<Rightarrow> ('a \<Rightarrow> 'b step) \<Rightarrow> 'b step" where
  "seq m f s = (case m s of (Go x, s') \<Rightarrow> f x s' | (Exit c, s') \<Rightarrow> (Exit c, s') | (Hangs, s') \<Rightarrow> (Hangs, s'))"

fun effects :: "effect list \<Rightarrow> unit step" where
  "effects [] = go ()"
| "effects (e # es) = seq (effect e) (\<lambda>_. effects es)"

section \<open>The steps of run\<close>

text \<open>The answers of the outside; \<open>'t\<close> is a parsed template, \<open>'w\<close> the world of varnishadm.\<close>

record ('t, 'w) start_env =
  en_metrics_listens :: bool
  en_client :: bool
  en_POD_NAME :: string
  en_POD_NAMESPACE :: string
  en_sa_namespace :: "string option"
  en_pod :: "int option option"
  en_NODE_NAME :: string
  en_node :: "string \<Rightarrow> strmap option"
  en_version :: "string option"
  en_template :: "'t option"
  en_initial :: "first_sends await_event list"
  en_broadcast_listens :: bool
  en_vcl_file :: file_answers
  en_spawn :: "string list \<Rightarrow> string option"
  en_pings :: "(bool \<times> ping) list"
  en_cli :: "'w cli"
  en_load :: load_env
  en_world :: 'w

definition start_metrics :: "('t, 'w) start_env \<Rightarrow> config \<Rightarrow> unit step" where
  "start_metrics en c =
     (case setupMetricsServer (en_metrics_listens en) c of
        Inl _ \<Rightarrow> quit 1
      | Inr None \<Rightarrow> go ()
      | Inr (Some readyzAddr) \<Rightarrow> seq (effect (MetricsListening readyzAddr)) (\<lambda>_. deferred MetricsShutDown))"

definition shutdown_of :: "config \<Rightarrow> shutdown_config" where
  "shutdown_of c = \<lparr>sc_Drain = cf_Drain c, sc_DrainDelay = cf_DrainDelay c, sc_DrainTimeout = cf_DrainTimeout c,
     sc_Broadcast = (cf_BroadcastAddr c \<noteq> []), sc_BroadcastDrainTimeout = cf_BroadcastDrainTimeout c,
     sc_BroadcastShutdownTimeout = cf_BroadcastShutdownTimeout c, sc_NCSA = cf_VarnishncsaEnabled c,
     sc_Metrics = (cf_MetricsAddr c \<noteq> []), sc_ShutdownTimeout = cf_ShutdownTimeout c\<rparr>"

text \<open>The client, and the recorder of events when the pod's name is known; the result says whether it is.\<close>

definition start_recorder :: "('t, 'w) start_env \<Rightarrow> config \<Rightarrow> bool step" where
  "start_recorder en c =
     (if \<not> en_client en then quit 1
      else if en_POD_NAME en = [] then go False
      else seq (effect (RecorderStarted (podNamespace (en_POD_NAMESPACE en) (en_sa_namespace en) (cf_ServiceNamespace c))))
        (\<lambda>_. seq (deferred EventsFlushed)
        (\<lambda>_. seq (case en_pod en of
             None \<Rightarrow> go ()
           | Some grace \<Rightarrow> effect (GraceChecked (gracePeriodWarning (shutdown_of c) grace)))
        (\<lambda>_. go True))))"

definition local_zone :: "('t, 'w) start_env \<Rightarrow> config \<Rightarrow> string" where
  "local_zone en c = (if cf_Zone c \<noteq> [] then cf_Zone c else detectLocalZone (en_node en) (en_NODE_NAME en))"

text \<open>Version, TLS support, exporter and renderer.\<close>

definition start_manager :: "('t, 'w) start_env \<Rightarrow> config \<Rightarrow> (int \<times> 't renderer) step" where
  "start_manager en c =
     (case (case en_version en of None \<Rightarrow> None | Some out \<Rightarrow> DetectVersion out) of
        None \<Rightarrow> quit 1
      | Some major \<Rightarrow>
          if cf_TLSCerts c \<noteq> [] \<and> \<not> major \<ge> 9 then quit 1
          else seq (if cf_VarnishstatExport c then effect (StatRegistered (cf_VarnishstatExportFilter c)) else go ())
            (\<lambda>_. case en_template en of
               None \<Rightarrow> quit 1
             | Some t \<Rightarrow>
                 (let r = new_renderer t;
                      r1 = (if cf_Drain c then SetDrainBackend ''drain_flag'' r else r);
                      zone = local_zone en c;
                      r2 = (if zone \<noteq> [] then SetLocalZone zone r1 else r1)
                  in go (major, r2))))"

text \<open>The watchers, and the wait for the first snapshot of each.\<close>

definition collect_initial :: "('t, 'w) start_env \<Rightarrow> config \<Rightarrow> (inputs \<times> (string \<times> tls_cert_data) list) step" where
  "collect_initial en c =
     seq (deferred WatchersCancelled) (\<lambda>_. seq (effect (WatchersStarted (watched_sources c)))
       (\<lambda>_. case awaitInitial (cf_StartupTimeout c) (en_initial en) of
          None \<Rightarrow> (\<lambda>s. (Hangs, s))
        | Some (Inl _) \<Rightarrow> quit 1
        | Some (Inr fs) \<Rightarrow> go (collect_sources c fs)))"

definition start_broadcast :: "('t, 'w) start_env \<Rightarrow> config \<Rightarrow> inputs \<Rightarrow> unit step" where
  "start_broadcast en c inp =
     (if cf_BroadcastAddr c = [] then go ()
      else if \<not> en_broadcast_listens en then quit 1
      else effect (BroadcastListening (cf_BroadcastTargetPort c) (elems (in_Frontends inp))))"

text \<open>The first rendering and its file.\<close>

definition render_initial :: "('t \<Rightarrow> template_data \<Rightarrow> string option) \<Rightarrow> ('t, 'w) start_env \<Rightarrow> inputs \<Rightarrow> 't renderer \<Rightarrow>
    (string \<times> string \<times> 't renderer) step" where
  "render_initial exec en inp r =
     (case Render exec inp r of
        (None, r') \<Rightarrow> quit 1
      | (Some vcl, r') \<Rightarrow>
          (case writeInitialVCLFile (en_vcl_file en) of
             (None, _) \<Rightarrow> quit 1
           | (Some path, _) \<Rightarrow> seq (effect (VCLWritten vcl)) (\<lambda>_. seq (deferred VCLRemoved) (\<lambda>_. go (vcl, path, r')))))"

text \<open>varnishd, with the signals registered before it is spawned.\<close>

definition start_varnishd :: "('t, 'w) start_env \<Rightarrow> config \<Rightarrow> int \<Rightarrow> string \<Rightarrow> unit step" where
  "start_varnishd en c major path =
     seq (effect SignalsNotified)
       (\<lambda>_. case start major (en_version en) (en_spawn en) (en_pings en) (map la_Raw (cf_ListenAddrs c)) path
            (cf_ExtraVarnishd c) of
          (err, v, spawned, killed) \<Rightarrow>
            seq (effects ((case spawned of Some args \<Rightarrow> [VarnishdSpawned args] | None \<Rightarrow> []) @ (if killed then [VarnishdReaped] else [])))
              (\<lambda>_. if err \<noteq> None then quit 1 else deferred TLSDirRemoved))"

text \<open>The certificates: their keys are registered for redaction first.\<close>

definition cert_of :: "(string \<times> tls_cert_data) list \<Rightarrow> string \<Rightarrow> tls_cert_data" where
  "cert_of tls name = (case map_of tls name of Some d \<Rightarrow> d | None \<Rightarrow> \<lparr>tls_Cert = [], tls_Key = [], tls_CA = []\<rparr>)"

definition load_cert :: "('t, 'w) start_env \<Rightarrow> string \<Rightarrow> tls_cert_data \<Rightarrow> tls_state \<times> 'w \<Rightarrow> load_error option \<times> tls_state \<times> 'w" where
  "load_cert en name d sw = LoadCert (en_cli en) (en_load en) name (tls_Cert d) (tls_Key d) (tls_CA d) (fst sw) (snd sw)"

definition load_certs :: "('t, 'w) start_env \<Rightarrow> config \<Rightarrow> int \<Rightarrow> (string \<times> tls_cert_data) list \<Rightarrow> bool \<Rightarrow> unit step" where
  "load_certs en c major tls recorder =
     seq (effects (map (\<lambda>(name, _). KeyRegistered name) tls))
       (\<lambda>_. case loadInitialTLSCerts (load_cert en) (map ts_Name (cf_TLSCerts c)) (cert_of tls)
            (\<lparr>tl_major = major, tl_CertIDs = fmempty, tl_CertDir = None, tl_PendingDiscards = [], tl_active = None\<rparr>, en_world en) of
          (loaded, killed, _) \<Rightarrow>
            seq (effects (map CertInstalled loaded))
              (\<lambda>_. if killed then seq (effect VarnishdReaped) (\<lambda>_. quit 1)
                else if loaded \<noteq> [] \<and> recorder then effect (EventEmitted ''TLSCertLoaded'') else go ()))"

definition mark_up :: "config \<Rightarrow> bool \<Rightarrow> unit step" where
  "mark_up c recorder =
     seq (effect MarkedUp) (\<lambda>_. seq (if recorder then effect (EventEmitted ''VCLReloaded'') else go ())
       (\<lambda>_. if cf_VarnishncsaEnabled c
            then effect (NCSAStarted (cf_VarnishncsaPath c) (buildNCSAArgs c) (cf_VarnishncsaPrefix c)) else go ()))"

definition loop_config_of :: "config \<Rightarrow> loop_config" where
  "loop_config_of c = \<lparr>cf_frontendDebounce = cf_FrontendDebounce c, cf_frontendDebounceMax = cf_FrontendDebounceMax c,
     cf_backendDebounce = cf_BackendDebounce c, cf_backendDebounceMax = cf_BackendDebounceMax c,
     cf_tlsCertDebounce = cf_TLSCertDebounce c, cf_tlsCertDebounceMax = cf_TLSCertDebounceMax c,
     cf_backendTombstoneTTL = 10 * (60 * second)\<rparr>"

text \<open>From the accepted flags to the state the loop starts in.\<close>

definition startup :: "('t \<Rightarrow> template_data \<Rightarrow> string option) \<Rightarrow> (string \<Rightarrow> 'h) \<Rightarrow> ('t, 'w) start_env \<Rightarrow> config \<Rightarrow>
    (loop_config \<times> ('t, 'h) loop_state) step" where
  "startup exec H en c =
     seq (start_metrics en c) (\<lambda>_.
     seq (start_recorder en c) (\<lambda>recorder.
     seq (start_manager en c) (\<lambda>(major, r).
     seq (collect_initial en c) (\<lambda>(inp, tls).
     seq (start_broadcast en c inp) (\<lambda>_.
     seq (render_initial exec en inp r) (\<lambda>(vcl, path, r').
     seq (start_varnishd en c major path) (\<lambda>_.
     seq (load_certs en c major tls recorder) (\<lambda>_.
     seq (mark_up c recorder) (\<lambda>_.
     go (loop_config_of c, loop_init H inp tls r' vcl (cf_BroadcastAddr c \<noteq> [])))))))))))"

text \<open>
  \<open>run\<close>: the exit code and all effects; \<open>loop\<close> is the exit code of \<open>runLoop\<close>. Every return runs the
  deferred calls, the last registered one first.
\<close>

definition run :: "('t \<Rightarrow> template_data \<Rightarrow> string option) \<Rightarrow> (string \<Rightarrow> 'h) \<Rightarrow> ('t, 'w) start_env \<Rightarrow>
    (loop_config \<times> ('t, 'h) loop_state \<Rightarrow> int) \<Rightarrow> parse_error + config \<Rightarrow> int option \<times> effect list" where
  "run exec H en loop parsed =
     (case parsed of
        Inl ErrHelp \<Rightarrow> (Some 0, [])
      | Inl _ \<Rightarrow> (Some 2, [])
      | Inr c \<Rightarrow>
          (case startup exec H en c ([], []) of
             (Go l, (tr, ds)) \<Rightarrow> (Some (loop l), tr @ [LoopRan] @ ds)
           | (Exit code, (tr, ds)) \<Rightarrow> (Some code, tr @ ds)
           | (Hangs, (tr, ds)) \<Rightarrow> (None, tr)))"

end
