(* ===== verification/StartupProps.thy ===== *)
theory StartupProps
  imports Startup
begin

text \<open>
  The properties of the start: a small calculus of steps that may return early, the assertions between the
  steps of \<open>run\<close>, and what they add up to: no varnishd is left behind, every resource is given back, the
  pod is marked as up only when it can serve, and the loop starts in the state its properties assume.
\<close>

section \<open>A calculus for steps\<close>

definition triple :: "(run_state \<Rightarrow> bool) \<Rightarrow> 'a step \<Rightarrow> ('a \<Rightarrow> run_state \<Rightarrow> bool) \<Rightarrow> (run_state \<Rightarrow> bool) \<Rightarrow> bool" where
  "triple P m Q R \<longleftrightarrow> (\<forall>s. P s \<longrightarrow> (case m s of (Go x, s') \<Rightarrow> Q x s' | (Exit c, s') \<Rightarrow> R s' | (Hangs, s') \<Rightarrow> R s'))"

lemma triple_seq:
  assumes "triple P m Q R" and "\<And>x. triple (Q x) (f x) Q' R"
  shows "triple P (seq m f) Q' R"
  using assms unfolding triple_def seq_def by (fastforce split: prod.splits outcome.splits)

lemma triple_go: "(\<And>s. P s \<Longrightarrow> Q x s) \<Longrightarrow> triple P (go x) Q R"
  by (simp add: triple_def go_def)

lemma triple_quit: "(\<And>s. P s \<Longrightarrow> R s) \<Longrightarrow> triple P (quit c) Q R"
  by (simp add: triple_def quit_def)

lemma triple_hang: "(\<And>s. P s \<Longrightarrow> R s) \<Longrightarrow> triple P (\<lambda>s. (Hangs, s)) Q R"
  by (simp add: triple_def)

lemma triple_effect: "(\<And>tr ds. P (tr, ds) \<Longrightarrow> Q () (tr @ [e], ds)) \<Longrightarrow> triple P (effect e) Q R"
  by (simp add: triple_def effect_def)

lemma triple_deferred: "(\<And>tr ds. P (tr, ds) \<Longrightarrow> Q () (tr, e # ds)) \<Longrightarrow> triple P (deferred e) Q R"
  by (simp add: triple_def deferred_def)

lemma effects_run: "effects es (tr, ds) = (Go (), (tr @ es, ds))"
  by (induction es arbitrary: tr) (simp_all add: go_def seq_def effect_def)

lemma triple_trace:
  assumes "\<And>tr ds. m (tr, ds) = (Go x, (tr @ es, ds))" and "\<And>tr ds. P (tr, ds) \<Longrightarrow> Q x (tr @ es, ds)"
  shows "triple P m Q R"
  using assms(2) by (simp add: triple_def assms(1) split_paired_all)

lemma triple_effects: "(\<And>tr ds. P (tr, ds) \<Longrightarrow> Q () (tr @ es, ds)) \<Longrightarrow> triple P (effects es) Q R"
  by (simp add: triple_def effects_run)

lemma triple_weaken: "triple P m Q R \<Longrightarrow> (\<And>s. P' s \<Longrightarrow> P s) \<Longrightarrow> triple P' m Q R"
  by (simp add: triple_def)

section \<open>What the effects leave open\<close>

text \<open>Whether varnishd runs after these effects, and what gives a resource back.\<close>

definition runs_after :: "effect list \<Rightarrow> bool" where
  "runs_after tr = fold (\<lambda>e r. case e of VarnishdSpawned _ \<Rightarrow> True | VarnishdReaped \<Rightarrow> False | _ \<Rightarrow> r) tr False"

fun release_of :: "effect \<Rightarrow> effect option" where
  "release_of (MetricsListening readyz) = Some MetricsShutDown"
| "release_of (RecorderStarted ns) = Some EventsFlushed"
| "release_of (WatchersStarted ws) = Some WatchersCancelled"
| "release_of (VCLWritten vcl) = Some VCLRemoved"
| "release_of _ = None"

definition releases :: "effect list \<Rightarrow> effect list" where
  "releases tr = rev (List.map_filter release_of tr)"

definition matched :: "run_state \<Rightarrow> bool" where
  "matched s \<longleftrightarrow> filter (\<lambda>e. e \<noteq> TLSDirRemoved) (snd s) = releases (fst s)"

definition quiet :: "effect \<Rightarrow> bool" where
  "quiet e \<longleftrightarrow> release_of e = None \<and> e \<noteq> MarkedUp \<and> e \<noteq> LoopRan \<and> e \<noteq> VarnishdReaped \<and> (\<forall>args. e \<noteq> VarnishdSpawned args)"

definition open_ok :: "bool \<Rightarrow> run_state \<Rightarrow> bool" where
  "open_ok up s \<longleftrightarrow> matched s \<and> runs_after (fst s) = up \<and> MarkedUp \<notin> set (fst s) \<and> LoopRan \<notin> set (fst s) \<and>
     set (snd s) \<subseteq> {MetricsShutDown, EventsFlushed, WatchersCancelled, VCLRemoved, TLSDirRemoved}"

lemma releases_append: "releases (tr @ es) = releases es @ releases tr"
  by (simp add: releases_def List.map_filter_def)

lemma releases_quiet: "list_all quiet es \<Longrightarrow> releases es = []"
  by (induction es) (simp_all add: releases_def List.map_filter_def quiet_def)

lemma runs_after_quiet: "list_all quiet es \<Longrightarrow> runs_after (tr @ es) = runs_after tr"
  by (induction es rule: rev_induct) (auto simp: runs_after_def quiet_def append_assoc [symmetric] simp del: append_assoc split: effect.splits)

lemma open_ok_quiet:
  assumes "open_ok up (tr, ds)" and "list_all quiet es"
  shows "open_ok up (tr @ es, ds)"
  using assms releases_quiet [OF assms(2)] runs_after_quiet [OF assms(2), of tr]
  by (auto simp: open_ok_def matched_def releases_append list_all_iff quiet_def)

lemma releases_acquire: "release_of e = Some d \<Longrightarrow> releases [e] = [d]"
  by (simp add: releases_def List.map_filter_def)

lemma open_ok_acquire:
  assumes "open_ok up (tr, ds)" and "release_of e = Some d"
  shows "open_ok up (tr @ [e], d # ds)"
  using assms releases_acquire [OF assms(2)]
  by (cases e) (auto simp: open_ok_def matched_def releases_append runs_after_def) 

section \<open>The steps\<close>

lemma quiet_effects [simp]:
  "quiet SignalsNotified" "quiet (KeyRegistered n)" "quiet (CertInstalled n)" "quiet (EventEmitted r)" "quiet (NCSAStarted p a x)"
  "quiet (BroadcastListening i es)" "quiet (StatRegistered l)" "quiet (GraceChecked g)"
  by (simp_all add: quiet_def)

lemma triple_quiet: "quiet e \<Longrightarrow> triple (open_ok up) (effect e) (\<lambda>_. open_ok up) R"
  by (intro triple_effect open_ok_quiet) simp_all

lemma triple_acquire:
  assumes "release_of e = Some d"
  shows "triple (open_ok up) (seq (effect e) (\<lambda>_. deferred d)) (\<lambda>_. open_ok up) R"
  using open_ok_acquire [OF _ assms] by (simp add: triple_def seq_def effect_def deferred_def)

lemma start_metrics_ok: "triple (open_ok False) (start_metrics en c) (\<lambda>_. open_ok False) (open_ok False)"
  by (auto simp: start_metrics_def intro!: triple_go triple_quit triple_acquire split: sum.split option.split)

lemma seq_assoc: "seq (seq m f) g = seq m (\<lambda>x. seq (f x) g)"
  by (rule ext) (simp add: seq_def split: prod.split outcome.split)

lemma start_recorder_ok: "triple (open_ok False) (start_recorder en c) (\<lambda>_. open_ok False) (open_ok False)"
proof -
  let ?ns = "podNamespace (en_POD_NAMESPACE en) (en_sa_namespace en) (cf_ServiceNamespace c)"
  let ?look = "seq (case en_pod en of None \<Rightarrow> go () | Some grace \<Rightarrow> effect (GraceChecked (gracePeriodWarning (shutdown_of c) grace)))
      (\<lambda>_. go True)"
  have "triple (open_ok False) ?look (\<lambda>_. open_ok False) (open_ok False)"
    by (rule triple_seq [where Q = "\<lambda>_. open_ok False"]) (auto intro!: triple_go triple_quiet split: option.split)
  then have "triple (open_ok False) (seq (seq (effect (RecorderStarted ?ns)) (\<lambda>_. deferred EventsFlushed)) (\<lambda>_. ?look))
      (\<lambda>_. open_ok False) (open_ok False)"
    by (intro triple_seq [OF triple_acquire]) simp_all
  then show ?thesis
    by (auto simp: start_recorder_def seq_assoc intro!: triple_go triple_quit)
qed

text \<open>The renderer of the flags: the parsed template, the drain backend and the zone, no template swapped out.\<close>

definition fresh_renderer :: "('t, 'w) start_env \<Rightarrow> config \<Rightarrow> 't renderer \<Rightarrow> bool" where
  "fresh_renderer en c r \<longleftrightarrow> r_prev r = None \<and> en_template en = Some (r_tmpl r) \<and>
     r_drainBackend r = drainBackendForLoop (cf_Drain c) \<and> r_localZone r = local_zone en c"

lemma start_manager_ok:
  "triple (open_ok False) (start_manager en c) (\<lambda>(major, r) s. open_ok False s \<and> fresh_renderer en c r) (open_ok False)"
  unfolding start_manager_def Let_def
  by (auto simp: fresh_renderer_def SetLocalZone_def SetDrainBackend_def new_renderer_def drainBackendForLoop_def intro!: triple_go triple_quit triple_quiet triple_seq [where Q = "\<lambda>_. open_ok False"] split: option.split)

text \<open>The maps of the first snapshot have an entry for every source the flags name.\<close>

definition sources_complete :: "config \<Rightarrow> inputs \<Rightarrow> (string \<times> tls_cert_data) list \<Rightarrow> bool" where
  "sources_complete c inp tls \<longleftrightarrow>
     list_all (\<lambda>b. bs_Name b |\<in>| fmdom (in_Backends inp)) (cf_Backends c) \<and>
     list_all (\<lambda>v. vs_Name v |\<in>| fmdom (in_Values inp)) (cf_Values c) \<and>
     list_all (\<lambda>d. ds_Name d |\<in>| fmdom (in_Values inp)) (cf_ValuesDirs c) \<and>
     list_all (\<lambda>x. ss_Name x |\<in>| fmdom (in_Secrets inp)) (cf_Secrets c) \<and>
     distinct (map fst tls) \<and> fst ` set tls = ts_Name ` set (cf_TLSCerts c)"

lemma assign_all_dom: "n |\<in>| fmdom (assign_all nvs m) \<longleftrightarrow> n |\<in>| fmdom m \<or> n \<in> fst ` set nvs"
  by (induction nvs m rule: assign_all.induct) auto

lemma by_name_names: "map fst (by_name names sent) = names"
  by (simp add: by_name_def case_prod_unfold comp_def)

lemma by_name_dom: "fst ` set (by_name names sent) = set names"
  by (metis by_name_names set_map)

lemma collected_complete:
  assumes "collect_sources c fs = (inp, tls)"
  shows "sources_complete c inp tls"
proof -
  let ?tls = "by_name (map ts_Name (cf_TLSCerts c)) (fs_tls fs)"
  have "distinct (map fst (AList.clearjunk (rev ?tls)))" "fst ` set (AList.clearjunk (rev ?tls)) = fst ` set ?tls"
    using distinct_clearjunk dom_clearjunk [of "rev ?tls"] by simp_all
  then show ?thesis
    using assms by (auto simp: sources_complete_def collect_sources_def assign_all_dom by_name_dom list_all_iff)
qed

definition collected :: "('t, 'w) start_env \<Rightarrow> config \<Rightarrow> inputs \<Rightarrow> (string \<times> tls_cert_data) list \<Rightarrow> bool" where
  "collected en c inp tls \<longleftrightarrow> (\<exists>fs. awaitInitial (cf_StartupTimeout c) (en_initial en) = Some (Inr fs) \<and>
     collect_sources c fs = (inp, tls))"

lemma collected_all: "collected en c inp tls \<Longrightarrow> sources_complete c inp tls"
  using collected_complete by (auto simp: collected_def)

lemma collect_initial_ok:
  assumes pre: "\<And>s. P s \<Longrightarrow> open_ok False s"
  shows "triple P (collect_initial en c) 
     (\<lambda>(inp, tls) s. open_ok False s \<and> collected en c inp tls) (open_ok False)"
proof -
  have swap: "collect_initial en c = seq (seq (effect (WatchersStarted (watched_sources c))) (\<lambda>_. deferred WatchersCancelled))
      (\<lambda>_. case awaitInitial (cf_StartupTimeout c) (en_initial en) of
          None \<Rightarrow> (\<lambda>s. (Hangs, s)) | Some (Inl _) \<Rightarrow> quit 1 | Some (Inr fs) \<Rightarrow> go (collect_sources c fs))"
    by (rule ext) (simp add: collect_initial_def seq_def effect_def deferred_def)
  show ?thesis
    unfolding swap
    by (rule triple_weaken [OF triple_seq [OF triple_acquire] pre])
      (auto intro!: triple_go triple_quit triple_hang simp: collected_def split: option.split sum.split prod.split)
qed

lemma start_broadcast_ok: "triple (open_ok False) (start_broadcast en c inp) (\<lambda>_. open_ok False) (open_ok False)"
  by (auto simp: start_broadcast_def intro!: triple_go triple_quit triple_quiet)

definition rendered_ok :: "('t \<Rightarrow> template_data \<Rightarrow> string option) \<Rightarrow> ('t, 'w) start_env \<Rightarrow> config \<Rightarrow> inputs \<Rightarrow> string \<Rightarrow> 't renderer \<Rightarrow> run_state \<Rightarrow> bool" where
  "rendered_ok exec en c inp vcl r s \<longleftrightarrow> VCLWritten vcl \<in> set (fst s) \<and> rendered exec inp r = Some vcl \<and> fresh_renderer en c r"

lemma render_initial_ok:
  assumes "fresh_renderer en c r"
  shows "triple (open_ok False) (render_initial exec en inp r)
    (\<lambda>(vcl, path, r') s. open_ok False s \<and> rendered_ok exec en c inp vcl r' s) (open_ok False)"
proof -
  obtain v r' where v: "Render exec inp r = (v, r')" by (metis surj_pair)
  have r': "fresh_renderer en c r'" "rendered exec inp r' = v"
    using Render_keeps [OF v] assms rendered_Render [OF v] Render_fst [OF v] by (simp_all add: fresh_renderer_def)
  show ?thesis
  proof (cases "v = None \<or> fst (writeInitialVCLFile (en_vcl_file en)) = None")
    case True
    then have "render_initial exec en inp r = quit 1"
      by (auto simp: render_initial_def v split: prod.split option.split)
    then show ?thesis by (auto intro: triple_quit)
  next
    case False
    then obtain vcl path b where f: "v = Some vcl" "writeInitialVCLFile (en_vcl_file en) = (Some path, b)"
      by (cases "writeInitialVCLFile (en_vcl_file en)") auto
    have run: "render_initial exec en inp r (tr, ds) = (Go (vcl, path, r'), (tr @ [VCLWritten vcl], VCLRemoved # ds))" for tr ds
      using f by (simp add: render_initial_def v seq_def effect_def deferred_def go_def)
    have "open_ok False (tr @ [VCLWritten vcl], VCLRemoved # ds)" if "open_ok False (tr, ds)" for tr ds
      using that by (rule open_ok_acquire) simp
    then show ?thesis using run r' f(1) by (simp add: triple_def rendered_ok_def split_paired_all)
  qed
qed

text \<open>The command line of varnishd after the registration of the signals and the file.\<close>

definition spawned_ok :: "config \<Rightarrow> string \<Rightarrow> string \<Rightarrow> run_state \<Rightarrow> bool" where
  "spawned_ok c vcl path s \<longleftrightarrow> (\<exists>a b. fst s =
     a @ [SignalsNotified, VarnishdSpawned (start_args (map la_Raw (cf_ListenAddrs c)) path (cf_ExtraVarnishd c))] @ b \<and>
     VCLWritten vcl \<in> set a)"

lemma open_ok_spawn:
  assumes "open_ok False (tr, ds)"
  shows "open_ok True (tr @ [SignalsNotified, VarnishdSpawned args], ds)"
    and "open_ok False (tr @ [SignalsNotified, VarnishdSpawned args, VarnishdReaped], ds)"
    and "open_ok True (tr @ [SignalsNotified, VarnishdSpawned args], TLSDirRemoved # ds)"
  using assms by (simp_all add: open_ok_def matched_def releases_append runs_after_def) (simp_all add: releases_def List.map_filter_def)

lemma start_varnishd_ok:
  "triple (\<lambda>s. open_ok False s \<and> VCLWritten vcl \<in> set (fst s)) (start_varnishd en c major path)
     (\<lambda>_ s. open_ok True s \<and> spawned_ok c vcl path s) (open_ok False)"
proof -
  let ?args = "start_args (map la_Raw (cf_ListenAddrs c)) path (cf_ExtraVarnishd c)"
  obtain err v spawned killed where st: "start major (en_version en) (en_spawn en) (en_pings en)
      (map la_Raw (cf_ListenAddrs c)) path (cf_ExtraVarnishd c) = (err, v, spawned, killed)" by (metis surj_pair)
  note run = start_varnishd_def st go_def seq_def effect_def deferred_def quit_def effects_run
  have spawn: "spawned = None \<or> spawned = Some ?args"
    using st by (auto simp: start_def Let_def split: option.splits admin_result.splits)
  consider "err = None" "spawned = Some ?args" "\<not> killed" | "err \<noteq> None" "spawned = None" "\<not> killed"
    | "err \<noteq> None" "spawned = Some ?args" "killed"
    using start_outcome [OF st] spawn by blast
  then show ?thesis
  proof cases
    case 1
    have "spawned_ok c vcl path (tr @ [SignalsNotified, VarnishdSpawned ?args], ds')" if "VCLWritten vcl \<in> set tr" for tr ds'
      unfolding spawned_ok_def using that by (intro exI [of _ tr] exI [of _ "[]"]) simp
    then show ?thesis using 1 open_ok_spawn(3) by (auto simp: triple_def run split_paired_all)
  next
    case 2
    have "open_ok False (tr @ [SignalsNotified], ds)" if "open_ok False (tr, ds)" for tr ds
      using that by (rule open_ok_quiet) simp
    then show ?thesis using 2 by (auto simp: triple_def run split_paired_all)
  next
    case 3
    then show ?thesis using open_ok_spawn(2) by (auto simp: triple_def run split_paired_all)
  qed
qed

text \<open>The certificates: each with material is loaded, behind the registration of every key.\<close>

definition certs_ok :: "config \<Rightarrow> (string \<times> tls_cert_data) list \<Rightarrow> run_state \<Rightarrow> bool" where
  "certs_ok c tls s \<longleftrightarrow>
     list_all (\<lambda>name. tls_Empty (cert_of tls name) \<or> CertInstalled name \<in> set (fst s)) (map ts_Name (cf_TLSCerts c)) \<and>
     list_all (\<lambda>(name, _). KeyRegistered name \<in> set (fst s)) tls"

lemma loadInitialTLSCerts_all:
  "loadInitialTLSCerts load names tls s = (loaded, False, s') \<Longrightarrow>
     list_all (\<lambda>name. tls_Empty (tls name) \<or> name \<in> set loaded) names"
  by (induction names arbitrary: s loaded) (fastforce split: prod.splits option.splits if_splits simp: list_all_iff)+

lemma open_ok_reap: "open_ok up (tr, ds) \<Longrightarrow> open_ok False (tr @ [VarnishdReaped], ds)"
  by (simp add: open_ok_def matched_def releases_append runs_after_def) (simp add: releases_def List.map_filter_def)

lemma spawned_ok_append: "spawned_ok c vcl path (tr, ds) \<Longrightarrow> spawned_ok c vcl path (tr @ es, ds')"
  unfolding spawned_ok_def by (fastforce simp: append_assoc)

lemma load_certs_ok:
  "triple (\<lambda>s. open_ok True s \<and> spawned_ok c vcl path s) (load_certs en c major tls recorder)
     (\<lambda>_ s. open_ok True s \<and> spawned_ok c vcl path s \<and> certs_ok c tls s) (open_ok False)"
proof -
  let ?s0 = "(\<lparr>tl_major = major, tl_CertIDs = fmempty, tl_CertDir = None, tl_PendingDiscards = [], tl_active = None\<rparr>, en_world en)"
  let ?keys = "map (\<lambda>(name, _). KeyRegistered name) tls"
  obtain loaded killed s' where ld: "loadInitialTLSCerts (load_cert en) (map ts_Name (cf_TLSCerts c)) (cert_of tls) ?s0 =
      (loaded, killed, s')" by (metis surj_pair)
  note run = load_certs_def ld go_def seq_def effect_def quit_def effects_run
  have qk: "list_all quiet (?keys @ map CertInstalled loaded)" by (auto simp: list_all_iff)
  show ?thesis
  proof (cases killed)
    case True
    have "open_ok False (((tr @ ?keys) @ map CertInstalled loaded) @ [VarnishdReaped], ds)" if "open_ok True (tr, ds)" for tr ds
      using open_ok_reap [OF open_ok_quiet [OF that qk]] by simp
    then show ?thesis using True by (auto simp: triple_def run)
  next
    case False
    let ?ev = "if loaded \<noteq> [] \<and> recorder then [EventEmitted ''TLSCertLoaded''] else []"
    have qe: "list_all quiet (?keys @ map CertInstalled loaded @ ?ev)" by (auto simp: list_all_iff)
    have certs: "certs_ok c tls (tr @ ?keys @ map CertInstalled loaded @ ?ev, ds)" for tr ds
      using loadInitialTLSCerts_all [of "load_cert en" "map ts_Name (cf_TLSCerts c)" "cert_of tls" ?s0 loaded s'] ld False
      by (force simp: certs_ok_def list_all_iff)
    have "load_certs en c major tls recorder (tr, ds) = (Go (), (tr @ ?keys @ map CertInstalled loaded @ ?ev, ds))" for tr ds
      using False by (simp add: run)
    then show ?thesis
      by (rule triple_trace) (use open_ok_quiet [OF _ qe] spawned_ok_append certs in blast)
  qed
qed

text \<open>The pod is marked as up behind all of this.\<close>

definition marked_ok :: "config \<Rightarrow> (string \<times> tls_cert_data) list \<Rightarrow> string \<Rightarrow> string \<Rightarrow> effect list \<Rightarrow> bool" where
  "marked_ok c tls vcl path tr \<longleftrightarrow> (\<exists>pre post. tr = pre @ MarkedUp # post \<and> runs_after pre \<and>
     spawned_ok c vcl path (pre, []) \<and> certs_ok c tls (pre, []) \<and> list_all quiet post)"

lemma mark_up_run:
  "mark_up c recorder (tr, ds) = (Go (), (tr @ MarkedUp # (if recorder then [EventEmitted ''VCLReloaded''] else []) @
     (if cf_VarnishncsaEnabled c then [NCSAStarted (cf_VarnishncsaPath c) (buildNCSAArgs c) (cf_VarnishncsaPrefix c)] else []), ds))"
  by (simp add: mark_up_def seq_def effect_def go_def)

definition up_ok :: "config \<Rightarrow> (string \<times> tls_cert_data) list \<Rightarrow> string \<Rightarrow> string \<Rightarrow> run_state \<Rightarrow> bool" where
  "up_ok c tls vcl path s \<longleftrightarrow> matched s \<and> runs_after (fst s) \<and> LoopRan \<notin> set (fst s) \<and> marked_ok c tls vcl path (fst s) \<and>
     set (snd s) \<subseteq> {MetricsShutDown, EventsFlushed, WatchersCancelled, VCLRemoved, TLSDirRemoved}"

lemma mark_up_ok:
  "triple (\<lambda>s. open_ok True s \<and> spawned_ok c vcl path s \<and> certs_ok c tls s) (mark_up c recorder)
     (\<lambda>_. up_ok c tls vcl path) (open_ok False)"
proof -
  let ?post = "(if recorder then [EventEmitted ''VCLReloaded''] else []) @
     (if cf_VarnishncsaEnabled c then [NCSAStarted (cf_VarnishncsaPath c) (buildNCSAArgs c) (cf_VarnishncsaPrefix c)] else [])"
  have q: "list_all quiet ?post" by simp
  have "up_ok c tls vcl path (tr @ MarkedUp # ?post, ds)"
    if a: "open_ok True (tr, ds)" "spawned_ok c vcl path (tr, ds)" "certs_ok c tls (tr, ds)" for tr ds
  proof -
    have "marked_ok c tls vcl path (tr @ MarkedUp # ?post)"
      unfolding marked_ok_def using a q by (intro exI [of _ tr] exI [of _ ?post]) (auto simp: open_ok_def spawned_ok_def certs_ok_def)
    moreover have "runs_after ((tr @ [MarkedUp]) @ ?post)"
      unfolding runs_after_quiet [OF q] using a(1) by (simp add: runs_after_def open_ok_def)
    moreover have "releases (tr @ MarkedUp # ?post) = releases tr"
      using releases_append [of tr "[MarkedUp]"] releases_append [of "tr @ [MarkedUp]" ?post] releases_quiet [OF q]
      by (simp add: releases_def List.map_filter_def)
    ultimately show ?thesis using a(1) q by (auto simp: up_ok_def open_ok_def matched_def)
  qed
  then show ?thesis by (simp add: triple_def mark_up_run split_paired_all)
qed

section \<open>The whole start\<close>

lemma triple_pure: "(A \<Longrightarrow> triple P m Q R) \<Longrightarrow> triple (\<lambda>s. P s \<and> A) m Q R"
  by (simp add: triple_def)

text \<open>The state the loop is entered in.\<close>

definition entered_ok :: "('t \<Rightarrow> template_data \<Rightarrow> string option) \<Rightarrow> (string \<Rightarrow> 'h) \<Rightarrow> ('t, 'w) start_env \<Rightarrow> config \<Rightarrow>
    loop_config \<times> ('t, 'h) loop_state \<Rightarrow> run_state \<Rightarrow> bool" where
  "entered_ok exec H en c l s \<longleftrightarrow> (\<exists>inp tls r vcl path. l = (loop_config_of c, loop_init H inp tls r vcl (cf_BroadcastAddr c \<noteq> [])) \<and>
     rendered exec inp r = Some vcl \<and> fresh_renderer en c r \<and> collected en c inp tls \<and> up_ok c tls vcl path s)"

lemma loop_entry_ok:
  assumes "collected en c inp tls" and "rendered exec inp r = Some vcl" and "fresh_renderer en c r"
  shows "triple (\<lambda>s. open_ok False s \<and> VCLWritten vcl \<in> set (fst s))
    (seq (start_varnishd en c major path) (\<lambda>_. seq (load_certs en c major tls recorder) (\<lambda>_. seq (mark_up c recorder)
      (\<lambda>_. go (loop_config_of c, loop_init H inp tls r vcl (cf_BroadcastAddr c \<noteq> []))))))
    (entered_ok exec H en c) (open_ok False)"
  by (intro triple_seq [OF start_varnishd_ok] triple_seq [OF load_certs_ok] triple_seq [OF mark_up_ok] triple_go)
    (use assms in \<open>unfold entered_ok_def, blast\<close>)

lemma startup_ok: "triple (open_ok False) (startup exec H en c) (entered_ok exec H en c) (open_ok False)"
proof -
  let ?tail = "\<lambda>major recorder inp tls (vcl, path, r'). seq (start_varnishd en c major path) (\<lambda>_.
     seq (load_certs en c major tls recorder) (\<lambda>_. seq (mark_up c recorder) (\<lambda>_.
     go (loop_config_of c, loop_init H inp tls r' vcl (cf_BroadcastAddr c \<noteq> [])))))"
  have 1: "collected en c inp tls \<Longrightarrow> triple (\<lambda>s. open_ok False s \<and> rendered_ok exec en c inp vcl r' s) (?tail major recorder inp tls (vcl, path, r'))
      (entered_ok exec H en c) (open_ok False)" for major recorder inp tls vcl path r'
  proof -
    assume complete: "collected en c inp tls"
    have "triple (\<lambda>s. (open_ok False s \<and> VCLWritten vcl \<in> set (fst s)) \<and> (rendered exec inp r' = Some vcl \<and> fresh_renderer en c r'))
      (?tail major recorder inp tls (vcl, path, r')) (entered_ok exec H en c) (open_ok False)"
      by (rule triple_pure) (simp add: loop_entry_ok complete)
    then show ?thesis by (rule triple_weaken) (simp add: rendered_ok_def)
  qed
  have 2: "triple (open_ok False) (seq (start_broadcast en c inp) (\<lambda>_. seq (render_initial exec en inp r)
      (?tail major recorder inp tls))) (entered_ok exec H en c) (open_ok False)" if "fresh_renderer en c r" "collected en c inp tls" for major recorder r inp tls
  proof (rule triple_seq [OF start_broadcast_ok], rule triple_seq [OF render_initial_ok [OF that(1)]])
    fix x :: "string \<times> string \<times> 'a renderer"
    obtain vcl path r' where "x = (vcl, path, r')" by (metis surj_pair)
    then show "triple (case x of (vcl, path, r') \<Rightarrow> \<lambda>s. open_ok False s \<and> rendered_ok exec en c inp vcl r' s)
        (?tail major recorder inp tls x) (entered_ok exec H en c) (open_ok False)" using 1 [OF that(2)] by simp
  qed
  have 3: "triple (\<lambda>s. open_ok False s \<and> fresh_renderer en c r) (seq (collect_initial en c) (\<lambda>(inp, tls).
      seq (start_broadcast en c inp) (\<lambda>_. seq (render_initial exec en inp r) (?tail major recorder inp tls))))
      (entered_ok exec H en c) (open_ok False)" for major recorder and r :: "'a renderer"
  proof (rule triple_pure, rule triple_seq [OF collect_initial_ok], assumption)
    fix x :: "inputs \<times> (string \<times> tls_cert_data) list"
    assume r: "fresh_renderer en c r"
    obtain inp tls where "x = (inp, tls)" by (metis surj_pair)
    then show "triple (case x of (inp, tls) \<Rightarrow> \<lambda>s. open_ok False s \<and> collected en c inp tls)
        (case x of (inp, tls) \<Rightarrow> seq (start_broadcast en c inp) (\<lambda>_. seq (render_initial exec en inp r) (?tail major recorder inp tls)))
        (entered_ok exec H en c) (open_ok False)" using 2 [OF r] by (auto intro: triple_pure)
  qed
  show ?thesis
    unfolding startup_def
  proof (rule triple_seq [OF start_metrics_ok], rule triple_seq [OF start_recorder_ok], rule triple_seq [OF start_manager_ok])
    fix u recorder and x :: "int \<times> 'a renderer"
    show "triple (case x of (major, r) \<Rightarrow> \<lambda>s. open_ok False s \<and> fresh_renderer en c r)
      (case x of (major, r) \<Rightarrow> seq (collect_initial en c) (\<lambda>(inp, tls). seq (start_broadcast en c inp) (\<lambda>_.
        seq (render_initial exec en inp r) (?tail major recorder inp tls)))) (entered_ok exec H en c) (open_ok False)"
      using 3 by (cases x) simp
  qed
qed

lemma tripleD:
  assumes "triple P m Q R" and "P s" and "m s = (out, s')"
  shows "case out of Go x \<Rightarrow> Q x s' | _ \<Rightarrow> R s'"
proof -
  note fact = assms(1) [unfolded triple_def, rule_format, OF assms(2), unfolded assms(3) prod.case]
  show ?thesis using fact by (cases out) simp_all
qed

lemma startup_from_nothing:
  assumes "startup exec H en c ([], []) = (out, s')"
  shows "case out of Go l \<Rightarrow> entered_ok exec H en c l s' | _ \<Rightarrow> open_ok False s'"
proof -
  have "open_ok False ([], [])" by (simp add: open_ok_def matched_def releases_def runs_after_def List.map_filter_def)
  from tripleD [OF startup_ok this assms] show ?thesis .
qed

text \<open>The three ways \<open>run\<close> ends behind accepted flags.\<close>

lemma run_cases:
  assumes "run exec H en loop (Inr c) = (code, tr)"
  obtains l tr0 ds where "tr = tr0 @ [LoopRan] @ ds" "code = Some (loop l)" "entered_ok exec H en c l (tr0, ds)"
  | k tr0 ds where "tr = tr0 @ ds" "code = Some k" "open_ok False (tr0, ds)"
  | ds where "code = None" "open_ok False (tr, ds)"
proof -
  obtain out tr0 ds where s: "startup exec H en c ([], []) = (out, (tr0, ds))" by (metis surj_pair)
  show ?thesis
    using startup_from_nothing [OF s] assms s that by (cases out) (auto simp: run_def)
qed

lemma releases_loop: "releases (tr @ [LoopRan]) = releases tr"
  by (simp add: releases_append) (simp add: releases_def List.map_filter_def)



text \<open>What the loop is entered with satisfies the assumptions of the loop's invariant.\<close>

lemma startup_enters_loop:
  assumes "startup exec H en c ([], []) = (Go (cf, st0), s')"
  obtains inp tls r vcl where "st0 = loop_init H inp tls r vcl (cf_BroadcastAddr c \<noteq> [])" "cf = loop_config_of c"
    "rendered exec inp r = Some vcl" "fresh_renderer en c r" "collected en c inp tls" "VCLWritten vcl \<in> set (fst s')"
proof -
  obtain inp tls r vcl path where l: "st0 = loop_init H inp tls r vcl (cf_BroadcastAddr c \<noteq> [])" "cf = loop_config_of c"
    "rendered exec inp r = Some vcl" "fresh_renderer en c r" "collected en c inp tls" "up_ok c tls vcl path s'"
    using startup_from_nothing [OF assms] by (auto simp: entered_ok_def)
  have "VCLWritten vcl \<in> set (fst s')"
    using l(6) by (auto simp: up_ok_def marked_ok_def spawned_ok_def)
  then show ?thesis using l that by blast
qed

section \<open>A start that succeeds\<close>

definition first_inputs :: inputs where
  "first_inputs = \<lparr>in_Frontends = Some [], 
     in_Backends = fmupd ''app'' \<lparr>bg_Endpoints = None, bg_Labels = fmempty, bg_Annotations = fmempty\<rparr> fmempty,
     in_Values = fmupd ''site'' [] fmempty, in_Secrets = fmempty\<rparr>"

definition first_values :: first_sends where
  "first_values = \<lparr>fs_frontends = Some [], fs_backends = (\<lambda>_. \<lparr>bs_Endpoints = None, bs_Labels = fmempty, bs_Annotations = fmempty\<rparr>), fs_discovered = undefined, fs_values = (\<lambda>_. []),
     fs_dirs = undefined, fs_secrets = undefined, fs_tls = undefined\<rparr>"

definition echo_template :: "string \<Rightarrow> template_data \<Rightarrow> string option" where
  "echo_template t d = Some t"

definition sample_start :: "(string, unit) start_env" where
  "sample_start = \<lparr>en_metrics_listens = True, en_client = True, en_POD_NAME = ''cache-0'', en_POD_NAMESPACE = ''web'',
     en_sa_namespace = None, en_pod = Some (Some 90), en_NODE_NAME = [], en_node = (\<lambda>_. None),
     en_version = Some ''varnish-trunk'', en_template = Some ''vcl 4.1;'', en_initial = [Collected first_values],
     en_broadcast_listens = True, en_vcl_file = \<lparr>fa_path = Some ''/tmp/a.vcl'', fa_write = True, fa_close = True\<rparr>,
     en_spawn = (\<lambda>_. None), en_pings = [(False, PingFailed), (False, PingAnswered)],
     en_cli = (\<lambda>_ w. (([], None), w)), en_load = undefined, en_world = ()\<rparr>"

abbreviation "sample_flags \<equiv> (minimal_accepted ''cache'' ''web'' ''/t.vcl'')
  \<lparr>cf_Backends := [\<lparr>bs_Name = ''app'', bs_ServiceName = ''app'', bs_Port = ''8080'', bs_Namespace = ''web''\<rparr>],
    cf_Values := [\<lparr>vs_Name = ''site'', vs_ConfigMapName = ''site'', vs_Namespace = ''web''\<rparr>]\<rparr>"

lemma sample_flag_fields:
  "cf_MetricsAddr sample_flags = '':9101''" "cf_TLSCerts sample_flags = []" "cf_VarnishstatExport sample_flags = False"
  "cf_Drain sample_flags = False" "cf_Zone sample_flags = []" "cf_BroadcastAddr sample_flags = '':8088''"
  "cf_BroadcastTargetPort sample_flags = 8080" "cf_ListenAddrs sample_flags = [default_listener]"
  "cf_ExtraVarnishd sample_flags = []" "cf_VarnishncsaEnabled sample_flags = False"
  "cf_Backends sample_flags = [\<lparr>bs_Name = ''app'', bs_ServiceName = ''app'', bs_Port = ''8080'', bs_Namespace = ''web''\<rparr>]"
  "cf_BackendSelectors sample_flags = []" "cf_Values sample_flags = [\<lparr>vs_Name = ''site'', vs_ConfigMapName = ''site'', vs_Namespace = ''web''\<rparr>]"
 
  "cf_ValuesDirs sample_flags = []" "cf_Secrets sample_flags = []"
  by (simp_all add: minimal_accepted_def minimal_checked_def minimal_config_def default_defs)

lemma sample_version: "DetectVersion ''varnish-trunk'' = Some 99"
  by (simp add: DetectVersion_def trunk_here_def trunkMajorVersion_def after_name_def strip_prefix_def)

lemma sample_metrics: "setupMetricsServer True sample_flags = Inr (Some ''localhost:8080'')"
  by (simp add: setupMetricsServer_def sample_flag_fields readyzDialAddr_def default_listener_def joinHostPort_def show_int_def
      show_nat.simps digit_char_def char_of_def of_bool_def bit_0 Let_def)

lemma sample_collected: "collect_sources sample_flags first_values = (first_inputs, [])"
  by (simp add: collect_sources_def by_name_def group_of_state_def first_values_def first_inputs_def sample_flag_fields)

lemma seq_Go: "m s = (Go x, s') \<Longrightarrow> seq m f s = f x s'"
  by (simp add: seq_def)

lemma sample_steps:
  "start_metrics sample_start sample_flags s = (Go (), (fst s @ [MetricsListening ''localhost:8080''], MetricsShutDown # snd s))"
  "\<exists>e. start_recorder sample_start sample_flags s = (Go True, e)"
  "start_manager sample_start sample_flags s = (Go (99, new_renderer ''vcl 4.1;''), s)"
  "collect_initial sample_start sample_flags s = (Go (first_inputs, []), (fst s @ [WatchersStarted (watched_sources sample_flags)], WatchersCancelled # snd s))"
  "\<exists>e. start_broadcast sample_start sample_flags first_inputs s = (Go (), e)"
  "\<exists>e. start_varnishd sample_start sample_flags 99 ''/tmp/a.vcl'' s = (Go (), e)"
  "load_certs sample_start sample_flags 99 [] True s = (Go (), s)"
  "\<exists>e. mark_up sample_flags True s = (Go (), e) \<and> MarkedUp \<in> set (fst e)"
  by (cases s; simp add: start_metrics_def start_recorder_def start_manager_def collect_initial_def start_broadcast_def
      start_varnishd_def start_def load_certs_def mark_up_run sample_start_def sample_version sample_metrics sample_collected sample_flag_fields local_zone_def
      detectLocalZone_def seq_def go_def effect_def deferred_def quit_def effects_run Let_def)+

lemma sample_render:
  "render_initial echo_template sample_start first_inputs (new_renderer ''vcl 4.1;'') s =
     (Go (''vcl 4.1;'', ''/tmp/a.vcl'', new_renderer ''vcl 4.1;''), (fst s @ [VCLWritten ''vcl 4.1;''], VCLRemoved # snd s))"
proof -
  have "Render echo_template first_inputs (new_renderer ''vcl 4.1;'') = (Some ''vcl 4.1;'', new_renderer ''vcl 4.1;'')"
    by (simp add: Render_def echo_template_def new_renderer_def)
  then show ?thesis
    by (simp add: render_initial_def writeInitialVCLFile_def sample_start_def seq_def go_def effect_def deferred_def)
qed

abbreviation "sample_loop \<equiv> loop_init id first_inputs [] (new_renderer ''vcl 4.1;'') ''vcl 4.1;'' True"

lemma sample_startup:
  obtains tr ds where "startup echo_template id sample_start sample_flags ([], []) =
     (Go (loop_config_of sample_flags, sample_loop), (tr, ds))" and "MarkedUp \<in> set tr"
proof -
  obtain s2 where 2: "start_recorder sample_start sample_flags ([MetricsListening ''localhost:8080''], [MetricsShutDown]) = (Go True, s2)"
    using sample_steps(2) by blast
  let ?s3 = "(fst s2 @ [WatchersStarted (watched_sources sample_flags)], WatchersCancelled # snd s2)"
  obtain s4 where 4: "start_broadcast sample_start sample_flags first_inputs ?s3 = (Go (), s4)"
    using sample_steps(5) by blast
  let ?s5 = "(fst s4 @ [VCLWritten ''vcl 4.1;''], VCLRemoved # snd s4)"
  obtain s6 where 6: "start_varnishd sample_start sample_flags 99 ''/tmp/a.vcl'' ?s5 = (Go (), s6)"
    using sample_steps(6) by blast
  obtain s7 where 7: "mark_up sample_flags True s6 = (Go (), s7)" "MarkedUp \<in> set (fst s7)"
    using sample_steps(8) by blast
  have "startup echo_template id sample_start sample_flags ([], []) = (Go (loop_config_of sample_flags, sample_loop), s7)"
    by (simp add: startup_def seq_Go sample_steps(1,3,4,7) sample_render 2 4 6 7(1) sample_flag_fields go_def)
  then show ?thesis using 7(2) that by (cases s7) simp
qed

lemma sample_run:
  obtains tr where "run echo_template id sample_start (\<lambda>_. 0) (Inr sample_flags) = (Some 0, tr)" "MarkedUp \<in> set tr"
proof -
  obtain tr ds where "startup echo_template id sample_start sample_flags ([], []) =
     (Go (loop_config_of sample_flags, sample_loop), (tr, ds))" "MarkedUp \<in> set tr" by (rule sample_startup)
  then show ?thesis by (intro that [of "tr @ [LoopRan] @ ds"]) (simp_all add: run_def)
qed



end
