(* ===== verification/FileWatch.thy ===== *)
theory FileWatch
  imports Config Prelude
begin

text \<open>
  The ways changes take to the event loop in \<open>main.go\<close>: \<open>watchFile\<close> and \<open>startTemplateWatch\<close> poll the VCL
  template, \<open>startValuesDirWatchers\<close> and \<open>wireValuesFanIn\<close> choose which values sources stay live, and the
  goroutines of the fan-ins forward the sends of many watchers into one channel.
\<close>

section \<open>Watching the template file\<close>

text \<open>The variables of the goroutine: what was read last, and whether the channel of capacity one is full.\<close>

record file_watch =
  fw_last :: string
  fw_ch :: bool

text \<open>
  The start of the polling; without a baseline the file is read again. \<open>None\<close> is an unreadable file, whose
  \<open>nil\<close> compares as the empty text.
\<close>

definition watchFile :: "string option \<Rightarrow> string option \<Rightarrow> file_watch" where
  "watchFile baseline file =
     \<lparr>fw_last = (case baseline of Some b \<Rightarrow> b | None \<Rightarrow> (case file of Some raw \<Rightarrow> raw | None \<Rightarrow> [])), fw_ch = False\<rparr>"

definition watchFile_tick :: "string option \<Rightarrow> file_watch \<Rightarrow> file_watch" where
  "watchFile_tick file w =
     (case file of
        None \<Rightarrow> w
      | Some current \<Rightarrow> if fw_last w \<noteq> current then w\<lparr>fw_last := current, fw_ch := True\<rparr> else w)"

definition startTemplateWatch :: "config \<Rightarrow> string option \<Rightarrow> string option \<Rightarrow> file_watch option" where
  "startTemplateWatch c baseline file = (if \<not> cf_FileWatch c then None else Some (watchFile baseline file))"

text \<open>
  The file, its poller and the event loop, which notes a signal and reads the template at its next reload;
  between the two, and between two polls, the file may be written.
\<close>

record template_world =
  tw_file :: string
  tw_watch :: file_watch
  tw_changed :: bool
  tw_read :: string

datatype template_op = WriteFile string | Poll bool | TakeSignal | ReadTemplate bool

fun template_step :: "template_op \<Rightarrow> template_world \<Rightarrow> template_world" where
  "template_step (WriteFile content) tw = tw\<lparr>tw_file := content\<rparr>"
| "template_step (Poll readable) tw = tw\<lparr>tw_watch := watchFile_tick (if readable then Some (tw_file tw) else None) (tw_watch tw)\<rparr>"
| "template_step TakeSignal tw =
     (if fw_ch (tw_watch tw) then tw\<lparr>tw_watch := (tw_watch tw)\<lparr>fw_ch := False\<rparr>, tw_changed := True\<rparr> else tw)"
| "template_step (ReadTemplate readable) tw =
     (if \<not> tw_changed tw then tw
      else if readable then tw\<lparr>tw_changed := False, tw_read := tw_file tw\<rparr> else tw\<lparr>tw_changed := False\<rparr>)"

definition template_run :: "template_op list \<Rightarrow> template_world \<Rightarrow> template_world" where
  "template_run ops tw = fold template_step ops tw"

text \<open>
  The start: \<open>early\<close> is written between the baseline and the parse of the renderer, \<open>late\<close> between the
  parse and the first poll.
\<close>

definition template_start :: "string \<Rightarrow> string list \<Rightarrow> string list \<Rightarrow> template_world" where
  "template_start content early late =
     (let parsed = last (content # early)
      in \<lparr>tw_file = last (parsed # late), tw_watch = watchFile (Some content) (Some (last (parsed # late))),
          tw_changed = False, tw_read = parsed\<rparr>)"

fun written :: "template_op list \<Rightarrow> string list" where
  "written [] = []"
| "written (WriteFile content # ops) = content # written ops"
| "written (op # ops) = written ops"

text \<open>
  Over the history of the file, oldest first: the loop has read a content at least as new as the one the
  poller read last, unless a change is signalled or noted.
\<close>

definition template_inv :: "string list \<Rightarrow> template_world \<Rightarrow> bool" where
  "template_inv hist tw \<longleftrightarrow> hist \<noteq> [] \<and> tw_file tw = last hist \<and>
     (\<exists>i j. i < length hist \<and> j < length hist \<and> hist ! i = fw_last (tw_watch tw) \<and> hist ! j = tw_read tw \<and>
        (i \<le> j \<or> fw_ch (tw_watch tw) \<or> tw_changed tw))"

lemma template_inv_at:
  assumes "hist \<noteq> []" and "tw_file tw = last hist" and "i < length hist" and "j < length hist"
    and "hist ! i = fw_last (tw_watch tw)" and "hist ! j = tw_read tw"
    and "i \<le> j \<or> fw_ch (tw_watch tw) \<or> tw_changed tw"
  shows "template_inv hist tw"
  using assms unfolding template_inv_def by blast

lemma template_inv_newest:
  assumes "template_inv hist tw" and "tw_file tw' = tw_file tw" and "tw_read tw' = tw_file tw"
    and "fw_last (tw_watch tw') = fw_last (tw_watch tw)"
  shows "template_inv hist tw'"
proof -
  obtain i where i: "hist \<noteq> []" "tw_file tw = last hist" "i < length hist" "hist ! i = fw_last (tw_watch tw)"
    using assms(1) by (auto simp: template_inv_def)
  show ?thesis
    by (rule template_inv_at [where i = i and j = "length hist - 1"]) (use i assms(2-4) in \<open>auto simp: last_conv_nth\<close>)
qed

lemma template_step_inv:
  assumes "template_inv hist tw" and "op \<noteq> ReadTemplate False"
  shows "template_inv (hist @ written [op]) (template_step op tw)"
proof -
  obtain i j where ij: "hist \<noteq> []" "tw_file tw = last hist" "i < length hist" "j < length hist"
    "hist ! i = fw_last (tw_watch tw)" "hist ! j = tw_read tw" "i \<le> j \<or> fw_ch (tw_watch tw) \<or> tw_changed tw"
    using assms unfolding template_inv_def by blast
  show ?thesis
  proof (cases op)
    case (WriteFile content)
    show ?thesis
      by (rule template_inv_at [where i = i and j = j]) (use ij WriteFile in \<open>auto simp: nth_append\<close>)
  next
    case (Poll readable)
    show ?thesis
    proof (cases "readable \<and> fw_last (tw_watch tw) \<noteq> tw_file tw")
      case True
      show ?thesis
        by (rule template_inv_at [where i = "length hist - 1" and j = j])
          (use ij Poll True in \<open>auto simp: watchFile_tick_def last_conv_nth\<close>)
    next
      case False
      then have "template_step op tw = tw" using Poll by (auto simp: watchFile_tick_def)
      then show ?thesis using assms(1) Poll by simp
    qed
  next
    case TakeSignal
    show ?thesis
      by (rule template_inv_at [where i = i and j = j]) (use ij TakeSignal in auto)
  next
    case (ReadTemplate readable)
    then show ?thesis using assms template_inv_newest [OF assms(1)] by simp
  qed
qed

lemma template_run_inv:
  assumes "template_inv hist tw" and "ReadTemplate False \<notin> set ops"
  shows "template_inv (hist @ written ops) (template_run ops tw)"
  using assms
proof (induction ops arbitrary: hist tw)
  case (Cons op ops)
  have "written (op # ops) = written [op] @ written ops" by (cases op) simp_all
  then show ?case
    using Cons.IH [OF template_step_inv [OF Cons.prems(1), of op]] Cons.prems(2) by (auto simp: template_run_def)
qed (simp add: template_run_def)

lemma template_start_inv: "template_inv (content # early @ late) (template_start content early late)"
proof -
  let ?j = "length early"
  have "(content # early @ late) ! ?j = last (content # early)"
    by (metis append_Cons last_conv_nth length_Cons lessI list.distinct(1) diff_Suc_1 nth_append)
  then show ?thesis
    by (intro template_inv_at [where i = 0 and j = ?j]) (auto simp: template_start_def watchFile_def Let_def last_append)
qed

lemma template_polled:
  assumes "template_inv hist tw" and "distinct hist" and "fw_last (tw_watch tw) = tw_file tw"
  shows "fw_ch (tw_watch tw) \<or> tw_changed tw \<or> tw_read tw = tw_file tw"
proof -
  obtain i j where ij: "tw_file tw = last hist" "i < length hist" "j < length hist" "hist \<noteq> []"
    "hist ! i = fw_last (tw_watch tw)" "hist ! j = tw_read tw" "i \<le> j \<or> fw_ch (tw_watch tw) \<or> tw_changed tw"
    using assms(1) unfolding template_inv_def by blast
  then have "hist ! i = hist ! (length hist - 1)" using assms(3) by (simp add: last_conv_nth)
  then have "i = length hist - 1" using assms(2) ij(2) nth_eq_iff_index_eq [of hist i "length hist - 1"] by auto
  then have "i \<le> j \<Longrightarrow> j = i" using ij(3) by simp
  then show ?thesis using ij(5-7) assms(3) by auto
qed



text \<open>
  The contents must be distinct: when a write between the poll and the read of the loop is undone, the loop
  has read a content that the file no longer holds and no poll will signal it.
\<close>

lemma undone_write_lost:
  "let tw = template_run [WriteFile ''b'', Poll True, WriteFile ''a'', TakeSignal, ReadTemplate True, WriteFile ''b'', Poll True]
       (template_start ''a'' [] [])
   in tw_file tw = ''b'' \<and> tw_read tw = ''a'' \<and> \<not> fw_ch (tw_watch tw) \<and> \<not> tw_changed tw \<and> fw_last (tw_watch tw) = ''b''"
  by (simp add: template_run_def template_start_def watchFile_def watchFile_tick_def Let_def)

section \<open>Which values sources stay live\<close>

datatype dir_watch = PolledDir | ScannedOnce

definition startValuesDirWatchers :: "config \<Rightarrow> (string \<times> dir_watch) list" where
  "startValuesDirWatchers c = map (\<lambda>d. (ds_Name d, if cf_ValuesDirWatch c then PolledDir else ScannedOnce)) (cf_ValuesDirs c)"

text \<open>The names whose sends \<open>wireValuesFanIn\<close> forwards, and the capacity of the channel; \<open>None\<close> is the \<open>nil\<close> channel.\<close>

definition wireValuesFanIn :: "config \<Rightarrow> string list \<Rightarrow> string list \<Rightarrow> (string list \<times> nat) option" where
  "wireValuesFanIn c vwNames fvwNames =
     (let fvwCount = (if \<not> cf_ValuesDirWatch c then 0 else length fvwNames)
      in if vwNames = [] \<and> fvwCount = 0 then None
         else Some (vwNames @ (if cf_ValuesDirWatch c then fvwNames else []), length vwNames + fvwCount))"

text \<open>Every source that sends more than its initial value is forwarded, and no other directory.\<close>

lemma fan_in_wired:
  "(case wireValuesFanIn c (map vs_Name (cf_Values c)) (map fst (startValuesDirWatchers c)) of
      None \<Rightarrow> [] | Some (names, _) \<Rightarrow> names) =
   map vs_Name (cf_Values c) @ map fst (filter (\<lambda>(_, w). w = PolledDir) (startValuesDirWatchers c))"
  by (auto simp: wireValuesFanIn_def startValuesDirWatchers_def Let_def comp_def filter_map)

section \<open>Forwarding into one channel\<close>

text \<open>
  The goroutines of a fan-in, one per source: each holds at most one change between its receive and its
  send; the shared channel has a capacity. \<open>fi_taken\<close> is what the goroutines received from the watchers and
  \<open>fi_done\<close> what the event loop received, oldest first.
\<close>

record 'v fan_in =
  fi_cap :: nat
  fi_held :: "(string \<times> 'v) list"
  fi_chan :: "(string \<times> 'v) list"
  fi_taken :: "(string \<times> 'v) list"
  fi_done :: "(string \<times> 'v) list"

datatype 'v fan_op = TakeFrom string 'v | PushFor string | LoopReceives

fun fan_step :: "'v fan_op \<Rightarrow> 'v fan_in \<Rightarrow> 'v fan_in" where
  "fan_step (TakeFrom name v) fi =
     (if map_of (fi_held fi) name = None then fi\<lparr>fi_held := fi_held fi @ [(name, v)], fi_taken := fi_taken fi @ [(name, v)]\<rparr> else fi)"
| "fan_step (PushFor name) fi =
     (case map_of (fi_held fi) name of
        None \<Rightarrow> fi
      | Some v \<Rightarrow>
          if \<not> chan_can_send (fi_cap fi) (fi_chan fi) then fi
          else fi\<lparr>fi_held := filter (\<lambda>x. fst x \<noteq> name) (fi_held fi), fi_chan := fi_chan fi @ [(name, v)]\<rparr>)"
| "fan_step LoopReceives fi =
     (case fi_chan fi of [] \<Rightarrow> fi | x # rest \<Rightarrow> fi\<lparr>fi_chan := rest, fi_done := fi_done fi @ [x]\<rparr>)"

definition fan_start :: "nat \<Rightarrow> 'v fan_in" where
  "fan_start cap = \<lparr>fi_cap = cap, fi_held = [], fi_chan = [], fi_taken = [], fi_done = []\<rparr>"

definition fan_run :: "'v fan_op list \<Rightarrow> 'v fan_in \<Rightarrow> 'v fan_in" where
  "fan_run ops fi = fold fan_step ops fi"

abbreviation of_source :: "string \<Rightarrow> (string \<times> 'v) list \<Rightarrow> (string \<times> 'v) list" where
  "of_source name \<equiv> filter (\<lambda>x. fst x = name)"

definition fan_ok :: "'v fan_in \<Rightarrow> bool" where
  "fan_ok fi \<longleftrightarrow> distinct (map fst (fi_held fi)) \<and> length (fi_chan fi) \<le> fi_cap fi \<and>
     (\<forall>name. of_source name (fi_taken fi) = of_source name (fi_done fi @ fi_chan fi @ fi_held fi))"

lemma of_source_held: "distinct (map fst held) \<Longrightarrow> map_of held name = Some v \<Longrightarrow> of_source name held = [(name, v)]"
  by (induction held) (auto simp: filter_empty_conv rev_image_eqI split: if_splits)

lemma of_source_rest:
  "of_source name (filter (\<lambda>x. fst x \<noteq> name') held) = (if name = name' then [] else of_source name held)"
  by (induction held) auto

lemma fan_step_ok:
  assumes "fan_ok fi"
  shows "fan_ok (fan_step op fi)"
proof (cases op)
  case (TakeFrom name v)
  show ?thesis
  proof (cases "map_of (fi_held fi) name")
    case None
    then have "name \<notin> fst ` set (fi_held fi)" by (simp add: map_of_eq_None_iff)
    then show ?thesis using assms TakeFrom None by (auto simp: fan_ok_def)
  qed (use assms TakeFrom in simp)
next
  case (PushFor name)
  show ?thesis
  proof (cases "map_of (fi_held fi) name")
    case (Some v)
    have "distinct (map fst (filter (\<lambda>x. fst x \<noteq> name) (fi_held fi)))"
      using assms by (simp add: fan_ok_def distinct_map_filter)
    then show ?thesis
      using assms PushFor Some of_source_held [of "fi_held fi" name v]
      by (auto simp: fan_ok_def of_source_rest chan_can_send_def simp del: filter_filter)
  qed (use assms PushFor in simp)
next
  case LoopReceives
  then show ?thesis using assms by (cases "fi_chan fi") (auto simp: fan_ok_def)
qed

text \<open>
  A fan-in neither loses nor reorders: of every source, the event loop has received a prefix of what was
  taken from its watcher, in the same order; what is missing is in the channel or held by the goroutine of
  the source, at most one change, and the channel never holds more than its capacity.
\<close>

theorem fan_in_in_order:
  "let fi = fan_run ops (fan_start cap :: 'v fan_in)
   in of_source name (fi_taken fi) = of_source name (fi_done fi) @ of_source name (fi_chan fi) @ of_source name (fi_held fi) \<and>
      length (of_source name (fi_held fi)) \<le> 1 \<and> length (fi_chan fi) \<le> cap"
proof -
  have step: "fan_ok fi \<Longrightarrow> fan_ok (fan_run ops fi) \<and> fi_cap (fan_run ops fi) = fi_cap fi" for fi :: "'v fan_in"
  proof (induction ops arbitrary: fi)
    case (Cons op ops)
    have "fi_cap (fan_step op fi) = fi_cap fi" by (cases op) (auto split: option.split list.split)
    then show ?case using Cons.IH [OF fan_step_ok [OF Cons.prems, of op]] by (simp add: fan_run_def)
  qed (simp add: fan_run_def)
  have ok: "fan_ok (fan_run ops (fan_start cap :: 'v fan_in))" "fi_cap (fan_run ops (fan_start cap :: 'v fan_in)) = cap"
    using step [of "fan_start cap"] by (simp_all add: fan_ok_def fan_start_def)
  have "length (of_source name held) \<le> 1" if "distinct (map fst held)" for held :: "(string \<times> 'v) list"
    using that by (induction held) (auto simp: filter_empty_conv rev_image_eqI)
  then show ?thesis using ok by (auto simp: fan_ok_def Let_def)
qed

end
