(* ===== verification/Pipeline.thy ===== *)
theory Pipeline
  imports FileWatch Startup ValueWatchers LoopInvariant BackendWatcher
begin

text \<open>
  From the informers to the inputs of the event loop: the watchers of many sources, the fan-in that
  \<open>wireValuesFanIn\<close> and its siblings in \<open>main.go\<close> put behind them, and the handler of \<open>runLoop\<close> that stores
  what arrives. The locale \<open>source_pipeline\<close> extends the contract of the watchers by the two laws of the
  consumer and is interpreted for ConfigMaps, Secrets and TLS Secrets.
\<close>

section \<open>The steps\<close>

text \<open>A watcher per source, the fan-in and its consumer; \<open>'e\<close> is what a step of the consumer depends on.\<close>

record ('s, 'v, 'l) pipeline =
  pl_watch :: "string \<Rightarrow> 's"
  pl_fan :: "'v fan_in"
  pl_loop :: 'l

datatype ('i, 'e) pipe_op = Observed string 'i | Forward string | Push string | Consume 'e | Proceed 'e

fun pipe_step :: "('i \<Rightarrow> 's \<Rightarrow> 's) \<Rightarrow> ('s \<Rightarrow> 's) \<Rightarrow> ('s \<Rightarrow> 'v list) \<Rightarrow> ('e \<Rightarrow> 'l \<Rightarrow> bool) \<Rightarrow>
    ('e \<Rightarrow> string \<Rightarrow> 'v \<Rightarrow> 'l \<Rightarrow> 'l) \<Rightarrow> ('e \<Rightarrow> 'l \<Rightarrow> 'l) \<Rightarrow> ('i, 'e) pipe_op \<Rightarrow> ('s, 'v, 'l) pipeline \<Rightarrow> ('s, 'v, 'l) pipeline" where
  "pipe_step sync recv chan ready deliver proceed (Observed name i) p =
     p\<lparr>pl_watch := (pl_watch p)(name := sync i (pl_watch p name))\<rparr>"
| "pipe_step sync recv chan ready deliver proceed (Forward name) p =
     (case chan (pl_watch p name) of
        [] \<Rightarrow> p
      | v # _ \<Rightarrow>
          if map_of (fi_held (pl_fan p)) name \<noteq> None then p
          else p\<lparr>pl_watch := (pl_watch p)(name := recv (pl_watch p name)), pl_fan := fan_step (TakeFrom name v) (pl_fan p)\<rparr>)"
| "pipe_step sync recv chan ready deliver proceed (Push name) p = p\<lparr>pl_fan := fan_step (PushFor name) (pl_fan p)\<rparr>"
| "pipe_step sync recv chan ready deliver proceed (Consume e) p =
     (if \<not> ready e (pl_loop p) then p
      else case fi_chan (pl_fan p) of
        [] \<Rightarrow> p
      | (name, v) # _ \<Rightarrow> p\<lparr>pl_fan := fan_step LoopReceives (pl_fan p), pl_loop := deliver e name v (pl_loop p)\<rparr>)"
| "pipe_step sync recv chan ready deliver proceed (Proceed e) p = p\<lparr>pl_loop := proceed e (pl_loop p)\<rparr>"

definition pipe_run :: "('i \<Rightarrow> 's \<Rightarrow> 's) \<Rightarrow> ('s \<Rightarrow> 's) \<Rightarrow> ('s \<Rightarrow> 'v list) \<Rightarrow> ('e \<Rightarrow> 'l \<Rightarrow> bool) \<Rightarrow>
    ('e \<Rightarrow> string \<Rightarrow> 'v \<Rightarrow> 'l \<Rightarrow> 'l) \<Rightarrow> ('e \<Rightarrow> 'l \<Rightarrow> 'l) \<Rightarrow> ('i, 'e) pipe_op list \<Rightarrow> ('s, 'v, 'l) pipeline \<Rightarrow> ('s, 'v, 'l) pipeline" where
  "pipe_run sync recv chan ready deliver proceed ops p = fold (pipe_step sync recv chan ready deliver proceed) ops p"

text \<open>What was listed for a source, and when nothing of it is under way.\<close>

fun listings :: "string \<Rightarrow> ('i, 'e) pipe_op list \<Rightarrow> 'i feed_op list" where
  "listings name [] = []"
| "listings name (Observed n i # ops) = (if n = name then Sync i # listings name ops else listings name ops)"
| "listings name (op # ops) = listings name ops"

definition pipe_settled :: "('s \<Rightarrow> 'v list) \<Rightarrow> string \<Rightarrow> ('s, 'v, 'l) pipeline \<Rightarrow> bool" where
  "pipe_settled chan name p \<longleftrightarrow> chan (pl_watch p name) = [] \<and>
     of_source name (fi_chan (pl_fan p)) = [] \<and> of_source name (fi_held (pl_fan p)) = []"

lemma last_value_append: "last_value val (xs @ ys) d = last_value val ys (last_value val xs d)"
  by (induction val xs d rule: last_value.induct) simp_all

section \<open>The contracts\<close>

text \<open>
  What every watcher promises, whatever it watches: its channel and what was received from it stay in step
  with the snapshot it holds. A watcher that publishes the value of its last listing is one of these.
\<close>

locale snapshot_feed =
  fixes feed :: "'s \<Rightarrow> 'v feed"
    and change :: "'i \<Rightarrow> 's \<Rightarrow> 's"
    and receive :: "'s \<Rightarrow> 's"
  assumes change_ok: "feed_ok (feed s) seen \<Longrightarrow> feed_ok (feed (change i s)) seen"
    and recv_feed: "feed (receive s) = feed_receive (feed s)"

sublocale coalescing_feed \<subseteq> snapshot_feed feed sync receive
  by unfold_locales (simp_all add: feed_sync feed_ok_publish feed_recv)

text \<open>The newest value of a list of changes, the first one given by \<open>d\<close>.\<close>

definition newest_of :: "'v option \<Rightarrow> (string \<times> 'v) list \<Rightarrow> 'v option" where
  "newest_of d xs = (if xs = [] then d else Some (snd (last xs)))"

lemma newest_of_simps [simp]: "newest_of d [] = d" "newest_of d (xs @ [x]) = Some (snd x)"
  by (simp_all add: newest_of_def)

text \<open>
  The consumer stores what it receives under the name of the source, and for the names \<open>own\<close> of this fan-in
  nothing else it does changes that.
\<close>

locale source_pipeline = snapshot_feed feed change receive
  for feed :: "'s \<Rightarrow> 'v feed"
    and change :: "'i \<Rightarrow> 's \<Rightarrow> 's"
    and receive :: "'s \<Rightarrow> 's" +
  fixes ready :: "'e \<Rightarrow> 'l \<Rightarrow> bool"
    and deliver :: "'e \<Rightarrow> string \<Rightarrow> 'v \<Rightarrow> 'l \<Rightarrow> 'l"
    and proceed :: "'e \<Rightarrow> 'l \<Rightarrow> 'l"
    and stored :: "'v \<Rightarrow> 'u"
    and latest :: "'l \<Rightarrow> string \<Rightarrow> 'u option"
    and own :: "string \<Rightarrow> bool"
  assumes latest_deliver: "latest (deliver e n v l) m = (if m = n then Some (stored v) else latest l m)"
    and latest_proceed: "own m \<Longrightarrow> latest (proceed e l) m = latest l m"
begin

abbreviation pstep :: "('i, 'e) pipe_op \<Rightarrow> ('s, 'v, 'l) pipeline \<Rightarrow> ('s, 'v, 'l) pipeline" where
  "pstep \<equiv> pipe_step change receive (\<lambda>s. feed_chan (feed s)) ready deliver proceed"

abbreviation prun :: "('i, 'e) pipe_op list \<Rightarrow> ('s, 'v, 'l) pipeline \<Rightarrow> ('s, 'v, 'l) pipeline" where
  "prun \<equiv> pipe_run change receive (\<lambda>s. feed_chan (feed s)) ready deliver proceed"

text \<open>
  For one source, whose consumer starts with \<open>v0\<close>: the feed's invariant for what the fan-in took last, and
  the consumer stores what it received last.
\<close>

definition pipe_ok :: "string \<Rightarrow> 'v option \<Rightarrow> ('s, 'v, 'l) pipeline \<Rightarrow> bool" where
  "pipe_ok name v0 p \<longleftrightarrow> fan_ok (pl_fan p) \<and>
     feed_ok (feed (pl_watch p name)) (newest_of v0 (of_source name (fi_taken (pl_fan p)))) \<and>
     latest (pl_loop p) name = map_option stored (newest_of v0 (of_source name (fi_done (pl_fan p))))"

lemma pipe_ok_step:
  assumes "pipe_ok name v0 p" and "own name"
  shows "pipe_ok name v0 (pstep op p)"
proof (cases op)
  case (Observed n i)
  then show ?thesis using assms by (auto simp: pipe_ok_def intro: change_ok)
next
  case (Forward n)
  show ?thesis
  proof (cases "feed_chan (feed (pl_watch p n)) = [] \<or> map_of (fi_held (pl_fan p)) n \<noteq> None")
    case True
    then show ?thesis using assms Forward by (cases "feed_chan (feed (pl_watch p n))") auto
  next
    case False
    then obtain v vs where v: "feed_chan (feed (pl_watch p n)) = v # vs" "map_of (fi_held (pl_fan p)) n = None"
      by (cases "feed_chan (feed (pl_watch p n))") auto
    have "feed_ok (feed (receive (pl_watch p name))) (Some v)" if "n = name"
      using feed_ok_receive [of "feed (pl_watch p name)" _ v vs] assms v that by (auto simp: pipe_ok_def recv_feed)
    then show ?thesis
      using assms v Forward fan_step_ok [of "pl_fan p" "TakeFrom n v"] by (auto simp: pipe_ok_def)
  qed
next
  case (Push n)
  then show ?thesis
    using assms fan_step_ok [of "pl_fan p" "PushFor n"] by (auto simp: pipe_ok_def split: option.split)
next
  case (Consume e)
  show ?thesis
  proof (cases "ready e (pl_loop p) \<and> fi_chan (pl_fan p) \<noteq> []")
    case True
    then obtain n v rest where c: "fi_chan (pl_fan p) = (n, v) # rest" "ready e (pl_loop p)"
      by (cases "fi_chan (pl_fan p)") auto
    then show ?thesis
      using assms Consume fan_step_ok [of "pl_fan p" LoopReceives] by (auto simp: pipe_ok_def latest_deliver)
  qed (use assms Consume in \<open>auto split: list.split\<close>)
next
  case (Proceed e)
  then show ?thesis using assms by (simp add: pipe_ok_def latest_proceed)
qed

lemma pipe_ok_run: "pipe_ok name v0 p \<Longrightarrow> own name \<Longrightarrow> pipe_ok name v0 (prun ops p)"
proof (induction ops arbitrary: p)
  case (Cons op ops)
  then show ?case using Cons.IH [OF pipe_ok_step [OF Cons.prems]] by (simp add: pipe_run_def)
qed (simp add: pipe_run_def)

text \<open>
  From the moment the consumer has the first value of a source to one when nothing of the source is under
  way: the consumer stores the snapshot the watcher holds.
\<close>

theorem snapshot_stored:
  assumes "own name" and "feed_ok (feed (pl_watch p name)) (Some v0)" and "pl_fan p = fan_start cap"
    and "latest (pl_loop p) name = Some (stored v0)" and "pipe_settled (\<lambda>s. feed_chan (feed s)) name (prun ops p)"
  shows "feed (pl_watch (prun ops p) name) = (True, fst (snd (feed (pl_watch (prun ops p) name))), [])"
    and "latest (pl_loop (prun ops p)) name = Some (stored (fst (snd (feed (pl_watch (prun ops p) name)))))"
proof -
  let ?p = "prun ops p"
  have ok: "pipe_ok name (Some v0) ?p"
    using assms(2-4) by (intro pipe_ok_run assms(1)) (simp add: pipe_ok_def fan_start_def fan_ok_def)
  have same: "of_source name (fi_taken (pl_fan ?p)) = of_source name (fi_done (pl_fan ?p))"
    using ok assms(5) by (auto simp: pipe_ok_def fan_ok_def pipe_settled_def)
  have "feed_chan (feed (pl_watch ?p name)) = []" using assms(5) by (simp add: pipe_settled_def)
  moreover obtain v where v: "newest_of (Some v0) (of_source name (fi_taken (pl_fan ?p))) = Some v"
    by (metis newest_of_def)
  ultimately have "feed (pl_watch ?p name) = (True, v, [])"
    using ok by (cases "feed (pl_watch ?p name)") (auto simp: pipe_ok_def feed_chan_def split: if_splits)
  then show "feed (pl_watch ?p name) = (True, fst (snd (feed (pl_watch ?p name))), [])"
    and "latest (pl_loop ?p) name = Some (stored (fst (snd (feed (pl_watch ?p name)))))"
    using ok v same by (simp_all add: pipe_ok_def)
qed

end

text \<open>A pipeline behind watchers that publish the value of their last listing.\<close>

locale listed_pipeline = coalescing_feed feed conf sync val receive same +
    source_pipeline feed sync receive ready deliver proceed stored latest own
  for feed :: "'s \<Rightarrow> 'v feed"
    and conf :: "'s \<Rightarrow> 'c"
    and sync :: "'i \<Rightarrow> 's \<Rightarrow> 's"
    and val :: "'c \<Rightarrow> 'i \<Rightarrow> 'v option"
    and receive :: "'s \<Rightarrow> 's"
    and same :: "'v \<Rightarrow> 'v \<Rightarrow> bool"
    and ready :: "'e \<Rightarrow> 'l \<Rightarrow> bool"
    and deliver :: "'e \<Rightarrow> string \<Rightarrow> 'v \<Rightarrow> 'l \<Rightarrow> 'l"
    and proceed :: "'e \<Rightarrow> 'l \<Rightarrow> 'l"
    and stored :: "'v \<Rightarrow> 'u"
    and latest :: "'l \<Rightarrow> string \<Rightarrow> 'u option"
    and own :: "string \<Rightarrow> bool"
begin

lemma run_conf: "conf (fst (run ops r)) = conf (fst r)"
proof (induction ops arbitrary: r)
  case (Cons op ops)
  then show ?case by (cases op) (auto simp: conf_sync conf_recv split: list.split)
qed simp

lemma pipe_conf: "conf (pl_watch (pstep op p) name) = conf (pl_watch p name)"
  by (cases op) (auto simp: conf_sync conf_recv split: list.split)

lemma pipe_current_step:
  assumes "\<forall>u. d = Some u \<longrightarrow> current u (pl_watch p name)"
    and "last_value (val (conf (pl_watch p name))) (listings name [op]) d = Some v"
  shows "current v (pl_watch (pstep op p) name)"
proof (cases op)
  case (Observed n i)
  then show ?thesis
    using assms by (cases "n = name"; cases "val (conf (pl_watch p name)) i") (auto intro: current_sync current_keep)
next
  case (Forward n)
  then show ?thesis using assms by (auto intro: current_recv split: list.split)
qed (use assms in \<open>auto split: list.split\<close>)

lemma listings_Cons: "listings name (op # ops) = listings name [op] @ listings name ops"
  by (cases op) simp_all

lemma pipe_current:
  assumes "\<forall>u. d = Some u \<longrightarrow> current u (pl_watch p name)"
    and "last_value (val (conf (pl_watch p name))) (listings name ops) d = Some v"
  shows "current v (pl_watch (prun ops p) name)"
  using assms
proof (induction ops arbitrary: p d)
  case Nil
  then show ?case by (simp add: pipe_run_def)
next
  case (Cons op ops)
  let ?d = "last_value (val (conf (pl_watch p name))) (listings name [op]) d"
  have "\<forall>u. ?d = Some u \<longrightarrow> current u (pl_watch (pstep op p) name)"
    using pipe_current_step [OF Cons.prems(1)] by blast
  moreover have "last_value (val (conf (pl_watch (pstep op p) name))) (listings name ops) ?d = Some v"
    using Cons.prems(2) listings_Cons [of name op ops] by (simp add: pipe_conf last_value_append)
  ultimately show ?case using Cons.IH [of ?d "pstep op p"] by (simp add: pipe_run_def)
qed

text \<open>
  From the start of a source's watcher to a moment when nothing of the source is under way: the consumer
  stores what the last listing holds, up to the comparison of the watcher.
\<close>

theorem reaches_consumer:
  assumes "own name" and "feed_ok (feed w) None" and "run pre (w, None) = (pl_watch p name, Some v0)"
    and "pl_fan p = fan_start cap" and "latest (pl_loop p) name = Some (stored v0)"
    and "last_value (val (conf w)) (pre @ listings name ops) None = Some v"
    and "pipe_settled chan name (prun ops p)"
  shows "\<exists>u. latest (pl_loop (prun ops p)) name = Some (stored u) \<and> same u v"
proof -
  have w: "feed_ok (feed (pl_watch p name)) (Some v0)" "conf (pl_watch p name) = conf w"
    using run_ok [of "(w, None)" pre] run_conf [of pre "(w, None)"] assms(2,3) by simp_all
  have d: "current u (pl_watch p name)" if "last_value (val (conf w)) pre None = Some u" for u
    using run_current [of None "(w, None)" pre u] that assms(3) by simp
  have "current v (pl_watch (prun ops p) name)"
    using pipe_current [of "last_value (val (conf w)) pre None" p name ops v] d assms(6) by (simp add: w(2) last_value_append)
  then show ?thesis
    using snapshot_stored(2) [OF assms(1) w(1) assms(4,5,7)] by (auto simp: current_def)
qed

end

section \<open>The event loop as the consumer\<close>

text \<open>The state of the loop with the time of its last step, and a step that is not a receive from the fan-in.\<close>

type_synonym ('t, 'h) timed_loop = "('t, 'h) loop_state \<times> int"

definition loop_ready :: "int \<times> 't loop_event \<Rightarrow> ('t, 'h) timed_loop \<Rightarrow> bool" where
  "loop_ready e l \<longleftrightarrow> \<not> ls_pendingShutdown (fst l) \<and> snd l \<le> fst e"

definition loop_proceed :: "('t \<Rightarrow> template_data \<Rightarrow> string option) \<Rightarrow> (string \<Rightarrow> 'h) \<Rightarrow> loop_config \<Rightarrow> ('t loop_event \<Rightarrow> bool) \<Rightarrow>
    int \<times> 't loop_event \<Rightarrow> ('t, 'h) timed_loop \<Rightarrow> ('t, 'h) timed_loop" where
  "loop_proceed exec H cf mine e l =
     (if loop_ready e l \<and> \<not> mine (snd e) \<and> loop_enabled cf (fst e) (snd e) (fst l)
      then (loop_handle exec H cf (fst e) (snd e) (fst l), fst e) else l)"

definition loop_deliver :: "('t \<Rightarrow> template_data \<Rightarrow> string option) \<Rightarrow> (string \<Rightarrow> 'h) \<Rightarrow> loop_config \<Rightarrow>
    (string \<Rightarrow> 'v \<Rightarrow> 't loop_event) \<Rightarrow> int \<times> 't loop_event \<Rightarrow> string \<Rightarrow> 'v \<Rightarrow> ('t, 'h) timed_loop \<Rightarrow> ('t, 'h) timed_loop" where
  "loop_deliver exec H cf event e name v l = (loop_handle exec H cf (fst e) (event name v) (fst l), fst e)"

text \<open>Which events come from which fan-in, and the list of entries of a map that was received.\<close>

fun is_ValuesEv :: "'t loop_event \<Rightarrow> bool" where
  "is_ValuesEv (ValuesEv _ _) = True"
| "is_ValuesEv _ = False"

fun is_SecretsEv :: "'t loop_event \<Rightarrow> bool" where
  "is_SecretsEv (SecretsEv _ _) = True"
| "is_SecretsEv _ = False"

fun is_TLSEv :: "'t loop_event \<Rightarrow> bool" where
  "is_TLSEv (TLSEv _ _) = True"
| "is_TLSEv _ = False"

definition entries_of :: "values_map \<Rightarrow> gmap" where
  "entries_of m = (case m of None \<Rightarrow> []
     | Some kv \<Rightarrow> map (\<lambda>k. (k, the (fmlookup kv k))) (sorted_list_of_set (fmdom' kv)))"

lemmas loop_frames = handleReload_frame [unfolded reload_frame_def] handleCertReload_frame [unfolded cert_frame_def]

lemma loop_keeps:
  "\<not> is_ValuesEv ev \<Longrightarrow> in_Values (ls_inputs (loop_handle exec H cf now ev st)) = in_Values (ls_inputs st)"
  "\<not> is_SecretsEv ev \<Longrightarrow> in_Secrets (ls_inputs (loop_handle exec H cf now ev st)) = in_Secrets (ls_inputs st)"
  "\<not> is_TLSEv ev \<Longrightarrow> ls_latestTLS (loop_handle exec H cf now ev st) = ls_latestTLS st"
  by (cases ev; simp add: loop_frames on_template_def on_frontend_def on_backend_def on_values_def on_secrets_def on_tls_def
      on_sweep_def on_vcl_recovery_def on_tls_recovery_def schedule_backend_def backend_remove_def backend_apply_def
      emitEvent_def Let_def)+

interpretation cp: listed_pipeline value_feed "\<lambda>_. ()" "configmap_sync yaml float" "\<lambda>_ cm. Some (decoded_object yaml float cm)"
  value_receive "(=)" loop_ready "loop_deliver exec H cf (\<lambda>n v. ValuesEv n (entries_of v))" "loop_proceed exec H cf is_ValuesEv"
  entries_of "\<lambda>l n. fmlookup (in_Values (ls_inputs (fst l))) n" "\<lambda>_. True"
  by unfold_locales (auto simp: loop_deliver_def loop_proceed_def on_values_def schedule_backend_def loop_keeps)

interpretation sp: listed_pipeline value_feed "\<lambda>_. ()" "secret_sync yaml float" "\<lambda>_ cm. Some (decoded_object yaml float cm)"
  value_receive "(=)" loop_ready "loop_deliver exec H cf (\<lambda>n v. SecretsEv n (entries_of v))" "loop_proceed exec H cf is_SecretsEv"
  entries_of "\<lambda>l n. fmlookup (in_Secrets (ls_inputs (fst l))) n" "\<lambda>_. True"
  by unfold_locales (auto simp: loop_deliver_def loop_proceed_def on_secrets_def schedule_backend_def Let_def loop_keeps)

interpretation tp: listed_pipeline value_feed "\<lambda>_. ()" tls_sync "\<lambda>_ secret. Some (tls_material secret)"
  value_receive tls_equal loop_ready "loop_deliver exec H cf TLSEv" "loop_proceed exec H cf is_TLSEv"
  id "\<lambda>l n. fmlookup (ls_latestTLS (fst l)) n" "\<lambda>_. True"
  by unfold_locales (auto simp: loop_deliver_def loop_proceed_def on_tls_def Let_def loop_keeps)

text \<open>
  The explicit backends \<open>names\<close>: their watchers are told of the Service and of endpoints, and what the loop
  receives has no generation. Changes of discovered backends come from other goroutines, under other names.
\<close>

definition backend_feed :: "backend_watcher \<Rightarrow> BackendState feed" where
  "backend_feed bw = (bw_synced bw, snapshotLocked (bw_previous bw) bw, bw_ch bw)"

datatype backend_event = ServiceEvent "k8s_service option" | ChildEvent nat "endpoint slice"

fun backend_change :: "backend_event \<Rightarrow> backend_watcher \<Rightarrow> backend_watcher" where
  "backend_change (ServiceEvent s) bw = syncService s bw"
| "backend_change (ChildEvent c eps) bw = sendFromChild c eps bw"

definition explicit_change :: "string \<Rightarrow> BackendState \<Rightarrow> backendChange" where
  "explicit_change name st = \<lparr>bc_name = name, bc_endpoints = bs_Endpoints st, bc_labels = bs_Labels st,
     bc_annotations = bs_Annotations st, bc_removed = False, bc_gen = 0\<rparr>"

fun is_explicit :: "string list \<Rightarrow> 't loop_event \<Rightarrow> bool" where
  "is_explicit names (BackendEv bc) = (bc_name bc \<in> set names)"
| "is_explicit names _ = False"

lemma backend_feed_ok: "feed_ok (backend_feed bw) seen \<longleftrightarrow> bw_ok (bw, seen)"
proof (cases "bw_ch bw")
  case (Cons st sts)
  then show ?thesis by (cases sts) (auto simp: backend_feed_def bw_ok.simps bw_view.simps)
qed (auto simp: backend_feed_def bw_ok.simps bw_view.simps)

lemma backend_feed_chan [simp]: "feed_chan (backend_feed bw) = bw_ch bw"
  by (simp add: feed_chan_def backend_feed_def)

lemma backend_change_ok: "bw_ok (bw, seen) \<Longrightarrow> bw_ok (backend_change op bw, seen)"
  using bw_ok_step [of "(bw, seen)" "case op of ServiceEvent s \<Rightarrow> SyncService s | ChildEvent c eps \<Rightarrow> ChildUpdate c eps"]
  by (cases op) simp_all

lemma backend_keeps:
  assumes "m \<in> set names" and "\<not> is_explicit names ev"
  shows "fmlookup (in_Backends (ls_inputs (loop_handle exec H cf now ev st))) m = fmlookup (in_Backends (ls_inputs st)) m"
  using assms
  by (cases ev) (auto simp: loop_frames on_template_def on_frontend_def on_backend_def on_values_def on_secrets_def on_tls_def
      on_sweep_def on_vcl_recovery_def on_tls_recovery_def schedule_backend_def backend_remove_def backend_apply_def
      emitEvent_def Let_def)

interpretation bp: source_pipeline backend_feed backend_change bw_receive loop_ready
  "loop_deliver exec H cf (\<lambda>n st. BackendEv (explicit_change n st))" "loop_proceed exec H cf (is_explicit names)"
  group_of_state "\<lambda>l n. fmlookup (in_Backends (ls_inputs (fst l))) n" "\<lambda>n. n \<in> set names"
proof
  show "feed_ok (backend_feed (backend_change i s)) seen" if "feed_ok (backend_feed s) seen" for s seen i
    using that backend_change_ok by (simp add: backend_feed_ok)
  show "backend_feed (bw_receive s) = feed_receive (backend_feed s)" for s
    by (simp add: backend_feed_def bw_receive_def snapshotLocked_def)
qed (auto simp: loop_deliver_def loop_proceed_def backend_keeps on_backend_def backend_dropped_def backend_apply_def
    explicit_change_def schedule_backend_def group_of_state_def Let_def)

text \<open>Every state of the loop in a pipeline is one that the loop reaches.\<close>

lemma pipe_loop_reach:
  fixes st0 :: "('t, 'h) loop_state"
  assumes "loop_reach exec H cf st0 now0 (fst (pl_loop p)) (snd (pl_loop p))"
    and deliv: "\<And>n v now (st :: ('t, 'h) loop_state). loop_enabled cf now (event n v) st"
  shows "loop_reach exec H cf st0 now0
      (fst (pl_loop (pipe_run sync recv chan loop_ready (loop_deliver exec H cf event) (loop_proceed exec H cf mine) ops p)))
      (snd (pl_loop (pipe_run sync recv chan loop_ready (loop_deliver exec H cf event) (loop_proceed exec H cf mine) ops p)))"
  using assms(1)
proof (induction ops arbitrary: p)
  case (Cons op ops)
  let ?step = "pipe_step sync recv chan loop_ready (loop_deliver exec H cf event) (loop_proceed exec H cf mine)"
  have "loop_reach exec H cf st0 now0 (fst (pl_loop (?step op p))) (snd (pl_loop (?step op p)))"
    using Cons.prems
    by (cases op) (auto simp: loop_deliver_def loop_proceed_def loop_ready_def split: list.split intro: loop_reach.iterate deliv)
  from Cons.IH [OF this] show ?case by (simp add: pipe_run_def)
qed (simp add: pipe_run_def)

end
