(* ===== verification/Informer.thy ===== *)
theory Informer
  imports Pipeline
begin

text \<open>
  The \<open>Run\<close> methods of the watchers (\<open>internal/watcher\<close>): an informer of client-go holds the objects of the
  API server in a cache, calls a handler after every change of it, and every handler call reads the cache
  again. The informer is a parameter of the code; what is used of it is what its documentation says: an object
  is stored before its notification is queued, every stored change queues one, and notifications run one
  after the other. The locale \<open>informer_client\<close> states what a watcher owes, and is interpreted for all of them.
\<close>

section \<open>Run\<close>

text \<open>
  \<open>Run\<close> adds the handler and starts the informer, waits for the first listing, syncs once by itself, and
  waits for the context; \<open>Ended False\<close> is the error of \<open>AddEventHandler\<close>.
\<close>

datatype run_pc = Adding | Syncing | Serving | Ended bool

record ('o, 's) informed =
  in_pc :: run_pc
  in_cache :: 'o
  in_undelivered :: nat
  in_hasSynced :: bool
  in_cancelled :: bool
  in_client :: 's

definition informed_start :: "'o \<Rightarrow> 's \<Rightarrow> ('o, 's) informed" where
  "informed_start cache client = \<lparr>in_pc = Adding, in_cache = cache, in_undelivered = 0, in_hasSynced = False,
     in_cancelled = False, in_client = client\<rparr>"

text \<open>What \<open>Run\<close> does next, and what the informer and the context do meanwhile.\<close>

datatype 'o informer_op = AddHandler bool | FirstSync | Return | Stored 'o | Listed | Notified | ContextDone

fun informer_step :: "('o \<Rightarrow> 's \<Rightarrow> 's) \<Rightarrow> ('s \<Rightarrow> 's) \<Rightarrow> 'o informer_op \<Rightarrow> ('o, 's) informed \<Rightarrow> ('o, 's) informed" where
  "informer_step sync finish (AddHandler ok) r =
     (if in_pc r \<noteq> Adding then r else r\<lparr>in_pc := (if ok then Syncing else Ended False)\<rparr>)"
| "informer_step sync finish FirstSync r =
     (if in_pc r = Syncing \<and> (in_hasSynced r \<or> in_cancelled r)
      then r\<lparr>in_pc := Serving, in_client := sync (in_cache r) (in_client r)\<rparr> else r)"
| "informer_step sync finish Return r =
     (if in_pc r = Serving \<and> in_cancelled r
      then r\<lparr>in_pc := Ended True, in_client := finish (in_client r)\<rparr> else r)"
| "informer_step sync finish (Stored cache) r =
     (if in_pc r = Adding \<or> in_cancelled r then r
      else r\<lparr>in_cache := cache, in_undelivered := Suc (in_undelivered r)\<rparr>)"
| "informer_step sync finish Listed r = r\<lparr>in_hasSynced := True\<rparr>"
| "informer_step sync finish Notified r =
     (if in_undelivered r = 0 then r
      else r\<lparr>in_undelivered := in_undelivered r - 1, in_client := sync (in_cache r) (in_client r)\<rparr>)"
| "informer_step sync finish ContextDone r = r\<lparr>in_cancelled := True\<rparr>"

text \<open>A change of the client that is no sync.\<close>

definition informed_map :: "('s \<Rightarrow> 's) \<Rightarrow> ('o, 's) informed \<Rightarrow> ('o, 's) informed" where
  "informed_map f r = r\<lparr>in_client := f (in_client r)\<rparr>"

lemma informed_map_simps [simp]:
  "in_client (informed_map f r) = f (in_client r)" "in_pc (informed_map f r) = in_pc r"
  "in_cache (informed_map f r) = in_cache r" "in_undelivered (informed_map f r) = in_undelivered r"
  by (simp_all add: informed_map_def)

lemma informed_start_simps [simp]:
  "in_client (informed_start c s) = s" "in_pc (informed_start c s) = Adding" "in_cache (informed_start c s) = c"
  "in_undelivered (informed_start c s) = 0"
  by (simp_all add: informed_start_def)

text \<open>What a step does to the client is a sync with what the cache holds now, the last call, or nothing.\<close>

lemma informer_step_client:
  "in_client (informer_step sync finish op r) \<in>
     {in_client r, sync (in_cache r) (in_client r), finish (in_client r)}"
  by (cases op) auto

lemma informer_step_inv:
  assumes "P (in_client r)" and "\<And>c s. P s \<Longrightarrow> P (sync c s)" and "\<And>s. P s \<Longrightarrow> P (finish s)"
  shows "P (in_client (informer_step sync finish op r))"
  using informer_step_client [of sync finish op r] assms by auto

section \<open>What a watcher owes its informer\<close>

text \<open>
  After a sync the watcher has been told of the object, whatever came before, and nothing but a sync makes
  that untrue.
\<close>

locale informer_client =
  fixes sync :: "'o \<Rightarrow> 's \<Rightarrow> 's"
    and finish :: "'s \<Rightarrow> 's"
    and other :: "'x \<Rightarrow> 's \<Rightarrow> 's"
    and told :: "'o \<Rightarrow> 's \<Rightarrow> bool"
  assumes told_sync: "told c (sync c s)"
    and told_other: "told c s \<Longrightarrow> told c (other x s)"
begin

definition fresh :: "('o, 's) informed \<Rightarrow> bool" where
  "fresh r \<longleftrightarrow> in_pc r = Serving \<longrightarrow> 0 < in_undelivered r \<or> told (in_cache r) (in_client r)"

lemma fresh_start [simp]: "fresh (informed_start c s)"
  by (simp add: fresh_def)

lemma fresh_step: "fresh r \<Longrightarrow> fresh (informer_step sync finish op r)"
  by (cases op) (auto simp: fresh_def told_sync)

lemma fresh_other: "fresh r \<Longrightarrow> fresh (informed_map (other x) r)"
  by (auto simp: fresh_def told_other)

text \<open>Once \<open>Run\<close> serves and no notification is under way, the watcher was told of what the cache holds.\<close>

lemma told_now: "fresh r \<Longrightarrow> in_pc r = Serving \<Longrightarrow> in_undelivered r = 0 \<Longrightarrow> told (in_cache r) (in_client r)"
  by (simp add: fresh_def)

end

text \<open>A watcher that publishes the value of what it looks up is told of it when its baseline is that value.\<close>

locale informed_feed = coalescing_feed feed conf sync val receive same
  for feed :: "'s \<Rightarrow> 'v feed"
    and conf :: "'s \<Rightarrow> 'c"
    and sync :: "'i \<Rightarrow> 's \<Rightarrow> 's"
    and val :: "'c \<Rightarrow> 'i \<Rightarrow> 'v option"
    and receive :: "'s \<Rightarrow> 's"
    and same :: "'v \<Rightarrow> 'v \<Rightarrow> bool" +
  fixes look :: "'o \<Rightarrow> 'i"
    and shown :: "'c \<Rightarrow> 'o \<Rightarrow> 'v"
  assumes val_look: "val c (look x) = Some (shown c x)"

sublocale informed_feed \<subseteq> informer_client "\<lambda>c. sync (look c)" id "\<lambda>(_ :: unit). receive"
  "\<lambda>c s. current (shown (conf s) c) s"
  by unfold_locales (auto simp: conf_sync conf_recv intro: current_recv current_sync val_look)

section \<open>The watchers\<close>

definition Watcher_Run :: "endpoint_slice list informer_op \<Rightarrow> (endpoint_slice list, watcher) informed \<Rightarrow>
    (endpoint_slice list, watcher) informed" where
  "Watcher_Run = informer_step (\<lambda>slices. watcher_sync (Some slices)) id"

definition ConfigMapWatcher_Run :: "(string \<Rightarrow> jvalue option) \<Rightarrow> (string \<Rightarrow> string option) \<Rightarrow> strmap option informer_op \<Rightarrow>
    (strmap option, values_map value_watcher) informed \<Rightarrow> (strmap option, values_map value_watcher) informed" where
  "ConfigMapWatcher_Run yaml float = informer_step (configmap_sync yaml float) id"

definition SecretWatcher_Run :: "(string \<Rightarrow> jvalue option) \<Rightarrow> (string \<Rightarrow> string option) \<Rightarrow> strmap option informer_op \<Rightarrow>
    (strmap option, values_map value_watcher) informed \<Rightarrow> (strmap option, values_map value_watcher) informed" where
  "SecretWatcher_Run yaml float = informer_step (secret_sync yaml float) id"

definition TLSCertWatcher_Run :: "strmap option informer_op \<Rightarrow>
    (strmap option, tls_cert_data value_watcher) informed \<Rightarrow> (strmap option, tls_cert_data value_watcher) informed" where
  "TLSCertWatcher_Run = informer_step tls_sync id"

definition BackendWatcher_Run :: "k8s_service option informer_op \<Rightarrow>
    (k8s_service option, backend_watcher) informed \<Rightarrow> (k8s_service option, backend_watcher) informed" where
  "BackendWatcher_Run = informer_step syncService stopEndpointSliceWatcherLocked"

interpretation wi: informed_feed watcher_feed w_portOverride watcher_sync "\<lambda>p. map_option (served p)" watcher_receive
  EndpointsEqual Some served
  by unfold_locales simp

interpretation ci: informed_feed value_feed "\<lambda>_. ()" "configmap_sync yaml float" "\<lambda>_ cm. Some (decoded_object yaml float cm)"
  value_receive "(=)" id "\<lambda>_. decoded_object yaml float"
  by unfold_locales simp

interpretation si: informed_feed value_feed "\<lambda>_. ()" "secret_sync yaml float" "\<lambda>_ cm. Some (decoded_object yaml float cm)"
  value_receive "(=)" id "\<lambda>_. decoded_object yaml float"
  by unfold_locales simp

interpretation ti: informed_feed value_feed "\<lambda>_. ()" tls_sync "\<lambda>_ secret. Some (tls_material secret)"
  value_receive tls_equal id "\<lambda>_. tls_material"
  by unfold_locales simp

text \<open>What a backend watcher was told of: the metadata of the Service, and the endpoints unless a child serves them.\<close>

definition backend_told :: "k8s_service option \<Rightarrow> backend_watcher \<Rightarrow> bool" where
  "backend_told s bw \<longleftrightarrow>
     Metadata bw = (case s of None \<Rightarrow> (fmempty, fmempty)
       | Some svc \<Rightarrow> (svc_Labels svc, filterAnnotations (svc_Annotations svc) (bw_exclude bw))) \<and>
     (bw_child bw = None \<longleftrightarrow> (case s of None \<Rightarrow> True | Some svc \<Rightarrow> svc_isExternalName svc)) \<and>
     (bw_child bw = None \<longrightarrow> bw_synced bw \<and> elems (bw_previous bw) = (case s of None \<Rightarrow> []
        | Some svc \<Rightarrow> if svc_ExternalName svc = [] then []
            else (case resolveExternalPort bw of None \<Rightarrow> [] | Some port \<Rightarrow> [external_endpoint (svc_ExternalName svc) port])))"

text \<open>What the methods leave alone.\<close>

lemma backend_conf:
  "bw_exclude (syncService s bw) = bw_exclude bw" "bw_portOverride (syncService s bw) = bw_portOverride bw"
  "bw_exclude (sendFromChild c eps bw) = bw_exclude bw" "bw_portOverride (sendFromChild c eps bw) = bw_portOverride bw"
  by (auto simp: syncService_def sync_missing_def sync_metadata_def sendFromChild_def sendLocked_def resendLocked_def
      stopEndpointSliceWatcherLocked_def startEndpointSliceWatcherLocked_def Let_def split: option.split)

lemma resolveExternalPort_conf: "bw_portOverride b = bw_portOverride b' \<Longrightarrow> resolveExternalPort b = resolveExternalPort b'"
  by (simp add: resolveExternalPort_def)

text \<open>Once something was published, it stays so; without a child a sync publishes.\<close>

lemma synced_send: "bw_synced (sendLocked eps bw)" "bw_synced (resendLocked bw) = bw_synced bw"
  "bw_synced (sync_metadata svc bw) = bw_synced bw" "bw_synced (sync_missing bw)"
  by (auto simp: sendLocked_def resendLocked_def sync_metadata_def sync_missing_def stopEndpointSliceWatcherLocked_def Let_def)

lemma synced_sync:
  "bw_synced bw \<Longrightarrow> bw_synced (syncService s bw)" "bw_child (syncService s bw) = None \<Longrightarrow> bw_synced (syncService s bw)"
  "bw_synced bw \<Longrightarrow> bw_synced (sendFromChild c eps bw)" "bw_child bw = Some c \<Longrightarrow> bw_synced (sendFromChild c eps bw)"
  by (auto simp: syncService_def sendFromChild_def synced_send Let_def stopEndpointSliceWatcherLocked_def
      startEndpointSliceWatcherLocked_def split: option.splits if_splits)

lemma backend_told_sync: "backend_told s (syncService s bw)"
  using synced_sync(2) [of s bw] syncService_spec [of s bw] resolveExternalPort_conf [OF backend_conf(2), of s bw]
  by (auto simp: backend_told_def backend_conf split: option.splits)

datatype backend_other = FromChild nat "endpoint slice" | TakenOut

fun backend_other_step :: "backend_other \<Rightarrow> backend_watcher \<Rightarrow> backend_watcher" where
  "backend_other_step (FromChild c eps) bw = sendFromChild c eps bw"
| "backend_other_step TakenOut bw = bw_receive bw"

lemma sendFromChild_facts:
  "Metadata (sendFromChild c eps bw) = Metadata bw" "bw_child (sendFromChild c eps bw) = bw_child bw"
  "bw_child bw = Some c \<Longrightarrow> elems (bw_previous (sendFromChild c eps bw)) = elems eps"
  "bw_child bw \<noteq> Some c \<Longrightarrow> sendFromChild c eps bw = bw"
  by (auto simp: sendFromChild_def sendLocked_def Let_def EndpointsEqual_iff Metadata_def)

lemma backend_told_other: "backend_told s bw \<Longrightarrow> backend_told s (backend_other_step x bw)"
proof (cases x)
  case (FromChild c eps)
  assume "backend_told s bw"
  then show ?thesis using FromChild resolveExternalPort_conf [OF backend_conf(4), of c eps bw]
    by (cases "bw_child bw = Some c") (auto simp: backend_told_def sendFromChild_facts backend_conf synced_sync cong: option.case_cong)
qed (auto simp: backend_told_def bw_receive_def Metadata_def resolveExternalPort_def cong: option.case_cong split: if_splits option.split)

interpretation bi: informer_client syncService stopEndpointSliceWatcherLocked backend_other_step backend_told
  by unfold_locales (simp_all add: backend_told_sync backend_told_other)

end
