(* ===== verification/BackendRuntime.thy ===== *)
theory BackendRuntime
  imports Informer
begin

text \<open>
  A running backend watcher (\<open>internal/watcher/backend_watcher.go\<close>) as the code runs it: the informer of the
  Service, and behind it one informer of EndpointSlices per child that was started, each with the goroutine
  that hands the endpoints of its child over. The theorem at the end says what the watcher publishes once
  nothing is under way, in terms of the Service and the EndpointSlices the caches hold.
\<close>

section \<open>The goroutines\<close>

record backend_runtime =
  br_service :: "(k8s_service option, backend_watcher) informed"
  br_child :: "nat \<Rightarrow> (endpoint_slice list, watcher) informed"
  br_held :: "nat \<Rightarrow> endpoint slice option"

definition backend_start :: "string \<Rightarrow> (string \<Rightarrow> bool) option \<Rightarrow> backend_runtime" where
  "backend_start port ex = \<lparr>br_service = informed_start None (NewBackendWatcher port ex),
     br_child = (\<lambda>_. informed_start [] (new_watcher port)), br_held = (\<lambda>_. None)\<rparr>"

abbreviation br_watcher :: "backend_runtime \<Rightarrow> backend_watcher" where
  "br_watcher rt \<equiv> in_client (br_service rt)"

text \<open>
  A child runs from the moment it is started; its goroutine receives from \<open>Changes()\<close> and then calls
  \<open>sendFromChild\<close>. That a stopped child and its goroutine end is left out: they may go on here.
\<close>

datatype backend_op = ServiceOp "k8s_service option informer_op" | SliceOp nat "endpoint_slice list informer_op"
  | TakeFromChild nat | HandOver nat

fun backend_run_step :: "backend_op \<Rightarrow> backend_runtime \<Rightarrow> backend_runtime" where
  "backend_run_step (ServiceOp op) rt = rt\<lparr>br_service := BackendWatcher_Run op (br_service rt)\<rparr>"
| "backend_run_step (SliceOp c op) rt =
     (if c < bw_nextChild (br_watcher rt) then rt\<lparr>br_child := (br_child rt)(c := Watcher_Run op (br_child rt c))\<rparr> else rt)"
| "backend_run_step (TakeFromChild c) rt =
     (case w_ch (in_client (br_child rt c)) of
        [] \<Rightarrow> rt
      | eps # _ \<Rightarrow>
          if br_held rt c \<noteq> None then rt
          else rt\<lparr>br_child := (br_child rt)(c := informed_map watcher_receive (br_child rt c)),
                  br_held := (br_held rt)(c := Some eps)\<rparr>)"
| "backend_run_step (HandOver c) rt =
     (case br_held rt c of
        None \<Rightarrow> rt
      | Some eps \<Rightarrow> rt\<lparr>br_service := informed_map (sendFromChild c eps) (br_service rt), br_held := (br_held rt)(c := None)\<rparr>)"

definition backend_runtime_receive :: "backend_runtime \<Rightarrow> backend_runtime" where
  "backend_runtime_receive rt = rt\<lparr>br_service := informed_map bw_receive (br_service rt)\<rparr>"

definition backend_runtime_feed :: "backend_runtime \<Rightarrow> BackendState feed" where
  "backend_runtime_feed rt = backend_feed (br_watcher rt)"

section \<open>Children and their goroutines\<close>

text \<open>What the goroutine of a child took last is what it holds, or what the watcher serves if the child is current.\<close>

definition child_track :: "backend_watcher \<Rightarrow> nat \<Rightarrow> watcher \<Rightarrow> endpoint slice option \<Rightarrow> bool" where
  "child_track bw c w held \<longleftrightarrow> (\<exists>seen. feed_ok (watcher_feed w) seen \<and>
     (case held of Some eps \<Rightarrow> seen = Some eps
      | None \<Rightarrow> bw_child bw = Some c \<longrightarrow> (case seen of None \<Rightarrow> True | Some eps \<Rightarrow> bw_synced bw \<and> elems (bw_previous bw) = elems eps)))"

text \<open>The invariant of a running watcher with the port \<open>port\<close> and the filter \<open>ex\<close>.\<close>

definition runtime_ok :: "string \<Rightarrow> (string \<Rightarrow> bool) option \<Rightarrow> backend_runtime \<Rightarrow> bool" where
  "runtime_ok port ex rt \<longleftrightarrow> bw_portOverride (br_watcher rt) = port \<and> bw_exclude (br_watcher rt) = ex \<and>
     child_ok (br_watcher rt) \<and> bi.fresh (br_service rt) \<and>
     (\<forall>c. child_track (br_watcher rt) c (in_client (br_child rt c)) (br_held rt c) \<and> wi.fresh (br_child rt c) \<and>
        w_portOverride (in_client (br_child rt c)) = port) \<and>
     (\<forall>c\<ge>bw_nextChild (br_watcher rt). br_child rt c = informed_start [] (new_watcher port) \<and> br_held rt c = None)"

lemma runtime_okD:
  assumes "runtime_ok port ex rt"
  shows "bw_portOverride (br_watcher rt) = port" "bw_exclude (br_watcher rt) = ex"
    "child_ok (br_watcher rt)" "bi.fresh (br_service rt)"
    "child_track (br_watcher rt) c (in_client (br_child rt c)) (br_held rt c)" "wi.fresh (br_child rt c)"
    "w_portOverride (in_client (br_child rt c)) = port"
    "bw_nextChild (br_watcher rt) \<le> c \<Longrightarrow> br_child rt c = informed_start [] (new_watcher port)"
    "bw_nextChild (br_watcher rt) \<le> c \<Longrightarrow> br_held rt c = None"
  using assms unfolding runtime_ok_def by blast+

lemma runtime_okI:
  assumes "bw_portOverride (br_watcher rt) = port" "bw_exclude (br_watcher rt) = ex"
    and "child_ok (br_watcher rt)" and "bi.fresh (br_service rt)"
    and "\<And>c. child_track (br_watcher rt) c (in_client (br_child rt c)) (br_held rt c)" and "\<And>c. wi.fresh (br_child rt c)"
    and "\<And>c. w_portOverride (in_client (br_child rt c)) = port"
    and "\<And>c. bw_nextChild (br_watcher rt) \<le> c \<Longrightarrow> br_child rt c = informed_start [] (new_watcher port) \<and> br_held rt c = None"
  shows "runtime_ok port ex rt"
  using assms unfolding runtime_ok_def by blast

lemma new_child_track [simp]: "child_track bw c (new_watcher port) None"
  by (auto simp: child_track_def watcher_feed_def new_watcher_def)

lemma runtime_ok_start: "runtime_ok port ex (backend_start port ex)"
  by (simp add: runtime_ok_def backend_start_def NewBackendWatcher_def child_ok_def) (simp add: new_watcher_def)

text \<open>A change of the backend watcher that keeps the child and its endpoints, or stops it, or starts the next one.\<close>

lemma track_change:
  assumes "child_track bw c w held"
    and "bw_child bw' = Some c \<Longrightarrow> bw_child bw = Some c \<and> (bw_synced bw \<longrightarrow> bw_synced bw') \<and> elems (bw_previous bw') = elems (bw_previous bw)"
  shows "child_track bw' c w held"
proof -
  obtain seen where "feed_ok (watcher_feed w) seen" and "case held of Some eps \<Rightarrow> seen = Some eps
      | None \<Rightarrow> bw_child bw = Some c \<longrightarrow> (case seen of None \<Rightarrow> True | Some eps \<Rightarrow> bw_synced bw \<and> elems (bw_previous bw) = elems eps)"
    using assms(1) unfolding child_track_def by blast
  then show ?thesis
    using assms(2) unfolding child_track_def by (intro exI [of _ seen]) (auto split: option.splits)
qed

lemma track_sync: "child_track bw c w held \<Longrightarrow> child_track bw c (watcher_sync listed w) held"
  unfolding child_track_def watcher_feed_sync using feed_ok_publish by blast

lemma track_take:
  assumes "child_track bw c w None" and "w_ch w = eps # rest"
  shows "child_track bw c (watcher_receive w) (Some eps)"
proof -
  obtain seen where "feed_ok (watcher_feed w) seen" using assms(1) unfolding child_track_def by blast
  from feed_ok_receive [OF this, of eps rest] have "feed_ok (watcher_feed (watcher_receive w)) (Some eps)"
    using assms(2) by (simp add: wf.feed_recv) (simp add: watcher_feed_def feed_chan_def)
  then show ?thesis unfolding child_track_def by auto
qed

lemma track_hand_over:
  assumes "child_track bw c w (Some eps)"
  shows "child_track (sendFromChild c eps bw) c w None"
  using assms by (auto simp: child_track_def sendFromChild_facts synced_sync)

lemma nextChild_conf:
  "bw_nextChild (sendFromChild c eps bw) = bw_nextChild bw" "bw_nextChild (stopEndpointSliceWatcherLocked bw) = bw_nextChild bw"
  "bw_child (stopEndpointSliceWatcherLocked bw) = None"
  by (auto simp: sendFromChild_def stopEndpointSliceWatcherLocked_def)

section \<open>Every step keeps the invariant\<close>

text \<open>What a step of \<open>Run\<close> does to the watcher: nothing, a \<open>syncService\<close>, or the stop of the child.\<close>

lemma service_step:
  obtains "br_watcher (backend_run_step (ServiceOp op) rt) = br_watcher rt"
  | s where "br_watcher (backend_run_step (ServiceOp op) rt) = syncService s (br_watcher rt)"
  | "br_watcher (backend_run_step (ServiceOp op) rt) = stopEndpointSliceWatcherLocked (br_watcher rt)"
  using informer_step_client [of syncService stopEndpointSliceWatcherLocked op "br_service rt"]
  by (auto simp: BackendWatcher_Run_def)

lemma service_child:
  assumes "child_ok (br_watcher rt)" and "bw_child (br_watcher (backend_run_step (ServiceOp op) rt)) = Some c"
  shows "c = bw_nextChild (br_watcher rt) \<or> bw_child (br_watcher rt) = Some c \<and>
     (bw_synced (br_watcher rt) \<longrightarrow> bw_synced (br_watcher (backend_run_step (ServiceOp op) rt))) \<and>
     elems (bw_previous (br_watcher (backend_run_step (ServiceOp op) rt))) = elems (bw_previous (br_watcher rt))"
proof (rule service_step [of op rt])
  fix s assume s: "br_watcher (backend_run_step (ServiceOp op) rt) = syncService s (br_watcher rt)"
  then have plain: "case s of None \<Rightarrow> False | Some svc \<Rightarrow> \<not> svc_isExternalName svc"
    using assms(2) by (auto simp: syncService_child(1) split: option.splits if_splits)
  then show ?thesis
    using assms(2) s syncService_spec [of s "br_watcher rt"] synced_sync(1)
    by (auto simp: syncService_child(1) split: option.splits)
qed (use assms in \<open>auto simp: nextChild_conf\<close>)

lemma service_next:
  "bw_nextChild (br_watcher rt) \<le> bw_nextChild (br_watcher (backend_run_step (ServiceOp op) rt))"
  by (rule service_step [of op rt]) (simp_all add: syncService_child(2) nextChild_conf)

lemma service_conf:
  "bw_portOverride (br_watcher (backend_run_step (ServiceOp op) rt)) = bw_portOverride (br_watcher rt)"
  "bw_exclude (br_watcher (backend_run_step (ServiceOp op) rt)) = bw_exclude (br_watcher rt)"
  by (rule service_step [of op rt]; simp add: backend_conf stopEndpointSliceWatcherLocked_def)+

lemma service_child_ok:
  assumes "child_ok (br_watcher rt)"
  shows "child_ok (br_watcher (backend_run_step (ServiceOp op) rt))"
proof (rule service_step [of op rt])
  fix s assume "br_watcher (backend_run_step (ServiceOp op) rt) = syncService s (br_watcher rt)"
  then show ?thesis using child_ok_step [of "(br_watcher rt, None)" "SyncService s"] assms by simp
qed (use assms in \<open>simp_all add: child_ok_def nextChild_conf\<close>)

lemma runtime_service:
  assumes "runtime_ok port ex rt"
  shows "runtime_ok port ex (backend_run_step (ServiceOp op) rt)"
proof -
  let ?rt = "backend_run_step (ServiceOp op) rt"
  note D = runtime_okD [OF assms]
  have rest: "br_child ?rt = br_child rt" "br_held ?rt = br_held rt" by simp_all
  show ?thesis
  proof (rule runtime_okI, unfold rest service_conf)
    fix c
    show "child_track (br_watcher ?rt) c (in_client (br_child rt c)) (br_held rt c)"
    proof (cases "c = bw_nextChild (br_watcher rt)")
      case True
      then show ?thesis using D(8,9) [of c] by (simp del: backend_run_step.simps)
    next
      case False
      with service_child [OF D(3), of op c] show ?thesis by (intro track_change [OF D(5)]) blast
    qed
    show "br_child rt c = informed_start [] (new_watcher port) \<and> br_held rt c = None"
      if "bw_nextChild (br_watcher ?rt) \<le> c"
      using D(8,9) [of c] order_trans [OF service_next [of rt op] that] by blast
    show "bi.fresh (br_service ?rt)" using D(4) bi.fresh_step by (simp add: BackendWatcher_Run_def)
  qed (use D service_child_ok in \<open>simp_all del: backend_run_step.simps\<close>)
qed

lemma watcher_run_inv:
  assumes "P (in_client r)" and "\<And>slices w. P w \<Longrightarrow> P (watcher_sync (Some slices) w)"
  shows "P (in_client (Watcher_Run op r))"
  unfolding Watcher_Run_def by (rule informer_step_inv) (use assms in simp_all)

text \<open>A step of the child \<open>c\<close> that was started.\<close>

lemma runtime_child:
  assumes "runtime_ok port ex rt" and "c < bw_nextChild (br_watcher rt)"
    and "child_track (br_watcher rt) c (in_client r) held" and "wi.fresh r" and "w_portOverride (in_client r) = port"
  shows "runtime_ok port ex (rt\<lparr>br_child := (br_child rt)(c := r), br_held := (br_held rt)(c := held)\<rparr>)"
  by (rule runtime_okI) (use assms(2-5) runtime_okD [OF assms(1)] in auto)

lemma runtime_slice:
  assumes "runtime_ok port ex rt"
  shows "runtime_ok port ex (backend_run_step (SliceOp c op) rt)"
proof (cases "c < bw_nextChild (br_watcher rt)")
  case True
  note D = runtime_okD [OF assms]
  have "runtime_ok port ex (rt\<lparr>br_child := (br_child rt)(c := Watcher_Run op (br_child rt c)), br_held := (br_held rt)(c := br_held rt c)\<rparr>)"
  proof (rule runtime_child [OF assms True])
    show "child_track (br_watcher rt) c (in_client (Watcher_Run op (br_child rt c))) (br_held rt c)"
      by (rule watcher_run_inv [where P = "\<lambda>w. child_track (br_watcher rt) c w (br_held rt c)"]) (rule D(5), rule track_sync)
    show "wi.fresh (Watcher_Run op (br_child rt c))" using D(6) wi.fresh_step by (simp add: Watcher_Run_def)
    show "w_portOverride (in_client (Watcher_Run op (br_child rt c))) = port"
      by (rule watcher_run_inv [where P = "\<lambda>w. w_portOverride w = port"]) (simp_all add: D(7) wf.conf_sync)
  qed
  then show ?thesis using True by simp
qed (use assms in simp)

lemma runtime_take:
  assumes "runtime_ok port ex rt"
  shows "runtime_ok port ex (backend_run_step (TakeFromChild c) rt)"
proof (cases "w_ch (in_client (br_child rt c)) = [] \<or> br_held rt c \<noteq> None")
  case True
  then show ?thesis using assms by (cases "w_ch (in_client (br_child rt c))") auto
next
  case False
  note D = runtime_okD [OF assms]
  from False obtain eps rest where e: "w_ch (in_client (br_child rt c)) = eps # rest" "br_held rt c = None"
    by (cases "w_ch (in_client (br_child rt c))") auto
  have "\<not> bw_nextChild (br_watcher rt) \<le> c"
  proof
    assume "bw_nextChild (br_watcher rt) \<le> c"
    from D(8) [OF this] e(1) show False by (simp add: new_watcher_def)
  qed
  then have c: "c < bw_nextChild (br_watcher rt)" by simp
  have "runtime_ok port ex (rt\<lparr>br_child := (br_child rt)(c := informed_map watcher_receive (br_child rt c)), br_held := (br_held rt)(c := Some eps)\<rparr>)"
  proof (rule runtime_child [OF assms c])
    show "child_track (br_watcher rt) c (in_client (informed_map watcher_receive (br_child rt c))) (Some eps)"
      using track_take [OF _ e(1)] D(5) [of c] e(2) by simp
  qed (simp_all add: D(7) wf.conf_recv wi.fresh_other [OF D(6)])
  then show ?thesis using e by simp
qed

lemma runtime_hand_over:
  assumes "runtime_ok port ex rt"
  shows "runtime_ok port ex (backend_run_step (HandOver c) rt)"
proof (cases "br_held rt c")
  case None
  then show ?thesis using assms by simp
next
  case (Some eps)
  note D = runtime_okD [OF assms]
  have "c < bw_nextChild (br_watcher rt)" using D(9) [of c] Some by (cases "bw_nextChild (br_watcher rt) \<le> c") auto
  show ?thesis
  proof (rule runtime_okI)
    fix d
    show "child_track (br_watcher (backend_run_step (HandOver c) rt)) d (in_client (br_child (backend_run_step (HandOver c) rt) d))
        (br_held (backend_run_step (HandOver c) rt) d)"
    proof (cases "d = c")
      case True
      then show ?thesis using track_hand_over D(5) [of c] Some by simp
    next
      case False
      then show ?thesis using D(5) [of d] Some sendFromChild_facts(2) [of c eps "br_watcher rt"] sendFromChild_facts(4) [of "br_watcher rt" c eps]
        by (cases "bw_child (br_watcher rt) = Some c") (auto intro: track_change)
    qed
    show "bi.fresh (br_service (backend_run_step (HandOver c) rt))"
      using bi.fresh_other [OF D(4), of "FromChild c eps"] Some by (simp add: informed_map_def)
  qed (use D Some in \<open>auto simp: backend_conf nextChild_conf child_ok_def sendFromChild_facts cong: option.case_cong\<close>)
qed

lemma runtime_step: "runtime_ok port ex rt \<Longrightarrow> runtime_ok port ex (backend_run_step op rt)"
  using runtime_service runtime_slice runtime_take runtime_hand_over by (cases op) blast+

lemma runtime_receive:
  assumes "runtime_ok port ex rt"
  shows "runtime_ok port ex (backend_runtime_receive rt)"
proof (rule runtime_okI)
  note D = runtime_okD [OF assms]
  fix c
  show "child_track (br_watcher (backend_runtime_receive rt)) c (in_client (br_child (backend_runtime_receive rt) c))
      (br_held (backend_runtime_receive rt) c)"
    using D(5) by (simp add: backend_runtime_receive_def) (rule track_change, auto simp: bw_receive_def)
  show "bi.fresh (br_service (backend_runtime_receive rt))"
    using bi.fresh_other [OF D(4), of TakenOut] by (simp add: backend_runtime_receive_def informed_map_def)
qed (use runtime_okD [OF assms] in \<open>auto simp: backend_runtime_receive_def bw_receive_def child_ok_def cong: option.case_cong\<close>)

section \<open>What a backend serves\<close>

text \<open>
  The specification: no Service serves nothing, an ExternalName Service its host, any other the endpoints of
  the EndpointSlices; with the labels and the filtered annotations of the Service.
\<close>

definition backend_truth :: "string \<Rightarrow> (string \<Rightarrow> bool) option \<Rightarrow> k8s_service option \<Rightarrow> endpoint_slice list \<Rightarrow>
    endpoint list \<times> strmap \<times> strmap" where
  "backend_truth port ex s slices =
     (case s of
        None \<Rightarrow> ([], fmempty, fmempty)
      | Some svc \<Rightarrow>
          (if svc_isExternalName svc then
             (if svc_ExternalName svc = [] then []
              else (case (if port = [] then Some 80 else parse_int 32 port) of None \<Rightarrow> []
                    | Some p \<Rightarrow> [external_endpoint (svc_ExternalName svc) p]))
           else elems (served port slices), svc_Labels svc, filterAnnotations (svc_Annotations svc) ex))"

text \<open>Nothing is under way inside the watcher: both \<open>Run\<close>s serve, and the goroutine of the child waits.\<close>

definition runtime_quiet :: "backend_runtime \<Rightarrow> bool" where
  "runtime_quiet rt \<longleftrightarrow> in_pc (br_service rt) = Serving \<and> in_undelivered (br_service rt) = 0 \<and>
     (case bw_child (br_watcher rt) of None \<Rightarrow> True
      | Some c \<Rightarrow> in_pc (br_child rt c) = Serving \<and> in_undelivered (br_child rt c) = 0 \<and>
          w_ch (in_client (br_child rt c)) = [] \<and> br_held rt c = None)"

definition current_slices :: "backend_runtime \<Rightarrow> endpoint_slice list" where
  "current_slices rt = (case bw_child (br_watcher rt) of None \<Rightarrow> [] | Some c \<Rightarrow> in_cache (br_child rt c))"

theorem runtime_serves_truth:
  assumes "runtime_ok port ex rt" and "runtime_quiet rt"
  shows "(elems (bw_previous (br_watcher rt)), bw_labels (br_watcher rt), bw_annotations (br_watcher rt)) =
    backend_truth port ex (in_cache (br_service rt)) (current_slices rt) \<and> bw_synced (br_watcher rt)"
proof -
  note D = runtime_okD [OF assms(1)]
  have told: "backend_told (in_cache (br_service rt)) (br_watcher rt)"
    using assms(2) by (intro bi.told_now D(4)) (simp_all add: runtime_quiet_def)
  have "bw_synced (br_watcher rt) \<and> elems (bw_previous (br_watcher rt)) = elems (served port (in_cache (br_child rt c)))"
    if c: "bw_child (br_watcher rt) = Some c" for c
  proof -
    let ?w = "in_client (br_child rt c)"
    have q: "in_pc (br_child rt c) = Serving" "in_undelivered (br_child rt c) = 0" "w_ch ?w = []" "br_held rt c = None"
      using assms(2) c by (simp_all add: runtime_quiet_def)
    have r: "child_track (br_watcher rt) c ?w None" "wi.fresh (br_child rt c)" "w_portOverride ?w = port"
      using D(5) [of c] D(6,7) q(4) by simp_all
    have "w_synced ?w \<and> elems (w_previous ?w) = elems (served port (in_cache (br_child rt c)))"
      using wi.told_now [OF r(2) q(1,2)] r(3) by (simp add: wf.current_def watcher_feed_def EndpointsEqual_iff)
    moreover obtain seen where "feed_ok (watcher_feed ?w) seen"
      "case seen of None \<Rightarrow> True | Some eps \<Rightarrow> bw_synced (br_watcher rt) \<and> elems (bw_previous (br_watcher rt)) = elems eps"
      using r(1) c by (auto simp: child_track_def)
    ultimately show ?thesis using q(3) by (auto simp: watcher_feed_def)
  qed
  with told show ?thesis
    by (auto simp: backend_told_def backend_truth_def current_slices_def D(1,2) Metadata_def resolveExternalPort_def
        split: option.splits)
qed

end
