(* ===== verification/ClusterPipeline.thy ===== *)
theory ClusterPipeline
  imports BackendRuntime
begin

text \<open>
  From the caches of the informers to the inputs of the event loop: the pipelines of \<open>Pipeline\<close> with running
  watchers in front, whose changes are what the informers store and the handlers they call. The locale
  \<open>informed_pipeline\<close> joins the contracts of the watchers, their informers and the consumer.
\<close>

section \<open>Running watchers in a pipeline\<close>

lemma pipe_watch_inv:
  assumes "P (pl_watch p name)" and "\<And>i s. P s \<Longrightarrow> P (change i s)" and "\<And>s. P s \<Longrightarrow> P (recv s)"
  shows "P (pl_watch (pipe_run change recv chan ready deliver proceed ops p) name)"
  using assms(1)
proof (induction ops arbitrary: p)
  case (Cons op ops)
  have "P (pl_watch (pipe_step change recv chan ready deliver proceed op p) name)"
    using Cons.prems assms(2,3) by (cases op) (auto split: list.split)
  from Cons.IH [OF this] show ?case by (simp add: pipe_run_def)
qed (simp add: pipe_run_def)

lemma feed_run_inv:
  assumes "P (fst r)" and "\<And>i s. P s \<Longrightarrow> P (change i s)" and "\<And>s. P s \<Longrightarrow> P (recv s)"
  shows "P (fst (feed_run change recv chan ops r))"
  using assms(1)
proof (induction ops arbitrary: r)
  case (Cons op ops)
  then show ?case using assms(2,3) by (cases op) (auto split: list.split)
qed simp

text \<open>The feed of a running watcher keeps the contract of its watcher, through whatever its informer does.\<close>

context snapshot_feed
begin

lemma run_snapshot_ok:
  assumes "feed_ok (feed (fst r)) (snd r)"
  shows "feed_ok (feed (fst (feed_run change receive (\<lambda>s. feed_chan (feed s)) ops r)))
    (snd (feed_run change receive (\<lambda>s. feed_chan (feed s)) ops r))"
  using assms
proof (induction ops arbitrary: r)
  case (Cons op ops)
  then show ?case
    using change_ok feed_ok_receive [OF Cons.prems] by (cases op) (auto simp: recv_feed split: list.split)
qed simp

end

context informed_feed
begin

abbreviation istep :: "'o informer_op \<Rightarrow> ('o, 's) informed \<Rightarrow> ('o, 's) informed" where
  "istep \<equiv> informer_step (\<lambda>c. sync (look c)) id"

lemma istep_ok: "feed_ok (feed (in_client r)) seen \<Longrightarrow> feed_ok (feed (in_client (istep op r))) seen"
  by (rule informer_step_inv [where P = "\<lambda>s. feed_ok (feed s) seen"]) (simp_all add: feed_sync feed_ok_publish)

lemma istep_conf: "conf (in_client r) = c \<Longrightarrow> conf (in_client (istep op r)) = c"
  by (rule informer_step_inv [where P = "\<lambda>s. conf s = c"]) (simp_all add: conf_sync)

end

locale informed_pipeline = informed_feed feed conf sync val receive same look shown +
    source_pipeline "\<lambda>r. feed (in_client r)" "informer_step (\<lambda>c. sync (look c)) id" "informed_map receive"
      ready deliver proceed stored latest own
  for feed :: "'s \<Rightarrow> 'v feed"
    and conf :: "'s \<Rightarrow> 'c"
    and sync :: "'i \<Rightarrow> 's \<Rightarrow> 's"
    and val :: "'c \<Rightarrow> 'i \<Rightarrow> 'v option"
    and receive :: "'s \<Rightarrow> 's"
    and same :: "'v \<Rightarrow> 'v \<Rightarrow> bool"
    and look :: "'o \<Rightarrow> 'i"
    and shown :: "'c \<Rightarrow> 'o \<Rightarrow> 'v"
    and ready :: "'e \<Rightarrow> 'l \<Rightarrow> bool"
    and deliver :: "'e \<Rightarrow> string \<Rightarrow> 'v \<Rightarrow> 'l \<Rightarrow> 'l"
    and proceed :: "'e \<Rightarrow> 'l \<Rightarrow> 'l"
    and stored :: "'v \<Rightarrow> 'u"
    and latest :: "'l \<Rightarrow> string \<Rightarrow> 'u option"
    and own :: "string \<Rightarrow> bool"
begin

text \<open>
  From the start of a watcher to a moment when its \<open>Run\<close> serves and nothing of it is under way, no
  notification and no change in a channel: the consumer stores what the cache of the informer holds.
\<close>

theorem cache_stored:
  assumes "own name" and "feed_ok (feed w) None"
    and "feed_run istep (informed_map receive) (\<lambda>r. chan (in_client r)) pre (informed_start c0 w, None) = (pl_watch p name, Some v0)"
    and "pl_fan p = fan_start cap" and "latest (pl_loop p) name = Some (stored v0)"
    and "pipe_settled (\<lambda>r. chan (in_client r)) name (prun ops p)"
    and "in_pc (pl_watch (prun ops p) name) = Serving" and "in_undelivered (pl_watch (prun ops p) name) = 0"
  shows "\<exists>u. latest (pl_loop (prun ops p)) name = Some (stored u) \<and>
    same u (shown (conf w) (in_cache (pl_watch (prun ops p) name)))"
proof -
  have "feed_ok (feed (in_client (pl_watch p name))) (Some v0)"
    using run_snapshot_ok [of "(informed_start c0 w, None)" pre] assms(2,3) by simp
  note stored = snapshot_stored [OF assms(1) this assms(4,5,6)]
  have start: "fresh (fst (informed_start c0 w, None)) \<and> conf (in_client (fst (informed_start c0 w, None))) = conf w" by simp
  have step: "fresh (istep i s) \<and> conf (in_client (istep i s)) = conf w" "fresh (informed_map receive s) \<and> conf (in_client (informed_map receive s)) = conf w"
    if "fresh s \<and> conf (in_client s) = conf w" for i s
    using that fresh_step fresh_other istep_conf by (auto simp: conf_recv)
  have "fresh (pl_watch p name) \<and> conf (in_client (pl_watch p name)) = conf w"
    using feed_run_inv [where P = "\<lambda>s. fresh s \<and> conf (in_client s) = conf w" and change = istep and recv = "informed_map receive", OF start step,
      where ops = pre and chan = "\<lambda>r. chan (in_client r)"] unfolding assms(3) fst_conv .
  then have now: "fresh (pl_watch (prun ops p) name) \<and> conf (in_client (pl_watch (prun ops p) name)) = conf w"
    by (rule pipe_watch_inv [where P = "\<lambda>s. fresh s \<and> conf (in_client s) = conf w"]) (fact step)+
  have "current (shown (conf w) (in_cache (pl_watch (prun ops p) name))) (in_client (pl_watch (prun ops p) name))"
    using told_now [OF conjunct1 [OF now] assms(7,8)] conjunct2 [OF now] by simp
  then show ?thesis using stored(2) by (auto simp: current_def)
qed

end

section \<open>ConfigMaps, Secrets and certificates\<close>

interpretation icp: informed_pipeline value_feed "\<lambda>_. ()" "configmap_sync yaml float" "\<lambda>_ cm. Some (decoded_object yaml float cm)"
  value_receive "(=)" id "\<lambda>_. decoded_object yaml float" loop_ready "loop_deliver exec H cf (\<lambda>n v. ValuesEv n (entries_of v))"
  "loop_proceed exec H cf is_ValuesEv" entries_of "\<lambda>l n. fmlookup (in_Values (ls_inputs (fst l))) n" "\<lambda>_. True"
  by unfold_locales (auto simp: value_feed_receive cp.latest_deliver cp.latest_proceed dest: ci.istep_ok)

interpretation isp: informed_pipeline value_feed "\<lambda>_. ()" "secret_sync yaml float" "\<lambda>_ cm. Some (decoded_object yaml float cm)"
  value_receive "(=)" id "\<lambda>_. decoded_object yaml float" loop_ready "loop_deliver exec H cf (\<lambda>n v. SecretsEv n (entries_of v))"
  "loop_proceed exec H cf is_SecretsEv" entries_of "\<lambda>l n. fmlookup (in_Secrets (ls_inputs (fst l))) n" "\<lambda>_. True"
  by unfold_locales (auto simp: value_feed_receive sp.latest_deliver sp.latest_proceed dest: si.istep_ok)

interpretation itp: informed_pipeline value_feed "\<lambda>_. ()" tls_sync "\<lambda>_ secret. Some (tls_material secret)"
  value_receive tls_equal id "\<lambda>_. tls_material" loop_ready "loop_deliver exec H cf TLSEv" "loop_proceed exec H cf is_TLSEv"
  id "\<lambda>l n. fmlookup (ls_latestTLS (fst l)) n" "\<lambda>_. True"
  by unfold_locales (auto simp: value_feed_receive tp.latest_deliver tp.latest_proceed dest: ti.istep_ok)

abbreviation run_ch :: "('o, 'v value_watcher) informed \<Rightarrow> 'v list" where
  "run_ch r \<equiv> vw_ch (in_client r)"

lemma configmap_cache_stored:
  assumes "feed_run (ConfigMapWatcher_Run yaml float) (informed_map value_receive) run_ch pre (informed_start c0 NewConfigMapWatcher, None) =
      (pl_watch p0 name, Some v0)"
    and "pl_fan p0 = fan_start cap" and "fmlookup (in_Values (ls_inputs (fst (pl_loop p0)))) name = Some (entries_of v0)"
    and "p = pipe_run (ConfigMapWatcher_Run yaml float) (informed_map value_receive) run_ch loop_ready
        (loop_deliver exec H cf (\<lambda>n v. ValuesEv n (entries_of v))) (loop_proceed exec H cf is_ValuesEv) ops p0"
    and "pipe_settled run_ch name p" and "in_pc (pl_watch p name) = Serving" and "in_undelivered (pl_watch p name) = 0"
  shows "fmlookup (in_Values (ls_inputs (fst (pl_loop p)))) name =
      Some (entries_of (decoded_object yaml float (in_cache (pl_watch p name))))"
  using icp.cache_stored [where w = NewConfigMapWatcher and p = p0 and name = name and pre = pre and ops = ops and ?v0.0 = v0
      and cap = cap and ?c0.0 = c0 and yaml = yaml and float = float and exec = exec and H = H and cf = cf] assms
  by (simp add: ConfigMapWatcher_Run_def)

lemma secret_cache_stored:
  assumes "feed_run (SecretWatcher_Run yaml float) (informed_map value_receive) run_ch pre (informed_start c0 NewSecretWatcher, None) =
      (pl_watch p0 name, Some v0)"
    and "pl_fan p0 = fan_start cap" and "fmlookup (in_Secrets (ls_inputs (fst (pl_loop p0)))) name = Some (entries_of v0)"
    and "p = pipe_run (SecretWatcher_Run yaml float) (informed_map value_receive) run_ch loop_ready
        (loop_deliver exec H cf (\<lambda>n v. SecretsEv n (entries_of v))) (loop_proceed exec H cf is_SecretsEv) ops p0"
    and "pipe_settled run_ch name p" and "in_pc (pl_watch p name) = Serving" and "in_undelivered (pl_watch p name) = 0"
  shows "fmlookup (in_Secrets (ls_inputs (fst (pl_loop p)))) name =
      Some (entries_of (decoded_object yaml float (in_cache (pl_watch p name))))"
  using isp.cache_stored [where w = NewSecretWatcher and p = p0 and name = name and pre = pre and ops = ops and ?v0.0 = v0
      and cap = cap and ?c0.0 = c0 and yaml = yaml and float = float and exec = exec and H = H and cf = cf] assms
  by (simp add: SecretWatcher_Run_def)

lemma tls_cache_stored:
  assumes "feed_run TLSCertWatcher_Run (informed_map value_receive) run_ch pre (informed_start c0 NewTLSCertWatcher, None) =
      (pl_watch p0 name, Some v0)"
    and "pl_fan p0 = fan_start cap" and "fmlookup (ls_latestTLS (fst (pl_loop p0))) name = Some v0"
    and "p = pipe_run TLSCertWatcher_Run (informed_map value_receive) run_ch loop_ready
        (loop_deliver exec H cf TLSEv) (loop_proceed exec H cf is_TLSEv) ops p0"
    and "pipe_settled run_ch name p" and "in_pc (pl_watch p name) = Serving" and "in_undelivered (pl_watch p name) = 0"
  shows "fmlookup (ls_latestTLS (fst (pl_loop p))) name = Some (tls_material (in_cache (pl_watch p name)))"
  using itp.cache_stored [where w = NewTLSCertWatcher and p = p0 and name = name and pre = pre and ops = ops and ?v0.0 = v0
      and cap = cap and ?c0.0 = c0 and exec = exec and H = H and cf = cf] assms
  by (simp add: TLSCertWatcher_Run_def)

section \<open>Explicit backends\<close>

lemma backend_run_ok:
  assumes "feed_ok (backend_runtime_feed rt) seen"
  shows "feed_ok (backend_runtime_feed (backend_run_step op rt)) seen"
proof (cases op)
  case (ServiceOp sop)
  have stop: "bw_ok (stopEndpointSliceWatcherLocked bw, seen)" if "bw_ok (bw, seen)" for bw
    using that by (simp add: stopEndpointSliceWatcherLocked_def bw_ok_frame [of "bw\<lparr>bw_child := None\<rparr>" bw])
  have "bw_ok (in_client (BackendWatcher_Run sop (br_service rt)), seen)"
    unfolding BackendWatcher_Run_def
    by (rule informer_step_inv [where P = "\<lambda>bw. bw_ok (bw, seen)"])
      (use assms backend_change_ok [of _ seen "ServiceEvent _"] stop in \<open>simp_all add: backend_runtime_feed_def backend_feed_ok\<close>)
  then show ?thesis using ServiceOp by (simp add: backend_runtime_feed_def backend_feed_ok)
next
  case (HandOver c)
  then show ?thesis using assms backend_change_ok [of "br_watcher rt" seen "ChildEvent c _"]
    by (auto simp: backend_runtime_feed_def backend_feed_ok split: option.split)
qed (use assms in \<open>auto simp: backend_runtime_feed_def split: list.split\<close>)

interpretation ibp: source_pipeline backend_runtime_feed backend_run_step backend_runtime_receive loop_ready
  "loop_deliver exec H cf (\<lambda>n st. BackendEv (explicit_change n st))" "loop_proceed exec H cf (is_explicit names)"
  group_of_state "\<lambda>l n. fmlookup (in_Backends (ls_inputs (fst l))) n" "\<lambda>n. n \<in> set names"
proof
  show "feed_ok (backend_runtime_feed (backend_run_step i s)) seen" if "feed_ok (backend_runtime_feed s) seen" for s seen i
    using that by (rule backend_run_ok)
qed (simp_all add: backend_runtime_receive_def backend_runtime_feed_def bp.recv_feed bp.latest_deliver bp.latest_proceed)

abbreviation br_ch :: "backend_runtime \<Rightarrow> BackendState list" where
  "br_ch rt \<equiv> bw_ch (br_watcher rt)"

lemma br_ch_feed: "feed_chan (backend_runtime_feed rt) = br_ch rt"
  by (simp add: backend_runtime_feed_def)

lemma backend_cache_stored:
  assumes "feed_run backend_run_step backend_runtime_receive br_ch pre (backend_start port ex, None) = (pl_watch p0 name, Some v0)"
    and "pl_fan p0 = fan_start cap" and "fmlookup (in_Backends (ls_inputs (fst (pl_loop p0)))) name = Some (group_of_state v0)"
    and "name \<in> set names"
    and "p = pipe_run backend_run_step backend_runtime_receive br_ch loop_ready
        (loop_deliver exec H cf (\<lambda>n st. BackendEv (explicit_change n st))) (loop_proceed exec H cf (is_explicit names)) ops p0"
    and "pipe_settled br_ch name p" and "runtime_quiet (pl_watch p name)"
  shows "map_option (\<lambda>bg. (elems (bg_Endpoints bg), bg_Labels bg, bg_Annotations bg)) (fmlookup (in_Backends (ls_inputs (fst (pl_loop p)))) name) =
    Some (backend_truth port ex (in_cache (br_service (pl_watch p name))) (current_slices (pl_watch p name)))"
proof -
  let ?w = "pl_watch p name"
  have start: "feed_ok (backend_runtime_feed (backend_start port ex)) None"
    using bw_ok_new by (simp add: backend_runtime_feed_def backend_feed_ok backend_start_def)
  have "feed_ok (backend_runtime_feed (pl_watch p0 name)) (Some v0)"
    using ibp.run_snapshot_ok [of "(backend_start port ex, None)" pre, unfolded br_ch_feed] start assms(1) by simp
  note stored = ibp.snapshot_stored(2) [unfolded br_ch_feed, OF assms(4) this assms(2,3) assms(6) [unfolded assms(5)], folded assms(5)]
  have "runtime_ok port ex (pl_watch p0 name)"
    using feed_run_inv [where P = "runtime_ok port ex" and r = "(backend_start port ex, None)" and change = backend_run_step
        and recv = backend_runtime_receive] runtime_ok_start runtime_step runtime_receive assms(1) by (metis fst_conv)
  then have "runtime_ok port ex ?w"
    unfolding assms(5) by (rule pipe_watch_inv) (simp_all add: runtime_step runtime_receive)
  from runtime_serves_truth [OF this assms(7)] stored show ?thesis
    by (simp add: backend_runtime_feed_def backend_feed_def snapshotLocked_def group_of_state_def)
qed

end
