(* ===== verification/DiscoveryFlow.thy ===== *)
theory DiscoveryFlow
  imports ClusterPipeline DiscoveryWorld LoopProps
begin

text \<open>
  Discovered backends on their way into the event loop (\<open>discovery_watcher.go\<close> and the fan-in of \<open>main.go\<close>):
  the world of the watchers of \<open>DiscoveryWorld\<close>, behind every adopted backend its running watcher, the goroutine
  that forwards its states with the generation of the backend, and the removals that a reconcile sends behind
  its lock. The updates go through the channels of their watcher, the goroutine of the fan-in and the channel
  of the loop, while those of another watcher overtake them; here what is under way is one list from which any
  update may be received whose predecessors of the same backend and generation were, and a removal at any time,
  which allows every order those channels allow. That watchers shut down is left out: the controller runs.
\<close>

section \<open>The steps\<close>

record ('t, 'h) flow =
  fl_world :: world
  fl_adopted :: "managedBackend list"
  fl_child :: "string \<Rightarrow> nat \<Rightarrow> backend_runtime"
  fl_net :: "BackendUpdate list"
  fl_seen :: "BackendUpdate list"
  fl_loop :: "('t, 'h) timed_loop"

text \<open>A reconcile: what it adopts starts to run, what it removed is sent.\<close>

definition flow_reconcile :: "nat \<Rightarrow> k8s_service list \<Rightarrow> string list \<Rightarrow> world \<Rightarrow> ('t, 'h) flow \<Rightarrow> ('t, 'h) flow" where
  "flow_reconcile wid svcs order w f =
     (case fmlookup (wd_watchers w) wid of
        None \<Rightarrow> f
      | Some dw \<Rightarrow>
          (let ((reg, gen, dw'), upds) = syncServices (Some svcs) order (wd_registry w) (wd_gen w) dw
           in f\<lparr>fl_world := reconcile_in wid svcs order w,
                fl_adopted := fl_adopted f @ (case dw_backends dw' of None \<Rightarrow> []
                  | Some b \<Rightarrow> filter (\<lambda>mb. wd_gen w < mb_gen mb) (fmvalues b)),
                fl_net := fl_net f @ upds\<rparr>))"

text \<open>The goroutine of an adopted backend takes a state of its watcher and sends it on.\<close>

definition flow_forward :: "managedBackend \<Rightarrow> ('t, 'h) flow \<Rightarrow> ('t, 'h) flow" where
  "flow_forward mb f =
     (let rt = fl_child f (mb_name mb) (mb_gen mb)
      in case br_ch rt of
           [] \<Rightarrow> f
         | st # _ \<Rightarrow> f\<lparr>fl_child := (fl_child f)(mb_name mb := (fl_child f (mb_name mb))(mb_gen mb := backend_runtime_receive rt)),
                        fl_net := fl_net f @ [forward_update mb st]\<rparr>)"

definition flow_child :: "managedBackend \<Rightarrow> backend_op \<Rightarrow> ('t, 'h) flow \<Rightarrow> ('t, 'h) flow" where
  "flow_child mb op f =
     f\<lparr>fl_child := (fl_child f)(mb_name mb :=
         (fl_child f (mb_name mb))(mb_gen mb := backend_run_step op (fl_child f (mb_name mb) (mb_gen mb))))\<rparr>"

text \<open>Updates of one backend and generation keep their order; a removal is the last word anyway.\<close>

definition same_source :: "BackendUpdate \<Rightarrow> BackendUpdate \<Rightarrow> bool" where
  "same_source u v \<longleftrightarrow> bu_Name u = bu_Name v \<and> bu_Gen u = bu_Gen v \<and> bu_Endpoints u \<noteq> None \<and> bu_Endpoints v \<noteq> None"

text \<open>
  The loop goes on with everything that is not an update of a discovered backend. A sweep does not evict the
  tombstone of the backend looked at: the code keeps it far longer than an update can be under way.
\<close>

definition flow_other :: "loop_config \<Rightarrow> string \<Rightarrow> int \<Rightarrow> 't loop_event \<Rightarrow> ('t, 'h) loop_state \<Rightarrow> bool" where
  "flow_other cf n now ev st =
     (case ev of
        BackendEv bc \<Rightarrow> bc_name bc \<noteq> n
      | TombstoneSweep \<Rightarrow> fmlookup (sweepExpiredTombstones now (cf_backendTombstoneTTL cf) (ls_removedGen st)) n = fmlookup (ls_removedGen st) n
      | _ \<Rightarrow> True)"

inductive flow_reach :: "('t \<Rightarrow> template_data \<Rightarrow> string option) \<Rightarrow> (string \<Rightarrow> 'h) \<Rightarrow> loop_config \<Rightarrow> (nat \<Rightarrow> string fset) \<Rightarrow> nat fset \<Rightarrow>
    (string \<Rightarrow> nat \<Rightarrow> string) \<Rightarrow> (string \<Rightarrow> bool) option \<Rightarrow> string \<Rightarrow> ('t, 'h) timed_loop \<Rightarrow> ('t, 'h) flow \<Rightarrow> bool"
  for exec H cf explicit ids port ex n l0 where
  start: "flow_reach exec H cf explicit ids port ex n l0
    \<lparr>fl_world = start_world explicit ids, fl_adopted = [], fl_child = (\<lambda>m g. backend_start (port m g) ex), fl_net = [], fl_seen = [], fl_loop = l0\<rparr>"
| subscribe: "flow_reach exec H cf explicit ids port ex n l0 f \<Longrightarrow> fmlookup (wd_watchers (fl_world f)) wid = Some dw \<Longrightarrow>
    flow_reach exec H cf explicit ids port ex n l0
      (f\<lparr>fl_world := (fl_world f)\<lparr>wd_registry := snd (registry_subscribe wid (wd_registry (fl_world f)))\<rparr>\<rparr>)"
| event: "flow_reach exec H cf explicit ids port ex n l0 f \<Longrightarrow> fmlookup (wd_watchers (fl_world f)) wid = Some dw \<Longrightarrow> covers order dw \<Longrightarrow>
    wid |\<in>| fmran (nr_subscribers (wd_registry (fl_world f))) \<Longrightarrow>
    flow_reach exec H cf explicit ids port ex n l0 (flow_reconcile wid svcs order (fl_world f) f)"
| kicked: "flow_reach exec H cf explicit ids port ex n l0 f \<Longrightarrow> fmlookup (wd_watchers (fl_world f)) wid = Some dw \<Longrightarrow> covers order dw \<Longrightarrow>
    wid |\<in>| fmran (nr_subscribers (wd_registry (fl_world f))) \<Longrightarrow> wid |\<in>| nr_kicks (wd_registry (fl_world f)) \<Longrightarrow>
    flow_reach exec H cf explicit ids port ex n l0 (flow_reconcile wid svcs order
      ((fl_world f)\<lparr>wd_registry := (wd_registry (fl_world f))\<lparr>nr_kicks := nr_kicks (wd_registry (fl_world f)) |-| {|wid|}\<rparr>\<rparr>) f)"
| initialized: "flow_reach exec H cf explicit ids port ex n l0 f \<Longrightarrow> fmlookup (wd_watchers (fl_world f)) wid = Some dw \<Longrightarrow>
    flow_reach exec H cf explicit ids port ex n l0
      (f\<lparr>fl_world := (fl_world f)\<lparr>wd_watchers := fmupd wid (finish_initial dw) (wd_watchers (fl_world f))\<rparr>\<rparr>)"
| child: "flow_reach exec H cf explicit ids port ex n l0 f \<Longrightarrow> mb \<in> set (fl_adopted f) \<Longrightarrow>
    flow_reach exec H cf explicit ids port ex n l0 (flow_child mb op f)"
| forward: "flow_reach exec H cf explicit ids port ex n l0 f \<Longrightarrow> mb \<in> set (fl_adopted f) \<Longrightarrow>
    flow_reach exec H cf explicit ids port ex n l0 (flow_forward mb f)"
| deliver: "flow_reach exec H cf explicit ids port ex n l0 f \<Longrightarrow> fl_net f = us @ u # vs \<Longrightarrow> list_all (\<lambda>v. \<not> same_source v u) us \<Longrightarrow>
    loop_ready (now, BackendEv (backendChangeFromUpdate u)) (fl_loop f) \<Longrightarrow>
    flow_reach exec H cf explicit ids port ex n l0 (f\<lparr>fl_net := us @ vs, fl_seen := fl_seen f @ [u],
      fl_loop := (loop_handle exec H cf now (BackendEv (backendChangeFromUpdate u)) (fst (fl_loop f)), now)\<rparr>)"
| proceed: "flow_reach exec H cf explicit ids port ex n l0 f \<Longrightarrow> loop_ready (now, ev) (fl_loop f) \<Longrightarrow>
    loop_enabled cf now ev (fst (fl_loop f)) \<Longrightarrow> flow_other cf n now ev (fst (fl_loop f)) \<Longrightarrow>
    flow_reach exec H cf explicit ids port ex n l0 (f\<lparr>fl_loop := (loop_handle exec H cf now ev (fst (fl_loop f)), now)\<rparr>)"

section \<open>What of it is known already\<close>

lemma flow_reconcile_simps [simp]:
  "fl_loop (flow_reconcile wid svcs order w f) = fl_loop f" "fl_seen (flow_reconcile wid svcs order w f) = fl_seen f"
  "fl_child (flow_reconcile wid svcs order w f) = fl_child f"
  by (auto simp: flow_reconcile_def Let_def split: option.split prod.split)

lemma flow_reconcile_world:
  "fmlookup (wd_watchers w) wid = Some dw \<Longrightarrow> fl_world (flow_reconcile wid svcs order w f) = reconcile_in wid svcs order w"
  by (auto simp: flow_reconcile_def Let_def split: prod.split)

lemma flow_forward_simps [simp]:
  "fl_world (flow_forward mb f) = fl_world f" "fl_adopted (flow_forward mb f) = fl_adopted f"
  "fl_seen (flow_forward mb f) = fl_seen f" "fl_loop (flow_forward mb f) = fl_loop f"
  by (auto simp: flow_forward_def Let_def split: list.split)

text \<open>The watchers are a world of \<open>DiscoveryWorld\<close>, the loop is in a state it reaches.\<close>

lemma flow_world: "flow_reach exec H cf explicit ids port ex n l0 f \<Longrightarrow> disc_world explicit ids (fl_world f)"
proof (induction rule: flow_reach.induct)
  case (event f wid dw order svcs)
  then show ?case using disc_world.event by (simp add: flow_reconcile_world)
next
  case (kicked f wid dw order svcs)
  then show ?case using disc_world.kicked [of explicit ids "fl_world f" wid dw order svcs] by (simp add: flow_reconcile_world)
qed (auto simp: flow_child_def intro: disc_world.intros)

lemma flow_loop:
  "flow_reach exec H cf explicit ids port ex n l0 f \<Longrightarrow> loop_reach exec H cf (fst l0) (snd l0) (fst (fl_loop f)) (snd (fl_loop f))"
proof (induction rule: flow_reach.induct)
  case (deliver f us u vs now)
  then show ?case
    using loop_reach.iterate [of exec H cf "fst l0" "snd l0" "fst (fl_loop f)" "snd (fl_loop f)" now "BackendEv (backendChangeFromUpdate u)"]
    by (simp add: loop_ready_def)
next
  case (proceed f now ev)
  then show ?case by (auto simp: loop_ready_def intro: loop_reach.iterate)
qed (auto simp: flow_child_def loop_reach.start)

lemma flow_children:
  "flow_reach exec H cf explicit ids port ex n l0 f \<Longrightarrow> mb \<in> set (fl_adopted f) \<Longrightarrow>
     flow_reach exec H cf explicit ids port ex n l0 (fold (flow_child mb) ops f)"
proof (induction ops arbitrary: f)
  case (Cons op ops)
  have "fl_adopted (flow_child mb op f) = fl_adopted f" by (simp add: flow_child_def)
  then show ?case using Cons.IH [OF flow_reach.child [OF Cons.prems, of op]] Cons.prems(2) by simp
qed simp

lemma flow_children_state:
  "fl_child (fold (flow_child mb) ops f) = (fl_child f)(mb_name mb := (fl_child f (mb_name mb))(mb_gen mb :=
     fold backend_run_step ops (fl_child f (mb_name mb) (mb_gen mb))))"
  "fl_world (fold (flow_child mb) ops f) = fl_world f" "fl_net (fold (flow_child mb) ops f) = fl_net f"
  "fl_seen (fold (flow_child mb) ops f) = fl_seen f" "fl_loop (fold (flow_child mb) ops f) = fl_loop f"
  "fl_adopted (fold (flow_child mb) ops f) = fl_adopted f"
  by (induction ops arbitrary: f) (simp_all add: flow_child_def)

lemma flow_forward_Cons:
  "br_ch (fl_child f (mb_name mb) (mb_gen mb)) = st # rest \<Longrightarrow> flow_forward mb f =
     f\<lparr>fl_child := (fl_child f)(mb_name mb := (fl_child f (mb_name mb))(mb_gen mb :=
         backend_runtime_receive (fl_child f (mb_name mb) (mb_gen mb)))), fl_net := fl_net f @ [forward_update mb st]\<rparr>"
  by (simp add: flow_forward_def)

section \<open>One name\<close>

text \<open>The generations of a name, the one a watcher manages now, and what was sent for it.\<close>

definition owner :: "string \<Rightarrow> world \<Rightarrow> nat \<Rightarrow> bool" where
  "owner n w g \<longleftrightarrow> (\<exists>i dw b k mb. fmlookup (wd_watchers w) i = Some dw \<and> dw_backends dw = Some b \<and> fmlookup b k = Some mb \<and>
     mb_name mb = n \<and> mb_gen mb = g)"

definition owner_elsewhere :: "nat \<Rightarrow> string \<Rightarrow> world \<Rightarrow> nat \<Rightarrow> bool" where
  "owner_elsewhere wid n w g \<longleftrightarrow> (\<exists>i dw b k mb. i \<noteq> wid \<and> fmlookup (wd_watchers w) i = Some dw \<and> dw_backends dw = Some b \<and>
     fmlookup b k = Some mb \<and> mb_name mb = n \<and> mb_gen mb = g)"

lemma owner_split:
  assumes "fmlookup (wd_watchers w) wid = Some dw" and "dw_backends dw = Some b"
  shows "owner m w g \<longleftrightarrow> (\<exists>k mb. fmlookup b k = Some mb \<and> mb_name mb = m \<and> mb_gen mb = g) \<or> owner_elsewhere wid m w g"
proof
  assume "owner m w g"
  then obtain i dw0 b0 k mb where o: "fmlookup (wd_watchers w) i = Some dw0" "dw_backends dw0 = Some b0" "fmlookup b0 k = Some mb"
      "mb_name mb = m" "mb_gen mb = g" unfolding owner_def by blast
  show "(\<exists>k mb. fmlookup b k = Some mb \<and> mb_name mb = m \<and> mb_gen mb = g) \<or> owner_elsewhere wid m w g"
  proof (cases "i = wid")
    case True
    then show ?thesis using o assms by auto
  next
    case False
    then show ?thesis using o unfolding owner_elsewhere_def by blast
  qed
next
  assume "(\<exists>k mb. fmlookup b k = Some mb \<and> mb_name mb = m \<and> mb_gen mb = g) \<or> owner_elsewhere wid m w g"
  then show "owner m w g" unfolding owner_def owner_elsewhere_def using assms by blast
qed

lemma owner_split_none:
  assumes "fmlookup (wd_watchers w) wid = Some dw" and "dw_backends dw = None"
  shows "owner m w g \<longleftrightarrow> owner_elsewhere wid m w g"
proof
  assume "owner m w g"
  then obtain i dw0 b0 k mb where o: "fmlookup (wd_watchers w) i = Some dw0" "dw_backends dw0 = Some b0" "fmlookup b0 k = Some mb"
      "mb_name mb = m" "mb_gen mb = g" unfolding owner_def by blast
  then have "i \<noteq> wid" using assms by auto
  then show "owner_elsewhere wid m w g" using o unfolding owner_elsewhere_def by blast
qed (unfold owner_def owner_elsewhere_def, blast)

lemma owner_elsewhere_upd [simp]: "owner_elsewhere wid n (w\<lparr>wd_watchers := fmupd wid dw (wd_watchers w)\<rparr>) g = owner_elsewhere wid n w g"
  by (simp add: owner_elsewhere_def cong: conj_cong)

definition gens_of :: "string \<Rightarrow> managedBackend list \<Rightarrow> nat set" where
  "gens_of n mbs = {mb_gen mb | mb. mb \<in> set mbs \<and> mb_name mb = n}"

lemma gens_of_append: "gens_of n (xs @ ys) = gens_of n xs \<union> gens_of n ys"
  by (auto simp: gens_of_def)

definition sent_updates :: "string \<Rightarrow> nat \<Rightarrow> BackendUpdate list \<Rightarrow> BackendUpdate list" where
  "sent_updates n g us = filter (\<lambda>u. bu_Name u = n \<and> bu_Gen u = g \<and> bu_Endpoints u \<noteq> None) us"

lemma sent_updates_append [simp]: "sent_updates n g (xs @ ys) = sent_updates n g xs @ sent_updates n g ys"
  by (simp add: sent_updates_def)

definition state_update :: "string \<Rightarrow> nat \<Rightarrow> BackendState \<Rightarrow> BackendUpdate" where
  "state_update n g st = forward_update \<lparr>mb_namespace = [], mb_name = n, mb_gen = g, mb_forwarding = True\<rparr> st"

lemma state_update_fields [simp]:
  "bu_Name (state_update n g st) = n" "bu_Gen (state_update n g st) = g" "bu_Endpoints (state_update n g st) \<noteq> None"
  by (simp_all add: state_update_def forward_update_def)

lemma forward_state: "forward_update mb st = state_update (mb_name mb) (mb_gen mb) st"
  by (simp add: state_update_def forward_update_def)

lemma removal_fields [simp]:
  "bu_Name (removal_update r) = fst r" "bu_Gen (removal_update r) = snd r" "bu_Endpoints (removal_update r) = None"
  by (simp_all add: removal_update_def)

lemma fmvalues_iff: "v \<in> set (fmvalues m) \<longleftrightarrow> (\<exists>k. fmlookup m k = Some v)"
  by (simp add: fmlookup_ran'_iff)

text \<open>What a reconcile does to the owners of a name.\<close>

lemma reconcile_owner:
  assumes "disc_world explicit ids w0" and "fmlookup (wd_watchers w) wid = Some dw" and "covers order dw"
    and "wd_watchers w0 = wd_watchers w" and "wd_gen w0 = wd_gen w"
    and "syncServices (Some svcs) order (wd_registry w) (wd_gen w) dw = ((reg, gen, dw'), upds)"
    and "w' = reconcile_in wid svcs order w" and "disc_world explicit ids w'"
    and "new = (case dw_backends dw' of None \<Rightarrow> [] | Some b \<Rightarrow> filter (\<lambda>mb. wd_gen w < mb_gen mb) (fmvalues b))"
  shows "wd_gen w \<le> wd_gen w'"
    and "\<And>mb. mb \<in> set new \<Longrightarrow> owner (mb_name mb) w' (mb_gen mb) \<and> wd_gen w < mb_gen mb \<and> mb_gen mb \<le> wd_gen w'"
    and "\<And>g. owner n w' g \<Longrightarrow> owner n w g \<or> g \<in> gens_of n new"
    and "\<And>g. owner n w g \<Longrightarrow> \<not> owner n w' g \<Longrightarrow> removal_update (n, g) \<in> set upds"
    and "\<And>u. u \<in> set upds \<Longrightarrow> bu_Endpoints u = None \<and> owner (bu_Name u) w (bu_Gen u) \<and> \<not> owner (bu_Name u) w' (bu_Gen u)"
proof -
  have "wd_gen w \<le> wd_gen w' \<and>
    (\<forall>mb\<in>set new. owner (mb_name mb) w' (mb_gen mb) \<and> wd_gen w < mb_gen mb \<and> mb_gen mb \<le> wd_gen w') \<and>
    (\<forall>g. owner n w' g \<longrightarrow> owner n w g \<or> g \<in> gens_of n new) \<and>
    (\<forall>g. owner n w g \<longrightarrow> \<not> owner n w' g \<longrightarrow> removal_update (n, g) \<in> set upds) \<and>
    (\<forall>u\<in>set upds. bu_Endpoints u = None \<and> owner (bu_Name u) w (bu_Gen u) \<and> \<not> owner (bu_Name u) w' (bu_Gen u))"
  proof (cases "dw_backends dw")
    case None
    have "w' = w\<lparr>wd_listed := fmupd wid (listed svcs) (wd_listed w)\<rparr>"
      using assms(2,7) None by (simp add: reconcile_in_def syncServices_stopped fmupd_same)
    moreover have "dw' = dw" "upds = []" using assms(6) None by (simp_all add: syncServices_stopped)
    ultimately show ?thesis using None assms(9) by (simp add: owner_def)
  next
    case (Some b)
    obtain s removed where e: "reconcile_end svcs order (wd_registry w) (wd_gen w) dw b = (s, removed)" by (metis surj_pair)
    have r: "reg = rc_registry s" "gen = rc_genSeq s" "dw' = dw\<lparr>dw_backends := Some (rc_backends s)\<rparr>" "upds = map removal_update removed"
      using syncServices_end [OF Some e] assms(6) by simp_all
    have w': "wd_watchers w' = fmupd wid dw' (wd_watchers w)" "wd_gen w' = rc_genSeq s"
      using assms(2,6,7) r by (simp_all add: reconcile_in_def)
    have "\<forall>k mb. fmlookup b k = Some mb \<longrightarrow> k \<in> set order" using assms(3) Some by (auto simp: covers_def)
    note F = reconcile_facts [OF e this]
    have bs: "dw_backends dw' = Some (rc_backends s)" using r(3) by simp
    have new: "mb \<in> set new \<longleftrightarrow> wd_gen w < mb_gen mb \<and> (\<exists>k. fmlookup (rc_backends s) k = Some mb)" for mb
      using assms(9) bs by (auto simp: fmlookup_ran'_iff)
    have look: "fmlookup (wd_watchers w0) wid = Some dw" using assms(2,4) by simp
    have bound: "fmlookup b k = Some mb \<Longrightarrow> mb_gen mb \<le> wd_gen w" for k mb
      using disc_world_gens [OF assms(1)] look Some unfolding gens_bounded_def assms(5) by blast
    have lk: "fmlookup (wd_watchers w') wid = Some dw'" "\<And>i. i \<noteq> wid \<Longrightarrow> fmlookup (wd_watchers w') i = fmlookup (wd_watchers w) i"
      using w'(1) by simp_all
    have own': "owner m w' g \<longleftrightarrow> (\<exists>k mb. fmlookup (rc_backends s) k = Some mb \<and> mb_name mb = m \<and> mb_gen mb = g) \<or> owner_elsewhere wid m w g" for m g
      using owner_split [OF lk(1) bs] lk(2) by (simp add: owner_elsewhere_def cong: conj_cong)
    have own: "owner m w g \<longleftrightarrow> (\<exists>k mb. fmlookup b k = Some mb \<and> mb_name mb = m \<and> mb_gen mb = g) \<or> owner_elsewhere wid m w g" for m g
      by (rule owner_split [OF assms(2) Some])
    have rem: "u \<in> set upds \<longleftrightarrow> (\<exists>k mb. u = removal_update (mb_name mb, mb_gen mb) \<and> fmlookup b k = Some mb \<and> fmlookup (listed svcs) k = None)" for u
      unfolding r(4) set_map F(4) by auto
    have gone: "\<not> owner (mb_name mb) w' (mb_gen mb)" if "fmlookup b k = Some mb" "fmlookup (listed svcs) k = None" for k mb
    proof
      assume "owner (mb_name mb) w' (mb_gen mb)"
      then consider k' mb' where "fmlookup (rc_backends s) k' = Some mb'" "mb_name mb' = mb_name mb" "mb_gen mb' = mb_gen mb"
        | i dw0 b0 k' mb' where "i \<noteq> wid" "fmlookup (wd_watchers w) i = Some dw0" "dw_backends dw0 = Some b0" "fmlookup b0 k' = Some mb'"
          "mb_name mb' = mb_name mb"
        unfolding own' owner_elsewhere_def by blast
      then show False
      proof cases
        case 1
        with F(2) bound [OF that(1)] have "fmlookup b k' = Some mb'" "fmlookup (listed svcs) k' \<noteq> None" by fastforce+
        then show False using names_owned [OF assms(1) look Some that(1) look Some] 1(2) that(2) by metis
      next
        case 2
        then show False using names_owned [OF assms(1) look Some that(1) 2(2) [folded assms(4)] 2(3,4)] by metis
      qed
    qed
    have "owner n w g \<or> g \<in> gens_of n new" if "owner n w' g" for g
      using that F(2) unfolding own own' gens_of_def new by blast
    moreover have "removal_update (n, g) \<in> set upds" if "owner n w g" "\<not> owner n w' g" for g
      using that F(3) unfolding own own' rem by blast
    moreover have "bu_Endpoints u = None \<and> owner (bu_Name u) w (bu_Gen u) \<and> \<not> owner (bu_Name u) w' (bu_Gen u)" if "u \<in> set upds" for u
      using that gone unfolding rem own by fastforce
    moreover have "owner (mb_name mb) w' (mb_gen mb) \<and> wd_gen w < mb_gen mb \<and> mb_gen mb \<le> wd_gen w'" if "mb \<in> set new" for mb
      using that F(2,6) bound unfolding new own' w'(2) by fastforce
    moreover have "wd_gen w \<le> wd_gen w'" using F(6) w'(2) by simp
    ultimately show ?thesis by blast
  qed
  then show "wd_gen w \<le> wd_gen w'"
    and "\<And>mb. mb \<in> set new \<Longrightarrow> owner (mb_name mb) w' (mb_gen mb) \<and> wd_gen w < mb_gen mb \<and> mb_gen mb \<le> wd_gen w'"
    and "\<And>g. owner n w' g \<Longrightarrow> owner n w g \<or> g \<in> gens_of n new"
    and "\<And>g. owner n w g \<Longrightarrow> \<not> owner n w' g \<Longrightarrow> removal_update (n, g) \<in> set upds"
    and "\<And>u. u \<in> set upds \<Longrightarrow> bu_Endpoints u = None \<and> owner (bu_Name u) w (bu_Gen u) \<and> \<not> owner (bu_Name u) w' (bu_Gen u)"
    by blast+
qed


text \<open>At any time at most one backend of all watchers has the name.\<close>

lemma owner_unique:
  assumes "disc_world explicit ids w" and "owner n w g" and "owner n w g'"
  shows "g = g'"
proof -
  obtain i dw b k mb where o: "fmlookup (wd_watchers w) i = Some dw" "dw_backends dw = Some b" "fmlookup b k = Some mb"
      "mb_name mb = n" "mb_gen mb = g" using assms(2) unfolding owner_def by blast
  obtain i' dw' b' k' mb' where o': "fmlookup (wd_watchers w) i' = Some dw'" "dw_backends dw' = Some b'" "fmlookup b' k' = Some mb'"
      "mb_name mb' = n" "mb_gen mb' = g'" using assms(3) unfolding owner_def by blast
  have "i = i' \<and> k = k'" using names_owned [OF assms(1) o(1-3) o'(1-3)] o(4) o'(4) by simp
  then show ?thesis using o o' by simp
qed

section \<open>The invariant\<close>

text \<open>
  Of the generations \<open>gens\<close> a name ever had, the one managed now is the newest; every other was removed with a
  message; messages come from adopted backends only, and a removal only of one that is gone.
\<close>

definition names_track :: "string \<Rightarrow> world \<Rightarrow> nat set \<Rightarrow> BackendUpdate set \<Rightarrow> bool" where
  "names_track n w gens msgs \<longleftrightarrow>
     (\<forall>g. owner n w g \<longrightarrow> g \<in> gens \<and> (\<forall>g'\<in>gens. g' \<le> g)) \<and>
     (\<forall>g\<in>gens. 0 < g \<and> g \<le> wd_gen w \<and> (owner n w g \<or> removal_update (n, g) \<in> msgs)) \<and>
     (\<forall>u\<in>msgs. bu_Name u = n \<longrightarrow> bu_Gen u \<in> gens \<and> (bu_Endpoints u = None \<longrightarrow> \<not> owner n w (bu_Gen u)))"

lemma names_trackD:
  assumes "names_track n w gens msgs"
  shows "owner n w g \<Longrightarrow> g \<in> gens" "owner n w g \<Longrightarrow> g' \<in> gens \<Longrightarrow> g' \<le> g" "g \<in> gens \<Longrightarrow> 0 < g" "g \<in> gens \<Longrightarrow> g \<le> wd_gen w"
    "g \<in> gens \<Longrightarrow> \<not> owner n w g \<Longrightarrow> removal_update (n, g) \<in> msgs"
    "u \<in> msgs \<Longrightarrow> bu_Name u = n \<Longrightarrow> bu_Gen u \<in> gens"
    "u \<in> msgs \<Longrightarrow> bu_Name u = n \<Longrightarrow> bu_Endpoints u = None \<Longrightarrow> \<not> owner n w (bu_Gen u)"
  using assms unfolding names_track_def by blast+

lemma names_track_world:
  assumes "names_track n w gens msgs" and "\<And>g. owner n w' g = owner n w g" and "wd_gen w' = wd_gen w"
  shows "names_track n w' gens msgs"
  using assms by (simp add: names_track_def)

lemma names_track_message:
  assumes "names_track n w gens msgs" and "bu_Name u = n \<Longrightarrow> bu_Gen u \<in> gens" and "bu_Endpoints u \<noteq> None"
  shows "names_track n w gens (insert u msgs)"
  using assms unfolding names_track_def by blast

lemma names_track_reconcile:
  assumes "names_track n w gens msgs" and "disc_world explicit ids w'" and "wd_gen w \<le> wd_gen w'"
    and new: "\<And>g. g \<in> new \<Longrightarrow> owner n w' g \<and> wd_gen w < g \<and> g \<le> wd_gen w'"
    and kept: "\<And>g. owner n w' g \<Longrightarrow> owner n w g \<or> g \<in> new"
    and gone: "\<And>g. owner n w g \<Longrightarrow> \<not> owner n w' g \<Longrightarrow> removal_update (n, g) \<in> upds"
    and sent: "\<And>u. u \<in> upds \<Longrightarrow> bu_Endpoints u = None \<and> owner (bu_Name u) w (bu_Gen u) \<and> \<not> owner (bu_Name u) w' (bu_Gen u)"
  shows "names_track n w' (gens \<union> new) (msgs \<union> upds)"
proof -
  note D = names_trackD [OF assms(1)]
  have le: "g' \<le> g" if "owner n w' g" "g' \<in> gens \<union> new" for g g'
  proof (cases "g' \<in> new")
    case True
    then show ?thesis using new owner_unique [OF assms(2) that(1)] by fastforce
  next
    case False
    then have g': "g' \<in> gens" using that(2) by blast
    from kept [OF that(1)] show ?thesis
    proof
      assume "owner n w g"
      then show ?thesis using D(2) g' by blast
    next
      assume "g \<in> new"
      then show ?thesis using new D(4) [OF g'] by fastforce
    qed
  qed
  have "owner n w' g \<Longrightarrow> g \<in> gens \<union> new" for g using kept D(1) by blast
  moreover have "0 < g \<and> g \<le> wd_gen w' \<and> (owner n w' g \<or> removal_update (n, g) \<in> msgs \<union> upds)" if "g \<in> gens \<union> new" for g
    using that new [of g] D(3,4,5) [of g] gone [of g] assms(3) by fastforce
  moreover have "bu_Gen u \<in> gens \<union> new" if "u \<in> msgs \<union> upds" "bu_Name u = n" for u
    using that D(1,6) sent by blast
  moreover have "\<not> owner n w' (bu_Gen u)" if u: "u \<in> msgs \<union> upds" "bu_Name u = n" "bu_Endpoints u = None" for u
  proof (cases "u \<in> upds")
    case True
    then show ?thesis using sent u(2) by blast
  next
    case False
    then have "bu_Gen u \<in> gens" "\<not> owner n w (bu_Gen u)" using D(6,7) u by blast+
    then show ?thesis using kept new D(4) by fastforce
  qed
  ultimately show ?thesis using le unfolding names_track_def by blast
qed

text \<open>What was sent for a generation are the states its watcher published, the last of which it received.\<close>

definition child_sent :: "string \<Rightarrow> nat \<Rightarrow> BackendUpdate list \<Rightarrow> backend_runtime \<Rightarrow> bool" where
  "child_sent n g us rt \<longleftrightarrow> (\<exists>sts. sent_updates n g us = map (state_update n g) sts \<and>
     feed_ok (backend_runtime_feed rt) (if sts = [] then None else Some (last sts)))"

lemma child_sent_same: "child_sent n g us rt \<Longrightarrow> sent_updates n g us' = sent_updates n g us \<Longrightarrow> child_sent n g us' rt"
  by (simp add: child_sent_def)

lemma child_sent_run: "child_sent n g us rt \<Longrightarrow> child_sent n g us (backend_run_step op rt)"
  unfolding child_sent_def using backend_run_ok by blast

lemma child_sent_forward:
  assumes "child_sent n g us rt" and "br_ch rt = st # rest"
  shows "child_sent n g (us @ [state_update n g st]) (backend_runtime_receive rt)"
proof -
  obtain sts where s: "sent_updates n g us = map (state_update n g) sts"
      "feed_ok (backend_runtime_feed rt) (if sts = [] then None else Some (last sts))"
    using assms(1) unfolding child_sent_def by blast
  have "feed_ok (feed_receive (backend_runtime_feed rt)) (Some st)"
    using feed_ok_receive [OF s(2)] assms(2) by (simp add: br_ch_feed)
  then have "feed_ok (backend_runtime_feed (backend_runtime_receive rt)) (Some st)"
    by (simp add: backend_runtime_receive_def backend_runtime_feed_def bp.recv_feed)
  moreover have "sent_updates n g (us @ [state_update n g st]) = map (state_update n g) (sts @ [st])"
    using s(1) by (simp add: sent_updates_def)
  ultimately show ?thesis unfolding child_sent_def by (intro exI [of _ "sts @ [st]"]) simp
qed

definition of_backend :: "string \<Rightarrow> BackendUpdate list \<Rightarrow> backendChange list" where
  "of_backend n us = map backendChangeFromUpdate (filter (\<lambda>u. bu_Name u = n) us)"

definition flow_ok :: "string \<Rightarrow> (string \<Rightarrow> nat \<Rightarrow> string) \<Rightarrow> (string \<Rightarrow> bool) option \<Rightarrow> ('t, 'h) flow \<Rightarrow> bool" where
  "flow_ok n port ex f \<longleftrightarrow> names_track n (fl_world f) (gens_of n (fl_adopted f)) (set (fl_seen f) \<union> set (fl_net f)) \<and>
     (\<forall>g. child_sent n g (fl_seen f @ fl_net f) (fl_child f n g)) \<and> (\<forall>g. runtime_ok (port n g) ex (fl_child f n g)) \<and>
     gens_track n (of_backend n (fl_seen f)) (fst (fl_loop f))"


lemma flow_okI:
  assumes "names_track n (fl_world f) (gens_of n (fl_adopted f)) (set (fl_seen f) \<union> set (fl_net f))"
    and "\<And>g. child_sent n g (fl_seen f @ fl_net f) (fl_child f n g)" and "\<And>g. runtime_ok (port n g) ex (fl_child f n g)"
    and "gens_track n (of_backend n (fl_seen f)) (fst (fl_loop f))"
  shows "flow_ok n port ex f"
  using assms by (simp add: flow_ok_def)

lemma flow_okD:
  assumes "flow_ok n port ex f"
  shows "names_track n (fl_world f) (gens_of n (fl_adopted f)) (set (fl_seen f) \<union> set (fl_net f))"
    and "child_sent n g (fl_seen f @ fl_net f) (fl_child f n g)" and "runtime_ok (port n g) ex (fl_child f n g)"
    and "gens_track n (of_backend n (fl_seen f)) (fst (fl_loop f))"
  using assms by (simp_all add: flow_ok_def)

lemma flow_ok_reconcile:
  assumes "flow_ok n port ex f" and "disc_world explicit ids (fl_world f)" and "fmlookup (wd_watchers w) wid = Some dw" and "covers order dw"
    and "disc_world explicit ids (reconcile_in wid svcs order w)"
    and "wd_watchers (fl_world f) = wd_watchers w" and "wd_gen (fl_world f) = wd_gen w"
  shows "flow_ok n port ex (flow_reconcile wid svcs order w f)"
proof -
  obtain reg gen dw' upds where e: "syncServices (Some svcs) order (wd_registry w) (wd_gen w) dw = ((reg, gen, dw'), upds)"
    by (metis surj_pair)
  define new where "new = (case dw_backends dw' of None \<Rightarrow> [] | Some b \<Rightarrow> filter (\<lambda>mb. wd_gen w < mb_gen mb) (fmvalues b))"
  let ?f = "flow_reconcile wid svcs order w f"
  note R = reconcile_owner [OF assms(2-4,6,7) e refl assms(5) new_def]
  have f: "fl_world ?f = reconcile_in wid svcs order w" "fl_adopted ?f = fl_adopted f @ new" "fl_net ?f = fl_net f @ upds"
    using assms(3) e by (simp_all add: flow_reconcile_def new_def)
  have "names_track n w (gens_of n (fl_adopted f)) (set (fl_seen f) \<union> set (fl_net f))"
    using flow_okD(1) [OF assms(1)] by (rule names_track_world) (simp_all add: owner_def assms(6,7))
  then have "names_track n (reconcile_in wid svcs order w) (gens_of n (fl_adopted f) \<union> gens_of n new) (set (fl_seen f) \<union> set (fl_net f) \<union> set upds)"
    by (rule names_track_reconcile [OF _ assms(5) R(1)]) (use R in \<open>auto simp: gens_of_def\<close>)
  moreover have "sent_updates n g upds = []" for g
    using R(5) by (auto simp: sent_updates_def filter_empty_conv)
  ultimately show ?thesis
    using flow_okD(3,4) [OF assms(1)] child_sent_same [OF flow_okD(2) [OF assms(1)]]
    by (intro flow_okI) (simp_all add: f gens_of_append Un_assoc)
qed

lemma flow_ok_child:
  assumes "flow_ok n port ex f"
  shows "flow_ok n port ex (flow_child mb op f)"
proof (rule flow_okI)
  note D = flow_okD [OF assms]
  let ?f = "flow_child mb op f"
  have f: "fl_world ?f = fl_world f" "fl_adopted ?f = fl_adopted f" "fl_seen ?f = fl_seen f" "fl_net ?f = fl_net f" "fl_loop ?f = fl_loop f"
    by (simp_all add: flow_child_def)
  have child: "fl_child ?f m g = (if m = mb_name mb \<and> g = mb_gen mb then backend_run_step op (fl_child f m g) else fl_child f m g)" for m g
    by (simp add: flow_child_def)
  fix g
  show "child_sent n g (fl_seen ?f @ fl_net ?f) (fl_child ?f n g)" unfolding f child using D(2) [of g] child_sent_run by auto
  show "runtime_ok (port n g) ex (fl_child ?f n g)" unfolding child using D(3) [of g] runtime_step by auto
qed (use flow_okD [OF assms] in \<open>simp_all add: flow_child_def\<close>)

lemma flow_ok_forward:
  assumes "flow_ok n port ex f" and "mb \<in> set (fl_adopted f)"
  shows "flow_ok n port ex (flow_forward mb f)"
proof (cases "br_ch (fl_child f (mb_name mb) (mb_gen mb))")
  case Nil
  then show ?thesis using assms(1) by (simp add: flow_forward_def Let_def)
next
  case (Cons st rest)
  note D = flow_okD [OF assms(1)]
  let ?g = "mb_gen mb" and ?f = "flow_forward mb f"
  have net: "fl_net ?f = fl_net f @ [state_update (mb_name mb) ?g st]"
    and child: "fl_child ?f m g = (if m = mb_name mb \<and> g = ?g then backend_runtime_receive (fl_child f m g) else fl_child f m g)" for m g
    using Cons by (simp_all add: flow_forward_def Let_def forward_state)
  have nt: "names_track n (fl_world f) (gens_of n (fl_adopted f)) (insert (state_update (mb_name mb) ?g st) (set (fl_seen f) \<union> set (fl_net f)))"
    using assms(2) by (intro names_track_message D(1)) (auto simp: gens_of_def)
  have cs: "child_sent n g (fl_seen ?f @ fl_net ?f) (fl_child ?f n g)" for g
  proof (cases "mb_name mb = n \<and> ?g = g")
    case True
    then show ?thesis using child_sent_forward [OF D(2) [of g]] Cons by (simp add: net child)
  next
    case False
    then show ?thesis using child_sent_same [OF D(2) [of g]] by (auto simp: net child sent_updates_def)
  qed
  show ?thesis
  proof (rule flow_okI)
    show "names_track n (fl_world ?f) (gens_of n (fl_adopted ?f)) (set (fl_seen ?f) \<union> set (fl_net ?f))"
      using nt by (simp add: net insert_commute)
  qed (use D cs runtime_receive in \<open>auto simp: child\<close>)
qed

lemma sent_updates_deliver:
  assumes "list_all (\<lambda>v. \<not> same_source v u) us"
  shows "sent_updates n g (us @ u # vs) = sent_updates n g (u # us @ vs)"
proof (cases "bu_Name u = n \<and> bu_Gen u = g \<and> bu_Endpoints u \<noteq> None")
  case True
  then have "sent_updates n g us = []"
    using assms by (auto simp: sent_updates_def same_source_def list_all_iff filter_empty_conv)
  then show ?thesis by (simp add: sent_updates_def)
next
  case False
  then show ?thesis by (auto simp: sent_updates_def)
qed

lemma backendChange_fields [simp]:
  "bc_name (backendChangeFromUpdate u) = bu_Name u" "bc_gen (backendChangeFromUpdate u) = bu_Gen u"
  "bc_removed (backendChangeFromUpdate u) \<longleftrightarrow> bu_Endpoints u = None"
  by (simp_all add: backendChangeFromUpdate_def)

lemma flow_ok_deliver:
  assumes "flow_ok n port ex f" and "fl_net f = us @ u # vs" and "list_all (\<lambda>v. \<not> same_source v u) us"
  shows "flow_ok n port ex (f\<lparr>fl_net := us @ vs, fl_seen := fl_seen f @ [u],
      fl_loop := (loop_handle exec H cf now (BackendEv (backendChangeFromUpdate u)) (fst (fl_loop f)), now)\<rparr>)"
proof (rule flow_okI)
  note D = flow_okD [OF assms(1)]
  let ?st = "fst (fl_loop f)" and ?bc = "backendChangeFromUpdate u"
  have "gens_track n (of_backend n (fl_seen f @ [u])) (on_backend cf now ?bc ?st)"
  proof (cases "bu_Name u = n")
    case True
    have "bu_Gen u \<noteq> 0" using names_trackD(3) [OF D(1)] names_trackD(6) [OF D(1), of u] True assms(2) by fastforce
    then show ?thesis using gens_track_step [of ?bc "of_backend n (fl_seen f)" ?st] D(4) True by (simp add: of_backend_def)
  next
    case False
    then show ?thesis using gens_track_other [of ?bc n "of_backend n (fl_seen f)" cf now ?st] D(4) by (simp add: of_backend_def)
  qed
  then show "gens_track n (of_backend n (fl_seen (f\<lparr>fl_net := us @ vs, fl_seen := fl_seen f @ [u],
      fl_loop := (loop_handle exec H cf now (BackendEv ?bc) ?st, now)\<rparr>)))
    (fst (fl_loop (f\<lparr>fl_net := us @ vs, fl_seen := fl_seen f @ [u], fl_loop := (loop_handle exec H cf now (BackendEv ?bc) ?st, now)\<rparr>)))"
    by simp
  fix g
  have "sent_updates n g ((fl_seen f @ [u]) @ us @ vs) = sent_updates n g (fl_seen f @ fl_net f)"
    using sent_updates_deliver [OF assms(3), of n g vs] assms(2) by (metis append.assoc append_Cons append_Nil sent_updates_append)
  then show "child_sent n g (fl_seen (f\<lparr>fl_net := us @ vs, fl_seen := fl_seen f @ [u],
      fl_loop := (loop_handle exec H cf now (BackendEv ?bc) ?st, now)\<rparr>) @ fl_net (f\<lparr>fl_net := us @ vs, fl_seen := fl_seen f @ [u],
      fl_loop := (loop_handle exec H cf now (BackendEv ?bc) ?st, now)\<rparr>)) (fl_child (f\<lparr>fl_net := us @ vs, fl_seen := fl_seen f @ [u],
      fl_loop := (loop_handle exec H cf now (BackendEv ?bc) ?st, now)\<rparr>) n g)"
    using child_sent_same [OF D(2)] by simp
qed (use flow_okD [OF assms(1)] assms(2) in \<open>simp_all add: insert_commute\<close>)

text \<open>The loop keeps what it knows of the name through everything else.\<close>

lemma gens_track_fields:
  assumes "fmlookup (in_Backends (ls_inputs st')) n = fmlookup (in_Backends (ls_inputs st)) n"
    and "ls_liveGen st' = ls_liveGen st" and "fmlookup (ls_removedGen st') n = fmlookup (ls_removedGen st) n"
  shows "gens_track n bs st' = gens_track n bs st"
  using assms by (simp add: gens_track_def removed_gen_def)


lemma flow_other_keeps:
  assumes "flow_other cf n now ev st"
  shows "gens_track n bs (loop_handle exec H cf now ev st) = gens_track n bs st"
proof (cases ev)
  case (BackendEv bc)
  then show ?thesis using gens_track_other [of bc n bs cf now st] assms by (simp add: flow_other_def)
qed (rule gens_track_fields; use assms in \<open>simp add: flow_other_def loop_frames on_template_def on_frontend_def on_values_def
    on_secrets_def on_tls_def on_sweep_def on_vcl_recovery_def on_tls_recovery_def schedule_backend_def emitEvent_def Let_def\<close>)+

lemma map_option_ex:
  "(\<exists>k mb. (\<exists>z. fmlookup b k = Some z \<and> z\<lparr>mb_forwarding := True\<rparr> = mb) \<and> mb_name mb = m \<and> mb_gen mb = g) \<longleftrightarrow>
   (\<exists>k mb. fmlookup b k = Some mb \<and> mb_name mb = m \<and> mb_gen mb = g)"
  by (rule iffI; elim exE conjE; force)

lemma owner_initialized:
  assumes "fmlookup (wd_watchers w) wid = Some dw"
  shows "owner n (w\<lparr>wd_watchers := fmupd wid (finish_initial dw) (wd_watchers w)\<rparr>) g = owner n w g"
proof (cases "dw_backends dw")
  case None
  let ?w = "w\<lparr>wd_watchers := fmupd wid (finish_initial dw) (wd_watchers w)\<rparr>"
  have "fmlookup (wd_watchers ?w) wid = Some (finish_initial dw)" "dw_backends (finish_initial dw) = None"
    using None by (simp_all add: finish_initial_def)
  from owner_split_none [OF this] show ?thesis
    unfolding owner_split_none [OF assms None] by simp
next
  case (Some b)
  let ?w = "w\<lparr>wd_watchers := fmupd wid (finish_initial dw) (wd_watchers w)\<rparr>"
  have "fmlookup (wd_watchers ?w) wid = Some (finish_initial dw)" "dw_backends (finish_initial dw) = Some (fmmap (\<lambda>mb. mb\<lparr>mb_forwarding := True\<rparr>) b)"
    using Some by (simp_all add: finish_initial_def)
  from owner_split [OF this] show ?thesis
    unfolding owner_split [OF assms Some] by (simp add: map_option_ex)
qed

lemma flow_invariant:
  assumes "flow_reach exec H cf explicit ids port ex n l0 f" and "gens_track n [] (fst l0)"
  shows "flow_ok n port ex f"
  using assms(1)
proof (induction rule: flow_reach.induct)
  case start
  have "feed_ok (backend_runtime_feed (backend_start (port n g) ex)) None" for g
    using bw_ok_new by (simp add: backend_runtime_feed_def backend_feed_ok backend_start_def)
  moreover have "\<not> owner n (start_world explicit ids) g" for g
    by (auto simp: owner_def NewBackendDiscoveryWatcher_def dest!: start_world_facts(1))
  ultimately show ?case
    using assms(2) runtime_ok_start
    by (intro flow_okI) (auto simp: names_track_def gens_of_def child_sent_def sent_updates_def of_backend_def)
next
  case (subscribe f wid dw)
  then show ?case using flow_okD [OF subscribe.IH] by (intro flow_okI) (auto intro: names_track_world simp: owner_def)
next
  case (event f wid dw order svcs)
  show ?case
    by (rule flow_ok_reconcile [OF event.IH flow_world [OF event.hyps(1)] event.hyps(2,3)])
      (use disc_world.event [OF flow_world [OF event.hyps(1)] event.hyps(2-4)] in simp_all)
next
  case (kicked f wid dw order svcs)
  show ?case
    by (rule flow_ok_reconcile [OF kicked.IH flow_world [OF kicked.hyps(1)]])
      (use kicked.hyps disc_world.kicked [OF flow_world [OF kicked.hyps(1)] kicked.hyps(2-5)] in simp_all)
next
  case (initialized f wid dw)
  have "owner n ((fl_world f)\<lparr>wd_watchers := fmupd wid (finish_initial dw) (wd_watchers (fl_world f))\<rparr>) g = owner n (fl_world f) g" for g
    by (rule owner_initialized [OF initialized.hyps(2)])
  then show ?case using flow_okD [OF initialized.IH] by (intro flow_okI) (auto intro: names_track_world)
next
  case (child f mb op)
  then show ?case by (intro flow_ok_child)
next
  case (forward f mb)
  then show ?case by (intro flow_ok_forward)
next
  case (deliver f us u vs now)
  then show ?case by (intro flow_ok_deliver)
next
  case (proceed f now ev)
  then show ?case using flow_okD [OF proceed.IH] flow_other_keeps [OF proceed.hyps(4)] by (intro flow_okI) simp_all
qed


section \<open>What the loop holds\<close>

lemma winner_removed:
  assumes "bs \<noteq> [] \<Longrightarrow> \<exists>b\<in>set bs. bc_removed b \<and> bc_gen b = newest_gen bs"
  shows "backend_winner bs = None"
  using assms by (auto simp: backend_winner_def newest_def)

lemma newest_gen_in: "bs \<noteq> [] \<Longrightarrow> \<exists>b\<in>set bs. bc_gen b = newest_gen bs"
  using newest_nonempty [of bs] by (auto simp: newest_def filter_empty_conv)

lemma of_backend_newest: "newest_gen (of_backend n us) = g \<Longrightarrow> \<forall>u\<in>set us. bu_Name u = n \<longrightarrow> bu_Gen u = g \<longrightarrow> bu_Endpoints u \<noteq> None \<Longrightarrow>
    newest (of_backend n us) = map backendChangeFromUpdate (sent_updates n g us)"
  by (auto simp: newest_def of_backend_def sent_updates_def filter_map comp_def intro!: arg_cong [where f = "map backendChangeFromUpdate"] filter_cong)

lemma state_update_group: "group_of (backendChangeFromUpdate (state_update n g st)) =
    \<lparr>bg_Endpoints = Some (elems (bs_Endpoints st)), bg_Labels = bs_Labels st, bg_Annotations = bs_Annotations st\<rparr>"
  by (simp add: group_of_def backendChangeFromUpdate_def state_update_def forward_update_def Let_def elems_def split: option.split)

text \<open>
  Once no update of a discovered name is under way and the watcher of the backend that has it is quiet, the loop
  holds what the caches of that watcher say; when no watcher manages a backend of the name, the loop holds none.
\<close>

lemma discovered_backend_stored:
  assumes "flow_reach exec H cf explicit ids port ex n l0 f" and "gens_track n [] (fst l0)" and "\<forall>u\<in>set (fl_net f). bu_Name u \<noteq> n"
  shows "\<And>g. owner n (fl_world f) g \<Longrightarrow> runtime_quiet (fl_child f n g) \<Longrightarrow> br_ch (fl_child f n g) = [] \<Longrightarrow>
      map_option (\<lambda>bg. (elems (bg_Endpoints bg), bg_Labels bg, bg_Annotations bg)) (fmlookup (in_Backends (ls_inputs (fst (fl_loop f)))) n) =
      Some (backend_truth (port n g) ex (in_cache (br_service (fl_child f n g))) (current_slices (fl_child f n g)))"
    and "(\<nexists>g. owner n (fl_world f) g) \<Longrightarrow> fmlookup (in_Backends (ls_inputs (fst (fl_loop f)))) n = None"
proof -
  note D = flow_okD [OF flow_invariant [OF assms(1,2)]]
  let ?bs = "of_backend n (fl_seen f)"
  have winner: "fmlookup (in_Backends (ls_inputs (fst (fl_loop f)))) n = backend_winner ?bs" using D(4) by (simp add: gens_track_def)
  have seen: "\<exists>u\<in>set (fl_seen f). bu_Name u = n \<and> b = backendChangeFromUpdate u" if "b \<in> set ?bs" for b
    using that by (auto simp: of_backend_def)
  {
    fix g assume g: "owner n (fl_world f) g" "runtime_quiet (fl_child f n g)" "br_ch (fl_child f n g) = []"
    let ?rt = "fl_child f n g"
    have "sent_updates n g (fl_net f) = []" using assms(3) by (auto simp: sent_updates_def filter_empty_conv)
    then obtain sts where s: "sent_updates n g (fl_seen f) = map (state_update n g) sts"
        "feed_ok (backend_runtime_feed ?rt) (if sts = [] then None else Some (last sts))"
      using D(2) [of g] by (auto simp: child_sent_def)
    note truth = runtime_serves_truth [OF D(3) g(2)]
    then have l: "sts \<noteq> []" "last sts = snapshotLocked (bw_previous (br_watcher ?rt)) (br_watcher ?rt)"
      using s(2) g(3) by (auto simp: backend_runtime_feed_def backend_feed_def split: if_splits)
    from l(1) s(1) have "state_update n g (last sts) \<in> set (sent_updates n g (fl_seen f))" by simp
    then have "backendChangeFromUpdate (state_update n g (last sts)) \<in> set ?bs" by (auto simp: sent_updates_def of_backend_def)
    from newest_gen_ge [OF this] have "g \<le> newest_gen ?bs" "?bs \<noteq> []" using \<open>_ \<in> set ?bs\<close> by auto
    moreover have "newest_gen ?bs \<le> g"
    proof -
      obtain b where b: "b \<in> set ?bs" "bc_gen b = newest_gen ?bs" using newest_gen_in [OF \<open>?bs \<noteq> []\<close>] by blast
      then obtain u where u: "u \<in> set (fl_seen f)" "bu_Name u = n" "bu_Gen u = newest_gen ?bs" using seen [of b] by auto
      then have "newest_gen ?bs \<in> gens_of n (fl_adopted f)" using names_trackD(6) [OF D(1), of u] by simp
      then show ?thesis by (rule names_trackD(2) [OF D(1) g(1)])
    qed
    ultimately have new: "newest_gen ?bs = g" by simp
    have "newest ?bs = map backendChangeFromUpdate (sent_updates n g (fl_seen f))"
      by (rule of_backend_newest [OF new]) (use names_trackD(7) [OF D(1)] g(1) in blast)
    then have "backend_winner ?bs = Some (group_of (backendChangeFromUpdate (state_update n g (last sts))))"
      using \<open>?bs \<noteq> []\<close> s(1) l(1) by (auto simp: backend_winner_def last_map)
    then show "map_option (\<lambda>bg. (elems (bg_Endpoints bg), bg_Labels bg, bg_Annotations bg)) (fmlookup (in_Backends (ls_inputs (fst (fl_loop f)))) n) =
        Some (backend_truth (port n g) ex (in_cache (br_service ?rt)) (current_slices ?rt))"
      using winner truth l(2) by (simp add: state_update_group snapshotLocked_def elems_def)
  }
  show "fmlookup (in_Backends (ls_inputs (fst (fl_loop f)))) n = None" if none: "\<nexists>g. owner n (fl_world f) g"
    unfolding winner
  proof (rule winner_removed)
    assume "?bs \<noteq> []"
    then obtain b where b: "b \<in> set ?bs" "bc_gen b = newest_gen ?bs" using newest_gen_in by blast
    then obtain u where u: "u \<in> set (fl_seen f)" "bu_Name u = n" "bu_Gen u = newest_gen ?bs" using seen [of b] by auto
    then have "newest_gen ?bs \<in> gens_of n (fl_adopted f)" using names_trackD(6) [OF D(1), of u] by simp
    then have "removal_update (n, newest_gen ?bs) \<in> set (fl_seen f) \<union> set (fl_net f)"
      using names_trackD(5) [OF D(1)] none by blast
    moreover have "removal_update (n, newest_gen ?bs) \<notin> set (fl_net f)" using assms(3) by fastforce
    ultimately have "removal_update (n, newest_gen ?bs) \<in> set (fl_seen f)" by blast
    then show "\<exists>b\<in>set ?bs. bc_removed b \<and> bc_gen b = newest_gen ?bs"
      by (intro bexI [of _ "backendChangeFromUpdate (removal_update (n, newest_gen ?bs))"]) (auto simp: of_backend_def)
  qed
qed

end
