(* ===== verification/Telemetry.thy ===== *)
theory Telemetry
  imports Status
begin

text \<open>
  The filter on the scraped metrics (\<open>internal/telemetry/gather.go\<close>) and the way of the events of the pod
  (\<open>main.go\<close>): \<open>emitEvent\<close>, the events of varnishncsa that are still queued at the end, and the sink that warns
  once when the API server forbids them.
\<close>

section \<open>Metric families\<close>

datatype metric_type = COUNTER | GAUGE | SUMMARY | UNTYPED | HISTOGRAM

text \<open>A metric with its labels and, for a counter, its value; \<open>GetValue\<close> of a metric that is none is 0.\<close>

record scraped =
  sm_labels :: "(string \<times> string) list"
  sm_counter :: "rat option"

record metric_family =
  mf_name :: string
  mf_type :: metric_type
  mf_metrics :: "scraped list"

definition counter_value :: "scraped \<Rightarrow> rat" where
  "counter_value m = (case sm_counter m of None \<Rightarrow> 0 | Some v \<Rightarrow> v)"

fun gather_loop :: "metric_family list \<Rightarrow> metric_family list" where
  "gather_loop [] = []"
| "gather_loop (fam # fams) =
     (if mf_type fam \<noteq> COUNTER then fam # gather_loop fams
      else let nonZero = filter (\<lambda>m. counter_value m \<noteq> 0) (mf_metrics fam)
           in if nonZero \<noteq> [] then fam\<lparr>mf_metrics := nonZero\<rparr> # gather_loop fams else gather_loop fams)"

definition Gather :: "metric_family list \<times> string option \<Rightarrow> metric_family list \<times> string option" where
  "Gather inner =
     (case inner of
        (families, Some err) \<Rightarrow> (families, Some (''gathering metrics: '' @ err))
      | (families, None) \<Rightarrow> (gather_loop families, None))"

text \<open>What a scrape is about: the samples, each with the name and the type of its family.\<close>

definition samples_of :: "metric_family list \<Rightarrow> (string \<times> metric_type \<times> scraped) list" where
  "samples_of fams = concat (map (\<lambda>f. map (\<lambda>m. (mf_name f, mf_type f, m)) (mf_metrics f)) fams)"

text \<open>Exactly the counters at zero are left out, in order, and no family of counters is left empty.\<close>

lemma gather_exact:
  "samples_of (gather_loop fams) = filter (\<lambda>(n, t, m). t \<noteq> COUNTER \<or> counter_value m \<noteq> 0) (samples_of fams)"
proof (induction fams)
  case (Cons fam fams)
  have "map (\<lambda>m. (mf_name fam, mf_type fam, m)) (filter (\<lambda>m. counter_value m \<noteq> 0) (mf_metrics fam)) =
      filter (\<lambda>(n, t, m). t \<noteq> COUNTER \<or> counter_value m \<noteq> 0) (map (\<lambda>m. (mf_name fam, mf_type fam, m)) (mf_metrics fam))"
    if "mf_type fam = COUNTER" using that by (simp add: filter_map comp_def)
  moreover have "filter (\<lambda>(n, t, m). t \<noteq> COUNTER \<or> counter_value m \<noteq> 0) (map (\<lambda>m. (mf_name fam, mf_type fam, m)) ms) =
      map (\<lambda>m. (mf_name fam, mf_type fam, m)) ms" if "mf_type fam \<noteq> COUNTER" for ms
    using that by (simp add: filter_map comp_def)
  ultimately show ?case using Cons.IH by (auto simp: samples_of_def Let_def)
qed (simp add: samples_of_def)

lemma gather_nonempty: "fam \<in> set (gather_loop fams) \<Longrightarrow> mf_type fam = COUNTER \<Longrightarrow> mf_metrics fam \<noteq> []"
  by (induction fams) (auto simp: Let_def split: if_splits)

section \<open>Events\<close>

text \<open>An event as it is given to the recorder: its type, reason and message.\<close>

type_synonym pod_event = "string \<times> string \<times> string"

definition emit_event :: "bool \<Rightarrow> bool \<Rightarrow> pod_event \<Rightarrow> pod_event list \<Rightarrow> pod_event list" where
  "emit_event recorder podRef ev recorded = (if recorder \<and> podRef then recorded @ [ev] else recorded)"

text \<open>\<open>drainNCSAEvents\<close>: what is left of the channel, and what was recorded.\<close>

fun drainNCSAEvents :: "bool \<Rightarrow> bool \<Rightarrow> pod_event list \<Rightarrow> pod_event list \<Rightarrow> pod_event list \<times> pod_event list" where
  "drainNCSAEvents recorder podRef [] recorded = ([], recorded)"
| "drainNCSAEvents recorder podRef (ev # chan) recorded =
     drainNCSAEvents recorder podRef chan (emit_event recorder podRef ev recorded)"

lemma drained_all:
  "drainNCSAEvents recorder podRef chan recorded = ([], recorded @ (if recorder \<and> podRef then chan else []))"
  by (induction chan arbitrary: recorded) (simp_all add: emit_event_def)

text \<open>
  \<open>warnOnceEventSink\<close>: the three methods hand the call to the inner sink, return what it returns, and look at
  the error: \<open>True\<close> is a forbidden one. The state is whether it was warned, and the number of warnings.
\<close>

type_synonym warn_state = "bool \<times> nat"

definition checkErr :: "(string \<times> bool) option \<Rightarrow> warn_state \<Rightarrow> warn_state" where
  "checkErr err s =
     (case err of
        Some (_, True) \<Rightarrow> (if fst s then s else (True, Suc (snd s)))
      | _ \<Rightarrow> s)"

datatype sink_call = CreateEvent pod_event | UpdateEvent pod_event | PatchEvent pod_event string

definition sink_handle :: "(sink_call \<Rightarrow> 'r \<times> (string \<times> bool) option) \<Rightarrow> sink_call \<Rightarrow> warn_state \<Rightarrow>
    ('r \<times> (string \<times> bool) option) \<times> warn_state" where
  "sink_handle inner call s = (case inner call of (ev, err) \<Rightarrow> ((ev, err), checkErr err s))"

fun sink_run :: "(sink_call \<Rightarrow> 'r \<times> (string \<times> bool) option) \<Rightarrow> sink_call list \<Rightarrow> warn_state \<Rightarrow>
    ('r \<times> (string \<times> bool) option) list \<times> warn_state" where
  "sink_run inner [] s = ([], s)"
| "sink_run inner (call # calls) s =
     (case sink_handle inner call s of (res, s') \<Rightarrow> (case sink_run inner calls s' of (ress, s'') \<Rightarrow> (res # ress, s'')))"

text \<open>The sink changes no answer, and warns once exactly when some call is forbidden.\<close>

lemma sink_transparent:
  "fst (sink_run inner calls s) = map inner calls"
  by (induction inner calls s rule: sink_run.induct) (auto simp: sink_handle_def split: prod.splits)

definition forbidden :: "'r \<times> (string \<times> bool) option \<Rightarrow> bool" where
  "forbidden res = (case snd res of Some (_, True) \<Rightarrow> True | _ \<Rightarrow> False)"

lemma sink_warned:
  "snd (sink_run inner calls (True, n)) = (True, n)"
  by (induction calls) (auto simp: sink_handle_def checkErr_def split: prod.splits option.splits bool.splits)

lemma sink_warns_once:
  "snd (sink_run inner calls (False, 0)) = (if list_ex (\<lambda>call. forbidden (inner call)) calls then (True, 1) else (False, 0))"
proof (induction calls)
  case (Cons call calls)
  obtain ev err where i: "inner call = (ev, err)" by (metis surj_pair)
  show ?case
  proof (cases "forbidden (inner call)")
    case True
    then have "checkErr err (False, 0) = (True, Suc 0)" using i by (auto simp: forbidden_def checkErr_def split: option.splits bool.splits)
    then show ?thesis using True i sink_warned [of inner calls "Suc 0"]
      by (cases "sink_run inner calls (True, Suc 0)") (simp add: sink_handle_def)
  next
    case False
    then have "checkErr err (False, 0) = (False, 0)" using i by (auto simp: forbidden_def checkErr_def split: option.splits bool.splits)
    then show ?thesis using False i Cons.IH by (cases "sink_run inner calls (False, 0)") (simp add: sink_handle_def)
  qed
qed simp

end
