(* ===== verification/LoopExit.thy ===== *)
theory LoopExit
  imports Shutdown Telemetry Pipeline LoopProps
begin

text \<open>
  The cases of \<open>runLoop\<close> in \<open>main.go\<close> that end it: a signal, also one that arrived while a varnishadm call was
  in flight, the crash loop of varnishncsa, the failure of an HTTP server, and the exit of varnishd. With the
  handlers of \<open>EventLoop\<close> they make up the whole loop, as the function \<open>runLoop\<close> of the events it selects.
\<close>

section \<open>The four ends\<close>

text \<open>\<open>ncsaCrashed\<close> is closed behind the events that are queued then.\<close>

datatype loop_end = EndSignal signal | EndCrashLoop "pod_event list" | EndServer string | EndVarnishd string

definition crash_exit :: "shutdown_config \<Rightarrow> shutdown_run \<Rightarrow> (action list \<times> int) option" where
  "crash_exit c r = map_option (\<lambda>(acts, t). ([Cancelled, Forwarded SIGTERM] @ acts, t)) (await_exit c r)"

definition server_exit :: "shutdown_config \<Rightarrow> shutdown_run \<Rightarrow> (action list \<times> int) option" where
  "server_exit c r =
     (let (stop, t1) = (if sc_NCSA c then ([NCSAStopped], sr_ncsa r) else ([], 0))
      in map_option (\<lambda>(acts, t2). (stop @ [Cancelled, Forwarded SIGTERM] @ acts, t1 + t2)) (await_exit c r))"

definition varnishd_exit :: "shutdown_config \<Rightarrow> shutdown_run \<Rightarrow> action list \<times> int" where
  "varnishd_exit c r =
     (let (stop, t) = (if sc_NCSA c then ([NCSAStopped], sr_ncsa r) else ([], 0)) in ([Exited, Cancelled] @ stop, t))"

definition varnishd_event :: "string \<Rightarrow> pod_event" where
  "varnishd_event err = (''Warning'', ''VarnishdExited'', ''varnishd exited unexpectedly: '' @ err)"

text \<open>The exit code, the events recorded, the actions and the time; \<open>None\<close> when it never returns.\<close>

fun end_loop :: "bool \<Rightarrow> bool \<Rightarrow> shutdown_config \<Rightarrow> shutdown_run \<Rightarrow> loop_end \<Rightarrow> (int \<times> pod_event list \<times> action list \<times> int) option" where
  "end_loop recorder podRef c r (EndSignal sig) = map_option (\<lambda>(code, acts, t). (code, [], acts, t)) (runShutdown c r sig)"
| "end_loop recorder podRef c r (EndCrashLoop queued) =
     map_option (\<lambda>(acts, t). (1, snd (drainNCSAEvents recorder podRef queued []), acts, t)) (crash_exit c r)"
| "end_loop recorder podRef c r (EndServer err) = map_option (\<lambda>(acts, t). (1, [], acts, t)) (server_exit c r)"
| "end_loop recorder podRef c r (EndVarnishd err) =
     (let (acts, t) = varnishd_exit c r in Some (1, emit_event recorder podRef (varnishd_event err) [], acts, t))"

section \<open>The whole loop\<close>

text \<open>
  What the select takes: an event of a source or a timer, an event of varnishncsa that is passed on to the pod,
  or one of the ends. A signal that interrupted a handler is acted on at the top of the next iteration, before
  anything else.
\<close>

datatype 't loop_input = Take "'t loop_event" | TakeNCSA pod_event | TakeEnd loop_end

fun runLoop :: "('t \<Rightarrow> template_data \<Rightarrow> string option) \<Rightarrow> (string \<Rightarrow> 'h) \<Rightarrow> loop_config \<Rightarrow> bool \<Rightarrow> bool \<Rightarrow> signal \<Rightarrow>
    (int \<times> 't loop_input) list \<Rightarrow> ('t, 'h) timed_loop \<Rightarrow> pod_event list \<Rightarrow> ('t, 'h) timed_loop \<times> pod_event list \<times> loop_end option" where
  "runLoop exec H cf recorder podRef pending [] l evts =
     (l, evts, if ls_pendingShutdown (fst l) then Some (EndSignal pending) else None)"
| "runLoop exec H cf recorder podRef pending ((now, input) # rest) l evts =
     (if ls_pendingShutdown (fst l) then (l, evts, Some (EndSignal pending))
      else case input of
        Take ev \<Rightarrow>
          runLoop exec H cf recorder podRef pending rest
            (if loop_ready (now, ev) l \<and> loop_enabled cf now ev (fst l) then (loop_handle exec H cf now ev (fst l), now) else l) evts
      | TakeNCSA ev \<Rightarrow> runLoop exec H cf recorder podRef pending rest l (emit_event recorder podRef ev evts)
      | TakeEnd e \<Rightarrow> (l, evts, Some e))"

text \<open>The loop function only goes where the relation \<open>loop_reach\<close> goes, and leaves at once for a signal that interrupted it.\<close>

lemma runLoop_reach:
  assumes "loop_reach exec H cf st0 now0 (fst l) (snd l)" and "runLoop exec H cf recorder podRef pending inputs l evts = (l', evts', e)"
  shows "loop_reach exec H cf st0 now0 (fst l') (snd l') \<and> (if ls_pendingShutdown (fst l') then e = Some (EndSignal pending) else True)"
  using assms
proof (induction inputs arbitrary: l evts)
  case Nil
  then show ?case by (auto split: if_splits)
next
  case (Cons x rest)
  obtain now input where x: "x = (now, input)" by (cases x)
  show ?case
  proof (cases "ls_pendingShutdown (fst l)")
    case True
    then show ?thesis using Cons.prems x by auto
  next
    case False
    show ?thesis
    proof (cases input)
      case (Take ev)
      let ?l = "if loop_ready (now, ev) l \<and> loop_enabled cf now ev (fst l) then (loop_handle exec H cf now ev (fst l), now) else l"
      have "loop_reach exec H cf st0 now0 (fst ?l) (snd ?l)"
        using Cons.prems(1) by (auto simp: loop_ready_def intro: loop_reach.iterate)
      then show ?thesis using Cons.IH [of ?l] Cons.prems(2) False Take x by simp
    next
      case (TakeNCSA ev)
      then show ?thesis using Cons.IH [OF Cons.prems(1)] Cons.prems(2) False x by simp
    next
      case (TakeEnd e')
      then show ?thesis using Cons.prems False x by auto
    qed
  qed
qed

section \<open>Every end is clean\<close>

text \<open>What the actions of an end do: varnishd is gone behind them, and no signal is sent to it afterwards.\<close>

definition clean_end :: "shutdown_config \<Rightarrow> shutdown_run \<Rightarrow> loop_end \<Rightarrow> action list \<Rightarrow> bool" where
  "clean_end c r e acts \<longleftrightarrow> Exited \<in> set acts \<and> Cancelled \<in> set acts \<and>
     list_all (\<lambda>a. case a of Forwarded s \<Rightarrow> False | _ \<Rightarrow> True) (dropWhile (\<lambda>a. a \<noteq> Exited) acts) \<and>
     (if sc_NCSA c then NCSAStopped \<in> set acts \<or> (case e of EndCrashLoop _ \<Rightarrow> True | _ \<Rightarrow> False) else True) \<and>
     (if Forwarded SIGKILL \<in> set acts \<and> e \<noteq> EndSignal SIGKILL
      then 0 < sc_ShutdownTimeout c \<and> (case sr_exit r of None \<Rightarrow> True | Some t \<Rightarrow> sc_ShutdownTimeout c < t) else True)"

text \<open>The waits of an end: varnishd goes, or is killed because it outlived the timeout.\<close>

lemma await_exit_cases:
  assumes "await_exit c r = Some (acts, t)"
  obtains "acts = [Exited]"
  | "acts = [Forwarded SIGKILL, Exited]" "0 < sc_ShutdownTimeout c" "case sr_exit r of None \<Rightarrow> True | Some t \<Rightarrow> sc_ShutdownTimeout c < t"
  using assms by (auto simp: await_exit_def split: option.splits if_splits)

lemma clean_await:
  assumes "await_exit c r = Some (acts, t)"
    and "Forwarded SIGKILL \<notin> set pre \<or> e = EndSignal SIGKILL" and "Exited \<notin> set pre" and "Cancelled \<in> set pre"
    and "if sc_NCSA c then NCSAStopped \<in> set pre \<or> (case e of EndCrashLoop _ \<Rightarrow> True | _ \<Rightarrow> False) else True"
  shows "clean_end c r e (pre @ acts)"
proof -
  have "dropWhile (\<lambda>a. a \<noteq> Exited) (pre @ acts) = dropWhile (\<lambda>a. a \<noteq> Exited) acts"
    using assms(3) by (intro dropWhile_append2) auto
  then show ?thesis
    using assms(2-5) by (cases rule: await_exit_cases [OF assms(1)]) (auto simp: clean_end_def)
qed



end
