(* ===== verification/ManagerWiring.thy ===== *)
theory ManagerWiring
  imports VarnishProcess PrefixWriter
begin

text \<open>
  How \<open>internal/varnish/manager.go\<close> wires its processes: the constructor, the writers between the processes
  and the log of the pod, the command lines that name the instance of varnishd, and the two readers of
  varnishstat. What the writers do with the bytes is \<open>Redact\<close> and \<open>PrefixWriter\<close>.
\<close>

section \<open>Writers\<close>

datatype sink = PodStdout | PodStderr | Prefixing string sink | Redacting sink

text \<open>The runner of the short commands and of varnishd, and what is flushed when varnishd has exited.\<close>

record runner_io =
  ri_stdout :: sink
  ri_stderr :: sink
  ri_flushers :: "sink list"

definition SetRedactor :: "runner_io \<Rightarrow> runner_io" where
  "SetRedactor io =
     (let out = Redacting (ri_stdout io); err = Redacting (ri_stderr io)
      in io\<lparr>ri_stdout := out, ri_stderr := err, ri_flushers := ri_flushers io @ [out, err]\<rparr>)"

text \<open>\<open>buildNCSAWriters\<close>: the two writers and the order of the flushes.\<close>

definition buildNCSAWriters :: "bool \<Rightarrow> sink \<Rightarrow> sink \<Rightarrow> string \<Rightarrow> sink \<times> sink \<times> sink list" where
  "buildNCSAWriters redactor stdout stderr pre =
     (let (out1, prefixFlushers) = (if pre \<noteq> [] then (Prefixing pre stdout, [Prefixing pre stdout]) else (stdout, []));
          (out2, err2, flushers) =
            (if redactor then (Redacting out1, Redacting stderr, [Redacting out1, Redacting stderr]) else (out1, stderr, []))
      in (out2, err2, flushers @ prefixFlushers))"

section \<open>The manager\<close>

record cache_manager =
  cm_varnishdPath :: string
  cm_varnishadmPath :: string
  cm_varnishstatPath :: string
  cm_listenAddrs :: "string list"
  cm_extraArgs :: "string list"
  cm_workDir :: string
  cm_io :: runner_io
  cm_AdminTimeout :: int
  cm_ncsa :: ncsa_config
  cm_NCSARestartDelay :: int
  cm_NCSAStopTimeout :: int

text \<open>\<open>New\<close>: \<open>None\<close> is the panic without metrics or without a redactor.\<close>

definition manager_New :: "string \<Rightarrow> string \<Rightarrow> string list \<Rightarrow> string list \<Rightarrow> string \<Rightarrow> bool \<Rightarrow> bool \<Rightarrow> cache_manager option" where
  "manager_New varnishd varnishadm listen extra varnishstat metrics redactor =
     (if \<not> metrics \<or> \<not> redactor then None
      else Some \<lparr>cm_varnishdPath = varnishd, cm_varnishadmPath = varnishadm,
        cm_varnishstatPath = (if varnishstat = [] then ''varnishstat'' else varnishstat),
        cm_listenAddrs = listen, cm_extraArgs = extra, cm_workDir = extractWorkDir extra,
        cm_io = SetRedactor \<lparr>ri_stdout = PodStdout, ri_stderr = PodStderr, ri_flushers = []\<rparr>,
        cm_AdminTimeout = 30 * 1000000000,
        cm_ncsa = \<lparr>nc_MaxCrashes = 3, nc_StableUptime = 60 * 1000000000\<rparr>,
        cm_NCSARestartDelay = 5 * 1000000000, cm_NCSAStopTimeout = 5 * 1000000000\<rparr>)"

text \<open>
  \<open>StartNCSA\<close>: \<open>None\<close> when the path is empty and nothing is started, else the command line, the two writers
  and the flush order of the supervised process.
\<close>

definition StartNCSA :: "cache_manager \<Rightarrow> string \<Rightarrow> string list \<Rightarrow> string \<Rightarrow>
    (string \<times> string list \<times> sink \<times> sink \<times> sink list) option" where
  "StartNCSA m ncsaPath args pre =
     (if ncsaPath = [] then None
      else Some (ncsaPath, (if cm_workDir m \<noteq> [] then [''-n'', cm_workDir m] else []) @ args,
        buildNCSAWriters True PodStdout PodStderr pre))"

text \<open>
  The command line of varnishstat, and \<open>output\<close> of the runner: the trimmed output of the process, with its
  error; only \<open>run\<close> merges what it writes to stderr, \<open>runStdout\<close> does not.
\<close>

definition stat_args :: "cache_manager \<Rightarrow> string list" where
  "stat_args m = (if cm_workDir m \<noteq> [] then [''-n'', cm_workDir m, ''-1'', ''-j''] else [''-1'', ''-j''])"

record process_output =
  po_stdout :: string
  po_merged :: string
  po_error :: "string option"

definition runner_output :: "bool \<Rightarrow> process_output \<Rightarrow> string \<times> string option" where
  "runner_output combined p = (trim_space (if combined then po_merged p else po_stdout p), po_error p)"

definition ActiveSessions :: "(string \<Rightarrow> string list \<Rightarrow> process_output) \<Rightarrow> (string \<Rightarrow> 64 word option) \<Rightarrow> cache_manager \<Rightarrow> 64 word option" where
  "ActiveSessions exec parse m =
     (case runner_output False (exec (cm_varnishstatPath m) (stat_args m)) of
        (_, Some err) \<Rightarrow> None
      | (out, None) \<Rightarrow> parse out)"

definition VarnishstatFunc :: "(string \<Rightarrow> string list \<Rightarrow> process_output) \<Rightarrow> int \<Rightarrow> cache_manager \<Rightarrow> string + string \<times> int" where
  "VarnishstatFunc exec major m =
     (case runner_output False (exec (cm_varnishstatPath m) (stat_args m)) of
        (_, Some err) \<Rightarrow> Inl err
      | (out, None) \<Rightarrow> Inr (out, major))"

section \<open>What the wiring guarantees\<close>

fun redacted :: "sink \<Rightarrow> bool" where
  "redacted (Redacting s) = True"
| "redacted (Prefixing pre s) = redacted s"
| "redacted s = False"

fun below :: "sink \<Rightarrow> sink list" where
  "below (Redacting s) = s # below s"
| "below (Prefixing pre s) = s # below s"
| "below s = []"

text \<open>A flush order strands nothing when no writer is flushed after one that it writes into.\<close>

definition flush_order_ok :: "sink list \<Rightarrow> bool" where
  "flush_order_ok fs \<longleftrightarrow> sorted_wrt (\<lambda>x y. x \<notin> set (below y)) fs"

fun buffers :: "sink \<Rightarrow> sink list" where
  "buffers (Redacting s) = Redacting s # buffers s"
| "buffers (Prefixing pre s) = Prefixing pre s # buffers s"
| "buffers s = []"

text \<open>
  No byte of a child process reaches the log of the pod around the redactor: the writers of varnishd, of the
  commands and of varnishncsa redact, the prefix is written behind the redaction, and the flushes after an
  exit reach every writer that buffers, each before the one it writes into.
\<close>

theorem output_always_redacted:
  assumes "manager_New varnishd varnishadm listen extra varnishstat metrics redactor = Some m"
    and "StartNCSA m ncsaPath args pre = Some (path, ncsaArgs, out, err, flushers)"
  shows "redacted (ri_stdout (cm_io m)) \<and> redacted (ri_stderr (cm_io m)) \<and>
    set (buffers (ri_stdout (cm_io m)) @ buffers (ri_stderr (cm_io m))) = set (ri_flushers (cm_io m)) \<and>
    out = Redacting (if pre = [] then PodStdout else Prefixing pre PodStdout) \<and> err = Redacting PodStderr \<and>
    set (buffers out @ buffers err) = set flushers \<and> flush_order_ok flushers"
  using assms
  by (auto simp: manager_New_def StartNCSA_def SetRedactor_def buildNCSAWriters_def flush_order_ok_def Let_def split: if_splits)

text \<open>All the tools are pointed at the instance that varnishd was started with.\<close>

lemma one_instance:
  assumes "manager_New varnishd varnishadm listen extra varnishstat metrics redactor = Some m"
    and "extractWorkDir extra = w" and "w \<noteq> []"
    and "StartNCSA m ncsaPath args pre = Some (path, ncsaArgs, writers)"
  shows "take 2 ncsaArgs = [''-n'', w] \<and> take 2 (stat_args m) = [''-n'', w] \<and> take 2 (adm_args w cmd) = [''-n'', w]"
  using assms by (auto simp: manager_New_def StartNCSA_def stat_args_def adm_args_def split: if_splits)

theorem output_always_redacted_witness:
  "\<exists>m. manager_New ''varnishd'' ''varnishadm'' [] [] [] True True = Some m \<and> redacted (ri_stdout (cm_io m)) \<and>
     (\<exists>path ncsaArgs flushers. StartNCSA m ''varnishncsa'' [] ''log: '' =
        Some (path, ncsaArgs, Redacting (Prefixing ''log: '' PodStdout), Redacting PodStderr, flushers) \<and> flush_order_ok flushers)"
proof -
  obtain m where m: "manager_New ''varnishd'' ''varnishadm'' [] [] [] True True = Some m" by (simp add: manager_New_def)
  obtain path ncsaArgs out err flushers where s: "StartNCSA m ''varnishncsa'' [] ''log: '' = Some (path, ncsaArgs, out, err, flushers)"
    by (cases "StartNCSA m ''varnishncsa'' [] ''log: ''") (auto simp: StartNCSA_def)
  show ?thesis using m s output_always_redacted [OF m s] by auto
qed

end
