(* ===== verification/BroadcastServer.thy ===== *)
theory BroadcastServer
  imports Shutdown ConfigProps
begin

text \<open>
  The life of the broadcast server (\<open>internal/broadcast/broadcast.go\<close>): its construction, the list of pods it
  serves, and the two ways to end it, \<open>Drain\<close> and \<open>Shutdown\<close>. The fan-out of a request and the protocol of the
  drain signal are in \<open>Broadcast\<close>.
\<close>

record broadcast_options =
  bo_Addr :: string
  bo_TargetPort :: int
  bo_ServerIdleTimeout :: int
  bo_ReadHeaderTimeout :: int
  bo_ReadTimeout :: int
  bo_WriteTimeout :: int
  bo_ClientTimeout :: int
  bo_ClientIdleTimeout :: int
  bo_ShutdownTimeout :: int
  bo_Metrics :: bool

record broadcast_server =
  br_options :: broadcast_options
  br_clientTimeout :: int
  br_frontends :: "endpoint slice"
  br_idleClosed :: bool

text \<open>\<open>New\<close>; \<open>None\<close> is the panic without metrics.\<close>

definition broadcast_New :: "broadcast_options \<Rightarrow> broadcast_server option" where
  "broadcast_New opts =
     (if \<not> bo_Metrics opts then None
      else Some \<lparr>br_options = opts, br_clientTimeout = clientTimeout (bo_ClientTimeout opts), br_frontends = None,
        br_idleClosed = False\<rparr>)"

definition SetFrontends :: "endpoint slice \<Rightarrow> broadcast_server \<Rightarrow> broadcast_server" where
  "SetFrontends frontends s = s\<lparr>br_frontends := frontends\<rparr>"

text \<open>
  \<open>http.Server.Shutdown\<close> under a context with a timeout: it ends by itself after some time and perhaps with
  an error, or the context ends it.
\<close>

definition srv_Shutdown :: "int \<Rightarrow> int \<times> string option \<Rightarrow> int \<times> string option" where
  "srv_Shutdown timeout ends = (if fst ends \<le> timeout then ends else (timeout, Some ''context deadline exceeded''))"

text \<open>
  \<open>Drain\<close>: \<open>drainedAt\<close> is when \<open>connsDrained\<close> is closed, if ever; the result says whether the connections were
  gone, how long the call took, and its error.
\<close>

definition broadcast_Drain :: "int \<Rightarrow> int option \<Rightarrow> int \<times> string option \<Rightarrow> broadcast_server \<Rightarrow>
    (bool \<times> int \<times> string option) \<times> broadcast_server" where
  "broadcast_Drain timeout drainedAt ends s =
     (let (gone, waited) = (case drainedAt of Some t \<Rightarrow> if t \<le> timeout then (True, t) else (False, timeout) | None \<Rightarrow> (False, timeout));
          (took, err) = srv_Shutdown (bo_ShutdownTimeout (br_options s)) ends
      in ((gone, waited + took, err), s\<lparr>br_idleClosed := True\<rparr>))"

definition broadcast_Shutdown :: "int \<Rightarrow> int \<times> string option \<Rightarrow> broadcast_server \<Rightarrow> (int \<times> string option) \<times> broadcast_server" where
  "broadcast_Shutdown timeout ends s = (srv_Shutdown timeout ends, s\<lparr>br_idleClosed := True\<rparr>)"

text \<open>A request to a pod is always bounded, whatever timeout is configured.\<close>

lemma client_bounded: "broadcast_New opts = Some s \<Longrightarrow> 0 < br_clientTimeout s"
  by (auto simp: broadcast_New_def clientTimeout_def second_def split: if_splits)

text \<open>The pods of a request are those set last.\<close>

lemma frontends_last: "br_frontends (fold SetFrontends (fs @ [f]) s) = f"
  by (simp add: SetFrontends_def)

text \<open>The drain keeps to the share of the shutdown budget that is set aside for it.\<close>

lemma drain_within:
  assumes "broadcast_Drain (sc_BroadcastDrainTimeout c) drainedAt ends s = ((gone, t, err), s')"
    and "bo_ShutdownTimeout (br_options s) = sc_BroadcastShutdownTimeout c"
    and "0 \<le> sc_BroadcastDrainTimeout c" and "0 \<le> sc_BroadcastShutdownTimeout c" and "0 \<le> fst ends"
    and "case drainedAt of None \<Rightarrow> True | Some d \<Rightarrow> 0 \<le> d"
  shows "0 \<le> t \<and> t \<le> sc_BroadcastDrainTimeout c + sc_BroadcastShutdownTimeout c \<and> br_idleClosed s'"
  using assms by (auto simp: broadcast_Drain_def srv_Shutdown_def Let_def split: option.splits if_splits prod.splits)

text \<open>With the drain that was just bounded, the assumption of \<open>shutdown_within_budget\<close> on the broadcaster holds.\<close>

lemma shutdown_with_drain:
  assumes "run_within c r" and "broadcast_Drain (sc_BroadcastDrainTimeout c) drainedAt ends s = ((gone, t, err), s')"
    and "bo_ShutdownTimeout (br_options s) = sc_BroadcastShutdownTimeout c"
    and "0 \<le> sc_BroadcastDrainTimeout c" and "0 \<le> sc_BroadcastShutdownTimeout c" and "0 \<le> fst ends"
    and "case drainedAt of None \<Rightarrow> True | Some d \<Rightarrow> 0 \<le> d"
  shows "run_within c (r\<lparr>sr_bcast := t\<rparr>)"
  using assms(1) drain_within [OF assms(2-7)] by (simp add: run_within_def)

end
