(* ===== verification/Metrics.thy ===== *)
theory Metrics
  imports StartupProps Pipeline
begin

text \<open>
  The Prometheus metrics (\<open>internal/telemetry/metrics.go\<close>) and every update of them by the start and the event
  loop (\<open>main.go\<close>). The client library is described by what it documents: registering the same name twice panics,
  and so does a wrong number of label values or a histogram whose buckets do not increase; a vector has a series
  for the label values it was given. A histogram is represented by the number of its observations. The gauge with
  the expiry of a certificate, which \<open>recordTLSCertInfo\<close> sets with the entry of the status store, is left out.
\<close>

section \<open>The metrics\<close>

datatype metric_kind = Counter | Gauge | Histogram "rat list"

record metric_opts =
  mo_Name :: string
  mo_kind :: metric_kind
  mo_labels :: "string list"

datatype Metrics = VCLReloadsTotal | VCLRenderErrorsTotal | EndpointUpdatesTotal | Endpoints | VCLTemplateChangesTotal
  | VCLTemplateParseErrorsTotal | VCLRollbacksTotal | VarnishdUp | BroadcastRequestsTotal | BroadcastFanoutTargets
  | BroadcastPodResultsTotal | BroadcastPodDurationSeconds | VCLReloadRetriesTotal | ValuesUpdatesTotal | SecretsUpdatesTotal
  | BuildInfo | DebounceEventsTotal | DebounceFiresTotal | DebounceMaxEnforcementsTotal | VCLRenderDurationSeconds
  | VCLReloadDurationSeconds | BroadcastDurationSeconds | DebounceLatencySeconds | TLSCertUpdatesTotal | TLSCertReloadsTotal
  | TLSCertOperationsTotal | TLSCertsActive | TLSCertExpiryTimestampSeconds

definition opts :: "string \<Rightarrow> metric_kind \<Rightarrow> string list \<Rightarrow> metric_opts" where
  "opts name kind labels = \<lparr>mo_Name = ''k8s_httpcache_'' @ name, mo_kind = kind, mo_labels = labels\<rparr>"

text \<open>\<open>DefBuckets\<close> of the library, and the buckets of the flags.\<close>

fun metric_opts_of :: "rat list \<Rightarrow> rat list \<Rightarrow> Metrics \<Rightarrow> metric_opts" where
  "metric_opts_of def buckets VCLReloadsTotal = opts ''vcl_reloads_total'' Counter [''result'']"
| "metric_opts_of def buckets VCLRenderErrorsTotal = opts ''vcl_render_errors_total'' Counter []"
| "metric_opts_of def buckets EndpointUpdatesTotal = opts ''endpoint_updates_total'' Counter [''role'', ''service'']"
| "metric_opts_of def buckets Endpoints = opts ''endpoints'' Gauge [''role'', ''service'']"
| "metric_opts_of def buckets VCLTemplateChangesTotal = opts ''vcl_template_changes_total'' Counter []"
| "metric_opts_of def buckets VCLTemplateParseErrorsTotal = opts ''vcl_template_parse_errors_total'' Counter []"
| "metric_opts_of def buckets VCLRollbacksTotal = opts ''vcl_rollbacks_total'' Counter []"
| "metric_opts_of def buckets VarnishdUp = opts ''varnishd_up'' Gauge []"
| "metric_opts_of def buckets BroadcastRequestsTotal = opts ''broadcast_requests_total'' Counter [''method'', ''status'']"
| "metric_opts_of def buckets BroadcastFanoutTargets = opts ''broadcast_fanout_targets'' Gauge []"
| "metric_opts_of def buckets BroadcastPodResultsTotal = opts ''broadcast_pod_results_total'' Counter [''outcome'']"
| "metric_opts_of def buckets BroadcastPodDurationSeconds = opts ''broadcast_pod_duration_seconds'' (Histogram def) []"
| "metric_opts_of def buckets VCLReloadRetriesTotal = opts ''vcl_reload_retries_total'' Counter []"
| "metric_opts_of def buckets ValuesUpdatesTotal = opts ''values_updates_total'' Counter [''configmap'']"
| "metric_opts_of def buckets SecretsUpdatesTotal = opts ''secrets_updates_total'' Counter [''secret'']"
| "metric_opts_of def buckets BuildInfo = opts ''build_info'' Gauge [''version'', ''goversion'']"
| "metric_opts_of def buckets DebounceEventsTotal = opts ''debounce_events_total'' Counter [''group'']"
| "metric_opts_of def buckets DebounceFiresTotal = opts ''debounce_fires_total'' Counter [''group'']"
| "metric_opts_of def buckets DebounceMaxEnforcementsTotal = opts ''debounce_max_enforcements_total'' Counter [''group'']"
| "metric_opts_of def buckets VCLRenderDurationSeconds = opts ''vcl_render_duration_seconds'' (Histogram def) []"
| "metric_opts_of def buckets VCLReloadDurationSeconds = opts ''vcl_reload_duration_seconds'' (Histogram def) []"
| "metric_opts_of def buckets BroadcastDurationSeconds = opts ''broadcast_duration_seconds'' (Histogram def) []"
| "metric_opts_of def buckets DebounceLatencySeconds =
     opts ''debounce_latency_seconds'' (Histogram (if buckets = [] then def else buckets)) [''group'']"
| "metric_opts_of def buckets TLSCertUpdatesTotal = opts ''tls_cert_updates_total'' Counter [''cert'']"
| "metric_opts_of def buckets TLSCertReloadsTotal = opts ''tls_cert_reloads_total'' Counter [''cert'', ''result'']"
| "metric_opts_of def buckets TLSCertOperationsTotal = opts ''tls_cert_operations_total'' Counter [''operation'', ''result'']"
| "metric_opts_of def buckets TLSCertsActive = opts ''tls_certs_active'' Gauge []"
| "metric_opts_of def buckets TLSCertExpiryTimestampSeconds = opts ''tls_cert_expiry_timestamp_seconds'' Gauge [''cert'']"

text \<open>The call of \<open>MustRegister\<close>, in its order.\<close>

definition registered_metrics :: "Metrics list" where
  "registered_metrics = [VCLReloadsTotal, VCLRenderErrorsTotal, VCLReloadRetriesTotal, VCLTemplateChangesTotal,
     VCLTemplateParseErrorsTotal, VCLRollbacksTotal, EndpointUpdatesTotal, Endpoints, VarnishdUp, ValuesUpdatesTotal,
     SecretsUpdatesTotal, BroadcastRequestsTotal, BroadcastFanoutTargets, BroadcastPodResultsTotal, BroadcastPodDurationSeconds,
     BuildInfo, DebounceEventsTotal, DebounceFiresTotal, DebounceMaxEnforcementsTotal, VCLRenderDurationSeconds,
     VCLReloadDurationSeconds, BroadcastDurationSeconds, DebounceLatencySeconds, TLSCertUpdatesTotal, TLSCertReloadsTotal,
     TLSCertOperationsTotal, TLSCertsActive, TLSCertExpiryTimestampSeconds]"

fun MustRegister :: "metric_opts list \<Rightarrow> string list \<Rightarrow> string list option" where
  "MustRegister [] reg = Some reg"
| "MustRegister (m # ms) reg = (if mo_Name m \<in> set reg then None else MustRegister ms (mo_Name m # reg))"

section \<open>Series\<close>

type_synonym metric_series = "(Metrics \<times> string list, int) fmap"

datatype metric_op = Inc | SetTo int | Observe | DeleteLabelValues

type_synonym metric_call = "Metrics \<times> string list \<times> metric_op"

definition NewMetrics :: "rat list \<Rightarrow> rat list \<Rightarrow> string list \<Rightarrow> (string list \<times> metric_series) option" where
  "NewMetrics def buckets reg =
     (case MustRegister (map (metric_opts_of def buckets) registered_metrics) reg of
        None \<Rightarrow> None
      | Some reg' \<Rightarrow> Some (reg', fmap_of_list (map (\<lambda>m. ((m, []), 0))
          (filter (\<lambda>m. mo_labels (metric_opts_of def buckets m) = []) registered_metrics))))"

definition series_value :: "metric_series \<Rightarrow> Metrics \<Rightarrow> string list \<Rightarrow> int" where
  "series_value s m ls = (case fmlookup s (m, ls) of None \<Rightarrow> 0 | Some v \<Rightarrow> v)"

text \<open>One call, \<open>None\<close> when it panics.\<close>

fun metric_call :: "(Metrics \<Rightarrow> metric_opts) \<Rightarrow> metric_call \<Rightarrow> metric_series \<Rightarrow> metric_series option" where
  "metric_call os (m, ls, DeleteLabelValues) s =
     Some (if length ls = length (mo_labels (os m)) then fmdrop (m, ls) s else s)"
| "metric_call os (m, ls, Inc) s =
     (if length ls \<noteq> length (mo_labels (os m)) then None else Some (fmupd (m, ls) (series_value s m ls + 1) s))"
| "metric_call os (m, ls, SetTo v) s =
     (if length ls \<noteq> length (mo_labels (os m)) then None else Some (fmupd (m, ls) v s))"
| "metric_call os (m, ls, Observe) s =
     (if length ls \<noteq> length (mo_labels (os m)) then None
      else (case mo_kind (os m) of
              Histogram bs \<Rightarrow> if sorted_wrt (<) bs then Some (fmupd (m, ls) (series_value s m ls + 1) s) else None
            | _ \<Rightarrow> None))"

fun metric_calls :: "(Metrics \<Rightarrow> metric_opts) \<Rightarrow> metric_call list \<Rightarrow> metric_series \<Rightarrow> metric_series option" where
  "metric_calls os [] s = Some s"
| "metric_calls os (c # cs) s = (case metric_call os c s of None \<Rightarrow> None | Some s' \<Rightarrow> metric_calls os cs s')"

section \<open>What the controller counts\<close>

text \<open>Before the loop: the build, the endpoints of the first inputs, the first rendering, varnishd is up.\<close>

definition start_calls :: "string \<Rightarrow> string \<Rightarrow> string \<Rightarrow> inputs \<Rightarrow> string list \<Rightarrow> metric_call list" where
  "start_calls version goversion service inp order =
     [(BuildInfo, [version, goversion], SetTo 1), (Endpoints, [''frontend'', service], SetTo (int (length (elems (in_Frontends inp)))))] @
     map (\<lambda>n. (Endpoints, [''backend'', n], SetTo (case fmlookup (in_Backends inp) n of
       None \<Rightarrow> 0 | Some bg \<Rightarrow> int (length (elems (bg_Endpoints bg)))))) order @
     [(VCLRenderDurationSeconds, [], Observe), (VarnishdUp, [], SetTo 1)]"

definition rollback_calls :: "('t \<Rightarrow> template_data \<Rightarrow> string option) \<Rightarrow> 't reload_env \<Rightarrow> ('t, 'h) loop_state \<Rightarrow> metric_call list" where
  "rollback_calls exec env st =
     (VCLRenderDurationSeconds, [], Observe) #
     (case fst (Render exec (ls_inputs st) (ls_rend st)) of
        None \<Rightarrow> [(VCLRenderErrorsTotal, [], Inc)]
      | Some vclStr \<Rightarrow>
          if \<not> env_rb_temp_ok env then []
          else if \<not> env_rb_reload_ok env then [(VCLReloadsTotal, [''error''], Inc)]
          else [(VCLReloadsTotal, [''success''], Inc)])"

text \<open>The rollback of \<open>handleReload\<close>, with the renderer back on the previous template.\<close>

definition rolled_back_calls :: "('t \<Rightarrow> template_data \<Rightarrow> string option) \<Rightarrow> 't reload_env \<Rightarrow> ('t, 'h) loop_state \<Rightarrow> metric_call list" where
  "rolled_back_calls exec env st =
     (VCLRollbacksTotal, [], Inc) # rollback_calls exec env (st\<lparr>ls_rend := renderer_Rollback (ls_rend st)\<rparr>)"

definition reload_render_calls :: "('t \<Rightarrow> template_data \<Rightarrow> string option) \<Rightarrow> (string \<Rightarrow> 'h) \<Rightarrow> 't reload_env \<Rightarrow>
    ('t, 'h) loop_state \<Rightarrow> metric_call list" where
  "reload_render_calls exec H env st =
     (VCLRenderDurationSeconds, [], Observe) #
     (case Render exec (ls_inputs st) (ls_rend st) of
        (None, r) \<Rightarrow> (VCLRenderErrorsTotal, [], Inc) #
          (if ls_templateSwapped st then rolled_back_calls exec env (st\<lparr>ls_rend := r\<rparr>) else [])
      | (Some vclStr, r) \<Rightarrow>
          if H vclStr = ls_lastVCLHash st then [(VCLReloadsTotal, [''skipped''], Inc)]
          else if \<not> env_temp_ok env then []
          else (case env_reload env of
                  Signalled \<Rightarrow> []
                | Failed rejected \<Rightarrow> (VCLReloadsTotal, [''error''], Inc) #
                    (if \<not> ls_templateSwapped st \<or> \<not> rejected then [] else rolled_back_calls exec env (st\<lparr>ls_rend := r\<rparr>))
                | Applied \<Rightarrow> [(VCLReloadsTotal, [''success''], Inc)]))"

definition reload_calls :: "('t \<Rightarrow> template_data \<Rightarrow> string option) \<Rightarrow> (string \<Rightarrow> 'h) \<Rightarrow> 't reload_env \<Rightarrow>
    ('t, 'h) loop_state \<Rightarrow> metric_call list" where
  "reload_calls exec H env st =
     (if \<not> ls_pendingReload st then []
      else (if ls_templateChanged st \<and> \<not> fst (renderer_Reload (env_parsed env) (ls_rend st))
            then [(VCLTemplateParseErrorsTotal, [], Inc)] else []) @
        reload_render_calls exec H env (reload_template env st))"

text \<open>A debounce timer fired: its group, and the other group of the same reload.\<close>

definition latency_calls :: "string \<Rightarrow> debounceState \<Rightarrow> metric_call list" where
  "latency_calls grp d = (if db_firstEvent d \<noteq> None then [(DebounceLatencySeconds, [grp], Observe)] else [])"

definition fire_calls :: "string \<Rightarrow> debounceState \<Rightarrow> metric_call list" where
  "fire_calls grp d =
     (DebounceFiresTotal, [grp], Inc) #
     (if db_capped d then [(DebounceMaxEnforcementsTotal, [grp], Inc)] else []) @ latency_calls grp d"

fun loop_calls :: "('t \<Rightarrow> template_data \<Rightarrow> string option) \<Rightarrow> (string \<Rightarrow> 'h) \<Rightarrow> string \<Rightarrow>
    't loop_event \<Rightarrow> ('t, 'h) loop_state \<Rightarrow> metric_call list" where
  "loop_calls exec H service Template st = [(VCLTemplateChangesTotal, [], Inc), (DebounceEventsTotal, [''backend''], Inc)]"
| "loop_calls exec H service (FrontendEv eps) st =
     [(EndpointUpdatesTotal, [''frontend'', service], Inc), (Endpoints, [''frontend'', service], SetTo (int (length (elems eps)))),
      (DebounceEventsTotal, [''frontend''], Inc)]"
| "loop_calls exec H service (BackendEv bc) st =
     (if backend_dropped bc st then []
      else (if bc_removed bc
            then [(Endpoints, [''backend'', bc_name bc], DeleteLabelValues), (EndpointUpdatesTotal, [''backend'', bc_name bc], DeleteLabelValues)]
            else [(Endpoints, [''backend'', bc_name bc], SetTo (int (length (elems (bc_endpoints bc))))),
                  (EndpointUpdatesTotal, [''backend'', bc_name bc], Inc)]) @
        [(DebounceEventsTotal, [''backend''], Inc)])"
| "loop_calls exec H service (ValuesEv name data) st = [(ValuesUpdatesTotal, [name], Inc), (DebounceEventsTotal, [''backend''], Inc)]"
| "loop_calls exec H service (SecretsEv name data) st = [(SecretsUpdatesTotal, [name], Inc), (DebounceEventsTotal, [''backend''], Inc)]"
| "loop_calls exec H service (TLSEv name data) st = [(TLSCertUpdatesTotal, [name], Inc), (DebounceEventsTotal, [''tls''], Inc)]"
| "loop_calls exec H service (FrontendTimer env) st =
     fire_calls ''frontend'' (ls_frontend st) @ latency_calls ''backend'' (ls_backend st) @ reload_calls exec H env st"
| "loop_calls exec H service (BackendTimer env) st =
     fire_calls ''backend'' (ls_backend st) @ latency_calls ''frontend'' (ls_frontend st) @ reload_calls exec H env st"
| "loop_calls exec H service TombstoneSweep st = []"
| "loop_calls exec H service (VCLRecoveryTimer env) st = reload_calls exec H env st"
| "loop_calls exec H service (TLSTimer order ans) st = fire_calls ''tls'' (ls_tlsCert st)"
| "loop_calls exec H service (TLSRecoveryTimer order ans) st = []"
| "loop_calls exec H service (NCSAEv reason) st = []"

text \<open>The loop with its metrics; \<open>None\<close> after a panic. The manager reports only its own reasons.\<close>

definition ncsa_reason :: "string \<Rightarrow> bool" where
  "ncsa_reason r \<longleftrightarrow> r \<in> {''VarnishncsaStartFailed'', ''VarnishncsaCrashLoop'', ''VarnishncsaExited'', ''VarnishncsaRestarted''}"

inductive metered :: "('t \<Rightarrow> template_data \<Rightarrow> string option) \<Rightarrow> (string \<Rightarrow> 'h) \<Rightarrow> loop_config \<Rightarrow> (Metrics \<Rightarrow> metric_opts) \<Rightarrow> string \<Rightarrow>
    ('t, 'h) loop_state \<Rightarrow> metric_series option \<Rightarrow> int \<Rightarrow> ('t, 'h) loop_state \<Rightarrow> metric_series option \<Rightarrow> int \<Rightarrow> bool"
  for exec H cf os service st0 s0 now0 where
  start: "metered exec H cf os service st0 s0 now0 st0 s0 now0"
| iterate: "metered exec H cf os service st0 s0 now0 st s now \<Longrightarrow> \<not> ls_pendingShutdown st \<Longrightarrow> now \<le> now' \<Longrightarrow>
    loop_enabled cf now' ev st \<Longrightarrow> (case ev of NCSAEv r \<Rightarrow> ncsa_reason r | _ \<Rightarrow> True) \<Longrightarrow>
    metered exec H cf os service st0 s0 now0 (loop_handle exec H cf now' ev st)
      (Option.bind s (metric_calls os (loop_calls exec H service ev st))) now'"

section \<open>Registration\<close>

lemma metric_names:
  "mo_Name (metric_opts_of def buckets m) = mo_Name (metric_opts_of def' buckets' m)"
  "take 14 (mo_Name (metric_opts_of def buckets m)) = ''k8s_httpcache_''"
  by (cases m; simp add: opts_def)+

lemma registered_all: "m \<in> set registered_metrics"
  by (cases m) (simp_all add: registered_metrics_def)

lemma count_list_distinct: "distinct xs \<Longrightarrow> x \<in> set xs \<Longrightarrow> count_list xs x = 1"
  by (induction xs) (auto simp: count_list_0_iff)

lemma registered_distinct: "distinct registered_metrics"
  by (simp add: registered_metrics_def)

lemma metric_names_distinct: "distinct (map (\<lambda>m. mo_Name (metric_opts_of def buckets m)) registered_metrics)"
  by (simp add: registered_metrics_def opts_def)

lemma MustRegister_Some:
  "MustRegister ms reg = (if distinct (map mo_Name ms) \<and> set (map mo_Name ms) \<inter> set reg = {} then Some (rev (map mo_Name ms) @ reg) else None)"
  by (induction ms reg rule: MustRegister.induct) auto

lemma series_start:
  "fmlookup (fmap_of_list (map (\<lambda>m. ((m, []), 0)) (filter (\<lambda>m. mo_labels (metric_opts_of def buckets m) = []) registered_metrics))) (m, ls :: string list) =
     (if mo_labels (metric_opts_of def buckets m) = [] \<and> ls = [] then Some (0 :: int) else None)"
proof -
  have "map_of (map (\<lambda>m. ((m, [] :: string list), 0 :: int)) ms) (m, ls) = (if m \<in> set ms \<and> ls = [] then Some 0 else None)" for ms and ls :: "string list"
    by (induction ms) auto
  then show ?thesis using registered_all by (simp add: fmlookup_of_list)
qed

text \<open>
  The metrics of the controller register without a panic next to whatever the registry holds under other
  names: no two of them share a name, and each is registered exactly once.
\<close>

theorem metrics_register:
  assumes "list_all (\<lambda>n. take 14 n \<noteq> ''k8s_httpcache_'') reg"
  shows "\<exists>reg' s. NewMetrics def buckets reg = Some (reg', s) \<and> length reg' = length reg + length registered_metrics \<and>
    set reg' = set reg \<union> range (\<lambda>m. mo_Name (metric_opts_of def buckets m)) \<and> count_list registered_metrics m = 1 \<and>
    (if mo_labels (metric_opts_of def buckets m) = [] then fmlookup s (m, []) = Some 0 else fmlookup s (m, ls) = None)"
proof -
  let ?names = "map mo_Name (map (metric_opts_of def buckets) registered_metrics)"
  have "set ?names \<inter> set reg = {}" using assms metric_names(2) by (fastforce simp: list_all_iff)
  moreover have "set ?names = range (\<lambda>m. mo_Name (metric_opts_of def buckets m))" using registered_all by auto
  moreover have "distinct ?names" using metric_names_distinct [of def buckets] by (simp add: comp_def)
  moreover have "count_list registered_metrics m = 1"
    using registered_all registered_distinct by (simp add: count_list_distinct)
  moreover define s :: metric_series where "s = fmap_of_list (map (\<lambda>m. ((m, []), 0))
      (filter (\<lambda>m. mo_labels (metric_opts_of def buckets m) = []) registered_metrics))"
  have "fmlookup s (m, ls) = (if mo_labels (metric_opts_of def buckets m) = [] \<and> ls = [] then Some 0 else None)" for ls
    unfolding s_def by (rule series_start)
  ultimately show ?thesis
    by (simp add: NewMetrics_def MustRegister_Some s_def [symmetric] Un_commute)
qed

section \<open>No call panics\<close>

fun call_ok :: "(Metrics \<Rightarrow> metric_opts) \<Rightarrow> metric_call \<Rightarrow> bool" where
  "call_ok os (m, ls, DeleteLabelValues) = True"
| "call_ok os (m, ls, Observe) = (length ls = length (mo_labels (os m)) \<and>
     (case mo_kind (os m) of Histogram bs \<Rightarrow> sorted_wrt (<) bs | _ \<Rightarrow> False))"
| "call_ok os (m, ls, op) = (length ls = length (mo_labels (os m)))"

lemma call_ok_call: "call_ok os c \<Longrightarrow> \<exists>s'. metric_call os c s = Some s'"
  by (cases "(os, c, s)" rule: metric_call.cases) (auto split: metric_kind.splits)

lemma calls_ok_calls: "list_all (call_ok os) cs \<Longrightarrow> \<exists>s'. metric_calls os cs s = Some s'"
proof (induction cs arbitrary: s)
  case (Cons c cs)
  then obtain s1 where "metric_call os c s = Some s1" using call_ok_call by fastforce
  then show ?case using Cons by simp
qed simp

lemma mo_labels_opts [simp]: "mo_labels (opts n k ls) = ls" "mo_kind (opts n k ls) = k"
  by (simp_all add: opts_def)

lemma reload_calls_ok: "sorted_wrt (<) def \<Longrightarrow> list_all (call_ok (metric_opts_of def buckets)) (reload_calls exec H env st)"
  by (auto simp: reload_calls_def reload_render_calls_def rolled_back_calls_def rollback_calls_def
      split: option.splits prod.splits mgr_answer.splits)

lemma fire_calls_ok:
  assumes "sorted_wrt (<) def" and "sorted_wrt (<) buckets"
  shows "list_all (call_ok (metric_opts_of def buckets)) (fire_calls g d)"
    and "list_all (call_ok (metric_opts_of def buckets)) (latency_calls g d)"
  using assms by (auto simp: fire_calls_def latency_calls_def)

lemma loop_calls_ok:
  "sorted_wrt (<) def \<Longrightarrow> sorted_wrt (<) buckets \<Longrightarrow> list_all (call_ok (metric_opts_of def buckets)) (loop_calls exec H service ev st)"
  using reload_calls_ok [of def buckets] fire_calls_ok [of def buckets] by (cases ev) auto

lemma start_calls_ok: "sorted_wrt (<) def \<Longrightarrow> list_all (call_ok (metric_opts_of def buckets)) (start_calls version gv service inp order)"
  by (auto simp: start_calls_def list_all_iff)

section \<open>What the series say\<close>

definition untouched :: "Metrics \<Rightarrow> metric_call list \<Rightarrow> bool" where
  "untouched m cs \<longleftrightarrow> list_all (\<lambda>c. fst c \<noteq> m) cs"

lemma metric_call_other: "metric_call os (m', ls', op) s = Some s' \<Longrightarrow> (m', ls') \<noteq> (m, ls) \<Longrightarrow> fmlookup s' (m, ls) = fmlookup s (m, ls)"
  by (cases op) (auto split: if_splits metric_kind.splits)

lemma metric_calls_append:
  "metric_calls os (cs @ ds) s = (case metric_calls os cs s of None \<Rightarrow> None | Some s' \<Rightarrow> metric_calls os ds s')"
  by (induction cs arbitrary: s) (auto split: option.split)

lemma untouched_lookup: "untouched m cs \<Longrightarrow> metric_calls os cs s = Some s' \<Longrightarrow> fmlookup s' (m, ls) = fmlookup s (m, ls)"
proof (induction cs arbitrary: s)
  case (Cons c cs)
  obtain m' ls' op where c: "c = (m', ls', op)" by (cases c)
  obtain s1 where s1: "metric_call os c s = Some s1" "metric_calls os cs s1 = Some s'" using Cons.prems(2) by (auto split: option.splits)
  then show ?case using Cons.IH [OF _ s1(2)] Cons.prems(1) metric_call_other [of os m' ls' op s s1 m ls] by (simp add: c untouched_def)
qed simp

text \<open>A metric that is only incremented counts its calls.\<close>

definition only_inc :: "Metrics \<Rightarrow> metric_call list \<Rightarrow> bool" where
  "only_inc m cs \<longleftrightarrow> list_all (\<lambda>(m', ls, op). m' = m \<longrightarrow> op = Inc) cs"

lemma only_inc_value:
  "only_inc m cs \<Longrightarrow> metric_calls os cs s = Some s' \<Longrightarrow> series_value s' m ls = series_value s m ls + int (count_list cs (m, ls, Inc))"
proof (induction cs arbitrary: s)
  case (Cons c cs)
  obtain m' ls' op where c: "c = (m', ls', op)" by (cases c)
  obtain s1 where s1: "metric_call os c s = Some s1" "metric_calls os cs s1 = Some s'" using Cons.prems(2) by (auto split: option.splits)
  have "series_value s1 m ls = series_value s m ls + (if c = (m, ls, Inc) then 1 else 0)"
  proof (cases "(m', ls') = (m, ls)")
    case True
    then have "op = Inc" using Cons.prems(1) by (simp add: c only_inc_def)
    then show ?thesis using s1(1) True by (auto simp: c series_value_def split: if_splits)
  next
    case False
    then show ?thesis using metric_call_other [OF s1(1) [unfolded c] False] by (auto simp: c series_value_def)
  qed
  then show ?case using Cons.IH [OF _ s1(2)] Cons.prems(1) by (simp add: only_inc_def)
qed simp

section \<open>Counters and events\<close>

text \<open>The calls that go with an event of the pod.\<close>

definition event_counters :: "(metric_call \<times> string) list" where
  "event_counters = [((VCLReloadsTotal, [''success''], Inc), ''VCLReloaded''), ((VCLReloadsTotal, [''error''], Inc), ''VCLReloadFailed''),
     ((VCLRollbacksTotal, [], Inc), ''VCLRolledBack''), ((VCLRenderErrorsTotal, [], Inc), ''VCLRenderFailed''),
     ((VCLTemplateParseErrorsTotal, [], Inc), ''VCLTemplateParseFailed''), ((VCLTemplateChangesTotal, [], Inc), ''VCLTemplateChanged'')]"

definition call_events :: "metric_call list \<Rightarrow> string list" where
  "call_events cs = List.map_filter (map_of event_counters) cs"

definition vcl_events :: "string list \<Rightarrow> string list" where
  "vcl_events es = filter (\<lambda>e. e \<in> snd ` set event_counters) es"

lemma call_events_simps [simp]:
  "call_events [] = []" "call_events (c # cs) = (case map_of event_counters c of None \<Rightarrow> [] | Some e \<Rightarrow> [e]) @ call_events cs"
  "call_events (cs @ ds) = call_events cs @ call_events ds"
  by (auto simp: call_events_def List.map_filter_def split: option.split)

lemma vcl_events_append [simp]: "vcl_events (xs @ ys) = vcl_events xs @ vcl_events ys"
  by (simp add: vcl_events_def)

lemma vcl_events_emit:
  "vcl_events (ls_emitted (emitEvent e st)) = vcl_events (ls_emitted st) @ (if e \<in> snd ` set event_counters then [e] else [])"
  by (simp add: emitEvent_def vcl_events_def)

lemma emitted_prims [simp]:
  "ls_emitted (markRetry now st) = ls_emitted st" "ls_emitted (clearPending st) = ls_emitted st"
  by (simp_all add: markRetry_def clearPending_def)

lemma rollback_events:
  assumes "rollbackReload exec H env st = (ok, st')"
  shows "vcl_events (ls_emitted st') = vcl_events (ls_emitted st) @ call_events (rollback_calls exec env st)"
  using assms
  by (auto simp: rollbackReload_def rollback_calls_def vcl_events_emit event_counters_def split: option.splits prod.splits if_splits)

lemma reload_render_calls_cong:
  assumes "ls_inputs a = ls_inputs b" and "ls_rend a = ls_rend b" and "ls_templateSwapped a = ls_templateSwapped b"
    and "ls_lastVCLHash a = ls_lastVCLHash b"
  shows "reload_render_calls exec H env a = reload_render_calls exec H env b"
proof -
  have "rolled_back_calls exec env (a\<lparr>ls_rend := r\<rparr>) = rolled_back_calls exec env (b\<lparr>ls_rend := r\<rparr>)" for r
    using assms by (simp add: rolled_back_calls_def rollback_calls_def)
  note eq = this
  show ?thesis unfolding reload_render_calls_def assms eq ..
qed

lemma rolled_back_events:
  assumes "rollbackReload exec H env (rolled_back e st) = (ok, st3)" and "e \<noteq> ''VCLRolledBack''"
  shows "vcl_events (ls_emitted st3) = vcl_events (ls_emitted (emitEvent e st)) @ call_events (rolled_back_calls exec env st)"
proof -
  have "rollback_calls exec env (rolled_back e st) = rollback_calls exec env (st\<lparr>ls_rend := renderer_Rollback (ls_rend st)\<rparr>)"
    by (simp add: rollback_calls_def rolled_back_def emitEvent_def)
  moreover have "ls_emitted (rolled_back e st) = ls_emitted (emitEvent e st) @ [''VCLRolledBack'']"
    by (simp add: rolled_back_def emitEvent_def)
  ultimately show ?thesis
    using rollback_events [OF assms(1)] by (simp add: rolled_back_calls_def vcl_events_def event_counters_def)
qed

lemma failed_events:
  "vcl_events (ls_emitted (reload_render_failed exec H now env st)) = vcl_events (ls_emitted st) @ [''VCLRenderFailed''] @
     call_events (if ls_templateSwapped st then rolled_back_calls exec env st else [])"
proof -
  obtain ok st3 where rb: "rollbackReload exec H env (rolled_back ''VCLRenderFailed'' st) = (ok, st3)" by (metis surj_pair)
  obtain ok' st4 where rc: "recoverSwappedTemplate env st3 = (ok', st4)" by (metis surj_pair)
  have "ls_emitted st4 = ls_emitted st3" using rc by (auto simp: recoverSwappedTemplate_def split: prod.splits)
  then show ?thesis
    using rolled_back_events [OF rb] rb rc
    by (simp add: reload_render_failed_eq vcl_events_emit event_counters_def split: bool.split)
qed

lemma rejected_events:
  "vcl_events (ls_emitted (reload_rejected exec H now env rej st)) = vcl_events (ls_emitted st) @ [''VCLReloadFailed''] @
     call_events (if \<not> ls_templateSwapped st \<or> \<not> rej then [] else rolled_back_calls exec env st)"
proof -
  obtain ok st3 where rb: "rollbackReload exec H env (rolled_back ''VCLReloadFailed'' st) = (ok, st3)" by (metis surj_pair)
  then show ?thesis
    using rolled_back_events [OF rb]
    by (simp add: reload_rejected_eq vcl_events_emit event_counters_def split: bool.split)
qed

lemma render_events:
  "vcl_events (ls_emitted (reload_render exec H now env st)) = vcl_events (ls_emitted st) @ call_events (reload_render_calls exec H env st)"
proof -
  obtain v r where r: "Render exec (ls_inputs st) (ls_rend st) = (v, r)" by (metis surj_pair)
  show ?thesis
    using failed_events [of exec H now env "st\<lparr>ls_rend := r\<rparr>"] rejected_events [of exec H now env _ "st\<lparr>ls_rend := r\<rparr>"]
    by (cases v; cases "env_reload env")
      (simp_all add: reload_render_def reload_render_calls_def r Let_def vcl_events_emit event_counters_def)
qed

lemma template_events:
  "vcl_events (ls_emitted (reload_template env st)) = vcl_events (ls_emitted st) @
     call_events (if ls_templateChanged st \<and> \<not> fst (renderer_Reload (env_parsed env) (ls_rend st))
       then [(VCLTemplateParseErrorsTotal, [], Inc)] else [])"
  by (auto simp: reload_template_def vcl_events_emit event_counters_def split: prod.splits bool.splits)

lemma reload_render_calls_template:
  assumes "ls_inputs a = ls_inputs b" and "ls_rend a = ls_rend b" and "ls_templateSwapped a = ls_templateSwapped b"
    and "ls_lastVCLHash a = ls_lastVCLHash b" and "ls_templateChanged a = ls_templateChanged b"
  shows "reload_render_calls exec H env (reload_template env a) = reload_render_calls exec H env (reload_template env b)"
  by (rule reload_render_calls_cong) (use assms in \<open>auto simp: reload_template_def emitEvent_def split: prod.splits bool.splits\<close>)

lemma reload_calls_recovery [simp]: "reload_calls exec H env (st\<lparr>ls_vclRecovery := r\<rparr>) = reload_calls exec H env st"
  using reload_render_calls_template [of "st\<lparr>ls_vclRecovery := r\<rparr>" st exec H env] by (simp add: reload_calls_def)

lemma reload_events:
  "vcl_events (ls_emitted (handleReload exec H now env st)) = vcl_events (ls_emitted st) @ call_events (reload_calls exec H env st)"
proof -
  let ?st = "st\<lparr>ls_frontend := debounce_reset (ls_frontend st), ls_backend := debounce_reset (ls_backend st), ls_pendingReload := False\<rparr>"
  show ?thesis
    using render_events [of exec H now env "reload_template env ?st"] template_events [of env ?st]
      reload_render_calls_template [of ?st st exec H env]
    by (simp add: handleReload_def reload_calls_def Let_def)
qed

lemma cert_events: "vcl_events (ls_emitted (handleCertReload now order ans st)) = vcl_events (ls_emitted st)"
proof -
  have loop: "vcl_events (ls_emitted (snd (cert_loop ans names failed st))) = vcl_events (ls_emitted st)" for names failed st
    by (induction ans names failed st rule: cert_loop.induct) (auto simp: vcl_events_emit event_counters_def Let_def split: cert_answer.split)
  obtain r st2 where r: "cert_loop ans order False (st\<lparr>ls_tlsCert := debounce_reset (ls_tlsCert st)\<rparr>) = (r, st2)" by (metis surj_pair)
  then show ?thesis
    using loop [of order False "st\<lparr>ls_tlsCert := debounce_reset (ls_tlsCert st)\<rparr>"]
    by (auto simp: handleCertReload_def Let_def split: option.split bool.split)
qed

lemma fire_events [simp]: "call_events (fire_calls g d) = []" "call_events (latency_calls g d) = []"
  by (auto simp: fire_calls_def latency_calls_def event_counters_def)

lemma loop_events:
  assumes "case ev of NCSAEv r \<Rightarrow> ncsa_reason r | _ \<Rightarrow> True"
  shows "vcl_events (ls_emitted (loop_handle exec H cf now ev st)) = vcl_events (ls_emitted st) @ call_events (loop_calls exec H service ev st)"
proof (cases ev)
  case Template
  then show ?thesis by (simp add: on_template_def schedule_backend_def vcl_events_emit) (simp add: event_counters_def)
next
  case (VCLRecoveryTimer env)
  then show ?thesis using VCLRecoveryTimer by (simp add: on_vcl_recovery_def Let_def reload_events)
next
  case (NCSAEv reason)
  then show ?thesis using assms by (auto simp: vcl_events_emit event_counters_def ncsa_reason_def)
qed (simp_all add: on_frontend_def on_backend_def on_values_def on_secrets_def on_tls_def on_sweep_def on_tls_recovery_def
    schedule_backend_def backend_remove_def backend_apply_def Let_def reload_events cert_events, simp_all add: event_counters_def)

section \<open>The invariant\<close>

text \<open>The gauges agree with the inputs, and the counters with the events.\<close>

definition gauges_ok :: "string \<Rightarrow> ('t, 'h) loop_state \<Rightarrow> metric_series \<Rightarrow> bool" where
  "gauges_ok service st s \<longleftrightarrow>
     fmlookup s (Endpoints, [''frontend'', service]) = Some (int (length (elems (in_Frontends (ls_inputs st))))) \<and>
     (\<forall>n. fmlookup s (Endpoints, [''backend'', n]) =
        map_option (\<lambda>bg. int (length (elems (bg_Endpoints bg)))) (fmlookup (in_Backends (ls_inputs st)) n)) \<and>
     (\<forall>n. n |\<notin>| fmdom (in_Backends (ls_inputs st)) \<longrightarrow> fmlookup s (EndpointUpdatesTotal, [''backend'', n]) = None) \<and>
     fmlookup s (VarnishdUp, []) = Some 1"

definition counters_ok :: "('t, 'h) loop_state \<Rightarrow> metric_series \<Rightarrow> bool" where
  "counters_ok st s \<longleftrightarrow> list_all (\<lambda>((m, ls, _), e). series_value s m ls = int (count_list (ls_emitted st) e)) event_counters"

lemma count_map_filter:
  assumes "\<And>c. f c = Some e \<longleftrightarrow> c = c0"
  shows "count_list (List.map_filter f cs) e = count_list cs c0"
proof (induction cs)
  case (Cons c cs)
  then show ?case using assms [of c] by (cases "f c") (simp_all add: List.map_filter_def)
qed (simp add: List.map_filter_def)

lemma count_vcl_events: "e \<in> snd ` set event_counters \<Longrightarrow> count_list (vcl_events es) e = count_list es e"
  by (induction es) (auto simp: vcl_events_def)

lemma event_counter_unique: "(c, e) \<in> set event_counters \<Longrightarrow> map_of event_counters c' = Some e \<longleftrightarrow> c' = c"
  by (auto simp: event_counters_def split: if_splits)

lemma event_counter_inc: "((m, ls, op), e) \<in> set event_counters \<Longrightarrow> op = Inc"
  by (auto simp: event_counters_def)

lemma calls_only_inc:
  assumes "((m, ls, op), e) \<in> set event_counters"
  shows "only_inc m (loop_calls exec H service ev st)" "only_inc m (start_calls version gv service inp order)"
proof -
  have m: "m \<in> {VCLReloadsTotal, VCLRollbacksTotal, VCLRenderErrorsTotal, VCLTemplateParseErrorsTotal, VCLTemplateChangesTotal}"
    using assms by (auto simp: event_counters_def)
  have fire: "only_inc m (fire_calls g d)" "only_inc m (latency_calls g d)" for g d
    using m by (auto simp: fire_calls_def latency_calls_def only_inc_def)
  have rb: "only_inc m (rolled_back_calls exec env s)" for env s
    using m by (auto simp: rolled_back_calls_def rollback_calls_def only_inc_def split: option.split)
  have "only_inc m (reload_calls exec H env s)" for env s
    using m rb unfolding reload_calls_def reload_render_calls_def
    by (auto simp: only_inc_def split: option.split prod.split mgr_answer.split)
  then show "only_inc m (loop_calls exec H service ev st)"
    using fire m by (cases ev) (auto simp: only_inc_def)
  show "only_inc m (start_calls version gv service inp order)"
    using m by (auto simp: start_calls_def only_inc_def list_all_iff)
qed

lemma counters_step:
  assumes "counters_ok st s" and "metric_calls os (loop_calls exec H service ev st) s = Some s'"
    and "case ev of NCSAEv r \<Rightarrow> ncsa_reason r | _ \<Rightarrow> True"
  shows "counters_ok (loop_handle exec H cf now ev st) s'"
proof -
  have "series_value s' m ls = int (count_list (ls_emitted (loop_handle exec H cf now ev st)) e)"
    if c: "((m, ls, op), e) \<in> set event_counters" for m ls op e
  proof -
    have e: "e \<in> snd ` set event_counters" using c by force
    have "count_list (call_events (loop_calls exec H service ev st)) e = count_list (loop_calls exec H service ev st) (m, ls, Inc)"
      unfolding call_events_def using c event_counter_inc [OF c] by (intro count_map_filter event_counter_unique) simp
    moreover have "count_list (ls_emitted (loop_handle exec H cf now ev st)) e =
        count_list (ls_emitted st) e + count_list (call_events (loop_calls exec H service ev st)) e"
      using loop_events [OF assms(3), of exec H cf now st service] count_vcl_events [OF e]
      by (metis count_list_append)
    moreover have "series_value s m ls = int (count_list (ls_emitted st) e)"
      using assms(1) c unfolding counters_ok_def list_all_iff by fastforce
    ultimately show ?thesis using only_inc_value [OF calls_only_inc(1) [OF c] assms(2)] by simp
  qed
  then show ?thesis unfolding counters_ok_def list_all_iff by fastforce
qed

lemma gauges_keep:
  assumes "gauges_ok service st s" and "ls_inputs st' = ls_inputs st \<or>
      (in_Frontends (ls_inputs st') = in_Frontends (ls_inputs st) \<and> in_Backends (ls_inputs st') = in_Backends (ls_inputs st))"
    and "metric_calls os cs s = Some s'" and "untouched Endpoints cs" and "untouched EndpointUpdatesTotal cs" and "untouched VarnishdUp cs"
  shows "gauges_ok service st' s'"
  using assms(1,2) untouched_lookup [OF assms(4,3)] untouched_lookup [OF assms(5,3)] untouched_lookup [OF assms(6,3)]
  unfolding gauges_ok_def by auto

lemma reload_untouched:
  assumes "m \<in> {Endpoints, EndpointUpdatesTotal, VarnishdUp}"
  shows "untouched m (reload_calls exec H env s)" "untouched m (fire_calls g d)" "untouched m (latency_calls g d)"
proof -
  have rb: "untouched m (rolled_back_calls exec env s)" for s
    using assms by (auto simp: rolled_back_calls_def rollback_calls_def untouched_def split: option.split)
  then show "untouched m (reload_calls exec H env s)"
    using assms unfolding reload_calls_def reload_render_calls_def
    by (auto simp: untouched_def split: option.split prod.split mgr_answer.split)
  show "untouched m (fire_calls g d)" "untouched m (latency_calls g d)"
    using assms by (auto simp: fire_calls_def latency_calls_def untouched_def)
qed

lemma untouched_append [simp]: "untouched m (cs @ ds) \<longleftrightarrow> untouched m cs \<and> untouched m ds"
  by (simp add: untouched_def)

text \<open>Only frontends and backends touch the gauges.\<close>

fun on_endpoints :: "'t loop_event \<Rightarrow> bool" where
  "on_endpoints (FrontendEv eps) = True"
| "on_endpoints (BackendEv bc) = True"
| "on_endpoints _ = False"

lemma inputs_keep:
  "\<not> on_endpoints ev \<Longrightarrow> in_Frontends (ls_inputs (loop_handle exec H cf now ev st)) = in_Frontends (ls_inputs st) \<and>
     in_Backends (ls_inputs (loop_handle exec H cf now ev st)) = in_Backends (ls_inputs st)"
  by (cases ev; simp add: loop_frames on_template_def on_values_def on_secrets_def on_tls_def on_sweep_def on_vcl_recovery_def
      on_tls_recovery_def schedule_backend_def emitEvent_def Let_def)

lemma loop_untouched:
  assumes "\<not> on_endpoints ev" and "m \<in> {Endpoints, EndpointUpdatesTotal, VarnishdUp}"
  shows "untouched m (loop_calls exec H service ev st)"
  using assms(1) reload_untouched [OF assms(2)] assms(2) by (cases ev) (auto simp: untouched_def)

lemma gauges_step:
  assumes "gauges_ok service st s" and "metric_calls (metric_opts_of def buckets) (loop_calls exec H service ev st) s = Some s'"
  shows "gauges_ok service (loop_handle exec H cf now ev st) s'"
proof (cases "on_endpoints ev")
  case False
  show ?thesis
    by (rule gauges_keep [OF assms(1) _ assms(2)]) (use inputs_keep [OF False, of exec H cf now st] loop_untouched [OF False, of _ exec H service st] in auto)
next
  case True
  then consider eps where "ev = FrontendEv eps" | bc where "ev = BackendEv bc" by (cases ev) auto
  then show ?thesis
  proof cases
    case 1
    then show ?thesis
      using assms by (auto simp: gauges_ok_def on_frontend_def Let_def opts_def series_value_def)
  next
    case 2
    then show ?thesis
      using assms by (auto simp: gauges_ok_def on_backend_def Let_def schedule_backend_def backend_remove_def backend_apply_def opts_def
          series_value_def split: if_splits)
  qed
qed

lemma metered_ok:
  assumes "metered exec H cf (metric_opts_of def buckets) service st0 s0 now0 st os now"
    and "sorted_wrt (<) def" and "sorted_wrt (<) buckets" and "s0 = Some s" and "gauges_ok service st0 s" and "counters_ok st0 s"
  shows "\<exists>s'. os = Some s' \<and> gauges_ok service st s' \<and> counters_ok st s'"
  using assms(1)
proof (induction rule: metered.induct)
  case start
  then show ?case using assms(4-6) by blast
next
  case (iterate st os now now' ev)
  then obtain s1 where s1: "os = Some s1" "gauges_ok service st s1" "counters_ok st s1" by blast
  obtain s2 where s2: "metric_calls (metric_opts_of def buckets) (loop_calls exec H service ev st) s1 = Some s2"
    using calls_ok_calls [OF loop_calls_ok [OF assms(2,3)]] by blast
  then show ?case
    using s1 gauges_step [OF s1(2) s2] counters_step [OF s1(3) s2 iterate.hyps(5)] by auto
qed

lemma backend_sets:
  "metric_calls os (map (\<lambda>n. (Endpoints, [''backend'', n], SetTo (g n))) ns) s = Some s' \<Longrightarrow>
     (\<forall>n. fmlookup s' (Endpoints, [''backend'', n]) = (if n \<in> set ns then Some (g n) else fmlookup s (Endpoints, [''backend'', n]))) \<and>
     (\<forall>m ls. (\<forall>n. (m, ls) \<noteq> (Endpoints, [''backend'', n])) \<longrightarrow> fmlookup s' (m, ls) = fmlookup s (m, ls))"
proof (induction ns arbitrary: s)
  case (Cons n ns)
  let ?s1 = "fmupd (Endpoints, [''backend'', n]) (g n) s"
  have "metric_calls os (map (\<lambda>n. (Endpoints, [''backend'', n], SetTo (g n))) ns) ?s1 = Some s'"
    using Cons.prems by (auto split: if_splits)
  from Cons.IH [OF this] show ?case by auto
qed simp

lemma start_series:
  assumes "sorted_wrt (<) def" and "sorted_wrt (<) buckets" and "NewMetrics def buckets reg = Some (reg', s)"
    and "set order = fmdom' (in_Backends (ls_inputs st))" and "ls_emitted st = []"
  shows "\<exists>s'. metric_calls (metric_opts_of def buckets) (start_calls version gv service (ls_inputs st) order) s = Some s' \<and>
    gauges_ok service st s' \<and> counters_ok st s'"
proof -
  let ?os = "metric_opts_of def buckets"
  obtain s' where s': "metric_calls ?os (start_calls version gv service (ls_inputs st) order) s = Some s'"
    using calls_ok_calls [OF start_calls_ok [OF assms(1)]] by blast
  have s0: "fmlookup s (m, ls) = (if mo_labels (?os m) = [] \<and> ls = [] then Some 0 else None)" for m ls
    using assms(3) series_start [of def buckets m ls] by (auto simp: NewMetrics_def split: option.splits)
  define g where "g n = (case fmlookup (in_Backends (ls_inputs st)) n of None \<Rightarrow> 0 | Some bg \<Rightarrow> int (length (elems (bg_Endpoints bg))))" for n
  define s1 where "s1 = fmupd (Endpoints, [''frontend'', service]) (int (length (elems (in_Frontends (ls_inputs st))))) (fmupd (BuildInfo, [version, gv]) 1 s)"
  obtain s2 where s2: "metric_calls ?os (map (\<lambda>n. (Endpoints, [''backend'', n], SetTo (g n))) order) s1 = Some s2"
      "metric_calls ?os [(VCLRenderDurationSeconds, [], Observe), (VarnishdUp, [], SetTo 1)] s2 = Some s'"
    using s' unfolding start_calls_def metric_calls_append g_def [symmetric]
    by (auto simp: opts_def s1_def split: option.splits)
  note b = backend_sets [OF s2(1)]
  have last: "fmlookup s' (VarnishdUp, []) = Some 1" "m \<noteq> VarnishdUp \<Longrightarrow> m \<noteq> VCLRenderDurationSeconds \<Longrightarrow> fmlookup s' (m, ls) = fmlookup s2 (m, ls)" for m ls
    using s2(2) by (auto simp: opts_def split: if_splits)
  have "gauges_ok service st s'"
    unfolding gauges_ok_def using last b assms(4)
    by (auto simp: s1_def s0 g_def opts_def fmdom'_notI fmlookup_dom'_iff split: option.split)
  moreover have "series_value s' m ls = 0" if c: "((m, ls, op), e) \<in> set event_counters" for m ls op e
  proof -
    have "count_list (start_calls version gv service (ls_inputs st) order) (m, ls, Inc) = 0"
      by (auto simp: start_calls_def count_list_0_iff)
    then show ?thesis using only_inc_value [OF calls_only_inc(2) [OF c] s', of ls] s0 [of m ls] by (simp add: series_value_def)
  qed
  then have "counters_ok st s'" unfolding counters_ok_def list_all_iff using assms(5) by fastforce
  ultimately show ?thesis using s' by blast
qed

text \<open>
  C15: The metrics tell the truth: from a start that succeeded, in every state the event loop reaches, no call of
  the start or of the loop has panicked (label values and histogram buckets fit), the endpoint gauges are the
  numbers of endpoints of exactly the backends there are and of the frontends, the series of a removed backend are
  gone, varnishd is reported as up, and the reload, rollback, render and template counters are the numbers of the
  events of that kind the pod has got since the loop started.
\<close>

theorem metrics_agree:
  assumes "startup exec H en c ([], []) = (Go (cf, st0), s')"
    and "sorted_wrt (<) def" and "sorted_wrt (<) (cf_DebounceLatencyBuckets c)"
    and "NewMetrics def (cf_DebounceLatencyBuckets c) reg = Some (reg', new)"
    and "set order = fmdom' (in_Backends (ls_inputs st0))"
    and "metered exec H cf (metric_opts_of def (cf_DebounceLatencyBuckets c)) (cf_ServiceName c) st0
      (metric_calls (metric_opts_of def (cf_DebounceLatencyBuckets c))
        (start_calls version goversion (cf_ServiceName c) (ls_inputs st0) order) new) now0 st os now"
  shows "\<exists>s. os = Some s \<and>
    fmlookup s (Endpoints, [''frontend'', cf_ServiceName c]) = Some (int (length (elems (in_Frontends (ls_inputs st))))) \<and>
    fmlookup s (Endpoints, [''backend'', n]) =
      map_option (\<lambda>bg. int (length (elems (bg_Endpoints bg)))) (fmlookup (in_Backends (ls_inputs st)) n) \<and>
    (if fmlookup (in_Backends (ls_inputs st)) n = None then fmlookup s (EndpointUpdatesTotal, [''backend'', n]) = None else True) \<and>
    fmlookup s (VarnishdUp, []) = Some 1 \<and>
    list_all (\<lambda>((m, ls, _), reason). series_value s m ls = int (count_list (ls_emitted st) reason)) event_counters"
proof -
  obtain inp tls r vcl where st0: "st0 = loop_init H inp tls r vcl (cf_BroadcastAddr c \<noteq> [])"
    using startup_enters_loop [OF assms(1)] by metis
  then have "ls_emitted st0 = []" by (simp add: loop_init_def Let_def)
  then obtain s where s: "metric_calls (metric_opts_of def (cf_DebounceLatencyBuckets c))
      (start_calls version goversion (cf_ServiceName c) (ls_inputs st0) order) new = Some s"
      "gauges_ok (cf_ServiceName c) st0 s" "counters_ok st0 s"
    using start_series [OF assms(2-5)] by blast
  from metered_ok [OF assms(6,2,3) s] show ?thesis
    unfolding gauges_ok_def counters_ok_def by (auto simp: fmdom_notI)
qed

text \<open>The template file changes.\<close>

theorem metrics_register_witness:
  "\<exists>reg' s. NewMetrics [1] [] [''go_goroutines''] = Some (reg', s) \<and> length reg' = 29 \<and> fmlookup s (VarnishdUp, []) = Some 0"
  using metrics_register [of "[''go_goroutines'']" "[1]" "[]" VarnishdUp] by (auto simp: registered_metrics_def opts_def)

theorem metrics_agree_witness:
  "\<exists>s. fmlookup s (Endpoints, [''backend'', ''app'']) = Some 0 \<and> series_value s VCLTemplateChangesTotal [] = 1"
proof -
  obtain tr ds where s: "startup echo_template id sample_start sample_flags ([], []) =
     (Go (loop_config_of sample_flags, sample_loop), (tr, ds))" by (rule sample_startup)
  let ?b = "cf_DebounceLatencyBuckets sample_flags"
  have b: "sorted_wrt (<) ?b" by (simp add: minimal_accepted_def minimal_checked_def minimal_config_def default_defs default_buckets_def)
  obtain reg' new where new: "NewMetrics [1] ?b [] = Some (reg', new)"
    using MustRegister_Some metric_names_distinct [of "[1]" ?b] by (auto simp: NewMetrics_def comp_def)
  have order: "set [''app''] = fmdom' (in_Backends (ls_inputs sample_loop))" by (simp add: loop_init_def Let_def first_inputs_def)
  have "\<not> ls_pendingShutdown sample_loop" by (simp add: loop_init_def Let_def)
  note run = metered.iterate [OF metered.start this, where ev = Template and now0 = 0 and now' = 1, simplified]
  from metrics_agree [OF s _ b new order run, where n = "''app''"]
  show ?thesis
    by (auto simp: event_counters_def on_template_def schedule_backend_def emitEvent_def loop_init_def Let_def first_inputs_def)
qed

end
