(* ===== verification/StatusLoop.thy ===== *)
theory StatusLoop
  imports Metrics LoopExit Status
begin

text \<open>
  What \<open>/status\<close>, \<open>/healthz\<close> and \<open>/readyz\<close> tell while the controller runs: the setters of the status store that
  the start and the event loop of \<open>main.go\<close> call, next to the states of the loop, and what the store says then.
\<close>

section \<open>The store behind the loop\<close>

text \<open>The calls of \<open>run\<close>, in its order; \<open>loaded\<close> are the certificates installed before the loop.\<close>

definition start_status :: "(string \<Rightarrow> string option) \<Rightarrow> (string \<Rightarrow> string + string \<times> string list \<times> int \<times> string) \<Rightarrow>
    int \<Rightarrow> int \<Rightarrow> bool \<Rightarrow> config \<Rightarrow> inputs \<Rightarrow> (string \<times> tls_cert_data) list \<Rightarrow> string list \<Rightarrow> statusStore \<Rightarrow> statusStore" where
  "start_status decode x509 now major supported c inp tls loaded =
     setVarnishdUp True \<circ>
     fold (\<lambda>name. recordTLSCertInfo decode x509 now name (tls_Cert (cert_of tls name))) loaded \<circ>
     setTLSConfig (cf_TLSCerts c \<noteq> []) supported (length (cf_TLSCerts c)) \<circ>
     setSourceCounts (fcard (fmdom (in_Values inp))) (fcard (fmdom (in_Secrets inp))) \<circ>
     setEndpointCounts (length (elems (in_Frontends inp))) (backendCountsMap (in_Backends inp)) \<circ>
     setServiceInfo (cf_ServiceName c) (cf_ServiceNamespace c) (cf_Drain c) (cf_BroadcastAddr c \<noteq> []) \<circ>
     setVarnishMajorVersion major"

text \<open>
  A reload: the counts are set in the two places that count a success, \<open>handleReload\<close> and \<open>rollbackReload\<close>.
\<close>

definition reload_status :: "('t \<Rightarrow> template_data \<Rightarrow> string option) \<Rightarrow> (string \<Rightarrow> 'h) \<Rightarrow> int \<Rightarrow> 't reload_env \<Rightarrow>
    ('t, 'h) loop_state \<Rightarrow> statusStore \<Rightarrow> statusStore" where
  "reload_status exec H now env st s =
     (if (VCLReloadsTotal, [''success''], Inc) \<in> set (reload_calls exec H env st)
      then setEndpointCounts (length (elems (in_Frontends (ls_inputs st)))) (backendCountsMap (in_Backends (ls_inputs st)))
        (recordReload now s)
      else s)"

text \<open>The certificates, in the order of \<open>cert_loop\<close>; one whose Secret is empty is not recorded.\<close>

fun cert_status :: "(string \<Rightarrow> string option) \<Rightarrow> (string \<Rightarrow> string + string \<times> string list \<times> int \<times> string) \<Rightarrow> int \<Rightarrow>
    (string \<Rightarrow> cert_answer) \<Rightarrow> ('t, 'h) loop_state \<Rightarrow> string list \<Rightarrow> statusStore \<Rightarrow> statusStore" where
  "cert_status decode x509 now ans st [] s = s"
| "cert_status decode x509 now ans st (name # names) s =
     (case ans name of
        CertSignalled \<Rightarrow> s
      | CertFailed \<Rightarrow> cert_status decode x509 now ans st names s
      | CertLoaded \<Rightarrow> cert_status decode x509 now ans st names
          (if tls_Empty (tls_latest st name) then s
           else recordTLSCertInfo decode x509 now name (tls_Cert (tls_latest st name)) s))"

definition certs_status :: "(string \<Rightarrow> string option) \<Rightarrow> (string \<Rightarrow> string + string \<times> string list \<times> int \<times> string) \<Rightarrow> int \<Rightarrow>
    string list \<Rightarrow> (string \<Rightarrow> cert_answer) \<Rightarrow> ('t, 'h) loop_state \<Rightarrow> statusStore \<Rightarrow> statusStore" where
  "certs_status decode x509 now order ans st s =
     (if ls_pendingCertNames st = {||} then s else cert_status decode x509 now ans st order s)"

fun loop_status :: "('t \<Rightarrow> template_data \<Rightarrow> string option) \<Rightarrow> (string \<Rightarrow> 'h) \<Rightarrow> (string \<Rightarrow> string option) \<Rightarrow>
    (string \<Rightarrow> string + string \<times> string list \<times> int \<times> string) \<Rightarrow> int \<Rightarrow> 't loop_event \<Rightarrow> ('t, 'h) loop_state \<Rightarrow> statusStore \<Rightarrow> statusStore" where
  "loop_status exec H decode x509 now (FrontendTimer env) st s = reload_status exec H now env st s"
| "loop_status exec H decode x509 now (BackendTimer env) st s = reload_status exec H now env st s"
| "loop_status exec H decode x509 now (VCLRecoveryTimer env) st s = reload_status exec H now env st s"
| "loop_status exec H decode x509 now (TLSTimer order ans) st s = certs_status decode x509 now order ans st s"
| "loop_status exec H decode x509 now (TLSRecoveryTimer order ans) st s = certs_status decode x509 now order ans st s"
| "loop_status exec H decode x509 now _ st s = s"

text \<open>The exit of varnishd is the one end of the loop that the store hears of.\<close>

definition end_status :: "loop_end \<Rightarrow> statusStore \<Rightarrow> statusStore" where
  "end_status e s = (case e of EndVarnishd _ \<Rightarrow> setVarnishdUp False s | _ \<Rightarrow> s)"

inductive reported :: "('t \<Rightarrow> template_data \<Rightarrow> string option) \<Rightarrow> (string \<Rightarrow> 'h) \<Rightarrow> loop_config \<Rightarrow> (string \<Rightarrow> string option) \<Rightarrow>
    (string \<Rightarrow> string + string \<times> string list \<times> int \<times> string) \<Rightarrow>
    ('t, 'h) loop_state \<Rightarrow> statusStore \<Rightarrow> int \<Rightarrow> ('t, 'h) loop_state \<Rightarrow> statusStore \<Rightarrow> int \<Rightarrow> bool"
  for exec H cf decode x509 st0 s0 now0 where
  start: "reported exec H cf decode x509 st0 s0 now0 st0 s0 now0"
| iterate: "reported exec H cf decode x509 st0 s0 now0 st s now \<Longrightarrow> \<not> ls_pendingShutdown st \<Longrightarrow> now \<le> now' \<Longrightarrow>
    loop_enabled cf now' ev st \<Longrightarrow> (case ev of NCSAEv r \<Rightarrow> ncsa_reason r | _ \<Rightarrow> True) \<Longrightarrow>
    reported exec H cf decode x509 st0 s0 now0 (loop_handle exec H cf now' ev st) (loop_status exec H decode x509 now' ev st s) now'"

section \<open>A new VCL and its event\<close>

definition reloads :: "('t, 'h) loop_state \<Rightarrow> nat" where
  "reloads st = count_list (ls_emitted st) ''VCLReloaded''"

text \<open>The VCL that runs changes only with the event, and then it is the rendering of the inputs.\<close>

definition applied :: "('t \<Rightarrow> template_data \<Rightarrow> string option) \<Rightarrow> ('t, 'h) loop_state \<Rightarrow> ('t, 'h) loop_state \<Rightarrow> bool" where
  "applied exec st st' \<longleftrightarrow> ls_inputs st' = ls_inputs st \<and> reloads st \<le> reloads st' \<and>
     (if reloads st' = reloads st then ls_active_vcl st' = ls_active_vcl st
      else rendered exec (ls_inputs st') (ls_rend st') = Some (ls_active_vcl st'))"

lemma reloads_prims [simp]:
  "reloads (emitEvent e st) = reloads st + (if e = ''VCLReloaded'' then 1 else 0)"
  "reloads (clearPending st) = reloads st" "reloads (markRetry now st) = reloads st"
  by (simp_all add: reloads_def emitEvent_def clearPending_def markRetry_def)

lemma applied_prims [simp]:
  "applied exec st (clearPending st') = applied exec st st'" "applied exec st (markRetry now st') = applied exec st st'"
  "e \<noteq> ''VCLReloaded'' \<Longrightarrow> applied exec st (emitEvent e st) = True"
  by (simp_all add: applied_def, simp_all add: clearPending_def markRetry_def emitEvent_def)

lemma applied_from: "applied exec a st' \<Longrightarrow> ls_inputs a = ls_inputs st \<Longrightarrow> reloads a = reloads st \<Longrightarrow> ls_active_vcl a = ls_active_vcl st \<Longrightarrow>
    applied exec st st'"
  by (auto simp: applied_def)

lemma rollback_applied:
  assumes "rollbackReload exec H env st = (ok, st')"
  shows "applied exec st st'" and "\<not> ok \<Longrightarrow> reloads st' = reloads st"
proof -
  obtain v r where R: "Render exec (ls_inputs st) (ls_rend st) = (v, r)" by (metis surj_pair)
  show "applied exec st st'" "\<not> ok \<Longrightarrow> reloads st' = reloads st"
    using assms R Render_fst [OF R]
    by (auto simp: rollbackReload_def applied_def split: option.splits if_splits) (auto simp: emitEvent_def reloads_def)
qed

lemma rolled_back_applied:
  assumes "rollbackReload exec H env (rolled_back e st) = (ok, st')" and "e \<noteq> ''VCLReloaded''"
  shows "applied exec st st'" and "\<not> ok \<Longrightarrow> reloads st' = reloads st"
proof -
  have r: "ls_inputs (rolled_back e st) = ls_inputs st" "reloads (rolled_back e st) = reloads st"
      "ls_active_vcl (rolled_back e st) = ls_active_vcl st"
    using assms(2) by (simp_all add: rolled_back_def reloads_def emitEvent_def)
  show "applied exec st st'" by (rule applied_from [OF rollback_applied(1) [OF assms(1)] r])
  show "\<not> ok \<Longrightarrow> reloads st' = reloads st" using rollback_applied(2) [OF assms(1)] r by simp
qed

lemma failed_applied: "applied exec st (reload_render_failed exec H now env st)"
proof -
  obtain ok st3 where 3: "rollbackReload exec H env (rolled_back ''VCLRenderFailed'' st) = (ok, st3)" by (metis surj_pair)
  obtain ok' st4 where 4: "recoverSwappedTemplate env st3 = (ok', st4)" by (metis surj_pair)
  have "applied exec st (st4\<lparr>ls_templateSwapped := b\<rparr>)" if "\<not> ok" for b
    using 4 rolled_back_applied [OF 3] that by (auto simp: recoverSwappedTemplate_def applied_def reloads_def split: prod.splits)
  then show ?thesis
    using 3 4 rolled_back_applied(1) [OF 3] by (simp add: reload_render_failed_eq split: bool.split)
qed

lemma rejected_applied: "applied exec st (reload_rejected exec H now env rej st)"
proof -
  obtain ok st3 where 3: "rollbackReload exec H env (rolled_back ''VCLReloadFailed'' st) = (ok, st3)" by (metis surj_pair)
  then show ?thesis using rolled_back_applied(1) [OF 3] by (simp add: reload_rejected_eq split: bool.split)
qed

lemma render_applied: "applied exec st (reload_render exec H now env st)"
proof -
  obtain v r where R: "Render exec (ls_inputs st) (ls_rend st) = (v, r)" by (metis surj_pair)
  have r: "applied exec st st'" if "applied exec (st\<lparr>ls_rend := r\<rparr>) st'" for st'
    by (rule applied_from [OF that]) (simp_all add: reloads_def)
  show ?thesis
  proof (cases v)
    case None
    then show ?thesis using R r [OF failed_applied] by (simp add: reload_render_def)
  next
    case (Some vcl)
    then show ?thesis using R Render_fst [OF R] r [OF rejected_applied]
      by (cases "env_reload env") (auto simp: reload_render_def Let_def, auto simp: applied_def emitEvent_def reloads_def)
  qed
qed

lemma reload_applied: "applied exec st (handleReload exec H now env st)"
proof -
  let ?st = "reload_template env (st\<lparr>ls_frontend := debounce_reset (ls_frontend st), ls_backend := debounce_reset (ls_backend st), ls_pendingReload := False\<rparr>)"
  have "applied exec st (reload_render exec H now env ?st)"
    by (rule applied_from [OF render_applied]) (auto simp: reload_template_def reloads_def emitEvent_def split: prod.splits bool.splits)
  then show ?thesis by (auto simp: handleReload_def Let_def applied_def reloads_def)
qed

lemma reload_counted:
  "reloads (handleReload exec H now env st) =
     reloads st + (if (VCLReloadsTotal, [''success''], Inc) \<in> set (reload_calls exec H env st) then 1 else 0)"
proof -
  let ?c = "(VCLReloadsTotal, [''success''], Inc)" and ?cs = "reload_calls exec H env st"
  have m: "(?c, ''VCLReloaded'') \<in> set event_counters" by (simp add: event_counters_def)
  then have e: "''VCLReloaded'' \<in> snd ` set event_counters" by force
  have "reloads (handleReload exec H now env st) = reloads st + count_list (call_events ?cs) ''VCLReloaded''"
    using count_vcl_events [OF e] arg_cong [OF reload_events, of "\<lambda>es. count_list es ''VCLReloaded''" exec H now env st]
    by (simp add: reloads_def)
  moreover have "count_list (call_events ?cs) ''VCLReloaded'' = count_list ?cs ?c"
    unfolding call_events_def using m by (intro count_map_filter event_counter_unique) simp
  moreover have rb: "count_list (rolled_back_calls exec env s) ?c \<le> 1" for s
    by (simp add: rolled_back_calls_def rollback_calls_def split: option.split)
  have "count_list ?cs ?c \<le> 1"
    using rb by (auto simp: reload_calls_def reload_render_calls_def split: option.split prod.split mgr_answer.split)
  ultimately show ?thesis
    using count_list_0_iff [of ?cs ?c] by (auto simp: le_Suc_eq)
qed

lemma not_reload_applied:
  assumes "case ev of NCSAEv r \<Rightarrow> ncsa_reason r | _ \<Rightarrow> True"
    and "case ev of FrontendTimer _ \<Rightarrow> False | BackendTimer _ \<Rightarrow> False | VCLRecoveryTimer _ \<Rightarrow> False | _ \<Rightarrow> True"
  shows "reloads (loop_handle exec H cf now ev st) = reloads st \<and> ls_active_vcl (loop_handle exec H cf now ev st) = ls_active_vcl st"
proof -
  have e: "''VCLReloaded'' \<in> snd ` set event_counters" by (simp add: event_counters_def)
  have "count_list (call_events (loop_calls exec H service ev st)) ''VCLReloaded'' = 0" for service
    using assms(2) by (cases ev) (auto simp: event_counters_def)
  then have "reloads (loop_handle exec H cf now ev st) = reloads st"
    using count_vcl_events [OF e] arg_cong [OF loop_events [OF assms(1)], of "\<lambda>es. count_list es ''VCLReloaded''" exec H cf now st]
    by (simp add: reloads_def)
  moreover have loop: "ls_active_vcl (snd (cert_loop ans names failed st)) = ls_active_vcl st" for ans names failed and st :: "('a, 'b) loop_state"
    by (induction ans names failed st rule: cert_loop.induct) (auto simp: emitEvent_def Let_def split: cert_answer.split)
  have "ls_active_vcl (handleCertReload now order ans st) = ls_active_vcl st" for order ans and st :: "('a, 'b) loop_state"
  proof -
    obtain r st2 where "cert_loop ans order False (st\<lparr>ls_tlsCert := debounce_reset (ls_tlsCert st)\<rparr>) = (r, st2)" by (metis surj_pair)
    then show ?thesis using loop [of ans order False "st\<lparr>ls_tlsCert := debounce_reset (ls_tlsCert st)\<rparr>"]
      by (auto simp: handleCertReload_def Let_def split: option.split bool.split)
  qed
  then have "ls_active_vcl (loop_handle exec H cf now ev st) = ls_active_vcl st"
    using assms(2)
    by (cases ev) (simp_all add: on_template_def on_frontend_def on_backend_def on_values_def on_secrets_def on_tls_def on_sweep_def
        on_tls_recovery_def schedule_backend_def backend_remove_def backend_apply_def Let_def emitEvent_def)
  ultimately show ?thesis ..
qed

section \<open>What the endpoints answer\<close>

definition counts_of :: "inputs \<Rightarrow> nat \<times> (string, nat) fmap" where
  "counts_of inp = (length (elems (in_Frontends inp)), backendCountsMap (in_Backends inp))"

definition status_ok :: "('t \<Rightarrow> template_data \<Rightarrow> string option) \<Rightarrow> (string \<Rightarrow> 'h) \<Rightarrow> loop_config \<Rightarrow> ('t, 'h) loop_state \<Rightarrow> int \<Rightarrow>
    ('t, 'h) loop_state \<Rightarrow> statusStore \<Rightarrow> bool" where
  "status_ok exec H cf st0 now0 st s \<longleftrightarrow> ss_varnishdUp s \<and> ss_reloadCount s = reloads st \<and>
     (if reloads st = 0 then ss_lastReloadAt s = 0 else now0 \<le> ss_lastReloadAt s) \<and>
     (\<exists>st1 now1. loop_reach exec H cf st0 now0 st1 now1 \<and> ls_active_vcl st1 = ls_active_vcl st \<and>
        rendered exec (ls_inputs st1) (ls_rend st1) = Some (ls_active_vcl st) \<and>
        (ss_frontendCount s, ss_backendCounts s) = counts_of (ls_inputs st1))"

text \<open>The fields of the store that matter here, behind a record of a certificate.\<close>

lemma recordTLSCertInfo_simps [simp]:
  "ss_varnishdUp (recordTLSCertInfo decode x509 now name pem s) = ss_varnishdUp s"
  "ss_reloadCount (recordTLSCertInfo decode x509 now name pem s) = ss_reloadCount s"
  "ss_lastReloadAt (recordTLSCertInfo decode x509 now name pem s) = ss_lastReloadAt s"
  "ss_frontendCount (recordTLSCertInfo decode x509 now name pem s) = ss_frontendCount s"
  "ss_backendCounts (recordTLSCertInfo decode x509 now name pem s) = ss_backendCounts s"
  by (simp_all add: recordTLSCertInfo_def recordTLSCert_def split: sum.split)

lemma status_ok_cong:
  "status_ok exec H cf st0 now0 st s \<Longrightarrow> ss_varnishdUp s' = ss_varnishdUp s \<Longrightarrow> ss_reloadCount s' = ss_reloadCount s \<Longrightarrow>
     ss_lastReloadAt s' = ss_lastReloadAt s \<Longrightarrow> ss_frontendCount s' = ss_frontendCount s \<Longrightarrow> ss_backendCounts s' = ss_backendCounts s \<Longrightarrow>
     reloads st' = reloads st \<Longrightarrow> ls_active_vcl st' = ls_active_vcl st \<Longrightarrow> status_ok exec H cf st0 now0 st' s'"
  by (simp add: status_ok_def)

lemma certs_status_simps [simp]:
  "ss_varnishdUp (certs_status decode x509 now order ans st s) = ss_varnishdUp s"
  "ss_reloadCount (certs_status decode x509 now order ans st s) = ss_reloadCount s"
  "ss_lastReloadAt (certs_status decode x509 now order ans st s) = ss_lastReloadAt s"
  "ss_frontendCount (certs_status decode x509 now order ans st s) = ss_frontendCount s"
  "ss_backendCounts (certs_status decode x509 now order ans st s) = ss_backendCounts s"
proof -
  have "ss_varnishdUp (cert_status decode x509 now ans st order s) = ss_varnishdUp s \<and>
      ss_reloadCount (cert_status decode x509 now ans st order s) = ss_reloadCount s \<and>
      ss_lastReloadAt (cert_status decode x509 now ans st order s) = ss_lastReloadAt s \<and>
      ss_frontendCount (cert_status decode x509 now ans st order s) = ss_frontendCount s \<and>
      ss_backendCounts (cert_status decode x509 now ans st order s) = ss_backendCounts s"
    by (induction decode x509 now ans st order s rule: cert_status.induct) (auto split: cert_answer.split)
  then show "ss_varnishdUp (certs_status decode x509 now order ans st s) = ss_varnishdUp s"
    "ss_reloadCount (certs_status decode x509 now order ans st s) = ss_reloadCount s"
    "ss_lastReloadAt (certs_status decode x509 now order ans st s) = ss_lastReloadAt s"
    "ss_frontendCount (certs_status decode x509 now order ans st s) = ss_frontendCount s"
    "ss_backendCounts (certs_status decode x509 now order ans st s) = ss_backendCounts s"
    by (simp_all add: certs_status_def)
qed

lemma reload_status_ok:
  assumes "status_ok exec H cf st0 now0 st s" and "loop_reach exec H cf st0 now0 st' now'" and "now0 \<le> now'"
    and "ls_active_vcl st' = ls_active_vcl (handleReload exec H now' env st)" and "reloads st' = reloads (handleReload exec H now' env st)"
    and "ls_inputs st' = ls_inputs st" and "ls_rend st' = ls_rend (handleReload exec H now' env st)"
  shows "status_ok exec H cf st0 now0 st' (reload_status exec H now' env st s)"
proof (cases "(VCLReloadsTotal, [''success''], Inc) \<in> set (reload_calls exec H env st)")
  case True
  then have "reloads st' = reloads st + 1" "rendered exec (ls_inputs st') (ls_rend st') = Some (ls_active_vcl st')"
    using reload_counted [of exec H now' env st] reload_applied [of exec st H now' env] assms(4-7) by (auto simp: applied_def)
  then show ?thesis
    using assms(1-3,6) True by (auto simp: status_ok_def reload_status_def setEndpointCounts_def recordReload_def counts_of_def)
next
  case False
  then show ?thesis
    using assms(4-7) reload_counted [of exec H now' env st] reload_applied [of exec st H now' env]
    by (intro status_ok_cong [OF assms(1)]) (simp_all add: reload_status_def applied_def)
qed

lemma reported_ok:
  assumes "reported exec H cf decode x509 st0 s0 now0 st s now" and "status_ok exec H cf st0 now0 st0 s0"
  shows "loop_reach exec H cf st0 now0 st now \<and> now0 \<le> now \<and> status_ok exec H cf st0 now0 st s"
  using assms(1)
proof (induction rule: reported.induct)
  case start
  then show ?case using assms(2) by (simp add: loop_reach.start)
next
  case (iterate st s now now' ev)
  then have reach: "loop_reach exec H cf st0 now0 (loop_handle exec H cf now' ev st) now'" by (blast intro: loop_reach.iterate)
  have s: "status_ok exec H cf st0 now0 st s" and now': "now0 \<le> now'" using iterate by auto
  have "status_ok exec H cf st0 now0 (loop_handle exec H cf now' ev st) (loop_status exec H decode x509 now' ev st s)"
  proof (cases "case ev of FrontendTimer _ \<Rightarrow> False | BackendTimer _ \<Rightarrow> False | VCLRecoveryTimer _ \<Rightarrow> False | _ \<Rightarrow> True")
    case True
    then show ?thesis
      using not_reload_applied [OF iterate.hyps(5) True, of exec H cf now' st]
      by (cases ev) (auto intro!: status_ok_cong [OF s])
  next
    case False
    then consider env where "ev = FrontendTimer env \<or> ev = BackendTimer env" | env where "ev = VCLRecoveryTimer env"
      by (cases ev) auto
    then show ?thesis
    proof cases
      case 1
      then show ?thesis
        using reach reload_applied [of exec st H now' env]
        by (auto intro!: reload_status_ok [OF s _ now'] simp: applied_def)
    next
      case (2 env)
      let ?st = "st\<lparr>ls_vclRecovery := snd (recovery_fired (ls_vclRecovery st))\<rparr>"
      have same: "reload_status exec H now' env ?st s = reload_status exec H now' env st s"
        by (simp add: reload_status_def reload_calls_recovery)
      have "status_ok exec H cf st0 now0 ?st s" by (rule status_ok_cong [OF s]) (simp_all add: reloads_def)
      then show ?thesis
        using reach 2 reload_applied [of exec ?st H now' env] unfolding 2 loop_status.simps same [symmetric]
        by (intro reload_status_ok [OF _ _ now']) (auto simp: on_vcl_recovery_def Let_def reloads_def applied_def)
    qed
  qed
  then show ?case using reach now' by blast
qed

lemma start_status_ok:
  assumes "startup exec H en c ([], []) = (Go (cf, st0), s')"
  shows "status_ok exec H cf st0 now0 st0
    (start_status decode x509 t major supported c (ls_inputs st0) tls loaded (new_status version goversion started))"
proof -
  obtain inp tls' r vcl where st0: "st0 = loop_init H inp tls' r vcl (cf_BroadcastAddr c \<noteq> [])" "rendered exec inp r = Some vcl"
    using startup_enters_loop [OF assms] by metis
  have certs: "ss_reloadCount (fold (\<lambda>name. recordTLSCertInfo decode x509 t name (tls_Cert (cert_of tls name))) names s) = ss_reloadCount s \<and>
      ss_lastReloadAt (fold (\<lambda>name. recordTLSCertInfo decode x509 t name (tls_Cert (cert_of tls name))) names s) = ss_lastReloadAt s \<and>
      ss_frontendCount (fold (\<lambda>name. recordTLSCertInfo decode x509 t name (tls_Cert (cert_of tls name))) names s) = ss_frontendCount s \<and>
      ss_backendCounts (fold (\<lambda>name. recordTLSCertInfo decode x509 t name (tls_Cert (cert_of tls name))) names s) = ss_backendCounts s" for names s
    by (induction names arbitrary: s) simp_all
  have "reloads st0 = 0" by (simp add: st0(1) reloads_def loop_init_def Let_def)
  moreover have "rendered exec (ls_inputs st0) (ls_rend st0) = Some (ls_active_vcl st0)"
    using st0(2) by (simp add: st0(1) loop_init_def Let_def)
  ultimately show ?thesis
    unfolding status_ok_def start_status_def
    by (intro conjI exI [of _ st0] exI [of _ now0] loop_reach.start)
      (simp_all add: certs counts_of_def setVarnishdUp_def setTLSConfig_def setSourceCounts_def setEndpointCounts_def setServiceInfo_def
        setVarnishMajorVersion_def new_status_def)
qed

text \<open>
  C18: What the controller tells about itself is true: from a start that succeeded, in every state the loop
  reaches, \<open>/healthz\<close> answers that varnishd runs, and no longer once the loop ends because it exited;
  \<open>/status\<close> counts exactly the reloads that were announced as events, shows a time of the last reload exactly
  when there was one, and gives the numbers of endpoints of inputs that the loop had and of which the VCL that
  varnishd runs is the rendering.
\<close>

theorem status_truthful:
  assumes "startup exec H en c ([], []) = (Go (cf, st0), s')" and "0 < now0"
    and "reported exec H cf decode x509 st0
      (start_status decode x509 t major supported c (ls_inputs st0) tls loaded (new_status version goversion started)) now0 st s now"
  shows "fst (healthzHandler s ''GET'') = 200 \<and> fst (healthzHandler (end_status (EndVarnishd err) s) ''GET'') = 503 \<and>
    (\<exists>r. statusHandler visit at s ''GET'' = StatusJSON r \<and> sp_VarnishdUp r \<and>
      sp_ReloadCount r = count_list (ls_emitted st) ''VCLReloaded'' \<and>
      (sp_LastReloadAt r = None \<longleftrightarrow> ''VCLReloaded'' \<notin> set (ls_emitted st)) \<and>
      (\<exists>st1 now1. loop_reach exec H cf st0 now0 st1 now1 \<and> ls_active_vcl st1 = ls_active_vcl st \<and>
         rendered exec (ls_inputs st1) (ls_rend st1) = Some (ls_active_vcl st) \<and>
         sp_FrontendCount r = length (elems (in_Frontends (ls_inputs st1))) \<and>
         sp_BackendCounts r = backendCountsMap (in_Backends (ls_inputs st1))))"
proof -
  have "status_ok exec H cf st0 now0 st s" using reported_ok [OF assms(3) start_status_ok [OF assms(1)]] by blast
  then show ?thesis
    using assms(2)
    by (auto simp: status_ok_def healthzHandler_def end_status_def setVarnishdUp_def statusHandler_def snapshot_def Let_def
        time_or_nil_def counts_of_def reloads_def count_list_0_iff split: if_splits)
qed

text \<open>
  The counts belong to the VCL that runs, not to the endpoints there are: a change of endpoints that renders to
  the same VCL is skipped, and the store keeps the old numbers.
\<close>

lemma skipped_reload_keeps_counts:
  assumes "ls_pendingReload st" and "\<not> ls_templateChanged st"
    and "rendered exec (ls_inputs st) (ls_rend st) = Some vcl" and "H vcl = ls_lastVCLHash st"
  shows "reload_status exec H now env st s = s"
proof -
  obtain r where "Render exec (ls_inputs st) (ls_rend st) = (Some vcl, r)"
    using assms(3) by (metis Render_fst surj_pair)
  then show ?thesis using assms by (simp add: reload_status_def reload_calls_def reload_render_calls_def reload_template_def)
qed

text \<open>The template file changes.\<close>

theorem status_truthful_witness:
  "\<exists>r. statusHandler (\<lambda>_. []) 9 (start_status Some (\<lambda>_. Inl []) 1 99 True sample_flags first_inputs [] [] (new_status ''v1'' ''go1'' 1)) ''GET'' = StatusJSON r \<and>
     sp_ReloadCount r = 0 \<and> sp_LastReloadAt r = None \<and> sp_VarnishdUp r"
proof -
  obtain tr ds where s: "startup echo_template id sample_start sample_flags ([], []) =
     (Go (loop_config_of sample_flags, sample_loop), (tr, ds))" by (rule sample_startup)
  have "\<not> ls_pendingShutdown sample_loop" and inp: "ls_inputs sample_loop = first_inputs" by (simp_all add: loop_init_def Let_def)
  note run = reported.iterate [OF reported.start this(1), where ev = Template and now0 = 1 and now' = 2, simplified]
  have "ls_emitted (on_template (loop_config_of sample_flags) 2 sample_loop) = [''VCLTemplateChanged'']"
    by (simp add: on_template_def schedule_backend_def emitEvent_def loop_init_def Let_def)
  with status_truthful [OF s _ run, where visit = "\<lambda>_. []" and at = 9 and decode = Some and ?x509.0 = "\<lambda>_. Inl []" and t = 1 and
      major = 99 and supported = True and tls = "[]" and loaded = "[]" and version = "''v1''" and goversion = "''go1''" and started = 1 and err = "[]"]
  show ?thesis unfolding inp by auto
qed

end
