(* ===== verification/DiscoveryRun.thy ===== *)
theory DiscoveryRun
  imports DiscoveryWorld
begin

text \<open>
  \<open>Run\<close> of a discovery watcher (\<open>internal/watcher/discovery_watcher.go\<close>) as the code runs it: the handler and the
  subscription, the wait for the cache, the explicit reconcile, the collection of the first states, the start of
  the forwarding goroutines, and the deferred calls on every way out. The runs of all watchers together take only
  the steps of \<open>DiscoveryWorld\<close>, so what is proved there holds of them; and a run that is over leaves no claim
  and no subscription behind. The informer is described as in \<open>Informer\<close>.
\<close>

section \<open>Run\<close>

text \<open>\<open>DiscCollecting\<close> holds the backends whose first state is still awaited; Go ranges over them in any order.\<close>

datatype disc_pc = DiscAdding | DiscWaiting | DiscCollecting "managedBackend list" | DiscServing | DiscEnded bool

record disc_run =
  dr_pc :: disc_pc
  dr_cache :: "k8s_service list"
  dr_undelivered :: nat
  dr_hasSynced :: bool
  dr_cancelled :: bool
  dr_sub :: "nat option"
  dr_initial :: "(string, BackendState) fmap"

record runs =
  ru_world :: world
  ru_run :: "nat \<Rightarrow> disc_run"

definition run_start :: disc_run where
  "run_start = \<lparr>dr_pc = DiscAdding, dr_cache = [], dr_undelivered = 0, dr_hasSynced = False, dr_cancelled = False,
     dr_sub = None, dr_initial = fmempty\<rparr>"

text \<open>What happens at a watcher; an order is the one in which Go ranges over its map of backends.\<close>

datatype disc_op = DiscHandler bool | DiscSync "string list" | CollectOne managedBackend initial_answer "string list" | DiscCollected
  | DiscReturn "string list" | DiscStored "k8s_service list" | DiscListed | DiscNotified "string list" | Kicked "string list" | DiscDone

definition set_run :: "nat \<Rightarrow> disc_run \<Rightarrow> runs \<Rightarrow> runs" where
  "set_run wid r rs = rs\<lparr>ru_run := (ru_run rs)(wid := r)\<rparr>"

text \<open>A call of \<open>syncServices\<close>, which does nothing once the watcher was shut down.\<close>

definition sync_call :: "nat \<Rightarrow> k8s_service list \<Rightarrow> string list \<Rightarrow> world \<Rightarrow> world" where
  "sync_call wid cache order w =
     (case fmlookup (wd_watchers w) wid of None \<Rightarrow> w
      | Some dw \<Rightarrow> if dw_backends dw = None then w else reconcile_in wid cache order w)"

text \<open>The deferred calls, last in first out: \<open>shutdown\<close>, then the cancellation of the subscription.\<close>

definition deferred_calls :: "nat \<Rightarrow> string list \<Rightarrow> nat option \<Rightarrow> world \<Rightarrow> world" where
  "deferred_calls wid order sub w =
     (case fmlookup (wd_watchers w) wid of None \<Rightarrow> w
      | Some dw \<Rightarrow>
          (let (reg, dw') = discovery_shutdown order (wd_registry w) dw;
               reg' = (case sub of None \<Rightarrow> reg | Some s \<Rightarrow> registry_unsubscribe s reg)
           in w\<lparr>wd_registry := reg', wd_watchers := fmupd wid dw' (wd_watchers w)\<rparr>))"

definition end_run :: "nat \<Rightarrow> string list \<Rightarrow> bool \<Rightarrow> runs \<Rightarrow> runs" where
  "end_run wid order ok rs =
     (let r = ru_run rs wid
      in set_run wid (r\<lparr>dr_pc := DiscEnded ok\<rparr>) (rs\<lparr>ru_world := deferred_calls wid order (dr_sub r) (ru_world rs)\<rparr>))"

definition active :: "disc_pc \<Rightarrow> bool" where
  "active pc \<longleftrightarrow> (case pc of DiscAdding \<Rightarrow> False | DiscEnded _ \<Rightarrow> False | _ \<Rightarrow> True)"

definition backends_of :: "nat \<Rightarrow> world \<Rightarrow> managedBackend list" where
  "backends_of wid w =
     (case fmlookup (wd_watchers w) wid of None \<Rightarrow> []
      | Some dw \<Rightarrow> (case dw_backends dw of None \<Rightarrow> [] | Some b \<Rightarrow> List.map_filter (fmlookup b) (sorted_list_of_fset (fmdom b))))"

fun Run :: "nat \<Rightarrow> disc_op \<Rightarrow> runs \<Rightarrow> runs" where
  "Run wid (DiscHandler ok) rs =
     (let r = ru_run rs wid
      in if dr_pc r \<noteq> DiscAdding then rs
         else if \<not> ok then set_run wid (r\<lparr>dr_pc := DiscEnded False\<rparr>) rs
         else (let (sub, reg) = registry_subscribe wid (wd_registry (ru_world rs))
               in set_run wid (r\<lparr>dr_pc := DiscWaiting, dr_sub := Some sub\<rparr>) (rs\<lparr>ru_world := (ru_world rs)\<lparr>wd_registry := reg\<rparr>\<rparr>)))"
| "Run wid (DiscSync order) rs =
     (let r = ru_run rs wid
      in if dr_pc r \<noteq> DiscWaiting \<or> \<not> (dr_hasSynced r \<or> dr_cancelled r) then rs
         else (let w = sync_call wid (dr_cache r) order (ru_world rs)
               in set_run wid (r\<lparr>dr_pc := DiscCollecting (backends_of wid w)\<rparr>) (rs\<lparr>ru_world := w\<rparr>)))"
| "Run wid (CollectOne mb ans order) rs =
     (let r = ru_run rs wid
      in case dr_pc r of
           DiscCollecting pending \<Rightarrow>
             (if mb \<notin> set pending \<or> ans = ParentCancelled \<and> \<not> dr_cancelled r then rs
              else (case collectInitialState [(mb, ans)] (dr_initial r) of
                      (False, _) \<Rightarrow> end_run wid order False rs
                    | (True, acc) \<Rightarrow> set_run wid (r\<lparr>dr_pc := DiscCollecting (remove1 mb pending), dr_initial := acc\<rparr>) rs))
         | _ \<Rightarrow> rs)"
| "Run wid DiscCollected rs =
     (let r = ru_run rs wid; w = ru_world rs
      in if dr_pc r \<noteq> DiscCollecting [] then rs
         else (case fmlookup (wd_watchers w) wid of None \<Rightarrow> rs
               | Some dw \<Rightarrow> set_run wid (r\<lparr>dr_pc := DiscServing\<rparr>)
                   (rs\<lparr>ru_world := w\<lparr>wd_watchers := fmupd wid (finish_initial dw) (wd_watchers w)\<rparr>\<rparr>)))"
| "Run wid (DiscReturn order) rs =
     (let r = ru_run rs wid in if dr_pc r = DiscServing \<and> dr_cancelled r then end_run wid order True rs else rs)"
| "Run wid (DiscStored cache) rs =
     (let r = ru_run rs wid
      in if \<not> active (dr_pc r) \<or> dr_cancelled r then rs
         else set_run wid (r\<lparr>dr_cache := cache, dr_undelivered := Suc (dr_undelivered r)\<rparr>) rs)"
| "Run wid DiscListed rs = set_run wid ((ru_run rs wid)\<lparr>dr_hasSynced := True\<rparr>) rs"
| "Run wid (DiscNotified order) rs =
     (let r = ru_run rs wid
      in if dr_undelivered r = 0 then rs
         else set_run wid (r\<lparr>dr_undelivered := dr_undelivered r - 1\<rparr>)
           (rs\<lparr>ru_world := sync_call wid (dr_cache r) order (ru_world rs)\<rparr>))"
| "Run wid (Kicked order) rs =
     (let r = ru_run rs wid; w = ru_world rs; reg = wd_registry w
      in if \<not> active (dr_pc r) \<or> wid |\<notin>| nr_kicks reg then rs
         else rs\<lparr>ru_world := sync_call wid (dr_cache r) order (w\<lparr>wd_registry := reg\<lparr>nr_kicks := nr_kicks reg |-| {|wid|}\<rparr>\<rparr>)\<rparr>)"
| "Run wid DiscDone rs = set_run wid ((ru_run rs wid)\<lparr>dr_cancelled := True\<rparr>) rs"

fun op_order :: "disc_op \<Rightarrow> string list" where
  "op_order (DiscSync order) = order" | "op_order (CollectOne mb ans order) = order" | "op_order (DiscReturn order) = order"
| "op_order (DiscNotified order) = order" | "op_order (Kicked order) = order" | "op_order _ = []"

definition needs_order :: "disc_op \<Rightarrow> bool" where
  "needs_order op \<longleftrightarrow> (case op of DiscSync _ \<Rightarrow> True | CollectOne _ _ _ \<Rightarrow> True | DiscReturn _ \<Rightarrow> True | DiscNotified _ \<Rightarrow> True | Kicked _ \<Rightarrow> True | _ \<Rightarrow> False)"

inductive runs_reach :: "(nat \<Rightarrow> string fset) \<Rightarrow> nat fset \<Rightarrow> runs \<Rightarrow> bool" for explicit ids where
  start: "runs_reach explicit ids \<lparr>ru_world = start_world explicit ids, ru_run = (\<lambda>_. run_start)\<rparr>"
| step: "runs_reach explicit ids rs \<Longrightarrow> fmlookup (wd_watchers (ru_world rs)) wid = Some dw \<Longrightarrow>
    (if needs_order op then covers (op_order op) dw else True) \<Longrightarrow> runs_reach explicit ids (Run wid op rs)"

section \<open>The runs are a world\<close>

text \<open>A watcher is subscribed, once and under the number it remembers, exactly between the two ends of its run.\<close>

definition subs_of :: "nat \<Rightarrow> world \<Rightarrow> nat set" where
  "subs_of wid w = {x. fmlookup (nr_subscribers (wd_registry w)) x = Some wid}"

definition run_ok :: "disc_run \<Rightarrow> nat set \<Rightarrow> discovery option \<Rightarrow> bool" where
  "run_ok r subs d \<longleftrightarrow>
     (case dr_pc r of
        DiscAdding \<Rightarrow> subs = {} \<and> dr_undelivered r = 0 \<and> (\<forall>dw. d = Some dw \<longrightarrow> dw_backends dw = Some fmempty)
      | DiscEnded _ \<Rightarrow> subs = {} \<and> (\<forall>dw. d = Some dw \<longrightarrow> dw_backends dw = None \<or> dw_backends dw = Some fmempty \<and> dr_undelivered r = 0)
      | _ \<Rightarrow> (\<exists>sub. dr_sub r = Some sub \<and> subs = {sub}) \<and> (\<forall>dw. d = Some dw \<longrightarrow> dw_backends dw \<noteq> None))"

definition same_others :: "nat \<Rightarrow> world \<Rightarrow> world \<Rightarrow> bool" where
  "same_others wid w w' \<longleftrightarrow> (\<forall>i. i \<noteq> wid \<longrightarrow> subs_of i w' = subs_of i w \<and> fmlookup (wd_watchers w') i = fmlookup (wd_watchers w) i)"

lemma same_others_refl [simp]: "same_others wid w w"
  by (simp add: same_others_def)

lemma subs_of_subscribed: "x \<in> subs_of wid w \<Longrightarrow> wid |\<in>| fmran (nr_subscribers (wd_registry w))"
  by (auto simp: subs_of_def intro: fmranI)

lemma sync_step:
  assumes "disc_world explicit ids w" and "fmlookup (wd_watchers w) wid = Some dw" and "covers order dw" and "dw_backends dw \<noteq> None"
    and "subs_of wid w \<noteq> {}" and "w1 = w \<or> w1 = w\<lparr>wd_registry := (wd_registry w)\<lparr>nr_kicks := nr_kicks (wd_registry w) |-| {|wid|}\<rparr>\<rparr>"
    and "w1 \<noteq> w \<Longrightarrow> wid |\<in>| nr_kicks (wd_registry w)"
  shows "disc_world explicit ids (sync_call wid cache order w1)" and "same_others wid w (sync_call wid cache order w1)"
    and "subs_of wid (sync_call wid cache order w1) = subs_of wid w"
    and "\<exists>dw'. fmlookup (wd_watchers (sync_call wid cache order w1)) wid = Some dw' \<and> dw_backends dw' \<noteq> None"
proof -
  obtain b where b: "dw_backends dw = Some b" using assms(4) by auto
  have sub: "wid |\<in>| fmran (nr_subscribers (wd_registry w))" using assms(5) subs_of_subscribed by blast
  have w1: "fmlookup (wd_watchers w1) wid = Some dw" "wd_watchers w1 = wd_watchers w" "nr_subscribers (wd_registry w1) = nr_subscribers (wd_registry w)"
    using assms(2,6) by auto
  have call: "sync_call wid cache order w1 = reconcile_in wid cache order w1" using w1(1) b by (simp add: sync_call_def)
  show "disc_world explicit ids (sync_call wid cache order w1)"
    unfolding call using disc_world.event [OF assms(1-3) sub] disc_world.kicked [OF assms(1-3) sub] assms(6,7) by metis
  have subs: "nr_subscribers (wd_registry (reconcile_in wid cache order w1)) = nr_subscribers (wd_registry w)"
    using reconcile_in_registry [OF w1(1) assms(3), of cache] w1(3) by (simp add: kicks_on_release_def)
  obtain reg gen dw' upds where s: "syncServices (Some cache) order (wd_registry w1) (wd_gen w1) dw = ((reg, gen, dw'), upds)"
    by (metis surj_pair)
  have dw': "dw_backends dw' \<noteq> None" using s b by (auto simp: syncServices_def Let_def split: prod.splits)
  have ws: "wd_watchers (reconcile_in wid cache order w1) = fmupd wid dw' (wd_watchers w)"
    using w1 s by (simp add: reconcile_in_def)
  show "same_others wid w (sync_call wid cache order w1)" "subs_of wid (sync_call wid cache order w1) = subs_of wid w"
    "\<exists>dw'. fmlookup (wd_watchers (sync_call wid cache order w1)) wid = Some dw' \<and> dw_backends dw' \<noteq> None"
    unfolding call using subs ws dw' by (auto simp: same_others_def subs_of_def)
qed

lemma deferred_step:
  assumes "disc_world explicit ids w" and "fmlookup (wd_watchers w) wid = Some dw" and "covers order dw" and "subs_of wid w = {sub}"
  shows "disc_world explicit ids (deferred_calls wid order (Some sub) w)" and "same_others wid w (deferred_calls wid order (Some sub) w)"
    and "subs_of wid (deferred_calls wid order (Some sub) w) = {}"
    and "\<exists>dw'. fmlookup (wd_watchers (deferred_calls wid order (Some sub) w)) wid = Some dw' \<and> dw_backends dw' = None"
proof -
  obtain reg dw' where d: "discovery_shutdown order (wd_registry w) dw = (reg, dw')" by (metis surj_pair)
  have dw': "dw_backends dw' = None" using d by (auto simp: discovery_shutdown_def split: option.splits)
  have reg: "nr_subscribers reg = nr_subscribers (wd_registry w)"
    using d kicks_release_all [of "wd_registry w" dw _ order] by (auto simp: discovery_shutdown_def kicks_on_release_def split: option.splits)
  let ?w1 = "w\<lparr>wd_registry := reg, wd_watchers := fmupd wid dw' (wd_watchers w)\<rparr>"
  have sub: "fmlookup (nr_subscribers reg) x = Some wid \<longleftrightarrow> x = sub" for x using assms(4) reg by (auto simp: subs_of_def)
  have 1: "disc_world explicit ids ?w1" using disc_world.shutdown [OF assms(1-3)] d by simp
  have call: "deferred_calls wid order (Some sub) w = ?w1\<lparr>wd_registry := registry_unsubscribe sub (wd_registry ?w1)\<rparr>"
    using assms(2) d by (simp add: deferred_calls_def)
  show "disc_world explicit ids (deferred_calls wid order (Some sub) w)"
    unfolding call by (rule disc_world.unsubscribe [OF 1]) (use sub dw' in auto)
  have s: "fmlookup (nr_subscribers (wd_registry w)) sub = Some wid" using sub reg by simp
  show "same_others wid w (deferred_calls wid order (Some sub) w)"
    unfolding call using s reg by (auto simp: same_others_def subs_of_def registry_unsubscribe_def)
  show "subs_of wid (deferred_calls wid order (Some sub) w) = {}"
    "\<exists>dw'. fmlookup (wd_watchers (deferred_calls wid order (Some sub) w)) wid = Some dw' \<and> dw_backends dw' = None"
    unfolding call using sub dw' by (auto simp: subs_of_def registry_unsubscribe_def)
qed

lemma subscribe_step:
  assumes "disc_world explicit ids w" and "fmlookup (wd_watchers w) wid = Some dw" and "subs_of wid w = {}"
    and "registry_subscribe wid (wd_registry w) = (sub, reg)"
  shows "disc_world explicit ids (w\<lparr>wd_registry := reg\<rparr>)" and "same_others wid w (w\<lparr>wd_registry := reg\<rparr>)"
    and "subs_of wid (w\<lparr>wd_registry := reg\<rparr>) = {sub}"
proof -
  have "subs_ok (wd_registry w)" using disc_world_awake [OF assms(1)] by blast
  then have new: "fmlookup (nr_subscribers (wd_registry w)) sub = None" and reg: "nr_subscribers reg = fmupd sub wid (nr_subscribers (wd_registry w))"
    using assms(4) by (auto simp: subs_ok_def registry_subscribe_def)
  show "disc_world explicit ids (w\<lparr>wd_registry := reg\<rparr>)" using disc_world.subscribe [OF assms(1,2)] assms(4) by simp
  show "same_others wid w (w\<lparr>wd_registry := reg\<rparr>)" "subs_of wid (w\<lparr>wd_registry := reg\<rparr>) = {sub}"
    using new reg assms(3) by (auto simp: same_others_def subs_of_def)
qed

text \<open>One operation of \<open>Run\<close>.\<close>

definition runs_ok :: "(nat \<Rightarrow> string fset) \<Rightarrow> nat fset \<Rightarrow> runs \<Rightarrow> bool" where
  "runs_ok explicit ids rs \<longleftrightarrow> disc_world explicit ids (ru_world rs) \<and>
     (\<forall>i. run_ok (ru_run rs i) (subs_of i (ru_world rs)) (fmlookup (wd_watchers (ru_world rs)) i))"

lemma runs_okI:
  assumes "runs_ok explicit ids rs" and "disc_world explicit ids w" and "same_others wid (ru_world rs) w"
    and "run_ok r (subs_of wid w) (fmlookup (wd_watchers w) wid)"
  shows "runs_ok explicit ids (set_run wid r (rs\<lparr>ru_world := w\<rparr>))"
  using assms by (auto simp: runs_ok_def set_run_def same_others_def)

lemma runs_ok_own:
  assumes "runs_ok explicit ids rs" and "run_ok r (subs_of wid (ru_world rs)) (fmlookup (wd_watchers (ru_world rs)) wid)"
  shows "runs_ok explicit ids (set_run wid r rs)"
  using runs_okI [OF assms(1) _ same_others_refl assms(2)] assms(1) by (simp add: runs_ok_def set_run_def)

lemma end_ok:
  assumes "runs_ok explicit ids rs" and "fmlookup (wd_watchers (ru_world rs)) wid = Some dw" and "covers order dw"
    and "active (dr_pc (ru_run rs wid))"
  shows "runs_ok explicit ids (end_run wid order ok rs)"
proof -
  have d: "disc_world explicit ids (ru_world rs)" and r: "run_ok (ru_run rs wid) (subs_of wid (ru_world rs)) (Some dw)"
    using assms(1,2) unfolding runs_ok_def by metis+
  obtain sub where s: "dr_sub (ru_run rs wid) = Some sub" "subs_of wid (ru_world rs) = {sub}"
    using r assms(4) by (auto simp: run_ok_def active_def split: disc_pc.splits)
  note D = deferred_step [OF d assms(2,3) s(2)]
  show ?thesis
    unfolding end_run_def Let_def s(1) by (rule runs_okI [OF assms(1) D(1,2)]) (use D(3,4) in \<open>auto simp: run_ok_def\<close>)
qed

lemma run_step_ok:
  assumes "runs_ok explicit ids rs" and "fmlookup (wd_watchers (ru_world rs)) wid = Some dw"
    and "if needs_order op then covers (op_order op) dw else True"
  shows "runs_ok explicit ids (Run wid op rs)"
proof -
  let ?r = "ru_run rs wid" and ?w = "ru_world rs"
  have d: "disc_world explicit ids ?w" and r: "run_ok ?r (subs_of wid ?w) (Some dw)"
    using assms(1,2) unfolding runs_ok_def by metis+
  have act: "\<exists>sub. dr_sub ?r = Some sub \<and> subs_of wid ?w = {sub}" "dw_backends dw \<noteq> None" if "active (dr_pc ?r)"
    using r that by (auto simp: run_ok_def active_def split: disc_pc.splits)
  show ?thesis
  proof (cases op)
    case (DiscHandler ok)
    obtain sub reg where s: "registry_subscribe wid (wd_registry ?w) = (sub, reg)" by (metis surj_pair)
    show ?thesis
    proof (cases "dr_pc ?r = DiscAdding \<and> ok")
      case False
      then show ?thesis using DiscHandler assms(1,2) r by (cases "dr_pc ?r = DiscAdding") (auto simp: run_ok_def Let_def intro!: runs_ok_own)
    next
      case True
      then have e: "subs_of wid ?w = {}" "dw_backends dw = Some fmempty" using r by (auto simp: run_ok_def)
      note S = subscribe_step [OF d assms(2) e(1) s]
      have "runs_ok explicit ids (set_run wid (?r\<lparr>dr_pc := DiscWaiting, dr_sub := Some sub\<rparr>) (rs\<lparr>ru_world := ?w\<lparr>wd_registry := reg\<rparr>\<rparr>))"
        by (rule runs_okI [OF assms(1) S(1,2)]) (use S(3) e assms(2) in \<open>auto simp: run_ok_def\<close>)
      then show ?thesis using True DiscHandler s by simp
    qed
  next
    case (DiscSync order)
    show ?thesis
    proof (cases "dr_pc ?r = DiscWaiting \<and> (dr_hasSynced ?r \<or> dr_cancelled ?r)")
      case True
      then have a: "active (dr_pc ?r)" by (simp add: active_def)
      note S = sync_step [OF d assms(2) _ act(2) [OF a], of order ?w "dr_cache ?r"]
      show ?thesis using True DiscSync assms(1,3) act [OF a] S
        by (auto simp: Let_def needs_order_def run_ok_def intro!: runs_okI)
    qed (use DiscSync assms(1) in auto)
  next
    case (CollectOne mb ans order)
    show ?thesis
    proof (cases "dr_pc ?r")
      case (DiscCollecting ps)
      then have a: "active (dr_pc ?r)" by (simp add: active_def)
      have "runs_ok explicit ids (end_run wid order ok rs)" for ok
        using end_ok [OF assms(1,2) _ a] assms(3) CollectOne by (simp add: needs_order_def)
      moreover have "runs_ok explicit ids (set_run wid (?r\<lparr>dr_pc := DiscCollecting ps', dr_initial := acc\<rparr>) rs)" for ps' acc
        using act [OF a] assms(1,2) by (auto simp: run_ok_def intro!: runs_ok_own)
      moreover have "runs_ok explicit ids (set_run wid (?r\<lparr>dr_pc := DiscCollecting ps'\<rparr>) rs)" for ps'
        using act [OF a] assms(1,2) by (auto simp: run_ok_def intro!: runs_ok_own)
      ultimately show ?thesis using CollectOne DiscCollecting assms(1) by (auto simp: Let_def split: list.split initial_answer.split)
    qed (use CollectOne assms(1) in auto)
  next
    case DiscCollected
    show ?thesis
    proof (cases "dr_pc ?r = DiscCollecting []")
      case True
      then have a: "active (dr_pc ?r)" by (simp add: active_def)
      have "runs_ok explicit ids (set_run wid (?r\<lparr>dr_pc := DiscServing\<rparr>) (rs\<lparr>ru_world := ?w\<lparr>wd_watchers := fmupd wid (finish_initial dw) (wd_watchers ?w)\<rparr>\<rparr>))"
        by (rule runs_okI [OF assms(1) disc_world.initialized [OF d assms(2)]])
          (use act [OF a] in \<open>auto simp: run_ok_def same_others_def subs_of_def finish_initial_def\<close>)
      then show ?thesis using True DiscCollected assms(2) by (simp add: Let_def)
    qed (use DiscCollected assms(1) in auto)
  next
    case (DiscReturn order)
    show ?thesis
    proof (cases "dr_pc ?r = DiscServing \<and> dr_cancelled ?r")
      case True
      then have a: "active (dr_pc ?r)" by (simp add: active_def)
      show ?thesis using end_ok [OF assms(1,2) _ a] assms(3) DiscReturn True by (simp add: needs_order_def)
    qed (use DiscReturn assms(1) in auto)
  next
    case (DiscStored cache)
    show ?thesis
    proof (cases "active (dr_pc ?r) \<and> \<not> dr_cancelled ?r")
      case True
      then show ?thesis using DiscStored act assms(1,2) r
        by (auto simp: run_ok_def active_def Let_def intro!: runs_ok_own split: disc_pc.splits)
    qed (use DiscStored assms(1) in auto)
  next
    case DiscListed
    then show ?thesis using assms(1,2) r by (auto simp: run_ok_def intro!: runs_ok_own split: disc_pc.splits)
  next
    case (DiscNotified order)
    show ?thesis
    proof (cases "dr_undelivered ?r = 0")
      case False
      show ?thesis
      proof (cases "active (dr_pc ?r)")
        case True
        note S = sync_step [OF d assms(2) _ act(2) [OF True], of order ?w "dr_cache ?r"]
        have "run_ok (?r\<lparr>dr_undelivered := n\<rparr>) (subs_of wid (sync_call wid (dr_cache ?r) order ?w)) (fmlookup (wd_watchers (sync_call wid (dr_cache ?r) order ?w)) wid)" for n
          using True act [OF True] S assms(3) DiscNotified by (auto simp: run_ok_def active_def needs_order_def split: disc_pc.splits)
        then show ?thesis using False DiscNotified assms(1,3) act [OF True] S
          by (auto simp: Let_def needs_order_def intro!: runs_okI)
      next
        case inactive: False
        then have "dw_backends dw = None" using r False by (auto simp: run_ok_def active_def split: disc_pc.splits)
        then have w: "sync_call wid (dr_cache ?r) order ?w = ?w" using assms(2) by (simp add: sync_call_def)
        have "rs\<lparr>ru_world := ?w\<rparr> = rs" by simp
        then show ?thesis using DiscNotified False assms(1,2) r inactive w
          by (auto simp: run_ok_def active_def Let_def intro!: runs_ok_own split: disc_pc.splits)
      qed
    qed (use DiscNotified assms(1) in auto)
  next
    case (Kicked order)
    let ?w1 = "?w\<lparr>wd_registry := (wd_registry ?w)\<lparr>nr_kicks := nr_kicks (wd_registry ?w) |-| {|wid|}\<rparr>\<rparr>"
    show ?thesis
    proof (cases "active (dr_pc ?r) \<and> wid |\<in>| nr_kicks (wd_registry ?w)")
      case True
      then have a: "active (dr_pc ?r)" by simp
      note S = sync_step [OF d assms(2) _ act(2) [OF a], of order ?w1 "dr_cache ?r"]
      have "run_ok ?r (subs_of wid (sync_call wid (dr_cache ?r) order ?w1)) (fmlookup (wd_watchers (sync_call wid (dr_cache ?r) order ?w1)) wid)"
        using True act [OF a] S assms(3) Kicked by (auto simp: run_ok_def active_def needs_order_def split: disc_pc.splits)
      then have "runs_ok explicit ids (set_run wid ?r (rs\<lparr>ru_world := sync_call wid (dr_cache ?r) order ?w1\<rparr>))"
        using True act [OF a] S assms(1,3) Kicked by (intro runs_okI) (auto simp: needs_order_def)
      moreover have "set_run wid ?r (rs\<lparr>ru_world := w\<rparr>) = rs\<lparr>ru_world := w\<rparr>" for w by (simp add: set_run_def)
      ultimately show ?thesis using True Kicked by (simp add: Let_def)
    qed (use Kicked assms(1) in auto)
  next
    case DiscDone
    then show ?thesis using assms(1,2) r by (auto simp: run_ok_def intro!: runs_ok_own split: disc_pc.splits)
  qed
qed

lemma runs_reach_ok: "runs_reach explicit ids rs \<Longrightarrow> runs_ok explicit ids rs"
proof (induction rule: runs_reach.induct)
  case start
  have "subs_of i (start_world explicit ids) = {}" for i by (simp add: subs_of_def start_world_facts NewNameRegistry_def)
  then show ?case
    by (auto simp: runs_ok_def disc_world.start run_ok_def run_start_def NewBackendDiscoveryWatcher_def dest!: start_world_facts(1))
next
  case (step rs wid dw op)
  then show ?case by (intro run_step_ok)
qed

section \<open>What a run leaves behind\<close>

lemma no_claims:
  assumes "disc_world explicit ids w" and "fmlookup (wd_watchers w) wid = Some dw" and "dw_backends dw = None \<or> dw_backends dw = Some fmempty"
  shows "fmlookup (nr_owners (wd_registry w)) name \<noteq> Some (ownerToken wid key)"
proof
  assume "fmlookup (nr_owners (wd_registry w)) name = Some (ownerToken wid key)"
  then have "(name, ownerToken wid key) \<in> all_claims w"
    using disc_world_exact [OF assms(1)] by (auto simp: registry_exact_def graph_def)
  then obtain i d b k mb where "fmlookup (wd_watchers w) i = Some d" "dw_backends d = Some b" "fmlookup b k = Some mb"
      "ownerToken wid key = ownerToken (dw_id d) k"
    by (auto simp: all_claims_def claims_of_def claims_def split: option.splits)
  then show False using disc_world_exact [OF assms(1)] assms(2,3) by (auto simp: watchers_ok_def)
qed


text \<open>The watchers 7 and 2 subscribe; 7 adopts the Service \<open>a/api\<close>, serves, and ends with the context.\<close>

definition first_state :: BackendState where
  "first_state = \<lparr>bs_Endpoints = None, bs_Labels = fmempty, bs_Annotations = fmempty\<rparr>"

definition run_of :: "disc_pc \<Rightarrow> bool \<Rightarrow> (string, BackendState) fmap \<Rightarrow> disc_run" where
  "run_of pc cancelled acc = \<lparr>dr_pc = pc, dr_cache = [svc_a], dr_undelivered = 1, dr_hasSynced = True, dr_cancelled = cancelled,
     dr_sub = Some 0, dr_initial = acc\<rparr>"

definition runs_of :: "world \<Rightarrow> disc_run \<Rightarrow> runs" where
  "runs_of w r = \<lparr>ru_world = w, ru_run = (\<lambda>_. run_start)(2 := run_start\<lparr>dr_pc := DiscWaiting, dr_sub := Some 1\<rparr>, 7 := r)\<rparr>"

definition adopted_world :: world where
  "adopted_world = reconcile_in 7 [svc_a] [] world_one"

definition served_world :: world where
  "served_world = adopted_world\<lparr>wd_watchers := fmupd 7 (finish_initial (watcher_of 7 (fmupd ''a/api'' backend_a fmempty))) (wd_watchers adopted_world)\<rparr>"

lemma adopted_world_facts:
  "sync_call 7 [svc_a] [] world_one = adopted_world" "backends_of 7 adopted_world = [backend_a]"
  "fmlookup (wd_watchers adopted_world) 7 = Some (watcher_of 7 (fmupd ''a/api'' backend_a fmempty))"
proof -
  have one: "fmlookup (wd_watchers world_one) 7 = Some (watcher_of 7 fmempty)" "wd_registry world_one = reg_two" "wd_gen world_one = 0"
    by (simp_all add: world_one_def start_two start_world_facts)
  show "sync_call 7 [svc_a] [] world_one = adopted_world" by (simp add: sync_call_def one adopted_world_def watcher_of_def)
  show w: "fmlookup (wd_watchers adopted_world) 7 = Some (watcher_of 7 (fmupd ''a/api'' backend_a fmempty))"
    by (simp add: adopted_world_def reconcile_in_def one sync_a)
  show "backends_of 7 adopted_world = [backend_a]" by (simp add: backends_of_def w, simp add: watcher_of_def List.map_filter_def)
qed

definition last_run :: runs where
  "last_run = end_run 7 [''a/api''] True (runs_of served_world (run_of DiscServing True (fmupd ''api'' first_state fmempty)))"

lemma last_run_reach: "runs_reach (\<lambda>_. {||}) {|7, 2|} last_run"
proof -
  let ?reach = "runs_reach (\<lambda>_. {||}) {|7, 2|}"
  have w: "fmlookup (wd_watchers world_one) 7 = Some (watcher_of 7 fmempty)" by (simp add: world_one_def start_two)
  have covers: "covers [] (watcher_of 7 fmempty)" "covers [''a/api''] (watcher_of 7 (fmupd ''a/api'' backend_a fmempty))"
    "covers [''a/api''] (finish_initial (watcher_of 7 (fmupd ''a/api'' backend_a fmempty)))"
    by (auto simp: covers_def watcher_of_def finish_initial_def split: if_splits)
  have s2: "?reach (runs_of world_one (run_start\<lparr>dr_pc := DiscWaiting, dr_sub := Some 0\<rparr>))"
  proof -
    let ?s0 = "\<lparr>ru_world = start_world (\<lambda>_. {||}) {|7, 2|}, ru_run = (\<lambda>_. run_start)\<rparr>"
    have 1: "?reach (Run 7 (DiscHandler True) ?s0)"
      by (rule runs_reach.step [OF runs_reach.start]) (simp_all add: start_two needs_order_def)
    have "?reach (Run 2 (DiscHandler True) (Run 7 (DiscHandler True) ?s0))"
      by (rule runs_reach.step [OF 1, of 2 "watcher_of 2 fmempty"])
        (simp_all add: start_two needs_order_def run_start_def registry_subscribe_def set_run_def)
    moreover have "Run 2 (DiscHandler True) (Run 7 (DiscHandler True) ?s0) = runs_of world_one (run_start\<lparr>dr_pc := DiscWaiting, dr_sub := Some 0\<rparr>)"
      by (simp add: run_start_def registry_subscribe_def set_run_def runs_of_def world_one_def start_world_facts reg_two_def
          NewNameRegistry_def fun_upd_twist)
    ultimately show ?thesis by simp
  qed
  have "?reach (Run 7 DiscListed (Run 7 (DiscStored [svc_a]) (runs_of world_one (run_start\<lparr>dr_pc := DiscWaiting, dr_sub := Some 0\<rparr>))))"
    by (rule runs_reach.step [OF runs_reach.step [OF s2, where dw = "watcher_of 7 fmempty"], where dw = "watcher_of 7 fmempty"]) (simp_all add: runs_of_def set_run_def w needs_order_def Let_def)
  then have s4: "?reach (runs_of world_one (run_of DiscWaiting False fmempty))"
    by (simp add: runs_of_def set_run_def run_start_def run_of_def active_def)
  have "?reach (Run 7 (DiscSync []) (runs_of world_one (run_of DiscWaiting False fmempty)))"
    by (rule runs_reach.step [OF s4, where dw = "watcher_of 7 fmempty"]) (simp_all add: runs_of_def w needs_order_def covers)
  then have s5: "?reach (runs_of adopted_world (run_of (DiscCollecting [backend_a]) False fmempty))"
    by (simp add: runs_of_def set_run_def run_of_def adopted_world_facts)
  have "?reach (Run 7 (CollectOne backend_a (FirstState first_state) [''a/api'']) (runs_of adopted_world (run_of (DiscCollecting [backend_a]) False fmempty)))"
    by (rule runs_reach.step [OF s5, where dw = "watcher_of 7 (fmupd ''a/api'' backend_a fmempty)"]) (simp_all add: runs_of_def adopted_world_facts needs_order_def covers)
  then have s6: "?reach (runs_of adopted_world (run_of (DiscCollecting []) False (fmupd ''api'' first_state fmempty)))"
    by (simp add: runs_of_def set_run_def run_of_def backend_a_def)
  have "?reach (Run 7 DiscCollected (runs_of adopted_world (run_of (DiscCollecting []) False (fmupd ''api'' first_state fmempty))))"
    by (rule runs_reach.step [OF s6, where dw = "watcher_of 7 (fmupd ''a/api'' backend_a fmempty)"]) (simp_all add: runs_of_def adopted_world_facts needs_order_def)
  then have s7: "?reach (runs_of served_world (run_of DiscServing False (fmupd ''api'' first_state fmempty)))"
    by (simp add: runs_of_def set_run_def run_of_def adopted_world_facts served_world_def Let_def)
  have "?reach (Run 7 DiscDone (runs_of served_world (run_of DiscServing False (fmupd ''api'' first_state fmempty))))"
    by (rule runs_reach.step [OF s7, where dw = "finish_initial (watcher_of 7 (fmupd ''a/api'' backend_a fmempty))"]) (simp_all add: runs_of_def served_world_def needs_order_def)
  then have s8: "?reach (runs_of served_world (run_of DiscServing True (fmupd ''api'' first_state fmempty)))"
    by (simp add: runs_of_def set_run_def run_of_def)
  have "?reach (Run 7 (DiscReturn [''a/api'']) (runs_of served_world (run_of DiscServing True (fmupd ''api'' first_state fmempty))))"
    by (rule runs_reach.step [OF s8, where dw = "finish_initial (watcher_of 7 (fmupd ''a/api'' backend_a fmempty))"]) (simp_all add: runs_of_def served_world_def needs_order_def covers)
  then show ?thesis by (simp add: last_run_def) (simp add: runs_of_def run_of_def)
qed


end
