(* ===== verification/Spec2Isabelle.thy ===== *)
theory Spec2Isabelle
  imports LoopProps DiscoveryWorld ValueWatchers VarnishReload PrefixWriter TLSCerts Shutdown Varnishstat ConfigProps
    StartupProps DiscoveryFlow LoopExit ManagerWiring BroadcastServer Telemetry StatusLoop DiscoveryRun
begin

text \<open>
  A verification of k8s-httpcache, a controller that runs next to Varnish (or Vinyl) in a pod. It watches
  Services, EndpointSlices, ConfigMaps, Secrets and files, renders them through a VCL template, and loads
  every new VCL and certificate into varnishd without a restart; it drains and stops varnishd with the pod,
  fans purge requests out to all pods, supervises varnishncsa, and exports the counters of varnishstat.

  \<^bold>\<open>How the parts interact.\<close> Flags become a configuration (\<open>config.Parse\<close>). \<open>run\<close> in \<open>main.go\<close> starts
  the watchers, waits for the first value of each, renders the first VCL, starts varnishd and loads the
  certificates, and enters \<open>runLoop\<close>. Each watcher publishes over a channel that holds only its newest value;
  fan-ins forward them to the loop, which gathers changes with debounce timers and then renders and reloads,
  with a rollback of a template that varnishd rejects and a retry timer for every failure that may pass. A
  signal or the exit of varnishd ends the loop through the drain and the shutdown.

  \<^bold>\<open>The theories\<close> (all definitions keep the names of the code where HOL allows it; the manifest maps each to
  its lines).

  \<^item> \<open>Prelude\<close>, \<open>GoText\<close>: strings as byte lists, slices that distinguish \<open>nil\<close> from empty, buffered channels,
    and the functions of \<open>strings\<close>, \<open>bufio\<close>, \<open>bytes\<close> and \<open>strconv\<close> the program calls.
  \<^item> \<open>Feed\<close>: the contract of the watchers, the locale \<open>coalescing_feed\<close>, which is interpreted on the
    EndpointSlice watcher (\<open>Endpoints\<close>) and on the ConfigMap, Secret and TLS watchers (\<open>ValueWatchers\<close>).
  \<^item> \<open>Endpoints\<close> (\<open>internal/watcher/watcher.go\<close>): what a listing of EndpointSlices serves, its canonical
    order, and \<open>watcher_sync\<close> on the state \<open>watcher\<close>.
  \<^item> \<open>BackendWatcher\<close> (\<open>backend_watcher.go\<close>, \<open>annotation_filter.go\<close>): the state \<open>backend_watcher\<close>, Service
    events, the child watcher and the snapshots that pair endpoints with metadata.
  \<^item> \<open>Discovery\<close>, \<open>DiscoveryWorld\<close> (\<open>discovery_watcher.go\<close>): the name registry, one reconcile, and the world
    of all the watchers that share the registry, an inductive step relation with its invariant.
  \<^item> \<open>ValueWatchers\<close> (\<open>values_decode.go\<close>, \<open>configmap_watcher.go\<close>, \<open>secret_watcher.go\<close>, \<open>tls_cert_watcher.go\<close>,
    \<open>file_values_watcher.go\<close>): decoding of one entry, the watchers, and the scan of a values directory.
  \<^item> \<open>FileWatch\<close>, \<open>Pipeline\<close> (\<open>main.go\<close>): the poller of the template file; the fan-ins, and what runs from the
    watchers through a fan-in into the event loop, the locales \<open>snapshot_feed\<close> (a sublocale of \<open>coalescing_feed\<close>),
    \<open>source_pipeline\<close> and \<open>listed_pipeline\<close>, interpreted for ConfigMaps, Secrets, TLS Secrets and the explicit
    backends.
  \<^item> \<open>DrainVCL\<close>, \<open>Renderer\<close> (\<open>internal/renderer\<close>): the scanners that place the drain VCL, the template with
    its rollback baseline (locale \<open>template_swap\<close>), the data given to a template, and \<open>Render\<close>.
  \<^item> \<open>Redact\<close> (\<open>internal/redact/redact.go\<close>): the targets, the replacement and the streaming writer.
  \<^item> \<open>Timers\<close>, \<open>EventLoop\<close>, \<open>LoopInvariant\<close>, \<open>LoopProps\<close> (\<open>main.go\<close>): the debounce and recovery timers; the
    state \<open>loop_state\<close> of \<open>runLoop\<close> with one handler per case of its select, composed to the inductive relation
    \<open>loop_reach\<close>; the invariant \<open>loop_inv\<close>; and the properties of every reachable state.
  \<^item> \<open>VarnishCLI\<close>, \<open>VarnishReload\<close>, \<open>VarnishProcess\<close>, \<open>PrefixWriter\<close>,
    \<open>ManagerWiring\<close>, \<open>TLSCerts\<close> (\<open>internal/varnish\<close>): quoting
    and arguments of varnishadm, reloads with retries, the discarding of old VCLs, the start of varnishd, the
    supervision and the log of varnishncsa, and the staging of certificates.
  \<^item> \<open>Broadcast\<close>, \<open>BroadcastServer\<close> (\<open>internal/broadcast\<close>): the fan-out of a request, the drain of the server as
    interleaved steps, and the construction and the end of the server.
  \<^item> \<open>JsonScanner\<close>, \<open>VarnishstatParser\<close>, \<open>VarnishstatFormat\<close>, \<open>Varnishstat\<close> (\<open>internal/telemetry\<close>): the JSON
    parser for the output of varnishstat, that output as a grammar, and the collector.
  \<^item> \<open>ConfigFlags\<close>, \<open>Config\<close>, \<open>ConfigChecks\<close>, \<open>ConfigProps\<close> (\<open>internal/config\<close>): the parsers of the flags,
    the defaults, the checks in the order of \<open>parse\<close>, and what an accepted configuration holds.
  \<^item> \<open>Telemetry\<close> (\<open>gather.go\<close>, \<open>main.go\<close>): the filter on the scraped metrics and the events of the pod.
  \<^item> \<open>Status\<close>, \<open>Startup\<close>, \<open>StartupProps\<close>, \<open>Shutdown\<close> (\<open>main.go\<close>): the status store and the health handlers,
    \<open>run\<close> from the flags to the loop, and the drain and shutdown behind it.

  \<^bold>\<open>What the groups of theorems show.\<close> The loop: what varnishd runs is up to date or a timer will make it so,
  a rejected template is rolled back, a passing failure never discards one, and every secret is a redaction
  target. Sources: a consumer ends with the last listing, whatever the interleaving; discovered names have one
  owner, no wake-up and no template change is lost. varnishd: a reload is all or nothing and its error honest,
  the command line is unambiguous, no certificate in use is discarded. Start and stop: no process and no
  resource is left behind, the pod is marked up only when it serves, the drain and the shutdown end within
  their budget. Parsers: the round trips of listen addresses and command lines, and the counters of every
  document that varnishstat may print. This theory joins the start, the pipelines
  and the loop: what the last listing of a ConfigMap holds, and the endpoints and metadata that the watcher of
  an explicit backend published last, are what varnishd runs.

  \<^bold>\<open>Bounds and fuel.\<close> Only \<open>skipValue\<close> and its two loops have fuel, three times the length of the text plus
  three; \<open>varnishstat_parser_terminates\<close> shows that it is never used up, as every step but a constant number
  per value consumes a byte. Durations and times are \<open>int\<close>, in nanoseconds, with the wrap-around of \<open>int64\<close>
  written out (\<open>duration\<close>) where a product or sum may leave the range. Bodies and fields of requests are of
  any length.

  \<^bold>\<open>Parameters.\<close> What is not in the repository is an argument: the parsed template and its execution, the hash
  of a VCL, YAML, X.509 and PEM, \<open>strconv.ParseFloat\<close>, the validation functions of Kubernetes, varnishd,
  varnishadm and varnishstat with their answers, the clock and the order in which Go visits a map or a select
  picks a ready case. The laws used of them are named hypotheses, each with a witness.

  \<^bold>\<open>Not modelled.\<close> The informers of client-go that call the \<open>sync\<close> functions (the \<open>Run\<close> methods), the HTTP
  stack under the handlers, the registration of the Prometheus metrics (\<open>metrics.go\<close>), logging, the construction
  of the Kubernetes client, and the memory model of Go: a critical section or a channel operation is one step.
  Tests, charts, images and documents are no part of the program.
\<close>

section \<open>From the start to the loop\<close>

lemma started_loop_inv:
  assumes "startup exec H en c ([], []) = (Go (cf, st0), s')" and "loop_reach exec H cf st0 now0 st now"
  shows "loop_inv exec H st"
    and "rc_initial (ls_vclRecovery st) = 10 * 1000000000" and "rc_initial (ls_tlsRecovery st) = 10 * 1000000000"
proof -
  obtain inp tls r vcl where st0: "st0 = loop_init H inp tls r vcl (cf_BroadcastAddr c \<noteq> [])"
    and r: "rendered exec inp r = Some vcl" "fresh_renderer en c r"
    using startup_enters_loop [OF assms(1)] by metis
  show "loop_inv exec H st"
    using reachable_inv [OF assms(2) [unfolded st0]] r by (simp add: fresh_renderer_def)
  show "rc_initial (ls_vclRecovery st) = 10 * 1000000000" "rc_initial (ls_tlsRecovery st) = 10 * 1000000000"
    using loop_reach_initial [OF assms(2)] by (simp_all add: st0 loop_init_def Let_def)
qed

text \<open>
  C4: The controller as a whole: from a start that succeeded, in every state the event loop reaches and
  continues from, either a reload is pending and a timer is armed that will try it, or varnishd runs the
  rendering of the latest inputs with the active template, up to the hash the controller compares (or those
  inputs do not render); a pending certificate has its timer too; and every backend, values, directory and
  secret of the flags has been in the inputs since the first VCL.
\<close>

theorem controller_serves_latest:
  assumes "startup exec H en c ([], []) = (Go (cf, st0), s')"
    and "loop_reach exec H cf st0 now0 st now" and "\<not> ls_pendingShutdown st"
  shows "(if ls_pendingReload st
          then db_timer (ls_frontend st) \<noteq> None \<or> db_timer (ls_backend st) \<noteq> None \<or> recovery_channel (ls_vclRecovery st) \<noteq> None
          else (case rendered exec (ls_inputs st) (ls_rend st) of None \<Rightarrow> True | Some v \<Rightarrow> H v = H (ls_active_vcl st))) \<and>
    (ls_pendingCertNames st = {||} \<or> db_timer (ls_tlsCert st) \<noteq> None \<or> recovery_channel (ls_tlsRecovery st) \<noteq> None) \<and>
    (\<exists>tls. sources_complete c (ls_inputs st0) tls)"
proof -
  note inv = started_loop_inv [OF assms(1,2)]
  obtain inp tls r vcl where "st0 = loop_init H inp tls r vcl (cf_BroadcastAddr c \<noteq> [])" "collected en c inp tls"
    using startup_enters_loop [OF assms(1)] by metis
  then have "\<exists>tls. sources_complete c (ls_inputs st0) tls"
    using collected_all [of en c inp tls] by (auto simp: loop_init_def Let_def)
  then show ?thesis
    using inv assms(3) by (auto simp: loop_inv_def live_def certs_live_def retry_armed_def recovery_channel_def fresh_def swap_hash_ok_def
        split: option.split)
qed

theorem controller_serves_latest_witness:
  "\<exists>s'. startup echo_template id sample_start sample_flags ([], []) = (Go (loop_config_of sample_flags, sample_loop), s') \<and>
     ls_active_vcl sample_loop = ''vcl 4.1;'' \<and> rendered echo_template (ls_inputs sample_loop) (ls_rend sample_loop) = Some ''vcl 4.1;''"
proof -
  obtain tr ds where s: "startup echo_template id sample_start sample_flags ([], []) =
     (Go (loop_config_of sample_flags, sample_loop), (tr, ds))" by (rule sample_startup)
  have "\<not> ls_pendingReload sample_loop" "\<not> ls_pendingShutdown sample_loop"
    "ls_active_vcl sample_loop = ''vcl 4.1;''" "rendered echo_template (ls_inputs sample_loop) (ls_rend sample_loop) \<noteq> None"
    by (simp_all add: loop_init_def Let_def rendered_def Render_def echo_template_def new_renderer_def)
  then show ?thesis
    using controller_serves_latest [OF s loop_reach.start] s by auto
qed

lemmas values_pipeline = cp.reaches_consumer [unfolded value_feed_chan]
lemmas backends_pipeline = bp.snapshot_stored [unfolded backend_feed_chan backend_feed_ok]

lemma pipeline_serves:
  fixes p0 :: "('s, 'v, ('t, 'h) timed_loop) pipeline"
  assumes "startup exec H en c ([], []) = (Go (cf, st0), s')" and "pl_loop p0 = (st0, now0)"
    and "p = pipe_run change recv chan loop_ready (loop_deliver exec H cf event) (loop_proceed exec H cf mine) ops p0"
    and "\<And>n v now (st :: ('t, 'h) loop_state). loop_enabled cf now (event n v) st"
    and "\<not> ls_pendingReload (fst (pl_loop p))"
  shows "case rendered exec (ls_inputs (fst (pl_loop p))) (ls_rend (fst (pl_loop p))) of
      None \<Rightarrow> True | Some vcl \<Rightarrow> H vcl = H (ls_active_vcl (fst (pl_loop p)))"
proof -
  have "loop_reach exec H cf st0 now0 (fst (pl_loop p)) (snd (pl_loop p))"
    unfolding assms(3) by (rule pipe_loop_reach) (simp_all add: assms(2,4) loop_reach.start)
  then show ?thesis
    using started_loop_inv(1) [OF assms(1)] assms(5) by (auto simp: loop_inv_def live_def fresh_def swap_hash_ok_def split: option.split)
qed

text \<open>
  A change of a ConfigMap reaches varnishd: from a start that succeeded, whatever the interleaving of
  the listings of all ConfigMaps, the goroutines of the fan-in and the event loop with everything else it
  does, once nothing of a ConfigMap is under way and no reload is pending, the values the templates see are
  the decoding of its last listing, and varnishd runs the rendering of them (or they do not render).
\<close>

theorem values_reach_varnishd:
  fixes p0 :: "(values_map value_watcher, values_map, ('t, 'h) timed_loop) pipeline"
  assumes "startup exec H en c ([], []) = (Go (cf, st0), s')"
    and "pl_loop p0 = (st0, now0)" and "pl_fan p0 = fan_start cap"
    and "feed_run (configmap_sync yaml float) value_receive vw_ch pre (NewConfigMapWatcher, None) = (pl_watch p0 name, Some v0)"
    and "fmlookup (in_Values (ls_inputs st0)) name = Some (entries_of v0)"
    and "p = pipe_run (configmap_sync yaml float) value_receive vw_ch loop_ready
        (loop_deliver exec H cf (\<lambda>n v. ValuesEv n (entries_of v))) (loop_proceed exec H cf is_ValuesEv) ops p0"
    and "last_value (\<lambda>cm. Some (decoded_object yaml float cm)) (pre @ listings name ops) None = Some v"
    and "pipe_settled vw_ch name p" and "\<not> ls_pendingReload (fst (pl_loop p))"
  shows "fmlookup (in_Values (ls_inputs (fst (pl_loop p)))) name = Some (entries_of v) \<and>
    (case rendered exec (ls_inputs (fst (pl_loop p))) (ls_rend (fst (pl_loop p))) of
       None \<Rightarrow> True | Some vcl \<Rightarrow> H vcl = H (ls_active_vcl (fst (pl_loop p))))"
proof
  show "fmlookup (in_Values (ls_inputs (fst (pl_loop p)))) name = Some (entries_of v)"
    using values_pipeline [where w = NewConfigMapWatcher and p = p0 and name = name and pre = pre and ops = ops and ?v0.0 = v0
        and cap = cap and v = v] assms(2-8) by simp
  show "case rendered exec (ls_inputs (fst (pl_loop p))) (ls_rend (fst (pl_loop p))) of
      None \<Rightarrow> True | Some vcl \<Rightarrow> H vcl = H (ls_active_vcl (fst (pl_loop p)))"
    by (rule pipeline_serves [OF assms(1,2,6) _ assms(9)]) simp
qed

text \<open>
  A change of a backend reaches varnishd: from a start that succeeded, whatever the interleaving of the
  events of the Services, the updates of their endpoints, the goroutines of the fan-in and the event loop,
  discovered backends included, once nothing of an explicit backend is under way and no reload is pending, the
  templates see the endpoints its watcher published last together with the labels and annotations the Service
  has now, and varnishd runs the rendering of them (or they do not render).
\<close>

theorem backends_reach_varnishd:
  fixes p0 :: "(backend_watcher, BackendState, ('t, 'h) timed_loop) pipeline"
  assumes "startup exec H en c ([], []) = (Go (cf, st0), s')"
    and "pl_loop p0 = (st0, now0)" and "pl_fan p0 = fan_start cap"
    and "bw_run pre (NewBackendWatcher port ex, None) = (pl_watch p0 name, Some v0)"
    and "fmlookup (in_Backends (ls_inputs st0)) name = Some (group_of_state v0)" and "name \<in> set names"
    and "p = pipe_run backend_change bw_receive bw_ch loop_ready
        (loop_deliver exec H cf (\<lambda>n st. BackendEv (explicit_change n st))) (loop_proceed exec H cf (is_explicit names)) ops p0"
    and "pipe_settled bw_ch name p" and "\<not> ls_pendingReload (fst (pl_loop p))"
  shows "fmlookup (in_Backends (ls_inputs (fst (pl_loop p)))) name =
      Some \<lparr>bg_Endpoints = bw_previous (pl_watch p name), bg_Labels = bw_labels (pl_watch p name),
        bg_Annotations = bw_annotations (pl_watch p name)\<rparr> \<and>
    (case rendered exec (ls_inputs (fst (pl_loop p))) (ls_rend (fst (pl_loop p))) of
       None \<Rightarrow> True | Some vcl \<Rightarrow> H vcl = H (ls_active_vcl (fst (pl_loop p))))"
proof
  have "bw_ok (pl_watch p0 name, Some v0)" using bw_ok_run [OF bw_ok_new, of pre port ex] assms(4) by simp
  then show "fmlookup (in_Backends (ls_inputs (fst (pl_loop p)))) name =
      Some \<lparr>bg_Endpoints = bw_previous (pl_watch p name), bg_Labels = bw_labels (pl_watch p name),
        bg_Annotations = bw_annotations (pl_watch p name)\<rparr>"
    using backends_pipeline(2) [where name = name and p = p0 and ops = ops and cap = cap and ?v0.0 = v0] assms(2,3,5-8)
    by (simp add: backend_feed_def group_of_state_def snapshotLocked_def)
  show "case rendered exec (ls_inputs (fst (pl_loop p))) (ls_rend (fst (pl_loop p))) of
      None \<Rightarrow> True | Some vcl \<Rightarrow> H vcl = H (ls_active_vcl (fst (pl_loop p)))"
    by (rule pipeline_serves [OF assms(1,2,7) _ assms(9)]) simp
qed

text \<open>
  C1: A ConfigMap of the cluster is what varnishd runs: from a start that succeeded, whatever the interleaving
  of the informers with their handlers, the goroutines of the fan-in and the event loop with everything else
  it does, once \<open>Run\<close> of a watcher serves, nothing of its ConfigMap is under way and no reload is pending, the
  values the templates see are the decoding of the object in the informer's cache, and varnishd runs the
  rendering of them (or they do not render).
\<close>

theorem configmap_reaches_varnishd:
  fixes p0 :: "((strmap option, values_map value_watcher) informed, values_map, ('t, 'h) timed_loop) pipeline"
  assumes "startup exec H en c ([], []) = (Go (cf, st0), s')"
    and "pl_loop p0 = (st0, now0)" and "pl_fan p0 = fan_start cap"
    and "feed_run (ConfigMapWatcher_Run yaml float) (informed_map value_receive) run_ch pre (informed_start c0 NewConfigMapWatcher, None) =
      (pl_watch p0 name, Some v0)"
    and "fmlookup (in_Values (ls_inputs st0)) name = Some (entries_of v0)"
    and "p = pipe_run (ConfigMapWatcher_Run yaml float) (informed_map value_receive) run_ch loop_ready
        (loop_deliver exec H cf (\<lambda>n v. ValuesEv n (entries_of v))) (loop_proceed exec H cf is_ValuesEv) ops p0"
    and "pipe_settled run_ch name p" and "in_pc (pl_watch p name) = Serving" and "in_undelivered (pl_watch p name) = 0"
    and "\<not> ls_pendingReload (fst (pl_loop p))"
  shows "fmlookup (in_Values (ls_inputs (fst (pl_loop p)))) name =
      Some (entries_of (decoded_object yaml float (in_cache (pl_watch p name)))) \<and>
    (case rendered exec (ls_inputs (fst (pl_loop p))) (ls_rend (fst (pl_loop p))) of
       None \<Rightarrow> True | Some vcl \<Rightarrow> H vcl = H (ls_active_vcl (fst (pl_loop p))))"
proof
  show "fmlookup (in_Values (ls_inputs (fst (pl_loop p)))) name =
      Some (entries_of (decoded_object yaml float (in_cache (pl_watch p name))))"
    using assms(5) by (intro configmap_cache_stored [OF assms(4,3) _ assms(6-9)]) (simp add: assms(2))
  show "case rendered exec (ls_inputs (fst (pl_loop p))) (ls_rend (fst (pl_loop p))) of
      None \<Rightarrow> True | Some vcl \<Rightarrow> H vcl = H (ls_active_vcl (fst (pl_loop p)))"
    by (rule pipeline_serves [OF assms(1,2,6) _ assms(10)]) simp
qed

text \<open>
  C2: A backend of the cluster is what varnishd runs: from a start that succeeded, whatever the interleaving of
  the informers of the Services and of the EndpointSlices of every child watcher, the goroutines between them,
  the fan-in and the event loop, discovered backends included, once the watcher of an explicit backend is quiet,
  nothing of it is under way and no reload is pending, the templates see what the Service and the EndpointSlices
  in the caches say: nothing without a Service, the host of an ExternalName Service, else the endpoints of the
  slices, with the labels and filtered annotations of the Service; and varnishd runs the rendering of that (or
  it does not render).
\<close>

theorem backend_reaches_varnishd:
  fixes p0 :: "(backend_runtime, BackendState, ('t, 'h) timed_loop) pipeline"
  assumes "startup exec H en c ([], []) = (Go (cf, st0), s')"
    and "pl_loop p0 = (st0, now0)" and "pl_fan p0 = fan_start cap"
    and "feed_run backend_run_step backend_runtime_receive br_ch pre (backend_start port ex, None) = (pl_watch p0 name, Some v0)"
    and "fmlookup (in_Backends (ls_inputs st0)) name = Some (group_of_state v0)" and "name \<in> set names"
    and "p = pipe_run backend_run_step backend_runtime_receive br_ch loop_ready
        (loop_deliver exec H cf (\<lambda>n st. BackendEv (explicit_change n st))) (loop_proceed exec H cf (is_explicit names)) ops p0"
    and "pipe_settled br_ch name p" and "runtime_quiet (pl_watch p name)" and "\<not> ls_pendingReload (fst (pl_loop p))"
  shows "map_option (\<lambda>bg. (elems (bg_Endpoints bg), bg_Labels bg, bg_Annotations bg)) (fmlookup (in_Backends (ls_inputs (fst (pl_loop p)))) name) =
      Some (backend_truth port ex (in_cache (br_service (pl_watch p name))) (current_slices (pl_watch p name))) \<and>
    (case rendered exec (ls_inputs (fst (pl_loop p))) (ls_rend (fst (pl_loop p))) of
       None \<Rightarrow> True | Some vcl \<Rightarrow> H vcl = H (ls_active_vcl (fst (pl_loop p))))"
proof
  show "map_option (\<lambda>bg. (elems (bg_Endpoints bg), bg_Labels bg, bg_Annotations bg)) (fmlookup (in_Backends (ls_inputs (fst (pl_loop p)))) name) =
      Some (backend_truth port ex (in_cache (br_service (pl_watch p name))) (current_slices (pl_watch p name)))"
    using assms(5) by (intro backend_cache_stored [OF assms(4,3) _ assms(6-9)]) (simp add: assms(2))
  show "case rendered exec (ls_inputs (fst (pl_loop p))) (ls_rend (fst (pl_loop p))) of
      None \<Rightarrow> True | Some vcl \<Rightarrow> H vcl = H (ls_active_vcl (fst (pl_loop p)))"
    by (rule pipeline_serves [OF assms(1,2,7) _ assms(10)]) simp
qed

section \<open>A change of a ConfigMap and one of a backend\<close>

definition site_reload :: "string reload_env" where
  "site_reload = \<lparr>env_parsed = None, env_temp_ok = True, env_reload = Applied, env_rb_temp_ok = True,
     env_rb_reload_ok = True, env_reparsed = None\<rparr>"

definition site_ops :: "(strmap option, int \<times> string loop_event) pipe_op list" where
  "site_ops = [Observed ''site'' (Some (fmupd ''k'' ''v'' fmempty)), Forward ''site'', Push ''site'', Consume (1, Template),
     Proceed (3 * second, BackendTimer site_reload)]"

definition site_start :: "(values_map value_watcher, values_map, (string, string) timed_loop) pipeline" where
  "site_start = \<lparr>pl_watch = (\<lambda>_. \<lparr>vw_ch = [], vw_previous = Some fmempty, vw_synced = True\<rparr>),
     pl_fan = fan_start 1, pl_loop = (sample_loop, 0)\<rparr>"

abbreviation "site_run \<equiv> pipe_run (configmap_sync (\<lambda>_. None) (\<lambda>_. None)) value_receive vw_ch loop_ready
   (loop_deliver echo_template id (loop_config_of sample_flags) (\<lambda>n v. ValuesEv n (entries_of v)))
   (loop_proceed echo_template id (loop_config_of sample_flags) is_ValuesEv)"

lemma site_debounce: "cf_backendDebounce (loop_config_of sample_flags) = 2 * second" "cf_backendDebounceMax (loop_config_of sample_flags) = 0"
  by (simp_all add: loop_config_of_def minimal_accepted_def minimal_checked_def minimal_config_def default_defs)

definition site_values :: values_map where
  "site_values = Some (fmupd ''k'' (GStr ''v'') fmempty)"

lemma site_decoded: "configmap_sync (\<lambda>_. None) (\<lambda>_. None) (Some (fmupd ''k'' ''v'' fmempty)) w = values_sendLocked site_values w"
  "decoded_object (\<lambda>_. None) (\<lambda>_. None) (Some (fmupd ''k'' ''v'' fmempty)) = site_values"
proof -
  have "fmmap (decodeValue (\<lambda>_. None) (\<lambda>_. None)) (fmupd ''k'' ''v'' fmempty) = fmupd ''k'' (GStr ''v'') fmempty"
    by (rule fmap_ext) (simp add: decodeValue_def)
  then show "configmap_sync (\<lambda>_. None) (\<lambda>_. None) (Some (fmupd ''k'' ''v'' fmempty)) w = values_sendLocked site_values w"
    "decoded_object (\<lambda>_. None) (\<lambda>_. None) (Some (fmupd ''k'' ''v'' fmempty)) = site_values"
    by (simp_all add: configmap_sync_def decoded_object_def site_values_def)
qed

lemma site_values_new: "site_values \<noteq> Some fmempty"
  by (simp add: site_values_def)

text \<open>The receive schedules a reload, which is due two seconds later and finds the output unchanged.\<close>

definition site_pending :: "(string, string) loop_state" where
  "site_pending = on_values (loop_config_of sample_flags) 1 ''site'' (entries_of site_values) sample_loop"

definition site_done :: "(string, string) loop_state" where
  "site_done = handleReload echo_template id (3 * second) site_reload site_pending"

lemma site_pending_facts:
  "ls_pendingReload site_pending" "\<not> ls_pendingShutdown site_pending" "db_timer (ls_backend site_pending) = Some (1 + 2 * second)"
  "ls_rend site_pending = new_renderer ''vcl 4.1;''" "ls_lastVCLHash site_pending = ''vcl 4.1;''" "\<not> ls_templateChanged site_pending"
  by (simp_all add: site_pending_def on_values_def schedule_backend_def loop_init_def Let_def resetDebounce_def site_debounce
      debounce_idle_def second_def)

lemma site_done_idle: "\<not> ls_pendingReload site_done"
  using site_pending_facts
  by (simp add: site_done_def handleReload_def reload_render_def reload_template_def Let_def Render_def echo_template_def
      new_renderer_def clearPending_def)

lemma site_run_end:
  "pl_loop (site_run site_ops site_start) = (site_done, 3 * second)" "pipe_settled vw_ch ''site'' (site_run site_ops site_start)"
proof -
  have 1: "loop_ready (1, Template) (sample_loop, 0)" by (simp add: loop_ready_def loop_init_def Let_def)
  have 2: "loop_deliver echo_template id (loop_config_of sample_flags) (\<lambda>n v. ValuesEv n (entries_of v)) (1, Template) ''site''
      site_values (sample_loop, 0) = (site_pending, 1)"
    by (simp add: loop_deliver_def site_pending_def)
  have 3: "loop_proceed echo_template id (loop_config_of sample_flags) is_ValuesEv (3 * second, BackendTimer site_reload) (site_pending, 1) =
      (site_done, 3 * second)"
    using site_pending_facts by (simp add: loop_proceed_def loop_ready_def site_done_def due_def second_def)
  show "pl_loop (site_run site_ops site_start) = (site_done, 3 * second)" "pipe_settled vw_ch ''site'' (site_run site_ops site_start)"
    by (simp_all add: site_ops_def site_start_def pipe_run_def fan_start_def site_decoded site_values_new values_sendLocked_def
        value_receive_def chan_drain_def chan_can_send_def coalescing_send_def 1 2 3 pipe_settled_def)
qed

theorem values_reach_varnishd_witness:
  "fmlookup (in_Values (ls_inputs site_done)) ''site'' = Some [(''k'', GStr ''v'')]"
proof -
  obtain tr ds where s: "startup echo_template id sample_start sample_flags ([], []) =
     (Go (loop_config_of sample_flags, sample_loop), (tr, ds))" by (rule sample_startup)
  have pre: "feed_run (configmap_sync (\<lambda>_. None) (\<lambda>_. None)) value_receive vw_ch [Sync (Some fmempty), Receive] (NewConfigMapWatcher, None) =
      (pl_watch site_start ''site'', Some (Some fmempty))"
    by (simp add: site_start_def NewConfigMapWatcher_def configmap_sync_def values_sendLocked_def value_receive_def coalescing_send_def
        chan_drain_def)
  have first: "fmlookup (in_Values (ls_inputs sample_loop)) ''site'' = Some (entries_of (Some fmempty))"
    by (simp add: loop_init_def Let_def first_inputs_def entries_of_def)
  have last: "last_value (\<lambda>cm. Some (decoded_object (\<lambda>_. None) (\<lambda>_. None) cm)) ([Sync (Some fmempty), Receive] @ listings ''site'' site_ops) None =
      Some site_values"
    by (simp add: site_ops_def site_decoded)
  have fan: "pl_fan site_start = fan_start 1" "pl_loop site_start = (sample_loop, 0)" by (simp_all add: site_start_def)
  have idle: "\<not> ls_pendingReload (fst (pl_loop (site_run site_ops site_start)))" by (simp add: site_run_end site_done_idle)
  have "entries_of site_values = [(''k'', GStr ''v'')]" by (simp add: site_values_def entries_of_def)
  with values_reach_varnishd [OF s fan(2) fan(1) pre first refl last site_run_end(2) idle, THEN conjunct1]
  show ?thesis by (simp only: site_run_end fst_conv)
qed

text \<open>The same for an endpoint of the explicit backend \<open>app\<close>.\<close>

definition app_watcher :: backend_watcher where
  "app_watcher = fst (bw_run [SyncService (Some sample_service), ChildUpdate 0 None, TakeState] (NewBackendWatcher ''8080'' None, None))"

definition app_ops :: "(backend_event, int \<times> string loop_event) pipe_op list" where
  "app_ops = [Observed ''app'' (ChildEvent 0 (Some [external_endpoint ''h'' 81])), Forward ''app'', Push ''app'',
     Consume (1, Template), Proceed (3 * second, BackendTimer site_reload)]"

definition app_start :: "(backend_watcher, BackendState, (string, string) timed_loop) pipeline" where
  "app_start = \<lparr>pl_watch = (\<lambda>_. app_watcher), pl_fan = fan_start 1, pl_loop = (sample_loop, 0)\<rparr>"

abbreviation "app_run \<equiv> pipe_run backend_change bw_receive bw_ch loop_ready
   (loop_deliver echo_template id (loop_config_of sample_flags) (\<lambda>n st. BackendEv (explicit_change n st)))
   (loop_proceed echo_template id (loop_config_of sample_flags) (is_explicit [''app'']))"

definition app_endpoints :: BackendState where
  "app_endpoints = \<lparr>bs_Endpoints = Some [external_endpoint ''h'' 81], bs_Labels = fmempty, bs_Annotations = fmempty\<rparr>"

definition app_pending :: "(string, string) loop_state" where
  "app_pending = on_backend (loop_config_of sample_flags) 1 (explicit_change ''app'' app_endpoints) sample_loop"

definition app_done :: "(string, string) loop_state" where
  "app_done = handleReload echo_template id (3 * second) site_reload app_pending"

lemma app_pre:
  "bw_run [SyncService (Some sample_service), ChildUpdate 0 None, TakeState] (NewBackendWatcher ''8080'' None, None) =
     (\<lparr>bw_portOverride = ''8080'', bw_exclude = None, bw_previous = None, bw_labels = fmempty, bw_annotations = fmempty,
       bw_synced = True, bw_serviceNotFound = False, bw_child = Some 0, bw_nextChild = 1, bw_ch = []\<rparr>,
      Some \<lparr>bs_Endpoints = None, bs_Labels = fmempty, bs_Annotations = fmempty\<rparr>)"
  by (simp add: bw_run_def NewBackendWatcher_def syncService_def sync_metadata_def filterAnnotations_def sample_service_def
      startEndpointSliceWatcherLocked_def sendFromChild_def sendLocked_def snapshotLocked_def coalescing_send_def chan_drain_def
      bw_receive_def Let_def)

lemma app_pending_facts:
  "ls_pendingReload app_pending" "\<not> ls_pendingShutdown app_pending" "db_timer (ls_backend app_pending) = Some (1 + 2 * second)"
  "ls_rend app_pending = new_renderer ''vcl 4.1;''" "ls_lastVCLHash app_pending = ''vcl 4.1;''" "\<not> ls_templateChanged app_pending"
  by (simp_all add: app_pending_def on_backend_def backend_dropped_def explicit_change_def backend_apply_def schedule_backend_def
      loop_init_def Let_def resetDebounce_def site_debounce debounce_idle_def second_def)

lemma app_done_idle: "\<not> ls_pendingReload app_done"
  using app_pending_facts
  by (simp add: app_done_def handleReload_def reload_render_def reload_template_def Let_def Render_def echo_template_def
      new_renderer_def clearPending_def)

lemma app_run_end:
  "pl_loop (app_run app_ops app_start) = (app_done, 3 * second)" "pipe_settled bw_ch ''app'' (app_run app_ops app_start)"
  "bw_previous (pl_watch (app_run app_ops app_start) ''app'') = Some [external_endpoint ''h'' 81]"
proof -
  have 1: "loop_ready (1, Template) (sample_loop, 0)" by (simp add: loop_ready_def loop_init_def Let_def)
  have 2: "loop_deliver echo_template id (loop_config_of sample_flags) (\<lambda>n st. BackendEv (explicit_change n st)) (1, Template) ''app''
      app_endpoints (sample_loop, 0) = (app_pending, 1)"
    by (simp add: loop_deliver_def app_pending_def)
  have 3: "loop_proceed echo_template id (loop_config_of sample_flags) (is_explicit [''app'']) (3 * second, BackendTimer site_reload)
      (app_pending, 1) = (app_done, 3 * second)"
    using app_pending_facts by (simp add: loop_proceed_def loop_ready_def app_done_def due_def second_def)
  have 4: "sendFromChild 0 (Some [external_endpoint ''h'' 81]) app_watcher =
      app_watcher\<lparr>bw_previous := Some [external_endpoint ''h'' 81], bw_ch := [app_endpoints]\<rparr>"
    by (simp add: app_watcher_def app_pre sendFromChild_def sendLocked_def EndpointsEqual_iff elems_def snapshotLocked_def
        coalescing_send_def chan_drain_def app_endpoints_def)
  have 5: "bw_ch app_watcher = []" by (simp add: app_watcher_def app_pre)
  show "pl_loop (app_run app_ops app_start) = (app_done, 3 * second)" "pipe_settled bw_ch ''app'' (app_run app_ops app_start)"
    "bw_previous (pl_watch (app_run app_ops app_start) ''app'') = Some [external_endpoint ''h'' 81]"
    by (simp_all add: app_ops_def app_start_def pipe_run_def fan_start_def 4 5 bw_receive_def chan_drain_def chan_can_send_def 1 2 3 pipe_settled_def)
qed

theorem backends_reach_varnishd_witness:
  "map_option bg_Endpoints (fmlookup (in_Backends (ls_inputs app_done)) ''app'') = Some (Some [external_endpoint ''h'' 81])"
proof -
  obtain tr ds where s: "startup echo_template id sample_start sample_flags ([], []) =
     (Go (loop_config_of sample_flags, sample_loop), (tr, ds))" by (rule sample_startup)
  have pre: "bw_run [SyncService (Some sample_service), ChildUpdate 0 None, TakeState] (NewBackendWatcher ''8080'' None, None) =
      (pl_watch app_start ''app'', Some \<lparr>bs_Endpoints = None, bs_Labels = fmempty, bs_Annotations = fmempty\<rparr>)"
    by (simp add: app_start_def app_watcher_def app_pre)
  have first: "fmlookup (in_Backends (ls_inputs sample_loop)) ''app'' =
      Some (group_of_state \<lparr>bs_Endpoints = None, bs_Labels = fmempty, bs_Annotations = fmempty\<rparr>)"
    by (simp add: loop_init_def Let_def first_inputs_def group_of_state_def)
  have fan: "pl_fan app_start = fan_start 1" "pl_loop app_start = (sample_loop, 0)" by (simp_all add: app_start_def)
  have idle: "\<not> ls_pendingReload (fst (pl_loop (app_run app_ops app_start)))" by (simp add: app_run_end app_done_idle)
  have mem: "''app'' \<in> set [''app'']" by simp
  note reached = backends_reach_varnishd [OF s fan(2) fan(1) pre first mem refl app_run_end(2) idle, THEN conjunct1]
  show ?thesis using reached by (simp only: app_run_end fst_conv option.map backend_group.simps)
qed

section \<open>The same two changes, from the caches\<close>

definition site_cluster_ops :: "(strmap option informer_op, int \<times> string loop_event) pipe_op list" where
  "site_cluster_ops = [Observed ''site'' (Stored (Some (fmupd ''k'' ''v'' fmempty))), Observed ''site'' Notified, Forward ''site'',
     Push ''site'', Consume (1, Template), Proceed (3 * second, BackendTimer site_reload)]"

definition site_cluster_watch :: "(strmap option, values_map value_watcher) informed" where
  "site_cluster_watch = \<lparr>in_pc = Serving, in_cache = Some fmempty, in_undelivered = 0, in_hasSynced = True, in_cancelled = False,
     in_client = \<lparr>vw_ch = [], vw_previous = Some fmempty, vw_synced = True\<rparr>\<rparr>"

definition site_cluster :: "((strmap option, values_map value_watcher) informed, values_map, (string, string) timed_loop) pipeline" where
  "site_cluster = \<lparr>pl_watch = (\<lambda>_. site_cluster_watch), pl_fan = fan_start 1, pl_loop = (sample_loop, 0)\<rparr>"

abbreviation "site_cluster_run \<equiv> pipe_run (ConfigMapWatcher_Run (\<lambda>_. None) (\<lambda>_. None)) (informed_map value_receive) run_ch loop_ready
   (loop_deliver echo_template id (loop_config_of sample_flags) (\<lambda>n v. ValuesEv n (entries_of v)))
   (loop_proceed echo_template id (loop_config_of sample_flags) is_ValuesEv) site_cluster_ops site_cluster"

lemma site_steps:
  "loop_ready (1, Template) (sample_loop, 0)"
  "loop_deliver echo_template id (loop_config_of sample_flags) (\<lambda>n v. ValuesEv n (entries_of v)) (1, Template) ''site''
      site_values (sample_loop, 0) = (site_pending, 1)"
  "loop_proceed echo_template id (loop_config_of sample_flags) is_ValuesEv (3 * second, BackendTimer site_reload) (site_pending, 1) =
      (site_done, 3 * second)"
  using site_pending_facts
  by (simp_all add: loop_ready_def loop_deliver_def loop_proceed_def site_pending_def [symmetric] site_done_def due_def second_def)
    (simp_all add: loop_init_def Let_def)

lemma site_cluster_end:
  "pl_loop site_cluster_run = (site_done, 3 * second)" "pipe_settled run_ch ''site'' site_cluster_run"
  "in_pc (pl_watch site_cluster_run ''site'') = Serving" "in_undelivered (pl_watch site_cluster_run ''site'') = 0"
  "in_cache (pl_watch site_cluster_run ''site'') = Some (fmupd ''k'' ''v'' fmempty)"
  by (simp_all add: site_cluster_ops_def site_cluster_def site_cluster_watch_def ConfigMapWatcher_Run_def informed_map_def pipe_run_def
      fan_start_def site_decoded site_values_new values_sendLocked_def value_receive_def chan_drain_def chan_can_send_def
      coalescing_send_def site_steps pipe_settled_def)

theorem configmap_reaches_varnishd_witness:
  "fmlookup (in_Values (ls_inputs site_done)) ''site'' = Some (entries_of site_values)"
proof -
  obtain tr ds where s: "startup echo_template id sample_start sample_flags ([], []) =
     (Go (loop_config_of sample_flags, sample_loop), (tr, ds))" by (rule sample_startup)
  have pre: "feed_run (ConfigMapWatcher_Run (\<lambda>_. None) (\<lambda>_. None)) (informed_map value_receive) run_ch
      [Sync (AddHandler True), Sync Listed, Sync FirstSync, Receive] (informed_start (Some fmempty) NewConfigMapWatcher, None) =
      (pl_watch site_cluster ''site'', Some (Some fmempty))"
    by (simp add: site_cluster_def site_cluster_watch_def informed_start_def ConfigMapWatcher_Run_def informed_map_def NewConfigMapWatcher_def
        configmap_sync_def values_sendLocked_def value_receive_def coalescing_send_def chan_drain_def)
  have first: "fmlookup (in_Values (ls_inputs sample_loop)) ''site'' = Some (entries_of (Some fmempty))"
    by (simp add: loop_init_def Let_def first_inputs_def entries_of_def)
  have fan: "pl_fan site_cluster = fan_start 1" "pl_loop site_cluster = (sample_loop, 0)" by (simp_all add: site_cluster_def)
  have idle: "\<not> ls_pendingReload (fst (pl_loop site_cluster_run))" by (simp add: site_cluster_end(1) site_done_idle)
  note reached = configmap_reaches_varnishd [OF s fan(2) fan(1) pre first refl site_cluster_end(2-4) idle, THEN conjunct1]
  show ?thesis using reached unfolding site_cluster_end(1,5) site_decoded(2) fst_conv .
qed

text \<open>A slice with one endpoint appears for the backend \<open>app\<close>.\<close>

definition app_slice :: endpoint_slice where
  "app_slice = \<lparr>address_type = IPv4, slice_ports = [],
     slice_endpoints = [\<lparr>addresses = [''10.0.0.1''], ready_cond = Some True, serving_cond = None, terminating_cond = None,
       target_ref = Some ''app-0'', ep_zone = None, ep_node = None, hint_zones = None\<rparr>]\<rparr>"

definition app_pod :: endpoint where
  "app_pod = \<lparr>Host = ''10.0.0.1'', Port = 8080, Name = ''app-0'', Zone = [], NodeName = [], ForZones = []\<rparr>"

lemma app_port: "resolvePort [] ''8080'' = 8080"
proof -
  have "show_int 8080 = ''8080''"
    by (simp add: show_int_def show_nat.simps digit_char_def char_of_def of_bool_def bit_0 Let_def)
  with parse_int_show_int [of 32 8080] show ?thesis by (simp add: resolvePort_def)
qed

lemma app_served: "served ''8080'' [] = None" "served ''8080'' [app_slice] = Some [app_pod]"
proof -
  show "served ''8080'' [] = None" by code_simp
  show "served ''8080'' [app_slice] = Some [app_pod]"
    by (simp add: served_def Endpoints.collected_def families_of_def app_slice_def app_port is_ready_def endpoint_of_def opt_string_def
        canonicalizeEndpoints_def slice_of_def app_pod_def)
qed

definition app_cluster_pre :: "backend_op feed_op list" where
  "app_cluster_pre = [Sync (ServiceOp (AddHandler True)), Sync (ServiceOp (Stored (Some sample_service))), Sync (ServiceOp Listed),
     Sync (ServiceOp FirstSync), Sync (ServiceOp Notified), Sync (SliceOp 0 (AddHandler True)), Sync (SliceOp 0 Listed),
     Sync (SliceOp 0 FirstSync), Sync (TakeFromChild 0), Sync (HandOver 0), Receive]"

definition app_cluster_ops :: "(backend_op, int \<times> string loop_event) pipe_op list" where
  "app_cluster_ops = [Observed ''app'' (SliceOp 0 (Stored [app_slice])), Observed ''app'' (SliceOp 0 Notified),
     Observed ''app'' (TakeFromChild 0), Observed ''app'' (HandOver 0), Forward ''app'', Push ''app'', Consume (1, Template),
     Proceed (3 * second, BackendTimer site_reload)]"

lemma app_families: "families_of [] = (IPv6, False, False)" "families_of [app_slice] = (IPv4, True, False)"
  by (simp_all add: families_of_def app_slice_def)

definition app_next :: "(string, string) loop_state" where
  "app_next = on_backend (loop_config_of sample_flags) 1
     (explicit_change ''app'' \<lparr>bs_Endpoints = Some [app_pod], bs_Labels = fmempty, bs_Annotations = fmempty\<rparr>) sample_loop"

lemma app_next_facts:
  "ls_pendingReload app_next" "\<not> ls_pendingShutdown app_next" "db_timer (ls_backend app_next) = Some (1 + 2 * second)"
  "ls_rend app_next = new_renderer ''vcl 4.1;''" "ls_lastVCLHash app_next = ''vcl 4.1;''" "\<not> ls_templateChanged app_next"
  by (simp_all add: app_next_def on_backend_def backend_dropped_def explicit_change_def backend_apply_def schedule_backend_def
      loop_init_def Let_def resetDebounce_def site_debounce debounce_idle_def second_def)

lemma app_next_idle: "\<not> ls_pendingReload (handleReload echo_template id (3 * second) site_reload app_next)"
  using app_next_facts
  by (simp add: handleReload_def reload_render_def reload_template_def Let_def Render_def echo_template_def
      new_renderer_def clearPending_def)

text \<open>The states of the two watchers, one step after the other.\<close>

definition app_bw :: "endpoint slice \<Rightarrow> bool \<Rightarrow> BackendState list \<Rightarrow> backend_watcher" where
  "app_bw eps synced ch = \<lparr>bw_portOverride = ''8080'', bw_exclude = None, bw_previous = eps, bw_labels = fmempty, bw_annotations = fmempty,
     bw_synced = synced, bw_serviceNotFound = False, bw_child = Some 0, bw_nextChild = 1, bw_ch = ch\<rparr>"

definition app_child :: "endpoint slice \<Rightarrow> endpoint slice list \<Rightarrow> watcher" where
  "app_child eps ch = \<lparr>w_portOverride = ''8080'', w_ch = ch, w_previous = eps, w_synced = True, w_fqdnWarned = False, w_portWarned = False\<rparr>"

definition app_state :: "endpoint slice \<Rightarrow> BackendState" where
  "app_state eps = \<lparr>bs_Endpoints = eps, bs_Labels = fmempty, bs_Annotations = fmempty\<rparr>"

lemma app_bw_steps:
  "syncService (Some sample_service) (NewBackendWatcher ''8080'' None) = app_bw None False []"
  "syncService (Some sample_service) (app_bw None False []) = app_bw None False []"
  "sendFromChild 0 None (app_bw None False []) = app_bw None True [app_state None]"
  "sendFromChild 0 (Some [app_pod]) (app_bw None True []) = app_bw (Some [app_pod]) True [app_state (Some [app_pod])]"
  "bw_receive (app_bw eps b [v]) = app_bw eps b []"
  by (simp_all add: app_bw_def app_state_def NewBackendWatcher_def syncService_def sync_metadata_def filterAnnotations_def sample_service_def
      startEndpointSliceWatcherLocked_def sendFromChild_def sendLocked_def snapshotLocked_def EndpointsEqual_iff elems_def
      coalescing_send_def chan_drain_def bw_receive_def Let_def)

lemma app_bw_fields [simp]:
  "bw_nextChild (app_bw eps b ch) = 1" "bw_ch (app_bw eps b ch) = ch" "bw_child (app_bw eps b ch) = Some 0"
  by (simp_all add: app_bw_def)

lemma app_child_steps:
  "watcher_sync (Some []) (new_watcher ''8080'') = app_child None [None]"
  "watcher_sync (Some [app_slice]) (app_child None []) = app_child (Some [app_pod]) [Some [app_pod]]"
  "watcher_receive (app_child eps [v]) = app_child eps []" "w_ch (app_child eps ch) = ch"
proof -
  have port: "snd (snd (Endpoints.collected ''8080'' [app_slice])) = False"
    by (simp add: Endpoints.collected_def families_of_def app_slice_def app_port is_ready_def Let_def)
  show "watcher_sync (Some []) (new_watcher ''8080'') = app_child None [None]"
    by (simp add: watcher_sync_def app_families app_served new_watcher_def app_child_def coalescing_send_def chan_drain_def
        Endpoints.collected_def Let_def)
  show "watcher_sync (Some [app_slice]) (app_child None []) = app_child (Some [app_pod]) [Some [app_pod]]"
    using port by (cases "Endpoints.collected ''8080'' [app_slice]")
      (simp add: watcher_sync_def app_families app_served app_child_def coalescing_send_def chan_drain_def EndpointsEqual_iff elems_def Let_def)
qed (simp_all add: app_child_def watcher_receive_def chan_drain_def)

definition app_runtime :: "endpoint_slice list \<Rightarrow> endpoint slice \<Rightarrow> backend_runtime" where
  "app_runtime slices eps =
     \<lparr>br_service = \<lparr>in_pc = Serving, in_cache = Some sample_service, in_undelivered = 0, in_hasSynced = True, in_cancelled = False,
        in_client = app_bw eps True []\<rparr>,
      br_child = (\<lambda>_. informed_start [] (new_watcher ''8080''))(0 := \<lparr>in_pc = Serving, in_cache = slices, in_undelivered = 0,
        in_hasSynced = True, in_cancelled = False, in_client = app_child eps []\<rparr>),
      br_held = (\<lambda>_. None)\<rparr>"

lemmas app_eval = BackendWatcher_Run_def Watcher_Run_def informed_map_def informed_start_def app_bw_steps app_child_steps app_runtime_def
  backend_runtime_receive_def

lemma app_cluster_pre_run:
  "feed_run backend_run_step backend_runtime_receive br_ch app_cluster_pre (backend_start ''8080'' None, None) =
     (app_runtime [] None, Some (app_state None))"
  by (simp add: app_cluster_pre_def backend_start_def app_eval)

definition app_cluster :: "(backend_runtime, BackendState, (string, string) timed_loop) pipeline" where
  "app_cluster = \<lparr>pl_watch = (\<lambda>_. app_runtime [] None), pl_fan = fan_start 1, pl_loop = (sample_loop, 0)\<rparr>"

abbreviation "app_cluster_run \<equiv> pipe_run backend_run_step backend_runtime_receive br_ch loop_ready
   (loop_deliver echo_template id (loop_config_of sample_flags) (\<lambda>n st. BackendEv (explicit_change n st)))
   (loop_proceed echo_template id (loop_config_of sample_flags) (is_explicit [''app''])) app_cluster_ops app_cluster"

lemma app_loop_steps:
  "loop_deliver echo_template id (loop_config_of sample_flags) (\<lambda>n st. BackendEv (explicit_change n st)) (1, Template) ''app''
      (app_state (Some [app_pod])) (sample_loop, 0) = (app_next, 1)"
  "loop_proceed echo_template id (loop_config_of sample_flags) (is_explicit [''app'']) (3 * second, BackendTimer site_reload)
      (app_next, 1) = (handleReload echo_template id (3 * second) site_reload app_next, 3 * second)"
  using app_next_facts by (simp_all add: loop_deliver_def loop_proceed_def loop_ready_def due_def second_def)
    (simp_all add: app_next_def app_state_def)

lemma app_cluster_end:
  "pl_loop app_cluster_run = (handleReload echo_template id (3 * second) site_reload app_next, 3 * second)"
  "pipe_settled br_ch ''app'' app_cluster_run" "pl_watch app_cluster_run ''app'' = app_runtime [app_slice] (Some [app_pod])"
  by (simp_all add: app_cluster_ops_def app_cluster_def pipe_run_def fan_start_def app_eval site_steps(1) app_loop_steps
      chan_can_send_def pipe_settled_def)

theorem backend_reaches_varnishd_witness:
  "map_option (\<lambda>bg. (elems (bg_Endpoints bg), bg_Labels bg, bg_Annotations bg))
     (fmlookup (in_Backends (ls_inputs (handleReload echo_template id (3 * second) site_reload app_next))) ''app'') =
   Some ([app_pod], fmempty, fmempty)"
proof -
  obtain tr ds where s: "startup echo_template id sample_start sample_flags ([], []) =
     (Go (loop_config_of sample_flags, sample_loop), (tr, ds))" by (rule sample_startup)
  have fan: "pl_fan app_cluster = fan_start 1" "pl_loop app_cluster = (sample_loop, 0)" by (simp_all add: app_cluster_def)
  have pre: "feed_run backend_run_step backend_runtime_receive br_ch app_cluster_pre (backend_start ''8080'' None, None) =
      (pl_watch app_cluster ''app'', Some (app_state None))"
    by (simp add: app_cluster_pre_run app_cluster_def)
  have first: "fmlookup (in_Backends (ls_inputs sample_loop)) ''app'' = Some (group_of_state (app_state None))"
    by (simp add: loop_init_def Let_def first_inputs_def group_of_state_def app_state_def)
  have mem: "''app'' \<in> set [''app'']" by simp
  have quiet: "runtime_quiet (pl_watch app_cluster_run ''app'')"
    unfolding app_cluster_end(3) by (simp add: runtime_quiet_def app_runtime_def app_child_steps(4))
  have idle: "\<not> ls_pendingReload (fst (pl_loop app_cluster_run))" by (simp add: app_cluster_end(1) app_next_idle)
  have truth: "backend_truth ''8080'' None (in_cache (br_service (app_runtime [app_slice] (Some [app_pod]))))
      (current_slices (app_runtime [app_slice] (Some [app_pod]))) = ([app_pod], fmempty, fmempty)"
    by (simp add: app_runtime_def current_slices_def backend_truth_def sample_service_def app_served filterAnnotations_def elems_def)
  show ?thesis
    using backend_reaches_varnishd [OF s fan(2) fan(1) pre first mem refl app_cluster_end(2) quiet idle, THEN conjunct1]
    unfolding app_cluster_end(1,3) truth fst_conv .
qed

section \<open>A discovered backend\<close>


text \<open>
  The Service \<open>api\<close> is adopted by the watcher 7 of \<open>DiscoveryWorld\<close>; its EndpointSlice is there at the first
  listing, the update goes out and the loop reloads.
\<close>

definition api_ops :: "backend_op list" where
  "api_ops = [ServiceOp (AddHandler True), ServiceOp (Stored (Some svc_a)), ServiceOp Listed, ServiceOp FirstSync, ServiceOp Notified,
     SliceOp 0 (AddHandler True), SliceOp 0 (Stored [app_slice]), SliceOp 0 Listed, SliceOp 0 FirstSync, SliceOp 0 Notified,
     TakeFromChild 0, HandOver 0]"

definition api_runtime :: "BackendState list \<Rightarrow> backend_runtime" where
  "api_runtime ch =
     \<lparr>br_service = \<lparr>in_pc = Serving, in_cache = Some svc_a, in_undelivered = 0, in_hasSynced = True, in_cancelled = False,
        in_client = app_bw (Some [app_pod]) True ch\<rparr>,
      br_child = (\<lambda>_. informed_start [] (new_watcher ''8080''))(0 := \<lparr>in_pc = Serving, in_cache = [app_slice], in_undelivered = 0,
        in_hasSynced = True, in_cancelled = False, in_client = app_child (Some [app_pod]) []\<rparr>),
      br_held = (\<lambda>_. None)\<rparr>"

lemma api_steps:
  "syncService (Some svc_a) (NewBackendWatcher ''8080'' None) = app_bw None False []"
  "syncService (Some svc_a) (app_bw None False []) = app_bw None False []"
  "sendFromChild 0 (Some [app_pod]) (app_bw None False []) = app_bw (Some [app_pod]) True [app_state (Some [app_pod])]"
  "watcher_sync (Some [app_slice]) (new_watcher ''8080'') = app_child (Some [app_pod]) [Some [app_pod]]"
  "watcher_sync (Some [app_slice]) (app_child (Some [app_pod]) [Some [app_pod]]) = app_child (Some [app_pod]) [Some [app_pod]]"
proof -
  have port: "snd (snd (Endpoints.collected ''8080'' [app_slice])) = False"
    by (simp add: Endpoints.collected_def families_of_def app_slice_def app_port is_ready_def Let_def)
  show "syncService (Some svc_a) (NewBackendWatcher ''8080'' None) = app_bw None False []"
    "syncService (Some svc_a) (app_bw None False []) = app_bw None False []"
    "sendFromChild 0 (Some [app_pod]) (app_bw None False []) = app_bw (Some [app_pod]) True [app_state (Some [app_pod])]"
    by (simp_all add: app_bw_def app_state_def NewBackendWatcher_def syncService_def sync_metadata_def filterAnnotations_def svc_a_def
        sample_service_def startEndpointSliceWatcherLocked_def sendFromChild_def sendLocked_def snapshotLocked_def EndpointsEqual_iff
        elems_def coalescing_send_def chan_drain_def Let_def)
  show "watcher_sync (Some [app_slice]) (new_watcher ''8080'') = app_child (Some [app_pod]) [Some [app_pod]]"
    "watcher_sync (Some [app_slice]) (app_child (Some [app_pod]) [Some [app_pod]]) = app_child (Some [app_pod]) [Some [app_pod]]"
    using port by (cases "Endpoints.collected ''8080'' [app_slice]",
      simp add: watcher_sync_def app_families app_served new_watcher_def app_child_def coalescing_send_def chan_drain_def EndpointsEqual_iff
        elems_def Let_def)+
qed

lemma api_run: "fold backend_run_step api_ops (backend_start ''8080'' None) = api_runtime [app_state (Some [app_pod])]"
  by (simp add: api_ops_def backend_start_def api_steps api_runtime_def BackendWatcher_Run_def Watcher_Run_def informed_map_def
      informed_start_def app_child_steps)

abbreviation "api_port \<equiv> \<lambda>_ _. ''8080''"
abbreviation "api_reach \<equiv> flow_reach echo_template id (loop_config_of sample_flags) (\<lambda>_. {||}) {|7, 2|} api_port None ''api'' (sample_loop, 0)"

definition api_adopted :: "(string, string) flow" where
  "api_adopted = flow_reconcile 7 [svc_a] [] world_one
     \<lparr>fl_world = world_one, fl_adopted = [], fl_child = (\<lambda>_ _. backend_start ''8080'' None), fl_net = [], fl_seen = [], fl_loop = (sample_loop, 0)\<rparr>"

lemma api_adopted_reach: "api_reach api_adopted"
proof -
  have s: "api_reach \<lparr>fl_world = world_one, fl_adopted = [], fl_child = (\<lambda>_ _. backend_start ''8080'' None), fl_net = [], fl_seen = [],
      fl_loop = (sample_loop, 0)\<rparr>"
  proof -
    have w7: "fmlookup (wd_watchers (fl_world f)) 7 = Some (watcher_of 7 fmempty)" "fmlookup (wd_watchers (fl_world f)) 2 = Some (watcher_of 2 fmempty)"
      if "wd_watchers (fl_world f) = wd_watchers (start_world (\<lambda>_. {||}) {|7, 2|})" for f :: "(string, string) flow"
      using that start_two by simp_all
    have start: "api_reach \<lparr>fl_world = start_world (\<lambda>_. {||}) {|7, 2|}, fl_adopted = [], fl_child = (\<lambda>_ _. backend_start ''8080'' None),
        fl_net = [], fl_seen = [], fl_loop = (sample_loop, 0)\<rparr>" (is "api_reach ?f0") by (rule flow_reach.start)
    note one = flow_reach.subscribe [OF start w7(1)]
    note two = flow_reach.subscribe [OF one w7(2)]
    show ?thesis using two by (simp add: world_one_def start_world_facts reg_two_eq)
  qed
  show ?thesis
    unfolding api_adopted_def
    using flow_reach.event [OF s, of 7 "watcher_of 7 fmempty" "[]" "[svc_a]"] start_two(1) reg_two_subs(1)
    by (simp add: world_one_def covers_def watcher_of_def)
qed

lemma api_adopted_facts:
  "fl_adopted api_adopted = [backend_a]" "fl_net api_adopted = []" "fl_loop api_adopted = (sample_loop, 0)" "fl_seen api_adopted = []"
  "fl_child api_adopted = (\<lambda>_ _. backend_start ''8080'' None)"
  "owner ''api'' (fl_world api_adopted) g \<longleftrightarrow> g = Suc 0"
proof -
  have dw: "fmlookup (wd_watchers world_one) 7 = Some (watcher_of 7 fmempty)" by (simp add: world_one_def start_two)
  have w: "wd_registry world_one = reg_two" "wd_gen world_one = 0" by (simp_all add: world_one_def start_world_facts)
  have s: "syncServices (Some [svc_a]) [] (wd_registry world_one) (wd_gen world_one) (watcher_of 7 fmempty) =
      ((reg_two\<lparr>nr_owners := fmupd ''api'' (ownerToken 7 ''a/api'') fmempty\<rparr>, Suc 0, watcher_of 7 (fmupd ''a/api'' backend_a fmempty)), [])"
    unfolding w by (rule sync_a)
  have b: "dw_backends (watcher_of 7 b) = Some b" for b by (simp add: watcher_of_def)
  have v: "fmvalues (fmupd k v fmempty) = [v]" for k :: string and v :: managedBackend by (simp add: fmvalues_def)
  show "fl_adopted api_adopted = [backend_a]" "fl_net api_adopted = []" "fl_loop api_adopted = (sample_loop, 0)" "fl_seen api_adopted = []"
    "fl_child api_adopted = (\<lambda>_ _. backend_start ''8080'' None)"
    by (simp_all add: api_adopted_def) (simp_all add: flow_reconcile_def dw s b v, simp_all add: w backend_a_def)
  have reach: "disc_world (\<lambda>_. {||}) {|7, 2|} (fl_world api_adopted)" by (rule flow_world [OF api_adopted_reach])
  have "fl_world api_adopted = reconcile_in 7 [svc_a] [] world_one" by (simp add: api_adopted_def flow_reconcile_def dw s)
  then have "fmlookup (wd_watchers (fl_world api_adopted)) 7 = Some (watcher_of 7 (fmupd ''a/api'' backend_a fmempty))"
    by (simp add: reconcile_in_def dw s)
  then have "owner ''api'' (fl_world api_adopted) (Suc 0)"
    unfolding owner_def by (intro exI [of _ 7] exI [of _ "fmupd ''a/api'' backend_a fmempty"] exI [of _ "''a/api''"] exI [of _ backend_a] exI conjI)
      (auto simp: b backend_a_def)
  then show "owner ''api'' (fl_world api_adopted) g \<longleftrightarrow> g = Suc 0"
    using owner_unique [OF reach, of "''api''" g "Suc 0"] by blast
qed

definition api_change :: backendChange where
  "api_change = backendChangeFromUpdate (state_update ''api'' (Suc 0) (app_state (Some [app_pod])))"

definition api_next :: "(string, string) loop_state" where
  "api_next = on_backend (loop_config_of sample_flags) 1 api_change sample_loop"

lemma api_next_facts:
  "ls_pendingReload api_next" "\<not> ls_pendingShutdown api_next" "db_timer (ls_backend api_next) = Some (1 + 2 * second)"
  "ls_rend api_next = new_renderer ''vcl 4.1;''" "ls_lastVCLHash api_next = ''vcl 4.1;''" "\<not> ls_templateChanged api_next"
  by (simp_all add: api_next_def api_change_def on_backend_def backend_dropped_def backend_apply_def schedule_backend_def live_gen_def
      removed_gen_def loop_init_def Let_def resetDebounce_def site_debounce debounce_idle_def second_def)

lemma api_next_idle: "\<not> ls_pendingReload (handleReload echo_template id (3 * second) site_reload api_next)"
  using api_next_facts
  by (simp add: handleReload_def reload_render_def reload_template_def Let_def Render_def echo_template_def
      new_renderer_def clearPending_def)

definition api_done :: "(string, string) flow" where
  "api_done = api_adopted\<lparr>fl_child := (fl_child api_adopted)(''api'' := (fl_child api_adopted ''api'')(Suc 0 := api_runtime [])),
     fl_seen := [state_update ''api'' (Suc 0) (app_state (Some [app_pod]))],
     fl_loop := (handleReload echo_template id (3 * second) site_reload api_next, 3 * second)\<rparr>"

lemma api_received: "backend_runtime_receive (api_runtime [st]) = api_runtime []"
  by (simp add: api_runtime_def backend_runtime_receive_def informed_map_def app_bw_steps)

lemma api_done_reach: "api_reach api_done"
proof -
  let ?f1 = "fold (flow_child backend_a) api_ops api_adopted"
  let ?st = "app_state (Some [app_pod])"
  have mb: "mb_name backend_a = ''api''" "mb_gen backend_a = Suc 0" by (simp_all add: backend_a_def)
  have r1: "api_reach ?f1" by (rule flow_children [OF api_adopted_reach]) (simp add: api_adopted_facts)
  have ch: "fl_child ?f1 ''api'' (Suc 0) = api_runtime [?st]"
    using mb by (simp add: flow_children_state api_adopted_facts api_run)
  have br: "br_ch (api_runtime [?st]) = [?st]" by (simp add: api_runtime_def)
  let ?f2 = "?f1\<lparr>fl_child := (fl_child ?f1)(''api'' := (fl_child ?f1 ''api'')(Suc 0 := api_runtime [])), fl_net := [state_update ''api'' (Suc 0) ?st]\<rparr>"
  have f2: "flow_forward backend_a ?f1 = ?f2"
    using flow_forward_Cons [of ?f1 backend_a] br unfolding mb ch by (simp add: api_received forward_state mb flow_children_state(3) api_adopted_facts)
  have r2: "api_reach ?f2"
    using flow_reach.forward [OF r1, of backend_a] f2 by (simp add: flow_children_state api_adopted_facts)
  let ?u = "state_update ''api'' (Suc 0) ?st"
  have "fl_net ?f2 = [] @ ?u # []" "list_all (\<lambda>v. \<not> same_source v ?u) []" by simp_all
  moreover have "loop_ready (1, BackendEv (backendChangeFromUpdate ?u)) (fl_loop ?f2)"
    by (simp add: flow_children_state api_adopted_facts loop_ready_def loop_init_def Let_def)
  ultimately have "api_reach (?f2\<lparr>fl_net := [] @ [], fl_seen := fl_seen ?f2 @ [?u], fl_loop := (loop_handle echo_template id
      (loop_config_of sample_flags) 1 (BackendEv (backendChangeFromUpdate ?u)) (fst (fl_loop ?f2)), 1)\<rparr>)"
    by (rule flow_reach.deliver [OF r2])
  then have r3: "api_reach (?f2\<lparr>fl_net := [], fl_seen := [?u], fl_loop := (api_next, 1)\<rparr>)"
    by (simp add: flow_children_state api_adopted_facts api_next_def api_change_def)
  from flow_reach.proceed [OF r3, of "3 * second" "BackendTimer site_reload"]
  have "api_reach (?f2\<lparr>fl_net := [], fl_seen := [state_update ''api'' (Suc 0) ?st],
      fl_loop := (handleReload echo_template id (3 * second) site_reload api_next, 3 * second)\<rparr>)"
    using api_next_facts by (simp add: loop_ready_def due_def flow_other_def second_def)
  moreover have "api_done = ?f2\<lparr>fl_net := [], fl_seen := [state_update ''api'' (Suc 0) ?st],
      fl_loop := (handleReload echo_template id (3 * second) site_reload api_next, 3 * second)\<rparr>"
    by (rule flow.equality) (simp_all add: api_done_def flow_children_state api_adopted_facts mb)
  ultimately show ?thesis by simp
qed


end
